(* ===== verification/Go_Prelude.thy ===== *)
theory Go_Prelude
  imports Main "HOL-Library.Word" "HOL-Library.Sublist" "HOL-Library.Char_ord"
    "HOL-Library.List_Lexorder" "HOL-Library.AList"
begin

text \<open>
  The part of Go and of its standard library that the components use, and the generic lemmas
  about it: byte strings with the functions of \<^verbatim>\<open>strings\<close> and \<^verbatim>\<open>strconv\<close>, instants and
  durations of \<^verbatim>\<open>time\<close>, maps with an explicit iteration order, and three interfaces that
  several components implement (a machine with an invariant, a machine with a bounded table, a
  codec with its line framing).

  A Go string is a \<^typ>\<open>string\<close>, one \<^typ>\<open>char\<close> per byte. Letter case and white space are
  those of the ASCII range, so for strings with bytes above 127 the Unicode cases of
  \<^verbatim>\<open>strings.ToLower\<close>, \<^verbatim>\<open>strings.EqualFold\<close> and \<^verbatim>\<open>strings.TrimSpace\<close> are not covered:
  such bytes stand for themselves.
\<close>

named_theorems go_str "equations of the string library"
named_theorems go_time "equations of the time library"
named_theorems go_map "equations of the map library"

section \<open>Integers, instants and durations\<close>

type_synonym u64 = "64 word"
type_synonym byte = "8 word"

lemma unat_byte_less [simp]: "unat (b :: byte) < 256"
proof -
  have "unat b < 2 ^ LENGTH(8)" by (rule unsigned_less)
  then show ?thesis by simp
qed

lemma unat_u64_less: "unat (n :: u64) < 2 ^ 64"
proof -
  have "unat n < 2 ^ LENGTH(64)" by (rule unsigned_less)
  then show ?thesis by simp
qed

text \<open>An instant counts nanoseconds from Go's zero time, which is the instant 0; a duration
  is a signed number of nanoseconds. Subtraction saturates at the range of a 64-bit integer,
  as \<^verbatim>\<open>Time.Sub\<close> does.\<close>

type_synonym gotime = int
type_synonym duration = int

definition max_duration :: duration where "max_duration = 2 ^ 63 - 1"
definition min_duration :: duration where "min_duration = - (2 ^ 63)"

definition is_zero :: "gotime \<Rightarrow> bool" where "is_zero t \<longleftrightarrow> t = 0"

definition time_sub :: "gotime \<Rightarrow> gotime \<Rightarrow> duration" where
  "time_sub t u = max min_duration (min max_duration (t - u))"

definition before :: "gotime \<Rightarrow> gotime \<Rightarrow> bool" where "before t u \<longleftrightarrow> t < u"

definition millisecond :: duration where "millisecond = 1000000"
definition second :: duration where "second = 1000 * millisecond"
definition minute :: duration where "minute = 60 * second"
definition hour :: duration where "hour = 60 * minute"

lemmas duration_defs [go_time] = hour_def minute_def second_def millisecond_def
declare is_zero_def [go_time] before_def [go_time]

lemma time_sub_self [simp]: "time_sub t t = 0"
  by (simp add: time_sub_def min_duration_def max_duration_def)

lemma time_sub_gt_iff [go_time]:
  "min_duration \<le> d \<Longrightarrow> d < max_duration \<Longrightarrow> d < time_sub t u \<longleftrightarrow> d < t - u"
  by (auto simp: time_sub_def max_def min_def)

lemma time_sub_lt_iff [go_time]:
  "min_duration < d \<Longrightarrow> d \<le> max_duration \<Longrightarrow> time_sub t u < d \<longleftrightarrow> t - u < d"
  by (auto simp: time_sub_def max_def min_def)

section \<open>Byte strings\<close>

definition go_space :: "char \<Rightarrow> bool" where
  "go_space c \<longleftrightarrow> c \<in> set [CHR 0x09, CHR 0x0A, CHR 0x0B, CHR 0x0C, CHR 0x0D, CHR 0x20]"

definition lower_char :: "char \<Rightarrow> char" where
  "lower_char c = (let n = of_char c :: nat in if 65 \<le> n \<and> n \<le> 90 then char_of (n + 32) else c)"

definition upper_char :: "char \<Rightarrow> char" where
  "upper_char c = (let n = of_char c :: nat in if 97 \<le> n \<and> n \<le> 122 then char_of (n - 32) else c)"

definition to_lower :: "string \<Rightarrow> string" where "to_lower s = map lower_char s"
definition to_upper :: "string \<Rightarrow> string" where "to_upper s = map upper_char s"
definition equal_fold :: "string \<Rightarrow> string \<Rightarrow> bool" where
  "equal_fold s t \<longleftrightarrow> to_lower s = to_lower t"

definition trim_right_by :: "('a \<Rightarrow> bool) \<Rightarrow> 'a list \<Rightarrow> 'a list" where
  "trim_right_by p s = rev (dropWhile p (rev s))"

definition trim_space :: "string \<Rightarrow> string" where
  "trim_space s = trim_right_by go_space (dropWhile go_space s)"

definition has_prefix :: "string \<Rightarrow> string \<Rightarrow> bool" where "has_prefix s p \<longleftrightarrow> prefix p s"
definition has_suffix :: "string \<Rightarrow> string \<Rightarrow> bool" where "has_suffix s p \<longleftrightarrow> suffix p s"
definition trim_prefix :: "string \<Rightarrow> string \<Rightarrow> string" where
  "trim_prefix s p = (if has_prefix s p then drop (length p) s else s)"
definition trim_suffix :: "string \<Rightarrow> string \<Rightarrow> string" where
  "trim_suffix s p = (if has_suffix s p then take (length s - length p) s else s)"
definition contains_str :: "string \<Rightarrow> string \<Rightarrow> bool" where "contains_str s t \<longleftrightarrow> sublist t s"
definition contains_any :: "string \<Rightarrow> string \<Rightarrow> bool" where
  "contains_any s cs \<longleftrightarrow> list_ex (\<lambda>c. c \<in> set cs) s"

text \<open>\<^verbatim>\<open>strings.Split\<close> on one separator character, \<^verbatim>\<open>strings.Fields\<close>,
  \<^verbatim>\<open>strings.Join\<close> and \<^verbatim>\<open>strings.Cut\<close> on one character.\<close>

fun split_by :: "('a \<Rightarrow> bool) \<Rightarrow> 'a list \<Rightarrow> 'a list list" where
  "split_by p [] = [[]]"
| "split_by p (x # xs) =
     (if p x then [] # split_by p xs
      else (case split_by p xs of [] \<Rightarrow> [[x]] | y # ys \<Rightarrow> (x # y) # ys))"

abbreviation split_on :: "char \<Rightarrow> string \<Rightarrow> string list" where
  "split_on c \<equiv> split_by (\<lambda>x. x = c)"

definition str_fields :: "string \<Rightarrow> string list" where
  "str_fields s = filter (\<lambda>w. w \<noteq> []) (split_by go_space s)"

fun join_with :: "'a list \<Rightarrow> 'a list list \<Rightarrow> 'a list" where
  "join_with sep [] = []"
| "join_with sep [x] = x"
| "join_with sep (x # y # ys) = x @ sep @ join_with sep (y # ys)"

definition cut_char :: "char \<Rightarrow> string \<Rightarrow> string \<times> string \<times> bool" where
  "cut_char c s = (if c \<in> set s then (takeWhile (\<lambda>x. x \<noteq> c) s, tl (dropWhile (\<lambda>x. x \<noteq> c) s), True)
                   else (s, [], False))"

definition count_char :: "char \<Rightarrow> string \<Rightarrow> nat" where
  "count_char c s = length (filter (\<lambda>x. x = c) s)"

lemma trim_right_by_Nil [simp]: "trim_right_by p [] = []"
  by (simp add: trim_right_by_def)

lemma trim_right_by_snoc [simp]:
  "trim_right_by p (xs @ [x]) = (if p x then trim_right_by p xs else xs @ [x])"
  by (simp add: trim_right_by_def)

lemma trim_right_by_prefix: "prefix (trim_right_by p s) s"
  by (induction s rule: rev_induct) (auto simp: prefix_append)

lemma trim_right_by_id: "(s = [] \<or> \<not> p (last s)) \<Longrightarrow> trim_right_by p s = s"
  by (induction s rule: rev_induct) auto

lemma trim_right_by_last: "trim_right_by p s \<noteq> [] \<Longrightarrow> \<not> p (last (trim_right_by p s))"
  by (induction s rule: rev_induct) (auto split: if_splits)

lemma trim_right_by_append:
  "trim_right_by p (s @ t) = (if list_all p t then trim_right_by p s else s @ trim_right_by p t)"
  by (induction t rule: rev_induct) (auto simp flip: append_assoc)

lemma trim_space_id:
  assumes "\<forall>c \<in> set s. \<not> go_space c"
  shows "trim_space s = s"
proof -
  have "dropWhile go_space s = s" using assms by (cases s) auto
  moreover have "trim_right_by go_space s = s"
    using assms last_in_set [of s] by (intro trim_right_by_id) blast
  ultimately show ?thesis by (simp add: trim_space_def)
qed

lemma trim_space_subset: "set (trim_space s) \<subseteq> set s"
proof -
  have "set (trim_space s) \<subseteq> set (dropWhile go_space s)"
    unfolding trim_space_def by (rule set_mono_prefix) (rule trim_right_by_prefix)
  then show ?thesis by (auto dest: set_dropWhileD)
qed

lemma hd_trim_right_by: "trim_right_by p s \<noteq> [] \<Longrightarrow> hd (trim_right_by p s) = hd s"
proof -
  assume *: "trim_right_by p s \<noteq> []"
  obtain t where t: "s = trim_right_by p s @ t" using trim_right_by_prefix [of p s] by (rule prefixE)
  have "hd s = hd (trim_right_by p s @ t)" using t by (rule arg_cong)
  with * show ?thesis by simp
qed

lemma trim_space_idem [simp]: "trim_space (trim_space s) = trim_space s"
proof (cases "trim_space s = []")
  case True
  then show ?thesis by (simp add: trim_space_def)
next
  case False
  let ?d = "dropWhile go_space s"
  from False have ne: "trim_right_by go_space ?d \<noteq> []" by (simp add: trim_space_def)
  then have d: "?d \<noteq> []" by (metis trim_right_by_Nil)
  have "\<not> go_space (hd (trim_right_by go_space ?d))"
    using hd_dropWhile [OF d] by (simp add: hd_trim_right_by [OF ne])
  then have "dropWhile go_space (trim_space s) = trim_space s"
    using ne by (cases "trim_space s") (auto simp: trim_space_def)
  then show ?thesis
    using trim_right_by_last [OF ne] by (simp add: trim_space_def trim_right_by_id)
qed

lemma split_by_nonempty [simp]: "split_by p s \<noteq> []"
  by (induction s) (auto split: list.splits)

lemma join_split_on: "join_with [c] (split_on c s) = s"
proof (induction s)
  case Nil
  then show ?case by simp
next
  case (Cons x xs)
  obtain y ys where yy: "split_on c xs = y # ys" by (cases "split_on c xs") auto
  with Cons show ?case by (cases ys) auto
qed

lemma split_by_none: "\<forall>x \<in> set s. \<not> p x \<Longrightarrow> split_by p s = [s]"
  by (induction s) auto

lemma split_by_append:
  "\<forall>x \<in> set s. \<not> p x \<Longrightarrow> p c \<Longrightarrow> split_by p (s @ c # t) = s # split_by p t"
  by (induction s) auto

lemma split_on_append [simp]: "c \<notin> set s \<Longrightarrow> split_on c (s @ c # t) = s # split_on c t"
  by (rule split_by_append) auto

lemma split_on_none: "c \<notin> set s \<Longrightarrow> split_on c s = [s]"
  by (rule split_by_none) auto

lemma split_join_on:
  "xs \<noteq> [] \<Longrightarrow> \<forall>x \<in> set xs. c \<notin> set x \<Longrightarrow> split_on c (join_with [c] xs) = xs"
proof (induction xs rule: induct_list012)
  case (3 x y ys)
  then have "split_on c (x @ c # join_with [c] (y # ys)) = x # split_on c (join_with [c] (y # ys))"
    by (intro split_by_append) auto
  with 3 show ?case by auto
qed (auto intro!: split_by_none)

lemma split_by_elem: "w \<in> set (split_by p s) \<Longrightarrow> x \<in> set w \<Longrightarrow> x \<in> set s \<and> \<not> p x"
proof (induction s arbitrary: w)
  case Nil
  then show ?case by simp
next
  case (Cons a s)
  obtain y ys where "split_by p s = y # ys" by (cases "split_by p s") auto
  with Cons show ?case by (fastforce split: if_splits)
qed

lemma str_fields_elem: "w \<in> set (str_fields s) \<Longrightarrow> w \<noteq> [] \<and> (\<forall>c \<in> set w. \<not> go_space c \<and> c \<in> set s)"
  unfolding str_fields_def by (auto dest: split_by_elem)

lemma str_fields_single: "s \<noteq> [] \<Longrightarrow> \<forall>c \<in> set s. \<not> go_space c \<Longrightarrow> str_fields s = [s]"
  by (simp add: str_fields_def split_by_none)

lemma str_fields_pair:
  assumes "s \<noteq> []" "t \<noteq> []" "\<forall>c \<in> set s. \<not> go_space c" "\<forall>c \<in> set t. \<not> go_space c"
  shows "str_fields (s @ CHR '' '' # t) = [s, t]"
  using assms by (simp add: str_fields_def split_by_append split_by_none go_space_def)

lemma cut_char_found: "c \<notin> set a \<Longrightarrow> cut_char c (a @ c # b) = (a, b, True)"
proof -
  assume "c \<notin> set a"
  then have "takeWhile (\<lambda>x. x \<noteq> c) (a @ c # b) = a \<and> dropWhile (\<lambda>x. x \<noteq> c) (a @ c # b) = c # b"
    by (induction a) auto
  then show ?thesis by (simp add: cut_char_def)
qed

lemma lower_char_idem [simp]: "lower_char (lower_char c) = lower_char c"
  by (auto simp: lower_char_def Let_def)

lemma to_lower_idem [simp]: "to_lower (to_lower s) = to_lower s"
  by (simp add: to_lower_def)

lemma equal_fold_refl [simp]: "equal_fold s s"
  by (simp add: equal_fold_def)

lemma equal_fold_lower [simp]: "equal_fold (to_lower s) t = equal_fold s t"
  by (simp add: equal_fold_def)

section \<open>Decimal numerals\<close>

definition is_digit :: "char \<Rightarrow> bool" where
  "is_digit c \<longleftrightarrow> (let n = of_char c :: nat in 48 \<le> n \<and> n \<le> 57)"

definition digit_val :: "char \<Rightarrow> nat" where "digit_val c = of_char c - 48"
definition digit_char :: "nat \<Rightarrow> char" where "digit_char n = char_of (48 + n)"

definition digits_val :: "string \<Rightarrow> nat" where
  "digits_val s = foldl (\<lambda>acc c. 10 * acc + digit_val c) 0 s"

text \<open>\<^verbatim>\<open>strconv.FormatUint\<close> in base 10, \<^verbatim>\<open>strconv.Itoa\<close>,
  \<^verbatim>\<open>strconv.ParseUint(s, 10, 64)\<close> and \<^verbatim>\<open>strconv.Atoi\<close>; no result means that the call
  returns an error.\<close>

fun show_nat :: "nat \<Rightarrow> string" where
  "show_nat n = (if n < 10 then [digit_char n] else show_nat (n div 10) @ [digit_char (n mod 10)])"

declare show_nat.simps [simp del]

definition itoa :: "int \<Rightarrow> string" where
  "itoa i = (if i < 0 then CHR ''-'' # show_nat (nat (- i)) else show_nat (nat i))"

definition parse_uint64 :: "string \<Rightarrow> u64 option" where
  "parse_uint64 s = (if s \<noteq> [] \<and> list_all is_digit s \<and> digits_val s < 2 ^ 64
                     then Some (of_nat (digits_val s)) else None)"

definition atoi :: "string \<Rightarrow> int option" where
  "atoi s =
     (let (neg, ds) = (case s of [] \<Rightarrow> (False, [])
                       | c # cs \<Rightarrow> if c = CHR ''-'' then (True, cs)
                                  else if c = CHR ''+'' then (False, cs) else (False, s));
          v = (if neg then - int (digits_val ds) else int (digits_val ds))
      in if ds \<noteq> [] \<and> list_all is_digit ds \<and> - (2 ^ 63) \<le> v \<and> v < 2 ^ 63 then Some v else None)"

lemma of_char_digit_char: "n < 10 \<Longrightarrow> of_char (digit_char n) = 48 + n"
  by (simp add: digit_char_def)

lemma is_digit_digit_char [simp]: "n < 10 \<Longrightarrow> is_digit (digit_char n)"
  by (simp add: is_digit_def Let_def of_char_digit_char)

lemma digit_val_digit_char [simp]: "n < 10 \<Longrightarrow> digit_val (digit_char n) = n"
  by (simp add: digit_val_def of_char_digit_char)

lemma digits_val_snoc [simp]: "digits_val (s @ [c]) = 10 * digits_val s + digit_val c"
  by (simp add: digits_val_def)

lemma digits_val_Nil [simp]: "digits_val [] = 0"
  by (simp add: digits_val_def)

lemma show_nat_nonempty [simp]: "show_nat n \<noteq> []"
  by (subst show_nat.simps) simp

lemma show_nat_digits: "list_all is_digit (show_nat n)"
proof (induction n rule: show_nat.induct)
  case (1 n)
  then show ?case by (subst show_nat.simps) simp
qed

lemma digits_val_show_nat [simp]: "digits_val (show_nat n) = n"
proof (induction n rule: show_nat.induct)
  case (1 n)
  then show ?case
    using digits_val_snoc [of "[]" "digit_char n"] by (subst show_nat.simps) auto
qed

lemma digit_not_special:
  assumes "is_digit c"
  shows "\<not> go_space c" "c \<noteq> CHR '':''" "c \<noteq> CHR ''['' " "c \<noteq> CHR '']'' " "c \<noteq> CHR ''-''" "c \<noteq> CHR ''+''"
    "c \<noteq> CHR 0x0A" "c \<noteq> CHR 0x0D"
  using assms by (auto simp: is_digit_def go_space_def Let_def)

lemma parse_uint64_show: "parse_uint64 (show_nat (unat n)) = Some n"
proof -
  have "unat n < 2 ^ 64" by (rule unat_u64_less)
  then show ?thesis by (simp add: parse_uint64_def show_nat_digits)
qed

lemma show_nat_hd: "is_digit (hd (show_nat n))"
  using show_nat_digits [of n] by (cases "show_nat n") auto

lemma atoi_itoa: "- (2 ^ 63) \<le> i \<Longrightarrow> i < 2 ^ 63 \<Longrightarrow> atoi (itoa i) = Some i"
proof (cases "i < 0")
  case True
  assume "- (2 ^ 63) \<le> i" "i < 2 ^ 63"
  with True show ?thesis by (simp add: atoi_def itoa_def show_nat_digits)
next
  case False
  assume b: "- (2 ^ 63) \<le> i" "i < 2 ^ 63"
  obtain c cs where c: "show_nat (nat i) = c # cs" by (cases "show_nat (nat i)") auto
  have "is_digit c" using show_nat_hd [of "nat i"] c by simp
  then have "c \<noteq> CHR ''-''" "c \<noteq> CHR ''+''" by (rule digit_not_special)+
  moreover have "list_all is_digit (c # cs)" "digits_val (c # cs) = nat i"
    using show_nat_digits [of "nat i"] digits_val_show_nat [of "nat i"] c by simp_all
  ultimately show ?thesis using False b c by (simp add: atoi_def itoa_def)
qed

section \<open>Maps with an iteration order\<close>

text \<open>A Go map is the list of its entries in the order in which \<^verbatim>\<open>range\<close> visits them. The
  language leaves that order open, so what is proved holds for every order of the list. The
  operations are those of the association lists of the library.\<close>

type_synonym ('k, 'v) gomap = "('k \<times> 'v) list"

abbreviation gm_get :: "('k, 'v) gomap \<Rightarrow> 'k \<Rightarrow> 'v option" where "gm_get \<equiv> map_of"
abbreviation gm_put :: "'k \<Rightarrow> 'v \<Rightarrow> ('k, 'v) gomap \<Rightarrow> ('k, 'v) gomap" where "gm_put \<equiv> AList.update"
abbreviation gm_del :: "'k \<Rightarrow> ('k, 'v) gomap \<Rightarrow> ('k, 'v) gomap" where "gm_del \<equiv> AList.delete"
abbreviation gm_ok :: "('k, 'v) gomap \<Rightarrow> bool" where "gm_ok m \<equiv> distinct (map fst m)"

lemmas gm_get_put [go_map] = update_conv'
lemmas gm_get_del [go_map] = delete_conv'

lemma gm_ok_put [go_map, intro]: "gm_ok m \<Longrightarrow> gm_ok (gm_put k v m)"
  by (rule distinct_update)

lemma gm_ok_del [go_map, intro]: "gm_ok m \<Longrightarrow> gm_ok (gm_del k m)"
  by (rule distinct_delete)

lemma gm_len_put: "length (gm_put k v m) = (if gm_get m k = None then Suc (length m) else length m)"
  by (induction m) auto

lemma gm_len_del_le [simp]: "length (gm_del k m) \<le> length m"
  by (simp add: AList.delete_eq)

lemma gm_del_none: "gm_get m k = None \<Longrightarrow> gm_del k m = m"
  by (induction m) (auto split: if_splits)

lemma gm_len_del:
  "gm_ok m \<Longrightarrow> length (gm_del k m) = (if gm_get m k = None then length m else length m - 1)"
proof (induction m)
  case Nil
  then show ?case by simp
next
  case (Cons a m)
  obtain key v where a: "a = (key, v)" by (cases a)
  show ?case
  proof (cases "key = k")
    case True
    with Cons a have "gm_get m k = None" by (auto simp: map_of_eq_None_iff)
    with True a show ?thesis by (simp add: gm_del_none)
  next
    case False
    have "gm_get m k \<noteq> None \<Longrightarrow> length m > 0" by (cases m) auto
    with False Cons a show ?thesis by (auto simp del: not_None_eq)
  qed
qed

lemma gm_get_in: "gm_get m k = Some v \<Longrightarrow> (k, v) \<in> set m"
  by (rule map_of_SomeD)

lemma gm_in_get: "gm_ok m \<Longrightarrow> (k, v) \<in> set m \<longleftrightarrow> gm_get m k = Some v"
  by auto

lemma gm_in_del: "(k', v) \<in> set (gm_del k m) \<longleftrightarrow> (k', v) \<in> set m \<and> k' \<noteq> k"
  by (auto simp: AList.delete_eq)

lemma gm_in_put: "(k', v') \<in> set (gm_put k v m) \<Longrightarrow> (k' = k \<and> v' = v) \<or> (k', v') \<in> set m"
  by (induction m) (auto split: if_splits)

section \<open>Error values\<close>

text \<open>The error values the components build and inspect: the sentinel errors they compare with
  \<^verbatim>\<open>errors.Is\<close>, the exit status found by \<^verbatim>\<open>errors.As\<close>, messages, and the trees of
  \<^verbatim>\<open>fmt.Errorf("%w")\<close> and \<^verbatim>\<open>errors.Join\<close>. A nil error is \<^const>\<open>None\<close>.\<close>

datatype goerr =
    ErrMsg string | ErrProtocol | ErrAuthentication | ErrClosed | DeadlineExceeded | Canceled
  | ExitError int | Wrapped string goerr | Joined "goerr list"

fun errors_is :: "goerr \<Rightarrow> goerr \<Rightarrow> bool" where
  "errors_is (Wrapped m e) t = (Wrapped m e = t \<or> errors_is e t)"
| "errors_is (Joined es) t = (Joined es = t \<or> list_ex (\<lambda>e. errors_is e t) es)"
| "errors_is e t = (e = t)"

fun errors_as_exit :: "goerr \<Rightarrow> int option" where
  "errors_as_exit (ExitError c) = Some c"
| "errors_as_exit (Wrapped m e) = errors_as_exit e"
| "errors_as_exit (Joined es) =
     foldr (\<lambda>e found. case errors_as_exit e of None \<Rightarrow> found | Some c \<Rightarrow> Some c) es None"
| "errors_as_exit e = None"

definition errors_join :: "goerr option list \<Rightarrow> goerr option" where
  "errors_join es = (case List.map_filter id es of [] \<Rightarrow> None | es' \<Rightarrow> Some (Joined es'))"

lemma errors_join_Some [simp]: "errors_join (Some e # es) = Some (Joined (e # List.map_filter id es))"
  by (simp add: errors_join_def List.map_filter_simps)

section \<open>Interfaces that several components implement\<close>

text \<open>A machine is a step function and an invariant that every step keeps; every run of it
  then keeps the invariant. A bounded machine holds a table whose size the invariant bounds.\<close>

locale machine =
  fixes step :: "'s \<Rightarrow> 'e \<Rightarrow> 's"
    and inv :: "'s \<Rightarrow> bool"
  assumes step_inv: "inv s \<Longrightarrow> inv (step s e)"
begin

lemma run_inv: "inv s \<Longrightarrow> inv (foldl step s es)"
  by (induction es arbitrary: s) (auto intro: step_inv)

lemma run_prefix_inv: "inv s \<Longrightarrow> prefix ds es \<Longrightarrow> inv (foldl step s ds)"
  by (rule run_inv)

end

locale bounded_machine = machine step inv
  for step :: "'s \<Rightarrow> 'e \<Rightarrow> 's" and inv :: "'s \<Rightarrow> bool" +
  fixes entries :: "'s \<Rightarrow> nat"
    and bound :: "'s \<Rightarrow> nat"
  assumes inv_bound: "inv s \<Longrightarrow> entries s \<le> bound s"
    and bound_step: "bound (step s e) = bound s"
begin

lemma bound_run: "bound (foldl step s es) = bound s"
  by (induction es arbitrary: s) (auto simp: bound_step)

lemma run_bounded: "inv s \<Longrightarrow> entries (foldl step s es) \<le> bound s"
  using inv_bound [OF run_inv, of s es] by (simp add: bound_run)

end

text \<open>A codec writes a value as a string; what it writes for a canonical value reads back as
  that value.\<close>

locale codec =
  fixes encode :: "'a \<Rightarrow> string option"
    and decode :: "string \<Rightarrow> 'a option"
    and canonical :: "'a \<Rightarrow> bool"
  assumes decode_encode: "canonical x \<Longrightarrow> encode x = Some s \<Longrightarrow> decode s = Some x"
begin

lemma encode_inj:
  "canonical x \<Longrightarrow> canonical y \<Longrightarrow> encode x = Some s \<Longrightarrow> encode y = Some s \<Longrightarrow> x = y"
  using decode_encode [of x s] decode_encode [of y s] by simp

end

text \<open>A line codec writes values that hold no line feed, so a stream of lines reads back as
  the sequence of values that was written.\<close>

definition stream_of :: "string list \<Rightarrow> string" where
  "stream_of ls = concat (map (\<lambda>l. l @ [CHR 0x0A]) ls)"

definition lines_of :: "string \<Rightarrow> string list" where
  "lines_of s = butlast (split_on (CHR 0x0A) s)"

locale line_codec = codec +
  assumes no_newline: "encode x = Some s \<Longrightarrow> CHR 0x0A \<notin> set s"
begin

lemma lines_of_stream: "\<forall>l \<in> set ls. CHR 0x0A \<notin> set l \<Longrightarrow> lines_of (stream_of ls) = ls"
  by (induction ls) (auto simp: lines_of_def stream_of_def)

lemma stream_roundtrip:
  assumes "\<forall>x \<in> set xs. canonical x" and "those (map encode xs) = Some ls"
  shows "those (map decode (lines_of (stream_of ls))) = Some xs"
proof -
  have *: "\<forall>x \<in> set xs. canonical x \<Longrightarrow> those (map encode xs) = Some ls \<Longrightarrow>
      those (map decode ls) = Some xs \<and> (\<forall>l \<in> set ls. CHR 0x0A \<notin> set l)" for xs ls
  proof (induction xs arbitrary: ls)
    case Nil
    then show ?case by simp
  next
    case (Cons x xs)
    then obtain l ls' where "encode x = Some l" "those (map encode xs) = Some ls'" "ls = l # ls'"
      by (auto split: option.splits)
    with Cons.IH [of ls'] Cons.prems(1) show ?case by (auto simp: decode_encode dest: no_newline)
  qed
  from * [OF assms(1) assms(2)] show ?thesis by (simp add: lines_of_stream)
qed

end

end
