(* ===== verification/Guardian_Core.thy ===== *)
theory Guardian_Core
  imports Go_Prelude
begin

text \<open>
  The guardian's decision makers, \<^verbatim>\<open>internal/guardian/state.go\<close>, \<^verbatim>\<open>backoff.go\<close> and
  \<^verbatim>\<open>watchdog.go\<close>: the disposition of an exited worker, the restart backoff, and the watchdog
  that tells a hung worker from a suspended machine.
\<close>

section \<open>Exit disposition (state.go)\<close>

datatype ExitDisposition = ExitStartupFailure | ExitRestart | ExitNormalStop

definition ClassifyExit :: "bool \<Rightarrow> bool \<Rightarrow> bool \<Rightarrow> ExitDisposition" where
  "ClassifyExit ready stopping internalRecycle =
     (if \<not> ready then ExitStartupFailure
      else if stopping then ExitNormalStop
      else if internalRecycle then ExitRestart
      else ExitRestart)"

section \<open>Restart backoff (backoff.go)\<close>

definition restartBackoffSchedule :: "duration list" where
  "restartBackoffSchedule = [second, 5 * second, 30 * second, 2 * minute, 5 * minute]"

definition stableRunReset :: duration where "stableRunReset = 5 * minute"

record Backoff =
  level :: int

definition Backoff_Next :: "Backoff \<Rightarrow> Backoff \<times> duration" where
  "Backoff_Next b =
     (let b = (if level b < 0 then b\<lparr>level := 0\<rparr> else b);
          n = int (length restartBackoffSchedule);
          idx = (if level b \<ge> n then n - 1 else level b);
          delay = restartBackoffSchedule ! nat idx
      in (if level b < n - 1 then b\<lparr>level := level b + 1\<rparr> else b, delay))"

definition Backoff_NextDelay :: "Backoff \<Rightarrow> duration" where
  "Backoff_NextDelay b =
     (let n = int (length restartBackoffSchedule);
          idx = (if level b < 0 then 0 else level b);
          idx = (if idx \<ge> n then n - 1 else idx)
      in restartBackoffSchedule ! nat idx)"

definition Backoff_Reset :: "Backoff \<Rightarrow> Backoff" where
  "Backoff_Reset b = b\<lparr>level := 0\<rparr>"

definition Backoff_Level :: "Backoff \<Rightarrow> int" where
  "Backoff_Level b = (if level b < 0 then 0 else level b)"

definition Backoff_ObserveReadyDuration :: "Backoff \<Rightarrow> duration \<Rightarrow> Backoff \<times> bool" where
  "Backoff_ObserveReadyDuration b d =
     (if d < stableRunReset then (b, False) else (Backoff_Reset b, True))"

text \<open>Successive delays: the sequence of results of calling \<^verbatim>\<open>Next\<close> a number of times.\<close>

fun next_delays :: "nat \<Rightarrow> Backoff \<Rightarrow> duration list" where
  "next_delays 0 b = []"
| "next_delays (Suc n) b = (let (b', d) = Backoff_Next b in d # next_delays n b')"

lemma length_schedule [simp]: "length restartBackoffSchedule = 5"
  by (simp add: restartBackoffSchedule_def)

lemma schedule_sorted: "sorted restartBackoffSchedule"
  by (simp add: restartBackoffSchedule_def go_time)

lemma schedule_bounds: "d \<in> set restartBackoffSchedule \<Longrightarrow> second \<le> d \<and> d \<le> 5 * minute"
  by (auto simp: restartBackoffSchedule_def go_time)

lemma Backoff_Next_delay: "snd (Backoff_Next b) = Backoff_NextDelay b"
  by (simp add: Backoff_Next_def Backoff_NextDelay_def Let_def)

lemma Backoff_Next_level: "level (fst (Backoff_Next b)) = min 4 (max 0 (level b) + 1) \<or> level b > 4"
  by (auto simp: Backoff_Next_def Let_def)

lemma Backoff_Next_level_eq:
  "level b \<le> 4 \<Longrightarrow> level (fst (Backoff_Next b)) = min 4 (max 0 (level b) + 1)"
  by (auto simp: Backoff_Next_def Let_def)

lemma NextDelay_nth: "Backoff_NextDelay b = restartBackoffSchedule ! nat (min 4 (max 0 (level b)))"
proof -
  have "min 4 (max 0 (level b)) = (if (if level b < 0 then 0 else level b) \<ge> 5 then 5 - 1
      else if level b < 0 then 0 else level b)" by auto
  then show ?thesis by (simp add: Backoff_NextDelay_def Let_def)
qed

lemma next_delays_nth:
  "level b \<le> 4 \<Longrightarrow> k < n \<Longrightarrow>
   next_delays n b ! k = restartBackoffSchedule ! nat (min 4 (max 0 (level b) + int k))"
proof (induction n b arbitrary: k rule: next_delays.induct)
  case (2 n b)
  obtain b' d where bd: "Backoff_Next b = (b', d)" by (cases "Backoff_Next b")
  have lv: "level b' = min 4 (max 0 (level b) + 1)"
    using Backoff_Next_level_eq [OF 2(2)] bd by simp
  have d: "d = restartBackoffSchedule ! nat (min 4 (max 0 (level b)))"
    using Backoff_Next_delay [of b] bd by (simp add: NextDelay_nth)
  show ?case
  proof (cases k)
    case 0
    then show ?thesis using bd d by simp
  next
    case (Suc j)
    have "next_delays n b' ! j = restartBackoffSchedule ! nat (min 4 (max 0 (level b') + int j))"
      using 2 Suc bd lv by auto
    moreover have "min 4 (max 0 (level b') + int j) = min 4 (max 0 (level b) + int k)"
      using lv Suc by auto
    ultimately show ?thesis using Suc bd by simp
  qed
qed simp

lemma next_delays_length [simp]: "length (next_delays n b) = n"
  by (induction n b rule: next_delays.induct) (auto split: prod.splits)

section \<open>Watchdog (watchdog.go)\<close>

record Watchdog =
  hangWindow :: duration
  wd_ready :: bool
  lastProgress :: gotime
  lastObserver :: gotime
  lastSequence :: u64

definition NewWatchdog :: "duration \<Rightarrow> Watchdog" where
  "NewWatchdog w =
     \<lparr>hangWindow = (if w \<le> 0 then 20 * second else w), wd_ready = False,
      lastProgress = 0, lastObserver = 0, lastSequence = 0\<rparr>"

definition Watchdog_Ready :: "Watchdog \<Rightarrow> gotime \<Rightarrow> Watchdog" where
  "Watchdog_Ready w now =
     w\<lparr>wd_ready := True, lastProgress := now, lastObserver := now, lastSequence := 0\<rparr>"

definition Watchdog_Beat :: "Watchdog \<Rightarrow> u64 \<Rightarrow> gotime \<Rightarrow> Watchdog" where
  "Watchdog_Beat w sequence now =
     (if \<not> wd_ready w \<or> sequence \<le> lastSequence w then w
      else w\<lparr>lastSequence := sequence, lastProgress := now\<rparr>)"

definition Watchdog_Check :: "Watchdog \<Rightarrow> gotime \<Rightarrow> Watchdog \<times> bool" where
  "Watchdog_Check w now =
     (if \<not> wd_ready w then (w\<lparr>lastObserver := now\<rparr>, False)
      else if \<not> is_zero (lastObserver w) \<and> time_sub now (lastObserver w) > hangWindow w
      then (w\<lparr>lastObserver := now, lastProgress := now\<rparr>, False)
      else (w\<lparr>lastObserver := now\<rparr>, time_sub now (lastProgress w) > hangWindow w))"

text \<open>The checks of a run of ticks without any beat: the watchdog's verdict at each tick.\<close>

fun checks :: "Watchdog \<Rightarrow> gotime list \<Rightarrow> bool list" where
  "checks w [] = []"
| "checks w (t # ts) = (let (w', b) = Watchdog_Check w t in b # checks w' ts)"

text \<open>Ticks that are regular after a start: each at most a window after the one before.\<close>

fun regular :: "duration \<Rightarrow> gotime \<Rightarrow> gotime list \<Rightarrow> bool" where
  "regular h t [] = True"
| "regular h t (u # us) = (t \<le> u \<and> u - t \<le> h \<and> regular h u us)"

lemma Watchdog_frame [simp]:
  "hangWindow (Watchdog_Ready w now) = hangWindow w"
  "hangWindow (Watchdog_Beat w s now) = hangWindow w"
  "hangWindow (fst (Watchdog_Check w now)) = hangWindow w"
  "wd_ready (fst (Watchdog_Check w now)) = wd_ready w"
  "wd_ready (Watchdog_Beat w s now) = wd_ready w"
  by (simp_all add: Watchdog_Ready_def Watchdog_Beat_def Watchdog_Check_def)

lemma NewWatchdog_window_pos: "0 < hangWindow (NewWatchdog h)"
  by (simp add: NewWatchdog_def go_time)

lemma checks_regular:
  assumes "wd_ready w" "0 < hangWindow w" "hangWindow w < max_duration"
    and "regular (hangWindow w) (lastObserver w) ts"
  shows "checks w ts = map (\<lambda>t. t - lastProgress w > hangWindow w) ts"
  using assms
proof (induction ts arbitrary: w)
  case (Cons t ts)
  have sub: "hangWindow w < time_sub t u \<longleftrightarrow> hangWindow w < t - u" for u
    using Cons.prems(2,3) by (intro time_sub_gt_iff) (auto simp: min_duration_def)
  from Cons.prems have "\<not> hangWindow w < t - lastObserver w" by simp
  then have "Watchdog_Check w t =
      (w\<lparr>lastObserver := t\<rparr>, hangWindow w < t - lastProgress w)"
    using Cons.prems(1) by (simp add: Watchdog_Check_def sub)
  moreover have "checks (w\<lparr>lastObserver := t\<rparr>) ts
      = map (\<lambda>t. t - lastProgress w > hangWindow w) ts"
    using Cons.IH [of "w\<lparr>lastObserver := t\<rparr>"] Cons.prems by simp
  ultimately show ?case by simp
qed simp

section \<open>Properties\<close>

text \<open>from a fresh backoff the k-th restart waits for the k-th entry of the schedule, and
  every restart from the fifth on waits for its last entry, five minutes.\<close>

theorem backoff_follows_schedule:
  "k < n \<Longrightarrow> next_delays n \<lparr>level = 0\<rparr> ! k = restartBackoffSchedule ! min 4 k"
proof -
  assume "k < n"
  then have "next_delays n \<lparr>level = 0\<rparr> ! k = restartBackoffSchedule ! nat (min 4 (int k))"
    using next_delays_nth [of "\<lparr>level = 0\<rparr>" k n] by simp
  moreover have "nat (min 4 (int k)) = min 4 k" by (simp add: min_def)
  ultimately show ?thesis by simp
qed

theorem backoff_follows_schedule_witness:
  "next_delays 7 \<lparr>level = 0\<rparr> ! 6 = 5 * minute"
  using backoff_follows_schedule [of 6 7] by (simp add: restartBackoffSchedule_def)

text \<open>when the observer ticks at least once per hang window and no beat arrives after the
  worker is ready, the watchdog reports a hang at exactly those ticks that are more than a
  hang window after readiness.\<close>

theorem watchdog_detects_hang:
  assumes "0 < h" "h < max_duration" "regular h t0 ts"
  shows "checks (Watchdog_Ready (NewWatchdog h) t0) ts = map (\<lambda>t. t - t0 > h) ts"
proof -
  let ?w = "Watchdog_Ready (NewWatchdog h) t0"
  have "wd_ready ?w" "hangWindow ?w = h" "lastObserver ?w = t0" "lastProgress ?w = t0"
    using assms(1) by (simp_all add: Watchdog_Ready_def NewWatchdog_def)
  then show ?thesis using checks_regular [of ?w ts] assms by simp
qed

theorem watchdog_detects_hang_witness:
  "checks (Watchdog_Ready (NewWatchdog 20) 100) [115, 120, 130] = [False, False, True]"
  using watchdog_detects_hang [of 20 100 "[115, 120, 130]"] by (simp add: max_duration_def)

text \<open>a tick that comes more than a hang window after the previous one never reports a hang
  and restarts the window: a further tick within the window does not report one either.\<close>

theorem watchdog_suspend_grace:
  assumes "0 < hangWindow w" "hangWindow w < max_duration" "lastObserver w \<noteq> 0"
    and "now - lastObserver w > hangWindow w" "now \<le> t" "t - now \<le> hangWindow w"
  shows "checks w [now, t] = [False, False]"
proof -
  have sub: "hangWindow w < time_sub a u \<longleftrightarrow> hangWindow w < a - u" for a u
    using assms(1,2) by (intro time_sub_gt_iff) (auto simp: min_duration_def)
  show ?thesis
    using assms by (simp add: Watchdog_Check_def sub is_zero_def)
qed

theorem watchdog_suspend_grace_witness:
  "checks (Watchdog_Ready (NewWatchdog 20) 100) [500, 515] = [False, False]"
proof -
  have "Watchdog_Ready (NewWatchdog 20) 100 =
      \<lparr>hangWindow = 20, wd_ready = True, lastProgress = 100, lastObserver = 100, lastSequence = 0\<rparr>"
    by (simp add: Watchdog_Ready_def NewWatchdog_def)
  then show ?thesis
    using watchdog_suspend_grace [of "Watchdog_Ready (NewWatchdog 20) 100" 500 515]
    by (simp add: max_duration_def)
qed

end
