(* ===== verification/Go_Encoding.thy ===== *)
theory Go_Encoding
  imports Go_Prelude
begin

text \<open>
  Encodings of Go's standard library that several components use: \<^verbatim>\<open>encoding/hex\<close>,
  \<^verbatim>\<open>encoding/base64\<close> (the standard alphabet with padding), UTF-8 and UTF-16, and the byte orders of
  \<^verbatim>\<open>encoding/binary\<close>. A Go string is a \<^typ>\<open>string\<close>; a byte slice is a list of bytes, and the two
  conversions between them keep every byte.
\<close>

section \<open>Strings and byte slices\<close>

definition bytes_of :: "string \<Rightarrow> byte list" where "bytes_of s = map (\<lambda>c. of_nat (of_char c)) s"
definition str_of :: "byte list \<Rightarrow> string" where "str_of bs = map (\<lambda>b. char_of (unat b)) bs"

section \<open>Hexadecimal\<close>

definition hex_char :: "nat \<Rightarrow> char" where
  "hex_char n = (if n < 10 then char_of (48 + n) else char_of (87 + n))"

definition hex_encode :: "byte list \<Rightarrow> string" where
  "hex_encode bs = concat (map (\<lambda>b. [hex_char (unat b div 16), hex_char (unat b mod 16)]) bs)"

lemma hex_char_ok: "n < 16 \<Longrightarrow> hex_char n \<in> set ''0123456789abcdef''"
proof -
  have "\<forall>n \<in> set [0..<16]. hex_char n \<in> set ''0123456789abcdef''" by code_simp
  then show "n < 16 \<Longrightarrow> hex_char n \<in> set ''0123456789abcdef''" by simp
qed

lemma hex_encode_chars: "set (hex_encode bs) \<subseteq> set ''0123456789abcdef''"
proof (induction bs)
  case Nil
  then show ?case by (simp add: hex_encode_def)
next
  case (Cons b bs)
  have "unat b div 16 < 16" by (simp add: less_mult_imp_div_less)
  then have "hex_char (unat b div 16) \<in> set ''0123456789abcdef''" by (rule hex_char_ok)
  moreover have "hex_char (unat b mod 16) \<in> set ''0123456789abcdef''" by (rule hex_char_ok) simp
  ultimately show ?case using Cons by (simp add: hex_encode_def)
qed

lemma hex_encode_length: "length (hex_encode bs) = 2 * length bs"
  by (induction bs) (simp_all add: hex_encode_def)

section \<open>UTF-8\<close>

type_synonym rune = nat
type_synonym gotext = "byte list"

text \<open>The bytes of one rune, and of a rune slice, as a conversion to string gives them.\<close>

definition utf8_rune :: "rune \<Rightarrow> gotext" where
  "utf8_rune r' =
     (let r = (if r' > 0x10FFFF \<or> (0xD800 \<le> r' \<and> r' \<le> 0xDFFF) then 0xFFFD else r') in
      if r < 0x80 then [of_nat r]
      else if r < 0x800 then [of_nat (0xC0 + r div 64), of_nat (0x80 + r mod 64)]
      else if r < 0x10000 then
        [of_nat (0xE0 + r div 4096), of_nat (0x80 + r div 64 mod 64), of_nat (0x80 + r mod 64)]
      else [of_nat (0xF0 + r div 262144), of_nat (0x80 + r div 4096 mod 64),
            of_nat (0x80 + r div 64 mod 64), of_nat (0x80 + r mod 64)])"

definition string_of_runes :: "rune list \<Rightarrow> gotext" where
  "string_of_runes rs = concat (map utf8_rune rs)"

text \<open>\<^verbatim>\<open>utf8.Valid\<close>, on the numbers of the bytes.\<close>

definition in_range :: "nat \<Rightarrow> nat \<Rightarrow> nat \<Rightarrow> bool" where "in_range lo hi b \<longleftrightarrow> lo \<le> b \<and> b \<le> hi"

fun valid_bytes :: "nat list \<Rightarrow> bool" where
  "valid_bytes [] = True"
| "valid_bytes (b # bs) =
     (if b < 0x80 then valid_bytes bs
      else if in_range 0xC2 0xDF b then
        (case bs of c1 # r \<Rightarrow> in_range 0x80 0xBF c1 \<and> valid_bytes r | _ \<Rightarrow> False)
      else if in_range 0xE0 0xEF b then
        (case bs of c1 # c2 # r \<Rightarrow>
           in_range (if b = 0xE0 then 0xA0 else 0x80) (if b = 0xED then 0x9F else 0xBF) c1
           \<and> in_range 0x80 0xBF c2 \<and> valid_bytes r
         | _ \<Rightarrow> False)
      else if in_range 0xF0 0xF4 b then
        (case bs of c1 # c2 # c3 # r \<Rightarrow>
           in_range (if b = 0xF0 then 0x90 else 0x80) (if b = 0xF4 then 0x8F else 0xBF) c1
           \<and> in_range 0x80 0xBF c2 \<and> in_range 0x80 0xBF c3 \<and> valid_bytes r
         | _ \<Rightarrow> False)
      else False)"

definition utf8_Valid :: "gotext \<Rightarrow> bool" where "utf8_Valid bs = valid_bytes (map unat bs)"

section \<open>Byte helpers\<close>

definition bytes_HasPrefix :: "byte list \<Rightarrow> byte list \<Rightarrow> bool" where "bytes_HasPrefix d p \<longleftrightarrow> prefix p d"

definition bytes_TrimPrefix :: "byte list \<Rightarrow> byte list \<Rightarrow> byte list" where
  "bytes_TrimPrefix d p = (if bytes_HasPrefix d p then drop (length p) d else d)"

datatype ByteOrder = LittleEndian | BigEndian

fun Uint16 :: "ByteOrder \<Rightarrow> byte \<Rightarrow> byte \<Rightarrow> nat" where
  "Uint16 LittleEndian a b = unat a + 256 * unat b"
| "Uint16 BigEndian a b = 256 * unat a + unat b"

fun Uint32 :: "ByteOrder \<Rightarrow> byte \<Rightarrow> byte \<Rightarrow> byte \<Rightarrow> byte \<Rightarrow> nat" where
  "Uint32 LittleEndian a b c d = unat a + 256 * (unat b + 256 * (unat c + 256 * unat d))"
| "Uint32 BigEndian a b c d = unat d + 256 * (unat c + 256 * (unat b + 256 * unat a))"

fun units16 :: "ByteOrder \<Rightarrow> byte list \<Rightarrow> nat list" where
  "units16 order (a # b # r) = Uint16 order a b # units16 order r"
| "units16 order _ = []"

fun units32 :: "ByteOrder \<Rightarrow> byte list \<Rightarrow> nat list" where
  "units32 order (a # b # c # d # r) = Uint32 order a b c d # units32 order r"
| "units32 order _ = []"

section \<open>Lemmas on UTF-8 and byte orders\<close>

lemma unat_byte_of_nat: "n < 256 \<Longrightarrow> unat (of_nat n :: byte) = n"
  by (simp add: unat_of_nat)

lemma base64_digits:
  fixes r :: nat
  shows "r = 64 * (r div 64) + r mod 64" "r div 64 = 64 * (r div 4096) + r div 64 mod 64"
    "r div 4096 = 64 * (r div 262144) + r div 4096 mod 64"
    "r mod 64 < 64" "r div 64 mod 64 < 64" "r div 4096 mod 64 < 64"
  using div_mult2_eq [of r 64 64] div_mult2_eq [of r 4096 64] by simp_all

text \<open>The bytes of a rune are accepted by the validity check, whatever follows.\<close>

lemma valid_bytes_rune: "valid_bytes (map unat (utf8_rune r') @ bs) = valid_bytes bs"
proof -
  define r where "r = (if r' > 0x10FFFF \<or> (0xD800 \<le> r' \<and> r' \<le> 0xDFFF) then 0xFFFD else r')"
  have r: "r \<le> 0x10FFFF" "r < 0xD800 \<or> 0xDFFF < r" by (auto simp: r_def)
  define q h m k b c where "q = r div 64" and "h = r div 4096" and "m = r div 262144"
    and "k = r div 4096 mod 64" and "b = r div 64 mod 64" and "c = r mod 64"
  have dig: "r = 64 * q + c" "q = 64 * h + b" "h = 64 * m + k" "c < 64" "b < 64" "k < 64"
    using base64_digits [of r] unfolding q_def h_def m_def k_def b_def c_def by simp_all
  have rune: "utf8_rune r' = (if r < 0x80 then [of_nat r] else if r < 0x800 then [of_nat (0xC0 + q), of_nat (0x80 + c)]
      else if r < 0x10000 then [of_nat (0xE0 + h), of_nat (0x80 + b), of_nat (0x80 + c)]
      else [of_nat (0xF0 + m), of_nat (0x80 + k), of_nat (0x80 + b), of_nat (0x80 + c)])"
    unfolding utf8_rune_def q_def h_def m_def k_def b_def c_def r_def [symmetric] Let_def ..
  have u: "unat (of_nat n :: byte) = n" if "n < 256" for n using that by (rule unat_byte_of_nat)
  consider "r < 0x80" | "0x80 \<le> r" "r < 0x800" | "0x800 \<le> r" "r < 0x10000" | "0x10000 \<le> r" by linarith
  then show ?thesis
  proof cases
    case 1
    then show ?thesis unfolding rune by (simp add: unat_byte_of_nat)
  next
    case 2
    then have q: "2 \<le> q" "q < 32" using dig by linarith+
    then have "unat (of_nat (0xC0 + q) :: byte) = 0xC0 + q" "unat (of_nat (0x80 + c) :: byte) = 0x80 + c"
      using dig by (intro u; linarith)+
    with 2 q dig(4) show ?thesis unfolding rune by (simp add: in_range_def del: of_nat_add)
  next
    case 3
    then have h: "h < 16" "h = 0 \<Longrightarrow> 32 \<le> b" "h = 13 \<Longrightarrow> b < 32" using dig r by linarith+
    then have "unat (of_nat (0xE0 + h) :: byte) = 0xE0 + h" "unat (of_nat (0x80 + c) :: byte) = 0x80 + c"
        "unat (of_nat (0x80 + b) :: byte) = 0x80 + b"
      using dig by (intro u; linarith)+
    with 3 h dig(4,5) show ?thesis unfolding rune by (auto simp: in_range_def simp del: of_nat_add)
  next
    case 4
    then have m: "m < 5" "m = 0 \<Longrightarrow> 16 \<le> k" "m = 4 \<Longrightarrow> k < 16" using dig r by linarith+
    then have "unat (of_nat (0xF0 + m) :: byte) = 0xF0 + m" "unat (of_nat (0x80 + c) :: byte) = 0x80 + c"
        "unat (of_nat (0x80 + b) :: byte) = 0x80 + b" "unat (of_nat (0x80 + k) :: byte) = 0x80 + k"
      using dig by (intro u; linarith)+
    with 4 m dig(4,5,6) show ?thesis unfolding rune by (auto simp: in_range_def simp del: of_nat_add)
  qed
qed

lemma valid_runes: "utf8_Valid (string_of_runes rs)"
proof -
  have "valid_bytes (map unat (concat (map utf8_rune rs)))"
    by (induction rs) (simp_all add: valid_bytes_rune)
  then show ?thesis by (simp add: utf8_Valid_def string_of_runes_def)
qed

lemma valid_ascii: "\<not> list_ex (\<lambda>b. unat b > 0x7f) bs \<Longrightarrow> utf8_Valid bs"
  unfolding utf8_Valid_def by (induction bs) auto

text \<open>The UTF-16 units of a rune and the bytes of a unit (\<^verbatim>\<open>utf16.Encode\<close>, \<^verbatim>\<open>binary.ByteOrder\<close>).\<close>

definition scalar :: "rune \<Rightarrow> bool" where
  "scalar r \<longleftrightarrow> r \<le> 0x10FFFF \<and> \<not> (0xD800 \<le> r \<and> r \<le> 0xDFFF)"

definition utf16_of :: "rune \<Rightarrow> nat list" where
  "utf16_of r = (if r < 0x10000 then [r]
     else [0xD800 + (r - 0x10000) div 0x400, 0xDC00 + (r - 0x10000) mod 0x400])"

fun bytes16 :: "ByteOrder \<Rightarrow> nat \<Rightarrow> byte list" where
  "bytes16 LittleEndian u = [of_nat (u mod 256), of_nat (u div 256)]"
| "bytes16 BigEndian u = [of_nat (u div 256), of_nat (u mod 256)]"

fun bytes32 :: "ByteOrder \<Rightarrow> nat \<Rightarrow> byte list" where
  "bytes32 LittleEndian u = [of_nat (u mod 256), of_nat (u div 256 mod 256), of_nat (u div 65536 mod 256), of_nat (u div 16777216)]"
| "bytes32 BigEndian u = [of_nat (u div 16777216), of_nat (u div 65536 mod 256), of_nat (u div 256 mod 256), of_nat (u mod 256)]"

lemma units16_bytes:
  "\<forall>u \<in> set us. u < 65536 \<Longrightarrow> units16 order (concat (map (bytes16 order) us)) = us"
  by (induction us) (cases order; simp add: unat_byte_of_nat less_mult_imp_div_less)+

lemma bytes16_length [simp]: "length (concat (map (bytes16 order) us)) = 2 * length us"
  by (induction us) (cases order; simp)+

lemma bytes32_length [simp]: "length (concat (map (bytes32 order) us)) = 4 * length us"
  by (induction us) (cases order; simp)+

lemma div_mod_256: "(u::nat) mod 256 + 256 * (u div 256 mod 256 + 256 * (u div 65536 mod 256 + 256 * (u div 16777216))) = u"
proof -
  have "u div 65536 = u div 256 div 256" "u div 16777216 = u div 65536 div 256"
    by (simp_all flip: div_mult2_eq)
  then show ?thesis
    using mod_mult_div_eq [of u 256] mod_mult_div_eq [of "u div 256" 256] mod_mult_div_eq [of "u div 65536" 256] by simp
qed

lemma units32_bytes:
  "\<forall>u \<in> set us. u < 0x110000 \<Longrightarrow> units32 order (concat (map (bytes32 order) us)) = us"
proof (induction us)
  case (Cons u us)
  then have "u div 65536 < 256" by (simp add: less_mult_imp_div_less)
  then have "u div 65536 mod 256 = u div 65536" by simp
  with Cons div_mod_256 [of u] show ?case by (cases order) (simp_all add: unat_byte_of_nat)
qed simp

lemma utf16_of_small: "scalar r \<Longrightarrow> u \<in> set (utf16_of r) \<Longrightarrow> u < 65536"
  by (auto simp: utf16_of_def scalar_def less_mult_imp_div_less split: if_splits)

section \<open>Runes\<close>

text \<open>The runes of a Go string, \<^verbatim>\<open>[]rune(s)\<close> on the numbers of its bytes: a byte that does not start a
  well-formed sequence is the replacement rune. \<^verbatim>\<open>utf16.Decode\<close> does the same for lone surrogates.\<close>

fun runes_of :: "nat list \<Rightarrow> rune list" where
  "runes_of [] = []"
| "runes_of (b # bs) =
     (if b < 0x80 then b # runes_of bs
      else if in_range 0xC2 0xDF b then
        (case bs of
           c1 # r \<Rightarrow> if in_range 0x80 0xBF c1 then ((b - 0xC0) * 64 + (c1 - 0x80)) # runes_of r else 0xFFFD # runes_of bs
         | _ \<Rightarrow> 0xFFFD # runes_of bs)
      else if in_range 0xE0 0xEF b then
        (case bs of
           c1 # c2 # r \<Rightarrow>
             if in_range (if b = 0xE0 then 0xA0 else 0x80) (if b = 0xED then 0x9F else 0xBF) c1 \<and> in_range 0x80 0xBF c2
             then ((b - 0xE0) * 4096 + (c1 - 0x80) * 64 + (c2 - 0x80)) # runes_of r else 0xFFFD # runes_of bs
         | _ \<Rightarrow> 0xFFFD # runes_of bs)
      else if in_range 0xF0 0xF4 b then
        (case bs of
           c1 # c2 # c3 # r \<Rightarrow>
             if in_range (if b = 0xF0 then 0x90 else 0x80) (if b = 0xF4 then 0x8F else 0xBF) c1
               \<and> in_range 0x80 0xBF c2 \<and> in_range 0x80 0xBF c3
             then ((b - 0xF0) * 262144 + (c1 - 0x80) * 4096 + (c2 - 0x80) * 64 + (c3 - 0x80)) # runes_of r
             else 0xFFFD # runes_of bs
         | _ \<Rightarrow> 0xFFFD # runes_of bs)
      else 0xFFFD # runes_of bs)"

fun utf16_Decode :: "nat list \<Rightarrow> rune list" where
  "utf16_Decode [] = []"
| "utf16_Decode (u # us) =
     (if 0xD800 \<le> u \<and> u < 0xDC00 then
        (case us of
           v # vs \<Rightarrow> if 0xDC00 \<le> v \<and> v < 0xE000 then ((u - 0xD800) * 0x400 + (v - 0xDC00) + 0x10000) # utf16_Decode vs
                    else 0xFFFD # utf16_Decode us
         | [] \<Rightarrow> [0xFFFD])
      else if 0xDC00 \<le> u \<and> u < 0xE000 then 0xFFFD # utf16_Decode us
      else u # utf16_Decode us)"

lemma runes_of_rune:
  assumes "scalar r"
  shows "runes_of (map unat (utf8_rune r) @ bs) = r # runes_of bs"
proof -
  have r: "r \<le> 0x10FFFF" "r < 0xD800 \<or> 0xDFFF < r" using assms by (auto simp: scalar_def)
  define q h m k b c where "q = r div 64" and "h = r div 4096" and "m = r div 262144"
    and "k = r div 4096 mod 64" and "b = r div 64 mod 64" and "c = r mod 64"
  have dig: "r = 64 * q + c" "q = 64 * h + b" "h = 64 * m + k" "c < 64" "b < 64" "k < 64"
    using base64_digits [of r] unfolding q_def h_def m_def k_def b_def c_def by simp_all
  have rune: "utf8_rune r = (if r < 0x80 then [of_nat r] else if r < 0x800 then [of_nat (0xC0 + q), of_nat (0x80 + c)]
      else if r < 0x10000 then [of_nat (0xE0 + h), of_nat (0x80 + b), of_nat (0x80 + c)]
      else [of_nat (0xF0 + m), of_nat (0x80 + k), of_nat (0x80 + b), of_nat (0x80 + c)])"
    using r unfolding utf8_rune_def q_def h_def m_def k_def b_def c_def Let_def by (auto simp del: of_nat_add)
  have u: "unat (of_nat n :: byte) = n" if "n < 256" for n using that by (rule unat_byte_of_nat)
  consider "r < 0x80" | "0x80 \<le> r" "r < 0x800" | "0x800 \<le> r" "r < 0x10000" | "0x10000 \<le> r" by linarith
  then show ?thesis
  proof cases
    case 1
    then show ?thesis unfolding rune by (simp add: unat_byte_of_nat)
  next
    case 2
    then have q: "2 \<le> q" "q < 32" using dig by linarith+
    then have "unat (of_nat (0xC0 + q) :: byte) = 0xC0 + q" "unat (of_nat (0x80 + c) :: byte) = 0x80 + c"
      using dig by (intro u; linarith)+
    with 2 q dig(1,4) show ?thesis unfolding rune by (simp add: in_range_def del: of_nat_add)
  next
    case 3
    then have h: "h < 16" "h = 0 \<Longrightarrow> 32 \<le> b" "h = 13 \<Longrightarrow> b < 32" using dig r by linarith+
    then have "unat (of_nat (0xE0 + h) :: byte) = 0xE0 + h" "unat (of_nat (0x80 + c) :: byte) = 0x80 + c"
        "unat (of_nat (0x80 + b) :: byte) = 0x80 + b"
      using dig by (intro u; linarith)+
    moreover have "r = h * 4096 + b * 64 + c" using dig(1,2) by simp
    ultimately show ?thesis using 3 h dig(4,5) unfolding rune by (auto simp: in_range_def simp del: of_nat_add)
  next
    case 4
    then have m: "m < 5" "m = 0 \<Longrightarrow> 16 \<le> k" "m = 4 \<Longrightarrow> k < 16" using dig r by linarith+
    then have "unat (of_nat (0xF0 + m) :: byte) = 0xF0 + m" "unat (of_nat (0x80 + c) :: byte) = 0x80 + c"
        "unat (of_nat (0x80 + b) :: byte) = 0x80 + b" "unat (of_nat (0x80 + k) :: byte) = 0x80 + k"
      using dig by (intro u; linarith)+
    moreover have "r = m * 262144 + k * 4096 + b * 64 + c" using dig(1,2,3) by simp
    ultimately show ?thesis using 4 m dig(4,5,6) unfolding rune by (auto simp: in_range_def simp del: of_nat_add)
  qed
qed

lemma runes_of_string: "list_all scalar rs \<Longrightarrow> runes_of (map unat (string_of_runes rs)) = rs"
  by (induction rs) (simp_all add: string_of_runes_def runes_of_rune)

lemma utf16_Decode_of: "list_all scalar rs \<Longrightarrow> utf16_Decode (concat (map utf16_of rs)) = rs"
proof (induction rs)
  case (Cons r rs)
  show ?case
  proof (cases "r < 0x10000")
    case True
    with Cons show ?thesis by (auto simp: utf16_of_def scalar_def)
  next
    case False
    define x where "x = r - 0x10000"
    have x: "x < 0x100000" "r = x + 0x10000" using False Cons.prems by (auto simp: x_def scalar_def)
    then have "x div 0x400 < 1024" "x mod 0x400 < 1024" by (simp_all add: less_mult_imp_div_less)
    moreover have "x div 0x400 * 0x400 + x mod 0x400 = x" by simp
    ultimately show ?thesis using Cons False x by (simp add: utf16_of_def x_def [symmetric])
  qed
qed simp

section \<open>Conversions\<close>

lemma str_of_bytes [simp]: "str_of (bytes_of s) = s"
proof -
  have "char_of (unat (of_nat (of_char c) :: byte)) = c" for c
    using of_char_of [of "of_char c :: nat"] by (simp add: unat_of_nat)
  then show ?thesis by (simp add: str_of_def bytes_of_def o_def)
qed

lemma bytes_of_str [simp]: "bytes_of (str_of bs) = bs"
  by (simp add: str_of_def bytes_of_def o_def)

lemma bytes_of_append [simp]: "bytes_of (s @ t) = bytes_of s @ bytes_of t"
  by (simp add: bytes_of_def)

lemma bytes_of_length [simp]: "length (bytes_of s) = length s"
  by (simp add: bytes_of_def)

lemma str_of_append [simp]: "str_of (a @ b) = str_of a @ str_of b"
  by (simp add: str_of_def)

lemma str_of_length [simp]: "length (str_of bs) = length bs"
  by (simp add: str_of_def)

section \<open>Base64\<close>

text \<open>\<^verbatim>\<open>base64.StdEncoding\<close>: three bytes are four digits; the last group is padded. The decoder skips
  line breaks, takes the padding only at the end, and ignores the unused bits of the last digit.\<close>

definition b64_char :: "nat \<Rightarrow> char" where
  "b64_char i =
     (if i < 26 then char_of (65 + i) else if i < 52 then char_of (71 + i) else if i < 62 then char_of (i - 4)
      else if i = 62 then CHR ''+'' else CHR ''/'')"

definition b64_val :: "char \<Rightarrow> nat option" where
  "b64_val c =
     (let n = of_char c :: nat in
      if 65 \<le> n \<and> n \<le> 90 then Some (n - 65) else if 97 \<le> n \<and> n \<le> 122 then Some (n - 71)
      else if 48 \<le> n \<and> n \<le> 57 then Some (n + 4) else if n = 43 then Some 62 else if n = 47 then Some 63 else None)"

fun b64_encode :: "byte list \<Rightarrow> string" where
  "b64_encode [] = []"
| "b64_encode [a] = [b64_char (unat a div 4), b64_char (unat a mod 4 * 16), CHR ''='', CHR ''='']"
| "b64_encode [a, b] =
     [b64_char (unat a div 4), b64_char (unat a mod 4 * 16 + unat b div 16), b64_char (unat b mod 16 * 4), CHR ''='']"
| "b64_encode (a # b # c # bs) =
     [b64_char (unat a div 4), b64_char (unat a mod 4 * 16 + unat b div 16),
      b64_char (unat b mod 16 * 4 + unat c div 64), b64_char (unat c mod 64)] @ b64_encode bs"

definition b64_bytes :: "nat \<Rightarrow> nat \<Rightarrow> nat \<Rightarrow> nat \<Rightarrow> byte list" where
  "b64_bytes i j k l = [of_nat (i * 4 + j div 16), of_nat (j mod 16 * 16 + k div 4), of_nat (k mod 4 * 64 + l)]"

fun b64_quanta :: "string \<Rightarrow> byte list option" where
  "b64_quanta [] = Some []"
| "b64_quanta (a # b # c # d # s) =
     (case (b64_val a, b64_val b) of
        (Some i, Some j) \<Rightarrow>
          if d = CHR ''='' then
            if s \<noteq> [] then None
            else if c = CHR ''='' then Some (take 1 (b64_bytes i j 0 0))
            else (case b64_val c of Some k \<Rightarrow> Some (take 2 (b64_bytes i j k 0)) | None \<Rightarrow> None)
          else (case (b64_val c, b64_val d, b64_quanta s) of
                  (Some k, Some l, Some bs) \<Rightarrow> Some (b64_bytes i j k l @ bs) | _ \<Rightarrow> None)
      | _ \<Rightarrow> None)"
| "b64_quanta _ = None"

definition b64_decode :: "string \<Rightarrow> byte list option" where
  "b64_decode s = b64_quanta (filter (\<lambda>c. c \<noteq> CHR 0x0A \<and> c \<noteq> CHR 0x0D) s)"

lemma b64_digits [simp]: "i < 64 \<Longrightarrow> b64_val (b64_char i) = Some i"
  by (auto simp: b64_char_def b64_val_def Let_def)

lemma b64_digit_clean:
  "b64_val c = Some i \<Longrightarrow> c \<noteq> CHR ''='' \<and> c \<noteq> CHR 0x0A \<and> c \<noteq> CHR 0x0D \<and> \<not> go_space c
    \<and> c \<noteq> CHR '','' \<and> c \<noteq> CHR 0x22 \<and> c \<noteq> CHR '':''"
  by (auto simp: b64_val_def go_space_def)

lemma byte_parts [simp]:
  "unat (a :: byte) div 4 < 64" "unat a mod 4 * 16 + unat (b :: byte) div 16 < 64" "unat a mod 4 * 16 < 64"
  "unat b mod 16 * 4 + unat (c :: byte) div 64 < 64" "unat b mod 16 * 4 < 64"
proof -
  have "unat a < 256" "unat b < 256" "unat c < 256" by simp_all
  then show "unat a div 4 < 64" "unat a mod 4 * 16 + unat b div 16 < 64" "unat a mod 4 * 16 < 64"
    "unat b mod 16 * 4 + unat c div 64 < 64" "unat b mod 16 * 4 < 64" by linarith+
qed

lemma b64_chars: "c \<in> set (b64_encode bs) \<Longrightarrow> c = CHR ''='' \<or> (\<exists>i. b64_val c = Some i)"
  by (induction bs rule: b64_encode.induct) auto

lemma b64_bytes_join:
  "b64_bytes (unat a div 4) (unat a mod 4 * 16 + unat b div 16) (unat b mod 16 * 4 + unat c div 64) (unat c mod 64) = [a, b, c]"
proof -
  have lt: "unat b div 16 < 16" "unat c div 64 < 4" by (simp_all add: less_mult_imp_div_less)
  have "unat a div 4 * 4 + (unat a mod 4 * 16 + unat b div 16) div 16 = unat a" using lt by simp
  moreover have "(unat a mod 4 * 16 + unat b div 16) mod 16 * 16 + (unat b mod 16 * 4 + unat c div 64) div 4 = unat b"
    using lt by simp
  moreover have "(unat b mod 16 * 4 + unat c div 64) mod 4 * 64 + unat c mod 64 = unat c" using lt by simp
  ultimately show ?thesis by (simp only: b64_bytes_def of_nat_unat ucast_id)
qed

lemma b64_char_pad: "i < 64 \<Longrightarrow> b64_char i \<noteq> CHR ''=''"
  using b64_digit_clean [OF b64_digits] by blast

lemma b64_quanta_step:
  assumes "i < 64" "j < 64" "k < 64" "l < 64"
  shows "b64_quanta (b64_char i # b64_char j # b64_char k # b64_char l # s) =
      map_option (\<lambda>bs. b64_bytes i j k l @ bs) (b64_quanta s)"
    "b64_quanta [b64_char i, b64_char j, b64_char k, CHR ''=''] = Some (take 2 (b64_bytes i j k 0))"
    "b64_quanta [b64_char i, b64_char j, CHR ''='', CHR ''=''] = Some (take 1 (b64_bytes i j 0 0))"
  using assms b64_char_pad [OF assms(3)] b64_char_pad [OF assms(4)] by (auto split: option.splits)

lemma b64_quanta_encode: "b64_quanta (b64_encode bs) = Some bs"
proof (induction bs rule: b64_encode.induct)
  case (2 a)
  show ?case using b64_bytes_join [of a 0 0]
    by (simp only: b64_encode.simps b64_quanta_step(3) [of _ _ 0 0] byte_parts zero_less_numeral unsigned_0) simp
next
  case (3 a b)
  show ?case using b64_bytes_join [of a b 0]
    by (simp only: b64_encode.simps b64_quanta_step(2) [of _ _ _ 0] byte_parts zero_less_numeral unsigned_0) simp
next
  case (4 a b c bs)
  have "unat c mod 64 < 64" by simp
  then show ?case
    by (simp only: b64_encode.simps append.simps b64_quanta_step(1) byte_parts b64_bytes_join 4) simp
qed simp

lemma b64_clean: "c \<in> set (b64_encode bs) \<Longrightarrow> c \<noteq> CHR 0x0A \<and> c \<noteq> CHR 0x0D \<and> \<not> go_space c \<and> c \<noteq> CHR '','' \<and> c \<noteq> CHR 0x22"
proof -
  assume "c \<in> set (b64_encode bs)"
  then consider "c = CHR ''=''" | i where "b64_val c = Some i" using b64_chars by blast
  then show ?thesis
  proof cases
    case 1
    then show ?thesis by (simp add: go_space_def)
  next
    case 2
    then show ?thesis using b64_digit_clean by blast
  qed
qed

lemma b64_roundtrip [simp]: "b64_decode (b64_encode bs) = Some bs"
proof -
  have "filter (\<lambda>c. c \<noteq> CHR 0x0A \<and> c \<noteq> CHR 0x0D) (b64_encode bs) = b64_encode bs"
    using b64_clean by (intro filter_True) blast
  then show ?thesis by (simp add: b64_decode_def b64_quanta_encode)
qed

lemma b64_encode_length: "length (b64_encode bs) = (length bs + 2) div 3 * 4"
proof (induction bs rule: b64_encode.induct)
  case (4 a b c bs)
  have "(n + 3 + 2) div 3 = Suc ((n + 2) div 3)" for n :: nat by presburger
  then have "(length (a # b # c # bs) + 2) div 3 * 4 = 4 + (length bs + 2) div 3 * 4"
    by (metis (no_types) add.commute add_Suc_right length_Cons mult_Suc numeral_3_eq_3 plus_1_eq_Suc One_nat_def add_0_right)
  moreover have "length (b64_encode (a # b # c # bs)) = 4 + length (b64_encode bs)" by simp
  ultimately show ?case using 4 by (simp only:)
qed auto

lemma b64_trim [simp]: "trim_space (b64_encode bs) = b64_encode bs"
  using b64_clean by (intro trim_space_id) blast

lemma b64_empty [simp]: "b64_encode bs = [] \<longleftrightarrow> bs = []"
  by (induction bs rule: b64_encode.induct) auto

end
