(* ===== verification/Guardian_Protocol.thy ===== *)
theory Guardian_Protocol
  imports Guardian_Core Go_Encoding
begin

text \<open>
  The control channel between the guardian's parent and its worker,
  \<^verbatim>\<open>internal/guardian/protocol.go\<close>: the token, the line framing with its length limit, the
  three messages, the greeting, and the accept loop of the parent's listener.

  A connection is the string of bytes that its peer has sent; a read that finds no complete
  line fails with the error the connection reports. Deadlines and locks are not modelled.
\<close>

section \<open>Messages and sessions\<close>

definition maxMessageBytes :: nat where "maxMessageBytes = 1024"
definition ioDeadline :: duration where "ioDeadline = 5 * second"

definition MessageReady :: string where "MessageReady = ''READY''"
definition MessageBeat :: string where "MessageBeat = ''BEAT''"
definition MessageStop :: string where "MessageStop = ''STOP''"

lemmas message_defs = MessageReady_def MessageBeat_def MessageStop_def

record Message =
  Type :: string
  Sequence :: u64

text \<open>The token of 32 random bytes; the random source is the argument.\<close>

definition NewToken :: "(goerr + byte list) \<Rightarrow> goerr + string" where
  "NewToken random = (case random of Inl e \<Rightarrow> Inl e | Inr buf \<Rightarrow> Inr (hex_encode buf))"

text \<open>\<^verbatim>\<open>readLine\<close> on a reader with a buffer of \<^const>\<open>maxMessageBytes\<close> bytes: the line, or an
  error, and what is left of the stream. The error of an incomplete line is the argument.\<close>

definition crlf :: "char \<Rightarrow> bool" where "crlf c \<longleftrightarrow> c = CHR 0x0D \<or> c = CHR 0x0A"

definition readLine :: "goerr \<Rightarrow> string \<Rightarrow> (goerr + string) \<times> string" where
  "readLine ioErr s =
     (let buf = take maxMessageBytes s in
      if CHR 0x0A \<in> set buf
      then (let n = Suc (length (takeWhile (\<lambda>c. c \<noteq> CHR 0x0A) buf))
            in (Inr (trim_right_by crlf (take n s)), drop n s))
      else if length buf = maxMessageBytes then (Inl ErrProtocol, drop maxMessageBytes s)
      else (Inl ioErr, []))"

definition writeLine :: "string \<Rightarrow> goerr + string" where
  "writeLine line = (if length line + 1 > maxMessageBytes then Inl ErrProtocol
                     else Inr (line @ [CHR 0x0A]))"

definition message_line :: "Message \<Rightarrow> string option" where
  "message_line msg =
     (if Type msg = MessageReady then Some MessageReady
      else if Type msg = MessageBeat
      then Some (MessageBeat @ '' '' @ show_nat (unat (Sequence msg)))
      else if Type msg = MessageStop then Some MessageStop
      else None)"

definition Session_Send :: "Message \<Rightarrow> goerr + string" where
  "Session_Send msg = (case message_line msg of None \<Rightarrow> Inl ErrProtocol | Some line \<Rightarrow> writeLine line)"

definition parse_message :: "string \<Rightarrow> goerr + Message" where
  "parse_message line =
     (case str_fields line of
        [] \<Rightarrow> Inl ErrProtocol
      | p # ps \<Rightarrow>
          if p = MessageReady then
            (if ps \<noteq> [] then Inl ErrProtocol else Inr \<lparr>Type = MessageReady, Sequence = 0\<rparr>)
          else if p = MessageStop then
            (if ps \<noteq> [] then Inl ErrProtocol else Inr \<lparr>Type = MessageStop, Sequence = 0\<rparr>)
          else if p = MessageBeat then
            (case ps of
               [q] \<Rightarrow> (case parse_uint64 q of None \<Rightarrow> Inl ErrProtocol
                       | Some n \<Rightarrow> Inr \<lparr>Type = MessageBeat, Sequence = n\<rparr>)
             | _ \<Rightarrow> Inl ErrProtocol)
          else Inl ErrProtocol)"

definition Session_Read :: "goerr \<Rightarrow> string \<Rightarrow> (goerr + Message) \<times> string" where
  "Session_Read ioErr s =
     (case readLine ioErr s of
        (Inl e, rest) \<Rightarrow> (Inl e, rest)
      | (Inr line, rest) \<Rightarrow> (parse_message line, rest))"

definition validateHello :: "string \<Rightarrow> string \<Rightarrow> goerr option" where
  "validateHello line expectedToken =
     (let parts = str_fields line in
      if length parts \<noteq> 2 \<or> parts ! 0 \<noteq> ''HELLO'' \<or> expectedToken = [] \<or> parts ! 1 \<noteq> expectedToken
      then Some ErrAuthentication else None)"

definition operationDeadline :: "gotime \<Rightarrow> gotime option \<Rightarrow> gotime" where
  "operationDeadline now ctxDeadline =
     (let deadline = now + ioDeadline in
      case ctxDeadline of
        Some candidate \<Rightarrow> if before candidate deadline then candidate else deadline
      | None \<Rightarrow> deadline)"

section \<open>The listener\<close>

text \<open>The greeting of the worker's side of the connection.\<close>

definition Connect_greeting :: "string \<Rightarrow> goerr + string" where
  "Connect_greeting token = writeLine (''HELLO '' @ token)"

text \<open>What one round of the accept loop meets: the context is done, the accept call times out or
  fails (with or without the context done by then), or a connection arrives with the bytes its
  peer sends and the error of closing the listener.\<close>

datatype accept_event =
    CtxDone goerr
  | AcceptTimeout
  | AcceptError goerr "goerr option"
  | Incoming nat string "goerr option"

record ControlListener =
  token :: string
  closed :: bool

text \<open>The result of the loop: the session (the connection and the rest of its bytes) or the error,
  the connections closed on the way, and the listener afterwards. No result means that the
  events given so far leave the loop waiting.\<close>

definition Listener_Close :: "ControlListener \<Rightarrow> ControlListener" where
  "Listener_Close c = (if closed c then c else c\<lparr>closed := True\<rparr>)"

fun Accept :: "goerr \<Rightarrow> ControlListener \<Rightarrow> accept_event list \<Rightarrow> nat list \<Rightarrow>
    ((goerr + nat \<times> string) \<times> nat list \<times> ControlListener) option" where
  "Accept ioErr c [] dropped = None"
| "Accept ioErr c (CtxDone e # evs) dropped = Some (Inl e, dropped, c)"
| "Accept ioErr c (AcceptTimeout # evs) dropped = Accept ioErr c evs dropped"
| "Accept ioErr c (AcceptError e ctxErr # evs) dropped =
     Some (Inl (case ctxErr of Some e' \<Rightarrow> e' | None \<Rightarrow> e), dropped, c)"
| "Accept ioErr c (Incoming conn bytes closeErr # evs) dropped =
     (case readLine ioErr bytes of
        (Inl _, _) \<Rightarrow> Accept ioErr c evs (dropped @ [conn])
      | (Inr line, rest) \<Rightarrow>
          if validateHello line (token c) \<noteq> None then Accept ioErr c evs (dropped @ [conn])
          else (let c' = Listener_Close c in
                case (if closed c then None else closeErr) of
                  Some e \<Rightarrow> if errors_is e ErrClosed then Some (Inr (conn, rest), dropped, c')
                            else Some (Inl e, dropped @ [conn], c')
                | None \<Rightarrow> Some (Inr (conn, rest), dropped, c')))"

section \<open>Framing and messages read back\<close>

lemma readLine_framed:
  assumes "CHR 0x0A \<notin> set l" "length l < maxMessageBytes"
  shows "readLine e (l @ CHR 0x0A # rest) = (Inr (trim_right_by crlf l), rest)"
proof -
  let ?s = "l @ CHR 0x0A # rest"
  have "take maxMessageBytes ?s = l @ CHR 0x0A # take (maxMessageBytes - Suc (length l)) rest"
    using assms(2) by (simp add: take_Cons')
  moreover have "takeWhile (\<lambda>c. c \<noteq> CHR 0x0A) (l @ CHR 0x0A # r) = l" for r
    using assms(1) by (induction l) auto
  ultimately show ?thesis by (simp add: readLine_def Let_def crlf_def)
qed

lemma readLine_writeLine:
  assumes "writeLine l = Inr s" "CHR 0x0A \<notin> set l"
  shows "readLine e (s @ rest) = (Inr (trim_right_by crlf l), rest)"
  using readLine_framed [of l e rest] assms by (auto simp: writeLine_def split: if_splits)

lemma readLine_shrinks:
  "readLine e s = (r, rest) \<Longrightarrow> s \<noteq> [] \<Longrightarrow> length rest < length s"
  by (auto simp: readLine_def Let_def maxMessageBytes_def split: if_splits)

lemma crlf_space: "crlf c \<Longrightarrow> go_space c"
  by (auto simp: crlf_def go_space_def)

lemma trim_crlf_id: "\<forall>c \<in> set l. \<not> go_space c \<Longrightarrow> trim_right_by crlf (x @ l) = x @ l" if "l \<noteq> []"
  using that by (intro trim_right_by_id) (auto simp: last_append dest: crlf_space last_in_set)

definition canonical_message :: "Message \<Rightarrow> bool" where
  "canonical_message m \<longleftrightarrow> Type m = MessageBeat \<or> Sequence m = 0"

definition decode_message :: "string \<Rightarrow> Message option" where
  "decode_message line = (case parse_message (trim_right_by crlf line) of Inl _ \<Rightarrow> None | Inr m \<Rightarrow> Some m)"

lemma no_space_words:
  "\<forall>c \<in> set MessageReady. \<not> go_space c" "\<forall>c \<in> set MessageStop. \<not> go_space c"
  "\<forall>c \<in> set MessageBeat. \<not> go_space c" "\<forall>c \<in> set (show_nat n). \<not> go_space c"
  "\<forall>c \<in> set ''HELLO''. \<not> go_space c"
proof -
  show "\<forall>c \<in> set (show_nat n). \<not> go_space c"
    using show_nat_digits [of n] by (auto simp: list_all_iff dest: digit_not_special(1))
qed (simp_all add: message_defs go_space_def)

lemma words_nonempty [simp]: "MessageReady \<noteq> []" "MessageBeat \<noteq> []" "MessageStop \<noteq> []"
  by (simp_all add: message_defs)

lemma words_distinct [simp]:
  "MessageReady \<noteq> MessageBeat" "MessageBeat \<noteq> MessageReady" "MessageReady \<noteq> MessageStop"
  "MessageStop \<noteq> MessageReady" "MessageBeat \<noteq> MessageStop" "MessageStop \<noteq> MessageBeat"
  by (simp_all add: message_defs)

lemma str_fields_beat: "str_fields (MessageBeat @ CHR '' '' # show_nat n) = [MessageBeat, show_nat n]"
  by (rule str_fields_pair) (simp_all add: no_space_words)

lemma trim_message_line: "message_line m = Some l \<Longrightarrow> trim_right_by crlf l = l"
  using trim_crlf_id [of MessageReady "[]"] trim_crlf_id [of MessageStop "[]"]
    trim_crlf_id [of "show_nat (unat (Sequence m))" "MessageBeat @ '' ''"]
  by (auto simp: message_line_def no_space_words split: if_splits)

lemma parse_message_line:
  assumes "canonical_message m" "message_line m = Some l"
  shows "parse_message l = Inr m"
  using assms
  by (cases m) (auto simp: message_line_def parse_message_def canonical_message_def str_fields_single
      no_space_words str_fields_beat parse_uint64_show split: if_splits)

lemma message_line_cases:
  assumes "message_line m = Some l"
  obtains "l = MessageReady" | "l = MessageBeat @ CHR '' '' # show_nat (unat (Sequence m))"
    | "l = MessageStop"
  using assms that by (auto simp: message_line_def split: if_splits)

lemma message_line_no_newline: "message_line m = Some l \<Longrightarrow> CHR 0x0A \<notin> set l"
proof -
  have "CHR 0x0A \<notin> set (show_nat (unat (Sequence m)))"
    using no_space_words(4) [of "unat (Sequence m)"] by (auto simp: go_space_def)
  then show "message_line m = Some l \<Longrightarrow> CHR 0x0A \<notin> set l"
    by (erule_tac message_line_cases) (simp_all add: message_defs)
qed

interpretation control_line: line_codec message_line decode_message canonical_message
  by unfold_locales
    (auto simp: decode_message_def trim_message_line parse_message_line message_line_no_newline)

lemma show_nat_length: "n < 10 ^ k \<Longrightarrow> 0 < k \<Longrightarrow> length (show_nat n) \<le> k"
proof (induction n arbitrary: k rule: show_nat.induct)
  case (1 n)
  show ?case
  proof (cases "n < 10")
    case True
    then show ?thesis using 1 by (subst show_nat.simps) simp
  next
    case False
    then obtain j where j: "k = Suc j" "0 < j" using 1(2,3) by (cases k; cases "k - 1") auto
    then have "n div 10 < 10 ^ j" using 1(2) by (simp add: less_mult_imp_div_less mult.commute)
    then have "length (show_nat (n div 10)) \<le> j" using 1 False j by blast
    then show ?thesis using False j by (subst show_nat.simps) simp
  qed
qed

lemma Session_Send_message: "message_line m = Some l \<Longrightarrow> Session_Send m = Inr (l @ [CHR 0x0A])"
proof -
  assume l: "message_line m = Some l"
  have "unat (Sequence m) < 10 ^ 20"
    using unat_u64_less [of "Sequence m"] by simp
  then have "length (show_nat (unat (Sequence m))) \<le> 20" by (rule show_nat_length) simp
  with l have "length l < maxMessageBytes"
    by (elim message_line_cases) (simp_all add: message_defs maxMessageBytes_def)
  then show ?thesis using l by (simp add: Session_Send_def writeLine_def)
qed

section \<open>The control reader\<close>

text \<open>\<^verbatim>\<open>readParentControl\<close> and \<^verbatim>\<open>readWorkerControl\<close>: the messages handed to the
  monitor, then the error that ends the reader. A read that times out before any byte of a line
  is retried, so the stream is what the peer sends over the whole session.\<close>

lemma Session_Read_rest:
  "Session_Read e s = (Inr m, rest) \<Longrightarrow> length rest < length s"
proof -
  assume r: "Session_Read e s = (Inr m, rest)"
  then have "s \<noteq> []" by (auto simp: Session_Read_def readLine_def maxMessageBytes_def)
  with r show ?thesis
    by (auto simp: Session_Read_def dest: readLine_shrinks split: prod.splits sum.splits)
qed

function readParentControl :: "goerr \<Rightarrow> string \<Rightarrow> Message list \<times> goerr" where
  "readParentControl ioErr s =
     (case Session_Read ioErr s of
        (Inl err, _) \<Rightarrow> ([], err)
      | (Inr msg, rest) \<Rightarrow> (let (msgs, err) = readParentControl ioErr rest in (msg # msgs, err)))"
  by pat_completeness auto
termination
  by (relation "measure (\<lambda>(e, s). length s)") (auto intro: Session_Read_rest sym)

declare readParentControl.simps [simp del]

definition readWorkerControl :: "goerr \<Rightarrow> string \<Rightarrow> Message list \<times> goerr" where
  "readWorkerControl = readParentControl"

lemma Session_Read_Send:
  assumes "canonical_message m" "Session_Send m = Inr s"
  shows "Session_Read e (s @ rest) = (Inr m, rest)"
proof -
  from assms(2) obtain l where l: "message_line m = Some l"
    by (auto simp: Session_Send_def split: option.splits)
  then have w: "writeLine l = Inr s" using assms(2) by (simp add: Session_Send_def)
  have "readLine e (s @ rest) = (Inr l, rest)"
    using readLine_writeLine [OF w control_line.no_newline [OF l]] trim_message_line [OF l] by simp
  with parse_message_line [OF assms(1) l] show ?thesis by (simp add: Session_Read_def)
qed

lemma Accept_Inr_split:
  assumes "Accept e c evs dropped = Some (Inr (conn, rest), out, c')"
  shows "\<exists>pre bytes ce post line. evs = pre @ Incoming conn bytes ce # post
     \<and> readLine e bytes = (Inr line, rest) \<and> validateHello line (token c) = None
     \<and> out = dropped @ List.map_filter (\<lambda>ev. case ev of Incoming i _ _ \<Rightarrow> Some i | _ \<Rightarrow> None) pre
     \<and> closed c'"
  using assms
proof (induction e c evs dropped rule: Accept.induct)
  case (3 e c evs dropped)
  then obtain pre bytes ce post line where "evs = pre @ Incoming conn bytes ce # post"
    "readLine e bytes = (Inr line, rest)" "validateHello line (token c) = None"
    "out = dropped @ List.map_filter (\<lambda>ev. case ev of Incoming i _ _ \<Rightarrow> Some i | _ \<Rightarrow> None) pre"
    "closed c'" by auto
  then show ?case
    by (intro exI [of _ "AcceptTimeout # pre"]) (auto simp: List.map_filter_simps)
next
  case (5 e c i bytes ce evs dropped)
  show ?case
  proof (cases "\<exists>line r. readLine e bytes = (Inr line, r) \<and> validateHello line (token c) = None")
    case True
    then obtain line r where l: "readLine e bytes = (Inr line, r)" "validateHello line (token c) = None"
      by blast
    with 5(3) have "i = conn" "r = rest" "out = dropped" "closed c'"
      by (auto simp: Let_def Listener_Close_def split: option.splits if_splits)
    with l show ?thesis
      by (intro exI [of _ "[]"] exI [of _ bytes] exI [of _ ce] exI [of _ evs] exI [of _ line])
        (simp add: List.map_filter_simps)
  next
    case False
    then have "Accept e c evs (dropped @ [i]) = Some (Inr (conn, rest), out, c')
      \<and> (\<exists>pre bytes ce post line. evs = pre @ Incoming conn bytes ce # post
         \<and> readLine e bytes = (Inr line, rest) \<and> validateHello line (token c) = None
         \<and> out = (dropped @ [i]) @ List.map_filter (\<lambda>ev. case ev of Incoming i _ _ \<Rightarrow> Some i | _ \<Rightarrow> None) pre
         \<and> closed c')"
      using 5 by (auto split: prod.splits sum.splits)
    then obtain pre b' ce' post line where "evs = pre @ Incoming conn b' ce' # post"
      "readLine e b' = (Inr line, rest)" "validateHello line (token c) = None"
      "out = (dropped @ [i]) @ List.map_filter (\<lambda>ev. case ev of Incoming i _ _ \<Rightarrow> Some i | _ \<Rightarrow> None) pre"
      "closed c'" by blast
    then show ?thesis
      by (intro exI [of _ "Incoming i bytes ce # pre"]) (auto simp: List.map_filter_simps)
  qed
qed auto

lemma readParentControl_delivers:
  assumes "\<forall>m \<in> set ms. canonical_message m"
    and "list_all2 (\<lambda>m s. Session_Send m = Inr s) ms ss"
  shows "readParentControl ioErr (concat ss) = (ms, ioErr)"
  using assms
proof (induction ms arbitrary: ss)
  case Nil
  then show ?case
    by (simp add: readParentControl.simps Session_Read_def readLine_def maxMessageBytes_def)
next
  case (Cons m ms)
  then obtain s ss' where ss: "ss = s # ss'" "Session_Send m = Inr s"
    "list_all2 (\<lambda>m s. Session_Send m = Inr s) ms ss'" by (auto simp: list_all2_Cons1)
  then have "Session_Read ioErr (concat ss) = (Inr m, concat ss')"
    using Cons.prems(1) Session_Read_Send [of m s ioErr "concat ss'"] by simp
  then show ?case
    using Cons.IH [OF _ ss(3)] Cons.prems(1) by (subst readParentControl.simps) simp
qed

section \<open>Properties\<close>

text \<open>C8: whatever sequence of messages one side sends, the other side's reader delivers exactly
  that sequence, in order, before it meets the end of the stream.\<close>

theorem control_stream_delivers:
  assumes "\<forall>m \<in> set ms. canonical_message m"
    and "list_all2 (\<lambda>m s. Session_Send m = Inr s) ms ss"
  shows "readParentControl ioErr (concat ss) = (ms, ioErr)"
  using assms by (rule readParentControl_delivers)

theorem control_stream_delivers_witness:
  "readParentControl Canceled (concat [''READY'' @ [CHR 0x0A], ''BEAT 7'' @ [CHR 0x0A]]) =
     ([\<lparr>Type = MessageReady, Sequence = 0\<rparr>, \<lparr>Type = MessageBeat, Sequence = 7\<rparr>], Canceled)"
proof -
  have "show_nat 7 = ''7''" by code_simp
  then show ?thesis
    by (intro control_stream_delivers)
      (simp_all add: canonical_message_def Session_Send_def message_line_def writeLine_def
        maxMessageBytes_def message_defs)
qed

text \<open>the greeting a worker sends with a token of 32 bytes is read back by the listener and
  passes its check exactly when the listener expects that token.\<close>

theorem hello_authenticates:
  assumes "length bs = 32" "length bs' = 32"
  shows "\<exists>s line. Connect_greeting (hex_encode bs) = Inr s \<and> readLine ioErr s = (Inr line, [])
     \<and> (validateHello line (hex_encode bs') = None \<longleftrightarrow> hex_encode bs = hex_encode bs')"
proof -
  let ?t = "hex_encode bs" and ?l = "''HELLO'' @ CHR '' '' # hex_encode bs"
  have ns: "\<forall>c \<in> set (hex_encode x). \<not> go_space c" for x
    using hex_encode_chars [of x] by (auto simp: go_space_def)
  have ne: "?t \<noteq> []" "hex_encode bs' \<noteq> []" and len: "length ?t = 64"
    using hex_encode_length [of bs] hex_encode_length [of bs'] assms by auto
  have w: "Connect_greeting ?t = Inr (?l @ [CHR 0x0A])"
    using len by (simp add: Connect_greeting_def writeLine_def maxMessageBytes_def)
  have "CHR 0x0A \<notin> set ?t" using ns [of bs] by (auto simp: go_space_def)
  then have "readLine ioErr (?l @ CHR 0x0A # []) = (Inr (trim_right_by crlf ?l), [])"
    using len by (intro readLine_framed) (auto simp: maxMessageBytes_def)
  moreover have "trim_right_by crlf ?l = ?l"
    using trim_crlf_id [OF ne(1) ns, of "''HELLO ''"] by simp
  moreover have "str_fields ?l = [''HELLO'', ?t]"
    using ns ne no_space_words(5) by (intro str_fields_pair) auto
  ultimately show ?thesis
    using w ne by (intro exI [of _ "?l @ [CHR 0x0A]"] exI [of _ ?l]) (auto simp: validateHello_def Let_def)
qed

theorem hello_authenticates_witness:
  "\<exists>s line. Connect_greeting (hex_encode (replicate 32 10)) = Inr s \<and> readLine Canceled s = (Inr line, [])
     \<and> (validateHello line (hex_encode (replicate 32 11)) = None
        \<longleftrightarrow> hex_encode (replicate 32 10) = hex_encode (replicate 32 11))"
  by (rule hello_authenticates) simp_all

text \<open>C32: the accept loop hands out a session only for a connection whose first line is a valid
  greeting for the listener's token; every connection that came before it has been dropped and
  the listener is closed, so no second session follows.\<close>

theorem accept_only_authenticated:
  assumes "Accept ioErr c evs [] = Some (Inr (conn, rest), dropped, c')"
  shows "\<exists>pre bytes ce post line. evs = pre @ Incoming conn bytes ce # post
     \<and> readLine ioErr bytes = (Inr line, rest) \<and> str_fields line = [''HELLO'', token c]
     \<and> dropped = List.map_filter (\<lambda>ev. case ev of Incoming i _ _ \<Rightarrow> Some i | _ \<Rightarrow> None) pre
     \<and> closed c'"
proof -
  have ok: "validateHello line t = None \<Longrightarrow> str_fields line = [''HELLO'', t]" for line t
  proof -
    assume v: "validateHello line t = None"
    then have "length (str_fields line) = 2" by (auto simp: validateHello_def Let_def split: if_splits)
    then obtain a b where "str_fields line = [a, b]"
      by (auto simp: numeral_2_eq_2 length_Suc_conv)
    with v show ?thesis by (auto simp: validateHello_def Let_def split: if_splits)
  qed
  obtain pre bytes ce post line where "evs = pre @ Incoming conn bytes ce # post"
    "readLine ioErr bytes = (Inr line, rest)" "validateHello line (token c) = None"
    "dropped = [] @ List.map_filter (\<lambda>ev. case ev of Incoming i _ _ \<Rightarrow> Some i | _ \<Rightarrow> None) pre" "closed c'"
    using Accept_Inr_split [OF assms] by blast
  then show ?thesis
    by (intro exI [of _ pre] exI [of _ bytes] exI [of _ ce] exI [of _ post] exI [of _ line])
      (simp add: ok)
qed

theorem accept_only_authenticated_witness:
  "\<exists>pre bytes ce post line.
     [AcceptTimeout, Incoming 1 (''HELLO bad'' @ [CHR 0x0A]) None,
      Incoming 2 (''HELLO abc'' @ [CHR 0x0A]) None] = pre @ Incoming 2 bytes ce # post
     \<and> readLine Canceled bytes = (Inr line, []) \<and> str_fields line = [''HELLO'', ''abc'']
     \<and> [1] = List.map_filter (\<lambda>ev. case ev of Incoming i _ _ \<Rightarrow> Some i | _ \<Rightarrow> None) pre
     \<and> closed \<lparr>token = ''abc'', closed = True\<rparr>"
proof -
  have "Accept Canceled \<lparr>token = ''abc'', closed = False\<rparr>
      [AcceptTimeout, Incoming 1 (''HELLO bad'' @ [CHR 0x0A]) None,
       Incoming 2 (''HELLO abc'' @ [CHR 0x0A]) None] [] =
      Some (Inr (2, []), [1], \<lparr>token = ''abc'', closed = True\<rparr>)"
    by code_simp
  from accept_only_authenticated [OF this] show ?thesis by simp
qed

end
