(* ===== verification/Go_Net.thy ===== *)
theory Go_Net
  imports Go_Prelude
begin

text \<open>
  The part of Go's \<^verbatim>\<open>net\<close> package that routing and the guardian use: IP addresses as byte
  slices (a nil address is the empty list), their textual form, prefixes and masks, and
  \<^verbatim>\<open>host:port\<close> strings. The definitions follow the documented behaviour of the library,
  branch by branch.
\<close>

unbundle bit_operations_syntax

section \<open>Addresses\<close>

type_synonym ip = "byte list"

definition v4InV6Prefix :: "byte list" where "v4InV6Prefix = replicate 10 0 @ [255, 255]"

definition to4 :: "ip \<Rightarrow> ip option" where
  "to4 ip = (if length ip = 4 then Some ip
             else if length ip = 16 \<and> take 12 ip = v4InV6Prefix then Some (drop 12 ip) else None)"

definition parse_octet :: "string \<Rightarrow> byte option" where
  "parse_octet s = (if s \<noteq> [] \<and> list_all is_digit s \<and> (length s = 1 \<or> hd s \<noteq> CHR ''0'') \<and> digits_val s < 256
                    then Some (of_nat (digits_val s)) else None)"

definition parse_ipv4 :: "string \<Rightarrow> ip option" where
  "parse_ipv4 s = (let ps = split_on (CHR ''.'') s in
     if length ps = 4 then those (map parse_octet ps) else None)"

definition is_hex :: "char \<Rightarrow> bool" where
  "is_hex c \<longleftrightarrow> c \<in> set ''0123456789abcdefABCDEF''"

definition hex_val :: "char \<Rightarrow> nat" where
  "hex_val c = (let n = of_char c in if n \<le> 57 then n - 48 else if n \<le> 70 then n - 55 else n - 87)"

definition hex_num :: "string \<Rightarrow> nat" where
  "hex_num s = foldl (\<lambda>acc c. 16 * acc + hex_val c) 0 s"

text \<open>The loop of the IPv6 parser: the bytes read so far, the position of the ellipsis and the
  rest of the text.\<close>

function ipv6_loop :: "ip \<Rightarrow> nat option \<Rightarrow> string \<Rightarrow> (ip \<times> nat option \<times> string) option" where
  "ipv6_loop ip el s =
     (if length ip \<ge> 16 then Some (ip, el, s)
      else let ds = takeWhile is_hex s; off = length ds; r = drop off s;
               ip' = ip @ [of_nat (hex_num ds div 256), of_nat (hex_num ds)] in
        if off = 0 \<or> off > 4 then None
        else if r \<noteq> [] \<and> hd r = CHR ''.'' then
          (if el = None \<and> length ip \<noteq> 12 then None
           else if length ip + 4 > 16 then None
           else case parse_ipv4 s of None \<Rightarrow> None | Some v4 \<Rightarrow> Some (ip @ v4, el, []))
        else if r = [] then Some (ip', el, [])
        else if hd r \<noteq> CHR '':'' then None
        else if tl r = [] then None
        else if hd (tl r) = CHR '':'' then
          (if el \<noteq> None then None
           else if tl (tl r) = [] then Some (ip', Some (length ip'), [])
           else ipv6_loop ip' (Some (length ip')) (tl (tl r)))
        else ipv6_loop ip' el (tl r))"
  by pat_completeness auto
termination
  by (relation "measure (\<lambda>(ip, el, s). 16 - length ip)") auto

declare ipv6_loop.simps [simp del]

definition parse_ipv6 :: "string \<Rightarrow> ip option" where
  "parse_ipv6 s =
     (let (el, s) = (if has_prefix s ''::'' then (Some 0, drop 2 s) else (None, s)) in
      if el = Some 0 \<and> s = [] then Some (replicate 16 0)
      else case ipv6_loop [] el s of
        None \<Rightarrow> None
      | Some (ip, el, rest) \<Rightarrow>
          if rest \<noteq> [] then None
          else if length ip < 16 then
            (case el of None \<Rightarrow> None
             | Some e \<Rightarrow> Some (take e ip @ replicate (16 - length ip) 0 @ drop e ip))
          else if el \<noteq> None then None else Some ip)"

text \<open>\<^verbatim>\<open>netip.ParseAddr\<close> for addresses without a zone: the address and its bit length;
  \<^verbatim>\<open>net.ParseIP\<close> gives the 16-byte form.\<close>

definition parse_addr :: "string \<Rightarrow> (ip \<times> nat) option" where
  "parse_addr s =
     (case List.find (\<lambda>c. c = CHR ''.'' \<or> c = CHR '':'' \<or> c = CHR ''%'') s of
        None \<Rightarrow> None
      | Some c \<Rightarrow>
          if c = CHR ''.'' then map_option (\<lambda>a. (v4InV6Prefix @ a, 32)) (parse_ipv4 s)
          else if c = CHR '':'' \<and> CHR ''%'' \<notin> set s then map_option (\<lambda>a. (a, 128)) (parse_ipv6 s)
          else None)"

definition ParseIP :: "string \<Rightarrow> ip option" where
  "ParseIP s = map_option fst (parse_addr s)"

definition ipv4_string :: "ip \<Rightarrow> string" where
  "ipv4_string ip = join_with ''.'' (map (\<lambda>b. show_nat (unat b)) ip)"

fun show_hex :: "nat \<Rightarrow> string" where
  "show_hex n = (let c = (\<lambda>d. if d < 10 then char_of (48 + d) else char_of (87 + d)) in
     if n < 16 then [c n] else show_hex (n div 16) @ [c (n mod 16)])"

declare show_hex.simps [simp del]

definition ip_group :: "ip \<Rightarrow> nat \<Rightarrow> nat" where
  "ip_group ip i = 256 * unat (ip ! (2 * i)) + unat (ip ! (2 * i + 1))"

definition zero_run :: "ip \<Rightarrow> nat \<Rightarrow> nat" where
  "zero_run ip i = length (takeWhile (\<lambda>j. ip_group ip j = 0) [i..<8])"

text \<open>The start and the length of the first longest run of at least two zero groups.\<close>

definition zero_best :: "ip \<Rightarrow> nat \<times> nat" where
  "zero_best ip = foldl (\<lambda>(st, len) i. let l = zero_run ip i in
     if l \<ge> 2 \<and> l > len then (i, l) else (st, len)) (255, 0) [0..<8]"

definition ipv6_string :: "ip \<Rightarrow> string" where
  "ipv6_string ip =
     (let (st, len) = zero_best ip; grp = (\<lambda>i. show_hex (ip_group ip i)) in
      if len = 0 then join_with '':'' (map grp [0..<8])
      else join_with '':'' (map grp [0..<st]) @ ''::'' @ join_with '':'' (map grp [st + len..<8]))"

definition ip_string :: "ip \<Rightarrow> string" where
  "ip_string ip = (case to4 ip of Some a \<Rightarrow> ipv4_string a | None \<Rightarrow> ipv6_string ip)"

section \<open>Classes of addresses\<close>

definition IsLoopback :: "ip \<Rightarrow> bool" where
  "IsLoopback ip = (case to4 ip of Some a \<Rightarrow> hd a = 127 | None \<Rightarrow> ip = replicate 15 0 @ [1])"

definition IsUnspecified :: "ip \<Rightarrow> bool" where
  "IsUnspecified ip = (to4 ip = Some [0, 0, 0, 0] \<or> ip = replicate 16 0)"

definition IsMulticast :: "ip \<Rightarrow> bool" where
  "IsMulticast ip = (case to4 ip of Some a \<Rightarrow> hd a AND 240 = 224
                     | None \<Rightarrow> length ip = 16 \<and> hd ip = 255)"

definition IsLinkLocalMulticast :: "ip \<Rightarrow> bool" where
  "IsLinkLocalMulticast ip = (case to4 ip of Some a \<Rightarrow> take 3 a = [224, 0, 0]
     | None \<Rightarrow> length ip = 16 \<and> hd ip = 255 \<and> ip ! 1 AND 15 = 2)"

definition IsLinkLocalUnicast :: "ip \<Rightarrow> bool" where
  "IsLinkLocalUnicast ip = (case to4 ip of Some a \<Rightarrow> take 2 a = [169, 254]
     | None \<Rightarrow> length ip = 16 \<and> hd ip = 254 \<and> ip ! 1 AND 192 = 128)"

definition IsPrivate :: "ip \<Rightarrow> bool" where
  "IsPrivate ip = (case to4 ip of
       Some a \<Rightarrow> a ! 0 = 10 \<or> (a ! 0 = 172 \<and> a ! 1 AND 240 = 16) \<or> (a ! 0 = 192 \<and> a ! 1 = 168)
     | None \<Rightarrow> length ip = 16 \<and> hd ip AND 254 = 252)"

section \<open>Prefixes and masks\<close>

record IPNet =
  net_ip :: ip
  net_mask :: "byte list"

definition CIDRMask :: "nat \<Rightarrow> nat \<Rightarrow> byte list" where
  "CIDRMask ones bits = map (\<lambda>i. NOT (drop_bit (min 8 (ones - 8 * i)) 255)) [0..<bits div 8]"

text \<open>\<^verbatim>\<open>IP.Mask\<close>: the address with the bits outside the msk cleared, in the msk's family.\<close>

definition ip_mask :: "ip \<Rightarrow> byte list \<Rightarrow> ip" where
  "ip_mask ip msk =
     (let msk = (if length msk = 16 \<and> length ip = 4 \<and> take 12 msk = replicate 12 255
                  then drop 12 msk else msk);
          ip = (if length msk = 4 \<and> length ip = 16 \<and> take 12 ip = v4InV6Prefix then drop 12 ip else ip)
      in if length ip \<noteq> length msk then [] else map2 (\<lambda>a m. a AND m) ip msk)"

definition dtoi :: "string \<Rightarrow> nat option" where
  "dtoi s = (if s \<noteq> [] \<and> list_all is_digit s \<and> digits_val s < 0xFFFFFF then Some (digits_val s) else None)"

definition ParseCIDR :: "string \<Rightarrow> IPNet option" where
  "ParseCIDR s =
     (case cut_char (CHR ''/'') s of
        (addr, msk, found) \<Rightarrow>
          if \<not> found then None
          else case parse_addr addr of
            None \<Rightarrow> None
          | Some (ip, bits) \<Rightarrow>
              (case dtoi msk of
                 None \<Rightarrow> None
               | Some n \<Rightarrow> if n > bits then None
                          else (let m = CIDRMask n bits in Some \<lparr>net_ip = ip_mask ip m, net_mask = m\<rparr>)))"

definition IPNet_Contains :: "IPNet \<Rightarrow> ip \<Rightarrow> bool" where
  "IPNet_Contains n ip =
     (let nn = (case to4 (net_ip n) of Some a \<Rightarrow> a | None \<Rightarrow> net_ip n);
          m = (if length (net_mask n) = 16 \<and> length nn = 4 then drop 12 (net_mask n) else net_mask n);
          x = (case to4 ip of Some a \<Rightarrow> a | None \<Rightarrow> ip)
      in length nn = length m \<and> (length nn = 4 \<or> length nn = 16) \<and> length x = length nn
         \<and> map2 (\<lambda>a b. a AND b) nn m = map2 (\<lambda>a b. a AND b) x m)"

section \<open>Host and port\<close>

definition last_index :: "char \<Rightarrow> string \<Rightarrow> nat option" where
  "last_index c s = (if c \<in> set s then Some (length s - 1 - length (takeWhile (\<lambda>x. x \<noteq> c) (rev s))) else None)"

definition index_of :: "char \<Rightarrow> string \<Rightarrow> nat option" where
  "index_of c s = (if c \<in> set s then Some (length (takeWhile (\<lambda>x. x \<noteq> c) s)) else None)"

definition SplitHostPort :: "string \<Rightarrow> (string \<times> string) option" where
  "SplitHostPort hp =
     (case last_index (CHR '':'') hp of
        None \<Rightarrow> None
      | Some i \<Rightarrow>
          if hd hp = CHR ''['' then
            (case index_of (CHR '']'') hp of
               None \<Rightarrow> None
             | Some e \<Rightarrow>
                 if Suc e \<noteq> i then None
                 else if CHR ''['' \<in> set (drop 1 hp) then None
                 else if CHR '']'' \<in> set (drop (Suc e) hp) then None
                 else Some (drop 1 (take e hp), drop (Suc i) hp))
          else if CHR '':'' \<in> set (take i hp) then None
          else if CHR ''['' \<in> set hp then None
          else if CHR '']'' \<in> set hp then None
          else Some (take i hp, drop (Suc i) hp))"

text \<open>\<^verbatim>\<open>strings.Trim(s, "[]")\<close>.\<close>

definition trim_brackets :: "string \<Rightarrow> string" where
  "trim_brackets s = trim_right_by (\<lambda>c. c \<in> set ''[]'') (dropWhile (\<lambda>c. c \<in> set ''[]'') s)"

definition JoinHostPort :: "string \<Rightarrow> string \<Rightarrow> string" where
  "JoinHostPort h p = (if CHR '':'' \<in> set h then ''['' @ h @ '']:'' @ p else h @ '':'' @ p)"

section \<open>Lemmas\<close>

lemma last_index_append: "c \<notin> set b \<Longrightarrow> last_index c (a @ c # b) = Some (length a)"
proof -
  assume "c \<notin> set b"
  then have "takeWhile (\<lambda>x. x \<noteq> c) (rev b @ c # rev a) = rev b"
    by (subst takeWhile_append2) auto
  then show ?thesis by (simp add: last_index_def)
qed

lemma index_of_append: "c \<notin> set a \<Longrightarrow> index_of c (a @ c # b) = Some (length a)"
proof -
  assume "c \<notin> set a"
  then have "takeWhile (\<lambda>x. x \<noteq> c) (a @ c # b) = a" by (subst takeWhile_append2) auto
  then show ?thesis by (simp add: index_of_def)
qed

lemma SplitHostPort_Join:
  assumes "CHR ''['' \<notin> set h" "CHR '']'' \<notin> set h" "CHR ''['' \<notin> set p" "CHR '']'' \<notin> set p"
    "CHR '':'' \<notin> set p"
  shows "SplitHostPort (JoinHostPort h p) = Some (h, p)"
proof (cases "CHR '':'' \<in> set h")
  case True
  have l: "last_index (CHR '':'') (''['' @ h @ '']:'' @ p) = Some (Suc (Suc (length h)))"
    using last_index_append [OF assms(5), of "''['' @ h @ '']''"] by simp
  have "index_of (CHR '']'') (''['' @ h @ '']:'' @ p) = Some (Suc (length h))"
    using index_of_append [of "CHR '']''" "''['' @ h"] assms(2) by simp
  with True l assms show ?thesis by (simp add: SplitHostPort_def JoinHostPort_def)
next
  case False
  have "last_index (CHR '':'') (h @ '':'' @ p) = Some (length h)"
    using last_index_append [OF assms(5), of h] by simp
  moreover have "hd (h @ CHR '':'' # p) \<noteq> CHR ''[''" using assms(1) by (cases h) auto
  ultimately show ?thesis using False assms by (simp add: SplitHostPort_def JoinHostPort_def)
qed

lemma SplitHostPort_no_colon: "CHR '':'' \<notin> set s \<Longrightarrow> SplitHostPort s = None"
  by (simp add: SplitHostPort_def last_index_def)

lemma to4_mapped: "length a = 4 \<Longrightarrow> to4 (v4InV6Prefix @ a) = Some a"
  by (simp add: to4_def v4InV6Prefix_def)

lemma to4_length: "to4 ip = Some a \<Longrightarrow> length a = 4"
  by (auto simp: to4_def split: if_splits)

lemma those_length: "those xs = Some ys \<Longrightarrow> length ys = length xs"
  by (induction xs arbitrary: ys) (auto split: option.splits)

lemma parse_ipv4_length: "parse_ipv4 s = Some a \<Longrightarrow> length a = 4"
  by (auto simp: parse_ipv4_def Let_def dest: those_length split: if_splits)

lemma show_nat_leading: "0 < n \<Longrightarrow> hd (show_nat n) \<noteq> CHR ''0''"
proof (induction n rule: show_nat.induct)
  case (1 n)
  show ?case
  proof (cases "n < 10")
    case True
    then have "digit_char n \<noteq> digit_char 0"
      using digit_val_digit_char [of n] digit_val_digit_char [of 0] 1(2) by force
    moreover have "digit_char 0 = CHR ''0''" by code_simp
    ultimately show ?thesis using True by (subst show_nat.simps) simp
  next
    case False
    then have "0 < n div 10" by simp
    with 1 False have "hd (show_nat (n div 10)) \<noteq> CHR ''0''" by blast
    then show ?thesis using False by (subst show_nat.simps) simp
  qed
qed

lemma parse_octet_show: "parse_octet (show_nat (unat b)) = Some b"
proof (cases "unat b = 0")
  case True
  then have "length (show_nat (unat b)) = 1" by (simp add: show_nat.simps)
  then show ?thesis by (simp add: parse_octet_def show_nat_digits)
next
  case False
  then show ?thesis using show_nat_leading [of "unat b"] by (simp add: parse_octet_def show_nat_digits)
qed

lemma parse_ipv4_string: "length a = 4 \<Longrightarrow> parse_ipv4 (ipv4_string a) = Some a"
proof -
  assume len: "length a = 4"
  let ?ps = "map (\<lambda>b. show_nat (unat b)) a"
  have "\<forall>x \<in> set ?ps. CHR ''.'' \<notin> set x"
  proof -
    have "CHR ''.'' \<notin> set (show_nat n)" for n
      using show_nat_digits [of n] by (auto simp: list_all_iff is_digit_def)
    then show ?thesis by simp
  qed
  then have "split_on (CHR ''.'') (ipv4_string a) = ?ps"
    using len unfolding ipv4_string_def by (intro split_join_on) auto
  moreover have "those (map parse_octet (map (\<lambda>b. show_nat (unat b)) xs)) = Some xs" for xs
    by (induction xs) (simp_all add: parse_octet_show)
  ultimately show ?thesis using len by (simp add: parse_ipv4_def)
qed

lemma find_first_dot: "list_all (\<lambda>c. is_digit c \<or> c = CHR ''.'') s \<Longrightarrow> CHR ''.'' \<in> set s \<Longrightarrow>
    List.find (\<lambda>c. c = CHR ''.'' \<or> c = CHR '':'' \<or> c = CHR ''%'') s = Some (CHR ''.'')"
  by (induction s) (auto simp: is_digit_def)

lemma ipv4_string_chars:
  "list_all (\<lambda>c. is_digit c \<or> c = CHR ''.'') (ipv4_string a)"
proof -
  have "list_all (\<lambda>c. is_digit c \<or> c = CHR ''.'') (join_with ''.'' xs)"
    if "\<forall>x \<in> set xs. list_all is_digit x" for xs
    using that by (induction xs rule: induct_list012) (auto simp: list_all_iff)
  then show ?thesis by (simp add: ipv4_string_def show_nat_digits)
qed

lemma ParseIP_ipv4_string: "length a = 4 \<Longrightarrow> ParseIP (ipv4_string a) = Some (v4InV6Prefix @ a)"
proof -
  assume len: "length a = 4"
  then obtain x y z w where "a = [x, y, z, w]"
    by (auto simp: numeral_eq_Suc length_Suc_conv)
  then have "CHR ''.'' \<in> set (ipv4_string a)" by (simp add: ipv4_string_def)
  then show ?thesis
    using find_first_dot [OF ipv4_string_chars] parse_ipv4_string [OF len]
    by (simp add: ParseIP_def parse_addr_def)
qed

section \<open>A prefix matches the leading bits\<close>

definition byte_bits :: "byte \<Rightarrow> bool list" where
  "byte_bits b = map (\<lambda>i. bit b (7 - i)) [0..<8]"

definition ip_bits :: "ip \<Rightarrow> bool list" where
  "ip_bits a = concat (map byte_bits a)"

lemma byte_bits_length [simp]: "length (byte_bits b) = 8"
  by (simp add: byte_bits_def)

lemma bit_255: "bit (255 :: byte) j \<longleftrightarrow> j < 8"
proof -
  have "(255 :: byte) = - 1" by simp
  then show ?thesis by (simp only: bit_minus_1_iff) (simp add: possible_bit_word)
qed

lemma byte_mask_eq:
  assumes "k \<le> 8"
  shows "(a AND NOT (drop_bit k (255 :: byte)) = b AND NOT (drop_bit k 255))
     \<longleftrightarrow> take k (byte_bits a) = take k (byte_bits b)"
proof -
  have d: "bit (drop_bit k (255 :: byte)) i \<longleftrightarrow> k + i < 8" for i
    using bit_255 [of "k + i"] by (simp only: bit_drop_bit_eq o_apply)
  have m: "bit (x AND NOT (drop_bit k (255 :: byte))) i \<longleftrightarrow> bit x i \<and> 8 \<le> k + i" for x :: byte and i
    using bit_imp_le_length [of x i]
    by (auto simp only: bit_and_iff bit_not_iff d possible_bit_word not_less)
  have "(a AND NOT (drop_bit k 255) = b AND NOT (drop_bit k 255))
      \<longleftrightarrow> (\<forall>i < 8. 8 \<le> k + i \<longrightarrow> bit a i = bit b i)"
    unfolding bit_eq_iff [of "a AND _"] m possible_bit_word by auto
  also have "\<dots> \<longleftrightarrow> (\<forall>j < k. bit a (7 - j) = bit b (7 - j))"
  proof (rule iffI; intro allI impI)
    fix j assume "\<forall>i < 8. 8 \<le> k + i \<longrightarrow> bit a i = bit b i" "j < k"
    then show "bit a (7 - j) = bit b (7 - j)" using assms by auto
  next
    fix i assume *: "\<forall>j < k. bit a (7 - j) = bit b (7 - j)" "i < 8" "8 \<le> k + i"
    then have "bit a (7 - (7 - i)) = bit b (7 - (7 - i))" by (intro *(1) [rule_format]) auto
    with *(2) show "bit a i = bit b i" by simp
  qed
  also have "\<dots> \<longleftrightarrow> take k (byte_bits a) = take k (byte_bits b)"
    using assms by (auto simp: byte_bits_def take_map list_eq_iff_nth_eq)
  finally show ?thesis .
qed

lemma CIDRMask_Suc:
  "CIDRMask n (8 * Suc k) = NOT (drop_bit (min 8 n) 255) # CIDRMask (n - 8) (8 * k)"
proof -
  have "map (\<lambda>i. NOT (drop_bit (min 8 (n - 8 * i)) (255 :: byte))) [0..<Suc k]
      = NOT (drop_bit (min 8 n) 255) # map (\<lambda>i. NOT (drop_bit (min 8 (n - 8 * Suc i)) 255)) [0..<k]"
    by (subst map_upt_Suc) simp
  then show ?thesis by (simp add: CIDRMask_def diff_diff_left del: upt_Suc)
qed

lemma CIDRMask_length [simp]: "length (CIDRMask n bits) = bits div 8"
  by (simp add: CIDRMask_def)

lemma masked_eq_iff:
  "length a = length b \<Longrightarrow>
   map2 (\<lambda>x y. x AND y) a (CIDRMask n (8 * length a)) = map2 (\<lambda>x y. x AND y) b (CIDRMask n (8 * length a))
     \<longleftrightarrow> take n (ip_bits a) = take n (ip_bits b)"
proof (induction a b arbitrary: n rule: list_induct2)
  case Nil
  then show ?case by (simp add: ip_bits_def)
next
  case (Cons x xs y ys)
  have k: "take (min 8 n) (byte_bits z) = take n (byte_bits z)" for z
    by (cases "n \<le> 8") simp_all
  have "take n (ip_bits (x # xs)) = take n (ip_bits (y # ys)) \<longleftrightarrow>
      take (min 8 n) (byte_bits x) = take (min 8 n) (byte_bits y)
      \<and> take (n - 8) (ip_bits xs) = take (n - 8) (ip_bits ys)"
    by (simp add: ip_bits_def append_eq_append_conv k)
  with Cons.IH [of "n - 8"] byte_mask_eq [of "min 8 n" x y] show ?case
    unfolding list.size(4) add_0_right CIDRMask_Suc
    by (simp add: CIDRMask_Suc [of n "length xs", simplified])
qed

lemma mask_idem: "map2 (\<lambda>x y. x AND y) (map2 (\<lambda>x y. x AND y) a m) m = map2 (\<lambda>x y. x AND y) a (m :: byte list)"
  by (induction a m rule: list_induct2') (simp_all add: and.assoc)

end
