(* ===== verification/Guardian_Parent.thy ===== *)
theory Guardian_Parent
  imports Guardian_Protocol Go_Net
begin

text \<open>
  The guardian's parent process, \<^verbatim>\<open>internal/guardian/parent.go\<close>: option defaults, the
  control variables handed to the worker, one worker generation from start to exit, and the
  restart loop.

  What the operating system and the worker do is input: the events the \<^verbatim>\<open>select\<close> statements
  receive, how a child ends when it is told to stop, and the clock. The loops are functions from
  the sequence of events to the result; no result means that the loop still waits.
\<close>

section \<open>Options and environment\<close>

definition controlAddrEnv :: string where "controlAddrEnv = ''PXGOINT_GUARDIAN_ADDR''"
definition controlTokenEnv :: string where "controlTokenEnv = ''PXGOINT_GUARDIAN_TOKEN''"

record WorkerControl =
  wc_addr :: string
  wc_token :: string

record ParentOptions =
  HangWindow :: duration
  WatchInterval :: duration
  StopTimeout :: duration
  RestartSchedule :: "duration list"
  StableRunReset :: duration

definition normalizeParentOptions :: "ParentOptions \<Rightarrow> ParentOptions" where
  "normalizeParentOptions o' =
     \<lparr>HangWindow = (if HangWindow o' \<le> 0 then 20 * second else HangWindow o'),
      WatchInterval = (if WatchInterval o' \<le> 0 then 2 * second else WatchInterval o'),
      StopTimeout = (if StopTimeout o' \<le> 0 then 5 * second else StopTimeout o'),
      RestartSchedule = map (\<lambda>d. if d \<le> 0 then second else d)
        (if RestartSchedule o' = [] then restartBackoffSchedule else RestartSchedule o'),
      StableRunReset = (if StableRunReset o' \<le> 0 then stableRunReset else StableRunReset o')\<rparr>"

definition is_hex_token_char :: "char \<Rightarrow> bool" where
  "is_hex_token_char c \<longleftrightarrow> (CHR ''0'' \<le> c \<and> c \<le> CHR ''9'') \<or> (CHR ''a'' \<le> c \<and> c \<le> CHR ''f'')
     \<or> (CHR ''A'' \<le> c \<and> c \<le> CHR ''F'')"

text \<open>The result is the error, no control variables, or the control variables.\<close>

definition WorkerControlFromEnv :: "(string \<Rightarrow> string) \<Rightarrow> goerr + WorkerControl option" where
  "WorkerControlFromEnv getenv =
     (let addr = trim_space (getenv controlAddrEnv); tok = trim_space (getenv controlTokenEnv) in
      if addr = [] \<and> tok = [] then Inr None
      else if addr = [] \<or> tok = [] then Inl (ErrMsg ''guardian control environment incomplete'')
      else case SplitHostPort addr of
        None \<Rightarrow> Inl (ErrMsg ''guardian control address invalid'')
      | Some (host, _) \<Rightarrow>
          (case ParseIP (trim_right_by (\<lambda>c. c \<in> set ''[]'') (dropWhile (\<lambda>c. c \<in> set ''[]'') host)) of
             None \<Rightarrow> Inl (ErrMsg ''guardian control address must be loopback'')
           | Some ip \<Rightarrow>
               if \<not> IsLoopback ip then Inl (ErrMsg ''guardian control address must be loopback'')
               else if length tok \<noteq> 64 then Inl (ErrMsg ''guardian control token invalid'')
               else if \<not> list_all is_hex_token_char tok then Inl (ErrMsg ''guardian control token invalid'')
               else Inr (Some \<lparr>wc_addr = addr, wc_token = tok\<rparr>)))"

definition withWorkerControlEnv :: "string list \<Rightarrow> WorkerControl \<Rightarrow> string list" where
  "withWorkerControlEnv base control =
     filter (\<lambda>entry. \<not> (case cut_char (CHR ''='') entry of
        (key, _, ok) \<Rightarrow> ok \<and> (key = controlAddrEnv \<or> key = controlTokenEnv))) base
     @ [controlAddrEnv @ ''='' @ wc_addr control, controlTokenEnv @ ''='' @ wc_token control]"

text \<open>\<^verbatim>\<open>os.Getenv\<close> in a process started with a list of \<^verbatim>\<open>key=value\<close> entries.\<close>

fun env_get :: "string list \<Rightarrow> string \<Rightarrow> string" where
  "env_get [] k = []"
| "env_get (e # es) k = (case cut_char (CHR ''='') e of
     (key, v, ok) \<Rightarrow> if ok \<and> key = k then v else env_get es k)"

section \<open>Stopping a child\<close>

text \<open>How a child ends after it is asked to stop: it exits within the timeout, it exits after it
  is killed, or it is not reaped even then.\<close>

datatype child_end = ExitsInTime "goerr option" | ExitsAfterKill "goerr option" | NeverReaped

record stop_log =
  sl_stop_sent :: bool
  sl_killed :: bool
  sl_err :: "goerr option"

fun stopChild :: "bool \<Rightarrow> child_end \<Rightarrow> stop_log" where
  "stopChild hasSession (ExitsInTime e) = \<lparr>sl_stop_sent = hasSession, sl_killed = False, sl_err = e\<rparr>"
| "stopChild hasSession (ExitsAfterKill e) = \<lparr>sl_stop_sent = hasSession, sl_killed = True, sl_err = e\<rparr>"
| "stopChild hasSession NeverReaped =
     \<lparr>sl_stop_sent = hasSession, sl_killed = True, sl_err = Some DeadlineExceeded\<rparr>"

definition exitCode :: "goerr option \<Rightarrow> int" where
  "exitCode err = (case err of None \<Rightarrow> 0
     | Some e \<Rightarrow> (case errors_as_exit e of Some c \<Rightarrow> c | None \<Rightarrow> - 1))"

definition normalizeParentStopError :: "goerr option \<Rightarrow> goerr option" where
  "normalizeParentStopError err =
     (case err of None \<Rightarrow> None
      | Some e \<Rightarrow> if errors_is e DeadlineExceeded then Some e
                 else if errors_as_exit e \<noteq> None then None
                 else Some e)"

definition readyDuration :: "gotime \<Rightarrow> gotime \<Rightarrow> duration" where
  "readyDuration readyAt now = (if is_zero readyAt then 0 else time_sub now readyAt)"

section \<open>One generation\<close>

record generationResult =
  disposition :: ExitDisposition
  gr_err :: "goerr option"
  readyFor :: duration
  startupCode :: int

definition gen_result :: "ExitDisposition \<Rightarrow> goerr option \<Rightarrow> duration \<Rightarrow> int \<Rightarrow> generationResult" where
  "gen_result d e r c = \<lparr>disposition = d, gr_err = e, readyFor = r, startupCode = c\<rparr>"

record monitor =
  mon_ready :: bool
  mon_readyAt :: gotime
  mon_watchdog :: Watchdog
  mon_onReady :: nat

definition new_monitor :: "ParentOptions \<Rightarrow> monitor" where
  "new_monitor o' = \<lparr>mon_ready = False, mon_readyAt = 0, mon_watchdog = NewWatchdog (HangWindow o'), mon_onReady = 0\<rparr>"

datatype mon_event =
    MCtxDone
  | MWait "goerr option"
  | MMsg Message gotime
  | MReadErr goerr
  | MTick gotime

text \<open>One round of the \<^verbatim>\<open>select\<close> in \<^verbatim>\<open>monitorReadyWorker\<close>, with how a child that is stopped
  in this round ends and the time at which the round is over: the next state or the result.\<close>

definition monitor_step :: "monitor \<Rightarrow> mon_event \<Rightarrow> child_end \<Rightarrow> gotime \<Rightarrow> monitor + generationResult" where
  "monitor_step st ev ce fin =
     (let readyD = readyDuration (mon_readyAt st) fin; stopErr = sl_err (stopChild True ce) in
      case ev of
        MCtxDone \<Rightarrow> Inr (gen_result ExitNormalStop (normalizeParentStopError stopErr) readyD 0)
      | MWait waitErr \<Rightarrow>
          if \<not> mon_ready st then Inr (gen_result ExitStartupFailure waitErr 0 (exitCode waitErr))
          else if waitErr = None then Inr (gen_result ExitNormalStop None readyD 0)
          else Inr (gen_result ExitRestart waitErr readyD 0)
      | MMsg msg now \<Rightarrow>
          if Type msg = MessageReady then
            (if mon_ready st
             then Inr (gen_result ExitRestart (errors_join [Some ErrProtocol, stopErr]) readyD 0)
             else Inl (st\<lparr>mon_ready := True, mon_readyAt := now,
                          mon_watchdog := Watchdog_Ready (mon_watchdog st) now,
                          mon_onReady := Suc (mon_onReady st)\<rparr>))
          else if Type msg = MessageBeat then
            (if \<not> mon_ready st
             then Inr (gen_result ExitStartupFailure (errors_join [Some ErrProtocol, stopErr]) 0 (exitCode stopErr))
             else Inl (st\<lparr>mon_watchdog := Watchdog_Beat (mon_watchdog st) (Sequence msg) now\<rparr>))
          else if Type msg = MessageStop then
            (let stopErr = sl_err (stopChild False ce) in
             if \<not> mon_ready st
             then Inr (gen_result ExitStartupFailure (errors_join [Some ErrProtocol, stopErr]) 0 (exitCode stopErr))
             else Inr (gen_result ExitNormalStop (normalizeParentStopError stopErr) readyD 0))
          else Inr (gen_result (if mon_ready st then ExitRestart else ExitStartupFailure)
                      (errors_join [Some ErrProtocol, stopErr]) readyD (exitCode stopErr))
      | MReadErr err \<Rightarrow>
          if \<not> mon_ready st
          then Inr (gen_result ExitStartupFailure (errors_join [Some err, stopErr]) 0 (exitCode stopErr))
          else if stopErr = None then Inr (gen_result ExitNormalStop None readyD 0)
          else Inr (gen_result ExitRestart (errors_join [Some err, stopErr]) readyD 0)
      | MTick now \<Rightarrow>
          if \<not> mon_ready st then Inl st
          else (case Watchdog_Check (mon_watchdog st) now of
                  (w, hung) \<Rightarrow>
                    if \<not> hung then Inl (st\<lparr>mon_watchdog := w\<rparr>)
                    else Inr (gen_result ExitRestart stopErr readyD 0)))"

type_synonym mon_round = "mon_event \<times> child_end \<times> gotime"

fun monitorReadyWorker :: "monitor \<Rightarrow> mon_round list \<Rightarrow> generationResult option" where
  "monitorReadyWorker st [] = None"
| "monitorReadyWorker st ((ev, ce, fin) # rs) =
     (case monitor_step st ev ce fin of Inl st' \<Rightarrow> monitorReadyWorker st' rs | Inr r \<Rightarrow> Some r)"

text \<open>What happens before the session is accepted: the listener or the command does not start,
  the parent is stopped, the child exits, or the accept loop ends with an error or a session.\<close>

datatype gen_start =
    ListenFails goerr
  | StartFails goerr
  | GenCtxDone child_end
  | GenChildExit "goerr option"
  | GenAcceptErr goerr bool child_end
  | GenAccepted

fun runGeneration :: "ParentOptions \<Rightarrow> gen_start \<Rightarrow> mon_round list \<Rightarrow> generationResult option" where
  "runGeneration o' (ListenFails e) rs = Some (gen_result ExitStartupFailure (Some e) 0 0)"
| "runGeneration o' (StartFails e) rs = Some (gen_result ExitStartupFailure (Some e) 0 0)"
| "runGeneration o' (GenCtxDone ce) rs =
     Some (gen_result ExitNormalStop (normalizeParentStopError (sl_err (stopChild False ce))) 0 0)"
| "runGeneration o' (GenChildExit waitErr) rs =
     Some (gen_result ExitStartupFailure waitErr 0 (exitCode waitErr))"
| "runGeneration o' (GenAcceptErr e ctxDone ce) rs =
     (let stopErr = sl_err (stopChild False ce) in
      if ctxDone then Some (gen_result ExitNormalStop (normalizeParentStopError stopErr) 0 0)
      else Some (gen_result ExitStartupFailure (errors_join [Some e, stopErr]) 0 (exitCode stopErr)))"
| "runGeneration o' GenAccepted rs = monitorReadyWorker (new_monitor o') rs"

section \<open>The restart loop\<close>

definition parentRestartDelay :: "duration list \<Rightarrow> int \<Rightarrow> duration" where
  "parentRestartDelay schedule lvl =
     (if schedule = [] then second
      else let lvl = (if lvl < 0 then 0 else lvl);
               lvl = (if lvl \<ge> int (length schedule) then int (length schedule) - 1 else lvl);
               delay = schedule ! nat lvl
           in if delay \<le> 0 then second else delay)"

datatype parent_result = Returns "goerr option" | StartupExitError int "goerr option" | Waiting

text \<open>Each generation comes with whether the context ends while the parent waits before the next
  one. The result is the delays waited for and how the loop ended.\<close>

fun restart_loop :: "ParentOptions \<Rightarrow> int \<Rightarrow> (generationResult \<times> bool) list \<Rightarrow> duration list \<times> parent_result" where
  "restart_loop o' lvl [] = ([], Waiting)"
| "restart_loop o' lvl ((r, ctxDone) # gs) =
     (case disposition r of
        ExitNormalStop \<Rightarrow> ([], Returns (gr_err r))
      | ExitStartupFailure \<Rightarrow> ([], StartupExitError (startupCode r) (gr_err r))
      | ExitRestart \<Rightarrow>
          (let lvl = (if readyFor r \<ge> StableRunReset o' then 0 else lvl);
               delay = parentRestartDelay (RestartSchedule o') lvl;
               lvl' = (if lvl < int (length (RestartSchedule o')) - 1 then lvl + 1 else lvl)
           in if ctxDone then ([delay], Returns None)
              else (let (ds, res) = restart_loop o' lvl' gs in (delay # ds, res))))"

definition RunParent :: "string \<Rightarrow> ParentOptions \<Rightarrow> (generationResult \<times> bool) list \<Rightarrow> duration list \<times> parent_result" where
  "RunParent path o' gs =
     (if trim_space path = [] then ([], Returns (Some (ErrMsg ''guardian worker command path is empty'')))
      else restart_loop (normalizeParentOptions o') 0 gs)"

section \<open>Lemmas\<close>

lemma gen_result_sel [simp]:
  "disposition (gen_result d e r c) = d" "gr_err (gen_result d e r c) = e"
  "readyFor (gen_result d e r c) = r" "startupCode (gen_result d e r c) = c"
  by (simp_all add: gen_result_def)

text \<open>Whether a round delivers the worker's readiness.\<close>

fun is_ready_round :: "mon_round \<Rightarrow> bool" where
  "is_ready_round (MMsg m _, _, _) = (Type m = MessageReady)"
| "is_ready_round _ = False"

lemma monitor_step_continue:
  "monitor_step st ev ce fin = Inl st' \<Longrightarrow>
   mon_ready st' = (mon_ready st \<or> is_ready_round (ev, ce, fin)) \<and>
   mon_onReady st' = mon_onReady st + (if is_ready_round (ev, ce, fin) then 1 else 0)"
  by (cases ev) (auto simp: monitor_step_def Let_def split: if_splits prod.splits)

lemma monitor_step_restart:
  "monitor_step st ev ce fin = Inr r \<Longrightarrow> disposition r = ExitRestart \<Longrightarrow> mon_ready st"
  by (cases ev) (auto simp: monitor_step_def Let_def split: if_splits prod.splits)

lemma monitor_step_startup:
  "monitor_step st ev ce fin = Inr r \<Longrightarrow> disposition r = ExitStartupFailure \<Longrightarrow> \<not> mon_ready st"
  by (cases ev) (auto simp: monitor_step_def Let_def split: if_splits prod.splits)

lemma monitor_step_ready:
  assumes "monitor_step st ev ce fin = Inl st'"
  shows "if mon_ready st then mon_ready st' \<and> \<not> is_ready_round (ev, ce, fin) \<and> mon_readyAt st' = mon_readyAt st
    else if is_ready_round (ev, ce, fin) then mon_ready st' \<and> (\<exists>m. ev = MMsg m (mon_readyAt st')) else \<not> mon_ready st'"
  using assms by (cases ev) (auto simp: monitor_step_def Let_def split: if_splits prod.splits)

lemma monitor_step_duration:
  "monitor_step st ev ce fin = Inr r \<Longrightarrow> disposition r = ExitRestart \<Longrightarrow> readyFor r = readyDuration (mon_readyAt st) fin"
  by (cases ev) (auto simp: monitor_step_def Let_def split: if_splits prod.splits)

lemma monitor_restart_ready:
  assumes "monitorReadyWorker st pre = None" "monitorReadyWorker st (pre @ [(ev, ce, fin)]) = Some r" "disposition r = ExitRestart"
  shows "if mon_ready st then filter is_ready_round pre = [] \<and> readyFor r = readyDuration (mon_readyAt st) fin
    else \<exists>m t ce' f. filter is_ready_round pre = [(MMsg m t, ce', f)] \<and> readyFor r = readyDuration t fin"
  using assms
proof (induction pre arbitrary: st)
  case Nil
  then show ?case using monitor_step_restart monitor_step_duration by (auto split: sum.splits)
next
  case (Cons rd pre)
  obtain ev' ce' fin' where rd: "rd = (ev', ce', fin')" by (cases rd)
  with Cons.prems(1) obtain st' where st': "monitor_step st ev' ce' fin' = Inl st'" "monitorReadyWorker st' pre = None" by (auto split: sum.splits)
  with Cons.prems(2,3) rd have IH: "if mon_ready st' then filter is_ready_round pre = [] \<and> readyFor r = readyDuration (mon_readyAt st') fin
      else \<exists>m t ce' f. filter is_ready_round pre = [(MMsg m t, ce', f)] \<and> readyFor r = readyDuration t fin"
    by (intro Cons.IH) simp_all
  show ?case using monitor_step_ready [OF st'(1)] IH rd by (auto split: if_splits)
qed

text \<open>The rounds of a finished generation: the monitor still waits after all but the last one.\<close>

lemma monitor_result_split:
  assumes "monitorReadyWorker st rs = Some r"
  obtains pre ev post where "rs = pre @ ev # post" "monitorReadyWorker st pre = None"
    "monitorReadyWorker st (pre @ [ev]) = Some r"
    "disposition r = ExitRestart \<Longrightarrow> mon_ready st \<or> list_ex is_ready_round pre"
    "disposition r = ExitStartupFailure \<Longrightarrow> \<not> mon_ready st \<and> \<not> list_ex is_ready_round pre"
  using assms
proof (induction st rs arbitrary: thesis rule: monitorReadyWorker.induct)
  case (2 st ev ce fin rs)
  show ?case
  proof (cases "monitor_step st ev ce fin")
    case (Inl st')
    with 2(3) have "monitorReadyWorker st' rs = Some r" by simp
    then obtain pre ev' post where "rs = pre @ ev' # post" "monitorReadyWorker st' pre = None"
      "monitorReadyWorker st' (pre @ [ev']) = Some r"
      "disposition r = ExitRestart \<Longrightarrow> mon_ready st' \<or> list_ex is_ready_round pre"
      "disposition r = ExitStartupFailure \<Longrightarrow> \<not> mon_ready st' \<and> \<not> list_ex is_ready_round pre"
      using 2(1) [OF Inl] by blast
    then show ?thesis
      using monitor_step_continue [OF Inl] Inl
      by (intro 2(2) [of "(ev, ce, fin) # pre" ev' post]) auto
  next
    case (Inr r')
    then show ?thesis
      using 2(3) monitor_step_restart [OF Inr] monitor_step_startup [OF Inr]
      by (intro 2(2) [of "[]" "(ev, ce, fin)" rs]) auto
  qed
qed simp

lemma parentRestartDelay_pos: "0 < parentRestartDelay s l"
  by (simp add: parentRestartDelay_def Let_def go_time)

lemma parentRestartDelay_nth:
  assumes "s \<noteq> []" "\<forall>d \<in> set s. 0 < d"
  shows "parentRestartDelay s (int k) = s ! min k (length s - 1)"
proof -
  have "(if int k \<ge> int (length s) then int (length s) - 1 else int k) = int (min k (length s - 1))"
    using assms(1) by (cases s) auto
  moreover have "0 < s ! min k (length s - 1)"
    using assms nth_mem [of "min k (length s - 1)" s] by (cases s) auto
  ultimately show ?thesis using assms(1) by (simp add: parentRestartDelay_def Let_def)
qed

lemma normalize_schedule:
  "RestartSchedule (normalizeParentOptions o') \<noteq> []"
  "\<forall>d \<in> set (RestartSchedule (normalizeParentOptions o')). 0 < d"
  by (auto simp: normalizeParentOptions_def restartBackoffSchedule_def go_time split: if_splits)

lemma restart_loop_unstable:
  assumes "\<forall>g \<in> set gs. disposition (fst g) = ExitRestart \<and> readyFor (fst g) < StableRunReset o' \<and> \<not> snd g"
    and "RestartSchedule o' \<noteq> []" "\<forall>d \<in> set (RestartSchedule o'). 0 < d"
    and "j \<le> length (RestartSchedule o') - 1"
  shows "restart_loop o' (int j) gs =
     (map (\<lambda>k. RestartSchedule o' ! min (j + k) (length (RestartSchedule o') - 1)) [0..<length gs], Waiting)"
  using assms
proof (induction gs arbitrary: j)
  case (Cons g gs)
  let ?n = "length (RestartSchedule o') - 1"
  have n: "(if int j < int (length (RestartSchedule o')) - 1 then int j + 1 else int j) = int (min (Suc j) ?n)"
    using Cons.prems(2,4) by (cases "RestartSchedule o'") auto
  have step: "restart_loop o' (int j) (g # gs) =
      (let (ds, res) = restart_loop o' (int (min (Suc j) ?n)) gs
       in (RestartSchedule o' ! min j ?n # ds, res))"
    using Cons.prems parentRestartDelay_nth [OF Cons.prems(2,3), of j] n
    by (cases g) (simp add: Let_def)
  have "restart_loop o' (int (min (Suc j) ?n)) gs =
      (map (\<lambda>k. RestartSchedule o' ! min (min (Suc j) ?n + k) ?n) [0..<length gs], Waiting)"
    using Cons.prems by (intro Cons.IH) auto
  moreover have "min (min (Suc j) ?n + k) ?n = min (j + Suc k) ?n" for k by auto
  ultimately have "restart_loop o' (int j) (g # gs) =
      (RestartSchedule o' ! min j ?n # map (\<lambda>k. RestartSchedule o' ! min (j + Suc k) ?n) [0..<length gs], Waiting)"
    using step by simp
  then show ?case by (simp add: map_upt_Suc del: upt_Suc)
qed simp

lemma env_get_append_none:
  "\<forall>e \<in> set es. \<not> (case cut_char (CHR ''='') e of (key, _, ok) \<Rightarrow> ok \<and> key = k) \<Longrightarrow>
   env_get (es @ fs) k = env_get fs k"
  by (induction es) (auto split: prod.splits)

lemma env_get_control:
  "env_get (withWorkerControlEnv base control) controlAddrEnv = wc_addr control"
  "env_get (withWorkerControlEnv base control) controlTokenEnv = wc_token control"
proof -
  let ?keep = "filter (\<lambda>entry. \<not> (case cut_char (CHR ''='') entry of
        (key, _, ok) \<Rightarrow> ok \<and> (key = controlAddrEnv \<or> key = controlTokenEnv))) base"
  have cut: "cut_char (CHR ''='') (controlAddrEnv @ CHR ''='' # v) = (controlAddrEnv, v, True)"
    "cut_char (CHR ''='') (controlTokenEnv @ CHR ''='' # v) = (controlTokenEnv, v, True)" for v
    by (rule cut_char_found; simp add: controlAddrEnv_def controlTokenEnv_def)+
  have ne: "controlAddrEnv \<noteq> controlTokenEnv"
    by (simp add: controlAddrEnv_def controlTokenEnv_def)
  have "env_get (?keep @ fs) controlAddrEnv = env_get fs controlAddrEnv"
    "env_get (?keep @ fs) controlTokenEnv = env_get fs controlTokenEnv" for fs
    by (rule env_get_append_none; auto split: prod.splits)+
  then show "env_get (withWorkerControlEnv base control) controlAddrEnv = wc_addr control"
    "env_get (withWorkerControlEnv base control) controlTokenEnv = wc_token control"
    using ne by (simp_all add: withWorkerControlEnv_def cut)
qed

lemma restart_loop_fresh:
  assumes "RestartSchedule o' \<noteq> []" "\<forall>d \<in> set (RestartSchedule o'). 0 < d"
    and "disposition r0 = ExitRestart" "lvl = 0 \<or> readyFor r0 \<ge> StableRunReset o'"
    and "\<forall>g \<in> set gs. disposition (fst g) = ExitRestart \<and> readyFor (fst g) < StableRunReset o' \<and> \<not> snd g"
  shows "restart_loop o' lvl ((r0, False) # gs) =
     (map (\<lambda>k. RestartSchedule o' ! min k (length (RestartSchedule o') - 1)) [0..<Suc (length gs)], Waiting)"
proof -
  let ?s = "RestartSchedule o'" and ?n = "length (RestartSchedule o') - 1"
  have d: "parentRestartDelay ?s 0 = ?s ! min 0 ?n"
    using parentRestartDelay_nth [OF assms(1,2), of 0] by simp
  have l: "(if 0 < int (length ?s) - 1 then 0 + 1 else 0) = int (min 1 ?n)"
    using assms(1) by (cases ?s; cases "tl ?s") auto
  have "restart_loop o' (int (min 1 ?n)) gs = (map (\<lambda>k. ?s ! min (min 1 ?n + k) ?n) [0..<length gs], Waiting)"
    using assms by (intro restart_loop_unstable) auto
  moreover have "min (min 1 ?n + k) ?n = min (Suc k) ?n" for k by auto
  ultimately show ?thesis
    using assms(3,4) d l by (auto simp: Let_def map_upt_Suc simp del: upt_Suc)
qed

lemma restart_loop_prefix:
  assumes "\<forall>g \<in> set pre. disposition (fst g) = ExitRestart \<and> \<not> snd g"
    and "\<And>lvl. restart_loop o' lvl gs = (ds, res)"
  shows "\<exists>ds'. length ds' = length pre \<and> restart_loop o' lvl (pre @ gs) = (ds' @ ds, res)"
  using assms(1)
proof (induction pre arbitrary: lvl)
  case Nil
  then show ?case by (simp add: assms(2))
next
  case (Cons g pre)
  obtain r c where g: "g = (r, c)" by (cases g)
  let ?l = "if readyFor r \<ge> StableRunReset o' then 0 else lvl"
  obtain ds' where "length ds' = length pre"
    "restart_loop o' (if ?l < int (length (RestartSchedule o')) - 1 then ?l + 1 else ?l) (pre @ gs) = (ds' @ ds, res)"
    using Cons by (metis list.set_intros(2))
  then show ?case
    using Cons.prems g
    by (intro exI [of _ "parentRestartDelay (RestartSchedule o') ?l # ds'"]) (simp add: Let_def)
qed

section \<open>Properties\<close>

text \<open>C27: a generation asks for a restart only after the worker reported that it was ready, and
  ends as a startup failure only while it had not: among the rounds the monitor went through
  before the one that ended the generation there is exactly one, or there is none, with the readiness
  message. A restart carries the time from that message to the end of the last round as the duration for
  which the worker was ready.\<close>

theorem generation_restart_iff_ready:
  assumes "runGeneration opts GenAccepted rounds = Some r"
  shows "\<exists>pre ev post. rounds = pre @ ev # post
    \<and> runGeneration opts GenAccepted pre = None \<and> runGeneration opts GenAccepted (pre @ [ev]) = Some r
    \<and> (disposition r = ExitRestart \<longrightarrow>
        (\<exists>m t ce f. filter is_ready_round pre = [(MMsg m t, ce, f)] \<and> (\<not> is_zero t \<longrightarrow> readyFor r = time_sub (snd (snd ev)) t)))
    \<and> (disposition r = ExitStartupFailure \<longrightarrow> \<not> list_ex is_ready_round pre)"
proof -
  have "monitorReadyWorker (new_monitor opts) rounds = Some r" using assms by simp
  then obtain pre ev post where p: "rounds = pre @ ev # post" "monitorReadyWorker (new_monitor opts) pre = None"
      "monitorReadyWorker (new_monitor opts) (pre @ [ev]) = Some r"
      "disposition r = ExitStartupFailure \<Longrightarrow> \<not> mon_ready (new_monitor opts) \<and> \<not> list_ex is_ready_round pre"
    by (rule monitor_result_split) blast
  have "\<exists>m t ce f. filter is_ready_round pre = [(MMsg m t, ce, f)] \<and> readyFor r = readyDuration t (snd (snd ev))" if "disposition r = ExitRestart"
    using monitor_restart_ready [OF p(2), of "fst ev" "fst (snd ev)" "snd (snd ev)" r] p(3) that by (simp add: new_monitor_def)
  with p show ?thesis
    by (intro exI [of _ pre] exI [of _ ev] exI [of _ post]) (fastforce simp: readyDuration_def)
qed

theorem generation_restart_iff_ready_witness:
  defines "opts \<equiv> \<lparr>HangWindow = 0, WatchInterval = 0, StopTimeout = 0, RestartSchedule = [], StableRunReset = 0\<rparr>"
    and "rounds \<equiv> [(MMsg \<lparr>Type = MessageReady, Sequence = 0\<rparr> 100, NeverReaped, 100),
      (MWait (Some (ExitError 75)), NeverReaped, 900)]"
    and "r \<equiv> gen_result ExitRestart (Some (ExitError 75)) 800 0"
  shows "\<exists>pre ev post. rounds = pre @ ev # post
    \<and> runGeneration opts GenAccepted pre = None \<and> runGeneration opts GenAccepted (pre @ [ev]) = Some r
    \<and> length (filter is_ready_round pre) = 1"
proof -
  have "runGeneration opts GenAccepted rounds = Some r"
    by (simp add: monitor_step_def new_monitor_def readyDuration_def time_sub_def min_duration_def
        max_duration_def is_zero_def Let_def opts_def rounds_def r_def)
  from generation_restart_iff_ready [OF this] show ?thesis by (fastforce simp: r_def gen_result_def)
qed

text \<open>the delays of the restart loop walk up the configured schedule and stay at its last entry
  as long as no generation is stable; a stable generation starts them over from the first entry.
  (The first generation, or a stable one after any number of others, is followed by unstable
  ones.)\<close>

theorem parent_restart_delays:
  assumes "trim_space path \<noteq> []"
    and "disposition r0 = ExitRestart"
    and "pre = [] \<or> readyFor r0 \<ge> StableRunReset (normalizeParentOptions opts)"
    and "\<forall>g \<in> set gs. disposition (fst g) = ExitRestart \<and> readyFor (fst g) < StableRunReset (normalizeParentOptions opts)
           \<and> \<not> snd g"
    and "\<forall>g \<in> set pre. disposition (fst g) = ExitRestart \<and> \<not> snd g"
  shows "\<exists>ds. length ds = length pre \<and> RunParent path opts (pre @ (r0, False) # gs) =
      (let s = RestartSchedule (normalizeParentOptions opts)
       in (ds @ map (\<lambda>k. s ! min k (length s - 1)) [0..<Suc (length gs)], Waiting))"
proof (cases "pre = []")
  case True
  then show ?thesis
    using restart_loop_fresh [OF normalize_schedule assms(2) _ assms(4), of 0] assms(1)
    by (simp add: RunParent_def Let_def)
next
  case False
  then have "restart_loop (normalizeParentOptions opts) lvl ((r0, False) # gs) =
     (map (\<lambda>k. RestartSchedule (normalizeParentOptions opts) !
        min k (length (RestartSchedule (normalizeParentOptions opts)) - 1)) [0..<Suc (length gs)], Waiting)" for lvl
    using restart_loop_fresh [OF normalize_schedule assms(2) _ assms(4)] assms(3) by blast
  from restart_loop_prefix [OF assms(5) this, of 0] assms(1) show ?thesis
    by (simp add: RunParent_def Let_def)
qed

theorem parent_restart_delays_witness:
  defines "opts \<equiv> \<lparr>HangWindow = 0, WatchInterval = 0, StopTimeout = 0, RestartSchedule = [3, 8], StableRunReset = 100\<rparr>"
    and "bad \<equiv> gen_result ExitRestart None 10 0" and "long \<equiv> gen_result ExitRestart None 100 0"
  shows "\<exists>ds. length ds = length [(bad, False)]
     \<and> RunParent ''pxgo'' opts ([(bad, False)] @ (long, False) # [(bad, False), (bad, False)]) =
      (let s = RestartSchedule (normalizeParentOptions opts)
       in (ds @ map (\<lambda>k. s ! min k (length s - 1)) [0..<Suc (length [(bad, False), (bad, False)])], Waiting))"
  by (rule parent_restart_delays)
    (simp_all add: opts_def bad_def long_def normalizeParentOptions_def trim_space_def trim_right_by_def
      go_space_def)

text \<open>the control variables that the parent adds to a worker's environment, whatever the
  environment was, are what the worker reads back, for a loopback listener address and a token
  of 32 bytes.\<close>

theorem worker_control_roundtrip:
  assumes "length bs = 32" "1 \<le> port" "port \<le> 65535"
    and "control = \<lparr>wc_addr = JoinHostPort ''127.0.0.1'' (itoa port), wc_token = hex_encode bs\<rparr>"
  shows "WorkerControlFromEnv (env_get (withWorkerControlEnv base control)) = Inr (Some control)"
proof -
  let ?h = "''127.0.0.1''"
  have d: "list_all is_digit (itoa port)" using assms(2) by (simp add: itoa_def show_nat_digits)
  then have nd: "CHR ''['' \<notin> set (itoa port)" "CHR '']'' \<notin> set (itoa port)" "CHR '':'' \<notin> set (itoa port)"
    by (auto simp: list_all_iff is_digit_def)
  have sp: "SplitHostPort (JoinHostPort ?h (itoa port)) = Some (?h, itoa port)"
    by (rule SplitHostPort_Join) (use nd in simp_all)
  have "\<forall>c \<in> set (itoa port). \<not> go_space c" using d by (auto simp: list_all_iff dest: digit_not_special(1))
  then have ta: "trim_space (JoinHostPort ?h (itoa port)) = JoinHostPort ?h (itoa port)"
    by (intro trim_space_id) (auto simp: JoinHostPort_def go_space_def)
  have tt: "trim_space (hex_encode bs) = hex_encode bs"
    using hex_encode_chars [of bs] by (intro trim_space_id) (auto simp: go_space_def)
  have "list_all is_hex_token_char ''0123456789abcdef''" by code_simp
  then have tok: "list_all is_hex_token_char (hex_encode bs)" "length (hex_encode bs) = 64"
    using hex_encode_chars [of bs] assms(1) by (auto simp: hex_encode_length list_all_iff)
  have ip: "ParseIP ?h = Some (v4InV6Prefix @ [127, 0, 0, 1])" by code_simp
  have "JoinHostPort ?h (itoa port) \<noteq> []" "hex_encode bs \<noteq> []"
    using tok(2) by (auto simp: JoinHostPort_def)
  then show ?thesis
    using assms(4) ta tt sp ip tok
    by (simp add: WorkerControlFromEnv_def env_get_control IsLoopback_def to4_mapped trim_right_by_def Let_def)
qed

theorem worker_control_roundtrip_witness:
  defines "control \<equiv> \<lparr>wc_addr = JoinHostPort ''127.0.0.1'' (itoa 4567), wc_token = hex_encode (replicate 32 171)\<rparr>"
  shows "WorkerControlFromEnv (env_get (withWorkerControlEnv [''PATH=/bin'', ''PXGOINT_GUARDIAN_ADDR=x''] control))
     = Inr (Some control)"
  by (rule worker_control_roundtrip [of "replicate 32 171" 4567]) (simp_all add: control_def)

end
