(* ===== verification/Guardian_Worker.thy ===== *)
theory Guardian_Worker
  imports Guardian_Parent
begin

text \<open>
  The worker's side of the guardian, \<^verbatim>\<open>internal/guardian/worker.go\<close>: the loop that starts the
  server, reports readiness and heartbeats, and stops on a message, an error or a fatal request.
  The hooks, the tickers and the session are input: one event per round of the \<^verbatim>\<open>select\<close>, with
  what the hooks and the writes of that round return. The state keeps the messages that were
  written to the session.
\<close>

section \<open>Results and options\<close>

datatype WorkerExit = WorkerExitNormal | WorkerExitStartupFailure | WorkerExitRestart

fun worker_exit_code :: "WorkerExit \<Rightarrow> int" where
  "worker_exit_code WorkerExitNormal = 0"
| "worker_exit_code WorkerExitStartupFailure = 5"
| "worker_exit_code WorkerExitRestart = 75"

record WorkerResult =
  wr_exit :: WorkerExit
  wr_err :: "goerr option"

record WorkerOptions =
  HeartbeatInterval :: duration
  ReadyPollInterval :: duration
  wo_StopTimeout :: duration

definition normalizeWorkerOptions :: "WorkerOptions \<Rightarrow> WorkerOptions" where
  "normalizeWorkerOptions o' =
     \<lparr>HeartbeatInterval = (if HeartbeatInterval o' \<le> 0 then 2 * second else HeartbeatInterval o'),
      ReadyPollInterval = (if ReadyPollInterval o' \<le> 0 then 25 * millisecond else ReadyPollInterval o'),
      wo_StopTimeout = (if wo_StopTimeout o' \<le> 0 then 5 * second else wo_StopTimeout o')\<rparr>"

section \<open>The loop\<close>

text \<open>The start hook returns (with the error of writing the stop message); the readiness ticker
  fires (whether the server is ready, the error of the write); the heartbeat ticker fires
  (whether a fatal recycle was requested, the progress counter, the error of the write); a
  message or an error arrives from the parent (and whether the context is done); the context is
  done.\<close>

datatype worker_event =
    WStart "goerr option" "goerr option"
  | WReadyTick bool "goerr option"
  | WHeartbeat bool u64 "goerr option"
  | WMsg Message
  | WControlErr goerr bool
  | WCtxDone

text \<open>How a stop goes: what the shutdown hook returns, and what the start hook returns in time, if
  it does.\<close>

record stop_env =
  se_shutdown :: "goerr option"
  se_start :: "goerr option option"

definition stopWorker :: "stop_env \<Rightarrow> WorkerExit \<Rightarrow> goerr option \<Rightarrow> WorkerResult" where
  "stopWorker se exit resultErr =
     (let resultErr = (if resultErr = None \<and> se_shutdown se \<noteq> None then se_shutdown se else resultErr);
          resultErr = (case se_start se of
              Some err \<Rightarrow> if resultErr = None \<and> err \<noteq> None then err else resultErr
            | None \<Rightarrow> if resultErr = None then Some DeadlineExceeded else resultErr)
      in \<lparr>wr_exit = exit, wr_err = resultErr\<rparr>)"

record worker =
  readySent :: bool
  written :: "Message list"
  snapshots :: nat

definition new_worker :: worker where
  "new_worker = \<lparr>readySent = False, written = [], snapshots = 0\<rparr>"

definition write_msg :: "worker \<Rightarrow> string \<Rightarrow> u64 \<Rightarrow> worker" where
  "write_msg w ty n = w\<lparr>written := written w @ [\<lparr>Type = ty, Sequence = n\<rparr>]\<rparr>"

definition worker_step :: "worker \<Rightarrow> worker_event \<Rightarrow> stop_env \<Rightarrow> worker \<times> WorkerResult option" where
  "worker_step w ev se =
     (case ev of
        WStart err sendErr \<Rightarrow>
          if \<not> readySent w then
            (w, Some \<lparr>wr_exit = WorkerExitStartupFailure,
                      wr_err = (if err = None then Some (ErrMsg ''worker server exited before READY'') else err)\<rparr>)
          else if err \<noteq> None then (w, Some \<lparr>wr_exit = WorkerExitRestart, wr_err = err\<rparr>)
          else (if sendErr = None then write_msg w MessageStop 0 else w,
                Some \<lparr>wr_exit = WorkerExitNormal, wr_err = None\<rparr>)
      | WReadyTick isReady sendErr \<Rightarrow>
          if readySent w \<or> \<not> isReady then (w, None)
          else if sendErr \<noteq> None then (w, Some (stopWorker se WorkerExitNormal None))
          else ((write_msg w MessageReady 0)\<lparr>readySent := True\<rparr>, None)
      | WHeartbeat fatal progress sendErr \<Rightarrow>
          if \<not> readySent w then (w, None)
          else if fatal then (w\<lparr>snapshots := Suc (snapshots w)\<rparr>, Some (stopWorker se WorkerExitRestart None))
          else if sendErr \<noteq> None then (w, Some (stopWorker se WorkerExitNormal None))
          else (write_msg w MessageBeat progress, None)
      | WMsg msg \<Rightarrow>
          if Type msg \<noteq> MessageStop then (w, Some (stopWorker se WorkerExitNormal (Some ErrProtocol)))
          else (w, Some (stopWorker se WorkerExitNormal None))
      | WControlErr err ctxDone \<Rightarrow>
          (w, Some (stopWorker se WorkerExitNormal (if ctxDone then None else Some err)))
      | WCtxDone \<Rightarrow> (w, Some (stopWorker se WorkerExitNormal None)))"

fun worker_loop :: "worker \<Rightarrow> (worker_event \<times> stop_env) list \<Rightarrow> worker \<times> WorkerResult option" where
  "worker_loop w [] = (w, None)"
| "worker_loop w ((ev, se) # evs) =
     (case worker_step w ev se of
        (w', Some r) \<Rightarrow> (w', Some r)
      | (w', None) \<Rightarrow> worker_loop w' evs)"

definition RunWorker :: "bool \<Rightarrow> (worker_event \<times> stop_env) list \<Rightarrow> worker \<times> WorkerResult option" where
  "RunWorker hooksComplete evs =
     (if \<not> hooksComplete
      then (new_worker, Some \<lparr>wr_exit = WorkerExitStartupFailure, wr_err = Some (ErrMsg ''guardian worker hooks incomplete'')\<rparr>)
      else worker_loop new_worker evs)"

section \<open>The worker's language\<close>

text \<open>What a worker may write: nothing, or the readiness message followed by heartbeats and
  possibly a final stop message. The readiness flag says which.\<close>

definition beats :: "u64 list \<Rightarrow> Message list" where
  "beats ns = map (\<lambda>n. \<lparr>Type = MessageBeat, Sequence = n\<rparr>) ns"

definition ready_msg :: Message where "ready_msg = \<lparr>Type = MessageReady, Sequence = 0\<rparr>"
definition stop_msg :: Message where "stop_msg = \<lparr>Type = MessageStop, Sequence = 0\<rparr>"

definition speaks :: "worker \<Rightarrow> bool" where
  "speaks w \<longleftrightarrow> (if readySent w then \<exists>ns. written w = ready_msg # beats ns else written w = [])"

definition finished_talk :: "Message list \<Rightarrow> bool" where
  "finished_talk ms \<longleftrightarrow> ms = [] \<or> (\<exists>ns. ms = ready_msg # beats ns \<or> ms = ready_msg # beats ns @ [stop_msg])"

lemma speaks_new [simp]: "speaks new_worker"
  by (simp add: speaks_def new_worker_def)

lemma speaks_finished: "speaks w \<Longrightarrow> finished_talk (written w)"
  by (auto simp: speaks_def finished_talk_def split: if_splits)

lemma beats_snoc: "beats ns @ [\<lparr>Type = MessageBeat, Sequence = n\<rparr>] = beats (ns @ [n])"
  by (simp add: beats_def)

lemma beats_Nil: "[ready_msg] = ready_msg # beats []"
  by (simp add: beats_def)

lemma stop_not_in_talk: "stop_msg \<notin> set (ready_msg # beats ns)"
  by (auto simp: beats_def stop_msg_def ready_msg_def)

lemma speaks_no_stop: "speaks w \<Longrightarrow> stop_msg \<notin> set (written w)"
  using stop_not_in_talk by (auto simp only: speaks_def list.set split: if_splits)

lemma stopWorker_exit [simp]: "wr_exit (stopWorker se e r) = e"
  by (simp add: stopWorker_def Let_def)

lemma worker_step_speaks:
  assumes "speaks w" "worker_step w ev se = (w', None)"
  shows "speaks w'"
proof (cases ev)
  case (WReadyTick isReady sendErr)
  with assms show ?thesis
    using beats_Nil by (auto simp: worker_step_def speaks_def write_msg_def ready_msg_def split: if_splits)
next
  case (WHeartbeat fatal progress sendErr)
  with assms show ?thesis
    using beats_snoc by (auto simp: worker_step_def speaks_def write_msg_def split: if_splits)
qed (use assms in \<open>auto simp: worker_step_def split: if_splits\<close>)

lemma worker_step_result:
  assumes "speaks w" "worker_step w ev se = (w', Some r)"
  shows "finished_talk (written w')
    \<and> (wr_exit r = WorkerExitRestart \<longrightarrow> written w' \<noteq> [])
    \<and> (wr_exit r = WorkerExitStartupFailure \<longrightarrow> written w' = [])
    \<and> (wr_exit r \<noteq> WorkerExitNormal \<longrightarrow> stop_msg \<notin> set (written w'))"
proof -
  have stop: "\<lparr>Type = MessageStop, Sequence = 0\<rparr> = stop_msg" by (simp add: stop_msg_def)
  have f: "finished_talk (written w)" using assms(1) by (rule speaks_finished)
  show ?thesis
  proof (cases "readySent w")
    case True
    with assms(1) obtain ns where w: "written w = ready_msg # beats ns" by (auto simp: speaks_def)
    have "stop_msg \<notin> set (written w)" using assms(1) by (rule speaks_no_stop)
    with True w assms(2) f show ?thesis
      by (cases ev) (auto simp: worker_step_def write_msg_def stop finished_talk_def split: if_splits)
  next
    case False
    with assms f show ?thesis
      by (cases ev) (auto simp: worker_step_def speaks_def split: if_splits)
  qed
qed

lemma worker_loop_talk:
  assumes "speaks w" "worker_loop w evs = (w', res)"
  shows "finished_talk (written w')
    \<and> (case res of None \<Rightarrow> stop_msg \<notin> set (written w')
       | Some r \<Rightarrow> (wr_exit r = WorkerExitRestart \<longrightarrow> written w' \<noteq> [])
           \<and> (wr_exit r = WorkerExitStartupFailure \<longrightarrow> written w' = [])
           \<and> (wr_exit r \<noteq> WorkerExitNormal \<longrightarrow> stop_msg \<notin> set (written w')))"
  using assms
proof (induction w evs rule: worker_loop.induct)
  case (1 w)
  then show ?case by (auto simp: speaks_finished dest: speaks_no_stop)
next
  case (2 w ev se evs)
  obtain w1 r1 where s: "worker_step w ev se = (w1, r1)" by (cases "worker_step w ev se")
  show ?case
  proof (cases r1)
    case None
    with s 2 worker_step_speaks [of w ev se w1] show ?thesis by simp
  next
    case (Some r)
    with s 2 worker_step_result [of w ev se w1 r] show ?thesis by auto
  qed
qed

text \<open>The parent's monitor takes a worker's talk without complaint.\<close>

definition msg_rounds :: "(Message \<times> gotime \<times> child_end \<times> gotime) list \<Rightarrow> mon_round list" where
  "msg_rounds = map (\<lambda>(m, now, ce, fin). (MMsg m now, ce, fin))"

lemma monitor_beats:
  assumes "mon_ready st" "\<forall>x \<in> set xs. Type (fst x) = MessageBeat"
  shows "\<exists>st'. mon_ready st' \<and> monitorReadyWorker st (msg_rounds xs @ rs) = monitorReadyWorker st' rs"
  using assms
proof (induction xs arbitrary: st)
  case Nil
  then show ?case by (auto simp: msg_rounds_def)
next
  case (Cons x xs)
  obtain m now ce fin where x: "x = (m, now, ce, fin)" by (cases x)
  let ?st = "st\<lparr>mon_watchdog := Watchdog_Beat (mon_watchdog st) (Sequence m) now\<rparr>"
  have "monitor_step st (MMsg m now) ce fin = Inl ?st"
    using Cons.prems x by (simp add: monitor_step_def Let_def)
  then show ?case using Cons.IH [of ?st] Cons.prems x by (simp add: msg_rounds_def)
qed

lemma talk_split:
  assumes "finished_talk (map fst xs)" "xs \<noteq> []"
  obtains x bs tl where "xs = x # bs @ tl" "fst x = ready_msg" "\<forall>b \<in> set bs. Type (fst b) = MessageBeat"
    "tl = [] \<or> (\<exists>y. tl = [y] \<and> fst y = stop_msg)"
proof -
  have "map fst xs \<noteq> []" using assms(2) by simp
  with assms(1) have
    "\<exists>ns. map fst xs = ready_msg # beats ns \<or> map fst xs = ready_msg # beats ns @ [stop_msg]"
    unfolding finished_talk_def by (simp only: simp_thms)
  then obtain ns where
    "map fst xs = ready_msg # beats ns \<or> map fst xs = ready_msg # beats ns @ [stop_msg]" ..
  then have "\<exists>t. map fst xs = ready_msg # beats ns @ t \<and> (t = [] \<or> t = [stop_msg])" by auto
  then obtain t where t: "map fst xs = ready_msg # beats ns @ t" and stop: "t = [] \<or> t = [stop_msg]"
    by (elim exE conjE)
  from t obtain x bs tl where "xs = x # bs @ tl" "fst x = ready_msg" and bs: "map fst bs = beats ns"
    and "map fst tl = t" by (auto simp: map_eq_Cons_conv map_eq_append_conv)
  moreover have "\<forall>b \<in> set bs. Type (fst b) = MessageBeat"
  proof
    fix b assume "b \<in> set bs"
    then have "fst b \<in> set (map fst bs)" by simp
    then show "Type (fst b) = MessageBeat" unfolding bs by (auto simp: beats_def)
  qed
  ultimately show ?thesis using stop by (intro that [of x bs tl]) auto
qed

lemma monitor_talk:
  assumes "finished_talk (map fst xs)"
  shows "monitorReadyWorker (new_monitor o') (msg_rounds xs) = None
    \<or> (\<exists>r. monitorReadyWorker (new_monitor o') (msg_rounds xs) = Some r \<and> disposition r = ExitNormalStop)"
proof (cases "xs = []")
  case True
  then show ?thesis by (simp add: msg_rounds_def)
next
  case False
  obtain x bs tl where xs: "xs = x # bs @ tl" "fst x = ready_msg" "\<forall>b \<in> set bs. Type (fst b) = MessageBeat"
    and tl: "tl = [] \<or> (\<exists>y. tl = [y] \<and> fst y = stop_msg)" by (rule talk_split [OF assms False])
  obtain m now ce fin where x: "x = (m, now, ce, fin)" by (cases x)
  define st where "st = (new_monitor o')\<lparr>mon_ready := True, mon_readyAt := now,
      mon_watchdog := Watchdog_Ready (mon_watchdog (new_monitor o')) now, mon_onReady := 1\<rparr>"
  have "monitor_step (new_monitor o') (MMsg m now) ce fin = Inl st"
    using xs(2) x by (simp add: monitor_step_def new_monitor_def ready_msg_def st_def Let_def)
  moreover obtain st' where "mon_ready st'"
    "monitorReadyWorker st (msg_rounds bs @ msg_rounds tl) = monitorReadyWorker st' (msg_rounds tl)"
    using monitor_beats [OF _ xs(3), of st "msg_rounds tl"] by (auto simp: st_def)
  ultimately show ?thesis
    using tl xs(1) x by (auto simp: msg_rounds_def monitor_step_def stop_msg_def Let_def)
qed

section \<open>Properties\<close>

text \<open>every worker writes nothing, or one readiness message followed by heartbeats and at most
  one final stop message; it exits for a restart only after it reported readiness, with a startup
  failure only before, and writes the stop message only when it exits normally.\<close>

theorem worker_talk:
  assumes "RunWorker hooksComplete evs = (w, res)"
  shows "finished_talk (written w)
    \<and> (case res of None \<Rightarrow> stop_msg \<notin> set (written w)
       | Some r \<Rightarrow> (wr_exit r = WorkerExitRestart \<longrightarrow> written w \<noteq> [])
           \<and> (wr_exit r = WorkerExitStartupFailure \<longrightarrow> written w = [])
           \<and> (wr_exit r \<noteq> WorkerExitNormal \<longrightarrow> stop_msg \<notin> set (written w)))"
proof (cases hooksComplete)
  case True
  with assms have "worker_loop new_worker evs = (w, res)" by (simp add: RunWorker_def)
  then show ?thesis by (rule worker_loop_talk [OF speaks_new])
next
  case False
  with assms show ?thesis by (auto simp: RunWorker_def new_worker_def finished_talk_def)
qed

theorem worker_talk_witness:
  defines "se \<equiv> \<lparr>se_shutdown = None, se_start = Some None\<rparr>"
    and "w \<equiv> \<lparr>readySent = True, written = [ready_msg, \<lparr>Type = MessageBeat, Sequence = 4\<rparr>], snapshots = 1\<rparr>"
    and "r \<equiv> \<lparr>wr_exit = WorkerExitRestart, wr_err = None\<rparr>"
  shows "RunWorker True [(WHeartbeat False 1 None, se), (WReadyTick True None, se), (WHeartbeat False 4 None, se),
      (WHeartbeat True 5 None, se)] = (w, Some r)
    \<and> finished_talk (written w) \<and> wr_exit r = WorkerExitRestart \<and> written w \<noteq> [] \<and> stop_msg \<notin> set (written w)"
proof -
  have run: "RunWorker True [(WHeartbeat False 1 None, se), (WReadyTick True None, se), (WHeartbeat False 4 None, se),
      (WHeartbeat True 5 None, se)] = (w, Some r)"
    by (simp add: RunWorker_def new_worker_def worker_step_def write_msg_def stopWorker_def ready_msg_def
        se_def w_def r_def Let_def)
  have "wr_exit r = WorkerExitRestart" by (simp add: r_def)
  with run worker_talk [OF run] show ?thesis by simp
qed

end
