(* ===== verification/Supervisor_Health.thy ===== *)
theory Supervisor_Health
  imports Go_Prelude
begin

text \<open>
  The supervisor's passive health of upstream proxies, \<^verbatim>\<open>internal/supervisor/outcome.go\<close> and
  \<^verbatim>\<open>upstream.go\<close>: which outcomes count against a candidate, the cooldown of a failing one, the
  bounded table of health entries, and the order in which candidates are tried. Every operation
  runs under the supervisor's lock and is one step of the model.
\<close>

section \<open>Outcomes (outcome.go)\<close>

type_synonym ProxyKey = string

datatype OutcomeKind =
    OutcomeSuccess | OutcomeClientCancelled | OutcomeDestinationFailure | OutcomeProxyDNSFailure
  | OutcomeProxyDialFailure | OutcomeProxyTLSFailure | OutcomeProxyProtocolFailure
  | OutcomeAuthExhausted | OutcomeRouteFailure | OutcomeInternalFailure

fun OutcomeKind_String :: "OutcomeKind \<Rightarrow> string" where
  "OutcomeKind_String OutcomeSuccess = ''success''"
| "OutcomeKind_String OutcomeClientCancelled = ''client-cancelled''"
| "OutcomeKind_String OutcomeDestinationFailure = ''destination-failure''"
| "OutcomeKind_String OutcomeProxyDNSFailure = ''proxy-dns-failure''"
| "OutcomeKind_String OutcomeProxyDialFailure = ''proxy-dial-failure''"
| "OutcomeKind_String OutcomeProxyTLSFailure = ''proxy-tls-failure''"
| "OutcomeKind_String OutcomeProxyProtocolFailure = ''proxy-protocol-failure''"
| "OutcomeKind_String OutcomeAuthExhausted = ''auth-exhausted''"
| "OutcomeKind_String OutcomeRouteFailure = ''route-failure''"
| "OutcomeKind_String OutcomeInternalFailure = ''internal-failure''"

definition PenalizesCandidate :: "OutcomeKind \<Rightarrow> bool" where
  "PenalizesCandidate k \<longleftrightarrow> k \<in> set [OutcomeProxyDNSFailure, OutcomeProxyDialFailure,
     OutcomeProxyTLSFailure, OutcomeProxyProtocolFailure]"

record Outcome =
  Kind :: OutcomeKind
  Proxy :: ProxyKey
  oc_Duration :: duration

record Candidate =
  Key :: ProxyKey
  Direct :: bool

section \<open>Health entries (upstream.go)\<close>

definition localFailureThreshold :: int where "localFailureThreshold = 2"
definition maxHealthEntries :: nat where "maxHealthEntries = 256"
definition maxBackoffLevel :: int where "maxBackoffLevel = 5"
definition baseCooldown :: duration where "baseCooldown = 2 * second"
definition maxCooldown :: duration where "maxCooldown = 30 * second"

lemmas health_consts = localFailureThreshold_def maxHealthEntries_def maxBackoffLevel_def
  baseCooldown_def maxCooldown_def

record healthState =
  failures :: int
  backoffLevel :: int
  coolingUntil :: gotime
  hs_lastSequence :: u64

text \<open>The part of the supervisor that these functions touch.\<close>

record healthTable =
  health :: "(ProxyKey, healthState) gomap"
  sequence :: u64

text \<open>The shift is that of a 64-bit duration.\<close>

definition cooldownForLevel :: "int \<Rightarrow> duration" where
  "cooldownForLevel lvl =
     (if lvl \<le> 0 then 0
      else let d = sint (push_bit (nat (lvl - 1)) (of_int baseCooldown :: 64 word))
           in if d > maxCooldown then maxCooldown else d)"

definition evict_candidate :: "(ProxyKey, healthState) gomap \<Rightarrow> (ProxyKey \<times> u64) option" where
  "evict_candidate m = foldl (\<lambda>oldest (k, st).
     case oldest of None \<Rightarrow> Some (k, hs_lastSequence st)
     | Some (_, seq) \<Rightarrow> if hs_lastSequence st < seq then Some (k, hs_lastSequence st) else oldest) None m"

definition evictOldestHealthLocked :: "('a healthTable_scheme) \<Rightarrow> 'a healthTable_scheme" where
  "evictOldestHealthLocked s =
     (case evict_candidate (health s) of None \<Rightarrow> s
      | Some (k, _) \<Rightarrow> s\<lparr>health := gm_del k (health s)\<rparr>)"

text \<open>What one failure does to the entry of its candidate: an expired cooldown starts over, the
  failure is counted, and from the threshold on the cooldown grows. The result says whether the
  candidate entered a cooldown.\<close>

definition fail_entry :: "healthState \<Rightarrow> gotime \<Rightarrow> healthState \<times> bool" where
  "fail_entry st now =
     (let st = (if \<not> is_zero (coolingUntil st) \<and> \<not> before now (coolingUntil st)
                then st\<lparr>failures := 0, backoffLevel := 0, coolingUntil := 0\<rparr> else st);
          st = st\<lparr>failures := failures st + 1\<rparr>
      in if failures st < localFailureThreshold then (st, False)
         else
           let enteredCooling = is_zero (coolingUntil st);
               st = (if backoffLevel st < maxBackoffLevel then st\<lparr>backoffLevel := backoffLevel st + 1\<rparr> else st)
           in (st\<lparr>coolingUntil := now + cooldownForLevel (backoffLevel st)\<rparr>, enteredCooling))"

definition new_entry :: healthState where
  "new_entry = \<lparr>failures = 0, backoffLevel = 0, coolingUntil = 0, hs_lastSequence = 0\<rparr>"

definition recordLocalFailureLocked ::
    "'a healthTable_scheme \<Rightarrow> gotime \<Rightarrow> ProxyKey \<Rightarrow> 'a healthTable_scheme \<times> bool" where
  "recordLocalFailureLocked s now key =
     (if key = [] then (s, False)
      else
        let (s, st) = (case gm_get (health s) key of
              Some st \<Rightarrow> (s, st)
            | None \<Rightarrow> (if length (health s) \<ge> maxHealthEntries then evictOldestHealthLocked s else s, new_entry));
            s = s\<lparr>sequence := sequence s + 1\<rparr>;
            (st, enteredCooling) = fail_entry (st\<lparr>hs_lastSequence := sequence s\<rparr>) now
        in (s\<lparr>health := gm_put key st (health s)\<rparr>, enteredCooling))"

definition candidateCooledLocked ::
    "'a healthTable_scheme \<Rightarrow> gotime \<Rightarrow> ProxyKey \<Rightarrow> 'a healthTable_scheme \<times> bool" where
  "candidateCooledLocked s now key =
     (case gm_get (health s) key of
        None \<Rightarrow> (s, False)
      | Some st \<Rightarrow>
          if is_zero (coolingUntil st) then (s, False)
          else if before now (coolingUntil st) then (s, True)
          else (s\<lparr>health := gm_del key (health s)\<rparr>, False))"

text \<open>The first loop of \<^verbatim>\<open>Order\<close>: the state, the healthy and the cooled candidates; the second
  one puts the reordered candidates into the slots that do not hold DIRECT.\<close>

fun partition_candidates :: "'a healthTable_scheme \<Rightarrow> gotime \<Rightarrow> Candidate list \<Rightarrow>
    'a healthTable_scheme \<times> Candidate list \<times> Candidate list" where
  "partition_candidates s now [] = (s, [], [])"
| "partition_candidates s now (c # cs) =
     (if Direct c then partition_candidates s now cs
      else case candidateCooledLocked s now (Key c) of
        (s', isCooled) \<Rightarrow>
          (case partition_candidates s' now cs of
             (s'', healthy, cooled) \<Rightarrow>
               if isCooled then (s'', healthy, c # cooled) else (s'', c # healthy, cooled)))"

fun refill :: "Candidate list \<Rightarrow> Candidate list \<Rightarrow> Candidate list" where
  "refill [] xs = []"
| "refill (c # cs) xs =
     (if Direct c then c # refill cs xs
      else case xs of [] \<Rightarrow> c # refill cs [] | y # ys \<Rightarrow> y # refill cs ys)"

definition Order :: "'a healthTable_scheme \<Rightarrow> gotime \<Rightarrow> Candidate list \<Rightarrow> 'a healthTable_scheme \<times> Candidate list" where
  "Order s now authoritative =
     (if length authoritative < 2 then (s, authoritative)
      else case partition_candidates s now authoritative of
        (s', healthy, cooled) \<Rightarrow>
          let explicitCount = length healthy + length cooled; cooledCount = length cooled in
          if explicitCount = 0 \<or> cooledCount = 0 \<or> cooledCount = explicitCount then (s', authoritative)
          else (s', refill authoritative (healthy @ cooled)))"

section \<open>Cooldown lengths\<close>

lemma cooldown_values:
  "cooldownForLevel 1 = 2 * second" "cooldownForLevel 2 = 4 * second" "cooldownForLevel 3 = 8 * second"
  "cooldownForLevel 4 = 16 * second" "cooldownForLevel 5 = 30 * second"
  by (simp_all add: cooldownForLevel_def health_consts go_time Let_def push_bit_eq_mult)

lemma cooldown_bounds: "1 \<le> l \<Longrightarrow> l \<le> maxBackoffLevel \<Longrightarrow> 2 * second \<le> cooldownForLevel l \<and> cooldownForLevel l \<le> maxCooldown"
proof -
  assume "1 \<le> l" "l \<le> maxBackoffLevel"
  then have "l \<in> {1, 2, 3, 4, 5}" by (auto simp: maxBackoffLevel_def)
  then show ?thesis using cooldown_values by (auto simp: maxCooldown_def go_time)
qed

section \<open>Eviction\<close>

lemma evict_candidate_min:
  "evict_candidate m = Some (k, seq) \<Longrightarrow>
   (\<exists>st. (k, st) \<in> set m \<and> hs_lastSequence st = seq) \<and> (\<forall>(k', st') \<in> set m. seq \<le> hs_lastSequence st')"
proof (induction m arbitrary: k seq rule: rev_induct)
  case Nil
  then show ?case by (simp add: evict_candidate_def)
next
  case (snoc x m)
  obtain kx stx where x: "x = (kx, stx)" by (cases x)
  show ?case
  proof (cases "evict_candidate m")
    case None
    then have "m = []" by (induction m rule: rev_induct)
        (auto simp: evict_candidate_def split: option.splits if_splits)
    with snoc.prems x show ?thesis by (auto simp: evict_candidate_def)
  next
    case (Some ks)
    obtain k0 s0 where ks: "ks = (k0, s0)" by (cases ks)
    have old: "(\<exists>st. (k0, st) \<in> set m \<and> hs_lastSequence st = s0)" "\<forall>(k', st') \<in> set m. s0 \<le> hs_lastSequence st'"
      using snoc.IH [of k0 s0] Some ks by auto
    have "evict_candidate (m @ [x]) = (if hs_lastSequence stx < s0 then Some (kx, hs_lastSequence stx) else Some (k0, s0))"
      using Some ks x by (simp add: evict_candidate_def)
    with snoc.prems x old show ?thesis
      by (auto split: if_splits dest: order.strict_implies_order order_trans)
  qed
qed

lemma evict_candidate_None: "evict_candidate m = None \<longleftrightarrow> m = []"
  by (induction m rule: rev_induct) (auto simp: evict_candidate_def split: option.splits if_splits)

lemma evict_length:
  assumes "gm_ok (health s)" "health s \<noteq> []"
  shows "length (health (evictOldestHealthLocked s)) = length (health s) - 1"
proof -
  from assms(2) obtain k q where e: "evict_candidate (health s) = Some (k, q)"
    by (metis evict_candidate_None old.prod.exhaust option.exhaust)
  with evict_candidate_min [OF e] assms(1) have "gm_get (health s) k \<noteq> None" by auto
  with e gm_len_del [OF assms(1), of k] show ?thesis by (simp add: evictOldestHealthLocked_def)
qed

lemma evict_ok: "gm_ok (health s) \<Longrightarrow> gm_ok (health (evictOldestHealthLocked s))"
  by (auto simp: evictOldestHealthLocked_def split: option.splits)

lemma evict_subset: "set (health (evictOldestHealthLocked s)) \<subseteq> set (health s)"
  by (auto simp: evictOldestHealthLocked_def gm_in_del split: option.splits)

section \<open>Invariant\<close>

definition entry_ok :: "healthState \<Rightarrow> bool" where
  "entry_ok st \<longleftrightarrow> 1 \<le> failures st \<and> 0 \<le> backoffLevel st \<and> backoffLevel st \<le> maxBackoffLevel
     \<and> (failures st < localFailureThreshold \<longleftrightarrow> backoffLevel st = 0) \<and> (backoffLevel st = 0 \<longrightarrow> coolingUntil st = 0)"

definition health_ok :: "'a healthTable_scheme \<Rightarrow> bool" where
  "health_ok s \<longleftrightarrow> gm_ok (health s) \<and> length (health s) \<le> maxHealthEntries
     \<and> (\<forall>(k, st) \<in> set (health s). k \<noteq> [] \<and> entry_ok st)"

lemma health_ok_get: "health_ok s \<Longrightarrow> gm_get (health s) k = Some st \<Longrightarrow> k \<noteq> [] \<and> entry_ok st"
  by (auto simp: health_ok_def dest: map_of_SomeD)

lemma health_ok_del: "health_ok s \<Longrightarrow> health_ok (s\<lparr>health := gm_del k (health s)\<rparr>)"
  by (auto simp: health_ok_def gm_in_del intro: gm_ok_del order_trans [OF gm_len_del_le])

lemma evict_health_ok: "health_ok s \<Longrightarrow> health_ok (evictOldestHealthLocked s)"
  by (auto simp: evictOldestHealthLocked_def health_ok_del split: option.splits)

lemma health_ok_put:
  assumes "health_ok s" "k \<noteq> []" "entry_ok st" "gm_get (health s) k \<noteq> None \<or> length (health s) < maxHealthEntries"
  shows "health_ok (s\<lparr>health := gm_put k st (health s)\<rparr>)"
  using assms by (fastforce simp: health_ok_def gm_len_put dest: gm_in_put split: if_splits)

lemma fail_entry_ok:
  assumes "entry_ok st \<or> (failures st = 0 \<and> backoffLevel st = 0 \<and> coolingUntil st = 0)"
  shows "entry_ok (fst (fail_entry st now))"
  using assms by (auto simp: fail_entry_def entry_ok_def health_consts is_zero_def Let_def)

lemma recordLocalFailure_ok: "health_ok s \<Longrightarrow> health_ok (fst (recordLocalFailureLocked s now key))"
proof (cases "key = []")
  case True
  then show "health_ok s \<Longrightarrow> ?thesis" by (simp add: recordLocalFailureLocked_def)
next
  case False
  assume ok: "health_ok s"
  let ?s = "case gm_get (health s) key of Some st \<Rightarrow> s
    | None \<Rightarrow> if length (health s) \<ge> maxHealthEntries then evictOldestHealthLocked s else s"
  let ?st = "case gm_get (health s) key of Some st \<Rightarrow> st | None \<Rightarrow> new_entry"
  let ?e = "fst (fail_entry (?st\<lparr>hs_lastSequence := sequence ?s + 1\<rparr>) now)"
  have "health_ok ?s" using ok by (auto simp: evict_health_ok split: option.splits)
  then have ok': "health_ok (?s\<lparr>sequence := sequence ?s + 1\<rparr>)" by (simp add: health_ok_def)
  have "entry_ok ?e"
    using health_ok_get [OF ok, of key]
    by (intro fail_entry_ok) (auto simp: new_entry_def entry_ok_def split: option.splits)
  moreover have "gm_get (health ?s) key \<noteq> None \<or> length (health ?s) < maxHealthEntries"
  proof (cases "gm_get (health s) key = None \<and> length (health s) \<ge> maxHealthEntries")
    case True
    then have "health s \<noteq> []" by (auto simp: maxHealthEntries_def)
    then have "length (health (evictOldestHealthLocked s)) < maxHealthEntries"
      using ok evict_length [of s] by (auto simp: health_ok_def maxHealthEntries_def)
    with True show ?thesis by simp
  qed (auto split: option.splits)
  ultimately have "health_ok (?s\<lparr>sequence := sequence ?s + 1\<rparr>\<lparr>health := gm_put key ?e (health ?s)\<rparr>)"
    using health_ok_put [OF ok' False] by simp
  then show ?thesis
    using False
    by (cases "gm_get (health s) key") (simp_all add: recordLocalFailureLocked_def Let_def case_prod_unfold)
qed

lemma candidateCooled_ok: "health_ok s \<Longrightarrow> health_ok (fst (candidateCooledLocked s now key))"
  by (auto simp: candidateCooledLocked_def health_ok_del split: option.splits)

lemma partition_ok: "health_ok s \<Longrightarrow> health_ok (fst (partition_candidates s now cs))"
proof (induction s now cs rule: partition_candidates.induct)
  case (2 s now c cs)
  then show ?case
    using candidateCooled_ok [of s now "Key c"] by (auto split: prod.splits)
qed simp

lemma Order_ok: "health_ok s \<Longrightarrow> health_ok (fst (Order s now cs))"
  using partition_ok [of s now cs] by (auto simp: Order_def Let_def split: prod.splits)

section \<open>Order\<close>

text \<open>Whether a candidate is in a cooldown at an instant, read off the table.\<close>

definition cooling :: "'a healthTable_scheme \<Rightarrow> gotime \<Rightarrow> Candidate \<Rightarrow> bool" where
  "cooling s now c = (case gm_get (health s) (Key c) of None \<Rightarrow> False
     | Some st \<Rightarrow> coolingUntil st \<noteq> 0 \<and> now < coolingUntil st)"

lemma candidateCooled_result: "snd (candidateCooledLocked s now (Key c)) = cooling s now c"
  by (simp add: candidateCooledLocked_def cooling_def go_time split: option.splits)

lemma candidateCooled_cooling: "cooling (fst (candidateCooledLocked s now k)) now c = cooling s now c"
  by (auto simp: candidateCooledLocked_def cooling_def go_time go_map split: option.splits if_splits)

lemma partition_eq:
  "snd (partition_candidates s now cs) =
     (filter (\<lambda>c. \<not> Direct c \<and> \<not> cooling s now c) cs, filter (\<lambda>c. \<not> Direct c \<and> cooling s now c) cs)"
proof (induction s now cs rule: partition_candidates.induct)
  case (2 s now c cs)
  then show ?case
    using candidateCooled_result [of s now c] candidateCooled_cooling [of s now "Key c"]
    by (auto split: prod.splits)
qed simp

lemma refill_explicit:
  "length xs = length (filter (\<lambda>c. \<not> Direct c) cs) \<Longrightarrow> \<forall>x \<in> set xs. \<not> Direct x \<Longrightarrow>
   filter (\<lambda>c. \<not> Direct c) (refill cs xs) = xs"
  by (induction cs xs rule: refill.induct) (auto split: list.splits if_splits)

lemma refill_slots:
  "\<forall>x \<in> set xs. \<not> Direct x \<Longrightarrow>
   length (refill cs xs) = length cs \<and> (\<forall>i < length cs. Direct (refill cs xs ! i) = Direct (cs ! i)
     \<and> (Direct (cs ! i) \<longrightarrow> refill cs xs ! i = cs ! i))"
proof (induction cs xs rule: refill.induct)
  case (2 c cs xs)
  show ?case
  proof (cases "Direct c")
    case True
    with 2 show ?thesis by (auto simp: nth_Cons split: nat.splits)
  next
    case False
    with 2 show ?thesis by (cases xs) (auto simp: nth_Cons split: nat.splits)
  qed
qed simp

lemma filter_parts_length:
  "length (filter (\<lambda>c. P c \<and> \<not> Q c) cs) + length (filter (\<lambda>c. P c \<and> Q c) cs) = length (filter P cs)"
  by (induction cs) auto

lemma filter_all_part: "\<forall>c \<in> set cs. P c \<longrightarrow> Q c \<Longrightarrow> filter (\<lambda>c. P c \<and> Q c) cs = filter P cs"
  by (induction cs) auto

lemma Order_explicit:
  "filter (\<lambda>c. \<not> Direct c) (snd (Order s now cs)) =
     filter (\<lambda>c. \<not> Direct c \<and> \<not> cooling s now c) cs @ filter (\<lambda>c. \<not> Direct c \<and> cooling s now c) cs"
  (is "_ = ?h @ ?c")
proof -
  have len: "length ?h + length ?c = length (filter (\<lambda>c. \<not> Direct c) cs)" by (rule filter_parts_length)
  have none: "?c = [] \<Longrightarrow> filter (\<lambda>c. \<not> Direct c) cs = ?h"
    by (rule filter_all_part [symmetric]) (auto simp: filter_empty_conv)
  have all: "?h = [] \<Longrightarrow> filter (\<lambda>c. \<not> Direct c) cs = ?c"
    by (rule filter_all_part [symmetric]) (auto simp: filter_empty_conv)
  have short: "length cs < 2 \<Longrightarrow> ?h = [] \<or> ?c = []"
    by (cases cs) (auto simp: less_Suc_eq numeral_2_eq_2)
  obtain s' where p: "partition_candidates s now cs = (s', ?h, ?c)"
    using partition_eq [of s now cs] by (cases "partition_candidates s now cs") auto
  show ?thesis
  proof (cases "length cs < 2 \<or> ?h = [] \<or> ?c = []")
    case True
    then have "snd (Order s now cs) = cs" using p short by (auto simp: Order_def Let_def)
    with True short none all show ?thesis by auto
  next
    case False
    then have "snd (Order s now cs) = refill cs (?h @ ?c)" using p by (auto simp: Order_def Let_def)
    moreover have "filter (\<lambda>c. \<not> Direct c) (refill cs (?h @ ?c)) = ?h @ ?c"
      using len by (intro refill_explicit) auto
    ultimately show ?thesis by simp
  qed
qed

lemma Order_slots:
  "length (snd (Order s now cs)) = length cs \<and> (\<forall>i < length cs. Direct (snd (Order s now cs) ! i) = Direct (cs ! i)
     \<and> (Direct (cs ! i) \<longrightarrow> snd (Order s now cs) ! i = cs ! i))"
proof -
  obtain s' where p: "partition_candidates s now cs = (s', filter (\<lambda>c. \<not> Direct c \<and> \<not> cooling s now c) cs,
      filter (\<lambda>c. \<not> Direct c \<and> cooling s now c) cs)"
    using partition_eq [of s now cs] by (cases "partition_candidates s now cs") auto
  let ?xs = "filter (\<lambda>c. \<not> Direct c \<and> \<not> cooling s now c) cs @ filter (\<lambda>c. \<not> Direct c \<and> cooling s now c) cs"
  have "snd (Order s now cs) = cs \<or> snd (Order s now cs) = refill cs ?xs"
    by (simp add: Order_def p Let_def)
  then show ?thesis
  proof
    assume e: "snd (Order s now cs) = cs"
    show ?thesis by (simp add: e)
  next
    assume e: "snd (Order s now cs) = refill cs ?xs"
    show ?thesis unfolding e by (rule refill_slots) auto
  qed
qed

end
