(* ===== verification/Supervisor.thy ===== *)
theory Supervisor
  imports Supervisor_Health "HOL-Library.Multiset"
begin

text \<open>
  The supervisor, \<^verbatim>\<open>internal/supervisor/supervisor.go\<close>, \<^verbatim>\<open>recovery.go\<close> and \<^verbatim>\<open>status.go\<close>:
  recording of outcomes, correlated failures and network epochs, internal failures and the fatal
  request, owner-scoped recovery actions and the status snapshot. The clock is an argument.
  Goroutines started by \<^verbatim>\<open>Trigger\<close> are kept in \<open>running\<close>; the end of one is an event.
\<close>

section \<open>State\<close>

definition networkGapThreshold :: duration where "networkGapThreshold = 5 * second"
definition correlatedFailureWindow :: duration where "correlatedFailureWindow = 3 * second"
definition correlatedFailureThreshold :: int where "correlatedFailureThreshold = 8"
definition networkEpochCooldown :: duration where "networkEpochCooldown = 30 * second"
definition internalFailureWindow :: duration where "internalFailureWindow = 30 * second"
definition internalFatalThreshold :: int where "internalFatalThreshold = 3"

lemmas supervisor_consts = networkGapThreshold_def correlatedFailureWindow_def correlatedFailureThreshold_def
  networkEpochCooldown_def internalFailureWindow_def internalFatalThreshold_def

datatype ActionKey = ActionRefreshRoute | ActionRefreshAuth | ActionCloseIdleTransports | ActionClearNetworkDNS

record FatalSignal =
  fs_Reason :: string
  fs_At :: gotime

record correlatedWindowState =
  cw_start :: gotime
  cw_count :: int
  cw_proxies :: "ProxyKey list"

record Supervisor = healthTable +
  owners :: "ActionKey list"
  sv_closed :: bool
  inflight :: "ActionKey list"
  running :: "ActionKey list"
  progressSequence :: u64
  sv_lastProgress :: gotime
  lastTick :: gotime
  networkEpoch :: u64
  lastNetworkEpoch :: gotime
  correlated :: correlatedWindowState
  internalWindowStart :: gotime
  internalFailures :: int
  fatalRequested :: bool
  fatalReason :: string
  fatalCh :: "FatalSignal list"

definition empty_window :: correlatedWindowState where
  "empty_window = \<lparr>cw_start = 0, cw_count = 0, cw_proxies = []\<rparr>"

definition newWithClock :: "ActionKey list \<Rightarrow> Supervisor" where
  "newWithClock own =
     \<lparr>health = [], sequence = 0, owners = own, sv_closed = False, inflight = [], running = [],
      progressSequence = 0, sv_lastProgress = 0, lastTick = 0, networkEpoch = 0, lastNetworkEpoch = 0,
      correlated = empty_window, internalWindowStart = 0, internalFailures = 0,
      fatalRequested = False, fatalReason = [], fatalCh = []\<rparr>"

definition Supervisor_Close :: "Supervisor \<Rightarrow> Supervisor" where
  "Supervisor_Close s = (if sv_closed s then s else s\<lparr>sv_closed := True\<rparr>)"

section \<open>Recovery actions (recovery.go)\<close>

definition ownerAction :: "Supervisor \<Rightarrow> ActionKey \<Rightarrow> bool" where
  "ownerAction s key \<longleftrightarrow> key \<in> set (owners s)"

definition Trigger :: "Supervisor \<Rightarrow> ActionKey \<Rightarrow> Supervisor \<times> bool" where
  "Trigger s key =
     (if \<not> ownerAction s key then (s, False)
      else if sv_closed s \<or> key \<in> set (inflight s) then (s, False)
      else (s\<lparr>inflight := inflight s @ [key], running := running s @ [key]\<rparr>, True))"

text \<open>The end of the goroutine that runs an action.\<close>

definition runAction_end :: "Supervisor \<Rightarrow> ActionKey \<Rightarrow> Supervisor" where
  "runAction_end s key =
     (if key \<in> set (running s)
      then s\<lparr>inflight := removeAll key (inflight s), running := remove1 key (running s)\<rparr> else s)"

definition triggerNetworkRecovery :: "Supervisor \<Rightarrow> Supervisor" where
  "triggerNetworkRecovery s =
     (let s = fst (Trigger s ActionRefreshRoute);
          s = fst (Trigger s ActionRefreshAuth);
          s = fst (Trigger s ActionCloseIdleTransports)
      in fst (Trigger s ActionClearNetworkDNS))"

section \<open>Outcomes and epochs (supervisor.go)\<close>

definition resetCorrelatedLocked :: "Supervisor \<Rightarrow> Supervisor" where
  "resetCorrelatedLocked s = s\<lparr>correlated := empty_window\<rparr>"

definition startNetworkEpochLocked :: "Supervisor \<Rightarrow> gotime \<Rightarrow> Supervisor" where
  "startNetworkEpochLocked s now =
     resetCorrelatedLocked (s\<lparr>networkEpoch := networkEpoch s + 1, lastNetworkEpoch := now, health := []\<rparr>)"

definition observeCorrelatedFailureLocked :: "Supervisor \<Rightarrow> gotime \<Rightarrow> ProxyKey \<Rightarrow> Supervisor \<times> bool" where
  "observeCorrelatedFailureLocked s now key =
     (if key = [] then (s, False)
      else if \<not> is_zero (lastNetworkEpoch s) \<and> time_sub now (lastNetworkEpoch s) < networkEpochCooldown then (s, False)
      else
        let c = correlated s;
            c = (if is_zero (cw_start c) \<or> time_sub now (cw_start c) > correlatedFailureWindow
                 then \<lparr>cw_start = now, cw_count = 0, cw_proxies = []\<rparr> else c);
            c = c\<lparr>cw_count := cw_count c + 1, cw_proxies := List.insert key (cw_proxies c)\<rparr>;
            s = s\<lparr>correlated := c\<rparr>
        in if cw_count c < correlatedFailureThreshold \<or> length (cw_proxies c) < 2 then (s, False)
           else (startNetworkEpochLocked s now, True))"

definition recordInternalFailureLocked :: "Supervisor \<Rightarrow> gotime \<Rightarrow> Supervisor" where
  "recordInternalFailureLocked s now =
     (let s = (if is_zero (internalWindowStart s) \<or> time_sub now (internalWindowStart s) > internalFailureWindow
               then s\<lparr>internalWindowStart := now, internalFailures := 0\<rparr> else s);
          s = s\<lparr>internalFailures := internalFailures s + 1\<rparr>
      in if internalFailures s < internalFatalThreshold \<or> fatalRequested s then s
         else let s = s\<lparr>fatalRequested := True, fatalReason := ''repeated internal runtime failure''\<rparr>
              in if length (fatalCh s) < 1 then s\<lparr>fatalCh := fatalCh s @ [\<lparr>fs_Reason = fatalReason s, fs_At = now\<rparr>]\<rparr>
                 else s)"

definition Supervisor_record :: "Supervisor \<Rightarrow> gotime \<Rightarrow> Outcome \<Rightarrow> Supervisor \<times> bool \<times> bool" where
  "Supervisor_record s now outcome =
     (if sv_closed s then (s, False, False)
      else if Kind outcome = OutcomeSuccess then
        (if Proxy outcome \<noteq> [] then s\<lparr>health := gm_del (Proxy outcome) (health s)\<rparr> else s, False, False)
      else if PenalizesCandidate (Kind outcome) then
        (let (s, triggerIdle) = recordLocalFailureLocked s now (Proxy outcome);
             (s, epoch) = observeCorrelatedFailureLocked s now (Proxy outcome)
         in (s, triggerIdle, epoch))
      else if Kind outcome = OutcomeInternalFailure then (recordInternalFailureLocked s now, False, False)
      else (s, False, False))"

definition Supervisor_Record :: "Supervisor \<Rightarrow> gotime \<Rightarrow> Outcome \<Rightarrow> Supervisor" where
  "Supervisor_Record s now outcome = fst (Supervisor_record s now outcome)"

definition Recover :: "Supervisor \<Rightarrow> gotime \<Rightarrow> Outcome \<Rightarrow> Supervisor" where
  "Recover s now outcome =
     (let (s, triggerIdle, epoch) = Supervisor_record s now outcome;
          s = (if Kind outcome = OutcomeRouteFailure then fst (Trigger s ActionRefreshRoute)
               else if Kind outcome = OutcomeAuthExhausted then fst (Trigger s ActionRefreshAuth) else s);
          s = (if triggerIdle then fst (Trigger s ActionCloseIdleTransports) else s)
      in if epoch then triggerNetworkRecovery s else s)"

definition Tick :: "Supervisor \<Rightarrow> gotime \<Rightarrow> gotime \<Rightarrow> Supervisor" where
  "Tick s clock now =
     (let now = (if is_zero now then clock else now) in
      if sv_closed s then s
      else
        let s = s\<lparr>progressSequence := progressSequence s + 1, sv_lastProgress := now\<rparr>;
            triggerEpoch = (\<not> is_zero (lastTick s) \<and> time_sub now (lastTick s) > networkGapThreshold);
            s = (if triggerEpoch then startNetworkEpochLocked s now else s);
            s = s\<lparr>lastTick := now\<rparr>
        in if triggerEpoch then triggerNetworkRecovery s else s)"

definition ResetTransient :: "Supervisor \<Rightarrow> Supervisor" where
  "ResetTransient s = resetCorrelatedLocked (s\<lparr>health := []\<rparr>)"

section \<open>Status (status.go)\<close>

record CandidateStatus =
  cs_ProxyKey :: ProxyKey
  cs_Failures :: int
  cs_BackoffLevel :: int
  cs_Cooling :: bool
  cs_CoolingUntil :: gotime

record Status =
  st_ProgressSequence :: u64
  st_LastProgress :: gotime
  st_NetworkEpoch :: u64
  st_HealthEntries :: nat
  st_InflightActions :: nat
  st_FatalRequested :: bool
  st_FatalReason :: string
  st_Candidates :: "CandidateStatus list"

definition Supervisor_Status :: "Supervisor \<Rightarrow> gotime \<Rightarrow> Status" where
  "Supervisor_Status s now =
     \<lparr>st_ProgressSequence = progressSequence s, st_LastProgress = sv_lastProgress s,
      st_NetworkEpoch = networkEpoch s, st_HealthEntries = length (health s),
      st_InflightActions = length (inflight s), st_FatalRequested = fatalRequested s,
      st_FatalReason = fatalReason s,
      st_Candidates = sort_key cs_ProxyKey (map (\<lambda>(key, st).
        \<lparr>cs_ProxyKey = key, cs_Failures = failures st, cs_BackoffLevel = backoffLevel st,
         cs_Cooling = (\<not> is_zero (coolingUntil st) \<and> before now (coolingUntil st)),
         cs_CoolingUntil = coolingUntil st\<rparr>) (health s))\<rparr>"

section \<open>Runs\<close>

text \<open>The calls and goroutine ends that a running supervisor sees, each with the clock.\<close>

datatype sup_event =
    EvRecord Outcome | EvRecover Outcome | EvTick gotime | EvOrder "Candidate list"
  | EvTrigger ActionKey | EvActionEnd ActionKey | EvReset | EvClose | EvTakeFatal

fun sup_step :: "Supervisor \<Rightarrow> gotime \<times> sup_event \<Rightarrow> Supervisor" where
  "sup_step s (now, EvRecord oc) = Supervisor_Record s now oc"
| "sup_step s (now, EvRecover oc) = Recover s now oc"
| "sup_step s (now, EvTick t) = Tick s now t"
| "sup_step s (now, EvOrder cs) = fst (Order s now cs)"
| "sup_step s (now, EvTrigger k) = fst (Trigger s k)"
| "sup_step s (now, EvActionEnd k) = runAction_end s k"
| "sup_step s (now, EvReset) = ResetTransient s"
| "sup_step s (now, EvClose) = Supervisor_Close s"
| "sup_step s (now, EvTakeFatal) = s\<lparr>fatalCh := tl (fatalCh s)\<rparr>"

text \<open>The invariant: the health table is well formed and bounded; the goroutines of actions are
  exactly the actions in flight, each at most once and with an owner; the correlated window has
  not reached its threshold; the fatal channel holds at most its capacity, and a signal only
  after a request.\<close>

definition actions_ok :: "Supervisor \<Rightarrow> bool" where
  "actions_ok s \<longleftrightarrow> distinct (inflight s) \<and> distinct (running s) \<and> set (running s) = set (inflight s)
     \<and> set (inflight s) \<subseteq> set (owners s)"

definition window_ok :: "Supervisor \<Rightarrow> bool" where
  "window_ok s \<longleftrightarrow> distinct (cw_proxies (correlated s)) \<and> int (length (cw_proxies (correlated s))) \<le> cw_count (correlated s)
     \<and> (cw_count (correlated s) < correlatedFailureThreshold \<or> length (cw_proxies (correlated s)) < 2)"

definition fatal_ok :: "Supervisor \<Rightarrow> bool" where
  "fatal_ok s \<longleftrightarrow> length (fatalCh s) \<le> 1 \<and> (\<not> fatalRequested s \<longrightarrow> fatalCh s = [])"

definition sup_ok :: "Supervisor \<Rightarrow> bool" where
  "sup_ok s \<longleftrightarrow> health_ok s \<and> actions_ok s \<and> window_ok s \<and> fatal_ok s"

named_theorems sup_frame "what the operations leave unchanged"

lemma Trigger_frame [sup_frame]:
  "health (fst (Trigger s k)) = health s" "correlated (fst (Trigger s k)) = correlated s"
  "fatalCh (fst (Trigger s k)) = fatalCh s" "fatalRequested (fst (Trigger s k)) = fatalRequested s"
  "owners (fst (Trigger s k)) = owners s" "sv_closed (fst (Trigger s k)) = sv_closed s"
  "networkEpoch (fst (Trigger s k)) = networkEpoch s" "lastNetworkEpoch (fst (Trigger s k)) = lastNetworkEpoch s"
  by (simp_all add: Trigger_def)

lemma Trigger_ok: "sup_ok s \<Longrightarrow> sup_ok (fst (Trigger s k))"
  by (auto simp: sup_ok_def actions_ok_def window_ok_def fatal_ok_def health_ok_def Trigger_def ownerAction_def)

lemma triggerNetworkRecovery_ok: "sup_ok s \<Longrightarrow> sup_ok (triggerNetworkRecovery s)"
  by (simp add: triggerNetworkRecovery_def Let_def Trigger_ok)

lemma runAction_end_ok: "sup_ok s \<Longrightarrow> sup_ok (runAction_end s k)"
  by (auto simp: sup_ok_def actions_ok_def window_ok_def fatal_ok_def health_ok_def runAction_end_def
      distinct_removeAll)

lemma health_ok_Nil [simp]: "health_ok (s\<lparr>health := []\<rparr>)"
  by (simp add: health_ok_def)

lemma startNetworkEpoch_ok: "sup_ok s \<Longrightarrow> sup_ok (startNetworkEpochLocked s now)"
  by (simp add: sup_ok_def actions_ok_def window_ok_def fatal_ok_def health_ok_def startNetworkEpochLocked_def
      resetCorrelatedLocked_def empty_window_def correlatedFailureThreshold_def)

text \<open>The functions on the health table leave the rest of the supervisor alone.\<close>

definition same_rest :: "Supervisor \<Rightarrow> Supervisor \<Rightarrow> bool" where
  "same_rest s t \<longleftrightarrow> healthTable.more t = healthTable.more s"

lemma same_rest_ok: "sup_ok s \<Longrightarrow> same_rest s t \<Longrightarrow> health_ok t \<Longrightarrow> sup_ok t"
  by (cases s; cases t)
    (simp add: same_rest_def sup_ok_def actions_ok_def window_ok_def fatal_ok_def)

lemma same_rest_fields:
  "same_rest s t \<Longrightarrow> sv_closed t = sv_closed s \<and> owners t = owners s \<and> inflight t = inflight s
     \<and> lastNetworkEpoch t = lastNetworkEpoch s \<and> networkEpoch t = networkEpoch s \<and> correlated t = correlated s
     \<and> fatalRequested t = fatalRequested s \<and> fatalCh t = fatalCh s"
  by (cases s; cases t) (simp add: same_rest_def)

lemma same_rest_refl [simp]: "same_rest s s"
  by (simp add: same_rest_def)

lemma same_rest_trans: "same_rest s t \<Longrightarrow> same_rest t u \<Longrightarrow> same_rest s u"
  by (simp add: same_rest_def)

lemma same_rest_update [simp]: "same_rest s (t\<lparr>health := h\<rparr>) = same_rest s t"
  "same_rest s (t\<lparr>sequence := q\<rparr>) = same_rest s t"
  by (cases t; simp add: same_rest_def)+

lemma evict_rest: "same_rest s (evictOldestHealthLocked s)"
  by (simp add: evictOldestHealthLocked_def split: option.splits)

lemma recordLocalFailure_rest: "same_rest s (fst (recordLocalFailureLocked s now key))"
  by (cases "gm_get (health s) key")
    (simp_all add: recordLocalFailureLocked_def Let_def case_prod_unfold evict_rest)

lemma candidateCooled_rest: "same_rest s (fst (candidateCooledLocked s now key))"
  by (simp add: candidateCooledLocked_def split: option.splits)

lemma partition_rest: "same_rest s (fst (partition_candidates s now cs))"
proof (induction s now cs rule: partition_candidates.induct)
  case (2 s now c cs)
  then show ?case
    using candidateCooled_rest [of s now "Key c"] by (auto intro: same_rest_trans split: prod.splits)
qed simp

lemma Order_rest: "same_rest s (fst (Order s now cs))"
  using partition_rest [of s now cs] by (auto simp: Order_def Let_def split: prod.splits)

lemma recordLocalFailure_sup_ok: "sup_ok s \<Longrightarrow> sup_ok (fst (recordLocalFailureLocked s now key))"
  by (rule same_rest_ok [OF _ recordLocalFailure_rest])
    (auto simp: sup_ok_def intro: recordLocalFailure_ok)

lemma Order_sup_ok: "sup_ok s \<Longrightarrow> sup_ok (fst (Order s now cs))"
  by (rule same_rest_ok [OF _ Order_rest]) (auto simp: sup_ok_def intro: Order_ok)

lemma window_ok_correlated:
  "sup_ok s \<Longrightarrow> window_ok (s\<lparr>correlated := c\<rparr>) \<Longrightarrow> sup_ok (s\<lparr>correlated := c\<rparr>)"
  by (simp add: sup_ok_def actions_ok_def fatal_ok_def health_ok_def)

lemma length_insert_le: "length (List.insert k xs) \<le> Suc (length xs)"
  by (simp add: List.insert_def)

lemma observeCorrelated_ok: "sup_ok s \<Longrightarrow> sup_ok (fst (observeCorrelatedFailureLocked s now key))"
proof -
  assume ok: "sup_ok s"
  define old where "old = (if is_zero (cw_start (correlated s)) \<or> time_sub now (cw_start (correlated s)) > correlatedFailureWindow
     then \<lparr>cw_start = now, cw_count = 0, cw_proxies = []\<rparr> else correlated s)"
  define c where "c = old\<lparr>cw_count := cw_count old + 1, cw_proxies := List.insert key (cw_proxies old)\<rparr>"
  have "distinct (cw_proxies old)" "int (length (cw_proxies old)) \<le> cw_count old"
    using ok by (auto simp: sup_ok_def window_ok_def old_def)
  then have c: "distinct (cw_proxies c)" "int (length (cw_proxies c)) \<le> cw_count c"
    using length_insert_le [of key "cw_proxies old"] by (simp_all add: c_def)
  have "sup_ok (startNetworkEpochLocked (s\<lparr>correlated := c\<rparr>) now)"
    using ok by (simp add: sup_ok_def actions_ok_def window_ok_def fatal_ok_def health_ok_def startNetworkEpochLocked_def
      resetCorrelatedLocked_def empty_window_def correlatedFailureThreshold_def)
  moreover have "cw_count old + 1 < correlatedFailureThreshold \<or> length (List.insert key (cw_proxies old)) < 2 \<longrightarrow>
      sup_ok (s\<lparr>correlated := c\<rparr>)"
    using ok c by (intro impI window_ok_correlated) (auto simp: window_ok_def c_def)
  ultimately show ?thesis
    using ok by (auto simp: observeCorrelatedFailureLocked_def Let_def simp flip: old_def c_def)
qed

lemma recordInternalFailure_ok: "sup_ok s \<Longrightarrow> sup_ok (recordInternalFailureLocked s now)"
  by (auto simp: recordInternalFailureLocked_def sup_ok_def actions_ok_def window_ok_def fatal_ok_def
      health_ok_def Let_def)

lemma record_ok: "sup_ok s \<Longrightarrow> sup_ok (fst (Supervisor_record s now oc))"
proof -
  assume ok: "sup_ok s"
  then have "sup_ok (s\<lparr>health := gm_del k (health s)\<rparr>)" for k
    by (intro same_rest_ok [OF ok]) (auto simp: sup_ok_def health_ok_del)
  with ok show ?thesis
    by (simp add: Supervisor_record_def case_prod_unfold Let_def recordInternalFailure_ok observeCorrelated_ok
        recordLocalFailure_sup_ok)
qed

lemma Recover_ok: "sup_ok s \<Longrightarrow> sup_ok (Recover s now oc)"
  by (simp add: Recover_def case_prod_unfold Let_def record_ok Trigger_ok triggerNetworkRecovery_ok)

lemma Tick_ok: "sup_ok s \<Longrightarrow> sup_ok (Tick s clock now)"
proof -
  assume ok: "sup_ok s"
  have upd: "sup_ok t \<Longrightarrow> sup_ok (t\<lparr>progressSequence := p, sv_lastProgress := q\<rparr>)"
    "sup_ok t \<Longrightarrow> sup_ok (t\<lparr>lastTick := q\<rparr>)" for t p q
    by (simp_all add: sup_ok_def actions_ok_def window_ok_def fatal_ok_def health_ok_def)
  show ?thesis
    using ok by (simp add: Tick_def Let_def upd startNetworkEpoch_ok triggerNetworkRecovery_ok)
qed

lemma sup_step_ok: "sup_ok s \<Longrightarrow> sup_ok (sup_step s ev)"
proof (induction s ev rule: sup_step.induct)
  case (7 s now)
  then show ?case
    by (simp add: ResetTransient_def resetCorrelatedLocked_def sup_ok_def actions_ok_def window_ok_def
        fatal_ok_def health_ok_def empty_window_def correlatedFailureThreshold_def)
next
  case (8 s now)
  then show ?case
    by (simp add: Supervisor_Close_def sup_ok_def actions_ok_def window_ok_def fatal_ok_def health_ok_def)
next
  case (9 s now)
  then show ?case
    by (auto simp: sup_ok_def actions_ok_def window_ok_def fatal_ok_def health_ok_def)
qed (simp_all add: Supervisor_Record_def record_ok Recover_ok Tick_ok Order_sup_ok Trigger_ok runAction_end_ok)

lemma new_ok [simp]: "sup_ok (newWithClock own)"
  by (simp add: newWithClock_def sup_ok_def actions_ok_def window_ok_def fatal_ok_def health_ok_def
      empty_window_def correlatedFailureThreshold_def)

interpretation supervisor_table: bounded_machine sup_step sup_ok "\<lambda>s. length (health s)" "\<lambda>_. maxHealthEntries"
  by unfold_locales (simp_all add: sup_step_ok, simp add: sup_ok_def health_ok_def)

lemma sup_run_ok: "sup_ok (foldl sup_step (newWithClock own) evs)"
  by (rule supervisor_table.run_inv) simp

section \<open>Further lemmas\<close>

lemma Trigger_inflight: "ownerAction s k \<Longrightarrow> \<not> sv_closed s \<Longrightarrow> k \<in> set (inflight (fst (Trigger s k)))"
  by (simp add: Trigger_def)

lemma Trigger_mono: "set (inflight s) \<subseteq> set (inflight (fst (Trigger s k)))"
  by (auto simp: Trigger_def)

lemma triggerNetworkRecovery_inflight:
  assumes "\<not> sv_closed s" "k \<in> set (owners s)"
  shows "k \<in> set (inflight (triggerNetworkRecovery s))"
proof -
  have tr: "k' \<in> set (owners t) \<Longrightarrow> \<not> sv_closed t \<Longrightarrow> k' \<in> set (inflight (fst (Trigger t k')))" for t k'
    by (rule Trigger_inflight) (simp_all add: ownerAction_def)
  show ?thesis
    using assms tr Trigger_mono
    by (cases k) (auto simp: triggerNetworkRecovery_def Let_def sup_frame subset_iff)
qed

lemma triggerNetworkRecovery_frame:
  "health (triggerNetworkRecovery s) = health s" "networkEpoch (triggerNetworkRecovery s) = networkEpoch s"
  "lastNetworkEpoch (triggerNetworkRecovery s) = lastNetworkEpoch s"
  "correlated (triggerNetworkRecovery s) = correlated s" "owners (triggerNetworkRecovery s) = owners s"
  by (simp_all add: triggerNetworkRecovery_def Let_def sup_frame)

lemma observe_epoch:
  assumes "snd (observeCorrelatedFailureLocked s now key)"
  shows "health (fst (observeCorrelatedFailureLocked s now key)) = []
    \<and> networkEpoch (fst (observeCorrelatedFailureLocked s now key)) = networkEpoch s + 1
    \<and> lastNetworkEpoch (fst (observeCorrelatedFailureLocked s now key)) = now
    \<and> correlated (fst (observeCorrelatedFailureLocked s now key)) = empty_window
    \<and> sv_closed (fst (observeCorrelatedFailureLocked s now key)) = sv_closed s
    \<and> owners (fst (observeCorrelatedFailureLocked s now key)) = owners s
    \<and> (lastNetworkEpoch s = 0 \<or> networkEpochCooldown \<le> time_sub now (lastNetworkEpoch s))
    \<and> cw_count (correlated s) \<ge> correlatedFailureThreshold - 1
    \<and> time_sub now (cw_start (correlated s)) \<le> correlatedFailureWindow"
  using assms
  by (auto simp: observeCorrelatedFailureLocked_def startNetworkEpochLocked_def resetCorrelatedLocked_def
      is_zero_def correlatedFailureThreshold_def Let_def split: if_splits)

lemma two_distinct_other: "distinct xs \<Longrightarrow> 2 \<le> length (List.insert k xs) \<Longrightarrow> \<exists>p \<in> set xs. p \<noteq> k"
  by (cases xs; cases "tl xs") (auto simp: List.insert_def split: if_splits)

lemma observe_proxies:
  assumes "snd (observeCorrelatedFailureLocked s now key)" "distinct (cw_proxies (correlated s))"
  shows "\<exists>p \<in> set (cw_proxies (correlated s)). p \<noteq> key"
  using assms
  by (intro two_distinct_other)
    (auto simp: observeCorrelatedFailureLocked_def correlatedFailureThreshold_def Let_def split: if_splits)

text \<open>A run of failures of one candidate.\<close>

fun fail_run :: "healthState \<Rightarrow> gotime list \<Rightarrow> healthState" where
  "fail_run st [] = st"
| "fail_run st (t # ts) = fail_run (fst (fail_entry st t)) ts"

fun failures_of :: "Supervisor \<Rightarrow> ProxyKey \<Rightarrow> gotime list \<Rightarrow> Supervisor" where
  "failures_of s key [] = s"
| "failures_of s key (t # ts) = failures_of (fst (recordLocalFailureLocked s t key)) key ts"

lemma fail_entry_step:
  assumes "0 < t0" "t0 \<le> t" "t < t0 + 2 * second" "failures st = int n" "backoffLevel st = min 5 (int n - 1) \<or> n = 0"
    and "n = 0 \<Longrightarrow> backoffLevel st = 0" "n < 2 \<Longrightarrow> coolingUntil st = 0"
    and "2 \<le> n \<Longrightarrow> t0 + 2 * second \<le> coolingUntil st"
  shows "failures (fst (fail_entry st t)) = int (Suc n)
    \<and> backoffLevel (fst (fail_entry st t)) = min 5 (int n)
    \<and> (coolingUntil (fst (fail_entry st t)) = (if n = 0 then 0 else t + cooldownForLevel (min 5 (int n))))"
proof -
  have "\<not> (coolingUntil st \<noteq> 0 \<and> \<not> t < coolingUntil st)" using assms by (cases "n < 2") auto
  then show ?thesis
    using assms by (cases "n = 0") (auto simp: fail_entry_def health_consts go_time Let_def min_def)
qed

lemma cooldown_min: "1 \<le> n \<Longrightarrow> 2 * second \<le> cooldownForLevel (min 5 (int n))"
  using cooldown_bounds [of "min 5 (int n)"] by (simp add: maxBackoffLevel_def)

lemma fail_run_values:
  assumes "0 < t0" "\<forall>t \<in> set ts. t0 \<le> t \<and> t < t0 + 2 * second"
    and "failures st = 0" "backoffLevel st = 0" "coolingUntil st = 0" "ts \<noteq> []"
  shows "failures (fail_run st ts) = int (length ts)
    \<and> backoffLevel (fail_run st ts) = min 5 (int (length ts) - 1)
    \<and> coolingUntil (fail_run st ts) = (if length ts = 1 then 0 else last ts + cooldownForLevel (min 5 (int (length ts) - 1)))"
  using assms
proof (induction ts rule: rev_induct)
  case (snoc t ts)
  have app: "fail_run st (ts @ [t]) = fst (fail_entry (fail_run st ts) t)" for st
    by (induction ts arbitrary: st) auto
  let ?st = "fail_run st ts" and ?n = "length ts"
  have t: "t0 \<le> t" "t < t0 + 2 * second" using snoc.prems(2) by auto
  have IH: "ts \<noteq> [] \<Longrightarrow> failures ?st = int ?n \<and> backoffLevel ?st = min 5 (int ?n - 1)
     \<and> coolingUntil ?st = (if ?n = 1 then 0 else last ts + cooldownForLevel (min 5 (int ?n - 1)))"
    using snoc by simp
  have cool: "2 \<le> ?n \<Longrightarrow> t0 + 2 * second \<le> coolingUntil ?st"
  proof -
    assume n: "2 \<le> ?n"
    then have "t0 \<le> last ts" using snoc.prems(2) last_in_set [of ts] by fastforce
    moreover have "2 * second \<le> cooldownForLevel (min 5 (int ?n - 1))"
      using cooldown_min [of "?n - 1"] n by (simp add: of_nat_diff)
    moreover have "ts \<noteq> []" using n by auto
    ultimately show ?thesis using IH n by simp
  qed
  have "failures (fst (fail_entry ?st t)) = int (Suc ?n) \<and> backoffLevel (fst (fail_entry ?st t)) = min 5 (int ?n)
     \<and> (coolingUntil (fst (fail_entry ?st t)) = (if ?n = 0 then 0 else t + cooldownForLevel (min 5 (int ?n))))"
    using snoc.prems IH cool
    by (intro fail_entry_step [OF snoc.prems(1) t]) (cases "ts = []"; auto simp: less_2_cases_iff)+
  then show ?case by (simp add: app)
qed simp

text \<open>The entry of a candidate after a run of its failures, up to the sequence number.\<close>

lemma fail_entry_seq: "fst (fail_entry (st\<lparr>hs_lastSequence := q\<rparr>) t) = (fst (fail_entry st t))\<lparr>hs_lastSequence := q\<rparr>"
  by (cases st) (auto simp: fail_entry_def Let_def)

lemma fail_run_seq: "\<exists>q'. fail_run (st\<lparr>hs_lastSequence := q\<rparr>) ts = (fail_run st ts)\<lparr>hs_lastSequence := q'\<rparr>"
  by (induction ts arbitrary: st) (auto simp: fail_entry_seq)

lemma recordLocalFailure_get:
  assumes "key \<noteq> []"
  shows "\<exists>q. gm_get (health (fst (recordLocalFailureLocked s t key))) key =
     Some (fst (fail_entry ((case gm_get (health s) key of Some st \<Rightarrow> st | None \<Rightarrow> new_entry)\<lparr>hs_lastSequence := q\<rparr>) t))"
  using assms
  by (cases "gm_get (health s) key") (auto simp: recordLocalFailureLocked_def Let_def case_prod_unfold go_map)

lemma failures_of_get:
  assumes "key \<noteq> []" "ts \<noteq> []"
  shows "\<exists>q. gm_get (health (failures_of s key ts)) key =
     Some ((fail_run (case gm_get (health s) key of Some st \<Rightarrow> st | None \<Rightarrow> new_entry) ts)\<lparr>hs_lastSequence := q\<rparr>)"
  using assms(2)
proof (induction ts arbitrary: s)
  case (Cons t ts)
  let ?st = "case gm_get (health s) key of Some st \<Rightarrow> st | None \<Rightarrow> new_entry"
  obtain q where q: "gm_get (health (fst (recordLocalFailureLocked s t key))) key =
      Some ((fst (fail_entry ?st t))\<lparr>hs_lastSequence := q\<rparr>)"
    using recordLocalFailure_get [OF assms(1), of s t] fail_entry_seq by metis
  show ?case
  proof (cases "ts = []")
    case True
    with q show ?thesis by auto
  next
    case False
    from Cons.IH [OF False, of "fst (recordLocalFailureLocked s t key)"] obtain q1 where
      "gm_get (health (failures_of s key (t # ts))) key =
       Some ((fail_run ((fst (fail_entry ?st t))\<lparr>hs_lastSequence := q\<rparr>) ts)\<lparr>hs_lastSequence := q1\<rparr>)"
      using q by auto
    with fail_run_seq [where st = "fst (fail_entry ?st t)" and q = q and ts = ts] show ?thesis by auto
  qed
qed simp

lemma cooldown_doubling:
  assumes "2 \<le> n" shows "cooldownForLevel (min 5 (int n - 1)) = min (2 ^ (n - 1)) 30 * second"
proof (cases "n \<le> 5")
  case True
  with assms have "n \<in> {2, 3, 4, 5}" by auto
  then show ?thesis using cooldown_values by auto
next
  case False
  then have "(2::int) ^ 5 \<le> 2 ^ (n - 1)" by (intro power_increasing) auto
  with False cooldown_values(5) show ?thesis by (simp add: min_def)
qed

text \<open>The parts of the state that an outcome can change.\<close>

lemma observe_frame:
  "\<not> snd (observeCorrelatedFailureLocked s now key) \<Longrightarrow>
   health (fst (observeCorrelatedFailureLocked s now key)) = health s"
  by (auto simp: observeCorrelatedFailureLocked_def Let_def split: if_splits)

lemma observe_fatal:
  "fatalRequested (fst (observeCorrelatedFailureLocked s now key)) = fatalRequested s"
  "fatalCh (fst (observeCorrelatedFailureLocked s now key)) = fatalCh s"
  by (auto simp: observeCorrelatedFailureLocked_def startNetworkEpochLocked_def resetCorrelatedLocked_def
      Let_def split: if_splits)

lemma internal_frame: "health (recordInternalFailureLocked s now) = health s"
  by (auto simp: recordInternalFailureLocked_def Let_def)

lemma evict_get:
  "gm_get (health (evictOldestHealthLocked s)) k \<noteq> None \<Longrightarrow>
   gm_get (health (evictOldestHealthLocked s)) k = gm_get (health s) k"
  by (auto simp: evictOldestHealthLocked_def go_map split: option.splits if_splits)

lemma recordLocalFailure_other:
  assumes "k \<noteq> key" "gm_get (health (fst (recordLocalFailureLocked s now key))) k \<noteq> None"
  shows "gm_get (health (fst (recordLocalFailureLocked s now key))) k = gm_get (health s) k"
  using assms evict_get [of s k]
  by (cases "gm_get (health s) key")
    (auto simp: recordLocalFailureLocked_def Let_def case_prod_unfold go_map split: if_splits)

section \<open>Properties\<close>

text \<open>The health table of a supervisor stays bounded. Whatever sequence of outcomes, ticks,
  orderings, recovery actions and resets it sees, it holds at most 256 entries, one per non-empty
  proxy key, each with a back-off level between 0 and 5, and a level above 0 exactly from the
  second failure on.\<close>

theorem health_table_bounded:
  "length (health (foldl sup_step (newWithClock own) evs)) \<le> 256
   \<and> distinct (map fst (health (foldl sup_step (newWithClock own) evs)))
   \<and> list_all (\<lambda>(k, st). k \<noteq> [] \<and> 0 \<le> backoffLevel st \<and> backoffLevel st \<le> 5 \<and> (2 \<le> failures st) = (0 < backoffLevel st))
       (health (foldl sup_step (newWithClock own) evs))"
proof -
  have "health_ok (foldl sup_step (newWithClock own) evs)"
    using sup_run_ok [of own evs] by (simp add: sup_ok_def)
  then show ?thesis
    by (auto simp: health_ok_def entry_ok_def health_consts list_all_iff)
qed

text \<open>C31: Recovery actions are single flight. Whatever a supervisor sees, no recovery action ever
  runs twice at the same time, the running ones are exactly those marked in flight, only actions
  with an owner run, and a trigger starts an action exactly when it has an owner, the supervisor
  is open and the action is not in flight.\<close>

theorem recovery_single_flight:
  "distinct (running (foldl sup_step (newWithClock own) evs))
   \<and> set (running (foldl sup_step (newWithClock own) evs)) = set (inflight (foldl sup_step (newWithClock own) evs))
   \<and> set (running (foldl sup_step (newWithClock own) evs)) \<subseteq> set (owners (foldl sup_step (newWithClock own) evs))
   \<and> snd (Trigger (foldl sup_step (newWithClock own) evs) k) =
       (k \<in> set (owners (foldl sup_step (newWithClock own) evs)) \<and> \<not> sv_closed (foldl sup_step (newWithClock own) evs)
        \<and> k \<notin> set (running (foldl sup_step (newWithClock own) evs)))"
proof -
  have "actions_ok (foldl sup_step (newWithClock own) evs)"
    using sup_run_ok [of own evs] by (simp add: sup_ok_def)
  then show ?thesis by (auto simp: actions_ok_def Trigger_def ownerAction_def)
qed

lemma Order_mset: "mset (snd (Order s now cs)) = mset cs"
proof -
  let ?o = "snd (Order s now cs)"
  have slots: "length ?o = length cs" "\<forall>i < length cs. Direct (?o ! i) = Direct (cs ! i) \<and> (Direct (cs ! i) \<longrightarrow> ?o ! i = cs ! i)"
    using Order_slots [of s now cs] by auto
  have part: "mset xs = mset (filter P xs) + mset (filter (\<lambda>x. \<not> P x) xs)" for P and xs :: "Candidate list"
    by (simp add: mset_filter)
  have dir: "length xs = length ys \<Longrightarrow> \<forall>i < length ys. Direct (xs ! i) = Direct (ys ! i) \<and> (Direct (ys ! i) \<longrightarrow> xs ! i = ys ! i)
     \<Longrightarrow> filter Direct xs = filter Direct ys" for xs ys
    by (induction xs ys rule: list_induct2) (auto simp: All_less_Suc2)
  have "mset (filter (\<lambda>c. \<not> Direct c) ?o) = mset (filter (\<lambda>c. \<not> Direct c) cs)"
    unfolding Order_explicit by (induction cs) auto
  then show ?thesis by (subst (1 2) part [of _ Direct]) (simp only: dir [OF slots])
qed

text \<open>C5: Ordering never changes the route policy. The order in which candidates are tried has the
  same length and the same DIRECT slots, at the same positions, as the authoritative list; the
  other slots hold the healthy candidates followed by the cooling ones, both in their
  authoritative order, so nothing is dropped, added or duplicated.\<close>

theorem order_keeps_policy:
  "mset (snd (Order s now cs)) = mset cs
   \<and> filter (\<lambda>c. \<not> Direct c) (snd (Order s now cs)) =
       filter (\<lambda>c. \<not> Direct c \<and> \<not> cooling s now c) cs @ filter (\<lambda>c. \<not> Direct c \<and> cooling s now c) cs
   \<and> list_all2 (\<lambda>c d. if Direct c then d = c else \<not> Direct d) cs (snd (Order s now cs))"
  using Order_mset [of s now cs] Order_slots [of s now cs] Order_explicit [of s now cs]
  by (auto simp: list_all2_conv_all_nth)

text \<open>The cooldown of a failing candidate doubles. When a candidate without a health entry
  fails \<open>n\<close> times within two seconds, it is then cooling exactly when \<open>n\<close> is at least 2 and less
  than \<open>2 ^ (n - 1)\<close> seconds, at most 30, have passed since the last failure.\<close>

theorem failing_candidate_cools:
  assumes "Key c \<noteq> []" "gm_get (health s) (Key c) = None" "ts \<noteq> []"
    and "0 < t0" "\<forall>t \<in> set ts. t0 \<le> t \<and> t < t0 + 2 * second" "0 \<le> now"
  shows "cooling (failures_of s (Key c) ts) now c \<longleftrightarrow>
    2 \<le> length ts \<and> now < last ts + min (2 ^ (length ts - 1)) 30 * second"
proof -
  obtain q where q: "gm_get (health (failures_of s (Key c) ts)) (Key c) = Some ((fail_run new_entry ts)\<lparr>hs_lastSequence := q\<rparr>)"
    using failures_of_get [OF assms(1,3), of s] assms(2) by auto
  have cu: "coolingUntil (fail_run new_entry ts) =
      (if length ts = 1 then 0 else last ts + cooldownForLevel (min 5 (int (length ts) - 1)))"
    using fail_run_values [OF assms(4,5), of new_entry] assms(3) by (simp add: new_entry_def)
  have "0 < last ts" using assms(3,4,5) last_in_set [of ts] by fastforce
  moreover have "length ts = 1 \<or> 2 \<le> length ts" using assms(3) by (cases ts; cases "tl ts") auto
  moreover have "0 < min (2 ^ (length ts - 1)) 30 * second" by (simp add: go_time)
  ultimately show ?thesis
    using q cu cooldown_doubling [of "length ts"] by (auto simp: cooling_def)
qed

theorem failing_candidate_cools_witness:
  "cooling (failures_of (newWithClock []) ''p'' [second, second + 1, second + 2]) (second + 5)
     \<lparr>Key = ''p'', Direct = False\<rparr>"
  using failing_candidate_cools [of "\<lparr>Key = ''p'', Direct = False\<rparr>" "newWithClock []"
      "[second, second + 1, second + 2]" second "second + 5"]
  by (simp add: newWithClock_def second_def millisecond_def)

text \<open>A network epoch. When recovery from an outcome sees a correlated failure of the upstreams
  (the eighth in three seconds, of at least two proxies, and no epoch in the last thirty seconds),
  the health of every candidate is forgotten, the epoch advances, the window is cleared, and every
  recovery action with an owner is in flight.\<close>

theorem correlated_failure_starts_epoch:
  assumes "sup_ok s" and "snd (snd (Supervisor_record s now oc))"
  shows "health (Recover s now oc) = [] \<and> networkEpoch (Recover s now oc) = networkEpoch s + 1
    \<and> lastNetworkEpoch (Recover s now oc) = now \<and> correlated (Recover s now oc) = empty_window
    \<and> set (inflight (Recover s now oc)) = set (owners s)
    \<and> (lastNetworkEpoch s = 0 \<or> 30 * second \<le> time_sub now (lastNetworkEpoch s))
    \<and> 7 \<le> cw_count (correlated s) \<and> time_sub now (cw_start (correlated s)) \<le> 3 * second
    \<and> (\<exists>p \<in> set (cw_proxies (correlated s)). p \<noteq> Proxy oc)"
proof -
  have pen: "\<not> sv_closed s" "PenalizesCandidate (Kind oc)" "Kind oc \<noteq> OutcomeSuccess"
    using assms(2) by (auto simp: Supervisor_record_def split: if_splits)
  then have kind: "Kind oc \<noteq> OutcomeRouteFailure" "Kind oc \<noteq> OutcomeAuthExhausted"
    by (auto simp: PenalizesCandidate_def)
  let ?t = "fst (recordLocalFailureLocked s now (Proxy oc))"
  let ?u = "fst (observeCorrelatedFailureLocked ?t now (Proxy oc))"
  have rec: "Supervisor_record s now oc = (?u, snd (recordLocalFailureLocked s now (Proxy oc)),
      snd (observeCorrelatedFailureLocked ?t now (Proxy oc)))"
    using pen by (simp add: Supervisor_record_def case_prod_unfold Let_def)
  have t: "sv_closed ?t = sv_closed s" "owners ?t = owners s" "lastNetworkEpoch ?t = lastNetworkEpoch s"
    "networkEpoch ?t = networkEpoch s" "correlated ?t = correlated s"
    using same_rest_fields [OF recordLocalFailure_rest [of s now "Proxy oc"]] by auto
  have ep: "snd (observeCorrelatedFailureLocked ?t now (Proxy oc))" using assms(2) rec by simp
  define v where "v = (if snd (recordLocalFailureLocked s now (Proxy oc)) then fst (Trigger ?u ActionCloseIdleTransports) else ?u)"
  have R: "Recover s now oc = triggerNetworkRecovery v"
    using ep kind by (simp add: Recover_def rec Let_def v_def)
  have v: "health v = []" "networkEpoch v = networkEpoch s + 1" "lastNetworkEpoch v = now"
    "correlated v = empty_window" "sv_closed v = sv_closed s" "owners v = owners s"
    using observe_epoch [OF ep] t by (auto simp: v_def sup_frame)
  have "set (inflight (Recover s now oc)) \<subseteq> set (owners (Recover s now oc))"
    using Recover_ok [OF assms(1)] by (simp add: sup_ok_def actions_ok_def)
  moreover have "set (owners s) \<subseteq> set (inflight (triggerNetworkRecovery v))"
    using triggerNetworkRecovery_inflight [of v] v pen by auto
  ultimately have "set (inflight (Recover s now oc)) = set (owners s)"
    using v by (auto simp: R triggerNetworkRecovery_frame)
  moreover have "\<exists>p \<in> set (cw_proxies (correlated s)). p \<noteq> Proxy oc"
    using observe_proxies [OF ep] assms(1) t by (auto simp: sup_ok_def window_ok_def)
  ultimately show ?thesis
    using observe_epoch [OF ep] t v by (simp add: R triggerNetworkRecovery_frame supervisor_consts)
qed

theorem correlated_failure_starts_epoch_witness:
  defines "s \<equiv> (newWithClock [ActionRefreshRoute])\<lparr>correlated :=
     \<lparr>cw_start = second, cw_count = 7, cw_proxies = [''a'']\<rparr>\<rparr>"
    and "oc \<equiv> \<lparr>Kind = OutcomeProxyDialFailure, Proxy = ''b'', oc_Duration = 0\<rparr>"
  shows "health (Recover s (2 * second) oc) = [] \<and> networkEpoch (Recover s (2 * second) oc) = 1
    \<and> set (inflight (Recover s (2 * second) oc)) = {ActionRefreshRoute}"
proof -
  have "sup_ok s" by (simp add: s_def newWithClock_def sup_ok_def actions_ok_def window_ok_def fatal_ok_def
        health_ok_def correlatedFailureThreshold_def)
  moreover have "snd (snd (Supervisor_record s (2 * second) oc))"
    by (simp add: s_def oc_def newWithClock_def Supervisor_record_def PenalizesCandidate_def recordLocalFailureLocked_def
        new_entry_def fail_entry_def health_consts observeCorrelatedFailureLocked_def supervisor_consts is_zero_def
        time_sub_def max_duration_def min_duration_def second_def millisecond_def Let_def)
  ultimately show ?thesis
    using correlated_failure_starts_epoch [of s "2 * second" oc] by (simp add: s_def newWithClock_def)
qed

text \<open>Only faults of a proxy count against it. A success forgets the entry of its own proxy and
  nothing else; an outcome that is not a fault of a proxy (a cancelled client, a failing
  destination, a route, authentication or internal failure) leaves the table as it is; a proxy
  fault without a network epoch leaves the entries of the other proxies that stay in the table
  as they are; and a closed supervisor changes nothing.\<close>

theorem only_proxy_faults_count:
  "(sv_closed s \<longrightarrow> health (Recover s now oc) = health s)
   \<and> (\<not> sv_closed s \<and> Kind oc = OutcomeSuccess \<and> k \<noteq> [] \<longrightarrow>
        gm_get (health (Recover s now oc)) k = (if k = Proxy oc then None else gm_get (health s) k))
   \<and> (Kind oc \<noteq> OutcomeSuccess \<and> \<not> PenalizesCandidate (Kind oc) \<longrightarrow> health (Recover s now oc) = health s)
   \<and> (PenalizesCandidate (Kind oc) \<and> \<not> snd (snd (Supervisor_record s now oc)) \<and> k \<noteq> Proxy oc
        \<and> gm_get (health (Recover s now oc)) k \<noteq> None \<longrightarrow> gm_get (health (Recover s now oc)) k = gm_get (health s) k)"
proof -
  have base: "\<not> snd (snd (Supervisor_record s now oc)) \<Longrightarrow>
      health (Recover s now oc) = health (fst (Supervisor_record s now oc))"
    by (simp add: Recover_def case_prod_unfold Let_def sup_frame)
  have pen: "PenalizesCandidate (Kind oc) \<Longrightarrow> \<not> snd (snd (Supervisor_record s now oc)) \<Longrightarrow> \<not> sv_closed s \<Longrightarrow>
      health (Recover s now oc) = health (fst (recordLocalFailureLocked s now (Proxy oc)))"
    using base observe_frame [of "fst (recordLocalFailureLocked s now (Proxy oc))" now "Proxy oc"]
    by (auto simp: Supervisor_record_def case_prod_unfold Let_def PenalizesCandidate_def)
  have closed: "sv_closed s \<Longrightarrow> health (Recover s now oc) = health s"
    using base by (simp add: Supervisor_record_def)
  moreover have "\<not> sv_closed s \<and> Kind oc = OutcomeSuccess \<and> k \<noteq> [] \<longrightarrow>
      gm_get (health (Recover s now oc)) k = (if k = Proxy oc then None else gm_get (health s) k)"
    using base by (auto simp: Supervisor_record_def go_map)
  moreover have "Kind oc \<noteq> OutcomeSuccess \<and> \<not> PenalizesCandidate (Kind oc) \<longrightarrow> health (Recover s now oc) = health s"
    using base by (auto simp: Supervisor_record_def internal_frame)
  moreover have "PenalizesCandidate (Kind oc) \<and> \<not> snd (snd (Supervisor_record s now oc)) \<and> k \<noteq> Proxy oc
        \<and> gm_get (health (Recover s now oc)) k \<noteq> None \<longrightarrow> gm_get (health (Recover s now oc)) k = gm_get (health s) k"
    using pen closed recordLocalFailure_other [of k "Proxy oc" s now] by (cases "sv_closed s") auto
  ultimately show ?thesis by blast
qed

theorem only_proxy_faults_count_witness:
  defines "s \<equiv> fst (recordLocalFailureLocked (newWithClock []) second ''a'')"
  shows "health (Recover s (2 * second) \<lparr>Kind = OutcomeDestinationFailure, Proxy = ''a'', oc_Duration = 0\<rparr>) = health s
    \<and> gm_get (health (Recover s (2 * second) \<lparr>Kind = OutcomeSuccess, Proxy = ''a'', oc_Duration = 0\<rparr>)) ''a'' = None"
proof -
  have "\<not> sv_closed s"
    using same_rest_fields [OF recordLocalFailure_rest [of "newWithClock []" second "''a''"]]
    by (simp add: s_def newWithClock_def)
  then show ?thesis
    by (intro conjI)
      (rule only_proxy_faults_count [THEN conjunct2, THEN conjunct2, THEN conjunct1, THEN mp],
        simp add: PenalizesCandidate_def,
        subst only_proxy_faults_count [THEN conjunct2, THEN conjunct1, THEN mp], simp_all)
qed

text \<open>Internal failures at the times of a list.\<close>

fun internal_failures :: "Supervisor \<Rightarrow> gotime list \<Rightarrow> Supervisor" where
  "internal_failures s [] = s"
| "internal_failures s (t # ts) =
     internal_failures (Supervisor_Record s t \<lparr>Kind = OutcomeInternalFailure, Proxy = [], oc_Duration = 0\<rparr>) ts"

lemma internal_failures_snoc:
  "internal_failures s (ts @ [t]) =
   Supervisor_Record (internal_failures s ts) t \<lparr>Kind = OutcomeInternalFailure, Proxy = [], oc_Duration = 0\<rparr>"
  by (induction ts arbitrary: s) auto

lemma record_internal:
  "\<not> sv_closed s \<Longrightarrow> Supervisor_Record s t \<lparr>Kind = OutcomeInternalFailure, Proxy = [], oc_Duration = 0\<rparr> =
   recordInternalFailureLocked s t"
  by (simp add: Supervisor_Record_def Supervisor_record_def PenalizesCandidate_def)

text \<open>Repeated internal failures ask for a restart once. From a supervisor with no internal
  failure so far, internal failures within thirty seconds of the first make it fatal exactly from
  the third on, and however many follow, one signal, stamped with the time of the third, is in
  the channel.\<close>

theorem internal_failures_fatal:
  assumes "\<not> sv_closed s" "internalWindowStart s = 0" "\<not> fatalRequested s" "fatalCh s = []"
    and "0 < t" "\<forall>u \<in> set ts. t \<le> u \<and> u \<le> t + 30 * second"
  shows "fatalRequested (internal_failures s (t # ts)) = (2 \<le> length ts)
    \<and> fatalCh (internal_failures s (t # ts)) =
       (if 2 \<le> length ts then [\<lparr>fs_Reason = ''repeated internal runtime failure'', fs_At = ts ! 1\<rparr>] else [])"
proof -
  have "fatalRequested (internal_failures s (t # ts)) = (2 \<le> length ts)
    \<and> fatalCh (internal_failures s (t # ts)) =
       (if 2 \<le> length ts then [\<lparr>fs_Reason = ''repeated internal runtime failure'', fs_At = ts ! 1\<rparr>] else [])
    \<and> internalWindowStart (internal_failures s (t # ts)) = t \<and> internalFailures (internal_failures s (t # ts)) = int (length ts) + 1
    \<and> \<not> sv_closed (internal_failures s (t # ts))"
    using assms(6)
  proof (induction ts rule: rev_induct)
    case Nil
    then show ?case
      using assms(1-5) by (simp add: record_internal recordInternalFailureLocked_def supervisor_consts Let_def is_zero_def)
  next
    case (snoc u us)
    let ?s = "internal_failures s (t # us)"
    have IH: "fatalRequested ?s = (2 \<le> length us)" "fatalCh ?s = (if 2 \<le> length us then [\<lparr>fs_Reason = ''repeated internal runtime failure'', fs_At = us ! 1\<rparr>] else [])"
      "internalWindowStart ?s = t" "internalFailures ?s = int (length us) + 1" "\<not> sv_closed ?s"
      using snoc by auto
    have sn: "internal_failures s (t # us @ [u]) = recordInternalFailureLocked ?s u"
      using internal_failures_snoc [of s "t # us" u] record_internal [OF IH(5)] by simp
    have "\<not> time_sub u t > 30 * second" using snoc.prems by (simp add: time_sub_gt_iff min_duration_def max_duration_def second_def millisecond_def)
    then have "recordInternalFailureLocked ?s u = (let s' = ?s\<lparr>internalFailures := int (length us) + 2\<rparr> in
       if length us + 2 < 3 \<or> 2 \<le> length us then s'
       else s'\<lparr>fatalRequested := True, fatalReason := ''repeated internal runtime failure'',
         fatalCh := [\<lparr>fs_Reason = ''repeated internal runtime failure'', fs_At = u\<rparr>]\<rparr>)"
      using IH assms(5) by (simp add: recordInternalFailureLocked_def supervisor_consts Let_def is_zero_def)
    with IH sn show ?case by (cases us; cases "tl us") (auto simp: Let_def nth_append)
  qed
  then show ?thesis by blast
qed


theorem internal_failures_fatal_witness:
  "fatalCh (internal_failures (newWithClock []) [second, 2 * second, 3 * second, 31 * second]) =
     [\<lparr>fs_Reason = ''repeated internal runtime failure'', fs_At = 3 * second\<rparr>]"
  using internal_failures_fatal [of "newWithClock []" second "[2 * second, 3 * second, 31 * second]"]
  by (simp add: newWithClock_def second_def millisecond_def)

end
