(* ===== verification/Systemproxy.thy ===== *)
theory Systemproxy
  imports Go_Prelude
begin

text \<open>
  The platform-independent part of the system proxy, \<^verbatim>\<open>internal/systemproxy/systemproxy.go\<close>: the
  manual proxy setting, the discovered configuration, and the resolver's life cycle. The platform's
  resolver backend is an argument.
\<close>

section \<open>Manual proxies\<close>

record ManualProxyMap =
  mp_Default :: string
  mp_ByScheme :: "(string, string) gomap"

definition ManualProxyMap_Empty :: "ManualProxyMap \<Rightarrow> bool" where
  "ManualProxyMap_Empty m \<longleftrightarrow> mp_Default m = [] \<and> mp_ByScheme m = []"

definition ForScheme :: "ManualProxyMap \<Rightarrow> string \<Rightarrow> string" where
  "ForScheme m scheme =
     (case gm_get (mp_ByScheme m) (to_lower (trim_space scheme)) of
        Some proxy \<Rightarrow> if proxy \<noteq> [] then proxy else mp_Default m
      | None \<Rightarrow> mp_Default m)"

definition socks_default :: "string \<Rightarrow> string" where
  "socks_default proxy = (if contains_str proxy ''://'' then proxy else ''socks5://'' @ proxy)"

text \<open>The loop body of \<^verbatim>\<open>ParseManualProxyString\<close>: what one item adds.\<close>

definition manual_item :: "string \<Rightarrow> string list" where
  "manual_item raw =
     (let item = trim_space raw in
      if item = [] then []
      else case cut_char (CHR ''='') item of
        (scheme, proxy, True) \<Rightarrow>
          (let scheme = trim_space scheme; proxy = trim_space proxy in
           if scheme = ''ftp'' then []
           else if scheme = ''socks'' then [socks_default proxy] else [proxy])
      | (_, _, False) \<Rightarrow> [item])"

definition ParseManualProxyString :: "string \<Rightarrow> string" where
  "ParseManualProxyString proxyServer =
     (let items = filter (\<lambda>w. w \<noteq> []) (split_by (\<lambda>c. c \<in> set ''; ,'') (to_lower proxyServer));
          proxies = concat (map manual_item items)
      in join_with '','' (rev (remdups (rev proxies))))"

fun manual_loop :: "ManualProxyMap \<Rightarrow> string list \<Rightarrow> ManualProxyMap" where
  "manual_loop out [] = out"
| "manual_loop out (raw # rest) =
     (let item = trim_space raw in
      if item = [] then manual_loop out rest
      else case cut_char (CHR ''='') item of
        (scheme, proxy, ok) \<Rightarrow>
          if \<not> ok then
            (let v = ParseManualProxyString item in
             manual_loop (if v \<noteq> [] then out\<lparr>mp_Default := v\<rparr> else out) rest)
          else
            (let scheme = to_lower (trim_space scheme); proxy = trim_space proxy in
             if scheme = [] \<or> proxy = [] then manual_loop out rest
             else
               let proxy = (if scheme = ''socks'' then socks_default proxy else proxy) in
               manual_loop (out\<lparr>mp_ByScheme := gm_put scheme (ParseManualProxyString proxy) (mp_ByScheme out)\<rparr>) rest))"

definition ParseManualProxyMap :: "string \<Rightarrow> ManualProxyMap" where
  "ParseManualProxyMap proxyServer =
     (let out = \<lparr>mp_Default = [], mp_ByScheme = []\<rparr>; trimmed = trim_space proxyServer in
      if trimmed = [] then out
      else if CHR ''='' \<notin> set trimmed then out\<lparr>mp_Default := ParseManualProxyString trimmed\<rparr>
      else manual_loop out (split_on (CHR '';'') trimmed))"

section \<open>Configuration\<close>

record Config =
  cf_ManualProxy :: ManualProxyMap
  cf_PACURL :: string
  cf_Bypass :: string
  cf_Supported :: bool
  cf_Found :: bool
  cf_IsPAC :: bool
  cf_AutoDetect :: bool

definition configFromDiscoveredSources :: "bool \<Rightarrow> string \<Rightarrow> string \<Rightarrow> string \<Rightarrow> Config" where
  "configFromDiscoveredSources autoDetect pacURL proxy bypass =
     (let m = ParseManualProxyMap proxy in
      \<lparr>cf_ManualProxy = m, cf_PACURL = pacURL, cf_Bypass = bypass, cf_Supported = True,
       cf_Found = (autoDetect \<or> pacURL \<noteq> [] \<or> \<not> ManualProxyMap_Empty m), cf_IsPAC = (pacURL \<noteq> []),
       cf_AutoDetect = autoDetect\<rparr>)"

section \<open>Resolver\<close>

text \<open>A resolver holds a backend until it is closed; the backend's answer is an input.\<close>

record Resolver =
  rv_backend :: bool
  rv_timeout :: duration
  rv_closed :: bool

definition defaultResolverTimeout :: duration where "defaultResolverTimeout = 15 * second"

definition ErrResolverClosed :: goerr where "ErrResolverClosed = ErrMsg ''system proxy resolver is closed''"

definition newResolverWithBackend :: Resolver where
  "newResolverWithBackend = \<lparr>rv_backend = True, rv_timeout = defaultResolverTimeout, rv_closed = False\<rparr>"

definition ResolveProxyForURL ::
    "Resolver option \<Rightarrow> (duration \<Rightarrow> string \<Rightarrow> Config \<Rightarrow> goerr + string) \<Rightarrow> string \<Rightarrow> Config \<Rightarrow> goerr + string" where
  "ResolveProxyForURL r backend rawurl cfg =
     (if \<not> cf_AutoDetect cfg \<and> \<not> cf_IsPAC cfg then Inr []
      else case r of
        None \<Rightarrow> Inl ErrResolverClosed
      | Some rv \<Rightarrow>
          if rv_closed rv \<or> \<not> rv_backend rv then Inl ErrResolverClosed
          else backend (if rv_timeout rv \<le> 0 then defaultResolverTimeout else rv_timeout rv) rawurl cfg)"

text \<open>Closing: the state afterwards and whether the backend is closed by this call.\<close>

definition Resolver_Close :: "Resolver \<Rightarrow> Resolver \<times> bool" where
  "Resolver_Close r = (if rv_closed r then (r, False) else (r\<lparr>rv_closed := True\<rparr>, rv_backend r))"

section \<open>Lemmas\<close>

lemma set_tl_subset: "set (tl xs) \<subseteq> set xs"
  by (cases xs) auto

lemma cut_char_subset: "cut_char c s = (a, b, f) \<Longrightarrow> set a \<subseteq> set s \<and> set b \<subseteq> set s"
  using set_tl_subset [of "dropWhile (\<lambda>x. x \<noteq> c) s"]
  by (auto simp: cut_char_def split: if_splits dest: set_takeWhileD set_dropWhileD)

lemma manual_item_chars: "p \<in> set (manual_item raw) \<Longrightarrow> set p \<subseteq> set raw \<union> set ''socks5://''"
proof -
  assume p: "p \<in> set (manual_item raw)"
  obtain a b f where c: "cut_char (CHR ''='') (trim_space raw) = (a, b, f)" by (cases "cut_char (CHR ''='') (trim_space raw)") auto
  have sub: "set a \<subseteq> set raw" "set b \<subseteq> set raw"
    using cut_char_subset [OF c] trim_space_subset [of raw] by auto
  then have "set (trim_space b) \<subseteq> set raw" using trim_space_subset [of b] by auto
  then have "set (socks_default (trim_space b)) \<subseteq> set raw \<union> set ''socks5://''" by (auto simp: socks_default_def)
  with p c trim_space_subset [of raw] \<open>set (trim_space b) \<subseteq> set raw\<close> show ?thesis
    by (cases f) (auto simp: manual_item_def Let_def split: if_splits)
qed

lemma resolver_close_idem: "Resolver_Close (fst (Resolver_Close r)) = (fst (Resolver_Close r), False)"
  by (simp add: Resolver_Close_def)

lemma resolver_closed_fails:
  "cf_AutoDetect cfg \<or> cf_IsPAC cfg \<Longrightarrow>
   ResolveProxyForURL (Some (fst (Resolver_Close r))) backend url cfg = Inl ErrResolverClosed"
  by (auto simp: Resolver_Close_def ResolveProxyForURL_def)

section \<open>Properties\<close>

text \<open>A manual proxy setting becomes a clean list. Whatever the user typed, the entries of the
  comma-separated list are pairwise different, hold no separator (semicolon, space or comma), are
  in lower case, and each comes from one item of the setting.\<close>

theorem manual_proxy_entries:
  assumes "ParseManualProxyString s \<noteq> []"
  shows "distinct (split_on (CHR '','') (ParseManualProxyString s))
    \<and> list_all (\<lambda>p. list_all (\<lambda>c. c \<notin> set ''; ,'' \<and> lower_char c = c) p
        \<and> list_ex (\<lambda>item. p \<in> set (manual_item item)) (split_by (\<lambda>c. c \<in> set ''; ,'') (to_lower s)))
       (split_on (CHR '','') (ParseManualProxyString s))"
proof -
  define items where "items = filter (\<lambda>w. w \<noteq> []) (split_by (\<lambda>c. c \<in> set ''; ,'') (to_lower s))"
  define ps where "ps = rev (remdups (rev (concat (map manual_item items))))"
  have pm: "ParseManualProxyString s = join_with '','' ps" by (simp add: ParseManualProxyString_def items_def ps_def Let_def)
  have lows: "lower_char c = c \<and> c \<notin> set ''; ,''" if "c \<in> set ''socks5://''" for c
    using that by (auto simp: lower_char_def Let_def)
  have low: "lower_char c = c" if "c \<in> set (to_lower s)" for c
    using that lower_char_idem by (auto simp: to_lower_def)
  have chars: "c \<notin> set ''; ,'' \<and> lower_char c = c" if "p \<in> set ps" "c \<in> set p" for p c
  proof -
    from that(1) obtain item where item: "item \<in> set items" "p \<in> set (manual_item item)" by (auto simp: ps_def)
    with that(2) have "c \<in> set item \<or> c \<in> set ''socks5://''" using manual_item_chars [of p item] by blast
    then show ?thesis
      using item(1) split_by_elem [of item "\<lambda>c. c \<in> set ''; ,''" "to_lower s" c] lows low by (auto simp: items_def)
  qed
  have ne: "ps \<noteq> []" using assms pm by auto
  have "\<forall>p \<in> set ps. CHR '','' \<notin> set p" using chars by fastforce
  then have sp: "split_on (CHR '','') (ParseManualProxyString s) = ps" using pm ne by (simp add: split_join_on)
  have src: "list_ex (\<lambda>item. p \<in> set (manual_item item)) (split_by (\<lambda>c. c \<in> set ''; ,'') (to_lower s))" if "p \<in> set ps" for p
    using that by (auto simp: ps_def items_def list_ex_iff)
  have "distinct ps" by (simp add: ps_def)
  with sp chars src show ?thesis unfolding list_all_iff by (simp only:) blast
qed

theorem manual_proxy_entries_witness:
  "distinct (split_on (CHR '','') (ParseManualProxyString ''http=A:80;a:80 socks=b''))"
proof -
  have "ParseManualProxyString ''http=A:80;a:80 socks=b'' \<noteq> []" by code_simp
  from manual_proxy_entries [OF this] show ?thesis by (rule conjunct1)
qed

end
