(* ===== verification/Pac_Decode.thy ===== *)
theory Pac_Decode
  imports Go_Encoding
begin

text \<open>
  Decoding of PAC sources, \<^verbatim>\<open>internal/pac/pac.go\<close>: the choice of an encoding by name, content type
  or byte order mark, and the decoders for single-byte code pages, UTF-16 and UTF-32. Decoded text
  is a Go string, the UTF-8 bytes. \<^verbatim>\<open>mime.ParseMediaType\<close> is an argument of the definitions that
  use it: from a content type, the charset parameter or an error.
\<close>

section \<open>Decoders\<close>

definition latin1Encoding :: string where "latin1Encoding = ''latin1''"
definition cp1252Encoding :: string where "cp1252Encoding = ''cp1252''"
definition cp1251Encoding :: string where "cp1251Encoding = ''cp1251''"
definition autoEncoding :: string where "autoEncoding = ''auto''"

definition windows1252High :: "rune list" where
  "windows1252High =
    [0x20ac, 0x0081, 0x201a, 0x0192, 0x201e, 0x2026, 0x2020, 0x2021,
     0x02c6, 0x2030, 0x0160, 0x2039, 0x0152, 0x008d, 0x017d, 0x008f,
     0x0090, 0x2018, 0x2019, 0x201c, 0x201d, 0x2022, 0x2013, 0x2014,
     0x02dc, 0x2122, 0x0161, 0x203a, 0x0153, 0x009d, 0x017e, 0x0178]"

definition windows1251High :: "rune list" where
  "windows1251High =
    [0x0402, 0x0403, 0x201a, 0x0453, 0x201e, 0x2026, 0x2020, 0x2021,
     0x20ac, 0x2030, 0x0409, 0x2039, 0x040a, 0x040c, 0x040b, 0x040f,
     0x0452, 0x2018, 0x2019, 0x201c, 0x201d, 0x2022, 0x2013, 0x2014,
     0x0098, 0x2122, 0x0459, 0x203a, 0x045a, 0x045c, 0x045b, 0x045f,
     0x00a0, 0x040e, 0x045e, 0x0408, 0x00a4, 0x0490, 0x00a6, 0x00a7,
     0x0401, 0x00a9, 0x0404, 0x00ab, 0x00ac, 0x00ad, 0x00ae, 0x0407,
     0x00b0, 0x00b1, 0x0406, 0x0456, 0x0491, 0x00b5, 0x00b6, 0x00b7,
     0x0451, 0x2116, 0x0454, 0x00bb, 0x0458, 0x0405, 0x0455, 0x0457]"

text \<open>The loop body of \<^verbatim>\<open>decodeSingleByte\<close>: the rune of a byte, none for another code page.\<close>

definition single_rune :: "string \<Rightarrow> byte \<Rightarrow> rune list" where
  "single_rune name b =
     (let n = unat b in
      if name = latin1Encoding then [n]
      else if name = cp1252Encoding then (if 0x80 \<le> n \<and> n \<le> 0x9f then [windows1252High ! (n - 0x80)] else [n])
      else if name = cp1251Encoding then
        (if n < 0x80 then [n] else if n < 0xc0 then [windows1251High ! (n - 0x80)] else [0x0410 + (n - 0xc0)])
      else [])"

definition decodeSingleByte :: "byte list \<Rightarrow> string \<Rightarrow> gotext" where
  "decodeSingleByte data name = string_of_runes (concat (map (single_rune name) data))"

definition decodeSingleByteStrict :: "byte list \<Rightarrow> string \<Rightarrow> gotext option" where
  "decodeSingleByteStrict data name =
     (if list_ex (\<lambda>b. (name = cp1252Encoding \<and> unat b \<in> set [0x81, 0x8d, 0x8f, 0x90, 0x9d])
                    \<or> (name = cp1251Encoding \<and> unat b = 0x98)) data
      then None else Some (decodeSingleByte data name))"

fun utf16_loop :: "nat list \<Rightarrow> goerr + rune list" where
  "utf16_loop [] = Inr []"
| "utf16_loop (u # us) =
     (if 0xd800 \<le> u \<and> u \<le> 0xdbff then
        (case us of
           v # vs \<Rightarrow>
             if v < 0xdc00 \<or> v > 0xdfff then Inl (ErrMsg ''PAC UTF-16 source has invalid surrogate pair'')
             else (case utf16_loop vs of Inl e \<Rightarrow> Inl e
                   | Inr rs \<Rightarrow> Inr (((u - 0xd800) * 0x400 + (v - 0xdc00) + 0x10000) # rs))
         | [] \<Rightarrow> Inl (ErrMsg ''PAC UTF-16 source has invalid surrogate pair''))
      else if 0xdc00 \<le> u \<and> u \<le> 0xdfff then Inl (ErrMsg ''PAC UTF-16 source has unexpected low surrogate'')
      else (case utf16_loop us of Inl e \<Rightarrow> Inl e | Inr rs \<Rightarrow> Inr (u # rs)))"

definition utf16_units :: "ByteOrder \<Rightarrow> byte list \<Rightarrow> goerr + gotext" where
  "utf16_units order data =
     (if length data mod 2 \<noteq> 0 then Inl (ErrMsg ''PAC UTF-16 source has odd byte length'')
      else case utf16_loop (units16 order data) of Inl e \<Rightarrow> Inl e | Inr rs \<Rightarrow> Inr (string_of_runes rs))"

definition decodeUTF16 :: "byte list \<Rightarrow> ByteOrder option \<Rightarrow> bool \<Rightarrow> goerr + gotext" where
  "decodeUTF16 data order requireBOM =
     (if bytes_HasPrefix data [0xff, 0xfe] then utf16_units LittleEndian (drop 2 data)
      else if bytes_HasPrefix data [0xfe, 0xff] then utf16_units BigEndian (drop 2 data)
      else if requireBOM then Inl (ErrMsg ''PAC UTF-16 source is missing BOM'')
      else case order of
        None \<Rightarrow> Inl (ErrMsg ''PAC UTF-16 byte order is unspecified'')
      | Some ord \<Rightarrow> utf16_units ord data)"

definition decodeUTF32 :: "byte list \<Rightarrow> ByteOrder \<Rightarrow> goerr + gotext" where
  "decodeUTF32 data order =
     (if length data mod 4 \<noteq> 0 then Inl (ErrMsg ''PAC UTF-32 source has invalid byte length'')
      else let values = units32 order data in
        if list_ex (\<lambda>v. v > 0x10FFFF \<or> (0xd800 \<le> v \<and> v \<le> 0xdfff)) values
        then Inl (ErrMsg ''PAC UTF-32 source contains invalid code point'')
        else Inr (string_of_runes values))"

section \<open>Choice of the decoder\<close>

definition contentTypeCharset :: "(string \<Rightarrow> string option) \<Rightarrow> string \<Rightarrow> string" where
  "contentTypeCharset ParseMediaType contentType =
     (if trim_space contentType = [] then []
      else case ParseMediaType contentType of None \<Rightarrow> [] | Some charset \<Rightarrow> trim_space charset)"

definition bom32be :: "byte list" where "bom32be = [0x00, 0x00, 0xfe, 0xff]"
definition bom32le :: "byte list" where "bom32le = [0xff, 0xfe, 0x00, 0x00]"
definition bom8 :: "byte list" where "bom8 = [0xef, 0xbb, 0xbf]"

definition decode_auto :: "byte list \<Rightarrow> goerr + gotext" where
  "decode_auto data =
     (if bytes_HasPrefix data bom32be then decodeUTF32 (drop 4 data) BigEndian
      else if bytes_HasPrefix data bom32le then decodeUTF32 (drop 4 data) LittleEndian
      else if bytes_HasPrefix data bom8 then Inr (bytes_TrimPrefix data bom8)
      else if bytes_HasPrefix data [0xff, 0xfe] \<or> bytes_HasPrefix data [0xfe, 0xff] then decodeUTF16 data None True
      else if utf8_Valid data then Inr data
      else case decodeSingleByteStrict data cp1252Encoding of
        Some out \<Rightarrow> Inr out
      | None \<Rightarrow> (case decodeSingleByteStrict data cp1251Encoding of
          Some out \<Rightarrow> Inr out
        | None \<Rightarrow> Inr (decodeSingleByte data latin1Encoding)))"

definition decode_named :: "byte list \<Rightarrow> string \<Rightarrow> goerr + gotext" where
  "decode_named data name =
     (if name \<in> set [''ascii'', ''us-ascii''] then
        (if list_ex (\<lambda>b. unat b > 0x7f) data then Inl (ErrMsg ''PAC source is not valid ASCII'') else Inr data)
      else if name \<in> set [''utf-8'', ''utf8'', ''utf-8-sig''] then
        (let data = bytes_TrimPrefix data bom8 in
         if \<not> utf8_Valid data then Inl (ErrMsg ''PAC source is not valid UTF-8'') else Inr data)
      else if name \<in> set [''latin-1'', latin1Encoding, ''iso-8859-1'', ''iso8859-1''] then Inr (decodeSingleByte data latin1Encoding)
      else if name \<in> set [cp1252Encoding, ''windows-1252'', ''windows1252''] then Inr (decodeSingleByte data cp1252Encoding)
      else if name \<in> set [cp1251Encoding, ''windows-1251'', ''windows1251''] then Inr (decodeSingleByte data cp1251Encoding)
      else if name \<in> set [''utf-16'', ''utf16''] then decodeUTF16 data None True
      else if name \<in> set [''utf-16le'', ''utf16le''] then decodeUTF16 data (Some LittleEndian) False
      else if name \<in> set [''utf-16be'', ''utf16be''] then decodeUTF16 data (Some BigEndian) False
      else if name \<in> set [''utf-32'', ''utf32''] then
        (if bytes_HasPrefix data bom32be then decodeUTF32 (drop 4 data) BigEndian
         else if bytes_HasPrefix data bom32le then decodeUTF32 (drop 4 data) LittleEndian
         else Inl (ErrMsg ''PAC UTF-32 source is missing BOM''))
      else if name \<in> set [''utf-32le'', ''utf32le''] then decodeUTF32 (bytes_TrimPrefix data bom32le) LittleEndian
      else if name \<in> set [''utf-32be'', ''utf32be''] then decodeUTF32 (bytes_TrimPrefix data bom32be) BigEndian
      else Inl (Wrapped name (ErrMsg ''unsupported PAC encoding'')))"

definition encoding_name :: "string \<Rightarrow> string" where
  "encoding_name name =
     (let name = map (\<lambda>c. if c = CHR ''_'' then CHR ''-'' else c) (to_lower (trim_space name))
      in if name = [] then autoEncoding else name)"

lemma charset_content: "contentTypeCharset pm ct \<noteq> [] \<Longrightarrow> ct \<noteq> []"
  by (auto simp: contentTypeCharset_def trim_space_def)

function decodePAC :: "(string \<Rightarrow> string option) \<Rightarrow> byte list \<Rightarrow> string \<Rightarrow> string \<Rightarrow> goerr + gotext" where
  "decodePAC pm data name contentType =
     (if encoding_name name = autoEncoding then
        (let charset = contentTypeCharset pm contentType in
         if charset \<noteq> [] then decodePAC pm data charset [] else decode_auto data)
      else decode_named data (encoding_name name))"
  by auto
termination
  by (relation "measure (\<lambda>(_, _, _, ct). length ct)") (auto dest: charset_content)

declare decodePAC.simps [simp del]

section \<open>Lemmas\<close>

definition encode_utf16 :: "ByteOrder \<Rightarrow> rune list \<Rightarrow> byte list" where
  "encode_utf16 order rs = bytes16 order 0xFEFF @ concat (map (bytes16 order) (concat (map utf16_of rs)))"

definition encode_utf32 :: "ByteOrder \<Rightarrow> rune list \<Rightarrow> byte list" where
  "encode_utf32 order rs = bytes32 order 0xFEFF @ concat (map (bytes32 order) rs)"

lemma utf16_loop_of: "list_all scalar rs \<Longrightarrow> utf16_loop (concat (map utf16_of rs)) = Inr rs"
proof (induction rs)
  case (Cons r rs)
  show ?case
  proof (cases "r < 0x10000")
    case True
    with Cons show ?thesis by (auto simp: utf16_of_def scalar_def)
  next
    case False
    define x where "x = r - 0x10000"
    have x: "x < 0x100000" "r = x + 0x10000" using False Cons.prems by (auto simp: x_def scalar_def)
    then have "x div 0x400 \<le> 1023" "x mod 0x400 \<le> 1023"
      using less_mult_imp_div_less [of x 1024 1024] mod_less_divisor [of 1024 x] by linarith+
    moreover have "x div 0x400 * 0x400 + x mod 0x400 = x" by simp
    ultimately show ?thesis using Cons False x by (simp add: utf16_of_def x_def [symmetric])
  qed
qed simp

lemma utf16_units_encode:
  "list_all scalar rs \<Longrightarrow>
   utf16_units order (concat (map (bytes16 order) (concat (map utf16_of rs)))) = Inr (string_of_runes rs)"
proof -
  assume sc: "list_all scalar rs"
  then have "\<forall>u \<in> set (concat (map utf16_of rs)). u < 65536" by (auto simp: list_all_iff dest: utf16_of_small)
  then have "units16 order (concat (map (bytes16 order) (concat (map utf16_of rs)))) = concat (map utf16_of rs)"
    by (rule units16_bytes)
  with sc show ?thesis by (simp only: utf16_units_def bytes16_length utf16_loop_of) simp
qed

lemma marks: "bytes16 LittleEndian 0xFEFF = [0xff, 0xfe]" "bytes16 BigEndian 0xFEFF = [0xfe, 0xff]"
  "bytes32 LittleEndian 0xFEFF = bom32le" "bytes32 BigEndian 0xFEFF = bom32be"
  by (simp_all add: bom32le_def bom32be_def)

lemma HasPrefix_append [simp]: "bytes_HasPrefix (p @ x) p"
  by (simp add: bytes_HasPrefix_def)

lemma bom_prefixes:
  "bytes_HasPrefix ([0xff, 0xfe] @ x) [0xfe, 0xff] = False" "bytes_HasPrefix ([0xff, 0xfe] @ x) bom32be = False"
  "bytes_HasPrefix ([0xfe, 0xff] @ x) [0xff, 0xfe] = False" "bytes_HasPrefix ([0xfe, 0xff] @ x) bom32be = False"
  "bytes_HasPrefix ([0xff, 0xfe] @ x) bom8 = False" "bytes_HasPrefix ([0xfe, 0xff] @ x) bom8 = False"
  "bytes_HasPrefix ([0xfe, 0xff] @ x) bom32le = False" "bytes_HasPrefix (bom32le @ x) bom32be = False"
  by (simp_all add: bytes_HasPrefix_def bom32le_def bom32be_def bom8_def)

lemma bom_drop: "drop 4 (bom32le @ x) = x" "drop 4 (bom32be @ x) = x" "drop 2 ([a, b] @ x) = x"
  by (simp_all add: bom32le_def bom32be_def)

lemma decodeUTF16_encode:
  "list_all scalar rs \<Longrightarrow> decodeUTF16 (encode_utf16 order rs) order' bom = Inr (string_of_runes rs)"
  using utf16_units_encode [of rs order]
  by (cases order) (simp_all only: decodeUTF16_def encode_utf16_def marks bom_prefixes HasPrefix_append bom_drop if_True if_False)

lemma decodeUTF32_encode:
  assumes "list_all scalar rs"
  shows "decodeUTF32 (concat (map (bytes32 order) rs)) order = Inr (string_of_runes rs)"
proof -
  have "\<forall>u \<in> set rs. u < 0x110000" using assms by (auto simp: list_all_iff scalar_def)
  then have "units32 order (concat (map (bytes32 order) rs)) = rs" by (rule units32_bytes)
  moreover have "\<not> list_ex (\<lambda>v. v > 0x10FFFF \<or> (0xd800 \<le> v \<and> v \<le> 0xdfff)) rs"
    using assms by (auto simp: list_ex_iff list_all_iff scalar_def)
  ultimately show ?thesis by (simp add: decodeUTF32_def Let_def)
qed

lemma first_unit_zero:
  assumes "list_all scalar rs" "bytes_HasPrefix (encode_utf16 LittleEndian rs) bom32le"
  shows "rs \<noteq> [] \<and> hd rs = 0"
proof (cases rs)
  case Nil
  with assms(2) show ?thesis by (simp add: encode_utf16_def bytes_HasPrefix_def bom32le_def)
next
  case (Cons r rs')
  define u rest where "u = hd (utf16_of r)" and "rest = tl (utf16_of r) @ concat (map utf16_of rs')"
  have us: "concat (map utf16_of rs) = u # rest" using Cons by (simp add: u_def rest_def utf16_of_def)
  have "u < 65536" using assms(1) Cons utf16_of_small [of r u] by (simp add: u_def utf16_of_def split: if_splits)
  then have small: "u div 256 < 256" by (simp add: less_mult_imp_div_less)
  have "prefix bom32le ([0xff, 0xfe] @ bytes16 LittleEndian u @ concat (map (bytes16 LittleEndian) rest))"
    using assms(2) by (simp only: encode_utf16_def bytes_HasPrefix_def us marks list.map concat.simps)
  then have "(of_nat (u mod 256) :: byte) = 0" "(of_nat (u div 256) :: byte) = 0"
    by (simp_all add: bom32le_def del: of_nat_eq_0_iff)
  then have "u mod 256 = 0" "u div 256 = 0"
    using unat_byte_of_nat [of "u mod 256"] unat_byte_of_nat [OF small] by simp_all
  then have "u = 0" by (metis div_mult_mod_eq mult_0 add_0)
  with Cons show ?thesis by (auto simp: u_def utf16_of_def split: if_splits)
qed

text \<open>Every byte of a code page has exactly one rune.\<close>

lemma single_rune_one:
  "name \<in> set [latin1Encoding, cp1252Encoding, cp1251Encoding] \<Longrightarrow> length (single_rune name b) = 1"
  by (auto simp: single_rune_def Let_def latin1Encoding_def cp1252Encoding_def cp1251Encoding_def)

text \<open>What is decoded is valid UTF-8, decoder by decoder.\<close>

definition gives_valid :: "goerr + gotext \<Rightarrow> bool" where
  "gives_valid res \<longleftrightarrow> (\<forall>out. res = Inr out \<longrightarrow> utf8_Valid out)"

lemma gives_valid_if: "(p \<Longrightarrow> gives_valid a) \<Longrightarrow> (\<not> p \<Longrightarrow> gives_valid b) \<Longrightarrow> gives_valid (if p then a else b)"
  by simp

lemma gives_valid_Inl: "gives_valid (Inl e)"
  by (simp add: gives_valid_def)

lemma gives_valid_Inr: "utf8_Valid out \<Longrightarrow> gives_valid (Inr out)"
  by (simp add: gives_valid_def)

lemma gives_valid_utf16: "gives_valid (decodeUTF16 data order bom)"
  by (auto simp: gives_valid_def decodeUTF16_def utf16_units_def valid_runes split: if_splits option.splits sum.splits)

lemma gives_valid_utf32: "gives_valid (decodeUTF32 data order)"
  by (auto simp: gives_valid_def decodeUTF32_def valid_runes Let_def split: if_splits)

lemma valid_single: "utf8_Valid (decodeSingleByte data name)"
  by (simp add: decodeSingleByte_def valid_runes)

lemmas gives_valid_rules = gives_valid_if gives_valid_Inl gives_valid_Inr gives_valid_utf16 gives_valid_utf32 valid_single

lemma decode_named_valid: "gives_valid (decode_named data name)"
  unfolding decode_named_def Let_def
  by (intro gives_valid_rules) (simp_all add: valid_ascii)

lemma decode_auto_valid: "\<not> bytes_HasPrefix data bom8 \<Longrightarrow> gives_valid (decode_auto data)"
  unfolding decode_auto_def
  by (auto simp: decodeSingleByteStrict_def intro!: gives_valid_rules)

lemma decode_auto_bom8: "bytes_HasPrefix data bom8 \<Longrightarrow> decode_auto data = Inr (drop 3 data)"
  by (auto simp: decode_auto_def bytes_HasPrefix_def bytes_TrimPrefix_def bom8_def bom32be_def bom32le_def prefix_def)

section \<open>Properties\<close>

text \<open>A PAC source that carries a UTF-16 or UTF-32 byte order mark decodes to its text. For every
  sequence of Unicode scalar values, its encoding in either byte order after the mark, decoded
  with automatic detection and no charset in the content type, is the text in UTF-8; little-endian
  UTF-16 text must not start with U+0000, since its first bytes are then the UTF-32 mark.\<close>

theorem pac_bom_roundtrip:
  assumes "list_all scalar rs" "encoding_name name = autoEncoding" "contentTypeCharset pm ct = []"
  shows "decodePAC pm (encode_utf32 order rs) name ct = Inr (string_of_runes rs)
    \<and> (order = BigEndian \<or> rs = [] \<or> hd rs \<noteq> 0 \<longrightarrow>
         decodePAC pm (encode_utf16 order rs) name ct = Inr (string_of_runes rs))"
proof -
  have "decode_auto (encode_utf32 order rs) = Inr (string_of_runes rs)"
    using decodeUTF32_encode [OF assms(1), of order]
    by (cases order)
      (simp_all only: decode_auto_def encode_utf32_def marks HasPrefix_append bom_drop bom_prefixes if_True if_False)
  moreover have "decode_auto (encode_utf16 order rs) = Inr (string_of_runes rs)"
    if "order = BigEndian \<or> rs = [] \<or> hd rs \<noteq> 0"
  proof (cases order)
    case LittleEndian
    with that have "\<not> bytes_HasPrefix (encode_utf16 LittleEndian rs) bom32le"
      using first_unit_zero [OF assms(1)] by auto
    with LittleEndian decodeUTF16_encode [OF assms(1), of LittleEndian] show ?thesis
      by (simp only: decode_auto_def encode_utf16_def marks HasPrefix_append bom_prefixes if_True if_False simp_thms)
  next
    case BigEndian
    with decodeUTF16_encode [OF assms(1), of BigEndian] show ?thesis
      by (simp only: decode_auto_def encode_utf16_def marks HasPrefix_append bom_prefixes if_True if_False simp_thms)
  qed
  ultimately show ?thesis using assms(2,3) by (simp add: decodePAC.simps)
qed

theorem pac_bom_roundtrip_witness:
  "decodePAC (\<lambda>_. None) (encode_utf32 BigEndian [0x66, 0x1F600]) ''auto'' [] = Inr (string_of_runes [0x66, 0x1F600])
   \<and> decodePAC (\<lambda>_. None) (encode_utf16 LittleEndian [0x66, 0x1F600]) ''auto'' [] = Inr (string_of_runes [0x66, 0x1F600])"
  using pac_bom_roundtrip [of "[0x66, 0x1F600]" "''auto''" "\<lambda>_. None" "[]" BigEndian]
    pac_bom_roundtrip [of "[0x66, 0x1F600]" "''auto''" "\<lambda>_. None" "[]" LittleEndian]
  by (simp add: scalar_def encoding_name_def autoEncoding_def to_lower_def lower_char_def trim_space_def
      go_space_def contentTypeCharset_def trim_right_by_def Let_def)

text \<open>Decoded PAC text is valid UTF-8. Whatever encoding is named or detected and whatever the
  bytes are, a decoded text is valid UTF-8, except for a source with a UTF-8 byte order mark under
  automatic detection, which is passed through unchecked.\<close>

theorem pac_decoded_valid:
  assumes "decodePAC pm data name ct = Inr out"
  shows "utf8_Valid out \<or> (bytes_HasPrefix data bom8 \<and> out = drop 3 data)"
  using assms
proof (induction pm data name ct rule: decodePAC.induct)
  case (1 pm data name ct)
  then show ?case
    using decode_auto_valid [of data] decode_auto_bom8 [of data] decode_named_valid [of data "encoding_name name"]
    by (auto simp: gives_valid_def decodePAC.simps [of pm data name ct] Let_def split: if_splits)
qed

theorem pac_decoded_valid_witness:
  "utf8_Valid (decodeSingleByte [0x66, 0xE9] latin1Encoding)"
proof -
  have "encoding_name ''latin1'' = ''latin1''" "''latin1'' \<noteq> autoEncoding" by code_simp+
  moreover have "decode_named [0x66, 0xE9] ''latin1'' = Inr (decodeSingleByte [0x66, 0xE9] latin1Encoding)"
    by (simp add: decode_named_def latin1Encoding_def)
  ultimately have "decodePAC (\<lambda>_. None) [0x66, 0xE9] ''latin1'' [] = Inr (decodeSingleByte [0x66, 0xE9] latin1Encoding)"
    by (simp add: decodePAC.simps)
  from pac_decoded_valid [OF this] show ?thesis by (simp add: bytes_HasPrefix_def bom8_def)
qed

end
