(* ===== verification/Dnscache.thy ===== *)
theory Dnscache
  imports Go_Prelude "HOL-Library.Char_ord" "HOL-Library.List_Lexorder"
begin

text \<open>
  The DNS cache, \<^verbatim>\<open>internal/dnscache/dnscache.go\<close>. \<^verbatim>\<open>LookupContext\<close> is split at its critical
  sections: the read under the shared lock, the section that returns a hit, joins a call in
  flight or starts one, and the section that stores the answer of the resolver and wakes the
  waiters. Concurrent lookups and network epochs are the interleavings of these sections, the
  transitions of \<open>dns_step\<close>. A \<^verbatim>\<open>*lookupCall\<close> is an index into the list of all calls made. The
  answer of the resolver, the clock and the state of the caller's context are inputs; defensive
  copies are the values themselves, and a nil slice of addresses is \<^term>\<open>None\<close>.
\<close>

section \<open>State\<close>

definition positiveTTL :: duration where "positiveTTL = 60 * second"
definition minPositiveTTL :: duration where "minPositiveTTL = second"
definition maxPositiveTTL :: duration where "maxPositiveTTL = hour"
definition negativeTTL :: duration where "negativeTTL = 5 * second"
definition maxEntries :: nat where "maxEntries = 4096"

lemmas dns_consts = positiveTTL_def minPositiveTTL_def maxPositiveTTL_def negativeTTL_def maxEntries_def

type_synonym ips = "byte list list option"

record entry =
  en_ips :: ips
  en_err :: "goerr option"
  en_expires :: gotime

record lookupCall =
  lc_host :: string
  lc_generation :: u64
  lc_done :: bool
  lc_ips :: ips
  lc_err :: "goerr option"

record Cache =
  dc_cache :: "(string, entry) gomap"
  dc_inflight :: "(string, nat) gomap"
  dc_generation :: u64
  dc_hasTTL :: bool
  dc_calls :: "lookupCall list"

definition New :: Cache where
  "New = \<lparr>dc_cache = [], dc_inflight = [], dc_generation = 0, dc_hasTTL = False, dc_calls = []\<rparr>"

definition NewWithTTL :: Cache where
  "NewWithTTL = New\<lparr>dc_hasTTL := True\<rparr>"

section \<open>Eviction\<close>

definition victim_of :: "(string, entry) gomap \<Rightarrow> string \<times> gotime" where
  "victim_of m = foldl (\<lambda>(victim, oldest) (host, e).
     if victim = [] \<or> before (en_expires e) oldest \<or> (en_expires e = oldest \<and> host < victim)
     then (host, en_expires e) else (victim, oldest)) ([], 0) m"

lemma victim_in: "fst (victim_of m) \<noteq> [] \<Longrightarrow> fst (victim_of m) \<in> fst ` set m"
proof (induction m rule: rev_induct)
  case (snoc x m)
  then show ?case
    by (cases "victim_of m"; cases x) (auto simp: victim_of_def split: if_splits)
qed (simp add: victim_of_def)

lemma gm_del_subset: "set (gm_del k m) \<subseteq> set m"
  by (auto simp: AList.delete_eq)

lemma gm_del_set: "set (gm_del k m) = {x \<in> set m. fst x \<noteq> k}"
  by (auto simp: AList.delete_eq)

lemma gm_del_shorter: "k \<in> fst ` set m \<Longrightarrow> length (gm_del k m) < length m"
proof (induction m)
  case (Cons x m)
  then show ?case
    by (cases "fst x = k") (auto simp: AList.delete_eq less_Suc_eq_le Suc_le_eq split_beta)
qed simp

function evict_oldest :: "(string, entry) gomap \<Rightarrow> (string, entry) gomap" where
  "evict_oldest m =
     (if length m \<ge> maxEntries then
        (let victim = fst (victim_of m) in
         if victim = [] then m else evict_oldest (gm_del victim m))
      else m)"
  by auto
termination
  by (relation "measure length") (auto intro: gm_del_shorter victim_in)

declare evict_oldest.simps [simp del]

definition evictLocked :: "(string, entry) gomap \<Rightarrow> gotime \<Rightarrow> (string, entry) gomap" where
  "evictLocked m now = evict_oldest (filter (\<lambda>(host, e). before now (en_expires e)) m)"

section \<open>Lookup\<close>

datatype lookup_begin = Hit ips "goerr option" | JoinCall nat | StartCall nat

text \<open>The read under the shared lock.\<close>

definition cache_hit :: "Cache \<Rightarrow> gotime \<Rightarrow> string \<Rightarrow> (ips \<times> goerr option) option" where
  "cache_hit c now host =
     (case gm_get (dc_cache c) host of
        Some e \<Rightarrow> if before now (en_expires e) then Some (en_ips e, en_err e) else None
      | None \<Rightarrow> None)"

text \<open>The section that decides between a hit, joining a call and starting one.\<close>

definition LookupContext_begin :: "Cache \<Rightarrow> gotime \<Rightarrow> string \<Rightarrow> Cache \<times> lookup_begin" where
  "LookupContext_begin c now host =
     (case cache_hit c now host of
        Some (ips, err) \<Rightarrow> (c, Hit ips err)
      | None \<Rightarrow>
          (case gm_get (dc_inflight c) host of
             Some call \<Rightarrow> (c, JoinCall call)
           | None \<Rightarrow>
               let call = length (dc_calls c) in
               (c\<lparr>dc_calls := dc_calls c @ [\<lparr>lc_host = host, lc_generation = dc_generation c, lc_done = False,
                    lc_ips = None, lc_err = None\<rparr>],
                  dc_inflight := gm_put host call (dc_inflight c)\<rparr>, StartCall call)))"

text \<open>What the resolver and the context say when a started call returns.\<close>

record answer =
  an_ips :: ips
  an_ttl :: duration
  an_err :: "goerr option"
  an_cancelled :: bool

definition effective_ttl :: "bool \<Rightarrow> answer \<Rightarrow> duration" where
  "effective_ttl hasTTL a =
     (if an_err a \<noteq> None then negativeTTL
      else if hasTTL then (if an_ttl a > 0 then max minPositiveTTL (min (an_ttl a) maxPositiveTTL) else an_ttl a)
      else positiveTTL)"

definition LookupContext_finish :: "Cache \<Rightarrow> nat \<Rightarrow> answer \<Rightarrow> gotime \<Rightarrow> Cache \<times> ips \<times> goerr option" where
  "LookupContext_finish c call a completedAt =
     (let host = lc_host (dc_calls c ! call);
          stored = (if an_err a \<noteq> None then None else an_ips a);
          ttl = effective_ttl (dc_hasTTL c) a;
          cacheable = (\<not> an_cancelled a \<and> (an_err a \<noteq> None \<or> \<not> dc_hasTTL c \<or> ttl > 0));
          c = (if cacheable \<and> lc_generation (dc_calls c ! call) = dc_generation c
               then c\<lparr>dc_cache := gm_put host \<lparr>en_ips = stored, en_err = an_err a, en_expires = completedAt + ttl\<rparr>
                        (if length (dc_cache c) \<ge> maxEntries then evictLocked (dc_cache c) completedAt else dc_cache c)\<rparr>
               else c);
          c = c\<lparr>dc_calls := (dc_calls c)[call := (dc_calls c ! call)\<lparr>lc_done := True, lc_ips := stored, lc_err := an_err a\<rparr>]\<rparr>;
          c = (if gm_get (dc_inflight c) host = Some call then c\<lparr>dc_inflight := gm_del host (dc_inflight c)\<rparr> else c)
      in (c, stored, an_err a))"

text \<open>A waiter: it still waits (None), or returns the call's result, or its context's error. When the call has returned
  and the context is done, \<^verbatim>\<open>select\<close> takes either case: \<open>pick\<close> is that it takes the call.\<close>

definition LookupContext_join :: "Cache \<Rightarrow> nat \<Rightarrow> goerr option \<Rightarrow> bool \<Rightarrow> (ips \<times> goerr option) option" where
  "LookupContext_join c call ctxErr pick =
     (if lc_done (dc_calls c ! call) \<and> (ctxErr = None \<or> pick) then Some (lc_ips (dc_calls c ! call), lc_err (dc_calls c ! call))
      else case ctxErr of Some e \<Rightarrow> Some (None, Some e) | None \<Rightarrow> None)"

definition ClearNetworkState :: "Cache \<Rightarrow> Cache" where
  "ClearNetworkState c = c\<lparr>dc_generation := dc_generation c + 1, dc_cache := [], dc_inflight := []\<rparr>"

text \<open>A lookup that no other one interleaves with: the result and the state afterwards. \<open>None\<close> as
  the result means that it waits for another call; \<open>pick\<close> is as above.\<close>

definition LookupContext ::
    "Cache \<Rightarrow> gotime \<Rightarrow> gotime \<Rightarrow> string \<Rightarrow> (string \<Rightarrow> answer) \<Rightarrow> gotime \<Rightarrow> goerr option \<Rightarrow> bool \<Rightarrow> Cache \<times> (ips \<times> goerr option) option" where
  "LookupContext c now1 now2 host resolver completedAt ctxErr pick =
     (case cache_hit c now1 host of
        Some r \<Rightarrow> (c, Some r)
      | None \<Rightarrow>
          (case LookupContext_begin c now2 host of
             (c, Hit ips err) \<Rightarrow> (c, Some (ips, err))
           | (c, JoinCall call) \<Rightarrow> (c, LookupContext_join c call ctxErr pick)
           | (c, StartCall call) \<Rightarrow>
               (case LookupContext_finish c call (resolver host) completedAt of (c, r) \<Rightarrow> (c, Some r))))"

section \<open>Interleavings\<close>

inductive dns_step :: "Cache \<Rightarrow> nat \<Rightarrow> Cache \<Rightarrow> bool" where
  begin_step: "dns_step c 0 (fst (LookupContext_begin c now host))"
| finish_step: "call < length (dc_calls c) \<Longrightarrow> \<not> lc_done (dc_calls c ! call) \<Longrightarrow>
    dns_step c 0 (fst (LookupContext_finish c call a completedAt))"
| clear_step: "dns_step c 1 (ClearNetworkState c)"

inductive_cases dns_stepE: "dns_step c k c'"

text \<open>What is reached from a state, with the number of network epochs on the way.\<close>

inductive reaches :: "Cache \<Rightarrow> nat \<Rightarrow> Cache \<Rightarrow> bool" for c0 where
  reach_init: "reaches c0 0 c0"
| reach_step: "reaches c0 n c \<Longrightarrow> dns_step c k c' \<Longrightarrow> reaches c0 (n + k) c'"

section \<open>Lemmas\<close>

lemma gm_put_length: "gm_ok m \<Longrightarrow> length (gm_put k v m) \<le> Suc (length m)"
  by (simp add: gm_len_put)

lemma evict_oldest_subset: "set (evict_oldest m) \<subseteq> set m"
proof (induction m rule: evict_oldest.induct)
  case (1 m)
  then show ?case using gm_del_subset [of "fst (victim_of m)" m] by (subst evict_oldest.simps) (auto simp: Let_def)
qed

lemma evict_oldest_ok: "gm_ok m \<Longrightarrow> gm_ok (evict_oldest m)"
proof (induction m rule: evict_oldest.induct)
  case (1 m)
  then show ?case by (subst evict_oldest.simps) (auto simp: Let_def gm_ok_del)
qed

lemma victim_empty: "\<forall>(h, e) \<in> set m. h \<noteq> [] \<Longrightarrow> fst (victim_of m) = [] \<Longrightarrow> m = []"
proof (induction m rule: rev_induct)
  case (snoc x m)
  then show ?case
    by (cases "victim_of m"; cases x) (auto simp: victim_of_def split: if_splits)
qed simp

lemma evict_oldest_length: "\<forall>(h, e) \<in> set m. h \<noteq> [] \<Longrightarrow> length (evict_oldest m) < maxEntries"
proof (induction m rule: evict_oldest.induct)
  case (1 m)
  show ?case
  proof (cases "length m \<ge> maxEntries")
    case True
    then have "m \<noteq> []" by (auto simp: maxEntries_def)
    with victim_empty [of m] 1(2) have "fst (victim_of m) \<noteq> []" by blast
    moreover have "\<forall>(h, e) \<in> set (gm_del (fst (victim_of m)) m). h \<noteq> []"
      using 1(2) gm_del_subset by fast
    ultimately show ?thesis using 1(1) True by (subst evict_oldest.simps) (simp add: Let_def)
  qed (subst evict_oldest.simps, simp)
qed

lemma gm_ok_filter: "gm_ok m \<Longrightarrow> gm_ok (filter P m)"
  by (simp add: distinct_map_filter)

lemma evictLocked_ok: "gm_ok m \<Longrightarrow> gm_ok (evictLocked m now)"
  by (simp add: evictLocked_def evict_oldest_ok gm_ok_filter)

lemma evictLocked_subset: "set (evictLocked m now) \<subseteq> {(h, e) \<in> set m. now < en_expires e}"
  using evict_oldest_subset by (fastforce simp: evictLocked_def go_time)

lemma evictLocked_length: "\<forall>(h, e) \<in> set m. h \<noteq> [] \<Longrightarrow> length (evictLocked m now) < maxEntries"
  by (auto simp: evictLocked_def intro!: evict_oldest_length)

text \<open>The invariant: the cache is a map whose hosts were looked up, with at most \<^term>\<open>maxEntries\<close> entries as long as nobody
  asks for the empty host, and every call in flight is one that has not returned, was made for the host it is filed
  under, and belongs to the current generation.\<close>

definition flight_ok :: "Cache \<Rightarrow> bool" where
  "flight_ok c \<longleftrightarrow> gm_ok (dc_inflight c) \<and> (\<forall>(h, call) \<in> set (dc_inflight c).
     call < length (dc_calls c) \<and> \<not> lc_done (dc_calls c ! call) \<and> lc_host (dc_calls c ! call) = h
     \<and> lc_generation (dc_calls c ! call) = dc_generation c)"

definition named :: "Cache \<Rightarrow> bool" where
  "named c \<longleftrightarrow> list_all (\<lambda>call. lc_host call \<noteq> []) (dc_calls c)"

definition dns_ok :: "Cache \<Rightarrow> bool" where
  "dns_ok c \<longleftrightarrow> gm_ok (dc_cache c) \<and> fst ` set (dc_cache c) \<subseteq> lc_host ` set (dc_calls c)
     \<and> (named c \<longrightarrow> length (dc_cache c) \<le> maxEntries) \<and> flight_ok c"

lemma begin_flight_ok: "flight_ok c \<Longrightarrow> flight_ok (fst (LookupContext_begin c now host))"
  by (fastforce simp: LookupContext_begin_def flight_ok_def Let_def nth_append less_Suc_eq
      split: option.splits dest: gm_in_put)

lemma begin_ok: "dns_ok c \<Longrightarrow> dns_ok (fst (LookupContext_begin c now host))"
  using begin_flight_ok [of c now host]
  by (auto simp: LookupContext_begin_def dns_ok_def named_def Let_def split: option.splits)

lemma clear_ok: "dns_ok (ClearNetworkState c)"
  by (simp add: ClearNetworkState_def dns_ok_def flight_ok_def)

text \<open>What the end of a call does to each part of the state.\<close>

lemma finish_calls:
  "dc_calls (fst (LookupContext_finish c call a t)) = (dc_calls c)[call := (dc_calls c ! call)
     \<lparr>lc_done := True, lc_ips := if an_err a \<noteq> None then None else an_ips a, lc_err := an_err a\<rparr>]"
  by (simp add: LookupContext_finish_def Let_def)

lemma finish_inflight:
  "dc_inflight (fst (LookupContext_finish c call a t)) =
     (if gm_get (dc_inflight c) (lc_host (dc_calls c ! call)) = Some call
      then gm_del (lc_host (dc_calls c ! call)) (dc_inflight c) else dc_inflight c)"
  by (simp add: LookupContext_finish_def Let_def)

lemma finish_frame:
  "dc_generation (fst (LookupContext_finish c call a t)) = dc_generation c"
  "dc_hasTTL (fst (LookupContext_finish c call a t)) = dc_hasTTL c"
  by (simp_all add: LookupContext_finish_def Let_def)

definition cacheable :: "Cache \<Rightarrow> nat \<Rightarrow> answer \<Rightarrow> bool" where
  "cacheable c call a \<longleftrightarrow> \<not> an_cancelled a \<and> (an_err a \<noteq> None \<or> \<not> dc_hasTTL c \<or> an_ttl a > 0)
     \<and> lc_generation (dc_calls c ! call) = dc_generation c"

lemma finish_cache:
  "dc_cache (fst (LookupContext_finish c call a t)) =
     (if cacheable c call a
      then gm_put (lc_host (dc_calls c ! call))
        \<lparr>en_ips = if an_err a \<noteq> None then None else an_ips a, en_err = an_err a,
         en_expires = t + effective_ttl (dc_hasTTL c) a\<rparr>
        (if length (dc_cache c) \<ge> maxEntries then evictLocked (dc_cache c) t else dc_cache c)
      else dc_cache c)"
proof -
  have "an_err a = None \<Longrightarrow> dc_hasTTL c \<Longrightarrow> effective_ttl True a > 0 \<longleftrightarrow> an_ttl a > 0"
    by (simp add: effective_ttl_def minPositiveTTL_def go_time max_def)
  then show ?thesis by (auto simp: LookupContext_finish_def cacheable_def Let_def)
qed

lemma finish_hosts:
  "call < length (dc_calls c) \<Longrightarrow> lc_host ` set (dc_calls (fst (LookupContext_finish c call a t))) = lc_host ` set (dc_calls c)"
  "call < length (dc_calls c) \<Longrightarrow> named (fst (LookupContext_finish c call a t)) = named c"
proof -
  assume "call < length (dc_calls c)"
  then have "map lc_host (dc_calls (fst (LookupContext_finish c call a t))) = map lc_host (dc_calls c)"
    by (simp add: finish_calls map_update) (metis list_update_id nth_map)
  then show hosts: "lc_host ` set (dc_calls (fst (LookupContext_finish c call a t))) = lc_host ` set (dc_calls c)"
    by (metis set_map)
  have "named d \<longleftrightarrow> [] \<notin> lc_host ` set (dc_calls d)" for d by (force simp: named_def list_all_iff)
  with hosts show "named (fst (LookupContext_finish c call a t)) = named c" by blast
qed

lemma finish_cache_ok:
  assumes "dns_ok c" "call < length (dc_calls c)"
  shows "gm_ok (dc_cache (fst (LookupContext_finish c call a t)))
    \<and> fst ` set (dc_cache (fst (LookupContext_finish c call a t))) \<subseteq> lc_host ` set (dc_calls c)
    \<and> (named c \<longrightarrow> length (dc_cache (fst (LookupContext_finish c call a t))) \<le> maxEntries)"
proof -
  define m where "m = (if length (dc_cache c) \<ge> maxEntries then evictLocked (dc_cache c) t else dc_cache c)"
  have hosts: "\<forall>(h, e) \<in> set (dc_cache c). h \<noteq> []" if "named c"
    using that assms(1) by (fastforce simp: dns_ok_def named_def list_all_iff)
  have "set m \<subseteq> set (dc_cache c)" using evictLocked_subset [of "dc_cache c" t] by (auto simp: m_def)
  then have "fst ` set m \<subseteq> lc_host ` set (dc_calls c)" using assms(1) by (auto simp: dns_ok_def)
  moreover have "gm_ok m" using assms(1) evictLocked_ok by (auto simp: m_def dns_ok_def)
  moreover have "length m < maxEntries" if "named c"
    using that hosts evictLocked_length [of "dc_cache c" t] by (auto simp: m_def)
  ultimately have m: "gm_ok m" "named c \<Longrightarrow> length m < maxEntries" "fst ` set m \<subseteq> lc_host ` set (dc_calls c)" by simp_all
  have "lc_host (dc_calls c ! call) \<in> lc_host ` set (dc_calls c)" using assms(2) by simp
  then have "gm_ok (gm_put (lc_host (dc_calls c ! call)) e m)
      \<and> (named c \<longrightarrow> length (gm_put (lc_host (dc_calls c ! call)) e m) \<le> maxEntries)
      \<and> fst ` set (gm_put (lc_host (dc_calls c ! call)) e m) \<subseteq> lc_host ` set (dc_calls c)" for e
    using m gm_put_length [OF m(1), of "lc_host (dc_calls c ! call)" e] by (auto simp: gm_ok_put dest!: gm_in_put)
  then show ?thesis using assms(1) by (simp add: finish_cache dns_ok_def flip: m_def)
qed

lemma finish_flight_ok:
  assumes "flight_ok c" "call < length (dc_calls c)"
  shows "flight_ok (fst (LookupContext_finish c call a t))"
proof -
  have "call' \<noteq> call" if "(h, call') \<in> set (dc_inflight (fst (LookupContext_finish c call a t)))" for h call'
    using that assms by (auto simp: finish_inflight flight_ok_def gm_in_del split: if_splits)
  moreover have "set (dc_inflight (fst (LookupContext_finish c call a t))) \<subseteq> set (dc_inflight c)"
    by (auto simp: finish_inflight gm_in_del split: if_splits)
  moreover have "gm_ok (dc_inflight (fst (LookupContext_finish c call a t)))"
    using assms(1) by (auto simp: finish_inflight flight_ok_def gm_ok_del)
  ultimately show ?thesis
    using assms by (fastforce simp: flight_ok_def finish_calls finish_frame nth_list_update)
qed

lemma finish_ok: "dns_ok c \<Longrightarrow> call < length (dc_calls c) \<Longrightarrow> dns_ok (fst (LookupContext_finish c call a t))"
  using finish_cache_ok [of c call a t] finish_flight_ok [of c call a t]
  by (simp add: dns_ok_def finish_hosts)

lemma dns_step_ok: "dns_step c k c' \<Longrightarrow> dns_ok c \<Longrightarrow> dns_ok c'"
  by (induction rule: dns_step.induct) (auto intro: begin_ok finish_ok clear_ok)

lemma reaches_ok: "reaches c0 n c \<Longrightarrow> dns_ok c0 \<Longrightarrow> dns_ok c"
  by (induction rule: reaches.induct) (auto intro: dns_step_ok)

lemma clear_flight_ok: "flight_ok (ClearNetworkState c)"
  by (simp add: ClearNetworkState_def flight_ok_def)

lemma reaches_flight: "reaches c0 n c \<Longrightarrow> flight_ok c0 \<Longrightarrow> flight_ok c"
proof (induction rule: reaches.induct)
  case (reach_step n c k c')
  from reach_step(2,1,3,4) show ?case
    by (induction rule: dns_step.induct)
      (auto intro: begin_flight_ok finish_flight_ok clear_flight_ok)
qed

lemma New_ok: "dns_ok New" "dns_ok NewWithTTL"
  by (simp_all add: New_def NewWithTTL_def dns_ok_def flight_ok_def)

text \<open>Calls are never forgotten, keep their host and generation, and keep their result once they
  have one; the generation counts the network epochs.\<close>

definition call_le :: "Cache \<Rightarrow> Cache \<Rightarrow> nat \<Rightarrow> bool" where
  "call_le c c' call \<longleftrightarrow> call < length (dc_calls c') \<and> lc_host (dc_calls c' ! call) = lc_host (dc_calls c ! call)
     \<and> lc_generation (dc_calls c' ! call) = lc_generation (dc_calls c ! call)
     \<and> (lc_done (dc_calls c ! call) \<longrightarrow> dc_calls c' ! call = dc_calls c ! call)"

lemma dns_step_call: "dns_step c k c' \<Longrightarrow> call < length (dc_calls c) \<Longrightarrow> call_le c c' call"
proof (induction rule: dns_step.induct)
  case (begin_step host c now)
  then show ?case
    by (auto simp: call_le_def LookupContext_begin_def Let_def nth_append split: option.splits)
next
  case (finish_step call' c a t)
  then show ?case by (cases "call = call'") (auto simp: call_le_def finish_calls)
next
  case (clear_step c)
  then show ?case by (simp add: call_le_def ClearNetworkState_def)
qed

lemma reaches_call: "reaches c n c' \<Longrightarrow> call < length (dc_calls c) \<Longrightarrow> call_le c c' call"
proof (induction rule: reaches.induct)
  case (reach_step n c1 k c')
  then have "call_le c1 c' call" by (intro dns_step_call) (auto simp: call_le_def)
  with reach_step show ?case by (auto simp: call_le_def)
qed (simp add: call_le_def)

lemma dns_step_generation: "dns_step c k c' \<Longrightarrow> dc_generation c' = dc_generation c + of_nat k"
  by (induction rule: dns_step.induct)
    (auto simp: finish_frame ClearNetworkState_def LookupContext_begin_def Let_def split: option.splits)

lemma reaches_generation: "reaches c n c' \<Longrightarrow> dc_generation c' = dc_generation c + of_nat n"
  by (induction rule: reaches.induct) (auto dest: dns_step_generation)

lemma of_nat_u64_zero: "0 < n \<Longrightarrow> n < 2 ^ 64 \<Longrightarrow> (of_nat n :: u64) \<noteq> 0"
  using word_of_nat_eq_0_iff [of n, where 'a = 64] by (auto dest: dvd_imp_le)

text \<open>The entry that is evicted is the least one by expiry and host, whatever the order in which
  the map is traversed.\<close>

definition evict_before :: "string \<times> entry \<Rightarrow> string \<times> entry \<Rightarrow> bool" where
  "evict_before x y \<longleftrightarrow> en_expires (snd x) < en_expires (snd y)
     \<or> (en_expires (snd x) = en_expires (snd y) \<and> fst x \<le> fst y)"

lemma victim_least:
  "\<forall>(h, e) \<in> set m. h \<noteq> [] \<Longrightarrow> m \<noteq> [] \<Longrightarrow>
   \<exists>x \<in> set m. victim_of m = (fst x, en_expires (snd x)) \<and> (\<forall>y \<in> set m. evict_before x y)"
proof (induction m rule: rev_induct)
  case (snoc x m)
  show ?case
  proof (cases "m = []")
    case True
    then show ?thesis by (cases x) (auto simp: victim_of_def evict_before_def)
  next
    case False
    with snoc obtain z where z: "z \<in> set m" "victim_of m = (fst z, en_expires (snd z))" "\<forall>y \<in> set m. evict_before z y"
      by auto
    have nz: "fst z \<noteq> []" using z(1) snoc.prems(1) by (cases z) auto
    have v: "victim_of (m @ [x]) = (if en_expires (snd x) < en_expires (snd z) \<or>
        (en_expires (snd x) = en_expires (snd z) \<and> fst x < fst z) then (fst x, en_expires (snd x)) else victim_of m)"
      using z(2) nz by (cases x) (auto simp: victim_of_def before_def)
    show ?thesis
    proof (cases "en_expires (snd x) < en_expires (snd z) \<or> (en_expires (snd x) = en_expires (snd z) \<and> fst x < fst z)")
      case True
      then have "\<forall>y \<in> set (m @ [x]). evict_before x y" using z(3) by (fastforce simp: evict_before_def)
      with True v show ?thesis by (intro bexI [of _ x]) auto
    next
      case False
      then have "evict_before z x" by (auto simp: evict_before_def)
      with False v z show ?thesis by (intro bexI [of _ z]) auto
    qed
  qed
qed simp

lemma victim_unique:
  assumes "set m = set m'" "\<forall>(h, e) \<in> set m. h \<noteq> []"
  shows "fst (victim_of m) = fst (victim_of m')"
proof (cases "m = []")
  case True
  with assms(1) show ?thesis by simp
next
  case False
  then obtain x y where "x \<in> set m" "victim_of m = (fst x, en_expires (snd x))" "\<forall>z \<in> set m. evict_before x z"
      "y \<in> set m'" "victim_of m' = (fst y, en_expires (snd y))" "\<forall>z \<in> set m'. evict_before y z"
    using victim_least [OF assms(2)] victim_least [of m', folded assms(1), OF assms(2)] assms(1)
    by (metis set_empty)
  then have "evict_before x y" "evict_before y x" "fst (victim_of m) = fst x" "fst (victim_of m') = fst y"
    using assms(1) by auto
  then show ?thesis by (auto simp: evict_before_def)
qed

lemma evict_oldest_set:
  "gm_ok m \<Longrightarrow> gm_ok m' \<Longrightarrow> set m = set m' \<Longrightarrow> \<forall>(h, e) \<in> set m. h \<noteq> [] \<Longrightarrow>
   set (evict_oldest m) = set (evict_oldest m')"
proof (induction m arbitrary: m' rule: evict_oldest.induct)
  case (1 m)
  have "distinct m" "distinct m'" using 1(2,3) by (simp_all add: distinct_map)
  with 1(4) have len: "length m = length m'" by (metis distinct_card)
  have v: "fst (victim_of m) = fst (victim_of m')" by (rule victim_unique [OF 1(4,5)])
  show ?case
  proof (cases "length m \<ge> maxEntries \<and> fst (victim_of m) \<noteq> []")
    case True
    then have "set (evict_oldest (gm_del (fst (victim_of m)) m)) = set (evict_oldest (gm_del (fst (victim_of m)) m'))"
      using 1(2,3,5) by (intro 1(1)) (simp_all add: gm_ok_del gm_del_set 1(4))
    with True len v show ?thesis by (simp add: evict_oldest.simps [of m] evict_oldest.simps [of m'] Let_def)
  next
    case False
    with len v 1(4) show ?thesis by (simp add: evict_oldest.simps [of m] evict_oldest.simps [of m'] Let_def)
  qed
qed

lemma evict_oldest_order:
  "\<forall>(h, e) \<in> set m. h \<noteq> [] \<Longrightarrow> x \<in> set m \<Longrightarrow> x \<notin> set (evict_oldest m) \<Longrightarrow> y \<in> set (evict_oldest m) \<Longrightarrow>
   gm_ok m \<Longrightarrow> evict_before x y"
proof (induction m rule: evict_oldest.induct)
  case (1 m)
  show ?case
  proof (cases "length m \<ge> maxEntries \<and> fst (victim_of m) \<noteq> []")
    case True
    let ?d = "gm_del (fst (victim_of m)) m"
    have e: "evict_oldest m = evict_oldest ?d" using True by (simp add: evict_oldest.simps [of m] Let_def)
    have y: "y \<in> set m" using 1(5) e evict_oldest_subset gm_del_subset by blast
    obtain z where z: "z \<in> set m" "fst (victim_of m) = fst z" "\<forall>y \<in> set m. evict_before z y"
      using victim_least [OF 1(2)] 1(3) by fastforce
    show ?thesis
    proof (cases "x \<in> set ?d")
      case True
      have d: "\<forall>(h, e) \<in> set ?d. h \<noteq> []" "gm_ok ?d" using 1(2,6) gm_del_subset by (fast, blast)
      show ?thesis
        by (rule 1(1) [OF _ _ _ d(1) True _ _ d(2)]) (use \<open>length m \<ge> maxEntries \<and> _\<close> 1(4,5) e in auto)
    next
      case False
      then have "fst x = fst z" using 1(3) z(2) by (simp add: gm_del_set)
      then have "x = z" using 1(3,6) z(1) by (auto simp: distinct_map inj_on_def)
      with z(3) y show ?thesis by blast
    qed
  next
    case False
    then have "evict_oldest m = m" by (auto simp: evict_oldest.simps [of m] Let_def)
    with 1(3,4) show ?thesis by simp
  qed
qed

section \<open>Properties\<close>

text \<open>C29: The cache stays bounded. Whatever lookups, answers of resolvers and network epochs
  interleave, the cache holds one entry per host, and at most 4096 of them unless a lookup was made for the empty host
  name, which the eviction cannot remove; a call in flight has not returned and was made for its host in the current
  generation.\<close>

theorem dns_cache_bounded:
  assumes "reaches New n c \<or> reaches NewWithTTL n c"
  shows "(list_all (\<lambda>call. lc_host call \<noteq> []) (dc_calls c) \<longrightarrow> length (dc_cache c) \<le> 4096)
    \<and> distinct (map fst (dc_cache c)) \<and> distinct (map fst (dc_inflight c))
    \<and> list_all (\<lambda>(h, call). call < length (dc_calls c) \<and> \<not> lc_done (dc_calls c ! call)
        \<and> lc_host (dc_calls c ! call) = h \<and> lc_generation (dc_calls c ! call) = dc_generation c) (dc_inflight c)"
proof -
  have "dns_ok c" using assms reaches_ok New_ok by blast
  then show ?thesis by (auto simp: dns_ok_def named_def flight_ok_def maxEntries_def list_all_iff)
qed

theorem dns_cache_bounded_witness:
  "length (dc_cache (fst (LookupContext_begin New 5 ''h''))) \<le> 4096"
proof -
  have "reaches New (0 + 0) (fst (LookupContext_begin New 5 ''h''))"
    by (rule reach_step [OF reach_init begin_step])
  moreover have "list_all (\<lambda>call. lc_host call \<noteq> []) (dc_calls (fst (LookupContext_begin New 5 ''h'')))"
    by (simp add: New_def LookupContext_begin_def cache_hit_def)
  ultimately show ?thesis using dns_cache_bounded by blast
qed

text \<open>C30: A lookup that joins another one gets its answer. A lookup only ever joins a call for the
  same host that has not returned, so it cannot miss the wake-up; and when that call returns,
  after whatever else happened, the waiter returns at any later time and whatever happens in between: with exactly the
  answer that the call returned while its own context is not done, and otherwise with that answer or the error of the
  context, whichever case the runtime takes.\<close>

theorem dns_join_delivers:
  assumes "reaches New n c \<or> reaches NewWithTTL n c"
    and "LookupContext_begin c now host = (c1, JoinCall call)"
  shows "LookupContext_join c1 call None pick = None \<and> lc_host (dc_calls c1 ! call) = host
    \<and> (reaches c1 k d \<and> \<not> lc_done (dc_calls d ! call) \<and> LookupContext_finish d call a t = (e, r) \<and> reaches e l f
       \<longrightarrow> LookupContext_join f call None pick = Some r
         \<and> LookupContext_join f call (Some ctxErr) pick = (if pick then Some r else Some (None, Some ctxErr)))"
proof -
  have "dns_ok c" using assms(1) reaches_ok New_ok by blast
  moreover have c1: "c1 = c" "gm_get (dc_inflight c) host = Some call"
    using assms(2) by (auto simp: LookupContext_begin_def Let_def split: option.splits)
  ultimately have pend: "call < length (dc_calls c)" "\<not> lc_done (dc_calls c ! call)" "lc_host (dc_calls c ! call) = host"
    by (auto simp: dns_ok_def flight_ok_def dest!: map_of_SomeD)
  have "LookupContext_join f call None pick = Some r
      \<and> LookupContext_join f call (Some ctxErr) pick = (if pick then Some r else Some (None, Some ctxErr))"
    if h: "reaches c1 k d" "\<not> lc_done (dc_calls d ! call)" "LookupContext_finish d call a t = (e, r)" "reaches e l f"
  proof -
    have d: "call < length (dc_calls d)" using reaches_call [OF h(1), of call] pend c1 by (simp add: call_le_def)
    have e: "dc_calls e ! call = (dc_calls d ! call)\<lparr>lc_done := True, lc_ips := fst r, lc_err := snd r\<rparr>"
      "length (dc_calls e) = length (dc_calls d)"
      using h(3) d by (auto simp: LookupContext_finish_def Let_def split: if_splits)
    then have "dc_calls f ! call = dc_calls e ! call"
      using reaches_call [OF h(4), of call] d by (simp add: call_le_def)
    with e show ?thesis by (simp add: LookupContext_join_def)
  qed
  with pend c1 show ?thesis by (auto simp: LookupContext_join_def)
qed

theorem dns_join_delivers_witness:
  defines "c \<equiv> fst (LookupContext_begin New 5 ''h'')"
    and "a \<equiv> \<lparr>an_ips = Some [[10, 0, 0, 1]], an_ttl = 0, an_err = None, an_cancelled = False\<rparr>"
  shows "LookupContext_join (fst (LookupContext_finish c 0 a 7)) 0 None False = Some (Some [[10, 0, 0, 1]], None)"
proof -
  have c: "c = \<lparr>dc_cache = [], dc_inflight = [(''h'', 0)], dc_generation = 0, dc_hasTTL = False,
      dc_calls = [\<lparr>lc_host = ''h'', lc_generation = 0, lc_done = False, lc_ips = None, lc_err = None\<rparr>]\<rparr>"
    by (simp add: c_def New_def LookupContext_begin_def cache_hit_def)
  have "reaches New (0 + 0) c" unfolding c_def by (rule reach_step [OF reach_init begin_step])
  moreover have "LookupContext_begin c 6 ''h'' = (c, JoinCall 0)"
    by (simp add: c LookupContext_begin_def cache_hit_def)
  moreover have "LookupContext_finish c 0 a 7 = (fst (LookupContext_finish c 0 a 7), Some [[10, 0, 0, 1]], None)"
    by (simp add: LookupContext_finish_def a_def Let_def)
  moreover have "\<not> lc_done (dc_calls c ! 0)" by (simp add: c)
  ultimately show ?thesis using dns_join_delivers reach_init by blast
qed

text \<open>C10: A stale answer never enters the cache. When a call was started and then between one and
  \<open>2 ^ 64 - 1\<close> network epochs passed, whatever else happened, its answer changes neither the
  cached entries nor the calls in flight of the new network; the caller and its waiters still get
  it.\<close>

theorem dns_stale_answer_dropped:
  assumes "reaches New m c \<or> reaches NewWithTTL m c"
    and "LookupContext_begin c now host = (c1, StartCall call)"
    and "reaches c1 n d" "0 < n" "n < 2 ^ 64"
  shows "dc_cache (fst (LookupContext_finish d call a t)) = dc_cache d
    \<and> dc_inflight (fst (LookupContext_finish d call a t)) = dc_inflight d
    \<and> snd (LookupContext_finish d call a t) = (if an_err a \<noteq> None then None else an_ips a, an_err a)"
proof -
  have hit: "cache_hit c now host = None" "gm_get (dc_inflight c) host = None" "call = length (dc_calls c)"
    using assms(2) by (auto simp: LookupContext_begin_def Let_def split: option.splits)
  then have c1: "call < length (dc_calls c1)" "lc_generation (dc_calls c1 ! call) = dc_generation c1"
    using assms(2) by (auto simp: LookupContext_begin_def Let_def)
  then have "lc_generation (dc_calls d ! call) = dc_generation c1"
    using reaches_call [OF assms(3)] by (simp add: call_le_def)
  then have gen: "lc_generation (dc_calls d ! call) \<noteq> dc_generation d"
    using reaches_generation [OF assms(3)] of_nat_u64_zero [OF assms(4,5)] by simp
  have "flight_ok c" using assms(1) reaches_ok New_ok by (auto simp: dns_ok_def)
  then have "flight_ok c1" using begin_flight_ok [of c now host] assms(2) by simp
  with assms(3) have "flight_ok d" by (rule reaches_flight)
  then have "gm_get (dc_inflight d) (lc_host (dc_calls d ! call)) \<noteq> Some call"
    using gen by (auto simp: flight_ok_def dest!: map_of_SomeD)
  with gen show ?thesis
    by (simp add: finish_cache cacheable_def finish_inflight) (simp add: LookupContext_finish_def Let_def)
qed

theorem dns_stale_answer_dropped_witness:
  defines "c \<equiv> fst (LookupContext_begin New 5 ''h'')"
    and "a \<equiv> \<lparr>an_ips = Some [[10, 0, 0, 1]], an_ttl = 0, an_err = None, an_cancelled = False\<rparr>"
  shows "dc_cache (fst (LookupContext_finish (ClearNetworkState c) 0 a 7)) = []"
proof -
  have "LookupContext_begin New 5 ''h'' = (c, StartCall 0)"
    by (simp add: c_def New_def LookupContext_begin_def cache_hit_def)
  moreover have "reaches c (0 + 1) (ClearNetworkState c)" by (rule reach_step [OF reach_init clear_step])
  ultimately have "dc_cache (fst (LookupContext_finish (ClearNetworkState c) 0 a 7)) = dc_cache (ClearNetworkState c)"
    using dns_stale_answer_dropped [of 0 New 5 "''h''" c 0 "0 + 1" "ClearNetworkState c"] reach_init by fastforce
  then show ?thesis by (simp add: ClearNetworkState_def)
qed

text \<open>What is cached, and for how long. When a call of the current generation returns without
  its caller having gone away, later lookups of its host hit exactly that answer until the
  effective time to live has passed, which is 5 seconds for a failure and otherwise between 1
  second and 1 hour (60 seconds when the resolver gives none); a cancelled call, or an answer
  with a time to live that is not positive, leaves the cache as it was.\<close>

theorem dns_cached_answer:
  assumes "call < length (dc_calls c)" "\<not> lc_done (dc_calls c ! call)"
    and "lc_generation (dc_calls c ! call) = dc_generation c"
  shows "if an_cancelled a \<or> (an_err a = None \<and> dc_hasTTL c \<and> an_ttl a \<le> 0)
    then dc_cache (fst (LookupContext_finish c call a t)) = dc_cache c
    else cache_hit (fst (LookupContext_finish c call a t)) now (lc_host (dc_calls c ! call)) =
        (if now < t + effective_ttl (dc_hasTTL c) a then Some (snd (LookupContext_finish c call a t)) else None)
      \<and> (if an_err a \<noteq> None then effective_ttl (dc_hasTTL c) a = 5 * second
         else second \<le> effective_ttl (dc_hasTTL c) a \<and> effective_ttl (dc_hasTTL c) a \<le> hour)"
proof -
  have "snd (LookupContext_finish c call a t) = (if an_err a \<noteq> None then None else an_ips a, an_err a)"
    by (simp add: LookupContext_finish_def Let_def)
  then show ?thesis
    using assms(3)
    by (auto simp: finish_cache cacheable_def cache_hit_def go_map effective_ttl_def dns_consts go_time max_def min_def)
qed

theorem dns_cached_answer_witness:
  defines "c \<equiv> fst (LookupContext_begin New 5 ''h'')"
    and "a \<equiv> \<lparr>an_ips = Some [[10, 0, 0, 1]], an_ttl = 0, an_err = None, an_cancelled = False\<rparr>"
  shows "cache_hit (fst (LookupContext_finish c 0 a 7)) 9 ''h'' = Some (Some [[10, 0, 0, 1]], None)"
proof -
  have c: "c = \<lparr>dc_cache = [], dc_inflight = [(''h'', 0)], dc_generation = 0, dc_hasTTL = False,
      dc_calls = [\<lparr>lc_host = ''h'', lc_generation = 0, lc_done = False, lc_ips = None, lc_err = None\<rparr>]\<rparr>"
    by (simp add: c_def New_def LookupContext_begin_def cache_hit_def)
  have "snd (LookupContext_finish c 0 a 7) = (Some [[10, 0, 0, 1]], None)"
    by (simp add: LookupContext_finish_def a_def Let_def)
  moreover have "effective_ttl False a = 60 * second" "\<not> an_cancelled a" by (simp_all add: a_def effective_ttl_def positiveTTL_def)
  ultimately show ?thesis
    using dns_cached_answer [of 0 c a 7 9] by (simp add: c go_time)
qed

text \<open>Eviction does not depend on the order in which Go traverses a map. For two traversals of
  the same well-formed cache, eviction keeps the same entries; these are unexpired ones of the
  cache, fewer than 4096, and every entry that was dropped although it had not expired comes
  before all kept ones in the order by expiry and host.\<close>

theorem eviction_deterministic:
  assumes "gm_ok m" "gm_ok m'" "set m = set m'" "\<forall>(h, e) \<in> set m. h \<noteq> []"
  shows "set (evictLocked m now) = set (evictLocked m' now)
    \<and> length (evictLocked m now) < 4096
    \<and> set (evictLocked m now) \<subseteq> {(h, e) \<in> set m. now < en_expires e}
    \<and> (\<forall>x \<in> set m. now < en_expires (snd x) \<and> x \<notin> set (evictLocked m now) \<longrightarrow>
         (\<forall>y \<in> set (evictLocked m now). evict_before x y))"
proof -
  let ?f = "filter (\<lambda>(host, e). before now (en_expires e))"
  have f: "\<forall>(h, e) \<in> set (?f m). h \<noteq> []" "set (?f m) = set (?f m')" using assms(3,4) by auto
  have "set (evictLocked m now) = set (evictLocked m' now)"
    unfolding evictLocked_def by (rule evict_oldest_set) (use assms(1,2) f gm_ok_filter in blast)+
  moreover have "length (evictLocked m now) < 4096"
    using evictLocked_length [OF assms(4), of now] by (simp add: maxEntries_def)
  moreover have "\<forall>x \<in> set m. now < en_expires (snd x) \<and> x \<notin> set (evictLocked m now) \<longrightarrow>
         (\<forall>y \<in> set (evictLocked m now). evict_before x y)"
    using evict_oldest_order [OF f(1) _ _ _ gm_ok_filter [OF assms(1)]] by (auto simp: evictLocked_def before_def)
  ultimately show ?thesis using evictLocked_subset by blast
qed

theorem eviction_deterministic_witness:
  defines "e \<equiv> (\<lambda>t. \<lparr>en_ips = None, en_err = None, en_expires = t\<rparr>)"
  shows "set (evictLocked [(''a'', e 5), (''b'', e 9)] 7) = set (evictLocked [(''b'', e 9), (''a'', e 5)] 7)"
  using eviction_deterministic [of "[(''a'', e 5), (''b'', e 9)]" "[(''b'', e 9), (''a'', e 5)]" 7]
  by (simp add: insert_commute)

text \<open>The empty host name is the loop's mark for ''no victim yet'': an entry for it that is the
  last one traversed and expires first stops the loop, and the full cache is not shrunk.\<close>

lemma empty_host_stops_eviction:
  assumes "\<forall>x \<in> set m. now < en_expires (snd x) \<and> en_expires e < en_expires (snd x) \<and> fst x \<noteq> []" "now < en_expires e"
    and "maxEntries \<le> Suc (length m)"
  shows "evictLocked (m @ [([], e)]) now = m @ [([], e)]"
proof -
  have f: "filter (\<lambda>(host, e). before now (en_expires e)) (m @ [([], e)]) = m @ [([], e)]"
    using assms(1,2) by (auto simp: filter_id_conv before_def)
  have "m \<noteq> []" using assms(3) by (auto simp: maxEntries_def)
  then obtain x where "x \<in> set m" "victim_of m = (fst x, en_expires (snd x))"
    using victim_least [of m] assms(1) by fastforce
  then have "fst (victim_of (m @ [([], e)])) = []"
    using assms(1) by (simp add: victim_of_def before_def)
  then have "evict_oldest (m @ [([], e)]) = m @ [([], e)]" by (simp add: evict_oldest.simps [of "m @ _"] Let_def)
  then show ?thesis by (simp only: evictLocked_def f)
qed

end
