(* ===== verification/Pac.thy ===== *)
theory Pac
  imports Pac_Decode Go_Net Dnscache "HOL-Library.Product_Lexorder"
begin

text \<open>
  Proxy auto-configuration, \<^verbatim>\<open>internal/pac/pac.go\<close>: reading and loading a source, the retry rule
  for a source that cannot be loaded, evaluation, the translation of a PAC result into proxy
  candidates, and the two host functions that are not JavaScript. The JavaScript engine is a
  third-party package: \<open>compile\<close> (the compiler, on the helper library followed by the text),
  \<open>newVM\<close> (a run of the program in a fresh machine) and \<open>call\<close> (a call of the script's function) are
  arguments, over types of programs and machines; HTTP and file reads are inputs.
\<close>

section \<open>Results of a PAC script\<close>

definition directProxy :: string where "directProxy = ''DIRECT''"
definition localhostIP :: string where "localhostIP = ''127.0.0.1''"
definition maxPACBytes :: nat where "maxPACBytes = 4 * 2 ^ 20"
definition maxPACResultBytes :: nat where "maxPACResultBytes = 16 * 2 ^ 10"
definition maxPACCandidates :: nat where "maxPACCandidates = 32"
definition pacRetryInterval :: duration where "pacRetryInterval = 30 * second"

fun count_candidates :: "string list \<Rightarrow> nat \<Rightarrow> goerr + nat" where
  "count_candidates [] n = Inr n"
| "count_candidates (raw # rest) n =
     (if trim_space raw = [] then count_candidates rest n
      else if n + 1 > maxPACCandidates then Inl (ErrMsg ''PAC result exceeds candidates'')
      else count_candidates rest (n + 1))"

definition ValidateCanonicalResult :: "string \<Rightarrow> goerr option" where
  "ValidateCanonicalResult proxies =
     (if length proxies > maxPACResultBytes then Some (ErrMsg ''PAC result exceeds bytes'')
      else case count_candidates (split_on (CHR '','') proxies) 0 of
        Inl e \<Rightarrow> Some e
      | Inr n \<Rightarrow> if n = 0 then Some (ErrMsg ''PAC result contains no routing candidates'') else None)"

text \<open>One directive, the loop body of \<^verbatim>\<open>NormalizeResult\<close> after the limit check.\<close>

definition pac_directive :: "string \<Rightarrow> goerr + string" where
  "pac_directive token =
     (let fields = str_fields token in
      if length fields = 1 \<and> equal_fold (fields ! 0) directProxy then Inr directProxy
      else if length fields \<noteq> 2 then Inl (Wrapped token (ErrMsg ''malformed PAC directive''))
      else let kind = to_upper (fields ! 0); target = fields ! 1 in
        if contains_any target '',;'' then Inl (Wrapped target (ErrMsg ''malformed PAC target''))
        else if kind = ''PROXY'' \<or> kind = ''HTTP'' then Inr target
        else if kind = ''HTTPS'' then Inr (''https://'' @ target)
        else if kind = ''SOCKS4'' then Inr (''socks4://'' @ target)
        else if kind = ''SOCKS4A'' then Inr (''socks4a://'' @ target)
        else if kind = ''SOCKS5'' then Inr (''socks5://'' @ target)
        else if kind = ''SOCKS'' then Inr (''socks5://'' @ target)
        else Inl (Wrapped (fields ! 0) (ErrMsg ''unsupported PAC directive'')))"

fun normalize_loop :: "string list \<Rightarrow> string list \<Rightarrow> goerr + string list" where
  "normalize_loop [] normalized = Inr normalized"
| "normalize_loop (raw # rest) normalized =
     (let token = trim_space raw in
      if token = [] then normalize_loop rest normalized
      else if length normalized \<ge> maxPACCandidates then Inl (ErrMsg ''PAC result exceeds candidates'')
      else case pac_directive token of Inl e \<Rightarrow> Inl e | Inr c \<Rightarrow> normalize_loop rest (normalized @ [c]))"

definition NormalizeResult :: "string \<Rightarrow> goerr + string" where
  "NormalizeResult proxies =
     (if length proxies > maxPACResultBytes then Inl (ErrMsg ''PAC result exceeds bytes'')
      else case normalize_loop (split_on (CHR '';'') proxies) [] of
        Inl e \<Rightarrow> Inl e
      | Inr normalized \<Rightarrow>
          if normalized = [] then Inl (ErrMsg ''PAC result contains no routing candidates'')
          else Inr (join_with '','' normalized))"

section \<open>Loading\<close>

record 'vm Pac =
  pac_location :: string
  pac_encoding :: string
  lastLoadAttempt :: gotime
  lastLoadErr :: "goerr option"
  pac_runtime :: "'vm option"

definition Pac_NewWithDNS :: "string \<Rightarrow> string \<Rightarrow> 'vm Pac" where
  "Pac_NewWithDNS location encoding =
     \<lparr>pac_location = location, pac_encoding = (if trim_space encoding = [] then autoEncoding else encoding),
      lastLoadAttempt = 0, lastLoadErr = None, pac_runtime = None\<rparr>"

definition Loaded :: "'vm Pac \<Rightarrow> bool" where "Loaded p \<longleftrightarrow> pac_runtime p \<noteq> None"

definition Pac_Close :: "'vm Pac \<Rightarrow> 'vm Pac" where
  "Pac_Close p = p\<lparr>pac_runtime := None, lastLoadAttempt := 0, lastLoadErr := None\<rparr>"

text \<open>What a read of the source meets: the file, or the HTTP exchange, whose body may fail on the
  way.\<close>

record pac_reply =
  re_status :: int
  re_body :: "byte list"
  re_bodyErr :: "goerr option"
  re_contentType :: string

record pac_world =
  pw_file :: "goerr + byte list"
  pw_http :: "goerr + pac_reply"
  pw_addrs :: "goerr + ip list"

definition readPACSource :: "string \<Rightarrow> pac_world \<Rightarrow> goerr + (byte list \<times> string)" where
  "readPACSource location w =
     (let loc = to_lower location in
      if has_prefix loc ''http://'' \<or> has_prefix loc ''https://'' then
        (case pw_http w of
           Inl e \<Rightarrow> Inl e
         | Inr resp \<Rightarrow>
             if re_status resp < 200 \<or> re_status resp \<ge> 300 then Inl (ErrMsg ''PAC URL returned'')
             else case re_bodyErr resp of
               Some e \<Rightarrow> Inl e
             | None \<Rightarrow>
                 let data = take (maxPACBytes + 1) (re_body resp) in
                 if length data > maxPACBytes then Inl (ErrMsg ''PAC body exceeds bytes'')
                 else Inr (data, re_contentType resp))
      else case pw_file w of Inl e \<Rightarrow> Inl e | Inr data \<Rightarrow> Inr (data, []))"

text \<open>The local address that scripts see: the least of the usable IPv4 addresses, private ones
  first. An address of another kind than those of \<^verbatim>\<open>net.IPNet\<close> and \<^verbatim>\<open>net.IPAddr\<close> is not in the list.\<close>

definition usable_addr :: "ip \<Rightarrow> ip option" where
  "usable_addr ip =
     (case to4 ip of
        None \<Rightarrow> None
      | Some ip4 \<Rightarrow>
          if IsLoopback ip4 \<or> IsUnspecified ip4 \<or> IsMulticast ip4 \<or> IsLinkLocalUnicast ip4 \<or> IsLinkLocalMulticast ip4
          then None else Some ip4)"

definition addr_rank :: "ip \<Rightarrow> nat" where "addr_rank ip = (if IsPrivate ip then 0 else 1)"

definition selectMyIPAddressFrom :: "ip list \<Rightarrow> string" where
  "selectMyIPAddressFrom addrs =
     (let candidates = rev (remdups (rev (List.map_filter usable_addr addrs))) in
      if candidates = [] then localhostIP
      else ip_string (hd (sort_key (\<lambda>ip. (addr_rank ip, map unat ip)) candidates)))"

definition selectMyIPAddress :: "pac_world \<Rightarrow> string" where
  "selectMyIPAddress w = (case pw_addrs w of Inl e \<Rightarrow> localhostIP | Inr addrs \<Rightarrow> selectMyIPAddressFrom addrs)"

text \<open>What the script's \<^verbatim>\<open>dnsResolve\<close> returns for the addresses that the cache gives.\<close>

definition DNSResolve :: "ip list \<Rightarrow> string" where
  "DNSResolve ips =
     (if ips = [] then []
      else case List.map_filter to4 ips of ip4 # _ \<Rightarrow> ip_string ip4 | [] \<Rightarrow> ip_string (hd ips))"

definition pac_load ::
    "(string \<Rightarrow> string option) \<Rightarrow> (gotext \<Rightarrow> goerr + 'prog) \<Rightarrow> ('prog \<Rightarrow> string \<Rightarrow> goerr + 'vm) \<Rightarrow> 'vm Pac \<Rightarrow> pac_world
     \<Rightarrow> goerr + 'vm" where
  "pac_load pm compile newVM p w =
     (case readPACSource (pac_location p) w of
        Inl e \<Rightarrow> Inl (Wrapped ''read PAC'' e)
      | Inr (data, contentType) \<Rightarrow>
          (case decodePAC pm data (pac_encoding p) contentType of
             Inl e \<Rightarrow> Inl e
           | Inr txt \<Rightarrow>
               (case compile txt of
                  Inl e \<Rightarrow> Inl (Wrapped ''compile PAC'' e)
                | Inr program \<Rightarrow>
                    (case newVM program (selectMyIPAddress w) of
                       Inl e \<Rightarrow> Inl (Wrapped ''initialize PAC'' e)
                     | Inr vm \<Rightarrow> Inr vm))))"

text \<open>The state after a load and its result; \<open>fin\<close> is the clock when it ended.\<close>

definition store_load :: "'vm Pac \<Rightarrow> goerr + 'vm \<Rightarrow> gotime \<Rightarrow> 'vm Pac \<times> (goerr + 'vm)" where
  "store_load p res fin =
     (case res of
        Inl e \<Rightarrow> (p\<lparr>lastLoadAttempt := fin, lastLoadErr := Some e\<rparr>, Inl e)
      | Inr rt \<Rightarrow> (p\<lparr>lastLoadAttempt := fin, lastLoadErr := None, pac_runtime := Some rt\<rparr>, Inr rt))"

definition Pac_Load :: "'vm Pac \<Rightarrow> goerr + 'vm \<Rightarrow> gotime \<Rightarrow> 'vm Pac \<times> goerr option" where
  "Pac_Load p res fin =
     (if pac_runtime p \<noteq> None then (p, None)
      else case store_load p res fin of (p, Inl e) \<Rightarrow> (p, Some e) | (p, Inr rt) \<Rightarrow> (p, None))"

definition ensureLoaded :: "'vm Pac \<Rightarrow> gotime \<Rightarrow> goerr + 'vm \<Rightarrow> gotime \<Rightarrow> 'vm Pac \<times> (goerr + 'vm)" where
  "ensureLoaded p now res fin =
     (case pac_runtime p of
        Some rt \<Rightarrow> (p, Inr rt)
      | None \<Rightarrow>
          (case lastLoadErr p of
             Some e \<Rightarrow> if time_sub now (lastLoadAttempt p) < pacRetryInterval then (p, Inl e) else store_load p res fin
           | None \<Rightarrow> store_load p res fin))"

definition FindProxyForURLWithError ::
    "('vm \<Rightarrow> string \<Rightarrow> string \<Rightarrow> 'vm \<times> (goerr + string)) \<Rightarrow> 'vm Pac \<Rightarrow> gotime \<Rightarrow> goerr + 'vm \<Rightarrow> gotime \<Rightarrow> string \<Rightarrow> string
     \<Rightarrow> 'vm Pac \<times> (goerr + string)" where
  "FindProxyForURLWithError call p now res fin rawurl host =
     (case ensureLoaded p now res fin of
        (p, Inl e) \<Rightarrow> (p, Inl e)
      | (p, Inr rt) \<Rightarrow>
          (case call rt rawurl host of
             (rt', out) \<Rightarrow>
               (p\<lparr>pac_runtime := Some rt'\<rparr>,
                case out of
                  Inl e \<Rightarrow> Inl (Wrapped ''execute PAC'' e)
                | Inr s \<Rightarrow> (case NormalizeResult s of Inl e \<Rightarrow> Inl (Wrapped ''normalize PAC result'' e) | Inr c \<Rightarrow> Inr c))))"

definition Pac_FindProxyForURL ::
    "('vm \<Rightarrow> string \<Rightarrow> string \<Rightarrow> 'vm \<times> (goerr + string)) \<Rightarrow> 'vm Pac \<Rightarrow> gotime \<Rightarrow> goerr + 'vm \<Rightarrow> gotime \<Rightarrow> string \<Rightarrow> string
     \<Rightarrow> 'vm Pac \<times> string" where
  "Pac_FindProxyForURL call p now res fin rawurl host =
     (case FindProxyForURLWithError call p now res fin rawurl host of
        (p, Inl e) \<Rightarrow> (p, directProxy) | (p, Inr out) \<Rightarrow> (p, out))"

section \<open>Lemmas\<close>

definition pac_tokens :: "string \<Rightarrow> string list" where
  "pac_tokens proxies = filter (\<lambda>t. t \<noteq> []) (map trim_space (split_on (CHR '';'') proxies))"

text \<open>The directives of the PAC file format with what they stand for: the scheme of a proxy goes before its address, a
  proxy without a scheme is an HTTP one, and SOCKS alone is version 5. An address holds no separator of the lists.\<close>

inductive pac_means :: "string \<Rightarrow> string \<Rightarrow> bool" where
  direct: "str_fields t = [w] \<Longrightarrow> equal_fold w ''DIRECT'' \<Longrightarrow> pac_means t ''DIRECT''"
| http: "str_fields t = [k, a] \<Longrightarrow> to_upper k \<in> {''PROXY'', ''HTTP''} \<Longrightarrow> set a \<inter> set '',;'' = {} \<Longrightarrow> pac_means t a"
| https: "str_fields t = [k, a] \<Longrightarrow> to_upper k = ''HTTPS'' \<Longrightarrow> set a \<inter> set '',;'' = {} \<Longrightarrow> pac_means t (''https://'' @ a)"
| socks4: "str_fields t = [k, a] \<Longrightarrow> to_upper k = ''SOCKS4'' \<Longrightarrow> set a \<inter> set '',;'' = {} \<Longrightarrow> pac_means t (''socks4://'' @ a)"
| socks4a: "str_fields t = [k, a] \<Longrightarrow> to_upper k = ''SOCKS4A'' \<Longrightarrow> set a \<inter> set '',;'' = {} \<Longrightarrow> pac_means t (''socks4a://'' @ a)"
| socks5: "str_fields t = [k, a] \<Longrightarrow> to_upper k \<in> {''SOCKS5'', ''SOCKS''} \<Longrightarrow> set a \<inter> set '',;'' = {} \<Longrightarrow> pac_means t (''socks5://'' @ a)"

lemma pac_directive_means: "pac_directive t = Inr c \<longleftrightarrow> pac_means t c"
proof (cases "\<exists>k a. str_fields t = [k, a]")
  case True
  then obtain k a where "str_fields t = [k, a]" by blast
  then show ?thesis
    by (auto simp: pac_directive_def Let_def pac_means.simps contains_any_def list_ex_iff split: if_splits)
next
  case False
  then have "length (str_fields t) \<noteq> 2" by (auto simp: numeral_2_eq_2 length_Suc_conv)
  with False show ?thesis
    by (auto simp: pac_directive_def directProxy_def Let_def pac_means.simps length_Suc_conv split: if_splits)
qed

lemma normalize_loop_iff:
  assumes "length acc \<le> maxPACCandidates"
  shows "normalize_loop raws acc = Inr out \<longleftrightarrow>
    (\<exists>cs. list_all2 (\<lambda>t c. pac_directive t = Inr c) (filter (\<lambda>t. t \<noteq> []) (map trim_space raws)) cs
       \<and> out = acc @ cs \<and> length out \<le> maxPACCandidates)"
  using assms
proof (induction raws arbitrary: acc)
  case (Cons raw raws)
  show ?case
  proof (cases "trim_space raw = []")
    case True
    with Cons show ?thesis by simp
  next
    case False
    show ?thesis
    proof (cases "length acc \<ge> maxPACCandidates \<or> isl (pac_directive (trim_space raw))")
      case True
      with False show ?thesis by (auto simp: Let_def list_all2_Cons1 split: sum.splits)
    next
      case f: False
      then obtain c where c: "pac_directive (trim_space raw) = Inr c" "length (acc @ [c]) \<le> maxPACCandidates"
        by (cases "pac_directive (trim_space raw)") auto
      with False f Cons.IH [OF c(2)] show ?thesis by (auto simp: Let_def list_all2_Cons1)
    qed
  qed
qed auto

lemma pac_directive_chars:
  "pac_directive t = Inr c \<Longrightarrow> c \<noteq> [] \<and> CHR '','' \<notin> set c \<and> (\<forall>x \<in> set c. \<not> go_space x)"
proof -
  assume d: "pac_directive t = Inr c"
  have f: "str_fields t ! 1 \<noteq> [] \<and> (\<forall>x \<in> set (str_fields t ! 1). \<not> go_space x)" if "length (str_fields t) = 2"
    using str_fields_elem [OF nth_mem, of 1 t] that by auto
  have c: "c = ''DIRECT'' \<or> (length (str_fields t) = 2 \<and> CHR '','' \<notin> set (str_fields t ! 1)
      \<and> (\<exists>p \<in> set [[], ''https://'', ''socks4://'', ''socks4a://'', ''socks5://'']. c = p @ str_fields t ! 1))"
    using d by (simp add: pac_directive_def directProxy_def contains_any_def list_ex_iff Let_def split: if_splits) blast+
  have p: "\<forall>p \<in> set [[], ''https://'', ''socks4://'', ''socks4a://'', ''socks5://'']. CHR '','' \<notin> set p \<and> list_all (\<lambda>x. \<not> go_space x) p"
    by code_simp
  show ?thesis
  proof (cases "c = ''DIRECT''")
    case True
    then show ?thesis by (auto simp: go_space_def)
  next
    case False
    with c obtain p where "p \<in> set [[], ''https://'', ''socks4://'', ''socks4a://'', ''socks5://'']" "c = p @ str_fields t ! 1"
      "length (str_fields t) = 2" "CHR '','' \<notin> set (str_fields t ! 1)" by blast
    with f p show ?thesis by (auto simp: list_all_iff)
  qed
qed

lemma NormalizeResult_iff:
  "NormalizeResult proxies = Inr out \<longleftrightarrow>
     length proxies \<le> maxPACResultBytes \<and> pac_tokens proxies \<noteq> [] \<and> length (pac_tokens proxies) \<le> maxPACCandidates
     \<and> (\<exists>cs. list_all2 (\<lambda>t c. pac_directive t = Inr c) (pac_tokens proxies) cs \<and> out = join_with '','' cs)"
proof -
  let ?n = "normalize_loop (split_on (CHR '';'') proxies) []"
  have loop: "?n = Inr cs \<longleftrightarrow> list_all2 (\<lambda>t c. pac_directive t = Inr c) (pac_tokens proxies) cs \<and> length cs \<le> maxPACCandidates" for cs
    using normalize_loop_iff [of "[]"] by (simp add: pac_tokens_def)
  have "NormalizeResult proxies = Inr out \<longleftrightarrow> length proxies \<le> maxPACResultBytes \<and> (\<exists>cs. ?n = Inr cs \<and> cs \<noteq> [] \<and> out = join_with '','' cs)"
    by (auto simp: NormalizeResult_def split: sum.splits if_splits)
  also have "\<dots> \<longleftrightarrow> length proxies \<le> maxPACResultBytes \<and> pac_tokens proxies \<noteq> [] \<and> length (pac_tokens proxies) \<le> maxPACCandidates
     \<and> (\<exists>cs. list_all2 (\<lambda>t c. pac_directive t = Inr c) (pac_tokens proxies) cs \<and> out = join_with '','' cs)"
    unfolding loop by (metis (no_types, lifting) list_all2_lengthD length_0_conv)
  finally show ?thesis .
qed

lemma NormalizeResult_split:
  assumes "NormalizeResult proxies = Inr out"
  shows "list_all2 (\<lambda>t c. pac_directive t = Inr c) (pac_tokens proxies) (split_on (CHR '','') out)"
proof -
  obtain cs where cs: "list_all2 (\<lambda>t c. pac_directive t = Inr c) (pac_tokens proxies) cs" "out = join_with '','' cs" "cs \<noteq> []"
    using assms unfolding NormalizeResult_iff by auto
  then have "\<forall>c \<in> set cs. CHR '','' \<notin> set c"
    using pac_directive_chars by (fastforce simp: list_all2_conv_all_nth in_set_conv_nth)
  with cs show ?thesis by (simp add: split_join_on)
qed

text \<open>The load attempts of a run of requests, each with the clock at its start and end and what
  the source gave; and what is logged.\<close>

fun load_log :: "'vm Pac \<Rightarrow> (gotime \<times> (goerr + 'vm) \<times> gotime) list \<Rightarrow> (gotime \<times> (goerr + 'vm) \<times> gotime) list" where
  "load_log p [] = []"
| "load_log p ((now, res, fin) # rs) =
     (if pac_runtime p \<noteq> None \<or> (lastLoadErr p \<noteq> None \<and> time_sub now (lastLoadAttempt p) < pacRetryInterval)
      then [] else [(now, res, fin)]) @ load_log (fst (ensureLoaded p now res fin)) rs"

lemma load_log_loaded: "pac_runtime p \<noteq> None \<Longrightarrow> load_log p rs = []"
  by (induction p rs rule: load_log.induct) (auto simp: ensureLoaded_def)

lemma load_log_spaced:
  "pac_runtime p = None \<Longrightarrow>
   successively (\<lambda>(s, r, d) (s', r', d'). isl r \<and> pacRetryInterval \<le> time_sub s' d) (load_log p rs)
   \<and> (lastLoadErr p \<noteq> None \<longrightarrow> (case load_log p rs of [] \<Rightarrow> True | (s, r, d) # _ \<Rightarrow> pacRetryInterval \<le> time_sub s (lastLoadAttempt p)))"
proof (induction p rs rule: load_log.induct)
  case (2 p now res fin rs)
  let ?p = "fst (ensureLoaded p now res fin)"
  show ?case
  proof (cases "lastLoadErr p \<noteq> None \<and> time_sub now (lastLoadAttempt p) < pacRetryInterval")
    case True
    then have p: "?p = p" using 2(2) by (auto simp: ensureLoaded_def)
    from 2(1) [unfolded p, OF 2(2)] True show ?thesis by (simp add: p)
  next
    case False
    then have e: "ensureLoaded p now res fin = store_load p res fin"
      using 2(2) by (auto simp: ensureLoaded_def split: option.splits)
    show ?thesis
    proof (cases res)
      case (Inl x)
      then have p: "pac_runtime ?p = None" "lastLoadErr ?p = Some x" "lastLoadAttempt ?p = fin"
        using e 2(2) by (simp_all add: store_load_def)
      from 2(1) [OF p(1)] p False 2(2) Inl show ?thesis
        by (cases "load_log ?p rs") (auto simp: successively_Cons not_less)
    next
      case (Inr rt)
      then have "load_log ?p rs = []" using e by (intro load_log_loaded) (simp add: store_load_def)
      with False 2(2) show ?thesis by (auto simp: not_less)
    qed
  qed
qed simp

section \<open>Properties\<close>

text \<open>C33: What a PAC result means. A result is accepted exactly when it is at most 16 KiB long and has
  between 1 and 32 non-blank directives, each of them one of the file format; the candidates are then, in
  order and one for each directive, what that directive stands for, and splitting the normalised
  result at commas gives them back.\<close>

theorem pac_result_meaning:
  "(NormalizeResult proxies = Inr out \<longleftrightarrow>
      length proxies \<le> 16384 \<and> 1 \<le> length (pac_tokens proxies) \<and> length (pac_tokens proxies) \<le> 32
      \<and> list_all2 pac_means (pac_tokens proxies) (split_on (CHR '','') out) \<and> out \<noteq> [])"
proof
  assume a: "NormalizeResult proxies = Inr out"
  then have s: "list_all2 pac_means (pac_tokens proxies) (split_on (CHR '','') out)"
    using NormalizeResult_split by (simp add: pac_directive_means)
  have "out \<noteq> []"
  proof
    assume "out = []"
    with s have "list_all2 pac_means (pac_tokens proxies) [[]]" by simp
    then show False using pac_directive_chars pac_directive_means by (auto simp: list_all2_Cons2)
  qed
  with a s show "length proxies \<le> 16384 \<and> 1 \<le> length (pac_tokens proxies) \<and> length (pac_tokens proxies) \<le> 32
      \<and> list_all2 pac_means (pac_tokens proxies) (split_on (CHR '','') out) \<and> out \<noteq> []"
    unfolding NormalizeResult_iff maxPACResultBytes_def maxPACCandidates_def by (auto simp: Suc_le_eq)
next
  assume "length proxies \<le> 16384 \<and> 1 \<le> length (pac_tokens proxies) \<and> length (pac_tokens proxies) \<le> 32
      \<and> list_all2 pac_means (pac_tokens proxies) (split_on (CHR '','') out) \<and> out \<noteq> []"
  then show "NormalizeResult proxies = Inr out"
    unfolding NormalizeResult_iff maxPACResultBytes_def maxPACCandidates_def pac_directive_means
    using join_split_on [of "CHR '',''" out] by auto
qed

text \<open>A failing PAC source is not fetched on every request. In any run of requests on a PAC
  configuration, every load attempt but the last one failed, and an attempt starts at least 30
  seconds after the previous one ended.\<close>

theorem pac_retry_spacing:
  "successively (\<lambda>(s, r, d) (s', r', d'). isl r \<and> 30 * second \<le> time_sub s' d)
     (load_log (Pac_NewWithDNS location encoding) rs)"
  using load_log_spaced [of "Pac_NewWithDNS location encoding" rs]
  by (simp add: Pac_NewWithDNS_def pacRetryInterval_def)

text \<open>PAC evaluation fails closed. An evaluation returns candidates only when a machine is loaded,
  the script returned a string, and that string is an acceptable PAC result; every failure to
  load, run or understand the script is an error, and no route is made up. The machine that
  results is the one the call left, and the legacy function answers DIRECT exactly in place of
  the errors.\<close>

theorem pac_fails_closed:
  assumes "FindProxyForURLWithError call p now res fin rawurl host = (p', r)"
  shows "(case r of
      Inl e \<Rightarrow> True
    | Inr out \<Rightarrow> \<exists>rt rt' s. (pac_runtime p = Some rt \<or> (pac_runtime p = None \<and> res = Inr rt))
        \<and> call rt rawurl host = (rt', Inr s) \<and> NormalizeResult s = Inr out \<and> pac_runtime p' = Some rt')
    \<and> snd (Pac_FindProxyForURL call p now res fin rawurl host) = (case r of Inl e \<Rightarrow> ''DIRECT'' | Inr out \<Rightarrow> out)"
  using assms
  by (auto simp: FindProxyForURLWithError_def Pac_FindProxyForURL_def ensureLoaded_def store_load_def directProxy_def
      split: option.splits sum.splits prod.splits if_splits)

theorem pac_fails_closed_witness:
  defines "p \<equiv> (Pac_NewWithDNS ''x'' [])\<lparr>pac_runtime := Some (5 :: nat)\<rparr>"
    and "call \<equiv> (\<lambda>vm url host. (vm + 1, Inr ''PROXY a:80; DIRECT''))"
  shows "snd (FindProxyForURLWithError call p 0 (Inr 0) 0 ''u'' ''h'') = Inr ''a:80,DIRECT''
    \<and> snd (Pac_FindProxyForURL call p 0 (Inr 0) 0 ''u'' ''h'') = ''a:80,DIRECT''"
proof -
  have "NormalizeResult ''PROXY a:80; DIRECT'' = Inr ''a:80,DIRECT''" by code_simp
  then have r: "FindProxyForURLWithError call p 0 (Inr 0) 0 ''u'' ''h'' = (p\<lparr>pac_runtime := Some 6\<rparr>, Inr ''a:80,DIRECT'')"
    by (simp add: FindProxyForURLWithError_def ensureLoaded_def p_def call_def)
  with pac_fails_closed [OF r] show ?thesis by simp
qed

text \<open>The address that scripts see does not depend on the order of the interfaces. It is
  127.0.0.1 when there is no usable address, and otherwise the least usable IPv4 address, private
  ones before public ones.\<close>

theorem my_ip_deterministic:
  "(if List.map_filter usable_addr addrs = [] then selectMyIPAddressFrom addrs = ''127.0.0.1''
    else \<exists>ip \<in> set (List.map_filter usable_addr addrs). selectMyIPAddressFrom addrs = ip_string ip
      \<and> list_all (\<lambda>q. (addr_rank ip, map unat ip) \<le> (addr_rank q, map unat q)) (List.map_filter usable_addr addrs))
   \<and> (set addrs = set addrs' \<longrightarrow> selectMyIPAddressFrom addrs = selectMyIPAddressFrom addrs')"
proof -
  let ?f = "List.map_filter usable_addr" and ?k = "\<lambda>ip. (addr_rank ip, map unat ip)"
  let ?c = "\<lambda>addrs. rev (remdups (rev (?f addrs)))"
  have "inj (unat :: byte \<Rightarrow> nat)" by (rule injI) (simp add: word_unat_eq_iff)
  then have inj: "inj_on ?k A" for A :: "ip set" by (auto simp: inj_on_def dest: map_injective)
  have ne: "?c xs = [] \<longleftrightarrow> ?f xs = []" for xs by simp
  have least: "hd (sort_key ?k (?c xs)) \<in> set (?f xs) \<and> (\<forall>q \<in> set (?f xs). ?k (hd (sort_key ?k (?c xs))) \<le> ?k q)"
    if "?f xs \<noteq> []" for xs
  proof -
    let ?s = "sort_key ?k (?c xs)"
    have s: "set ?s = set (?f xs)" "sorted (map ?k ?s)" by simp_all
    from s(1) that have "?s \<noteq> []" by (metis set_empty)
    then obtain h t where ht: "?s = h # t" by (cases ?s) blast+
    have "h \<in> set (?f xs)" using s(1) ht by (metis list.set_intros(1))
    moreover have "?k h \<le> ?k q" if "q \<in> set (?f xs)" for q
    proof -
      have "q \<in> set (h # t)" using that s(1) ht by metis
      then show ?thesis using s(2) ht by auto
    qed
    ultimately show ?thesis using ht by simp
  qed
  have sel: "selectMyIPAddressFrom xs = (if ?f xs = [] then ''127.0.0.1'' else ip_string (hd (sort_key ?k (?c xs))))" for xs
    unfolding selectMyIPAddressFrom_def Let_def ne localhostIP_def ..
  have "selectMyIPAddressFrom addrs = selectMyIPAddressFrom addrs'" if "set addrs = set addrs'"
  proof -
    have f: "set (?f addrs) = set (?f addrs')" using that by (simp add: List.map_filter_def)
    show ?thesis
    proof (cases "?f addrs = []")
      case True
      with f have "?f addrs' = []" by (metis set_empty)
      with True show ?thesis by (simp add: sel)
    next
      case False
      with f have f': "?f addrs' \<noteq> []" by (metis set_empty)
      have "?k (hd (sort_key ?k (?c addrs))) = ?k (hd (sort_key ?k (?c addrs')))"
        by (rule order_antisym) (use least [OF False] least [OF f'] f in blast)+
      then have "hd (sort_key ?k (?c addrs)) = hd (sort_key ?k (?c addrs'))" by (rule inj_onD [OF inj [of UNIV]]) simp_all
      with False f' show ?thesis by (simp add: sel)
    qed
  qed
  moreover have "if ?f addrs = [] then selectMyIPAddressFrom addrs = ''127.0.0.1''
    else \<exists>ip \<in> set (?f addrs). selectMyIPAddressFrom addrs = ip_string ip \<and> list_all (\<lambda>q. ?k ip \<le> ?k q) (?f addrs)"
    using least [of addrs] by (auto simp: sel list_all_iff)
  ultimately show ?thesis by blast
qed

theorem my_ip_deterministic_witness:
  "selectMyIPAddressFrom [[8, 8, 8, 8], [127, 0, 0, 1], [10, 0, 0, 7]] =
   selectMyIPAddressFrom [[127, 0, 0, 1], [10, 0, 0, 7], [8, 8, 8, 8]]"
  using my_ip_deterministic [of "[[8, 8, 8, 8], [127, 0, 0, 1], [10, 0, 0, 7]]" "[[127, 0, 0, 1], [10, 0, 0, 7], [8, 8, 8, 8]]"]
  by (simp add: insert_commute)

end
