(* ===== verification/Wproxy.thy ===== *)
theory Wproxy
  imports Systemproxy Pac
begin

text \<open>
  Route selection, \<^verbatim>\<open>internal/wproxy/wproxy.go\<close>: proxy lists, bypass rules, discovery of the route
  source, and the candidates for a request. \<^verbatim>\<open>url.Parse\<close> is an argument: it gives the parts of a
  URL, or none. System discovery, the environment, the DNS cache's answer, the platform resolver
  and the PAC engine are inputs, collected in \<open>route_env\<close>.
\<close>

section \<open>Servers and address sets\<close>

datatype Mode = ModeNone | ModeAuto | ModePAC | ModeManual | ModeEnv | ModeConfig | ModeConfigPAC

datatype RouteSource =
    RouteSourceDirect | RouteSourceConfig | RouteSourceConfigPAC | RouteSourceSystemAuto
  | RouteSourceSystemPAC | RouteSourceSystemAutoPAC | RouteSourceSystemManual | RouteSourceEnvironment

record Server =
  srv_Host :: string
  srv_Port :: int
  srv_Scheme :: string

definition directHost :: string where "directHost = ''DIRECT''"
definition directKey :: string where "directKey = ''direct://DIRECT:80''"

definition DirectServer :: Server where
  "DirectServer = \<lparr>srv_Host = directHost, srv_Port = 80, srv_Scheme = ''direct''\<rparr>"

record IPSet =
  nets :: "IPNet list"
  ranges :: "(ip \<times> ip) list"

definition empty_set :: IPSet where "empty_set = \<lparr>nets = [], ranges = []\<rparr>"

definition AddCIDR :: "IPSet \<Rightarrow> string \<Rightarrow> goerr + IPSet" where
  "AddCIDR s cidr =
     (case ParseCIDR cidr of
        Some ipnet \<Rightarrow> Inr (s\<lparr>nets := nets s @ [ipnet]\<rparr>)
      | None \<Rightarrow>
          (case ParseIP cidr of
             None \<Rightarrow> Inl (ErrMsg ''bad ip'')
           | Some ip \<Rightarrow>
               let (bits, ip) = (case to4 ip of Some ip4 \<Rightarrow> (32, ip4) | None \<Rightarrow> (128, ip))
               in Inr (s\<lparr>nets := nets s @ [\<lparr>net_ip = ip, net_mask = CIDRMask bits bits\<rparr>]\<rparr>)))"

definition AddRange :: "IPSet \<Rightarrow> string \<Rightarrow> string \<Rightarrow> goerr + IPSet" where
  "AddRange s start fin =
     (case (Option.bind (ParseIP start) to4, Option.bind (ParseIP fin) to4) of
        (Some a, Some b) \<Rightarrow> Inr (s\<lparr>ranges := ranges s @ [(a, b)]\<rparr>)
      | _ \<Rightarrow> Inl (ErrMsg ''bad range''))"

fun compare_bytes :: "nat \<Rightarrow> ip \<Rightarrow> ip \<Rightarrow> int" where
  "compare_bytes 0 a b = 0"
| "compare_bytes (Suc n) a b =
     (if hd a < hd b then -1 else if hd a > hd b then 1 else compare_bytes n (tl a) (tl b))"

definition compareIP :: "ip \<Rightarrow> ip \<Rightarrow> int" where "compareIP a b = compare_bytes 4 a b"

definition IPSet_Contains :: "IPSet \<Rightarrow> ip \<Rightarrow> bool" where
  "IPSet_Contains s ip \<longleftrightarrow>
     list_ex (\<lambda>n. IPNet_Contains n ip) (nets s)
     \<or> (case to4 ip of
          Some ip4 \<Rightarrow> list_ex (\<lambda>(a, b). compareIP ip4 a \<ge> 0 \<and> compareIP ip4 b \<le> 0) (ranges s)
        | None \<Rightarrow> False)"

definition IPSet_Size :: "IPSet \<Rightarrow> nat" where "IPSet_Size s = length (nets s) + length (ranges s)"

section \<open>Proxy lists\<close>

record URL =
  u_Scheme :: string
  u_User :: bool
  u_Hostname :: string
  u_Port :: string
  u_Path :: string
  u_EscapedPath :: string
  u_RawQuery :: string
  u_Fragment :: string

definition validProxyScheme :: "string \<Rightarrow> bool" where
  "validProxyScheme scheme \<longleftrightarrow> scheme \<in> set [''http'', ''https'', ''socks'', ''socks4'', ''socks4a'', ''socks5'']"

definition defaultProxyPort :: "string \<Rightarrow> int" where
  "defaultProxyPort scheme =
     (if scheme = ''https'' then 443
      else if scheme \<in> set [''socks'', ''socks4'', ''socks4a'', ''socks5''] then 1080 else 80)"

definition parsePort :: "string \<Rightarrow> goerr + int" where
  "parsePort raw =
     (case atoi raw of
        Some port \<Rightarrow> if port < 1 \<or> port > 65535 then Inl (Wrapped raw (ErrMsg ''invalid port'')) else Inr port
      | None \<Rightarrow> Inl (Wrapped raw (ErrMsg ''invalid port'')))"

definition validateHost :: "string \<Rightarrow> goerr option" where
  "validateHost host =
     (if trim_space host = [] then Some (ErrMsg ''empty host'')
      else if contains_any host ([CHR '' '', CHR 0x09, CHR 0x0D, CHR 0x0A] @ ''/?#[]'')
      then Some (Wrapped host (ErrMsg ''invalid host'')) else None)"

definition parseAuthority :: "string \<Rightarrow> int \<Rightarrow> goerr + (string \<times> int)" where
  "parseAuthority raw defaultPort =
     (let v = trim_space raw in
      if v = [] then Inl (ErrMsg ''empty authority'')
      else case ParseIP v of
        Some ip \<Rightarrow> Inr (ip_string ip, defaultPort)
      | None \<Rightarrow>
          if has_prefix v ''['' \<and> has_suffix v '']'' then
            (case ParseIP (trim_suffix (trim_prefix v ''['') '']'') of
               None \<Rightarrow> Inl (Wrapped v (ErrMsg ''invalid bracketed IP''))
             | Some ip \<Rightarrow> Inr (ip_string ip, defaultPort))
          else if CHR '':'' \<in> set v then
            (case SplitHostPort v of
               None \<Rightarrow> Inl (Wrapped v (ErrMsg ''split host port''))
             | Some (host, portText) \<Rightarrow>
                 (case parsePort portText of
                    Inl e \<Rightarrow> Inl e
                  | Inr port \<Rightarrow> (case validateHost host of Some e \<Rightarrow> Inl e | None \<Rightarrow> Inr (host, port))))
          else (case validateHost v of Some e \<Rightarrow> Inl e | None \<Rightarrow> Inr (v, defaultPort)))"

text \<open>\<^verbatim>\<open>parseProxyEndpoint\<close>; \<open>endpoint_parts\<close> is the part before the final host check.\<close>

definition endpoint_parts :: "(string \<Rightarrow> URL option) \<Rightarrow> string \<Rightarrow> goerr + (string \<times> string \<times> int)" where
  "endpoint_parts url_Parse proxystr =
     (if contains_str proxystr ''://'' then
        (case url_Parse proxystr of
           None \<Rightarrow> Inl (ErrMsg ''bad proxy server'')
         | Some u \<Rightarrow>
             let scheme = to_lower (u_Scheme u) in
             if \<not> validProxyScheme scheme then Inl (Wrapped scheme (ErrMsg ''unsupported proxy scheme''))
             else if u_User u \<or> (u_Path u \<noteq> [] \<and> u_Path u \<noteq> ''/'') \<or> u_RawQuery u \<noteq> [] \<or> u_Fragment u \<noteq> []
             then Inl (Wrapped proxystr (ErrMsg ''proxy server must be an authority''))
             else if u_Port u \<noteq> [] then
               (case parsePort (u_Port u) of
                  Inl e \<Rightarrow> Inl (Wrapped ''bad proxy server port'' e)
                | Inr port \<Rightarrow> Inr (scheme, u_Hostname u, port))
             else Inr (scheme, u_Hostname u, defaultProxyPort scheme))
      else case parseAuthority proxystr 80 of
        Inl e \<Rightarrow> Inl (Wrapped ''bad proxy server'' e)
      | Inr (host, port) \<Rightarrow> Inr (''http'', host, port))"

definition parseProxyEndpoint :: "(string \<Rightarrow> URL option) \<Rightarrow> string \<Rightarrow> goerr + Server" where
  "parseProxyEndpoint url_Parse raw =
     (let proxystr = trim_space raw in
      if proxystr = [] then Inl (ErrMsg ''empty proxy server'')
      else case endpoint_parts url_Parse proxystr of
        Inl e \<Rightarrow> Inl e
      | Inr (scheme, host, port) \<Rightarrow>
          (case validateHost host of
             Some e \<Rightarrow> Inl (Wrapped ''bad proxy server host'' e)
           | None \<Rightarrow> Inr \<lparr>srv_Host = host, srv_Port = port, srv_Scheme = scheme\<rparr>))"

definition server_key :: "Server \<Rightarrow> string" where
  "server_key s = srv_Scheme s @ ''://'' @ JoinHostPort (to_lower (srv_Host s)) (itoa (srv_Port s))"

fun parse_proxy_loop :: "(string \<Rightarrow> URL option) \<Rightarrow> string list \<Rightarrow> Server list \<Rightarrow> string list \<Rightarrow> goerr + Server list" where
  "parse_proxy_loop url_Parse [] servers seen = Inr servers"
| "parse_proxy_loop url_Parse (item # rest) servers seen =
     (let proxystr = trim_space item in
      if proxystr = [] then parse_proxy_loop url_Parse rest servers seen
      else if equal_fold proxystr directHost then
        (if directKey \<in> set seen then parse_proxy_loop url_Parse rest servers seen
         else parse_proxy_loop url_Parse rest (servers @ [DirectServer]) (directKey # seen))
      else case parseProxyEndpoint url_Parse proxystr of
        Inl e \<Rightarrow> Inl e
      | Inr server \<Rightarrow>
          (let key = server_key server in
           if key \<in> set seen then parse_proxy_loop url_Parse rest servers seen
           else parse_proxy_loop url_Parse rest (servers @ [server]) (key # seen)))"

definition ParseProxy :: "(string \<Rightarrow> URL option) \<Rightarrow> string \<Rightarrow> goerr + Server list" where
  "ParseProxy url_Parse proxystrs =
     (if trim_space proxystrs = [] then Inr []
      else parse_proxy_loop url_Parse (split_on (CHR '','') proxystrs) [] [])"

section \<open>Bypass rules\<close>

record noProxyMatcher =
  m_host :: string
  m_port :: int
  m_subdomainsOnly :: bool
  m_local :: bool

definition host_matcher :: "string \<Rightarrow> noProxyMatcher" where
  "host_matcher h = \<lparr>m_host = h, m_port = 0, m_subdomainsOnly = False, m_local = False\<rparr>"

record noProxyRules =
  np_set :: IPSet
  np_hosts :: "string list"
  np_matchers :: "noProxyMatcher list"

definition no_rules :: noProxyRules where
  "no_rules = \<lparr>np_set = empty_set, np_hosts = [], np_matchers = []\<rparr>"

definition add_host :: "string \<Rightarrow> noProxyRules \<Rightarrow> noProxyRules" where
  "add_host h r = r\<lparr>np_hosts := (if h \<in> set (np_hosts r) then np_hosts r else np_hosts r @ [h])\<rparr>"

definition add_matcher :: "noProxyMatcher \<Rightarrow> noProxyRules \<Rightarrow> noProxyRules" where
  "add_matcher m r = r\<lparr>np_matchers := np_matchers r @ [m]\<rparr>"

definition with_set :: "noProxyRules \<Rightarrow> goerr + IPSet \<Rightarrow> (goerr \<Rightarrow> goerr) \<Rightarrow> noProxyRules \<times> goerr option" where
  "with_set r res wrap = (case res of Inl e \<Rightarrow> (r, Some (wrap e)) | Inr st \<Rightarrow> (r\<lparr>np_set := st\<rparr>, None))"

definition parseIPToken :: "string \<Rightarrow> ip option" where
  "parseIPToken token =
     ParseIP (if has_prefix token ''['' \<and> has_suffix token '']'' then trim_suffix (trim_prefix token ''['') '']'' else token)"

definition looksLikeIP :: "string \<Rightarrow> bool" where
  "looksLikeIP token \<longleftrightarrow> ParseIP token \<noteq> None \<or> count_char (CHR ''.'') token = 3 \<or> CHR '':'' \<in> set token"

definition looksLikeIPRange :: "string \<Rightarrow> bool" where
  "looksLikeIPRange token \<longleftrightarrow> count_char (CHR ''-'') token = 1
     \<and> (case cut_char (CHR ''-'') token of (a, b, _) \<Rightarrow> looksLikeIP a \<and> looksLikeIP b)"

definition isIPv4GlobCandidate :: "string \<Rightarrow> bool" where
  "isIPv4GlobCandidate token =
     (let parts = split_on (CHR ''.'') token in
      length parts = 4 \<and> list_all (\<lambda>p. p = ''*'' \<or> atoi p \<noteq> None) parts)"

definition parseNoProxyHostPort :: "string \<Rightarrow> goerr + (string \<times> int)" where
  "parseNoProxyHostPort token =
     (case SplitHostPort token of
        None \<Rightarrow> Inl (Wrapped token (ErrMsg ''bad no-proxy host:port''))
      | Some (host, portText) \<Rightarrow>
          (case validateHost host of
             Some e \<Rightarrow> Inl (Wrapped token e)
           | None \<Rightarrow> (case parsePort portText of Inl e \<Rightarrow> Inl (Wrapped token e) | Inr port \<Rightarrow> Inr (host, port))))"

definition normalizeHostRule :: "string \<Rightarrow> string" where
  "normalizeHostRule host = trim_suffix (trim_prefix (to_lower host) ''.'') ''.''"

definition glob_start :: "string \<Rightarrow> string" where "glob_start p = (if p = ''*'' then ''0'' else p)"
definition glob_end :: "string \<Rightarrow> string" where "glob_end p = (if p = ''*'' then ''255'' else p)"

definition addGlob :: "IPSet \<Rightarrow> string \<Rightarrow> goerr + IPSet" where
  "addGlob st glob =
     (let parts = split_on (CHR ''.'') glob in
      if length parts \<noteq> 4 then Inl (ErrMsg ''bad glob'')
      else if list_ex (\<lambda>p. p \<noteq> ''*'' \<and> atoi p = None) parts then Inl (ErrMsg ''bad glob'')
      else AddRange st (join_with ''.'' (map glob_start parts)) (join_with ''.'' (map glob_end parts)))"

text \<open>The loop body of \<^verbatim>\<open>parseNoProxy\<close> for one non-empty token: the rules so far, and the error that
  ends the loop.\<close>

definition noproxy_local :: "bool \<Rightarrow> noProxyRules \<Rightarrow> noProxyRules \<times> goerr option" where
  "noproxy_local iponly r =
     (let r = add_host ''localhost'' r in
      case AddCIDR (np_set r) ''127.0.0.0/8'' of
        Inl e \<Rightarrow> (r, Some e)
      | Inr s1 \<Rightarrow>
          (case AddCIDR s1 ''::1/128'' of
             Inl e \<Rightarrow> (r\<lparr>np_set := s1\<rparr>, Some e)
           | Inr s2 \<Rightarrow>
               (let r = r\<lparr>np_set := s2\<rparr> in
                (if iponly then r
                 else add_matcher \<lparr>m_host = [], m_port = 0, m_subdomainsOnly = False, m_local = True\<rparr> r, None))))"

definition noproxy_wildcard :: "bool \<Rightarrow> string \<Rightarrow> noProxyRules \<Rightarrow> noProxyRules \<times> goerr option" where
  "noproxy_wildcard iponly bypass r =
     (if isIPv4GlobCandidate bypass then with_set r (addGlob (np_set r) bypass) (Wrapped ''bad no-proxy glob'')
      else if \<not> iponly \<and> has_prefix bypass ''*.'' then
        (let host = normalizeHostRule (trim_prefix bypass ''*.'') in
         case validateHost host of
           Some e \<Rightarrow> (r, Some (Wrapped ''bad no-proxy host wildcard'' e))
         | None \<Rightarrow> (add_matcher (host_matcher host\<lparr>m_subdomainsOnly := True\<rparr>) (add_host (''*.'' @ host) r), None))
      else (r, Some (Wrapped bypass (ErrMsg ''unsupported no-proxy wildcard''))))"

definition noproxy_hostport :: "string \<Rightarrow> noProxyRules \<Rightarrow> noProxyRules \<times> goerr option" where
  "noproxy_hostport bypass r =
     (case parseNoProxyHostPort bypass of
        Inl e \<Rightarrow> (r, Some e)
      | Inr (host, port) \<Rightarrow>
          (add_matcher (host_matcher (normalizeHostRule host)\<lparr>m_port := port\<rparr>) (add_host (JoinHostPort host (itoa port)) r), None))"

definition noproxy_token :: "bool \<Rightarrow> string \<Rightarrow> noProxyRules \<Rightarrow> noProxyRules \<times> goerr option" where
  "noproxy_token iponly bypass r =
     (if bypass = ''<local>'' then noproxy_local iponly r
      else if bypass = ''*'' \<and> \<not> iponly then (add_matcher (host_matcher ''*'') (add_host bypass r), None)
      else case parseIPToken bypass of
        Some ip \<Rightarrow> with_set r (AddCIDR (np_set r) (ip_string ip)) (\<lambda>e. e)
      | None \<Rightarrow>
          if CHR ''/'' \<in> set bypass then with_set r (AddCIDR (np_set r) bypass) (Wrapped ''bad no-proxy network'')
          else if looksLikeIPRange bypass then
            (case cut_char (CHR ''-'') bypass of
               (a, b, _) \<Rightarrow> with_set r (AddRange (np_set r) a b) (Wrapped ''bad no-proxy range''))
          else if CHR ''*'' \<in> set bypass then noproxy_wildcard iponly bypass r
          else if iponly then (r, Some (Wrapped bypass (ErrMsg ''bad ip'')))
          else if CHR '':'' \<in> set bypass then noproxy_hostport bypass r
          else
            (let host = normalizeHostRule bypass in
             case validateHost host of
               Some e \<Rightarrow> (r, Some (Wrapped ''bad no-proxy host'' e))
             | None \<Rightarrow> (add_matcher (host_matcher host) (add_host bypass r), None)))"

fun noproxy_loop :: "bool \<Rightarrow> string list \<Rightarrow> noProxyRules \<Rightarrow> noProxyRules \<times> goerr option" where
  "noproxy_loop iponly [] r = (r, None)"
| "noproxy_loop iponly (raw # rest) r =
     (let bypass = trim_space raw in
      if bypass = [] then noproxy_loop iponly rest r
      else case noproxy_token iponly bypass r of
        (r, Some e) \<Rightarrow> (r, Some e)
      | (r, None) \<Rightarrow> noproxy_loop iponly rest r)"

definition parseNoProxy :: "string \<Rightarrow> bool \<Rightarrow> noProxyRules \<times> goerr option" where
  "parseNoProxy noproxystr iponly =
     (if trim_space noproxystr = [] then (no_rules, None)
      else noproxy_loop iponly
        (split_on (CHR '','') (map (\<lambda>c. if c = CHR '';'' \<or> c = CHR '' '' then CHR '','' else c) (to_lower noproxystr))) no_rules)"

definition ParseNoProxy :: "string \<Rightarrow> bool \<Rightarrow> IPSet \<times> string list \<times> goerr option" where
  "ParseNoProxy noproxystr iponly =
     (case parseNoProxy noproxystr iponly of (r, err) \<Rightarrow> (np_set r, np_hosts r, err))"

fun hostMatchesNoProxy :: "noProxyMatcher list \<Rightarrow> Server \<Rightarrow> bool" where
  "hostMatchesNoProxy [] netloc = False"
| "hostMatchesNoProxy (m # ms) netloc =
     (let host = normalizeHostRule (srv_Host netloc) in
      if m_local m then
        (if ParseIP host = None \<and> CHR ''.'' \<notin> set host then True else hostMatchesNoProxy ms netloc)
      else if m_port m \<noteq> 0 \<and> m_port m \<noteq> srv_Port netloc then hostMatchesNoProxy ms netloc
      else if m_host m = ''*'' then True
      else if m_subdomainsOnly m then
        (if has_suffix host (''.'' @ m_host m) then True else hostMatchesNoProxy ms netloc)
      else if host = m_host m \<or> has_suffix host (''.'' @ m_host m) then True
      else hostMatchesNoProxy ms netloc)"

definition isNoProxy :: "IPSet \<Rightarrow> noProxyMatcher list \<Rightarrow> (string \<Rightarrow> ip list) \<Rightarrow> Server \<Rightarrow> bool" where
  "isNoProxy st matchers lookup netloc =
     (let host = normalizeHostRule (srv_Host netloc) in
      if hostMatchesNoProxy matchers netloc then True
      else if IPSet_Size st = 0 then False
      else case ParseIP host of
        Some ip \<Rightarrow> IPSet_Contains st ip
      | None \<Rightarrow> list_ex (IPSet_Contains st) (lookup host))"

section \<open>Route sources\<close>

record environmentProxySet =
  ep_byScheme :: "(string, Server list) gomap"
  ep_all :: "Server list"

definition forScheme :: "environmentProxySet \<Rightarrow> string \<Rightarrow> Server list" where
  "forScheme e scheme =
     (case gm_get (ep_byScheme e) (to_lower scheme) of
        Some servers \<Rightarrow> if servers \<noteq> [] then servers else ep_all e
      | None \<Rightarrow> ep_all e)"

fun firstEnv :: "(string \<Rightarrow> string) \<Rightarrow> string list \<Rightarrow> string" where
  "firstEnv getenv [] = []"
| "firstEnv getenv (k # ks) = (if getenv k \<noteq> [] then getenv k else firstEnv getenv ks)"

fun discover_schemes :: "(string \<Rightarrow> URL option) \<Rightarrow> (string \<Rightarrow> string) \<Rightarrow> (string \<times> string list) list
    \<Rightarrow> environmentProxySet \<times> bool \<Rightarrow> goerr + (environmentProxySet \<times> bool)" where
  "discover_schemes url_Parse getenv [] acc = Inr acc"
| "discover_schemes url_Parse getenv ((scheme, ks) # rest) (result, found) =
     (let raw = firstEnv getenv ks in
      if raw = [] then discover_schemes url_Parse getenv rest (result, found)
      else case ParseProxy url_Parse raw of
        Inl e \<Rightarrow> Inl (Wrapped (''parse '' @ scheme @ '' proxy environment'') e)
      | Inr servers \<Rightarrow>
          discover_schemes url_Parse getenv rest (result\<lparr>ep_byScheme := gm_put scheme servers (ep_byScheme result)\<rparr>, True))"

definition discoverEnvironmentProxies ::
    "(string \<Rightarrow> URL option) \<Rightarrow> (string \<Rightarrow> string) \<Rightarrow> goerr + (environmentProxySet \<times> bool)" where
  "discoverEnvironmentProxies url_Parse getenv =
     (case discover_schemes url_Parse getenv
        [(''http'', [''http_proxy'', ''HTTP_PROXY'']), (''https'', [''https_proxy'', ''HTTPS_PROXY''])]
        (\<lparr>ep_byScheme = [], ep_all = []\<rparr>, False) of
        Inl e \<Rightarrow> Inl e
      | Inr (result, found) \<Rightarrow>
          (let raw = firstEnv getenv [''all_proxy'', ''ALL_PROXY''] in
           if raw = [] then Inr (result, found)
           else case ParseProxy url_Parse raw of
             Inl e \<Rightarrow> Inl (Wrapped ''parse all_proxy environment'' e)
           | Inr servers \<Rightarrow> Inr (result\<lparr>ep_all := servers\<rparr>, True)))"

record 'vm Wproxy =
  wp_Mode :: Mode
  wp_Source :: RouteSource
  wp_SystemProxySupported :: bool
  wp_Servers :: "Server list"
  wp_Rules :: noProxyRules
  wp_NoProxyHostsStr :: string
  wp_PAC :: "'vm Pac option"
  wp_resolver :: bool
  wp_systemConfig :: Config
  wp_env :: environmentProxySet

fun routeSourceForMode :: "Mode \<Rightarrow> RouteSource" where
  "routeSourceForMode ModeConfig = RouteSourceConfig"
| "routeSourceForMode ModeConfigPAC = RouteSourceConfigPAC"
| "routeSourceForMode ModeAuto = RouteSourceSystemAuto"
| "routeSourceForMode ModePAC = RouteSourceSystemPAC"
| "routeSourceForMode ModeManual = RouteSourceSystemManual"
| "routeSourceForMode ModeEnv = RouteSourceEnvironment"
| "routeSourceForMode ModeNone = RouteSourceDirect"

definition no_config :: Config where
  "no_config = \<lparr>cf_ManualProxy = \<lparr>mp_Default = [], mp_ByScheme = []\<rparr>, cf_PACURL = [], cf_Bypass = [],
     cf_Supported = False, cf_Found = False, cf_IsPAC = False, cf_AutoDetect = False\<rparr>"

definition mergeNoProxy :: "'vm Wproxy \<Rightarrow> string \<Rightarrow> goerr + 'vm Wproxy" where
  "mergeNoProxy w noproxy =
     (if noproxy = [] then Inr w
      else case parseNoProxy noproxy False of
        (r2, Some e) \<Rightarrow> Inl e
      | (r2, None) \<Rightarrow>
          (let r = wp_Rules w in
           Inr (w\<lparr>wp_Rules := foldl (\<lambda>r h. add_host h r)
             \<lparr>np_set = \<lparr>nets = nets (np_set r) @ nets (np_set r2), ranges = ranges (np_set r) @ ranges (np_set r2)\<rparr>,
              np_hosts = np_hosts r, np_matchers = np_matchers r @ np_matchers r2\<rparr> (np_hosts r2)\<rparr>)))"

definition pac_server :: "string \<Rightarrow> Server" where
  "pac_server url = \<lparr>srv_Host = url, srv_Port = 0, srv_Scheme = ''pac''\<rparr>"

text \<open>The two halves of the discovery for \<^verbatim>\<open>ModeNone\<close>: a system source, or the environment.\<close>

definition use_system :: "'vm Wproxy \<Rightarrow> Config \<Rightarrow> goerr + 'vm Wproxy" where
  "use_system w sys =
     (let w = w\<lparr>wp_systemConfig := sys\<rparr>;
          w' = (if cf_AutoDetect sys \<and> cf_IsPAC sys
                then Some (w\<lparr>wp_Mode := ModeAuto, wp_Source := RouteSourceSystemAutoPAC, wp_Servers := [pac_server (cf_PACURL sys)]\<rparr>)
                else if cf_AutoDetect sys then Some (w\<lparr>wp_Mode := ModeAuto, wp_Source := RouteSourceSystemAuto\<rparr>)
                else if cf_IsPAC sys
                then Some (w\<lparr>wp_Mode := ModePAC, wp_Source := RouteSourceSystemPAC, wp_Servers := [pac_server (cf_PACURL sys)]\<rparr>)
                else if \<not> ManualProxyMap_Empty (cf_ManualProxy sys)
                then Some (w\<lparr>wp_Mode := ModeManual, wp_Source := RouteSourceSystemManual\<rparr>)
                else None)
      in case w' of
           None \<Rightarrow> Inl (ErrMsg ''system proxy discovery marked Found without a usable source'')
         | Some w \<Rightarrow> (case mergeNoProxy w (cf_Bypass sys) of
             Inl e \<Rightarrow> Inl (Wrapped ''parse system proxy bypass'' e) | Inr w \<Rightarrow> Inr w))"

definition use_environment :: "(string \<Rightarrow> URL option) \<Rightarrow> (string \<Rightarrow> string) \<Rightarrow> 'vm Wproxy \<Rightarrow> goerr + 'vm Wproxy" where
  "use_environment url_Parse getenv w =
     (case discoverEnvironmentProxies url_Parse getenv of
        Inl e \<Rightarrow> Inl e
      | Inr (envProxies, found) \<Rightarrow>
          if \<not> found then Inr (w\<lparr>wp_Source := RouteSourceDirect\<rparr>)
          else
            let servers = forScheme envProxies ''http'';
                w = w\<lparr>wp_Mode := ModeEnv, wp_Source := RouteSourceEnvironment, wp_env := envProxies,
                      wp_Servers := (if servers = [] then ep_all envProxies else servers)\<rparr>;
                no = firstEnv getenv [''no_proxy'', ''NO_PROXY'']
            in if no = [] then Inr w
               else case mergeNoProxy w no of Inl e \<Rightarrow> Inl (Wrapped ''parse no_proxy'' e) | Inr w \<Rightarrow> Inr w)"

definition init_resolver :: "'vm Wproxy \<Rightarrow> goerr option \<Rightarrow> goerr + 'vm Wproxy" where
  "init_resolver w resolverErr =
     (if wp_Mode w = ModeAuto \<or> wp_Mode w = ModePAC then
        (let w = (if cf_Found (wp_systemConfig w) then w
                  else w\<lparr>wp_systemConfig := no_config\<lparr>cf_Supported := True, cf_Found := True,
                    cf_AutoDetect := (wp_Mode w = ModeAuto), cf_IsPAC := (wp_Mode w = ModePAC),
                    cf_PACURL := (if wp_Mode w = ModePAC \<and> wp_Servers w \<noteq> [] then srv_Host (hd (wp_Servers w)) else [])\<rparr>\<rparr>)
         in case resolverErr of
              Some e \<Rightarrow> Inl (Wrapped ''initialize system proxy resolver'' e)
            | None \<Rightarrow> Inr (w\<lparr>wp_resolver := True\<rparr>))
      else Inr w)"

text \<open>What construction meets: the discovered system configuration, the environment, whether the
  platform resolver starts, and the outcome and time of loading a configured PAC.\<close>

record 'vm boot_env =
  be_parse :: "string \<Rightarrow> URL option"
  be_system :: Config
  be_getenv :: "string \<Rightarrow> string"
  be_resolverErr :: "goerr option"
  be_load :: "goerr + 'vm"
  be_now :: gotime

definition load_configured :: "'vm boot_env \<Rightarrow> string \<Rightarrow> 'vm Wproxy \<Rightarrow> goerr + 'vm Wproxy" where
  "load_configured be pacEncoding w =
     (if wp_Mode w = ModeConfigPAC \<and> wp_Servers w \<noteq> [] then
        (case Pac_Load (Pac_NewWithDNS (srv_Host (hd (wp_Servers w))) pacEncoding) (be_load be) (be_now be) of
           (p, Some e) \<Rightarrow> Inl (Wrapped ''load configured PAC'' e)
         | (p, None) \<Rightarrow> Inr (w\<lparr>wp_PAC := Some p\<rparr>))
      else Inr w)"

definition discover_source :: "'vm boot_env \<Rightarrow> 'vm Wproxy \<Rightarrow> goerr + 'vm Wproxy" where
  "discover_source be w =
     (if wp_Mode w \<noteq> ModeNone then Inr w
      else
        let w = w\<lparr>wp_SystemProxySupported := cf_Supported (be_system be)\<rparr> in
        if cf_Found (be_system be) then use_system w (be_system be)
        else use_environment (be_parse be) (be_getenv be) w)"

definition NewWithDNS :: "Mode \<Rightarrow> Server list \<Rightarrow> string \<Rightarrow> string \<Rightarrow> 'vm boot_env \<Rightarrow> goerr + 'vm Wproxy" where
  "NewWithDNS mode servers noproxy pacEncoding be =
     (case parseNoProxy noproxy False of
        (r, Some e) \<Rightarrow> Inl e
      | (r, None) \<Rightarrow>
          let w = \<lparr>wp_Mode = mode, wp_Source = routeSourceForMode mode, wp_SystemProxySupported = False,
                   wp_Servers = servers, wp_Rules = r, wp_NoProxyHostsStr = [], wp_PAC = None, wp_resolver = False,
                   wp_systemConfig = no_config, wp_env = \<lparr>ep_byScheme = [], ep_all = []\<rparr>\<rparr>
          in (case load_configured be pacEncoding w of
               Inl e \<Rightarrow> Inl e
             | Inr w \<Rightarrow>
                 (case discover_source be w of
                    Inl e \<Rightarrow> Inl e
                  | Inr w \<Rightarrow>
                      (case init_resolver w (be_resolverErr be) of
                         Inl e \<Rightarrow> Inl e
                       | Inr w \<Rightarrow> Inr (w\<lparr>wp_NoProxyHostsStr := join_with '','' (np_hosts (wp_Rules w))\<rparr>)))))"

section \<open>Candidates for a request\<close>

definition GetNetloc :: "(string \<Rightarrow> URL option) \<Rightarrow> string \<Rightarrow> goerr + (Server \<times> string)" where
  "GetNetloc url_Parse rawurl =
     (if \<not> contains_str rawurl ''://'' then
        (case parseAuthority rawurl 80 of
           Inl e \<Rightarrow> Inl (Wrapped ''bad target authority'' e)
         | Inr (host, port) \<Rightarrow> Inr (\<lparr>srv_Host = host, srv_Port = port, srv_Scheme = []\<rparr>, ''/''))
      else case url_Parse rawurl of
        None \<Rightarrow> Inl (ErrMsg ''parse URL'')
      | Some u \<Rightarrow>
          (case validateHost (u_Hostname u) of
             Some e \<Rightarrow> Inl (Wrapped ''bad target host'' e)
           | None \<Rightarrow>
               let scheme = to_lower (u_Scheme u);
                   path = (if u_EscapedPath u = [] then ''/'' else u_EscapedPath u);
                   path = (if u_RawQuery u \<noteq> [] then path @ ''?'' @ u_RawQuery u else path)
               in if u_Port u \<noteq> [] then
                    (case parsePort (u_Port u) of
                       Inl e \<Rightarrow> Inl (Wrapped ''bad target port'' e)
                     | Inr port \<Rightarrow> Inr (\<lparr>srv_Host = u_Hostname u, srv_Port = port, srv_Scheme = scheme\<rparr>, path))
                  else Inr (\<lparr>srv_Host = u_Hostname u,
                         srv_Port = (if scheme = ''https'' then 443 else if scheme = ''ftp'' then 21 else 80),
                         srv_Scheme = scheme\<rparr>, path)))"

record 'vm route_env =
  re_parse :: "string \<Rightarrow> URL option"
  re_lookup :: "string \<Rightarrow> ip list"
  re_call :: "'vm \<Rightarrow> string \<Rightarrow> string \<Rightarrow> 'vm \<times> (goerr + string)"
  re_now :: gotime
  re_load :: "goerr + 'vm"
  re_fin :: gotime
  re_resolve :: "string \<Rightarrow> Config \<Rightarrow> goerr + string"

definition wrap_result :: "string \<Rightarrow> goerr + 'a \<Rightarrow> goerr + 'a" where
  "wrap_result msg r = (case r of Inl e \<Rightarrow> Inl (Wrapped msg e) | Inr x \<Rightarrow> Inr x)"

text \<open>The candidates of the branches of \<^verbatim>\<open>FindProxyForURL\<close>, after the bypass check.\<close>

definition route_pac :: "'vm route_env \<Rightarrow> 'vm Pac \<Rightarrow> string \<Rightarrow> string \<Rightarrow> 'vm Pac \<times> (goerr + Server list)" where
  "route_pac env p rawurl host =
     (case FindProxyForURLWithError (re_call env) p (re_now env) (re_load env) (re_fin env) rawurl host of
        (p, Inl e) \<Rightarrow> (p, Inl (Wrapped ''evaluate configured PAC'' e))
      | (p, Inr out) \<Rightarrow> (p, wrap_result ''parse configured PAC result'' (ParseProxy (re_parse env) out)))"

definition route_env_servers :: "'vm Wproxy \<Rightarrow> string \<Rightarrow> Server list" where
  "route_env_servers w scheme =
     (let servers = forScheme (wp_env w) scheme;
          servers = (if servers = [] \<and> wp_Servers w \<noteq> [] \<and> ep_byScheme (wp_env w) = [] \<and> ep_all (wp_env w) = []
                     then wp_Servers w else servers)
      in if servers = [] then [DirectServer] else servers)"

definition route_manual :: "'vm route_env \<Rightarrow> 'vm Wproxy \<Rightarrow> string \<Rightarrow> goerr + Server list" where
  "route_manual env w scheme =
     (let raw = ForScheme (cf_ManualProxy (wp_systemConfig w)) scheme in
      if trim_space raw = [] then Inr [DirectServer]
      else wrap_result ''parse system manual proxy'' (ParseProxy (re_parse env) raw))"

definition route_system :: "'vm route_env \<Rightarrow> 'vm Wproxy \<Rightarrow> string \<Rightarrow> goerr + Server list" where
  "route_system env w rawurl =
     (if \<not> wp_resolver w then Inl (ErrMsg ''system proxy resolver is not initialized'')
      else case re_resolve env rawurl (wp_systemConfig w) of
        Inl e \<Rightarrow> Inl (Wrapped ''resolve system proxy'' e)
      | Inr out \<Rightarrow>
          if trim_space out = [] then Inl (ErrMsg ''system proxy resolver returned empty result'')
          else case ValidateCanonicalResult out of
            Some e \<Rightarrow> Inl (Wrapped ''validate system PAC result'' e)
          | None \<Rightarrow> wrap_result ''parse system PAC result'' (ParseProxy (re_parse env) out))"

definition route_after_bypass :: "'vm route_env \<Rightarrow> 'vm Wproxy \<Rightarrow> string \<Rightarrow> Server \<Rightarrow> 'vm Wproxy \<times> (goerr + Server list)" where
  "route_after_bypass env w rawurl netloc =
     (case (if wp_Mode w = ModeConfigPAC then wp_PAC w else None) of
        Some p \<Rightarrow> (case route_pac env p rawurl (srv_Host netloc) of (p, r) \<Rightarrow> (w\<lparr>wp_PAC := Some p\<rparr>, r))
      | None \<Rightarrow>
          if wp_Mode w = ModeEnv then (w, Inr (route_env_servers w (srv_Scheme netloc)))
          else if wp_Mode w = ModeManual \<and> \<not> ManualProxyMap_Empty (cf_ManualProxy (wp_systemConfig w))
          then (w, route_manual env w (srv_Scheme netloc))
          else if wp_Mode w = ModeAuto \<or> wp_Mode w = ModePAC then (w, route_system env w rawurl)
          else (w, Inr (wp_Servers w)))"

definition FindProxyForURL :: "'vm route_env \<Rightarrow> 'vm Wproxy \<Rightarrow> string \<Rightarrow> 'vm Wproxy \<times> (goerr + (Server list \<times> Server \<times> string))" where
  "FindProxyForURL env w rawurl =
     (case GetNetloc (re_parse env) rawurl of
        Inl e \<Rightarrow> (w, Inl e)
      | Inr (netloc, path) \<Rightarrow>
          if wp_Mode w = ModeNone then (w, Inr ([DirectServer], netloc, path))
          else if isNoProxy (np_set (wp_Rules w)) (np_matchers (wp_Rules w)) (re_lookup env) netloc
          then (w, Inr ([DirectServer], netloc, path))
          else case route_after_bypass env w rawurl netloc of
            (w, Inl e) \<Rightarrow> (w, Inl e)
          | (w, Inr servers) \<Rightarrow> (w, Inr (servers, netloc, path)))"

definition Wproxy_Close :: "'vm Wproxy \<Rightarrow> 'vm Wproxy \<times> bool" where
  "Wproxy_Close w = (if wp_resolver w then (w\<lparr>wp_resolver := False\<rparr>, True) else (w, False))"

section \<open>Proxy lists: lemmas\<close>

lemma trim_space_all: "\<forall>c \<in> set s. go_space c \<Longrightarrow> trim_space s = []"
  by (simp add: trim_space_def dropWhile_eq_Nil_conv [THEN iffD2])

lemma trim_space_blank: "trim_space s = [] \<Longrightarrow> \<forall>c \<in> set s. go_space c"
proof -
  assume "trim_space s = []"
  then have "\<forall>c \<in> set (dropWhile go_space s). go_space c" by (simp add: trim_space_def trim_right_by_def)
  then show ?thesis by (metis dropWhile_eq_Nil_conv hd_dropWhile hd_in_set)
qed

definition server_ok :: "Server \<Rightarrow> bool" where
  "server_ok s \<longleftrightarrow> s = DirectServer
     \<or> (validProxyScheme (srv_Scheme s) \<and> 1 \<le> srv_Port s \<and> srv_Port s \<le> 65535 \<and> validateHost (srv_Host s) = None)"

lemma parsePort_range: "parsePort raw = Inr p \<Longrightarrow> 1 \<le> p \<and> p \<le> 65535"
  by (auto simp: parsePort_def split: option.splits if_splits)

lemma parseAuthority_port: "parseAuthority raw d = Inr (h, p) \<Longrightarrow> 1 \<le> d \<and> d \<le> 65535 \<Longrightarrow> 1 \<le> p \<and> p \<le> 65535"
  by (auto simp: parseAuthority_def Let_def split: option.splits if_splits sum.splits dest: parsePort_range)

lemma endpoint_parts_ok:
  "endpoint_parts parse s = Inr (sch, h, p) \<Longrightarrow> validProxyScheme sch \<and> 1 \<le> p \<and> p \<le> 65535"
  by (auto simp: endpoint_parts_def Let_def validProxyScheme_def defaultProxyPort_def
      split: option.splits if_splits sum.splits dest: parsePort_range parseAuthority_port)

lemma scheme_not_direct: "validProxyScheme sch \<Longrightarrow> sch \<noteq> ''direct''"
  by (auto simp: validProxyScheme_def)

lemma parseProxyEndpoint_ok:
  assumes "parseProxyEndpoint parse s = Inr srv"
  shows "server_ok srv \<and> srv \<noteq> DirectServer \<and> validProxyScheme (srv_Scheme srv)"
proof -
  obtain sch h p where "endpoint_parts parse (trim_space s) = Inr (sch, h, p)" "validateHost h = None"
      "srv = \<lparr>srv_Host = h, srv_Port = p, srv_Scheme = sch\<rparr>"
    using assms by (auto simp: parseProxyEndpoint_def Let_def split: option.splits if_splits sum.splits)
  with endpoint_parts_ok [of parse "trim_space s" sch h p] scheme_not_direct [of sch] show ?thesis
    by (auto simp: server_ok_def DirectServer_def)
qed

lemma server_key_not_direct: "validProxyScheme (srv_Scheme s) \<Longrightarrow> server_key s \<noteq> server_key DirectServer"
  by (auto simp: validProxyScheme_def server_key_def DirectServer_def)

lemma server_key_not_directKey: "validProxyScheme (srv_Scheme s) \<Longrightarrow> server_key s \<noteq> directKey"
  by (auto simp: validProxyScheme_def server_key_def directKey_def)

definition list_ok :: "Server list \<Rightarrow> string list \<Rightarrow> bool" where
  "list_ok servers seen \<longleftrightarrow> list_all (\<lambda>s. server_ok s) servers \<and> distinct (map server_key servers)
     \<and> (\<forall>s \<in> set servers. if s = DirectServer then directKey \<in> set seen else server_key s \<in> set seen)
     \<and> (directKey \<in> set seen \<longrightarrow> DirectServer \<in> set servers)"

lemma list_ok_direct: "list_ok servers seen \<Longrightarrow> directKey \<notin> set seen \<Longrightarrow> list_ok (servers @ [DirectServer]) (directKey # seen)"
proof -
  assume ok: "list_ok servers seen" and new: "directKey \<notin> set seen"
  have "server_key s \<noteq> server_key DirectServer" if "s \<in> set servers" for s
    using that ok new server_key_not_direct by (fastforce simp: list_ok_def list_all_iff server_ok_def)
  with ok new show ?thesis by (fastforce simp: list_ok_def server_ok_def)
qed

lemma list_ok_server:
  assumes "list_ok servers seen" "server_key srv \<notin> set seen" "server_ok srv" "validProxyScheme (srv_Scheme srv)" "srv \<noteq> DirectServer"
  shows "list_ok (servers @ [srv]) (server_key srv # seen)"
proof -
  have "server_key s \<noteq> server_key srv" if "s \<in> set servers" for s
    using that assms server_key_not_direct [OF assms(4)] by (cases "s = DirectServer") (fastforce simp: list_ok_def)+
  with assms server_key_not_directKey [OF assms(4)] show ?thesis by (fastforce simp: list_ok_def)
qed

lemma endpoint_not_direct: "equal_fold s directHost \<Longrightarrow> s \<noteq> []"
  by (auto simp: equal_fold_def directHost_def to_lower_def)

lemma parse_proxy_loop_ok:
  "parse_proxy_loop parse items servers seen = Inr out \<Longrightarrow> list_ok servers seen \<Longrightarrow>
   (\<exists>seen'. list_ok out seen')
   \<and> (DirectServer \<in> set out \<longleftrightarrow> DirectServer \<in> set servers \<or> (\<exists>i \<in> set items. equal_fold (trim_space i) directHost))"
proof (induction parse items servers seen rule: parse_proxy_loop.induct)
  case (1 parse servers seen)
  then show ?case by auto
next
  case (2 parse item rest servers seen)
  let ?s = "trim_space item"
  consider (blank) "?s = []" | (dir) "?s \<noteq> []" "equal_fold ?s directHost" | (endp) "?s \<noteq> []" "\<not> equal_fold ?s directHost" by blast
  then show ?case
  proof cases
    case blank
    with 2 endpoint_not_direct show ?thesis by auto
  next
    case dir
    show ?thesis
    proof (cases "directKey \<in> set seen")
      case True
      then have "DirectServer \<in> set servers" using "2.prems"(2) by (simp add: list_ok_def)
      with True dir "2.IH"(2) "2.prems" show ?thesis by auto
    next
      case False
      with dir "2.IH"(3) "2.prems" list_ok_direct [OF "2.prems"(2) False] show ?thesis by auto
    qed
  next
    case endp
    then obtain srv where srv: "parseProxyEndpoint parse ?s = Inr srv"
      using "2.prems"(1) by (auto simp: Let_def split: sum.splits)
    note ok = parseProxyEndpoint_ok [OF srv]
    show ?thesis
    proof (cases "server_key srv \<in> set seen")
      case True
      with endp srv "2.IH"(4) "2.prems" show ?thesis by auto
    next
      case False
      have "list_ok (servers @ [srv]) (server_key srv # seen)" using "2.prems"(2) False ok by (intro list_ok_server) auto
      with False endp srv ok "2.IH"(5) "2.prems" show ?thesis by auto
    qed
  qed
qed

definition items_of :: "string \<Rightarrow> string list" where
  "items_of s = filter (\<lambda>i. i \<noteq> []) (map trim_space (split_on (CHR '','') s))"

lemma count_candidates_Inr:
  "n \<le> maxPACCandidates \<Longrightarrow> count_candidates raws n = Inr k \<longleftrightarrow>
     k = n + length (filter (\<lambda>i. i \<noteq> []) (map trim_space raws)) \<and> k \<le> maxPACCandidates"
  by (induction raws arbitrary: n) auto

lemma Validate_iff:
  "ValidateCanonicalResult out = None \<longleftrightarrow>
     length out \<le> maxPACResultBytes \<and> items_of out \<noteq> [] \<and> length (items_of out) \<le> maxPACCandidates"
proof (cases "count_candidates (split_on (CHR '','') out) 0")
  case (Inl e)
  then have "\<not> length (items_of out) \<le> maxPACCandidates"
    using count_candidates_Inr [of 0 "split_on (CHR '','') out" "length (items_of out)"] by (simp add: items_of_def)
  with Inl show ?thesis by (simp add: ValidateCanonicalResult_def)
next
  case (Inr k)
  then have "k = length (items_of out)" "k \<le> maxPACCandidates"
    using count_candidates_Inr [of 0 "split_on (CHR '','') out" k] by (simp_all add: items_of_def)
  with Inr show ?thesis by (auto simp: ValidateCanonicalResult_def)
qed

lemma items_of_blank: "trim_space s = [] \<Longrightarrow> items_of s = []"
proof -
  assume "trim_space s = []"
  then have "\<forall>c \<in> set s. go_space c" by (rule trim_space_blank)
  then have "trim_space i = []" if "i \<in> set (split_on (CHR '','') s)" for i
    using split_by_elem [OF that] by (intro trim_space_all) blast
  then show ?thesis by (auto simp: items_of_def filter_empty_conv)
qed

lemma parse_proxy_loop_length:
  "parse_proxy_loop parse raws servers seen = Inr out \<Longrightarrow> length seen = length servers \<Longrightarrow>
   length out \<le> length servers + length (filter (\<lambda>i. i \<noteq> []) (map trim_space raws))
   \<and> length servers \<le> length out \<and> (filter (\<lambda>i. i \<noteq> []) (map trim_space raws) \<noteq> [] \<longrightarrow> out \<noteq> [])"
proof (induction parse raws servers seen rule: parse_proxy_loop.induct)
  case (2 parse item rest servers seen)
  have ne: "k \<in> set seen \<Longrightarrow> servers \<noteq> []" for k using "2.prems"(2) by auto
  from 2 show ?case
    by (fastforce simp: Let_def split: if_splits sum.splits dest: ne)
qed auto

lemma ParseProxy_length:
  "ParseProxy parse s = Inr servers \<Longrightarrow> length servers \<le> length (items_of s) \<and> (items_of s \<noteq> [] \<longrightarrow> servers \<noteq> [])"
  using parse_proxy_loop_length [of parse "split_on (CHR '','') s" "[]" "[]" servers] items_of_blank [of s]
  by (auto simp: ParseProxy_def items_of_def split: if_splits)

lemma ParseProxy_facts:
  assumes "ParseProxy url_Parse s = Inr servers"
  shows "list_all server_ok servers \<and> distinct (map server_key servers)
    \<and> (DirectServer \<in> set servers \<longleftrightarrow> list_ex (\<lambda>i. equal_fold (trim_space i) ''DIRECT'') (split_on (CHR '','') s))"
proof (cases "trim_space s = []")
  case True
  have "\<not> equal_fold (trim_space i) directHost" if "i \<in> set (split_on (CHR '','') s)" for i
  proof -
    have "trim_space i = []"
    proof (rule ccontr)
      assume ne: "trim_space i \<noteq> []"
      have sp: "\<forall>c \<in> set s. go_space c" using True by (rule trim_space_blank)
      have "\<forall>c \<in> set i. go_space c" using sp split_by_elem [OF that] by blast
      with ne show False by (simp add: trim_space_all)
    qed
    then show ?thesis using endpoint_not_direct by auto
  qed
  with True assms show ?thesis by (auto simp: ParseProxy_def list_ex_iff directHost_def)
next
  case False
  have init: "list_ok [] []" by (simp add: list_ok_def)
  have "parse_proxy_loop url_Parse (split_on (CHR '','') s) [] [] = Inr servers" using assms False by (simp add: ParseProxy_def)
  from parse_proxy_loop_ok [OF this init] show ?thesis by (auto simp: list_ok_def list_ex_iff directHost_def)
qed

section \<open>Address sets: lemmas\<close>

text \<open>The number that the bytes of an address stand for, most significant byte first.\<close>

definition ip_value :: "ip \<Rightarrow> nat" where
  "ip_value a = foldl (\<lambda>acc b. 256 * acc + unat b) 0 a"

lemma ip_value_acc: "foldl (\<lambda>acc b. 256 * acc + unat b) n a = n * 256 ^ length a + ip_value a"
proof (induction a arbitrary: n rule: rev_induct)
  case (snoc b a)
  have "ip_value (a @ [b]) = 256 * ip_value a + unat b" by (simp add: ip_value_def)
  with snoc show ?case by (simp add: algebra_simps)
qed (simp add: ip_value_def)

lemma ip_value_append: "ip_value (a @ b) = ip_value a * 256 ^ length b + ip_value b"
  using ip_value_acc [of "ip_value a" b] by (simp add: ip_value_def)

lemma ip_value_Cons: "ip_value (x # a) = unat x * 256 ^ length a + ip_value a"
  using ip_value_append [of "[x]" a] by (simp add: ip_value_def)

lemma ip_value_less: "ip_value a < 256 ^ length a"
proof (induction a)
  case (Cons x a)
  have "Suc (unat x) \<le> 256" using unat_byte_less [of x] by (rule Suc_leI)
  then have "Suc (unat x) * 256 ^ length a \<le> 256 * 256 ^ length a" by (rule mult_right_mono) simp
  then have "256 ^ length a + unat x * 256 ^ length a \<le> 256 ^ length (x # a)" by (simp only: mult_Suc list.size power_Suc power_add) simp
  with Cons show ?case unfolding ip_value_Cons by linarith
qed (simp add: ip_value_def)

lemma ip_value_inj: "length a = length b \<Longrightarrow> ip_value a = ip_value b \<Longrightarrow> a = b"
proof (induction a b rule: list_induct2)
  case (Cons x a y b)
  have n: "ip_value a < 256 ^ length b" "ip_value b < 256 ^ length b" using ip_value_less [of a] ip_value_less [of b] Cons(1) by auto
  have "(unat x * 256 ^ length b + ip_value a) div 256 ^ length b = (unat y * 256 ^ length b + ip_value b) div 256 ^ length b"
    using Cons(3) Cons(1) by (simp add: ip_value_Cons)
  with n have "unat x = unat y" by simp
  with Cons show ?case by (simp add: ip_value_Cons word_unat_eq_iff)
qed simp

lemma compare_bytes_value:
  "length a = n \<Longrightarrow> length b = n \<Longrightarrow> compare_bytes n a b = sgn (int (ip_value a) - int (ip_value b))"
proof (induction n arbitrary: a b)
  case (Suc n)
  then obtain x as y bs where ab: "a = x # as" "b = y # bs" "length as = n" "length bs = n"
    by (auto simp: length_Suc_conv)
  have lt: "ip_value as < 256 ^ n" "ip_value bs < 256 ^ n" using ip_value_less [of as] ip_value_less [of bs] ab(3,4) by simp_all
  have step: "u * 256 ^ n + p < v * 256 ^ n + q" if "u < v" "p < 256 ^ n" for u v p q :: nat
  proof -
    have "Suc u * 256 ^ n \<le> v * 256 ^ n" using that(1) by (intro mult_right_mono) auto
    with that(2) show ?thesis by simp
  qed
  have v: "ip_value a = unat x * 256 ^ n + ip_value as" "ip_value b = unat y * 256 ^ n + ip_value bs"
    using ab by (simp_all add: ip_value_Cons)
  consider "unat x < unat y" | "unat y < unat x" | "x = y" using word_unat_eq_iff linorder_less_linear by blast
  then show ?case
  proof cases
    case 1
    then have "ip_value a < ip_value b" unfolding v using lt by (intro step)
    with 1 show ?thesis by (simp add: ab(1,2) word_less_nat_alt)
  next
    case 2
    then have "ip_value b < ip_value a" unfolding v using lt by (intro step)
    with 2 show ?thesis by (simp add: ab(1,2) word_less_nat_alt)
  next
    case 3
    with Suc.IH [OF ab(3,4)] v show ?thesis by (simp add: ab(1,2))
  qed
qed (simp add: ip_value_def)

lemma compareIP_value:
  "length a = 4 \<Longrightarrow> length b = 4 \<Longrightarrow> (compareIP a b \<ge> 0 \<longleftrightarrow> ip_value b \<le> ip_value a) \<and> (compareIP a b \<le> 0 \<longleftrightarrow> ip_value a \<le> ip_value b)"
  by (auto simp: compareIP_def compare_bytes_value sgn_if)

lemma AddRange_ipv4:
  assumes "length a = 4" "length b = 4"
  shows "AddRange s (ipv4_string a) (ipv4_string b) = Inr (s\<lparr>ranges := ranges s @ [(a, b)]\<rparr>)"
  using assms by (simp add: AddRange_def ParseIP_ipv4_string to4_mapped)

lemma contains_range:
  assumes "length a = 4" "length b = 4" "length x = 4"
  shows "IPSet_Contains (s\<lparr>ranges := ranges s @ [(a, b)]\<rparr>) x \<longleftrightarrow>
    IPSet_Contains s x \<or> (ip_value a \<le> ip_value x \<and> ip_value x \<le> ip_value b)"
  using compareIP_value [OF assms(3,1)] compareIP_value [OF assms(3,2)] assms(3)
  by (auto simp: IPSet_Contains_def to4_def)

lemma parse_addr_ipv4: "length a = 4 \<Longrightarrow> parse_addr (ipv4_string a) = Some (v4InV6Prefix @ a, 32)"
proof -
  assume len: "length a = 4"
  then obtain x y z w where "a = [x, y, z, w]" by (auto simp: numeral_eq_Suc length_Suc_conv)
  then have "CHR ''.'' \<in> set (ipv4_string a)" by (simp add: ipv4_string_def)
  then show ?thesis
    using find_first_dot [OF ipv4_string_chars] parse_ipv4_string [OF len] by (simp add: parse_addr_def)
qed

lemma ParseCIDR_ipv4:
  assumes "length a = 4" "n \<le> 32"
  shows "ParseCIDR (ipv4_string a @ ''/'' @ show_nat n) =
    Some \<lparr>net_ip = map2 (\<lambda>x y. x AND y) a (CIDRMask n 32), net_mask = CIDRMask n 32\<rparr>"
proof -
  have "CHR ''/'' \<notin> set (ipv4_string a)"
    using ipv4_string_chars [of a] by (auto simp: list_all_iff is_digit_def)
  then have "cut_char (CHR ''/'') (ipv4_string a @ ''/'' @ show_nat n) = (ipv4_string a, show_nat n, True)"
    using cut_char_found [of "CHR ''/''" "ipv4_string a" "show_nat n"] by simp
  moreover have "dtoi (show_nat n) = Some n"
    using assms(2) show_nat_digits [of n] by (simp add: dtoi_def digits_val_show_nat)
  moreover have "ip_mask (v4InV6Prefix @ a) (CIDRMask n 32) = map2 (\<lambda>x y. x AND y) a (CIDRMask n 32)"
    using assms(1) by (simp add: ip_mask_def v4InV6Prefix_def Let_def)
  ultimately show ?thesis using assms parse_addr_ipv4 [of a] by (simp add: ParseCIDR_def Let_def)
qed

lemma contains_cidr:
  assumes "length a = 4" "length x = 4"
  shows "IPNet_Contains \<lparr>net_ip = map2 (\<lambda>x y. x AND y) a (CIDRMask n 32), net_mask = CIDRMask n 32\<rparr> x
    \<longleftrightarrow> take n (ip_bits x) = take n (ip_bits a)"
  using assms masked_eq_iff [of a x n]
  by (auto simp: IPNet_Contains_def to4_def Let_def mask_idem)

lemma ip_value_zeros: "ip_value (replicate m 0) = 0"
  by (induction m) (simp_all add: ip_value_Cons, simp add: ip_value_def)

lemma ip_value_ones: "ip_value (replicate m 255) = 256 ^ m - 1"
proof (induction m)
  case (Suc m)
  have "(1::nat) \<le> 256 ^ m" by simp
  with Suc show ?case by (simp add: ip_value_Cons)
qed (simp add: ip_value_def)

lemma block_range:
  assumes "length q = length p" "length r = m"
  shows "ip_value (p @ replicate m 0) \<le> ip_value (q @ r) \<and> ip_value (q @ r) \<le> ip_value (p @ replicate m 255) \<longleftrightarrow> q = p"
proof -
  have r: "ip_value r < 256 ^ m" using ip_value_less [of r] assms(2) by simp
  have "ip_value (p @ replicate m 0) \<le> ip_value (q @ r) \<and> ip_value (q @ r) \<le> ip_value (p @ replicate m 255) \<longleftrightarrow>
      ip_value p * 256 ^ m \<le> ip_value q * 256 ^ m + ip_value r
      \<and> ip_value q * 256 ^ m + ip_value r \<le> ip_value p * 256 ^ m + (256 ^ m - 1)"
    using assms(2) by (simp add: ip_value_append ip_value_zeros ip_value_ones)
  also have "\<dots> \<longleftrightarrow> ip_value q = ip_value p"
  proof (rule iffI)
    assume h: "ip_value p * 256 ^ m \<le> ip_value q * 256 ^ m + ip_value r
      \<and> ip_value q * 256 ^ m + ip_value r \<le> ip_value p * 256 ^ m + (256 ^ m - 1)"
    have "ip_value q = (ip_value q * 256 ^ m + ip_value r) div 256 ^ m" using r by simp
    moreover have "ip_value p = (ip_value p * 256 ^ m + (256 ^ m - 1)) div 256 ^ m"
      using div_mult_self3 [of "256 ^ m" "ip_value p" "256 ^ m - 1 :: nat"] div_less [of "256 ^ m - 1" "256 ^ m :: nat"] by simp
    moreover have "ip_value p = (ip_value p * 256 ^ m) div 256 ^ m" by simp
    ultimately show "ip_value q = ip_value p" using h by (metis div_le_mono le_antisym)
  qed (use r in auto)
  also have "\<dots> \<longleftrightarrow> q = p" using ip_value_inj [OF assms(1)] by auto
  finally show ?thesis .
qed

lemma show_nat_chars: "c \<in> set (show_nat n) \<Longrightarrow> is_digit c"
  using show_nat_digits [of n] by (simp add: list_all_iff)

lemma atoi_show: "n < 2 ^ 63 \<Longrightarrow> atoi (show_nat n) \<noteq> None"
  using atoi_itoa [of "int n"] by (simp add: itoa_def)

text \<open>A glob of octets and stars is the range between its least and its greatest address.\<close>

definition glob_text :: "byte option list \<Rightarrow> string" where
  "glob_text ps = join_with ''.'' (map (\<lambda>p. case p of Some b \<Rightarrow> show_nat (unat b) | None \<Rightarrow> ''*'') ps)"

lemma addGlob_range:
  assumes "length ps = 4"
  shows "addGlob s (glob_text ps) = Inr (s\<lparr>ranges := ranges s @
    [(map (case_option 0 id) ps, map (case_option 255 id) ps)]\<rparr>)"
proof -
  let ?t = "\<lambda>p. case p of Some b \<Rightarrow> show_nat (unat (b :: byte)) | None \<Rightarrow> ''*''"
  have dot: "CHR ''.'' \<notin> set (?t p)" for p
    by (auto simp: is_digit_def dest: show_nat_chars split: option.splits)
  then have sp: "split_on (CHR ''.'') (glob_text ps) = map ?t ps"
    unfolding glob_text_def using assms by (intro split_join_on) auto
  have star: "show_nat n \<noteq> ''*''" for n using show_nat_chars [of "CHR ''*''" n] by (auto simp: is_digit_def)
  have "atoi (show_nat (unat b)) \<noteq> None" for b :: byte
    by (rule atoi_show) (rule less_trans [OF unat_byte_less], simp)
  then have "\<not> list_ex (\<lambda>p. p \<noteq> ''*'' \<and> atoi p = None) (map ?t ps)"
    by (auto simp: list_ex_iff split: option.splits)
  moreover have "show_nat 0 = ''0''" "show_nat 255 = ''255''" by code_simp+
  then have "join_with ''.'' (map glob_start (map ?t ps)) = ipv4_string (map (case_option 0 id) ps)"
    "join_with ''.'' (map glob_end (map ?t ps)) = ipv4_string (map (case_option 255 id) ps)"
    using star by (auto simp: ipv4_string_def glob_start_def glob_end_def o_def split: option.splits intro!: arg_cong [of _ _ "join_with ''.''"])
  ultimately show ?thesis using assms sp by (simp add: addGlob_def AddRange_ipv4 Let_def)
qed

section \<open>Host rules: lemmas\<close>

lemma split_on_app: "split_on c (a @ c # b) = split_on c a @ split_on c b"
proof (induction a)
  case (Cons x a)
  obtain y ys where "split_on c a = y # ys" by (cases "split_on c a") auto
  with Cons show ?case by auto
qed simp

lemma join_with_append: "xs \<noteq> [] \<Longrightarrow> ys \<noteq> [] \<Longrightarrow> join_with sep (xs @ ys) = join_with sep xs @ sep @ join_with sep ys"
proof (induction sep xs rule: join_with.induct)
  case (2 sep x)
  then show ?case by (cases ys) auto
qed auto

text \<open>A host is in a domain exactly when the labels of the domain are its last labels.\<close>

lemma domain_labels:
  "(host = d \<or> has_suffix host (''.'' @ d)) \<longleftrightarrow> suffix (split_on (CHR ''.'') d) (split_on (CHR ''.'') host)"
proof
  assume "host = d \<or> has_suffix host (''.'' @ d)"
  then show "suffix (split_on (CHR ''.'') d) (split_on (CHR ''.'') host)"
    by (auto simp: has_suffix_def suffix_def split_on_app)
next
  assume "suffix (split_on (CHR ''.'') d) (split_on (CHR ''.'') host)"
  then obtain xs where xs: "split_on (CHR ''.'') host = xs @ split_on (CHR ''.'') d" by (auto simp: suffix_def)
  then have j: "host = join_with ''.'' (xs @ split_on (CHR ''.'') d)" using join_split_on [of "CHR ''.''" host] by simp
  show "host = d \<or> has_suffix host (''.'' @ d)"
  proof (cases "xs = []")
    case True
    with j show ?thesis by (simp add: join_split_on)
  next
    case False
    with j have "host = join_with ''.'' xs @ ''.'' @ d" by (simp add: join_with_append join_split_on)
    then show ?thesis by (auto simp: has_suffix_def suffix_def)
  qed
qed

text \<open>What one rule means, in terms of labels.\<close>

definition rule_applies :: "noProxyMatcher \<Rightarrow> Server \<Rightarrow> bool" where
  "rule_applies m netloc \<longleftrightarrow>
     (let labels = split_on (CHR ''.'') (normalizeHostRule (srv_Host netloc)); dom = split_on (CHR ''.'') (m_host m) in
      if m_local m then ParseIP (normalizeHostRule (srv_Host netloc)) = None \<and> length labels = 1
      else (m_port m = 0 \<or> m_port m = srv_Port netloc)
        \<and> (m_host m = ''*'' \<or> (if m_subdomainsOnly m then strict_suffix dom labels else suffix dom labels)))"

lemma split_length_one: "length (split_on c s) = 1 \<longleftrightarrow> c \<notin> set s"
proof -
  have "length (split_on c s) = Suc (count_list s c)"
  proof (induction s)
    case (Cons x s)
    then show ?case by (cases "split_on c s") auto
  qed simp
  then show ?thesis by (simp add: count_list_0_iff)
qed

lemma split_on_inj: "split_on c s = split_on c t \<longleftrightarrow> s = t"
  by (metis join_split_on)

lemma subdomain_labels: "has_suffix host (''.'' @ d) \<longleftrightarrow> strict_suffix (split_on (CHR ''.'') d) (split_on (CHR ''.'') host)"
proof -
  have "host \<noteq> d" if "has_suffix host (''.'' @ d)" using that by (auto simp: has_suffix_def suffix_def)
  then show ?thesis using domain_labels [of host d] by (auto simp: strict_suffix_def split_on_inj)
qed

lemma rule_applies_code:
  "rule_applies m netloc \<longleftrightarrow>
     (let host = normalizeHostRule (srv_Host netloc) in
      if m_local m then ParseIP host = None \<and> CHR ''.'' \<notin> set host
      else (m_port m = 0 \<or> m_port m = srv_Port netloc)
        \<and> (m_host m = ''*'' \<or> (if m_subdomainsOnly m then has_suffix host (''.'' @ m_host m)
              else host = m_host m \<or> has_suffix host (''.'' @ m_host m))))"
  unfolding rule_applies_def Let_def split_length_one domain_labels [symmetric] subdomain_labels [symmetric] ..

lemma hostMatches_rules: "hostMatchesNoProxy ms netloc = list_ex (\<lambda>m. rule_applies m netloc) ms"
  by (induction ms) (auto simp: rule_applies_code Let_def)

section \<open>Properties\<close>

text \<open>C34: A proxy list is well formed. Whatever text is parsed, and however URLs are parsed, every
  server of a proxy list that is accepted is DIRECT or has a supported scheme, a port between 1 and
  65535 and a host without spaces, slashes and brackets; no two servers have the same key; and
  DIRECT is in the list exactly when an item says so.\<close>

theorem proxy_list_wellformed:
  assumes "ParseProxy url_Parse s = Inr servers"
  shows "list_all server_ok servers \<and> distinct (map server_key servers)
    \<and> (DirectServer \<in> set servers \<longleftrightarrow> list_ex (\<lambda>i. equal_fold (trim_space i) ''DIRECT'') (split_on (CHR '','') s))"
  using assms by (rule ParseProxy_facts)

theorem proxy_list_wellformed_witness:
  "list_all server_ok [DirectServer] \<and> distinct (map server_key [DirectServer])"
proof -
  have "ParseProxy (\<lambda>_. None) ''direct, ,DIRECT'' = Inr [DirectServer]" by code_simp
  from proxy_list_wellformed [OF this] show ?thesis by blast
qed

text \<open>Bypass networks and ranges mean what they say. For IPv4 addresses written in dotted form, a
  rule \<open>a/n\<close> adds exactly the addresses that share the first \<open>n\<close> bits with \<open>a\<close>, and a rule \<open>a-b\<close>
  exactly those that lie between \<open>a\<close> and \<open>b\<close> as 32-bit numbers.\<close>

theorem bypass_networks:
  assumes "length a = 4" "length b = 4" "length x = 4" "n \<le> 32"
  shows "\<exists>s1 s2. AddCIDR s (ipv4_string a @ ''/'' @ show_nat n) = Inr s1
    \<and> IPSet_Contains s1 x = (IPSet_Contains s x \<or> take n (ip_bits x) = take n (ip_bits a))
    \<and> AddRange s (ipv4_string a) (ipv4_string b) = Inr s2
    \<and> IPSet_Contains s2 x = (IPSet_Contains s x \<or> (ip_value a \<le> ip_value x \<and> ip_value x \<le> ip_value b))"
proof -
  let ?n = "\<lparr>net_ip = map2 (\<lambda>x y. x AND y) a (CIDRMask n 32), net_mask = CIDRMask n 32\<rparr>"
  have "AddCIDR s (ipv4_string a @ ''/'' @ show_nat n) = Inr (s\<lparr>nets := nets s @ [?n]\<rparr>)"
    unfolding AddCIDR_def ParseCIDR_ipv4 [OF assms(1,4)] by simp
  moreover have "IPSet_Contains (s\<lparr>nets := nets s @ [?n]\<rparr>) x = (IPSet_Contains s x \<or> take n (ip_bits x) = take n (ip_bits a))"
    using contains_cidr [OF assms(1,3), of n] by (auto simp: IPSet_Contains_def split: option.splits)
  ultimately show ?thesis using AddRange_ipv4 [OF assms(1,2), of s] contains_range [OF assms(1,2,3), of s] by blast
qed

theorem bypass_networks_witness:
  "\<exists>s1 s2. AddCIDR empty_set (ipv4_string [10, 0, 0, 0] @ ''/'' @ show_nat 8) = Inr s1
    \<and> IPSet_Contains s1 [10, 1, 2, 3] = (IPSet_Contains empty_set [10, 1, 2, 3] \<or> take 8 (ip_bits [10, 1, 2, 3]) = take 8 (ip_bits [10, 0, 0, 0]))
    \<and> AddRange empty_set (ipv4_string [10, 0, 0, 0]) (ipv4_string [10, 0, 0, 9]) = Inr s2
    \<and> IPSet_Contains s2 [10, 1, 2, 3] = (IPSet_Contains empty_set [10, 1, 2, 3]
        \<or> (ip_value [10, 0, 0, 0] \<le> ip_value [10, 1, 2, 3] \<and> ip_value [10, 1, 2, 3] \<le> ip_value [10, 0, 0, 9]))"
  by (rule bypass_networks) simp_all

text \<open>A glob with trailing stars matches by octets. A rule of \<open>k\<close> octets followed by stars adds
  exactly the addresses whose first \<open>k\<close> octets are these.\<close>

theorem bypass_trailing_glob:
  assumes "length os \<le> 4" "length x = 4"
  shows "\<exists>s'. addGlob s (glob_text (map Some os @ replicate (4 - length os) None)) = Inr s'
    \<and> IPSet_Contains s' x = (IPSet_Contains s x \<or> take (length os) x = os)"
proof -
  let ?ps = "map Some os @ replicate (4 - length os) None"
  let ?a = "os @ replicate (4 - length os) 0" and ?b = "os @ replicate (4 - length os) 255"
  have "addGlob s (glob_text ?ps) = Inr (s\<lparr>ranges := ranges s @ [(?a, ?b)]\<rparr>)"
    using addGlob_range [of ?ps s] assms(1) by (simp add: o_def)
  moreover have "IPSet_Contains (s\<lparr>ranges := ranges s @ [(?a, ?b)]\<rparr>) x = (IPSet_Contains s x \<or> take (length os) x = os)"
    using contains_range [of ?a ?b x s] assms block_range [of "take (length os) x" os "drop (length os) x" "4 - length os"] by simp
  ultimately show ?thesis by blast
qed

theorem bypass_trailing_glob_witness:
  "\<exists>s'. addGlob empty_set (glob_text (map Some [192, 168] @ replicate (4 - length [192::byte, 168]) None)) = Inr s'
    \<and> IPSet_Contains s' [192, 168, 3, 4] = (IPSet_Contains empty_set [192, 168, 3, 4] \<or> take (length [192::byte, 168]) [192, 168, 3, 4] = [192::byte, 168])"
  by (rule bypass_trailing_glob) simp_all

text \<open>A glob with a star before an octet matches too much. The rule \<open>a.*.c.d\<close> becomes a range, so
  it also adds every address \<open>a.y.z.w\<close> with \<open>y\<close> strictly between 0 and 255, whatever its last two
  octets are.\<close>

theorem bypass_inner_glob_overmatches:
  assumes "0 < y" "y < 255"
  shows "\<exists>s'. addGlob s (glob_text [Some a, None, Some c, Some d]) = Inr s' \<and> IPSet_Contains s' [a, y, z, w]"
proof -
  let ?lo = "[a, 0, c, d]" and ?hi = "[a, 255, c, d]"
  have "addGlob s (glob_text [Some a, None, Some c, Some d]) = Inr (s\<lparr>ranges := ranges s @ [(?lo, ?hi)]\<rparr>)"
    using addGlob_range [of "[Some a, None, Some c, Some d]" s] by simp
  moreover have "0 < unat y" "unat y < 255" using assms by (simp_all add: word_less_nat_alt unat_gt_0)
  then have "ip_value ?lo \<le> ip_value [a, y, z, w]" "ip_value [a, y, z, w] \<le> ip_value ?hi"
    using unat_byte_less [of c] unat_byte_less [of d] unat_byte_less [of z] unat_byte_less [of w]
    by (simp_all add: ip_value_Cons ip_value_def del: unat_byte_less)
  ultimately show ?thesis using contains_range [of ?lo ?hi "[a, y, z, w]" s] by auto
qed

theorem bypass_inner_glob_overmatches_witness:
  "\<exists>s'. addGlob empty_set (glob_text [Some 10, None, Some 5, Some 1]) = Inr s' \<and> IPSet_Contains s' [10, 3, 200, 200]"
  by (rule bypass_inner_glob_overmatches) simp_all

text \<open>C35: Bypass host rules respect label boundaries. A request is bypassed by the host rules exactly
  when one of them applies, and a rule for a domain applies exactly when the domain's labels are
  the last labels of the request's host (all of them, or for a \<open>*.\<close> rule not all), the port agrees
  or is not given, or it is the star or the local rule; a rule for \<open>example.com\<close> never applies to
  \<open>evilexample.com\<close>.\<close>

theorem bypass_host_rules:
  "hostMatchesNoProxy ms netloc \<longleftrightarrow> list_ex (\<lambda>m.
     let labels = split_on (CHR ''.'') (normalizeHostRule (srv_Host netloc)); dom = split_on (CHR ''.'') (m_host m) in
     if m_local m then ParseIP (normalizeHostRule (srv_Host netloc)) = None \<and> length labels = 1
     else (m_port m = 0 \<or> m_port m = srv_Port netloc)
       \<and> (m_host m = ''*'' \<or> (if m_subdomainsOnly m then strict_suffix dom labels else suffix dom labels))) ms"
  unfolding hostMatches_rules rule_applies_def ..

text \<open>C28: System routing fails closed. In the automatic and PAC modes of the system, a request that no
  bypass rule matches is routed only by what the resolver answered: DIRECT is a candidate only if
  an item of the answer is DIRECT, there is at least one candidate and at most 32, and a resolver
  that is missing, fails or answers nothing is an error.\<close>

theorem system_route_fails_closed:
  assumes "wp_Mode w = ModeAuto \<or> wp_Mode w = ModePAC"
    and "GetNetloc (re_parse env) rawurl = Inr (netloc, path)"
    and "\<not> isNoProxy (np_set (wp_Rules w)) (np_matchers (wp_Rules w)) (re_lookup env) netloc"
  shows "case snd (FindProxyForURL env w rawurl) of
      Inl e \<Rightarrow> \<not> wp_resolver w \<or> (\<forall>out servers. re_resolve env rawurl (wp_systemConfig w) = Inr out
          \<and> ParseProxy (re_parse env) out = Inr servers \<longrightarrow> ValidateCanonicalResult out \<noteq> None)
    | Inr (servers, n, p) \<Rightarrow> n = netloc \<and> p = path \<and> wp_resolver w \<and> servers \<noteq> [] \<and> length servers \<le> 32
        \<and> (\<exists>out. re_resolve env rawurl (wp_systemConfig w) = Inr out \<and> ParseProxy (re_parse env) out = Inr servers
            \<and> (DirectServer \<in> set servers \<longrightarrow> list_ex (\<lambda>i. equal_fold (trim_space i) ''DIRECT'') (split_on (CHR '','') out)))"
proof -
  have find: "FindProxyForURL env w rawurl =
      (w, case route_system env w rawurl of Inl e \<Rightarrow> Inl e | Inr servers \<Rightarrow> Inr (servers, netloc, path))"
    using assms by (auto simp: FindProxyForURL_def route_after_bypass_def split: sum.splits)
  show ?thesis
  proof (cases "route_system env w rawurl")
    case (Inl e)
    have "\<not> wp_resolver w \<or> ValidateCanonicalResult out \<noteq> None"
      if "re_resolve env rawurl (wp_systemConfig w) = Inr out" "ParseProxy (re_parse env) out = Inr servers" for out servers
      using Inl that items_of_blank [of out] Validate_iff [of out]
      by (auto simp: route_system_def wrap_result_def split: if_splits option.splits)
    with Inl show ?thesis unfolding find by auto
  next
    case (Inr servers)
    then obtain out where out: "wp_resolver w" "re_resolve env rawurl (wp_systemConfig w) = Inr out"
        "ValidateCanonicalResult out = None" "ParseProxy (re_parse env) out = Inr servers"
      by (auto simp: route_system_def wrap_result_def split: if_splits sum.splits option.splits)
    have "servers \<noteq> [] \<and> length servers \<le> 32"
      using ParseProxy_length [OF out(4)] out(3) unfolding Validate_iff maxPACCandidates_def by auto
    with out ParseProxy_facts [OF out(4)] Inr show ?thesis unfolding find by auto
  qed
qed

theorem system_route_fails_closed_witness:
  defines "w \<equiv> \<lparr>wp_Mode = ModePAC, wp_Source = RouteSourceSystemPAC, wp_SystemProxySupported = True, wp_Servers = [],
      wp_Rules = no_rules, wp_NoProxyHostsStr = [], wp_PAC = (None :: nat Pac option), wp_resolver = False,
      wp_systemConfig = no_config, wp_env = \<lparr>ep_byScheme = [], ep_all = []\<rparr>\<rparr>"
    and "env \<equiv> \<lparr>re_parse = (\<lambda>_. Some \<lparr>u_Scheme = ''http'', u_User = False, u_Hostname = ''h'', u_Port = [], u_Path = [],
      u_EscapedPath = [], u_RawQuery = [], u_Fragment = []\<rparr>), re_lookup = (\<lambda>_. []), re_call = (\<lambda>vm _ _. (vm :: nat, Inl Canceled)),
      re_now = 0, re_load = Inl Canceled, re_fin = 0, re_resolve = (\<lambda>_ _. Inl Canceled)\<rparr>"
  shows "isl (snd (FindProxyForURL env w ''http://h''))"
proof -
  have "''http://h'' = ''http'' @ ''://'' @ ''h''" by simp
  then have c: "contains_str ''http://h'' ''://''" unfolding contains_str_def sublist_def by blast
  have v: "validateHost ''h'' = None" by code_simp
  have "GetNetloc (re_parse env) ''http://h'' = Inr (\<lparr>srv_Host = ''h'', srv_Port = 80, srv_Scheme = ''http''\<rparr>, ''/'')"
    using c v by (simp add: GetNetloc_def env_def to_lower_def lower_char_def)
  moreover have "\<not> isNoProxy (np_set (wp_Rules w)) (np_matchers (wp_Rules w)) (re_lookup env)
      \<lparr>srv_Host = ''h'', srv_Port = 80, srv_Scheme = ''http''\<rparr>"
    by (simp add: isNoProxy_def w_def no_rules_def empty_set_def IPSet_Size_def)
  moreover have "wp_Mode w = ModePAC" "\<not> wp_resolver w" by (simp_all add: w_def)
  ultimately show ?thesis
    using system_route_fails_closed [of w env "''http://h''"] by (cases "snd (FindProxyForURL env w ''http://h'')") auto
qed

end
