(* ===== verification/Dnsresolver.thy ===== *)
theory Dnsresolver
  imports Wproxy
begin

text \<open>
  The resolver policy, \<^verbatim>\<open>internal/dnsresolver/resolver.go\<close>: the grammar of resolver endpoints, the rules by
  domain, the exchange of messages over UDP, TCP and HTTPS, the check of a response, and the failover over
  endpoints.

  DNS messages are built and parsed by \<^verbatim>\<open>golang.org/x/net/dns/dnsmessage\<close>, which is an argument; so are
  \<^verbatim>\<open>url.Parse\<close>, \<^verbatim>\<open>mime.ParseMediaType\<close>, the system resolver, random numbers and what connections give. A name is
  its string. The settings of the HTTPS client are not modelled.
\<close>

section \<open>Errors\<close>

datatype dnsErr =
    DnsGo goerr | protocolError string | responseError string bool | DnsWrap string dnsErr | DnsJoin "dnsErr list"

fun dns_is :: "dnsErr \<Rightarrow> goerr \<Rightarrow> bool" where
  "dns_is (DnsGo e) t = errors_is e t"
| "dns_is (DnsWrap _ e) t = dns_is e t"
| "dns_is (DnsJoin es) t = list_ex (\<lambda>e. dns_is e t) es"
| "dns_is _ t = False"

fun as_protocol :: "dnsErr \<Rightarrow> bool" where
  "as_protocol (protocolError _) = True"
| "as_protocol (DnsWrap _ e) = as_protocol e"
| "as_protocol (DnsJoin es) = list_ex as_protocol es"
| "as_protocol _ = False"

fun as_response :: "dnsErr \<Rightarrow> bool" where
  "as_response (responseError _ _) = True"
| "as_response (DnsWrap _ e) = as_response e"
| "as_response (DnsJoin es) = list_ex as_response es"
| "as_response _ = False"

definition error_class :: "dnsErr option \<Rightarrow> string" where
  "error_class err =
     (case err of
        None \<Rightarrow> []
      | Some e \<Rightarrow>
          if dns_is e DeadlineExceeded then ''timeout''
          else if dns_is e Canceled then ''canceled''
          else if as_protocol e then ''protocol''
          else if as_response e then ''dns-response''
          else ''transport'')"

section \<open>Policies\<close>

definition defaultDNSPort :: string where "defaultDNSPort = ''53''"
definition defaultLookupTimeout :: duration where "defaultLookupTimeout = 20 * second"
definition maxDNSMessageBytes :: nat where "maxDNSMessageBytes = 65535"
definition resolverModeSystem :: string where "resolverModeSystem = ''system''"

text \<open>The URL of an endpoint, with \<^verbatim>\<open>u.Host\<close> beside the parts that routing uses.\<close>

record dnsURL = URL +
  u_Host :: string

record endpoint =
  ep_scheme :: string
  ep_addr :: string
  ep_url :: "dnsURL option"
  ep_label :: string

datatype Policy =
    Policy (pl_system: bool) (pl_endpoints: "endpoint list") (pl_rules: "policyRule list") (pl_timeout: duration) (pl_lastError: string)
and policyRule = PolicyRule (pr_resolver: Policy) (pr_only: "string list") (pr_bypass: "string list")

record Rule =
  ru_Resolver :: string
  ru_Only :: "string list"
  ru_Bypass :: "string list"

definition normalizedTimeout :: "duration \<Rightarrow> duration" where
  "normalizedTimeout timeout = (if timeout \<le> 0 then defaultLookupTimeout else timeout)"

definition validatePort :: "string \<Rightarrow> goerr option" where
  "validatePort port =
     (if port = [] then None
      else case atoi port of
        Some n \<Rightarrow> if n < 1 \<or> n > 65535 then Some (Wrapped port (ErrMsg ''invalid port'')) else None
      | None \<Rightarrow> Some (Wrapped port (ErrMsg ''invalid port'')))"

definition normalizeClassicAddress :: "string \<Rightarrow> goerr + string" where
  "normalizeClassicAddress raw =
     (let raw = trim_space raw in
      if raw = [] then Inl (ErrMsg ''classic dns resolver has no address'')
      else case ParseIP (trim_brackets raw) of
        Some ip \<Rightarrow> Inr (JoinHostPort (ip_string ip) defaultDNSPort)
      | None \<Rightarrow>
          (case SplitHostPort raw of
             None \<Rightarrow> Inl (Wrapped raw (ErrMsg ''must be an IP or IP:port''))
           | Some (host, port) \<Rightarrow>
               (case ParseIP (trim_brackets host) of
                  None \<Rightarrow> Inl (Wrapped raw (ErrMsg ''must use an IP literal to avoid bootstrap DNS''))
                | Some ip \<Rightarrow>
                    (case validatePort port of
                       Some e \<Rightarrow> Inl (Wrapped raw e)
                     | None \<Rightarrow> Inr (JoinHostPort (ip_string ip) port)))))"

definition classic_endpoint :: "string \<Rightarrow> string \<Rightarrow> goerr + endpoint" where
  "classic_endpoint scheme raw =
     (case normalizeClassicAddress raw of
        Inl e \<Rightarrow> Inl e
      | Inr addr \<Rightarrow> Inr \<lparr>ep_scheme = scheme, ep_addr = addr, ep_url = None, ep_label = scheme @ ''://'' @ addr\<rparr>)"

definition parseEndpoint :: "(string \<Rightarrow> dnsURL option) \<Rightarrow> string \<Rightarrow> goerr + endpoint" where
  "parseEndpoint url_Parse raw =
     (if raw = [] then Inl (ErrMsg ''empty dns resolver endpoint'')
      else if equal_fold raw resolverModeSystem then Inl (ErrMsg ''system cannot be mixed with configured dns endpoints'')
      else if \<not> contains_str raw ''://'' then classic_endpoint ''udp'' raw
      else case url_Parse raw of
        None \<Rightarrow> Inl (ErrMsg ''invalid dns resolver endpoint'')
      | Some u \<Rightarrow>
          if u_User u \<or> u_Fragment u \<noteq> [] \<or> u_RawQuery u \<noteq> []
          then Inl (ErrMsg ''dns resolver must not contain credentials, query, or fragment'')
          else if to_lower (u_Scheme u) \<in> set [''udp'', ''tcp''] then
            (if u_Path u \<noteq> [] \<and> u_Path u \<noteq> ''/'' then Inl (Wrapped raw (ErrMsg ''must not contain a path''))
             else classic_endpoint (to_lower (u_Scheme u)) (u_Host u))
          else if to_lower (u_Scheme u) = ''https'' then
            (if u_Hostname u = [] then Inl (Wrapped raw (ErrMsg ''has no host''))
             else case validatePort (u_Port u) of
               Some e \<Rightarrow> Inl (Wrapped raw e)
             | None \<Rightarrow>
                 if u_Path u = [] \<or> u_Path u = ''/'' then Inl (Wrapped raw (ErrMsg ''must include an endpoint path''))
                 else Inr \<lparr>ep_scheme = ''https'', ep_addr = [], ep_url = Some (u\<lparr>u_Scheme := ''https''\<rparr>), ep_label = ''https://'' @ u_Host u\<rparr>)
          else Inl (Wrapped (u_Scheme u) (ErrMsg ''unsupported dns resolver scheme'')))"

fun parse_endpoints :: "(string \<Rightarrow> dnsURL option) \<Rightarrow> string list \<Rightarrow> endpoint list \<Rightarrow> goerr + endpoint list" where
  "parse_endpoints url_Parse [] eps = Inr eps"
| "parse_endpoints url_Parse (part # parts) eps =
     (case parseEndpoint url_Parse (trim_space part) of
        Inl e \<Rightarrow> Inl e
      | Inr ep \<Rightarrow> parse_endpoints url_Parse parts (eps @ [ep]))"

definition newPolicy :: "(string \<Rightarrow> dnsURL option) \<Rightarrow> string \<Rightarrow> duration \<Rightarrow> goerr + Policy" where
  "newPolicy url_Parse raw timeout =
     (let raw = trim_space raw in
      if raw = [] \<or> equal_fold raw resolverModeSystem then Inr (Policy True [] [] (normalizedTimeout timeout) [])
      else case parse_endpoints url_Parse (split_on (CHR '','') raw) [] of
        Inl e \<Rightarrow> Inl e
      | Inr eps \<Rightarrow>
          if eps = [] then Inl (ErrMsg ''dns resolver list is empty'')
          else Inr (Policy False eps [] (normalizedTimeout timeout) []))"

subsection \<open>Rules by domain\<close>

definition rule_pattern :: "string \<Rightarrow> goerr + string" where
  "rule_pattern raw =
     (let pattern = to_lower (trim_suffix (trim_space raw) ''.'') in
      if contains_any pattern ''/:'' \<or> (CHR ''*'' \<in> set pattern \<and> pattern \<noteq> ''*'' \<and> \<not> has_prefix pattern ''*.'')
      then Inl (Wrapped raw (ErrMsg ''invalid domain pattern''))
      else Inr pattern)"

fun pattern_loop :: "string list \<Rightarrow> string list \<Rightarrow> goerr + string list" where
  "pattern_loop [] out = Inr out"
| "pattern_loop (raw # raws) out =
     (case rule_pattern raw of
        Inl e \<Rightarrow> Inl e
      | Inr pattern \<Rightarrow> pattern_loop raws (if pattern = [] then out else out @ [pattern]))"

definition normalizeRulePatterns :: "string list \<Rightarrow> goerr + string list" where
  "normalizeRulePatterns values = pattern_loop (concat (map (split_on (CHR '','')) values)) []"

definition matchDomain :: "string \<Rightarrow> string \<Rightarrow> bool" where
  "matchDomain host pattern =
     (let host = to_lower (trim_suffix (trim_space host) ''.''); pattern = to_lower (trim_suffix (trim_space pattern) ''.'') in
      if pattern = ''*'' then host \<noteq> []
      else if has_prefix pattern ''*.'' then
        (let base = drop 2 pattern in host \<noteq> base \<and> has_suffix host (''.'' @ base))
      else host = pattern \<or> has_suffix host (''.'' @ pattern))"

definition matchesAny :: "string \<Rightarrow> string list \<Rightarrow> bool" where
  "matchesAny host patterns \<longleftrightarrow> list_ex (matchDomain host) patterns"

fun rule_loop :: "(string \<Rightarrow> dnsURL option) \<Rightarrow> duration \<Rightarrow> Rule list \<Rightarrow> policyRule list \<Rightarrow> goerr + policyRule list" where
  "rule_loop url_Parse timeout [] rules = Inr rules"
| "rule_loop url_Parse timeout (raw # raws) rules =
     (case newPolicy url_Parse (ru_Resolver raw) timeout of
        Inl e \<Rightarrow> Inl e
      | Inr resolver \<Rightarrow>
          (case normalizeRulePatterns (ru_Only raw) of
             Inl e \<Rightarrow> Inl (Wrapped ''dns_only'' e)
           | Inr only \<Rightarrow>
               (case normalizeRulePatterns (ru_Bypass raw) of
                  Inl e \<Rightarrow> Inl (Wrapped ''dns_bypass'' e)
                | Inr bypass \<Rightarrow> rule_loop url_Parse timeout raws (rules @ [PolicyRule resolver only bypass]))))"

definition NewRules :: "(string \<Rightarrow> dnsURL option) \<Rightarrow> Rule list \<Rightarrow> duration \<Rightarrow> goerr + Policy" where
  "NewRules url_Parse rules timeout =
     (case rules of
        [] \<Rightarrow> newPolicy url_Parse [] timeout
      | _ \<Rightarrow>
          if length rules = 1 \<and> ru_Only (hd rules) = [] \<and> ru_Bypass (hd rules) = [] then newPolicy url_Parse (ru_Resolver (hd rules)) timeout
          else case rule_loop url_Parse timeout rules [] of
            Inl e \<Rightarrow> Inl e
          | Inr rs \<Rightarrow> Inr (Policy False [] rs (normalizedTimeout timeout) []))"

subsection \<open>Status\<close>

text \<open>The endpoints in the order in which both traversals of the status visit them.\<close>

fun policy_endpoints :: "Policy \<Rightarrow> endpoint list" and rule_endpoints :: "policyRule list \<Rightarrow> endpoint list" where
  "policy_endpoints (Policy sys eps rules timeout err) = eps @ rule_endpoints rules"
| "rule_endpoints [] = []"
| "rule_endpoints (PolicyRule p only bypass # rules) = policy_endpoints p @ rule_endpoints rules"

definition policy_mode :: "Policy \<Rightarrow> string" where
  "policy_mode p =
     (let hasDoH = list_ex (\<lambda>ep. ep_scheme ep = ''https'') (policy_endpoints p);
          hasClassic = list_ex (\<lambda>ep. ep_scheme ep \<noteq> ''https'') (policy_endpoints p)
      in if hasClassic \<and> hasDoH then ''mixed'' else if hasDoH then ''doh'' else if hasClassic then ''dns'' else resolverModeSystem)"

record dnsStatus =
  ds_Mode :: string
  ds_Endpoints :: "string list"
  ds_Bootstrap :: string
  ds_LastError :: string

definition needs_bootstrap :: "endpoint \<Rightarrow> bool" where
  "needs_bootstrap ep \<longleftrightarrow> ep_scheme ep = ''https'' \<and> (case ep_url ep of None \<Rightarrow> False | Some u \<Rightarrow> ParseIP (u_Hostname u) = None)"

definition Policy_Status :: "Policy option \<Rightarrow> dnsStatus" where
  "Policy_Status p =
     (case p of
        None \<Rightarrow> \<lparr>ds_Mode = resolverModeSystem, ds_Endpoints = [], ds_Bootstrap = [], ds_LastError = []\<rparr>
      | Some p \<Rightarrow>
          if pl_system p then \<lparr>ds_Mode = resolverModeSystem, ds_Endpoints = [], ds_Bootstrap = [], ds_LastError = []\<rparr>
          else \<lparr>ds_Mode = policy_mode p, ds_Endpoints = map ep_label (policy_endpoints p),
                ds_Bootstrap = (if list_ex needs_bootstrap (policy_endpoints p) then resolverModeSystem else []),
                ds_LastError = pl_lastError p\<rparr>)"

section \<open>Messages\<close>

definition TypeA :: nat where "TypeA = 1"
definition TypeAAAA :: nat where "TypeAAAA = 28"
definition ClassINET :: nat where "ClassINET = 1"
definition RCodeSuccess :: nat where "RCodeSuccess = 0"
definition RCodeNameError :: nat where "RCodeNameError = 3"

record dnsHeader =
  dh_ID :: nat
  dh_Response :: bool
  dh_Truncated :: bool
  dh_RCode :: nat

record question =
  qu_Name :: string
  qu_Type :: nat
  qu_Class :: nat

datatype resourceBody = CNAMEResource string | AResource "byte list" | AAAAResource "byte list" | OtherResource

record Resource =
  an_Name :: string
  an_Class :: nat
  an_TTL :: nat
  an_Body :: resourceBody

text \<open>The parser of the package: the header, and the two sections that the code reads after it.\<close>

record dnsParser =
  pa_start :: "byte list \<Rightarrow> dnsHeader option"
  pa_questions :: "byte list \<Rightarrow> question list option"
  pa_answers :: "byte list \<Rightarrow> Resource list option"

definition canonicalName :: "string \<Rightarrow> string" where "canonicalName name = to_lower name"

definition sameName :: "string \<Rightarrow> string \<Rightarrow> bool" where "sameName a b \<longleftrightarrow> canonicalName a = canonicalName b"

text \<open>One pass of the loop over the CNAME records, with the flag \<^verbatim>\<open>changed\<close>, and the loop.\<close>

fun cname_pass :: "Resource list \<Rightarrow> string list \<Rightarrow> bool \<Rightarrow> string list \<times> bool" where
  "cname_pass [] allowed changed = (allowed, changed)"
| "cname_pass (a # as) allowed changed =
     (if canonicalName (an_Name a) \<notin> set allowed then cname_pass as allowed changed
      else case an_Body a of
        CNAMEResource c \<Rightarrow>
          if canonicalName c \<notin> set allowed then cname_pass as (canonicalName c # allowed) True
          else cname_pass as allowed changed
      | _ \<Rightarrow> cname_pass as allowed changed)"

definition cname_targets :: "Resource list \<Rightarrow> string list" where
  "cname_targets as = List.map_filter (\<lambda>a. case an_Body a of CNAMEResource c \<Rightarrow> Some (canonicalName c) | _ \<Rightarrow> None) as"

lemma cname_pass_step:
  "cname_pass (a # as) allowed changed =
     (case (if canonicalName (an_Name a) \<in> set allowed then cname_targets [a] else []) of
        [] \<Rightarrow> cname_pass as allowed changed
      | key # _ \<Rightarrow> if key \<in> set allowed then cname_pass as allowed changed else cname_pass as (key # allowed) True)"
  by (simp add: cname_targets_def List.map_filter_simps split: resourceBody.splits)

lemma targets_Cons: "cname_targets (a # as) = cname_targets [a] @ cname_targets as"
  by (simp add: cname_targets_def List.map_filter_simps split: resourceBody.splits)

lemma cname_pass_grows:
  assumes "cname_pass as allowed changed = (allowed', changed')"
  shows "set allowed \<subseteq> set allowed' \<and> set allowed' \<subseteq> set allowed \<union> set (cname_targets as) \<and> (changed \<longrightarrow> changed')
    \<and> (changed' \<and> \<not> changed \<longrightarrow> \<not> set allowed' \<subseteq> set allowed)"
  using assms
proof (induction as arbitrary: allowed changed)
  case (Cons a as)
  define ts where "ts = (if canonicalName (an_Name a) \<in> set allowed then cname_targets [a] else [])"
  have ts: "set ts \<subseteq> set (cname_targets (a # as))" "set (cname_targets as) \<subseteq> set (cname_targets (a # as))"
    by (auto simp: ts_def targets_Cons [of a as])
  have step: "(case ts of [] \<Rightarrow> cname_pass as allowed changed
      | key # _ \<Rightarrow> if key \<in> set allowed then cname_pass as allowed changed else cname_pass as (key # allowed) True) = (allowed', changed')"
    using Cons.prems unfolding cname_pass_step ts_def .
  show ?case
  proof (cases "ts = [] \<or> hd ts \<in> set allowed")
    case True
    with step have "cname_pass as allowed changed = (allowed', changed')" by (auto split: list.splits)
    from Cons.IH [OF this] ts show ?thesis by blast
  next
    case False
    then obtain key rest where k: "ts = key # rest" "key \<notin> set allowed" by (cases ts) auto
    with step have "cname_pass as (key # allowed) True = (allowed', changed')" by simp
    from Cons.IH [OF this] ts k show ?thesis by auto
  qed
qed (simp add: cname_targets_def List.map_filter_simps)

lemma cname_pass_decreases:
  assumes "cname_pass as allowed False = (allowed', True)"
  shows "card (set (cname_targets as) - set allowed') < card (set (cname_targets as) - set allowed)"
proof -
  from cname_pass_grows [OF assms]
  have "set (cname_targets as) - set allowed' \<subset> set (cname_targets as) - set allowed" by auto
  then show ?thesis by (simp add: psubset_card_mono)
qed

function cname_loop :: "Resource list \<Rightarrow> string list \<Rightarrow> string list" where
  "cname_loop as allowed =
     (if snd (cname_pass as allowed False) then cname_loop as (fst (cname_pass as allowed False))
      else fst (cname_pass as allowed False))"
  by pat_completeness auto
termination
  by (relation "measure (\<lambda>(as, allowed). card (set (cname_targets as) - set allowed))")
     (auto intro!: cname_pass_decreases simp: prod_eq_iff)

declare cname_loop.simps [simp del]

text \<open>The loop that collects the addresses and the least TTL of the records that lead to them.\<close>

definition least_ttl :: "duration option \<Rightarrow> duration \<Rightarrow> duration option" where
  "least_ttl ttl t = Some (case ttl of None \<Rightarrow> t | Some u \<Rightarrow> if t < u then t else u)"

definition record_ttl :: "Resource \<Rightarrow> duration" where "record_ttl a = int (an_TTL a) * second"

fun collect_answers :: "nat \<Rightarrow> string list \<Rightarrow> Resource list \<Rightarrow> ip list \<Rightarrow> duration option \<Rightarrow> ip list \<times> duration option" where
  "collect_answers wantType allowed [] ips ttl = (ips, ttl)"
| "collect_answers wantType allowed (a # as) ips ttl =
     (if an_Class a \<noteq> ClassINET \<or> canonicalName (an_Name a) \<notin> set allowed then collect_answers wantType allowed as ips ttl
      else case an_Body a of
        CNAMEResource _ \<Rightarrow> collect_answers wantType allowed as ips (least_ttl ttl (record_ttl a))
      | AResource addr \<Rightarrow>
          if wantType = TypeA
          then collect_answers wantType allowed as (ips @ [v4InV6Prefix @ addr]) (least_ttl ttl (record_ttl a))
          else collect_answers wantType allowed as ips ttl
      | AAAAResource addr \<Rightarrow>
          if wantType = TypeAAAA then collect_answers wantType allowed as (ips @ [addr]) (least_ttl ttl (record_ttl a))
          else collect_answers wantType allowed as ips ttl
      | OtherResource \<Rightarrow> collect_answers wantType allowed as ips ttl)"

text \<open>An error comes with the flag \<^verbatim>\<open>terminal\<close>.\<close>

definition parseResponseTTL :: "dnsParser \<Rightarrow> byte list \<Rightarrow> nat \<Rightarrow> string \<Rightarrow> nat \<Rightarrow> (dnsErr \<times> bool) + (ip list \<times> duration)" where
  "parseResponseTTL pa msg wantID wantName wantType =
     (case pa_start pa msg of
        None \<Rightarrow> Inl (protocolError ''malformed DNS response header'', False)
      | Some h \<Rightarrow>
     (if \<not> dh_Response h \<or> dh_ID h \<noteq> wantID then Inl (protocolError ''DNS response does not match query id'', False)
      else case pa_questions pa msg of
        Some [q] \<Rightarrow>
          if \<not> sameName (qu_Name q) wantName \<or> qu_Type q \<noteq> wantType \<or> qu_Class q \<noteq> ClassINET
          then Inl (protocolError ''DNS response question does not match request'', False)
          else if dh_RCode h = RCodeNameError then Inl (responseError ''dns name does not exist'' True, True)
          else if dh_RCode h \<noteq> RCodeSuccess then Inl (responseError ''dns response code'' False, False)
          else (case pa_answers pa msg of
             None \<Rightarrow> Inl (protocolError ''malformed DNS answer section'', False)
           | Some answers \<Rightarrow>
               (case collect_answers wantType (cname_loop answers [canonicalName wantName]) answers [] None of
                  (ips, ttl) \<Rightarrow>
                    if ips = [] then Inl (responseError ''dns response contains no matching address records'' True, True)
                    else Inr (ips, case ttl of None \<Rightarrow> 0 | Some t \<Rightarrow> t)))
      | _ \<Rightarrow> Inl (protocolError ''DNS response has invalid question section'', False)))"

fun dedupe_loop :: "ip list \<Rightarrow> string list \<Rightarrow> ip list \<Rightarrow> ip list" where
  "dedupe_loop [] seen out = out"
| "dedupe_loop (ip # ips) seen out =
     (if ip_string ip = ''<nil>'' \<or> ip_string ip \<in> set seen then dedupe_loop ips seen out
      else dedupe_loop ips (ip_string ip # seen) (out @ [ip]))"

definition dedupeIPs :: "ip list \<Rightarrow> ip list" where "dedupeIPs ips = dedupe_loop ips [] []"

section \<open>Exchanges\<close>

definition contextError :: "goerr option \<Rightarrow> goerr \<Rightarrow> dnsErr" where
  "contextError ctxErr err = DnsGo (case ctxErr of Some e \<Rightarrow> e | None \<Rightarrow> err)"

text \<open>What a connection meets: the errors of the dial and the write, what it reads (a datagram, or a stream that
  ends with an error), and the context's error when an error is reported.\<close>

record udpConn =
  uc_dial :: "goerr option"
  uc_write :: "goerr option"
  uc_read :: "goerr + byte list"
  uc_ctx :: "goerr option"

record tcpConn =
  tn_dial :: "goerr option"
  tn_write :: "goerr option"
  tn_stream :: "byte list"
  tn_err :: goerr
  tn_ctx :: "goerr option"

record dohReply =
  hr_request :: "goerr option"
  hr_do :: "goerr option"
  hr_status :: int
  hr_contentType :: string
  hr_body :: "byte list"
  hr_readErr :: "goerr option"
  hr_ctx :: "goerr option"

text \<open>A datagram is cut at the size of the buffer.\<close>

definition exchangeUDP :: "dnsParser \<Rightarrow> udpConn \<Rightarrow> dnsErr + (byte list \<times> bool)" where
  "exchangeUDP pa c =
     (case uc_dial c of
        Some e \<Rightarrow> Inl (DnsGo e)
      | None \<Rightarrow>
          (case uc_write c of
             Some e \<Rightarrow> Inl (contextError (uc_ctx c) e)
           | None \<Rightarrow>
               (case uc_read c of
                  Inl e \<Rightarrow> Inl (contextError (uc_ctx c) e)
                | Inr dgram \<Rightarrow>
                    let response = take maxDNSMessageBytes dgram in
                    (case pa_start pa response of
                       None \<Rightarrow> Inl (protocolError ''malformed UDP DNS response header'')
                     | Some h \<Rightarrow> Inr (response, dh_Truncated h)))))"

definition tcp_frame :: "byte list \<Rightarrow> byte list" where "tcp_frame query = bytes16 BigEndian (length query) @ query"

text \<open>The result is the frame that was written, if any, and the response.\<close>

definition exchangeTCP :: "tcpConn \<Rightarrow> byte list \<Rightarrow> byte list option \<times> (dnsErr + byte list)" where
  "exchangeTCP c query =
     (case tn_dial c of
        Some e \<Rightarrow> (None, Inl (DnsGo e))
      | None \<Rightarrow>
          if length query > maxDNSMessageBytes then (None, Inl (DnsGo (ErrMsg ''dns query too large'')))
          else
            (case tn_write c of
               Some e \<Rightarrow> (None, Inl (contextError (tn_ctx c) e))
             | None \<Rightarrow>
                 (Some (tcp_frame query),
                  case tn_stream c of
                    a # b # rest \<Rightarrow>
                      let n = Uint16 BigEndian a b in
                      if n = 0 \<or> n > maxDNSMessageBytes then Inl (protocolError ''invalid TCP DNS response length'')
                      else if length rest < n then Inl (contextError (tn_ctx c) (tn_err c))
                      else Inr (take n rest)
                  | _ \<Rightarrow> Inl (contextError (tn_ctx c) (tn_err c)))))"

definition exchangeDoH :: "(string \<Rightarrow> string option) \<Rightarrow> dohReply \<Rightarrow> dnsErr + byte list" where
  "exchangeDoH parseMediaType r =
     (case hr_request r of
        Some e \<Rightarrow> Inl (DnsGo e)
      | None \<Rightarrow>
          (case hr_do r of
             Some e \<Rightarrow> Inl (contextError (hr_ctx r) e)
           | None \<Rightarrow>
               if hr_status r \<noteq> 200 then Inl (DnsGo (ErrMsg ''DoH endpoint returned status''))
               else if (case parseMediaType (hr_contentType r) of None \<Rightarrow> True | Some mt \<Rightarrow> \<not> equal_fold mt ''application/dns-message'')
               then Inl (protocolError ''DoH endpoint returned invalid content type'')
               else if length (hr_body r) \<le> maxDNSMessageBytes \<and> hr_readErr r \<noteq> None
               then Inl (contextError (hr_ctx r) (the (hr_readErr r)))
               else let data = take (maxDNSMessageBytes + 1) (hr_body r) in
                 if data = [] \<or> length data > maxDNSMessageBytes then Inl (protocolError ''DoH response size is invalid'')
                 else Inr data))"

text \<open>The surroundings of a lookup. The connections depend on the position of the endpoint and the record type.\<close>

record dnsEnv =
  de_sys :: "string \<Rightarrow> goerr + ip list"
  de_NewName :: "string \<Rightarrow> goerr + string"
  de_rand :: "nat \<Rightarrow> nat \<Rightarrow> goerr + (byte \<times> byte)"
  de_build :: "nat \<Rightarrow> string \<Rightarrow> nat \<Rightarrow> goerr + byte list"
  de_parser :: dnsParser
  de_udp :: "nat \<Rightarrow> nat \<Rightarrow> udpConn"
  de_tcp :: "nat \<Rightarrow> nat \<Rightarrow> tcpConn"
  de_doh :: "nat \<Rightarrow> nat \<Rightarrow> dohReply"
  de_mediaType :: "string \<Rightarrow> string option"
  de_ctxAfter :: "nat \<Rightarrow> goerr option"

definition exchange :: "dnsEnv \<Rightarrow> nat \<Rightarrow> nat \<Rightarrow> endpoint \<Rightarrow> byte list \<Rightarrow> dnsErr + byte list" where
  "exchange env i qtype ep query =
     (if ep_scheme ep = ''udp'' then
        (case exchangeUDP (de_parser env) (de_udp env i qtype) of
           Inl e \<Rightarrow> Inl e
         | Inr (response, truncated) \<Rightarrow> if truncated then snd (exchangeTCP (de_tcp env i qtype) query) else Inr response)
      else if ep_scheme ep = ''tcp'' then snd (exchangeTCP (de_tcp env i qtype) query)
      else if ep_scheme ep = ''https'' then exchangeDoH (de_mediaType env) (de_doh env i qtype)
      else Inl (DnsGo (Wrapped (ep_scheme ep) (ErrMsg ''unsupported resolver transport''))))"

section \<open>Lookup\<close>

definition dnsName :: "dnsEnv \<Rightarrow> string \<Rightarrow> goerr + string" where
  "dnsName env host =
     (let host = trim_space (trim_suffix host ''.'') in
      if host = [] then Inl (ErrMsg ''empty dns hostname'')
      else case de_NewName env (host @ ''.'') of
        Inl e \<Rightarrow> Inl (Wrapped ''invalid dns hostname'' e)
      | Inr name \<Rightarrow> Inr name)"

definition buildQuery :: "dnsEnv \<Rightarrow> nat \<Rightarrow> string \<Rightarrow> nat \<Rightarrow> dnsErr + (byte list \<times> nat)" where
  "buildQuery env i name qtype =
     (case de_rand env i qtype of
        Inl e \<Rightarrow> Inl (DnsGo (Wrapped ''generate dns query id'' e))
      | Inr (a, b) \<Rightarrow>
          (case de_build env (Uint16 BigEndian a b) name qtype of
             Inl e \<Rightarrow> Inl (DnsGo e)
           | Inr msg \<Rightarrow> Inr (msg, Uint16 BigEndian a b)))"

record familyState =
  fs_ips :: "ip list"
  fs_ttl :: "duration option"
  fs_errors :: "dnsErr list"
  fs_terminal :: bool

definition family_step :: "dnsEnv \<Rightarrow> nat \<Rightarrow> endpoint \<Rightarrow> string \<Rightarrow> nat \<Rightarrow> familyState \<Rightarrow> dnsErr + familyState" where
  "family_step env i ep name qtype st =
     (case buildQuery env i name qtype of
        Inl e \<Rightarrow> Inl e
      | Inr (query, qid) \<Rightarrow>
          (case exchange env i qtype ep query of
             Inl e \<Rightarrow> Inr (st\<lparr>fs_errors := fs_errors st @ [e], fs_terminal := False\<rparr>)
           | Inr response \<Rightarrow>
               (case parseResponseTTL (de_parser env) response qid name qtype of
                  Inl (e, terminal) \<Rightarrow> Inr (st\<lparr>fs_errors := fs_errors st @ [e], fs_terminal := fs_terminal st \<and> terminal\<rparr>)
                | Inr (ips, ttl) \<Rightarrow> Inr (st\<lparr>fs_ips := fs_ips st @ ips, fs_ttl := least_ttl (fs_ttl st) ttl\<rparr>))))"

definition lookupEndpoint :: "dnsEnv \<Rightarrow> nat \<Rightarrow> endpoint \<Rightarrow> string \<Rightarrow> (dnsErr \<times> bool) + (ip list \<times> duration)" where
  "lookupEndpoint env i ep name =
     (case family_step env i ep name TypeA \<lparr>fs_ips = [], fs_ttl = None, fs_errors = [], fs_terminal = True\<rparr> of
        Inl e \<Rightarrow> Inl (e, False)
      | Inr st \<Rightarrow>
          (case family_step env i ep name TypeAAAA st of
             Inl e \<Rightarrow> Inl (e, False)
           | Inr st \<Rightarrow>
               if fs_ips st \<noteq> [] then Inr (dedupeIPs (fs_ips st), case fs_ttl st of None \<Rightarrow> 0 | Some t \<Rightarrow> t)
               else if fs_errors st = [] then Inl (responseError ''dns response contains no A or AAAA records'' True, True)
               else Inl (DnsJoin (fs_errors st), fs_terminal st)))"

text \<open>The failover; without any endpoint \<^verbatim>\<open>errors.Join\<close> gives no error.\<close>

fun lookup_endpoints :: "dnsEnv \<Rightarrow> string \<Rightarrow> nat \<Rightarrow> endpoint list \<Rightarrow> dnsErr list \<Rightarrow> dnsErr + (ip list \<times> duration)" where
  "lookup_endpoints env name i [] failures = (if failures = [] then Inr ([], 0) else Inl (DnsJoin failures))"
| "lookup_endpoints env name i (ep # eps) failures =
     (case lookupEndpoint env i ep name of
        Inr r \<Rightarrow> Inr r
      | Inl (e, terminal) \<Rightarrow>
          if terminal then Inl e
          else case de_ctxAfter env i of
            Some ce \<Rightarrow> Inl (DnsGo ce)
          | None \<Rightarrow> lookup_endpoints env name (i + 1) eps (failures @ [DnsWrap (ep_label ep) e]))"

definition system_lookup :: "dnsEnv \<Rightarrow> string \<Rightarrow> dnsErr + (ip list \<times> duration)" where
  "system_lookup env host = (case de_sys env host of Inl e \<Rightarrow> Inl (DnsGo e) | Inr ips \<Rightarrow> Inr (ips, 0))"

definition err_of :: "'e + 'a \<Rightarrow> 'e option" where "err_of r = (case r of Inl e \<Rightarrow> Some e | Inr _ \<Rightarrow> None)"

definition recordError :: "Policy \<Rightarrow> dnsErr option \<Rightarrow> Policy" where
  "recordError p err = (case p of Policy sys eps rules timeout _ \<Rightarrow> Policy sys eps rules timeout (error_class err))"

fun LookupIPTTL :: "dnsEnv \<Rightarrow> string \<Rightarrow> Policy \<Rightarrow> Policy \<times> (dnsErr + (ip list \<times> duration))"
and lookup_rules :: "dnsEnv \<Rightarrow> string \<Rightarrow> policyRule list \<Rightarrow> policyRule list \<times> (dnsErr + (ip list \<times> duration))" where
  "LookupIPTTL env host (Policy sys eps rules timeout lastErr) =
     (case ParseIP (trim_brackets host) of
        Some ip \<Rightarrow> (Policy sys eps rules timeout lastErr, Inr ([ip], 0))
      | None \<Rightarrow>
          if sys then (Policy sys eps rules timeout lastErr, system_lookup env host)
          else if rules \<noteq> [] then
            (case lookup_rules env host rules of
               (rules', r) \<Rightarrow> (recordError (Policy sys eps rules' timeout lastErr) (err_of r), r))
          else
            (let r = (case dnsName env host of Inl e \<Rightarrow> Inl (DnsGo e) | Inr name \<Rightarrow> lookup_endpoints env name 0 eps [])
             in (recordError (Policy sys eps rules timeout lastErr) (err_of r), r)))"
| "lookup_rules env host [] = ([], system_lookup env host)"
| "lookup_rules env host (PolicyRule resolver only bypass # rules) =
     (if matchesAny host bypass then (PolicyRule resolver only bypass # rules, system_lookup env host)
      else if only \<noteq> [] \<and> \<not> matchesAny host only then
        (case lookup_rules env host rules of (rules', r) \<Rightarrow> (PolicyRule resolver only bypass # rules', r))
      else
        (case LookupIPTTL env host resolver of (resolver', r) \<Rightarrow> (PolicyRule resolver' only bypass # rules, r)))"

section \<open>Dialing\<close>

text \<open>\<open>dial\<close> is the outcome of the system dial of an address and \<open>ctxErr\<close> the context's error after the \<open>i\<close>-th
  failure. The result lists the addresses that were handed to the system dialer.\<close>

fun dial_loop ::
  "string \<Rightarrow> string \<Rightarrow> (string \<Rightarrow> goerr option) \<Rightarrow> (nat \<Rightarrow> goerr option) \<Rightarrow> ip list \<Rightarrow> string list \<Rightarrow> goerr list \<Rightarrow> string list \<times> (dnsErr + string)" where
  "dial_loop network port dial ctxErr [] dialled failures =
     (dialled, Inl (if failures = [] then DnsGo (ErrMsg ''dns resolver returned no usable addresses'') else DnsJoin (map DnsGo failures)))"
| "dial_loop network port dial ctxErr (ip # ips) dialled failures =
     (if has_suffix network ''4'' \<and> to4 ip = None then dial_loop network port dial ctxErr ips dialled failures
      else if has_suffix network ''6'' \<and> to4 ip \<noteq> None then dial_loop network port dial ctxErr ips dialled failures
      else
        let candidate = JoinHostPort (ip_string ip) port in
        case dial candidate of
          None \<Rightarrow> (dialled @ [candidate], Inr candidate)
        | Some e \<Rightarrow>
            (case ctxErr (length failures) of
               Some ce \<Rightarrow> (dialled @ [candidate], Inl (DnsGo ce))
             | None \<Rightarrow> dial_loop network port dial ctxErr ips (dialled @ [candidate]) (failures @ [e])))"

definition system_dial :: "(string \<Rightarrow> goerr option) \<Rightarrow> string \<Rightarrow> string list \<times> (dnsErr + string)" where
  "system_dial dial address = ([address], case dial address of Some e \<Rightarrow> Inl (DnsGo e) | None \<Rightarrow> Inr address)"

definition Policy_DialContext ::
  "Policy option \<Rightarrow> string \<Rightarrow> string \<Rightarrow> (string \<Rightarrow> dnsErr + ip list) \<Rightarrow> (string \<Rightarrow> goerr option) \<Rightarrow> (nat \<Rightarrow> goerr option)
    \<Rightarrow> string list \<times> (dnsErr + string)" where
  "Policy_DialContext p network address look dial ctxErr =
     (if (case p of None \<Rightarrow> True | Some p \<Rightarrow> pl_system p) then system_dial dial address
      else case SplitHostPort address of
        None \<Rightarrow> ([], Inl (DnsGo (ErrMsg ''address error'')))
      | Some (host, port) \<Rightarrow>
          if ParseIP (trim_brackets host) \<noteq> None then system_dial dial address
          else case look host of
            Inl e \<Rightarrow> ([], Inl e)
          | Inr [] \<Rightarrow> ([], Inl (DnsGo (ErrMsg ''dns resolver returned no addresses'')))
          | Inr ips \<Rightarrow> dial_loop network port dial ctxErr ips [] [])"

section \<open>Names that a response may answer for\<close>

text \<open>The specification: the names that a chain of CNAME records leads to from the name of the query.\<close>

inductive cname_reach :: "Resource list \<Rightarrow> string \<Rightarrow> string \<Rightarrow> bool" for as root where
  reach_root: "cname_reach as root root"
| reach_cname: "cname_reach as root (canonicalName (an_Name a)) \<Longrightarrow> a \<in> set as \<Longrightarrow> an_Body a = CNAMEResource c
    \<Longrightarrow> cname_reach as root (canonicalName c)"

definition cname_closed :: "Resource list \<Rightarrow> string list \<Rightarrow> bool" where
  "cname_closed as allowed \<longleftrightarrow>
     (\<forall>a \<in> set as. \<forall>c. an_Body a = CNAMEResource c \<longrightarrow> canonicalName (an_Name a) \<in> set allowed \<longrightarrow> canonicalName c \<in> set allowed)"

lemma cname_pass_sound:
  assumes "cname_pass as' allowed changed = (allowed', changed')" "set as' \<subseteq> set as" "\<forall>n \<in> set allowed. cname_reach as root n"
  shows "\<forall>n \<in> set allowed'. cname_reach as root n"
  using assms
proof (induction as' arbitrary: allowed changed)
  case (Cons a as')
  have new: "cname_reach as root (canonicalName c)" if "an_Body a = CNAMEResource c" "canonicalName (an_Name a) \<in> set allowed" for c
    by (rule reach_cname [OF _ _ that(1)]) (use that Cons.prems(2,3) in auto)
  show ?case
  proof (cases "\<exists>c. canonicalName (an_Name a) \<in> set allowed \<and> an_Body a = CNAMEResource c \<and> canonicalName c \<notin> set allowed")
    case True
    then obtain c where c: "canonicalName (an_Name a) \<in> set allowed" "an_Body a = CNAMEResource c" "canonicalName c \<notin> set allowed" by blast
    with Cons.prems(1) have "cname_pass as' (canonicalName c # allowed) True = (allowed', changed')" by simp
    from Cons.IH [OF this] Cons.prems(2,3) new [OF c(2,1)] show ?thesis by simp
  next
    case False
    with Cons.prems(1) have "cname_pass as' allowed changed = (allowed', changed')" by (auto split: resourceBody.splits if_splits)
    from Cons.IH [OF this] Cons.prems(2,3) show ?thesis by simp
  qed
qed simp

lemma cname_pass_flag: "cname_pass as allowed True = (allowed', changed') \<Longrightarrow> changed'"
  using cname_pass_grows by blast

lemma cname_pass_stable:
  assumes "cname_pass as allowed False = (allowed', False)"
  shows "allowed' = allowed \<and> cname_closed as allowed"
  using assms
proof (induction as)
  case (Cons a as)
  have no: "\<not> (\<exists>c. canonicalName (an_Name a) \<in> set allowed \<and> an_Body a = CNAMEResource c \<and> canonicalName c \<notin> set allowed)"
    using Cons.prems by (auto split: if_splits dest: cname_pass_flag)
  then have "cname_pass as allowed False = (allowed', False)" using Cons.prems by (auto split: resourceBody.splits if_splits)
  with Cons.IH no show ?case by (auto simp: cname_closed_def)
qed (simp add: cname_closed_def)

lemma cname_loop_reach:
  assumes "\<forall>n \<in> set allowed. cname_reach as root n" "root \<in> set allowed"
  shows "set (cname_loop as allowed) = {n. cname_reach as root n}"
  using assms
proof (induction as allowed rule: cname_loop.induct)
  case (1 as allowed)
  obtain allowed' changed where p: "cname_pass as allowed False = (allowed', changed)" by fastforce
  have sound: "\<forall>n \<in> set allowed'. cname_reach as root n" by (rule cname_pass_sound [OF p order_refl "1.prems"(1)])
  show ?case
  proof (cases changed)
    case True
    with p have "cname_loop as allowed = cname_loop as allowed'" by (simp add: cname_loop.simps [of as allowed])
    moreover have "root \<in> set allowed'" using cname_pass_grows [OF p] "1.prems"(2) by blast
    ultimately show ?thesis using "1.IH" p True sound by simp
  next
    case False
    with cname_pass_stable p have st: "allowed' = allowed" "cname_closed as allowed" by auto
    have "n \<in> set allowed" if "cname_reach as root n" for n
      using that
    proof induction
      case (reach_cname a c)
      then show ?case using st(2) unfolding cname_closed_def by blast
    qed (rule "1.prems"(2))
    moreover have "cname_loop as allowed = allowed" using p False st by (subst cname_loop.simps) simp
    ultimately show ?thesis using "1.prems"(1) by auto
  qed
qed

section \<open>Addresses and TTL of a response\<close>

text \<open>A record counts if it has the class IN and its name is reached; it contributes an address if it has the
  type of the query, and its TTL also if it is a CNAME record on the way.\<close>

definition trusted :: "Resource list \<Rightarrow> string \<Rightarrow> Resource \<Rightarrow> bool" where
  "trusted as name a \<longleftrightarrow> an_Class a = ClassINET \<and> cname_reach as (canonicalName name) (canonicalName (an_Name a))"

fun body_address :: "nat \<Rightarrow> resourceBody \<Rightarrow> ip option" where
  "body_address qtype (AResource addr) = (if qtype = TypeA then Some (v4InV6Prefix @ addr) else None)"
| "body_address qtype (AAAAResource addr) = (if qtype = TypeAAAA then Some addr else None)"
| "body_address qtype _ = None"

definition ttl_counts :: "nat \<Rightarrow> Resource \<Rightarrow> bool" where
  "ttl_counts qtype a \<longleftrightarrow> (\<exists>c. an_Body a = CNAMEResource c) \<or> body_address qtype (an_Body a) \<noteq> None"

definition allowed_answer :: "string list \<Rightarrow> Resource \<Rightarrow> bool" where
  "allowed_answer allowed a \<longleftrightarrow> an_Class a = ClassINET \<and> canonicalName (an_Name a) \<in> set allowed"

lemma collect_spec:
  "collect_answers qtype allowed as ips ttl =
     (ips @ List.map_filter (\<lambda>a. body_address qtype (an_Body a)) (filter (allowed_answer allowed) as),
      fold (\<lambda>a t. least_ttl t (record_ttl a)) (filter (\<lambda>a. allowed_answer allowed a \<and> ttl_counts qtype a) as) ttl)"
proof (induction as arbitrary: ips ttl)
  case (Cons a as)
  show ?case
  proof (cases "an_Body a")
    case (CNAMEResource c)
    then show ?thesis using Cons by (auto simp: allowed_answer_def ttl_counts_def List.map_filter_simps)
  next
    case (AResource addr)
    then show ?thesis using Cons by (auto simp: allowed_answer_def ttl_counts_def List.map_filter_simps)
  next
    case (AAAAResource addr)
    then show ?thesis using Cons by (auto simp: allowed_answer_def ttl_counts_def List.map_filter_simps)
  next
    case OtherResource
    then show ?thesis using Cons by (auto simp: allowed_answer_def ttl_counts_def List.map_filter_simps)
  qed
qed (simp add: List.map_filter_simps)

lemma least_fold_some: "fold (\<lambda>a t. least_ttl t (record_ttl a)) as (Some t) = Some (Min (insert t (record_ttl ` set as)))"
proof (induction as arbitrary: t)
  case (Cons a as)
  have l: "least_ttl (Some t) (record_ttl a) = Some (min t (record_ttl a))" by (simp add: least_ttl_def min_def)
  show ?case
    by (simp only: fold.simps o_apply l Cons.IH) (cases "as = []"; simp add: Min_insert2 min.assoc)
qed simp

lemma least_fold: "as \<noteq> [] \<Longrightarrow> fold (\<lambda>a t. least_ttl t (record_ttl a)) as None = Some (Min (record_ttl ` set as))"
  by (cases as) (simp_all add: least_ttl_def least_fold_some [unfolded least_ttl_def])

section \<open>Policies and the system resolver\<close>

text \<open>Which names the system resolver decides about: under the first rule that applies, those it bypasses, and
  those that no rule applies to.\<close>

fun uses_system :: "string \<Rightarrow> Policy \<Rightarrow> bool" and rules_use_system :: "string \<Rightarrow> policyRule list \<Rightarrow> bool" where
  "uses_system host (Policy sys eps rules timeout err) \<longleftrightarrow> sys \<or> (rules \<noteq> [] \<and> rules_use_system host rules)"
| "rules_use_system host [] \<longleftrightarrow> True"
| "rules_use_system host (PolicyRule resolver only bypass # rules) \<longleftrightarrow>
     (if matchesAny host bypass then True
      else if only \<noteq> [] \<and> \<not> matchesAny host only then rules_use_system host rules
      else uses_system host resolver)"

lemma family_no_system: "family_step (env\<lparr>de_sys := s\<rparr>) i ep name qtype = family_step env i ep name qtype"
proof -
  have "buildQuery (env\<lparr>de_sys := s\<rparr>) i name qtype = buildQuery env i name qtype" by (simp add: buildQuery_def split: sum.split)
  moreover have "exchange (env\<lparr>de_sys := s\<rparr>) i qtype ep = exchange env i qtype ep" by (intro ext) (simp add: exchange_def split: sum.split)
  ultimately show ?thesis by (intro ext) (simp add: family_step_def split: sum.split)
qed

lemma endpoint_no_system: "lookupEndpoint (env\<lparr>de_sys := s\<rparr>) i ep name = lookupEndpoint env i ep name"
  unfolding lookupEndpoint_def family_no_system ..

lemma endpoints_no_system: "lookup_endpoints (env\<lparr>de_sys := s\<rparr>) name i eps failures = lookup_endpoints env name i eps failures"
  by (induction eps arbitrary: i failures) (auto simp: endpoint_no_system split: sum.split option.split)

lemma name_no_system:
  "(case dnsName (env\<lparr>de_sys := s\<rparr>) host of Inl e \<Rightarrow> Inl (DnsGo e) | Inr name \<Rightarrow> lookup_endpoints (env\<lparr>de_sys := s\<rparr>) name 0 eps []) =
   (case dnsName env host of Inl e \<Rightarrow> Inl (DnsGo e) | Inr name \<Rightarrow> lookup_endpoints env name 0 eps [])"
  by (auto simp: dnsName_def Let_def endpoints_no_system split: sum.split)

lemma lookup_system:
  assumes "ParseIP (trim_brackets host) = None"
  shows "uses_system host p \<Longrightarrow> snd (LookupIPTTL env host p) = system_lookup env host"
    and "rules_use_system host rules \<Longrightarrow> snd (lookup_rules env host rules) = system_lookup env host"
  using assms by (induction host p and host rules rule: uses_system_rules_use_system.induct) (auto split: prod.splits if_splits)

lemma lookup_no_system:
  assumes "ParseIP (trim_brackets host) = None"
  shows "\<not> uses_system host p \<Longrightarrow> LookupIPTTL (env\<lparr>de_sys := s\<rparr>) host p = LookupIPTTL env host p"
    and "\<not> rules_use_system host rules \<Longrightarrow> lookup_rules (env\<lparr>de_sys := s\<rparr>) host rules = lookup_rules env host rules"
  using assms
  by (induction host p and host rules rule: uses_system_rules_use_system.induct)
     (auto simp: name_no_system Let_def endpoints_no_system split: prod.splits if_splits)

lemma record_uses [simp]: "uses_system host (recordError p err) = uses_system host p"
  by (cases p) (simp add: recordError_def)

lemma lookup_keeps_rules:
  "uses_system host' (fst (LookupIPTTL env host p)) = uses_system host' p"
  "rules_use_system host' (fst (lookup_rules env host rules)) = rules_use_system host' rules
   \<and> (fst (lookup_rules env host rules) = [] \<longleftrightarrow> rules = [])"
  by (induction env host p and env host rules rule: LookupIPTTL_lookup_rules.induct)
     (auto simp: Let_def split: prod.splits option.splits sum.splits)

text \<open>The endpoints that a name that is not given to the system is asked of: those of the policy, or of the first rule
  that applies.\<close>

fun responsible :: "string \<Rightarrow> Policy \<Rightarrow> endpoint list" and rules_responsible :: "string \<Rightarrow> policyRule list \<Rightarrow> endpoint list" where
  "responsible host (Policy sys eps rules timeout err) = (if rules = [] then eps else rules_responsible host rules)"
| "rules_responsible host [] = []"
| "rules_responsible host (PolicyRule resolver only bypass # rules) =
     (if only \<noteq> [] \<and> \<not> matchesAny host only then rules_responsible host rules else responsible host resolver)"

text \<open>An address comes from the \<open>i\<close>-th endpoint: it is in a response of this endpoint to a query for the name, and the
  response passed all checks.\<close>

definition answered_by :: "dnsEnv \<Rightarrow> nat \<Rightarrow> endpoint \<Rightarrow> string \<Rightarrow> ip \<Rightarrow> bool" where
  "answered_by env i ep name ip \<longleftrightarrow>
     (\<exists>qtype \<in> {TypeA, TypeAAAA}. \<exists>query qid msg ips ttl. buildQuery env i name qtype = Inr (query, qid)
        \<and> exchange env i qtype ep query = Inr msg \<and> parseResponseTTL (de_parser env) msg qid name qtype = Inr (ips, ttl) \<and> ip \<in> set ips)"

lemma char_of_not_less: "n \<noteq> 60 \<Longrightarrow> n < 256 \<Longrightarrow> char_of n \<noteq> CHR ''<''" for n :: nat
proof
  assume "n \<noteq> 60" "n < 256" "char_of n = CHR ''<''"
  then have "of_char (char_of n) = (60 :: nat)" by simp
  with \<open>n \<noteq> 60\<close> \<open>n < 256\<close> show False by (simp add: of_char_of)
qed

lemma show_hex_not_less: "CHR ''<'' \<notin> set (show_hex n)"
proof (induction n rule: show_hex.induct)
  case (1 n)
  have "(if d < 10 then char_of (48 + d) else char_of (87 + d)) \<noteq> CHR ''<''" if "d < 16" for d :: nat
    using char_of_not_less [of "48 + d"] char_of_not_less [of "87 + d"] that by auto
  from this [of n] this [of "n mod 16"] 1 show ?case by (subst show_hex.simps) (auto simp: Let_def)
qed

lemma join_with_not_less: "CHR ''<'' \<notin> set sep \<Longrightarrow> (\<And>x. x \<in> set xs \<Longrightarrow> CHR ''<'' \<notin> set x) \<Longrightarrow> CHR ''<'' \<notin> set (join_with sep xs)"
  by (induction sep xs rule: join_with.induct) auto

lemma ip_string_not_nil: "ip_string ip \<noteq> ''<nil>''"
proof -
  have "CHR ''<'' \<notin> set (show_nat n)" for n using show_nat_digits [of n] by (auto simp: list_all_iff is_digit_def)
  then have "CHR ''<'' \<notin> set (ipv4_string a)" for a unfolding ipv4_string_def by (intro join_with_not_less) auto
  moreover have "CHR ''<'' \<notin> set (ipv6_string ip)"
    using join_with_not_less [of "'':''" "map (\<lambda>i. show_hex (ip_group ip i)) js" for js] show_hex_not_less
    unfolding ipv6_string_def Let_def by (auto split: prod.splits)
  ultimately have "CHR ''<'' \<notin> set (ip_string ip)" unfolding ip_string_def by (auto split: option.split)
  then show ?thesis by auto
qed

lemma dedupe_loop_set: "set (dedupe_loop ips seen out) \<subseteq> set ips \<union> set out \<and> (out \<noteq> [] \<or> ips \<noteq> [] \<and> seen = [] \<longrightarrow> dedupe_loop ips seen out \<noteq> [])"
  by (induction ips seen out rule: dedupe_loop.induct) (auto simp: ip_string_not_nil)

lemma family_answers:
  assumes "family_step env i ep name qtype st = Inr st'" "qtype \<in> {TypeA, TypeAAAA}" "\<forall>ip \<in> set (fs_ips st). answered_by env i ep name ip"
  shows "\<forall>ip \<in> set (fs_ips st'). answered_by env i ep name ip"
  using assms unfolding family_step_def by (auto simp: answered_by_def split: sum.splits prod.splits)

lemma endpoint_answers:
  assumes "lookupEndpoint env i ep name = Inr (ips, ttl)"
  shows "ips \<noteq> [] \<and> (\<forall>ip \<in> set ips. answered_by env i ep name ip)"
proof -
  let ?init = "\<lparr>fs_ips = [], fs_ttl = None, fs_errors = [], fs_terminal = True\<rparr>"
  obtain st st' where st: "family_step env i ep name TypeA ?init = Inr st" "family_step env i ep name TypeAAAA st = Inr st'"
    and r: "fs_ips st' \<noteq> []" "ips = dedupeIPs (fs_ips st')"
    using assms unfolding lookupEndpoint_def by (auto split: sum.splits if_splits)
  from family_answers [OF st(1)] have "\<forall>ip \<in> set (fs_ips st). answered_by env i ep name ip" by simp
  from family_answers [OF st(2) _ this] have "\<forall>ip \<in> set (fs_ips st'). answered_by env i ep name ip" by simp
  with r dedupe_loop_set [of "fs_ips st'" "[]" "[]"] show ?thesis by (auto simp: dedupeIPs_def)
qed

lemma endpoints_answer:
  assumes "lookup_endpoints env name i eps failures = Inr (ips, ttl)" "eps \<noteq> [] \<or> failures \<noteq> []"
  shows "\<exists>j < length eps. lookupEndpoint env (i + j) (eps ! j) name = Inr (ips, ttl)"
  using assms
proof (induction eps arbitrary: i failures)
  case (Cons ep eps)
  show ?case
  proof (cases "lookupEndpoint env i ep name")
    case (Inl e)
    with Cons.prems obtain f where "lookup_endpoints env name (i + 1) eps (failures @ [f]) = Inr (ips, ttl)"
      by (auto split: prod.splits if_splits option.splits)
    from Cons.IH [OF this] obtain j where "j < length eps" "lookupEndpoint env (i + 1 + j) (eps ! j) name = Inr (ips, ttl)" by auto
    then show ?thesis by (intro exI [of _ "Suc j"]) simp
  next
    case (Inr r)
    with Cons.prems show ?thesis by (intro exI [of _ 0]) simp
  qed
qed (simp split: if_splits)

lemma lookup_answers:
  assumes "ParseIP (trim_brackets host) = None"
  shows "\<not> uses_system host p \<Longrightarrow> responsible host p \<noteq> [] \<Longrightarrow> snd (LookupIPTTL env host p) = Inr (ips, ttl)
      \<Longrightarrow> \<exists>name j. dnsName env host = Inr name \<and> j < length (responsible host p) \<and> lookupEndpoint env j (responsible host p ! j) name = Inr (ips, ttl)"
    and "\<not> rules_use_system host rules \<Longrightarrow> rules_responsible host rules \<noteq> [] \<Longrightarrow> snd (lookup_rules env host rules) = Inr (ips, ttl)
      \<Longrightarrow> \<exists>name j. dnsName env host = Inr name \<and> j < length (rules_responsible host rules)
            \<and> lookupEndpoint env j (rules_responsible host rules ! j) name = Inr (ips, ttl)"
  using assms
proof (induction host p and host rules rule: uses_system_rules_use_system.induct)
  case (1 host sys eps rules timeout err)
  show ?case
  proof (cases "rules = []")
    case True
    with 1 obtain name where "dnsName env host = Inr name" "lookup_endpoints env name 0 eps [] = Inr (ips, ttl)"
      by (auto simp: Let_def split: sum.splits)
    with True 1 endpoints_answer [of env name 0 eps "[]"] show ?thesis by auto
  next
    case False
    with 1 show ?thesis by (auto split: prod.splits)
  qed
qed (auto split: prod.splits if_splits)

text \<open>A policy that was built asks at least one endpoint for a name that it does not give to the system.\<close>

lemma newPolicy_responsible: "newPolicy url_Parse raw timeout = Inr p \<Longrightarrow> \<not> uses_system host p \<Longrightarrow> responsible host p \<noteq> []"
  by (auto simp: newPolicy_def Let_def split: sum.splits if_splits)

lemma rule_loop_responsible:
  assumes "rule_loop url_Parse timeout raws rules = Inr rules'" "\<And>r only bypass. PolicyRule r only bypass \<in> set rules \<Longrightarrow> \<not> uses_system host r \<Longrightarrow> responsible host r \<noteq> []"
    and "PolicyRule r only bypass \<in> set rules'" "\<not> uses_system host r"
  shows "responsible host r \<noteq> []"
  using assms
proof (induction raws arbitrary: rules)
  case (Cons raw raws)
  from Cons.prems(1) obtain r' o' b' where n: "newPolicy url_Parse (ru_Resolver raw) timeout = Inr r'"
    and l: "rule_loop url_Parse timeout raws (rules @ [PolicyRule r' o' b']) = Inr rules'" by (auto split: sum.splits)
  show ?case
    by (rule Cons.IH [OF l _ Cons.prems(3,4)]) (use Cons.prems(2) newPolicy_responsible [OF n] in auto)
qed simp

lemma rule_loop_length: "rule_loop url_Parse timeout raws rules = Inr rules' \<Longrightarrow> length rules' = length rules + length raws"
  by (induction raws arbitrary: rules) (auto split: sum.splits)

lemma rules_responsible_ok:
  "(\<And>r only bypass. PolicyRule r only bypass \<in> set rules \<Longrightarrow> \<not> uses_system host r \<Longrightarrow> responsible host r \<noteq> [])
   \<Longrightarrow> \<not> rules_use_system host rules \<Longrightarrow> rules_responsible host rules \<noteq> []"
proof (induction rules)
  case (Cons r rules)
  then show ?case by (cases r) (auto split: if_splits)
qed simp

lemma NewRules_responsible:
  assumes "NewRules url_Parse rules timeout = Inr p" "\<not> uses_system host p"
  shows "responsible host p \<noteq> []"
proof -
  have "responsible host p \<noteq> []"
    if l: "rule_loop url_Parse timeout rules [] = Inr rs" and p: "p = Policy False [] rs (normalizedTimeout timeout) []" and "rules \<noteq> []" for rs
  proof -
    have "rs \<noteq> []" using rule_loop_length [OF l] \<open>rules \<noteq> []\<close> by auto
    with assms(2) p rules_responsible_ok [of rs host] rule_loop_responsible [OF l] show ?thesis by auto
  qed
  with assms newPolicy_responsible show ?thesis by (auto simp: NewRules_def split: list.splits sum.splits if_splits)
qed

text \<open>A message read back from its frame is the message.\<close>

lemma tcp_frame_roundtrip:
  assumes "tn_dial c = None" "tn_write c = None" "tn_stream c = tcp_frame m @ rest" "m \<noteq> []" "length m \<le> maxDNSMessageBytes"
    and "length query \<le> maxDNSMessageBytes"
  shows "exchangeTCP c query = (Some (tcp_frame query), Inr m)"
proof -
  obtain a b where ab: "bytes16 BigEndian (length m) = [a, b]" "Uint16 BigEndian a b = length m"
    using assms(5) by (simp add: maxDNSMessageBytes_def unat_byte_of_nat less_mult_imp_div_less)
  with assms show ?thesis by (simp add: exchangeTCP_def tcp_frame_def Let_def del: Uint16.simps bytes16.simps)
qed

text \<open>A classic endpoint is an address literal, so that no name has to be resolved to reach it.\<close>

lemma classic_endpoint_literal:
  assumes "parseEndpoint url_Parse raw = Inr ep" "ep_scheme ep \<noteq> ''https''"
  shows "\<exists>ip port. ep_addr ep = JoinHostPort (ip_string ip) port \<and> validatePort port = None \<and> ep_scheme ep \<in> {''udp'', ''tcp''}"
proof -
  have "\<exists>ip port. addr = JoinHostPort (ip_string ip) port \<and> validatePort port = None" if "normalizeClassicAddress r = Inr addr" for r addr
  proof -
    have "validatePort defaultDNSPort = None" by code_simp
    with that show ?thesis unfolding normalizeClassicAddress_def Let_def by (force split: if_splits option.splits)
  qed
  with assms show ?thesis
    by (auto simp: parseEndpoint_def classic_endpoint_def Let_def split: if_splits option.splits sum.splits)
qed

text \<open>A defect: an address with an empty port is taken as it is instead of getting the default port.\<close>

lemma empty_port_accepted: "normalizeClassicAddress ''1.1.1.1:'' = Inr ''1.1.1.1:''"
  by code_simp

text \<open>Under a configured policy only addresses that the lookup gave are dialled.\<close>

lemma dial_loop_addresses:
  "set (fst (dial_loop network port dial ctxErr ips dialled failures)) \<subseteq> set dialled \<union> (\<lambda>ip. JoinHostPort (ip_string ip) port) ` set ips"
proof (induction ips arbitrary: dialled failures)
  case (Cons ip ips)
  let ?c = "JoinHostPort (ip_string ip) port"
  show ?case
    using Cons [of dialled failures] Cons [of "dialled @ [?c]" "failures @ [the (dial ?c)]"]
    by (auto simp: Let_def split: option.split)
qed simp

declare dial_loop.simps [simp del]

lemma dial_only_resolved:
  assumes "\<not> pl_system p" "SplitHostPort address = Some (host, port)" "ParseIP (trim_brackets host) = None"
  shows "set (fst (Policy_DialContext (Some p) network address look dial ctxErr))
    \<subseteq> (case look host of Inl e \<Rightarrow> {} | Inr ips \<Rightarrow> (\<lambda>ip. JoinHostPort (ip_string ip) port) ` set ips)"
proof (cases "look host")
  case (Inr ips)
  with assms dial_loop_addresses [of network port dial ctxErr ips "[]" "[]"] show ?thesis
    by (cases ips) (simp_all add: Policy_DialContext_def)
qed (use assms in \<open>simp add: Policy_DialContext_def\<close>)

section \<open>Properties\<close>

text \<open>C17: Only the records that answer the query count. An accepted response has the identifier and the question of
  the query. Its addresses are exactly those of the answer records of class IN and the right type whose name is the
  name of the query or is reached from it by CNAME records of the response, in their order; other records are
  ignored. The TTL is the least one of these records and of the CNAME records on the way (the comment of
  \<^verbatim>\<open>LookupIPTTL\<close> mentions only the address records).\<close>

theorem dns_answer_authentic:
  assumes "parseResponseTTL pa msg qid name qtype = Inr (ips, ttl)"
  shows "\<exists>h q as. pa_start pa msg = Some h \<and> dh_Response h \<and> dh_ID h = qid \<and> dh_RCode h = RCodeSuccess
    \<and> pa_questions pa msg = Some [q] \<and> sameName (qu_Name q) name \<and> qu_Type q = qtype \<and> qu_Class q = ClassINET
    \<and> pa_answers pa msg = Some as
    \<and> ips = List.map_filter (\<lambda>a. body_address qtype (an_Body a)) (filter (trusted as name) as) \<and> ips \<noteq> []
    \<and> ttl = Min (record_ttl ` {a \<in> set as. trusted as name a \<and> ttl_counts qtype a})"
proof -
  obtain h q as where p: "pa_start pa msg = Some h" "dh_Response h" "dh_ID h = qid" "dh_RCode h = RCodeSuccess"
    "pa_questions pa msg = Some [q]" "sameName (qu_Name q) name" "qu_Type q = qtype" "qu_Class q = ClassINET" "pa_answers pa msg = Some as"
    and c: "(case collect_answers qtype (cname_loop as [canonicalName name]) as [] None of
        (ips, ttl) \<Rightarrow> if ips = [] then Inl (responseError ''dns response contains no matching address records'' True, True)
                    else Inr (ips, case ttl of None \<Rightarrow> 0 | Some t \<Rightarrow> t)) = Inr (ips, ttl)"
    using assms by (auto simp: parseResponseTTL_def RCodeNameError_def split: option.splits if_splits list.splits)
  have "set (cname_loop as [canonicalName name]) = {n. cname_reach as (canonicalName name) n}"
    by (rule cname_loop_reach) (simp_all add: reach_root)
  then have al: "allowed_answer (cname_loop as [canonicalName name]) = trusted as name"
    by (intro ext) (simp add: allowed_answer_def trusted_def)
  let ?ips = "List.map_filter (\<lambda>a. body_address qtype (an_Body a)) (filter (trusted as name) as)"
  let ?used = "filter (\<lambda>a. trusted as name a \<and> ttl_counts qtype a) as"
  from c have ips: "ips = ?ips" "ips \<noteq> []" "ttl = (case fold (\<lambda>a t. least_ttl t (record_ttl a)) ?used None of None \<Rightarrow> 0 | Some t \<Rightarrow> t)"
    unfolding collect_spec al by (auto split: if_splits)
  from ips(1,2) obtain a where "a \<in> set as" "trusted as name a" "body_address qtype (an_Body a) \<noteq> None"
    by (auto simp: List.map_filter_def filter_empty_conv)
  then have "?used \<noteq> []" by (auto simp: filter_empty_conv ttl_counts_def simp del: not_None_eq)
  then have "ttl = Min (record_ttl ` {a \<in> set as. trusted as name a \<and> ttl_counts qtype a})" using ips(3) by (simp add: least_fold)
  with p ips(1,2) show ?thesis by blast
qed

text \<open>C18: A configured resolver is not bypassed, and it fails closed. For a name that is no address literal, the answer
  is that of the system resolver exactly for the names that the rules give to it. For all other names, whatever the
  configured endpoints do, neither the answer nor the state of the policy depends on the system resolver, and a lookup
  succeeds only with a non-empty list of addresses that one of the endpoints responsible for the name gave in responses
  that passed all checks; if every responsible endpoint fails, the lookup is an error. Every policy that \<^verbatim>\<open>NewRules\<close>
  builds has a responsible endpoint for every such name. A policy made of endpoints without rules gives no name to the
  system, and lookups do not change which names those are.\<close>

theorem configured_dns_fails_closed:
  assumes "ParseIP (trim_brackets host) = None"
  shows "(uses_system host p \<longrightarrow> snd (LookupIPTTL env host p) = system_lookup env host)
    \<and> (\<not> uses_system host p \<longrightarrow> LookupIPTTL (env\<lparr>de_sys := s\<rparr>) host p = LookupIPTTL env host p)
    \<and> (NewRules url_Parse rules timeout = Inr p \<and> \<not> uses_system host p \<longrightarrow> responsible host p \<noteq> [])
    \<and> (\<not> uses_system host p \<and> responsible host p \<noteq> [] \<longrightarrow>
        (case snd (LookupIPTTL env host p) of
           Inl e \<Rightarrow> True
         | Inr (ips, ttl) \<Rightarrow> ips \<noteq> [] \<and> (\<exists>name i. dnsName env host = Inr name \<and> i < length (responsible host p)
             \<and> lookupEndpoint env i (responsible host p ! i) name = Inr (ips, ttl)
             \<and> (\<forall>ip \<in> set ips. answered_by env i (responsible host p ! i) name ip))))
    \<and> (newPolicy url_Parse raw timeout = Inr p \<and> trim_space raw \<noteq> [] \<and> \<not> equal_fold (trim_space raw) resolverModeSystem \<longrightarrow> \<not> uses_system host p)
    \<and> uses_system host' (fst (LookupIPTTL env host p)) = uses_system host' p"
proof (intro conjI impI)
  assume u: "\<not> uses_system host p \<and> responsible host p \<noteq> []"
  show "case snd (LookupIPTTL env host p) of
           Inl e \<Rightarrow> True
         | Inr (ips, ttl) \<Rightarrow> ips \<noteq> [] \<and> (\<exists>name i. dnsName env host = Inr name \<and> i < length (responsible host p)
             \<and> lookupEndpoint env i (responsible host p ! i) name = Inr (ips, ttl)
             \<and> (\<forall>ip \<in> set ips. answered_by env i (responsible host p ! i) name ip))"
  proof (cases "snd (LookupIPTTL env host p)")
    case (Inr r)
    obtain ips ttl where r: "r = (ips, ttl)" by (cases r)
    from lookup_answers(1) [OF assms] u Inr r obtain name j where "dnsName env host = Inr name" "j < length (responsible host p)"
      "lookupEndpoint env j (responsible host p ! j) name = Inr (ips, ttl)" by blast
    with Inr r endpoint_answers [OF this(3)] show ?thesis by auto
  qed simp
qed (use lookup_system(1) [OF assms] lookup_no_system(1) [OF assms] lookup_keeps_rules(1) NewRules_responsible in
  \<open>auto simp: newPolicy_def Let_def split: sum.splits if_splits\<close>)

definition ex_answers :: "Resource list" where
  "ex_answers =
     [\<lparr>an_Name = ''B.'', an_Class = 1, an_TTL = 9, an_Body = CNAMEResource ''c.''\<rparr>, \<lparr>an_Name = ''a.'', an_Class = 1, an_TTL = 60, an_Body = CNAMEResource ''b.''\<rparr>,
      \<lparr>an_Name = ''c.'', an_Class = 1, an_TTL = 30, an_Body = AResource [10, 0, 0, 1]\<rparr>, \<lparr>an_Name = ''evil.'', an_Class = 1, an_TTL = 1, an_Body = AResource [10, 0, 0, 2]\<rparr>]"

definition ex_parser :: dnsParser where
  "ex_parser = \<lparr>pa_start = (\<lambda>_. Some \<lparr>dh_ID = 7, dh_Response = True, dh_Truncated = False, dh_RCode = 0\<rparr>),
     pa_questions = (\<lambda>_. Some [\<lparr>qu_Name = ''A.'', qu_Type = 1, qu_Class = 1\<rparr>]), pa_answers = (\<lambda>_. Some ex_answers)\<rparr>"

definition ex_udp :: udpConn where "ex_udp = \<lparr>uc_dial = None, uc_write = None, uc_read = Inr [1], uc_ctx = None\<rparr>"

definition ex_dns :: dnsEnv where
  "ex_dns = \<lparr>de_sys = (\<lambda>_. Inr [[9, 9, 9, 9]]), de_NewName = Inr, de_rand = (\<lambda>_ _. Inr (0, 7)), de_build = (\<lambda>_ _ _. Inr [0]), de_parser = ex_parser,
     de_udp = (\<lambda>_ _. ex_udp), de_tcp = undefined, de_doh = undefined, de_mediaType = (\<lambda>_. None), de_ctxAfter = (\<lambda>_. None)\<rparr>"

theorem dns_answer_authentic_witness:
  "parseResponseTTL ex_parser [] 7 ''a.'' TypeA = Inr ([v4InV6Prefix @ [10, 0, 0, 1]], 9 * second)
   \<and> (\<exists>as. pa_answers ex_parser [] = Some as
        \<and> [v4InV6Prefix @ [10, 0, 0, 1]] = List.map_filter (\<lambda>a. body_address TypeA (an_Body a)) (filter (trusted as ''a.'') as))"
proof -
  have r: "parseResponseTTL ex_parser [] 7 ''a.'' TypeA = Inr ([v4InV6Prefix @ [10, 0, 0, 1]], 9 * second)" by code_simp
  from dns_answer_authentic [OF r] r show ?thesis by blast
qed

definition ex_dns_policy :: Policy where
  "ex_dns_policy = Policy False [] [PolicyRule (Policy False [\<lparr>ep_scheme = ''udp'', ep_addr = ''1.1.1.1:53'', ep_url = None, ep_label = ''udp''\<rparr>] [] 1 []) [] [''corp'']] 1 []"

lemma ex_dns_lookup: "snd (LookupIPTTL ex_dns ''a'' ex_dns_policy) = Inr ([v4InV6Prefix @ [10, 0, 0, 1]], 9 * second)"
proof -
  let ?ep = "\<lparr>ep_scheme = ''udp'', ep_addr = ''1.1.1.1:53'', ep_url = None, ep_label = ''udp''\<rparr>"
  have p: "parseResponseTTL ex_parser [1] 7 ''a.'' TypeA = Inr ([v4InV6Prefix @ [10, 0, 0, 1]], 9 * second)"
    "\<exists>e. parseResponseTTL ex_parser [1] 7 ''a.'' TypeAAAA = Inl (e, False)" by (code_simp, simp add: parseResponseTTL_def ex_parser_def TypeAAAA_def)
  have d: "de_parser ex_dns = ex_parser" by (simp add: ex_dns_def)
  have b: "buildQuery ex_dns 0 name qtype = Inr ([0], 7)" for name qtype by (simp add: buildQuery_def ex_dns_def)
  have x: "exchange ex_dns 0 qtype ?ep [0] = Inr [1]" for qtype
    by (simp add: exchange_def ex_dns_def exchangeUDP_def ex_udp_def ex_parser_def maxDNSMessageBytes_def)
  have "lookupEndpoint ex_dns 0 ?ep ''a.'' = Inr ([v4InV6Prefix @ [10, 0, 0, 1]], 9 * second)"
    using p by (auto simp: lookupEndpoint_def family_step_def b x d least_ttl_def dedupeIPs_def ip_string_not_nil simp del: append_Cons)
  moreover have "dnsName ex_dns ''a'' = Inr ''a.''" by (simp add: dnsName_def ex_dns_def) code_simp
  moreover have "ParseIP (trim_brackets ''a'') = None" "\<not> matchesAny ''a'' [''corp'']" by code_simp+
  ultimately show ?thesis by (simp add: ex_dns_policy_def Let_def)
qed

theorem configured_dns_fails_closed_witness:
  "snd (LookupIPTTL ex_dns ''x.corp'' ex_dns_policy) = Inr ([[9, 9, 9, 9]], 0)
   \<and> LookupIPTTL (ex_dns\<lparr>de_sys := (\<lambda>_. Inl Canceled)\<rparr>) ''a'' ex_dns_policy = LookupIPTTL ex_dns ''a'' ex_dns_policy
   \<and> snd (LookupIPTTL ex_dns ''a'' ex_dns_policy) = Inr ([v4InV6Prefix @ [10, 0, 0, 1]], 9 * second)
   \<and> (\<exists>name. answered_by ex_dns 0 (hd (responsible ''a'' ex_dns_policy)) name (v4InV6Prefix @ [10, 0, 0, 1]))"
proof -
  have p: "ParseIP (trim_brackets ''x.corp'') = None" "ParseIP (trim_brackets ''a'') = None" by code_simp+
  have sys: "uses_system ''x.corp'' ex_dns_policy" and u: "\<not> uses_system ''a'' ex_dns_policy" by code_simp+
  have r: "snd (LookupIPTTL ex_dns ''a'' ex_dns_policy) = Inr ([v4InV6Prefix @ [10, 0, 0, 1]], 9 * second)" by (rule ex_dns_lookup)
  have "length (responsible ''a'' ex_dns_policy) = 1" by code_simp
  then obtain ep where ep: "responsible ''a'' ex_dns_policy = [ep]" by (auto simp: length_Suc_conv)
  have s: "system_lookup ex_dns ''x.corp'' = Inr ([[9, 9, 9, 9]], 0)" by (simp add: system_lookup_def ex_dns_def)
  have "\<not> uses_system ''a'' ex_dns_policy \<and> responsible ''a'' ex_dns_policy \<noteq> []" using u ep by simp
  from configured_dns_fails_closed [OF p(2), THEN conjunct2, THEN conjunct2, THEN conjunct2, THEN conjunct1, THEN mp, OF this, of ex_dns]
  have "\<exists>name i. i < length [ep] \<and> (\<forall>ip \<in> set [v4InV6Prefix @ [10, 0, 0, 1]]. answered_by ex_dns i ([ep] ! i) name ip)"
    unfolding r ep sum.case prod.case by blast
  then have "\<exists>name. answered_by ex_dns 0 ep name (v4InV6Prefix @ [10, 0, 0, 1])" by (simp del: append_Cons)
  moreover have "snd (LookupIPTTL ex_dns ''x.corp'' ex_dns_policy) = Inr ([[9, 9, 9, 9]], 0)"
    unfolding s [symmetric] by (rule configured_dns_fails_closed [OF p(1), THEN conjunct1, THEN mp, OF sys])
  moreover have "LookupIPTTL (ex_dns\<lparr>de_sys := (\<lambda>_. Inl Canceled)\<rparr>) ''a'' ex_dns_policy = LookupIPTTL ex_dns ''a'' ex_dns_policy"
    by (rule configured_dns_fails_closed [OF p(2), THEN conjunct2, THEN conjunct1, THEN mp, OF u])
  ultimately show ?thesis using r unfolding ep list.sel by blast
qed

end
