(* ===== verification/Kerberos_Manager.thy ===== *)
theory Kerberos_Manager
  imports Go_Net
begin

text \<open>
  The ticket manager, \<^verbatim>\<open>internal/kerberos/kerberos.go\<close>, and the preparation of a token in
  \<^verbatim>\<open>internal/kerberos/spnego.go\<close>: when tickets are checked, renewed and acquired, and when the credential cache is
  removed.

  A refresh runs in its own goroutine beside the cleanup, so it is split at its critical sections and its
  commands; \<open>km_pc\<close> says where it is. What \<^verbatim>\<open>kinit\<close> and \<^verbatim>\<open>klist\<close> print and return, whether the cache file exists
  after a command, and whether \<^verbatim>\<open>os.Remove\<close>, whose error the code ignores, removes it, are inputs. The regular expressions and time formats of \<^verbatim>\<open>ParseExpiry\<close> are an argument.
\<close>

section \<open>Manager\<close>

definition CheckInterval :: duration where "CheckInterval = 300 * second"
definition RetryInterval :: duration where "RetryInterval = 60 * second"
definition RenewalMargin :: duration where "RenewalMargin = 10 * minute"

record commandResult =
  cr_Stdout :: string
  cr_Stderr :: string
  cr_ExitCode :: int

text \<open>A command that could not run: its error, and whether \<^verbatim>\<open>os.IsNotExist\<close> or \<^verbatim>\<open>exec.ErrNotFound\<close> says that there
  is no such program.\<close>

record runFailure =
  rf_err :: goerr
  rf_notFound :: bool

datatype refreshPC =
    Resting | AtBegin bool | AtRenew bool gotime gotime | AtBackoff bool gotime | AtKinit bool | AtExpiry | AtEnd

text \<open>\<open>km_file\<close> is whether the cache file exists, \<open>km_removing\<close> the number of cleanups between their two halves, and
  \<open>km_removeFailed\<close> whether the last removal of the file failed.\<close>

record Manager =
  km_CCacheName :: string
  km_IsHeimdal :: bool
  km_TicketExpiry :: gotime
  km_NextCheck :: gotime
  km_Backoff :: duration
  km_refreshing :: bool
  km_closed :: bool
  km_pc :: refreshPC
  km_file :: bool
  km_removing :: nat
  km_removeFailed :: bool

text \<open>\<^verbatim>\<open>New\<close>; \<open>path\<close> is the file in the directory for temporary files.\<close>

definition Manager_New :: "string \<Rightarrow> bool \<Rightarrow> bool \<Rightarrow> Manager" where
  "Manager_New path isHeimdal exists =
     \<lparr>km_CCacheName = ''FILE:'' @ path, km_IsHeimdal = isHeimdal, km_TicketExpiry = 0, km_NextCheck = 0, km_Backoff = 0,
      km_refreshing = False, km_closed = False, km_pc = Resting, km_file = exists, km_removing = 0, km_removeFailed = False\<rparr>"

definition nextCheckFor :: "gotime \<Rightarrow> gotime \<Rightarrow> gotime" where
  "nextCheckFor now expiry =
     (let next = now + CheckInterval; renewAt = expiry - RenewalMargin in if next > renewAt then renewAt else next)"

definition Check :: "gotime \<Rightarrow> bool \<Rightarrow> Manager \<Rightarrow> Manager" where
  "Check now force m =
     (if km_closed m then m
      else if \<not> force \<and> \<not> is_zero (km_NextCheck m) \<and> before now (km_NextCheck m) then m
      else if km_refreshing m then m
      else m\<lparr>km_refreshing := True, km_pc := AtBegin force\<rparr>)"

definition setNextCheck :: "gotime \<Rightarrow> Manager \<Rightarrow> Manager" where "setNextCheck next m = m\<lparr>km_NextCheck := next\<rparr>"

definition setBackoff :: "duration \<Rightarrow> Manager \<Rightarrow> Manager" where "setBackoff b m = m\<lparr>km_Backoff := b\<rparr>"

definition consumeBackoff :: "gotime \<Rightarrow> Manager \<Rightarrow> Manager \<times> bool" where
  "consumeBackoff now m =
     (if km_Backoff m \<le> 0 then (m, False) else (m\<lparr>km_NextCheck := now + km_Backoff m, km_Backoff := 0\<rparr>, True))"

definition commitExpiry :: "gotime option \<Rightarrow> gotime \<Rightarrow> Manager \<Rightarrow> Manager" where
  "commitExpiry expiry now m =
     (case expiry of
        None \<Rightarrow> m\<lparr>km_TicketExpiry := 0, km_NextCheck := now + RetryInterval\<rparr>
      | Some e \<Rightarrow> m\<lparr>km_TicketExpiry := e, km_NextCheck := nextCheckFor now e\<rparr>)"

text \<open>\<open>removed\<close> is whether \<^verbatim>\<open>os.Remove\<close> succeeds.\<close>

definition removeCCache :: "bool \<Rightarrow> Manager \<Rightarrow> Manager" where
  "removeCCache removed m =
     (if has_prefix (km_CCacheName m) ''FILE:'' then m\<lparr>km_file := km_file m \<and> \<not> removed, km_removeFailed := \<not> removed\<rparr> else m)"

section \<open>Commands\<close>

definition DetectHeimdal :: "runFailure + commandResult \<Rightarrow> bool" where
  "DetectHeimdal r = (case r of Inl _ \<Rightarrow> False | Inr c \<Rightarrow> contains_str (to_lower (cr_Stdout c @ cr_Stderr c)) ''heimdal'')"

definition RunKlist :: "runFailure + commandResult \<Rightarrow> string option" where
  "RunKlist r = (case r of Inl _ \<Rightarrow> None | Inr c \<Rightarrow> if cr_ExitCode c \<noteq> 0 then None else Some (cr_Stdout c))"

definition KlistParseValid :: "runFailure + commandResult \<Rightarrow> bool" where
  "KlistParseValid r = (case RunKlist r of None \<Rightarrow> False | Some out \<Rightarrow> contains_str (to_lower out) ''krbtgt'')"

text \<open>The second result is that of the plain \<^verbatim>\<open>klist\<close> that follows when the flag is not known.\<close>

definition KlistValid :: "runFailure + commandResult \<Rightarrow> runFailure + commandResult \<Rightarrow> bool" where
  "KlistValid r plain =
     (case r of
        Inl _ \<Rightarrow> False
      | Inr c \<Rightarrow>
          if list_ex (contains_str (to_lower (cr_Stderr c))) [''unrecognized'', ''unknown'', ''illegal''] then KlistParseValid plain
          else cr_ExitCode c = 0)"

definition lasting_failures :: "string list" where
  "lasting_failures = [''expired'', ''revoked'', ''preauthentication failed'', ''password incorrect'', ''not found'', ''unknown'', ''skew'']"

definition kinit_backoff :: "runFailure + commandResult \<Rightarrow> duration option" where
  "kinit_backoff r =
     (case r of
        Inl f \<Rightarrow> Some (if errors_is (rf_err f) DeadlineExceeded then RetryInterval else if rf_notFound f then CheckInterval else RetryInterval)
      | Inr c \<Rightarrow>
          if cr_ExitCode c \<noteq> 0
          then Some (if list_ex (contains_str (to_lower (cr_Stderr c))) lasting_failures then CheckInterval else RetryInterval)
          else None)"

section \<open>Refresh\<close>

text \<open>What a section of a refresh meets: the clock, the password, the results of the commands that it runs and
  whether the cache file exists after them, what \<^verbatim>\<open>ParseExpiry\<close> reads in the output, and whether the file
  can be removed.\<close>

record refreshIn =
  ri_now :: gotime
  ri_password :: "string option"
  ri_cmd :: "runFailure + commandResult"
  ri_plain :: "runFailure + commandResult"
  ri_file :: bool
  ri_expiry :: "string \<Rightarrow> gotime option"
  ri_removed :: bool

definition UpdateExpiry :: "refreshIn \<Rightarrow> Manager \<Rightarrow> Manager" where
  "UpdateExpiry ri m =
     commitExpiry (case RunKlist (ri_cmd ri) of None \<Rightarrow> None | Some out \<Rightarrow> ri_expiry ri out) (ri_now ri) m"

definition refresh_begin :: "bool \<Rightarrow> refreshIn \<Rightarrow> Manager \<Rightarrow> Manager" where
  "refresh_begin force ri m =
     (let now = ri_now ri; expiry = km_TicketExpiry m in
      if \<not> is_zero expiry \<and> before now (expiry - RenewalMargin) \<and> KlistValid (ri_cmd ri) (ri_plain ri)
      then (setNextCheck (nextCheckFor now expiry) m)\<lparr>km_pc := AtEnd\<rparr>
      else m\<lparr>km_pc := AtRenew force now expiry\<rparr>)"

definition KinitRenew :: "bool \<Rightarrow> gotime \<Rightarrow> refreshIn \<Rightarrow> Manager \<Rightarrow> Manager" where
  "KinitRenew force now ri m =
     (let m = m\<lparr>km_file := ri_file ri\<rparr> in
      case ri_cmd ri of
        Inl _ \<Rightarrow> m\<lparr>km_pc := AtBackoff force now\<rparr>
      | Inr c \<Rightarrow> if cr_ExitCode c \<noteq> 0 then m\<lparr>km_pc := AtBackoff force now\<rparr> else m\<lparr>km_pc := AtExpiry\<rparr>)"

definition KinitWithPassword :: "refreshIn \<Rightarrow> Manager \<Rightarrow> Manager" where
  "KinitWithPassword ri m =
     (case ri_password ri of
        None \<Rightarrow> m\<lparr>km_pc := AtEnd\<rparr>
      | Some _ \<Rightarrow>
          (let m = m\<lparr>km_file := ri_file ri\<rparr> in
           case kinit_backoff (ri_cmd ri) of
             Some b \<Rightarrow> (setBackoff b m)\<lparr>km_pc := AtEnd\<rparr>
           | None \<Rightarrow> (setBackoff 0 m)\<lparr>km_pc := AtExpiry\<rparr>))"

text \<open>The deferred function.\<close>

definition refresh_end :: "bool \<Rightarrow> Manager \<Rightarrow> Manager" where
  "refresh_end removed m = (let m = (if km_closed m then removeCCache removed m else m) in m\<lparr>km_refreshing := False, km_pc := Resting\<rparr>)"

definition refresh :: "refreshIn \<Rightarrow> Manager \<Rightarrow> Manager" where
  "refresh ri m =
     (case km_pc m of
        Resting \<Rightarrow> m
      | AtBegin force \<Rightarrow> refresh_begin force ri m
      | AtRenew force now expiry \<Rightarrow>
          if \<not> is_zero expiry \<and> before now expiry then KinitRenew force now ri m else m\<lparr>km_pc := AtBackoff force now\<rparr>
      | AtBackoff force now \<Rightarrow>
          if force then m\<lparr>km_pc := AtKinit force\<rparr>
          else (case consumeBackoff now m of (m, True) \<Rightarrow> m\<lparr>km_pc := AtEnd\<rparr> | (m, False) \<Rightarrow> m\<lparr>km_pc := AtKinit force\<rparr>)
      | AtKinit force \<Rightarrow> KinitWithPassword ri m
      | AtExpiry \<Rightarrow> (UpdateExpiry ri m)\<lparr>km_pc := AtEnd\<rparr>
      | AtEnd \<Rightarrow> refresh_end (ri_removed ri) m)"

text \<open>The two halves of \<^verbatim>\<open>Cleanup\<close>.\<close>

definition Cleanup_close :: "Manager \<Rightarrow> Manager" where
  "Cleanup_close m = m\<lparr>km_closed := True, km_removing := km_removing m + 1\<rparr>"

definition Cleanup_remove :: "bool \<Rightarrow> Manager \<Rightarrow> Manager" where
  "Cleanup_remove removed m = (if km_removing m = 0 then m else (removeCCache removed m)\<lparr>km_removing := km_removing m - 1\<rparr>)"

datatype kerberos_event = KCheck gotime bool | KRefresh refreshIn | KClose | KRemove bool

fun kerberos_step :: "Manager \<Rightarrow> kerberos_event \<Rightarrow> Manager" where
  "kerberos_step m (KCheck now force) = Check now force m"
| "kerberos_step m (KRefresh ri) = refresh ri m"
| "kerberos_step m KClose = Cleanup_close m"
| "kerberos_step m (KRemove removed) = Cleanup_remove removed m"

section \<open>Tokens\<close>

definition normalizeProxyHost :: "string \<Rightarrow> string" where
  "normalizeProxyHost proxyHost =
     (let host = trim_space proxyHost in
      if has_prefix host ''['' \<and> CHR '']'' \<in> set host then takeWhile (\<lambda>c. c \<noteq> CHR '']'') (tl host)
      else
        let host = (case last_index (CHR '':'') host of
                      Some i \<Rightarrow> if i > 0 \<and> count_char (CHR '':'') host = 1 then take i host else host
                    | None \<Rightarrow> host)
        in trim_brackets host)"

definition fileCCachePath :: "string \<Rightarrow> goerr + string" where
  "fileCCachePath name =
     (if \<not> has_prefix name ''FILE:'' then Inl (Wrapped name (ErrMsg ''pxgo requires a FILE cache''))
      else let path = trim_space (drop 5 name) in
        if path = [] then Inl (ErrMsg ''kerberos credential cache path is empty'') else Inr path)"

text \<open>The wait for the first cache: one round per tick, with the existence of the file, the state of the refresh
  and whether the deadline has passed. No result means that it still waits.\<close>

fun wait_rounds :: "(bool \<times> bool \<times> bool) list \<Rightarrow> goerr option option" where
  "wait_rounds [] = None"
| "wait_rounds ((exists, refreshing, late) # rs) =
     (if exists then Some None
      else if \<not> refreshing then Some (Some (ErrMsg ''was not created by refresh''))
      else if late then Some (Some (ErrMsg ''timed out waiting for kerberos credential cache''))
      else wait_rounds rs)"

definition waitForInitialCCache :: "bool \<Rightarrow> bool \<Rightarrow> (bool \<times> bool \<times> bool) list \<Rightarrow> goerr option option" where
  "waitForInitialCCache exists refreshing rounds =
     (if exists then Some None
      else if \<not> refreshing then Some (Some (ErrMsg ''kerberos credential cache is not ready''))
      else wait_rounds rounds)"

fun first_file :: "(string \<Rightarrow> bool) \<Rightarrow> string list \<Rightarrow> string option" where
  "first_file isFile [] = None"
| "first_file isFile (p # ps) = (if p \<noteq> [] \<and> isFile p then Some p else first_file isFile ps)"

text \<open>\<open>split\<close> is \<^verbatim>\<open>filepath.SplitList\<close>.\<close>

definition resolveKRB5Config :: "(string \<Rightarrow> string list) \<Rightarrow> (string \<Rightarrow> bool) \<Rightarrow> string \<Rightarrow> goerr + string" where
  "resolveKRB5Config split isFile env =
     (let raw = trim_space env in
      if raw \<noteq> [] then
        (case first_file isFile (map trim_space (split raw)) of
           Some p \<Rightarrow> Inr p
         | None \<Rightarrow> Inl (Wrapped raw (ErrMsg ''KRB5_CONFIG does not contain a readable config file'')))
      else case first_file isFile [''/etc/krb5.conf'', ''/Library/Preferences/edu.mit.Kerberos''] of
        Some p \<Rightarrow> Inr p
      | None \<Rightarrow> Inl (ErrMsg ''kerberos config not found; set KRB5_CONFIG''))"

text \<open>\<open>lib ccache config spn\<close> stands for the calls into gokrb5: loading both files, the client, its credential and the
  marshalled token. No result means that the wait is not over.\<close>

definition SPNEGOToken ::
  "(string \<Rightarrow> string \<Rightarrow> string \<Rightarrow> goerr + string) \<Rightarrow> (goerr + string) \<Rightarrow> bool \<Rightarrow> (bool \<times> bool \<times> bool) list \<Rightarrow> Manager \<Rightarrow> string \<Rightarrow> (goerr + string) option" where
  "SPNEGOToken lib config exists rounds m proxyHost =
     (let host = normalizeProxyHost proxyHost in
      if host = [] then Some (Inl (ErrMsg ''kerberos proxy host is empty''))
      else case fileCCachePath (km_CCacheName m) of
        Inl e \<Rightarrow> Some (Inl e)
      | Inr ccachePath \<Rightarrow>
          (case waitForInitialCCache exists (km_refreshing m) rounds of
             None \<Rightarrow> None
           | Some (Some e) \<Rightarrow> Some (Inl e)
           | Some None \<Rightarrow>
               (case config of
                  Inl e \<Rightarrow> Some (Inl e)
                | Inr configPath \<Rightarrow>
                    (case lib ccachePath configPath (''HTTP/'' @ host) of
                       Inl e \<Rightarrow> Some (Inl e)
                     | Inr raw \<Rightarrow>
                         if raw = [] then Some (Inl (ErrMsg ''kerberos SPNEGO produced an empty token'')) else Some (Inr raw)))))"

section \<open>Invariant\<close>

text \<open>A refresh is somewhere exactly while the flag says so, and the cache file of a closed manager is there at
  most while a refresh or a cleanup that will remove it is under way, or if the last removal failed.\<close>

definition kerberos_ok :: "Manager \<Rightarrow> bool" where
  "kerberos_ok m \<longleftrightarrow> has_prefix (km_CCacheName m) ''FILE:'' \<and> (km_refreshing m \<longleftrightarrow> km_pc m \<noteq> Resting)
     \<and> (km_closed m \<and> km_file m \<longrightarrow> km_refreshing m \<or> 0 < km_removing m \<or> km_removeFailed m)"

lemmas kerberos_defs = Check_def refresh_def refresh_begin_def KinitRenew_def KinitWithPassword_def UpdateExpiry_def commitExpiry_def
  refresh_end_def removeCCache_def setBackoff_def setNextCheck_def consumeBackoff_def Cleanup_close_def Cleanup_remove_def Let_def

lemma refresh_ok:
  assumes "kerberos_ok m"
  shows "kerberos_ok (refresh ri m)"
proof (cases "km_pc m")
  case Resting
  with assms show ?thesis by (simp add: refresh_def)
next
  case AtEnd
  with assms show ?thesis by (auto simp: kerberos_ok_def kerberos_defs)
qed (use assms in \<open>auto simp: kerberos_ok_def kerberos_defs split: option.split sum.split prod.split\<close>)

lemma kerberos_step_ok: "kerberos_ok m \<Longrightarrow> kerberos_ok (kerberos_step m ev)"
proof (cases ev)
  case (KRefresh ri)
  then show "kerberos_ok m \<Longrightarrow> ?thesis" by (simp add: refresh_ok)
qed (auto simp: kerberos_ok_def Check_def Cleanup_close_def Cleanup_remove_def removeCCache_def)

interpretation kerberos_machine: machine kerberos_step kerberos_ok
  by unfold_locales (rule kerberos_step_ok)

fun removal_succeeds :: "kerberos_event \<Rightarrow> bool" where
  "removal_succeeds (KRefresh ri) \<longleftrightarrow> ri_removed ri"
| "removal_succeeds (KRemove removed) \<longleftrightarrow> removed"
| "removal_succeeds _ \<longleftrightarrow> True"

lemma refresh_removal: "\<not> km_removeFailed m \<Longrightarrow> ri_removed ri \<Longrightarrow> \<not> km_removeFailed (refresh ri m)"
  by (cases "km_pc m") (auto simp: kerberos_defs split: option.split sum.split prod.split)

lemma removals_succeed: "list_all removal_succeeds evs \<Longrightarrow> \<not> km_removeFailed m \<Longrightarrow> \<not> km_removeFailed (foldl kerberos_step m evs)"
proof (induction evs arbitrary: m)
  case (Cons ev evs)
  then have "\<not> km_removeFailed (kerberos_step m ev)"
    by (cases ev) (auto simp: refresh_removal Check_def Cleanup_close_def Cleanup_remove_def removeCCache_def)
  with Cons show ?case by simp
qed simp

lemma manager_new_ok: "kerberos_ok (Manager_New path heimdal exists)"
  by (simp add: kerberos_ok_def Manager_New_def has_prefix_def)

text \<open>A token is never empty and comes from the manager's own cache file, which was there before it was read.\<close>

lemma token_from_own_cache:
  assumes "SPNEGOToken lib config exists rounds m proxyHost = Some (Inr raw)"
  shows "raw \<noteq> [] \<and> (exists \<or> (\<exists>r \<in> set rounds. fst r))
    \<and> (\<exists>path conf. fileCCachePath (km_CCacheName m) = Inr path \<and> config = Inr conf
         \<and> lib path conf (''HTTP/'' @ normalizeProxyHost proxyHost) = Inr raw)"
proof -
  have "\<exists>r \<in> set rs. fst r" if "wait_rounds rs = Some None" for rs
    using that by (induction rs rule: wait_rounds.induct) (auto split: if_splits)
  with assms show ?thesis
    by (auto simp: SPNEGOToken_def waitForInitialCCache_def Let_def split: if_splits sum.splits option.splits)
qed

section \<open>Spacing of password attempts\<close>

text \<open>Runs with a clock: every event happens at a time, and times do not go back. \<open>kr_failed\<close> is the time of the
  last attempt with the password if it failed, and \<open>kr_tries\<close> are all attempts with the failure before them.\<close>

record kerberosRun =
  kr_m :: Manager
  kr_clock :: gotime
  kr_failed :: "gotime option"
  kr_tries :: "(gotime option \<times> gotime) list"

definition attempts_password :: "Manager \<Rightarrow> refreshIn \<Rightarrow> bool" where
  "attempts_password m ri \<longleftrightarrow> (case km_pc m of AtKinit _ \<Rightarrow> ri_password ri \<noteq> None | _ \<Rightarrow> False)"

fun event_time :: "kerberos_event \<Rightarrow> gotime option" where
  "event_time (KCheck now force) = Some now"
| "event_time (KRefresh ri) = Some (ri_now ri)"
| "event_time _ = None"

text \<open>An unforced event that is in time; others are left out of the run.\<close>

definition timely :: "kerberosRun \<Rightarrow> kerberos_event \<Rightarrow> bool" where
  "timely r ev \<longleftrightarrow> (case event_time ev of None \<Rightarrow> True | Some t \<Rightarrow> kr_clock r \<le> t) \<and> (case ev of KCheck now force \<Rightarrow> \<not> force | _ \<Rightarrow> True)"

definition run_step :: "kerberosRun \<Rightarrow> kerberos_event \<Rightarrow> kerberosRun" where
  "run_step r ev =
     (if \<not> timely r ev then r
      else
        let r' = r\<lparr>kr_m := kerberos_step (kr_m r) ev, kr_clock := (case event_time ev of None \<Rightarrow> kr_clock r | Some t \<Rightarrow> t)\<rparr> in
        case ev of
          KRefresh ri \<Rightarrow>
            if attempts_password (kr_m r) ri
            then r'\<lparr>kr_failed := (if kinit_backoff (ri_cmd ri) = None then None else Some (ri_now ri)), kr_tries := (kr_failed r, ri_now ri) # kr_tries r\<rparr>
            else r'
        | _ \<Rightarrow> r')"

text \<open>After a failure at time \<open>t\<close> the next attempt is held back: by the pending backoff, by the next check, or
  because the time is over.\<close>

fun begun_at :: "refreshPC \<Rightarrow> gotime option" where
  "begun_at (AtRenew force now expiry) = Some now"
| "begun_at (AtBackoff force now) = Some now"
| "begun_at _ = None"

fun unforced :: "refreshPC \<Rightarrow> bool" where
  "unforced (AtBegin force) \<longleftrightarrow> \<not> force"
| "unforced (AtRenew force now expiry) \<longleftrightarrow> \<not> force"
| "unforced (AtBackoff force now) \<longleftrightarrow> \<not> force"
| "unforced (AtKinit force) \<longleftrightarrow> \<not> force"
| "unforced _ \<longleftrightarrow> True"

definition held_back :: "kerberosRun \<Rightarrow> gotime \<Rightarrow> bool" where
  "held_back r t \<longleftrightarrow>
     t \<le> kr_clock r
     \<and> (t + RetryInterval \<le> kr_clock r
        \<or> (RetryInterval \<le> km_Backoff (kr_m r) \<and> \<not> (\<exists>f. km_pc (kr_m r) = AtKinit f)
           \<and> (case begun_at (km_pc (kr_m r)) of None \<Rightarrow> True | Some now \<Rightarrow> t \<le> now))
        \<or> (t + RetryInterval \<le> km_NextCheck (kr_m r) \<and> km_NextCheck (kr_m r) \<noteq> 0 \<and> km_pc (kr_m r) \<in> {Resting, AtEnd}))"

definition spaced :: "kerberosRun \<Rightarrow> bool" where
  "spaced r \<longleftrightarrow> unforced (km_pc (kr_m r)) \<and> 0 \<le> kr_clock r
     \<and> (case kr_failed r of None \<Rightarrow> True | Some t \<Rightarrow> 0 \<le> t \<and> held_back r t)
     \<and> (\<forall>(before, t) \<in> set (kr_tries r). case before of None \<Rightarrow> True | Some b \<Rightarrow> b + RetryInterval \<le> t)"

lemma kinit_backoff_least: "kinit_backoff r = Some b \<Longrightarrow> RetryInterval \<le> b"
  by (auto simp: kinit_backoff_def RetryInterval_def CheckInterval_def duration_defs split: sum.splits if_splits)

lemma retry_positive: "0 < RetryInterval"
  by (simp add: RetryInterval_def duration_defs)

definition hold :: "Manager \<Rightarrow> gotime \<Rightarrow> gotime \<Rightarrow> bool" where
  "hold m clock t \<longleftrightarrow> held_back \<lparr>kr_m = m, kr_clock = clock, kr_failed = None, kr_tries = []\<rparr> t"

lemma held_back_hold: "held_back r t \<longleftrightarrow> hold (kr_m r) (kr_clock r) t"
  by (simp add: hold_def held_back_def)

lemma hold_refresh:
  assumes "hold m clock t" "clock \<le> ri_now ri" "unforced (km_pc m)" "0 \<le> t" "\<not> attempts_password m ri"
  shows "hold (refresh ri m) (ri_now ri) t \<and> unforced (km_pc (refresh ri m))"
  using assms retry_positive
  by (cases "km_pc m")
     (auto simp: hold_def held_back_def kerberos_defs attempts_password_def split: option.splits sum.splits refreshPC.splits)

lemma hold_check:
  assumes "hold m clock t" "clock \<le> now"
  shows "hold (Check now False m) now t"
  using assms by (auto simp: hold_def held_back_def Check_def is_zero_def before_def split: option.splits)

lemma unforced_refresh: "unforced (km_pc m) \<Longrightarrow> unforced (km_pc (refresh ri m))"
  by (cases "km_pc m") (auto simp: kerberos_defs split: option.splits sum.splits)

lemma attempt_fails:
  assumes "attempts_password m ri" "kinit_backoff (ri_cmd ri) = Some b"
  shows "hold (refresh ri m) (ri_now ri) (ri_now ri)"
  using assms kinit_backoff_least [OF assms(2)] by (auto simp: attempts_password_def kerberos_defs hold_def held_back_def split: refreshPC.splits)

lemma attempt_in_time:
  assumes "attempts_password m ri" "hold m clock t" "clock \<le> ri_now ri"
  shows "t + RetryInterval \<le> ri_now ri"
  using assms by (auto simp: attempts_password_def hold_def held_back_def split: refreshPC.splits)

text \<open>A cleanup changes nothing that the spacing rests on.\<close>

lemma cleanup_pacing:
  "km_pc (Cleanup_close m) = km_pc m" "km_pc (Cleanup_remove removed m) = km_pc m"
  "hold (Cleanup_close m) clock t = hold m clock t" "hold (Cleanup_remove removed m) clock t = hold m clock t"
  by (simp_all add: Cleanup_close_def Cleanup_remove_def removeCCache_def hold_def held_back_def)

lemma spaced_step:
  assumes "spaced r"
  shows "spaced (run_step r ev)"
proof (cases "timely r ev")
  case True
  show ?thesis
  proof (cases ev)
    case (KCheck now force)
    with True have "\<not> force" "kr_clock r \<le> now" by (auto simp: timely_def)
    moreover have "unforced (km_pc (Check now False m))" if "unforced (km_pc m)" for m using that by (simp add: Check_def)
    ultimately show ?thesis
      using assms KCheck True hold_check [of "kr_m r" "kr_clock r" _ now]
      by (auto simp: spaced_def run_step_def held_back_hold split: option.splits)
  next
    case (KRefresh ri)
    with True have t: "kr_clock r \<le> ri_now ri" by (simp add: timely_def)
    have u: "unforced (km_pc (refresh ri (kr_m r)))" "0 \<le> ri_now ri" using assms t unforced_refresh by (auto simp: spaced_def)
    show ?thesis
    proof (cases "attempts_password (kr_m r) ri")
      case a: True
      have "case kr_failed r of None \<Rightarrow> True | Some b \<Rightarrow> b + RetryInterval \<le> ri_now ri"
        using assms attempt_in_time [OF a _ t] by (auto simp: spaced_def held_back_hold split: option.splits)
      with assms KRefresh True a u attempt_fails [OF a] show ?thesis
        by (auto simp: spaced_def run_step_def held_back_hold Let_def split: option.splits)
    next
      case a: False
      with assms KRefresh True u hold_refresh [OF _ t _ _ a] show ?thesis
        by (auto simp: spaced_def run_step_def held_back_hold Let_def split: option.splits)
    qed
  next
    case KClose
    with assms True show ?thesis
      by (cases "kr_failed r") (simp_all add: spaced_def run_step_def held_back_hold cleanup_pacing Let_def)
  next
    case (KRemove removed)
    with assms True show ?thesis
      by (cases "kr_failed r") (simp_all add: spaced_def run_step_def held_back_hold cleanup_pacing Let_def)
  qed
qed (use assms in \<open>simp add: run_step_def\<close>)

interpretation kerberos_spacing: machine run_step spaced
  by unfold_locales (rule spaced_step)

section \<open>Properties\<close>

text \<open>C19: No ticket outlives the manager, unless the file system refuses to remove it. Under every interleaving of checks,
  the sections of refreshes and cleanups, once the manager is closed and neither a refresh nor a cleanup is under way,
  the credential cache file is gone, also when a refresh wrote it after the cleanup had removed it; the only exception is
  that the last \<^verbatim>\<open>os.Remove\<close>, whose error is ignored, failed, which it did not if all removals of the run succeed. A
  closed manager starts no refresh.\<close>

theorem ticket_removed_after_cleanup:
  fixes path :: string and heimdal exists :: bool and evs :: "kerberos_event list"
  defines "m \<equiv> foldl kerberos_step (Manager_New path heimdal exists) evs"
  shows "(km_closed m \<and> \<not> km_refreshing m \<and> km_removing m = 0 \<longrightarrow> \<not> km_file m \<or> km_removeFailed m)
    \<and> (list_all removal_succeeds evs \<longrightarrow> \<not> km_removeFailed m)
    \<and> (km_closed m \<longrightarrow> kerberos_step m (KCheck now force) = m)"
proof -
  have "kerberos_ok m" unfolding m_def by (rule kerberos_machine.run_inv [OF manager_new_ok])
  moreover have "\<not> km_removeFailed m" if "list_all removal_succeeds evs"
    unfolding m_def by (rule removals_succeed [OF that]) (simp add: Manager_New_def)
  ultimately show ?thesis by (auto simp: kerberos_ok_def Check_def)
qed

theorem ticket_removed_after_cleanup_witness:
  defines "ri \<equiv> \<lparr>ri_now = 5, ri_password = Some ''p'', ri_cmd = Inr \<lparr>cr_Stdout = [], cr_Stderr = [], cr_ExitCode = 0\<rparr>, ri_plain = Inl \<lparr>rf_err = ErrClosed, rf_notFound = False\<rparr>,
    ri_file = True, ri_expiry = (\<lambda>_. None), ri_removed = True\<rparr>"
  defines "evs \<equiv> [KCheck 1 False, KRefresh ri, KRefresh ri, KRefresh ri, KClose, KRemove True, KRefresh ri, KRefresh ri, KRefresh ri]"
  defines "m \<equiv> foldl kerberos_step (Manager_New ''x'' False False) evs"
  shows "km_closed m \<and> \<not> km_refreshing m \<and> \<not> km_file m"
proof -
  have "km_closed m" "\<not> km_refreshing m" "km_removing m = 0"
    by (simp_all add: m_def evs_def ri_def Manager_New_def kerberos_defs kinit_backoff_def RunKlist_def is_zero_def)
  moreover have "list_all removal_succeeds evs" by (simp add: evs_def ri_def)
  ultimately show ?thesis using ticket_removed_after_cleanup [of "''x''" False False evs] unfolding m_def by blast
qed

text \<open>C40: Wrong passwords are not tried in a row. In every run with a clock that does not go back and without forced
  checks, an attempt to get a ticket with the password comes at least one minute after an attempt that failed,
  whatever renewals, checks and cleanups happen between the two.\<close>

theorem failed_password_spacing:
  fixes path :: string and heimdal exists :: bool and evs :: "kerberos_event list" and start :: gotime
  assumes "0 \<le> start"
  defines "r \<equiv> foldl run_step \<lparr>kr_m = Manager_New path heimdal exists, kr_clock = start, kr_failed = None, kr_tries = []\<rparr> evs"
  shows "(Some b, t) \<in> set (kr_tries r) \<Longrightarrow> b + RetryInterval \<le> t"
proof -
  have "spaced r" unfolding r_def
    by (rule kerberos_spacing.run_inv) (use assms(1) in \<open>simp add: spaced_def Manager_New_def\<close>)
  then show "(Some b, t) \<in> set (kr_tries r) \<Longrightarrow> b + RetryInterval \<le> t" by (auto simp: spaced_def)
qed

theorem failed_password_spacing_witness:
  defines "ri \<equiv> \<lambda>now. \<lparr>ri_now = now, ri_password = Some ''p'', ri_cmd = Inr \<lparr>cr_Stdout = [], cr_Stderr = ''busy'', cr_ExitCode = 1\<rparr>,
    ri_plain = Inl \<lparr>rf_err = ErrClosed, rf_notFound = False\<rparr>, ri_file = False, ri_expiry = (\<lambda>_. None), ri_removed = True\<rparr>"
  defines "evs \<equiv> [KCheck 1 False, KRefresh (ri (5 * second)), KRefresh (ri (5 * second)), KRefresh (ri (5 * second)), KRefresh (ri (5 * second)),
    KRefresh (ri (5 * second)), KCheck (6 * second) False, KRefresh (ri (6 * second)), KRefresh (ri (6 * second)), KRefresh (ri (6 * second)),
    KRefresh (ri (6 * second)), KCheck (60 * second) False, KCheck (66 * second) False, KRefresh (ri (70 * second)), KRefresh (ri (70 * second)),
    KRefresh (ri (70 * second)), KRefresh (ri (70 * second))]"
  shows "kr_tries (foldl run_step \<lparr>kr_m = Manager_New ''x'' False False, kr_clock = 0, kr_failed = None, kr_tries = []\<rparr> evs)
      = [(Some (5 * second), 70 * second), (None, 5 * second)]
    \<and> 5 * second + RetryInterval \<le> 70 * second"
proof -
  have "kr_tries (foldl run_step \<lparr>kr_m = Manager_New ''x'' False False, kr_clock = 0, kr_failed = None, kr_tries = []\<rparr> evs)
      = [(Some (5 * second), 70 * second), (None, 5 * second)]"
    unfolding evs_def ri_def by code_simp
  with failed_password_spacing [of 0 "5 * second" "70 * second" "''x''" False False evs] show ?thesis by simp
qed

end
