(* ===== verification/Update_Version.thy ===== *)
theory Update_Version
  imports Go_Encoding
begin

text \<open>
  Versions and releases of the self update, \<^verbatim>\<open>internal/update/update.go\<close>: semantic versions and their order, the
  choice of a release, checksums and digests.

  The answers of the release service and \<^verbatim>\<open>url.Parse\<close> are arguments, and so is SHA-256 as a function on bytes. A
  reader is the bytes that it gives and the error at their end.
\<close>

section \<open>Versions\<close>

definition isNumeric :: "string \<Rightarrow> bool" where "isNumeric value \<longleftrightarrow> value \<noteq> [] \<and> list_all is_digit value"

definition semver_char :: "char \<Rightarrow> bool" where
  "semver_char c \<longleftrightarrow> (let n = of_char c :: nat in (97 \<le> n \<and> n \<le> 122) \<or> (65 \<le> n \<and> n \<le> 90) \<or> (48 \<le> n \<and> n \<le> 57) \<or> c = CHR ''-'')"

definition validSemverIdentifier :: "string \<Rightarrow> bool" where "validSemverIdentifier value = list_all semver_char value"

text \<open>The bodies of the two loops over the parts.\<close>

definition core_part_ok :: "string \<Rightarrow> bool" where
  "core_part_ok p \<longleftrightarrow> p \<noteq> [] \<and> \<not> (length p > 1 \<and> hd p = CHR ''0'') \<and> parse_uint64 p \<noteq> None"

definition identifier_ok :: "string \<Rightarrow> bool" where
  "identifier_ok i \<longleftrightarrow> i \<noteq> [] \<and> validSemverIdentifier i \<and> \<not> (isNumeric i \<and> length i > 1 \<and> hd i = CHR ''0'')"

definition expected_version :: "string \<Rightarrow> goerr" where
  "expected_version value = Wrapped value (ErrMsg ''expected semantic version'')"

definition normalizeVersion :: "string \<Rightarrow> goerr + string" where
  "normalizeVersion value =
     (let v = trim_prefix (trim_space value) ''v'' in
      if v = [] then Inl (expected_version value)
      else
        let withoutBuild = takeWhile (\<lambda>c. c \<noteq> CHR ''+'') v; (core, prerelease, found) = cut_char (CHR ''-'') withoutBuild;
            parts = split_on (CHR ''.'') core in
        if length parts \<noteq> 3 then Inl (expected_version value)
        else if \<not> list_all core_part_ok parts then Inl (expected_version value)
        else if CHR ''-'' \<in> set withoutBuild \<and> (prerelease = [] \<or> \<not> list_all identifier_ok (split_on (CHR ''.'') prerelease))
        then Inl (expected_version value)
        else Inr withoutBuild)"

record semanticVersion =
  sv_core :: "u64 list"
  sv_prerelease :: "string list"

text \<open>The value of \<^verbatim>\<open>strconv.ParseUint\<close> when its error is ignored: the largest number on overflow, zero on a syntax
  error.\<close>

definition ParseUint_value :: "string \<Rightarrow> u64" where
  "ParseUint_value s = (case parse_uint64 s of Some n \<Rightarrow> n | None \<Rightarrow> if s \<noteq> [] \<and> list_all is_digit s then 2 ^ 64 - 1 else 0)"

definition parseSemanticVersion :: "string \<Rightarrow> goerr + semanticVersion" where
  "parseSemanticVersion value =
     (case normalizeVersion value of
        Inl e \<Rightarrow> Inl e
      | Inr normalized \<Rightarrow>
          (let (core, prerelease, hasPrerelease) = cut_char (CHR ''-'') normalized; parts = split_on (CHR ''.'') core in
           Inr \<lparr>sv_core = map ParseUint_value (take 3 parts),
                sv_prerelease = (if hasPrerelease then split_on (CHR ''.'') prerelease else [])\<rparr>))"

fun compare_core :: "u64 list \<Rightarrow> u64 list \<Rightarrow> int" where
  "compare_core (a # as) (b # bs) = (if a < b then - 1 else if a > b then 1 else compare_core as bs)"
| "compare_core _ _ = 0"

text \<open>Go compares strings bytewise.\<close>

fun string_less :: "string \<Rightarrow> string \<Rightarrow> bool" where
  "string_less _ [] = False"
| "string_less [] (b # bs) = True"
| "string_less (a # as) (b # bs) = ((of_char a :: nat) < of_char b \<or> a = b \<and> string_less as bs)"

definition compare_identifier :: "string \<Rightarrow> string \<Rightarrow> int" where
  "compare_identifier a b =
     (if isNumeric a \<and> isNumeric b then (if ParseUint_value a < ParseUint_value b then - 1 else 1)
      else if isNumeric a then - 1
      else if isNumeric b then 1
      else if string_less a b then - 1 else 1)"

text \<open>The loop over the common length with the comparison of the lengths after it.\<close>

fun compare_prerelease :: "string list \<Rightarrow> string list \<Rightarrow> int" where
  "compare_prerelease (a # as) (b # bs) = (if a = b then compare_prerelease as bs else compare_identifier a b)"
| "compare_prerelease [] (b # bs) = - 1"
| "compare_prerelease (a # as) [] = 1"
| "compare_prerelease [] [] = 0"

definition CompareVersions :: "string \<Rightarrow> string \<Rightarrow> int" where
  "CompareVersions a b =
     (case (parseSemanticVersion a, parseSemanticVersion b) of
        (Inr av, Inr bv) \<Rightarrow>
          (let c = compare_core (sv_core av) (sv_core bv) in
           if c \<noteq> 0 then c
           else if sv_prerelease av = [] \<and> sv_prerelease bv = [] then 0
           else if sv_prerelease av = [] then 1
           else if sv_prerelease bv = [] then - 1
           else compare_prerelease (sv_prerelease av) (sv_prerelease bv))
      | _ \<Rightarrow> 0)"

section \<open>Releases\<close>

definition DefaultRepository :: string where "DefaultRepository = ''khanhkit/pxgo''"
definition defaultAPIBase :: string where "defaultAPIBase = ''https://api.github.com''"
definition productName :: string where "productName = ''pxgo''"
definition windowsExecutableName :: string where "windowsExecutableName = ''pxgo.exe''"
definition goosWindows :: string where "goosWindows = ''windows''"
definition Stable :: string where "Stable = ''stable''"
definition Prerelease :: string where "Prerelease = ''prerelease''"

record Asset =
  as_Name :: string
  as_URL :: string
  as_Digest :: string

record Release =
  rl_Version :: string
  rl_Tag :: string
  rl_Prerelease :: bool
  rl_Assets :: "Asset list"

record CheckResult =
  ck_Current :: string
  ck_Latest :: string
  ck_Available :: bool
  ck_Release :: Release

record Checker =
  ch_APIBase :: string
  ch_Repository :: string
  ch_Channel :: string

record githubRelease =
  gr_TagName :: string
  gr_Draft :: bool
  gr_Prerelease :: bool
  gr_Assets :: "Asset list"

text \<open>The two calls of \<^verbatim>\<open>getJSON\<close> at an endpoint, for one release and for a list.\<close>

record releaseAPI =
  api_one :: "string \<Rightarrow> goerr + githubRelease"
  api_all :: "string \<Rightarrow> goerr + githubRelease list"

definition validRepository :: "string \<Rightarrow> bool" where
  "validRepository repo \<longleftrightarrow>
     (case split_on (CHR ''/'') repo of [a, b] \<Rightarrow> a \<noteq> [] \<and> b \<noteq> [] \<and> \<not> contains_any repo [CHR ''?'', CHR ''#'', CHR 0x5C] | _ \<Rightarrow> False)"

fun best_release :: "githubRelease list \<Rightarrow> (githubRelease \<times> string) option \<Rightarrow> (githubRelease \<times> string) option" where
  "best_release [] best = best"
| "best_release (r # rs) best =
     (if gr_Draft r then best_release rs best
      else case normalizeVersion (gr_TagName r) of
        Inl _ \<Rightarrow> best_release rs best
      | Inr v \<Rightarrow>
          (case best of
             None \<Rightarrow> best_release rs (Some (r, v))
           | Some (_, bestVersion) \<Rightarrow> best_release rs (if CompareVersions v bestVersion > 0 then Some (r, v) else best)))"

definition choose_release :: "releaseAPI \<Rightarrow> string \<Rightarrow> string \<Rightarrow> goerr + githubRelease" where
  "choose_release api channel endpoint =
     (if channel = Stable then
        (case api_one api (endpoint @ ''/latest'') of
           Inl e \<Rightarrow> Inl e
         | Inr rel \<Rightarrow>
             if gr_Draft rel \<or> gr_Prerelease rel then Inl (ErrMsg ''latest stable endpoint returned non-stable release'') else Inr rel)
      else
        (case api_all api endpoint of
           Inl e \<Rightarrow> Inl e
         | Inr releases \<Rightarrow>
             (case best_release releases None of None \<Rightarrow> Inl (ErrMsg ''no accepted release found'') | Some (rel, _) \<Rightarrow> Inr rel)))"

definition Checker_Check :: "releaseAPI \<Rightarrow> Checker \<Rightarrow> string \<Rightarrow> goerr + CheckResult" where
  "Checker_Check api c current =
     (let base = trim_right_by (\<lambda>x. x = CHR ''/'') (ch_APIBase c); base = (if base = [] then defaultAPIBase else base);
          repo = (if ch_Repository c = [] then DefaultRepository else ch_Repository c);
          channel = (if ch_Channel c = [] then Stable else ch_Channel c) in
      if \<not> validRepository repo then Inl (ErrMsg ''invalid release repository'')
      else if channel \<noteq> Stable \<and> channel \<noteq> Prerelease then Inl (Wrapped channel (ErrMsg ''unsupported update channel''))
      else case choose_release api channel (base @ ''/repos/'' @ repo @ ''/releases'') of
        Inl e \<Rightarrow> Inl e
      | Inr rel \<Rightarrow>
          (case normalizeVersion (gr_TagName rel) of
             Inl e \<Rightarrow> Inl (Wrapped ''invalid release tag'' e)
           | Inr latest \<Rightarrow>
               (case normalizeVersion current of
                  Inl e \<Rightarrow> Inl (Wrapped ''invalid current version'' e)
                | Inr currentVersion \<Rightarrow>
                    Inr \<lparr>ck_Current = currentVersion, ck_Latest = latest, ck_Available = CompareVersions latest currentVersion > 0,
                         ck_Release = \<lparr>rl_Version = latest, rl_Tag = gr_TagName rel, rl_Prerelease = gr_Prerelease rel, rl_Assets = gr_Assets rel\<rparr>\<rparr>)))"

section \<open>Assets and digests\<close>

definition AssetName :: "string \<Rightarrow> string \<Rightarrow> string" where
  "AssetName goos goarch = ''pxgo_'' @ goos @ ''_'' @ goarch @ ''.'' @ (if goos = goosWindows then ''zip'' else ''tar.gz'')"

text \<open>\<^verbatim>\<open>hex.DecodeString\<close> succeeds on an even number of hexadecimal digits.\<close>

definition hex_ok :: "string \<Rightarrow> bool" where
  "hex_ok s \<longleftrightarrow> even (length s) \<and> list_all (\<lambda>c. is_digit c \<or> lower_char c \<in> set ''abcdef'') s"

definition VerifySHA256 :: "(byte list \<Rightarrow> byte list) \<Rightarrow> byte list \<Rightarrow> goerr option \<Rightarrow> string \<Rightarrow> goerr option" where
  "VerifySHA256 sha256 content readErr digest =
     (if \<not> has_prefix (to_lower digest) ''sha256:'' then Some (ErrMsg ''candidate digest must be sha256'')
      else
        let want = trim_space (drop 7 digest) in
        if length want \<noteq> 64 then Some (ErrMsg ''candidate sha256 digest has invalid length'')
        else if \<not> hex_ok want then Some (ErrMsg ''candidate sha256 digest is malformed'')
        else case readErr of
          Some e \<Rightarrow> Some (Wrapped ''hash candidate'' e)
        | None \<Rightarrow> if \<not> equal_fold (hex_encode (sha256 content)) want then Some (ErrMsg ''candidate sha256 digest mismatch'') else None)"

fun checksum_loop :: "string list \<Rightarrow> string \<Rightarrow> string \<Rightarrow> goerr + string" where
  "checksum_loop [] assetName match = Inr match"
| "checksum_loop (line # lines) assetName match =
     (case str_fields line of
        [digest, name] \<Rightarrow>
          if trim_prefix name ''*'' \<noteq> assetName then checksum_loop lines assetName match
          else if match \<noteq> [] then Inl (ErrMsg ''duplicate checksum entry for asset'')
          else if length digest \<noteq> 64 then Inl (ErrMsg ''asset checksum has invalid length'')
          else if \<not> hex_ok digest then Inl (ErrMsg ''asset checksum is malformed'')
          else checksum_loop lines assetName (to_lower digest)
      | _ \<Rightarrow> checksum_loop lines assetName match)"

text \<open>\<open>lines\<close> are the lines that the scanner gives and \<open>scanErr\<close> its error.\<close>

definition ChecksumForAsset :: "string list \<Rightarrow> goerr option \<Rightarrow> string \<Rightarrow> goerr + string" where
  "ChecksumForAsset lines scanErr assetName =
     (if trim_space assetName = [] \<or> contains_any assetName [CHR ''/'', CHR 0x5C] then Inl (ErrMsg ''invalid asset name'')
      else case checksum_loop lines assetName [] of
        Inl e \<Rightarrow> Inl e
      | Inr match \<Rightarrow>
          (case scanErr of
             Some e \<Rightarrow> Inl (Wrapped ''read checksums'' e)
           | None \<Rightarrow> if match = [] then Inl (ErrMsg ''asset checksum not found'') else Inr match))"

section \<open>Precedence of versions\<close>

text \<open>The specification: precedence as semantic versioning defines it, with identifiers of any size.\<close>

definition byte_order :: "(char \<times> char) set" where "byte_order = {(a, b). (of_char a :: nat) < of_char b}"

datatype semverIdentifier = Number nat | Alphanumeric string

definition identifier_of :: "string \<Rightarrow> semverIdentifier" where
  "identifier_of i = (if isNumeric i then Number (digits_val i) else Alphanumeric i)"

fun identifier_less :: "semverIdentifier \<Rightarrow> semverIdentifier \<Rightarrow> bool" where
  "identifier_less (Number m) (Number n) \<longleftrightarrow> m < n"
| "identifier_less (Number _) (Alphanumeric _) \<longleftrightarrow> True"
| "identifier_less (Alphanumeric _) (Number _) \<longleftrightarrow> False"
| "identifier_less (Alphanumeric s) (Alphanumeric t) \<longleftrightarrow> (s, t) \<in> lexord byte_order"

abbreviation identifier_order :: "(semverIdentifier \<times> semverIdentifier) set" where "identifier_order \<equiv> {(x, y). identifier_less x y}"

abbreviation identifiers :: "semanticVersion \<Rightarrow> semverIdentifier list" where "identifiers v \<equiv> map identifier_of (sv_prerelease v)"

definition precedes :: "semanticVersion \<Rightarrow> semanticVersion \<Rightarrow> bool" where
  "precedes a b \<longleftrightarrow>
     (sv_core a, sv_core b) \<in> lexord {(x, y). x < y}
     \<or> sv_core a = sv_core b \<and> sv_prerelease a \<noteq> []
       \<and> (sv_prerelease b = [] \<or> (identifiers a, identifiers b) \<in> lexord identifier_order)"

text \<open>Numeric identifiers that the comparison can read.\<close>

definition small_numbers :: "semanticVersion \<Rightarrow> bool" where
  "small_numbers v \<longleftrightarrow> (\<forall>i \<in> set (sv_prerelease v). isNumeric i \<longrightarrow> digits_val i < 2 ^ 64)"

lemma byte_order_strict: "trans byte_order" "irrefl byte_order" "(a, b) \<in> byte_order \<or> a = b \<or> (b, a) \<in> byte_order"
  by (auto simp: byte_order_def irrefl_def intro: transI)

lemma irrefl_lexord: "irrefl r \<Longrightarrow> (x, x) \<notin> lexord r"
  by (rule lexord_irreflexive) (simp add: irrefl_def)

lemma identifier_order_strict: "trans identifier_order" "irrefl identifier_order"
  "(x, y) \<in> identifier_order \<or> x = y \<or> (y, x) \<in> identifier_order"
proof -
  have t: "(r, t) \<in> lexord byte_order" if "(r, s) \<in> lexord byte_order" "(s, t) \<in> lexord byte_order" for r s t
    using lexord_trans [OF that byte_order_strict(1)] .
  show "trans identifier_order"
  proof (rule transI)
    fix x y z
    assume "(x, y) \<in> identifier_order" "(y, z) \<in> identifier_order"
    then show "(x, z) \<in> identifier_order" by (cases x; cases y; cases z; simp; blast intro: t)
  qed
  have "\<not> identifier_less x x" for x
    using irrefl_lexord [OF byte_order_strict(2)] by (cases x) auto
  then show "irrefl identifier_order" by (auto simp: irrefl_def)
  show "(x, y) \<in> identifier_order \<or> x = y \<or> (y, x) \<in> identifier_order"
    using lexord_linear [of byte_order] byte_order_strict(3) by (cases x; cases y) auto
qed

lemma core_order_strict: "trans {(x, y :: u64). x < y}" "irrefl {(x, y :: u64). x < y}"
  by (auto simp: irrefl_def intro: transI)

lemma precedes_irrefl: "\<not> precedes v v"
  using irrefl_lexord [OF core_order_strict(2)] irrefl_lexord [OF identifier_order_strict(2)] by (auto simp: precedes_def)

lemma precedes_trans: "precedes u v \<Longrightarrow> precedes v w \<Longrightarrow> precedes u w"
proof -
  have c: "(x, z) \<in> lexord {(x, y :: u64). x < y}" if "(x, y) \<in> lexord {(x, y). x < y}" "(y, z) \<in> lexord {(x, y). x < y}" for x y z
    using lexord_trans [OF that core_order_strict(1)] .
  have i: "(x, z) \<in> lexord identifier_order" if "(x, y) \<in> lexord identifier_order" "(y, z) \<in> lexord identifier_order" for x y z
    using lexord_trans [OF that identifier_order_strict(1)] .
  assume "precedes u v" "precedes v w"
  then show "precedes u w"
    unfolding precedes_def using c [of "sv_core u" "sv_core v" "sv_core w"] i [of "identifiers u" "identifiers v" "identifiers w"] by (elim disjE conjE) auto
qed

section \<open>The comparison implements precedence\<close>

lemma string_less_lexord: "string_less s t \<longleftrightarrow> (s, t) \<in> lexord byte_order"
  by (induction s t rule: string_less.induct) (auto simp: byte_order_def)

lemma digit_char_val: "is_digit c \<Longrightarrow> digit_char (digit_val c) = c \<and> digit_val c < 10"
  by (auto simp: digit_char_def digit_val_def is_digit_def Let_def)

lemma digits_val_one [simp]: "digits_val [c] = digit_val c"
  by (simp add: digits_val_def)

lemma digit_val_zero: "is_digit c \<Longrightarrow> digit_val c = 0 \<longleftrightarrow> c = CHR ''0''"
proof
  assume "is_digit c" "digit_val c = 0"
  with digit_char_val [of c] have "c = digit_char 0" by simp
  then show "c = CHR ''0''" by (simp add: digit_char_def char_of_def bit_0)
qed (simp add: digit_val_def)

lemma digits_val_pos:
  assumes "s \<noteq> []" "list_all is_digit s" "hd s \<noteq> CHR ''0''"
  shows "0 < digits_val s"
  using assms
proof (induction s rule: rev_induct)
  case (snoc c s)
  show ?case
  proof (cases "s = []")
    case True
    with snoc.prems have "is_digit c" "c \<noteq> CHR ''0''" by auto
    with True show ?thesis by (simp add: digit_val_zero neq0_conv [symmetric] del: neq0_conv)
  next
    case False
    with snoc show ?thesis by simp
  qed
qed simp

lemma show_digits_val:
  assumes "s \<noteq> []" "list_all is_digit s" "length s > 1 \<Longrightarrow> hd s \<noteq> CHR ''0''"
  shows "show_nat (digits_val s) = s"
  using assms
proof (induction s rule: rev_induct)
  case (snoc c s)
  then have c: "digit_char (digit_val c) = c" "digit_val c < 10" using digit_char_val [of c] by auto
  show ?case
  proof (cases "s = []")
    case True
    with c show ?thesis by (subst show_nat.simps) simp
  next
    case False
    with snoc.prems have h: "hd s \<noteq> CHR ''0''" by (cases s) auto
    with False snoc.prems have "0 < digits_val s" using digits_val_pos by simp
    moreover have "show_nat (digits_val s) = s" using snoc False h by simp
    ultimately show ?thesis using c by (subst show_nat.simps) simp
  qed
qed simp

lemma identifier_of_inj:
  assumes "identifier_ok a" "identifier_ok b" "identifier_of a = identifier_of b"
  shows "a = b"
proof (cases "isNumeric a")
  case True
  with assms have "isNumeric b" "digits_val a = digits_val b" by (auto simp: identifier_of_def split: if_splits)
  with True assms show ?thesis
    using show_digits_val [of a] show_digits_val [of b] by (auto simp: identifier_ok_def isNumeric_def)
next
  case False
  with assms show ?thesis by (auto simp: identifier_of_def split: if_splits)
qed

lemma ParseUint_small: "isNumeric a \<Longrightarrow> digits_val a < 2 ^ 64 \<Longrightarrow> ParseUint_value a = of_nat (digits_val a)"
  by (simp add: ParseUint_value_def parse_uint64_def isNumeric_def)

lemma compare_identifier_less:
  assumes "isNumeric a \<longrightarrow> digits_val a < 2 ^ 64" "isNumeric b \<longrightarrow> digits_val b < 2 ^ 64"
  shows "compare_identifier a b = (if identifier_less (identifier_of a) (identifier_of b) then - 1 else 1)"
  using assms by (simp add: compare_identifier_def identifier_of_def string_less_lexord ParseUint_small word_less_nat_alt unat_of_nat)

lemma compare_prerelease_lexord:
  assumes "list_all identifier_ok as" "list_all identifier_ok bs"
    "\<forall>i \<in> set as \<union> set bs. isNumeric i \<longrightarrow> digits_val i < 2 ^ 64"
  shows "compare_prerelease as bs
    = (if (map identifier_of as, map identifier_of bs) \<in> lexord identifier_order then - 1 else if as = bs then 0 else 1)"
  using assms
proof (induction as bs rule: compare_prerelease.induct)
  case (1 a as b bs)
  show ?case
  proof (cases "a = b")
    case True
    with 1 identifier_order_strict(2) show ?thesis by (auto simp: irrefl_def)
  next
    case False
    with 1 have "identifier_of a \<noteq> identifier_of b" using identifier_of_inj [of a b] by auto
    with False 1 show ?thesis by (simp add: compare_identifier_less)
  qed
qed auto

lemma compare_core_lexord:
  "length as = length bs \<Longrightarrow> compare_core as bs = (if (as, bs) \<in> lexord {(x, y). x < y} then - 1 else if as = bs then 0 else 1)"
  by (induction as bs rule: compare_core.induct) auto

lemma normalized_parts:
  assumes "normalizeVersion v = Inr w"
  shows "CHR ''+'' \<notin> set w" "length (split_on (CHR ''.'') (fst (cut_char (CHR ''-'') w))) = 3"
    "list_all core_part_ok (split_on (CHR ''.'') (fst (cut_char (CHR ''-'') w)))"
    "CHR ''-'' \<in> set w \<Longrightarrow> fst (snd (cut_char (CHR ''-'') w)) \<noteq> []"
    "CHR ''-'' \<in> set w \<Longrightarrow> list_all identifier_ok (split_on (CHR ''.'') (fst (snd (cut_char (CHR ''-'') w))))"
  using assms by (auto simp: normalizeVersion_def Let_def case_prod_beta split: if_splits dest: set_takeWhileD)

lemma parsed_valid:
  assumes "parseSemanticVersion v = Inr s"
  shows "length (sv_core s) = 3 \<and> list_all identifier_ok (sv_prerelease s)"
proof -
  obtain w where w: "normalizeVersion v = Inr w" using assms by (cases "normalizeVersion v") (simp_all add: parseSemanticVersion_def)
  have "snd (snd (cut_char (CHR ''-'') w)) \<longleftrightarrow> CHR ''-'' \<in> set w" by (simp add: cut_char_def)
  with assms normalized_parts [OF w] w show ?thesis
    by (auto simp: parseSemanticVersion_def Let_def case_prod_beta split: if_splits)
qed

lemma compare_parsed:
  assumes "parseSemanticVersion a = Inr av" "parseSemanticVersion b = Inr bv" "small_numbers av" "small_numbers bv"
  shows "CompareVersions a b = (if precedes av bv then - 1 else if av = bv then 0 else 1)"
proof -
  have ok: "length (sv_core av) = length (sv_core bv)" "list_all identifier_ok (sv_prerelease av)" "list_all identifier_ok (sv_prerelease bv)"
    using parsed_valid assms by auto
  have small: "\<forall>i \<in> set (sv_prerelease av) \<union> set (sv_prerelease bv). isNumeric i \<longrightarrow> digits_val i < 2 ^ 64"
    using assms by (auto simp: small_numbers_def)
  have "(sv_core av, sv_core av) \<notin> lexord {(x, y). x < y}" by (rule irrefl_lexord [OF core_order_strict(2)])
  then show ?thesis
    using assms compare_prerelease_lexord [OF ok(2, 3) small]
    by (auto simp: CompareVersions_def Let_def compare_core_lexord [OF ok(1)] precedes_def semanticVersion.equality)
qed

lemma precedes_total:
  assumes "parseSemanticVersion a = Inr av" "parseSemanticVersion b = Inr bv"
  shows "precedes av bv \<or> av = bv \<or> precedes bv av"
proof -
  have ok: "list_all identifier_ok (sv_prerelease av)" "list_all identifier_ok (sv_prerelease bv)"
    using parsed_valid assms by auto
  have "inj_on identifier_of (set (sv_prerelease av) \<union> set (sv_prerelease bv))"
    using ok identifier_of_inj by (auto simp: inj_on_def list_all_iff)
  then have eq: "identifiers av = identifiers bv \<longleftrightarrow> sv_prerelease av = sv_prerelease bv" by (rule inj_on_map_eq_map)
  have "(sv_core av, sv_core bv) \<in> lexord {(x, y). x < y} \<or> sv_core av = sv_core bv \<or> (sv_core bv, sv_core av) \<in> lexord {(x, y). x < y}"
    by (rule lexord_linear) auto
  moreover have "(identifiers av, identifiers bv) \<in> lexord identifier_order \<or> identifiers av = identifiers bv
    \<or> (identifiers bv, identifiers av) \<in> lexord identifier_order"
    by (rule lexord_linear) (use identifier_order_strict(3) in blast)
  ultimately show ?thesis unfolding precedes_def using eq semanticVersion.equality [of av bv] by (cases "sv_prerelease av = []"; cases "sv_prerelease bv = []") auto
qed

lemma split_chars: "x \<in> set s \<Longrightarrow> x = c \<or> (\<exists>p \<in> set (split_on c s). x \<in> set p)"
  by (induction s) (auto split: list.splits)

lemma cut_parts: "x \<in> set w \<Longrightarrow> x \<in> set (fst (cut_char c w)) \<or> x = c \<or> x \<in> set (fst (snd (cut_char c w)))"
proof (induction w)
  case (Cons a w)
  then show ?case by (cases "c \<in> set w") (auto simp: cut_char_def)
qed simp

lemma semver_char_plain: "semver_char c \<Longrightarrow> \<not> go_space c" "is_digit c \<Longrightarrow> c \<noteq> CHR ''v''"
  by (auto simp: semver_char_def go_space_def is_digit_def Let_def)

lemma normalized_plain:
  assumes "normalizeVersion v = Inr w"
  shows "\<forall>c \<in> set w. \<not> go_space c" "w \<noteq> []" "hd w \<noteq> CHR ''v''"
proof -
  define core where "core = fst (cut_char (CHR ''-'') w)"
  note parts = normalized_parts [OF assms, folded core_def]
  have digits: "x = CHR ''.'' \<or> is_digit x" if "x \<in> set core" for x
    using split_chars [OF that, of "CHR ''.''"] parts(3)
    by (auto simp: list_all_iff core_part_ok_def parse_uint64_def split: if_splits)
  have words: "x = CHR ''.'' \<or> semver_char x" if "x \<in> set (fst (snd (cut_char (CHR ''-'') w)))" for x
  proof -
    have "CHR ''-'' \<in> set w" using that by (simp add: cut_char_def split: if_splits)
    from parts(5) [OF this] split_chars [OF that, of "CHR ''.''"] show ?thesis
      by (auto simp: list_all_iff identifier_ok_def validSemverIdentifier_def)
  qed
  show "\<forall>c \<in> set w. \<not> go_space c"
  proof
    fix x
    assume "x \<in> set w"
    from cut_parts [OF this, of "CHR ''-''", folded core_def] digits [of x] words [of x]
    consider "x \<in> set [CHR ''.'', CHR ''-'']" | "is_digit x" | "semver_char x" by auto
    then show "\<not> go_space x" using semver_char_plain(1) digit_not_special(1) by cases (auto simp: go_space_def)
  qed
  have "core \<noteq> []" using parts(2) by auto
  moreover have "\<exists>rest. w = core @ rest"
    by (cases "CHR ''-'' \<in> set w") (auto simp: core_def cut_char_def intro: takeWhile_dropWhile_id [symmetric])
  ultimately show "w \<noteq> []" "hd w \<noteq> CHR ''v''" using digits [of "hd core"] semver_char_plain(2) [of "hd core"] by auto
qed

lemma normalizeVersion_idem:
  assumes "normalizeVersion v = Inr w"
  shows "normalizeVersion w = Inr w"
proof -
  note plain = normalized_plain [OF assms] and parts = normalized_parts [OF assms]
  have "trim_prefix (trim_space w) ''v'' = w"
    using plain by (cases w) (simp_all add: trim_space_id trim_prefix_def has_prefix_def)
  moreover have tw: "takeWhile (\<lambda>c. c \<noteq> CHR ''+'') w = w" using parts(1) by (auto simp: takeWhile_eq_all_conv)
  ultimately show ?thesis
    using plain(2) parts(2-5) by (auto simp: normalizeVersion_def Let_def case_prod_beta tw)
qed

lemma parse_normalized: "normalizeVersion v = Inr w \<Longrightarrow> parseSemanticVersion w = parseSemanticVersion v"
  by (simp add: parseSemanticVersion_def normalizeVersion_idem)

lemma parse_some: "normalizeVersion v = Inr w \<Longrightarrow> \<exists>s. parseSemanticVersion v = Inr s"
  by (simp add: parseSemanticVersion_def Let_def case_prod_beta)

section \<open>The chosen release\<close>

text \<open>A release that the loop considers, with its version.\<close>

definition considered :: "githubRelease \<Rightarrow> semanticVersion \<Rightarrow> bool" where
  "considered r s \<longleftrightarrow> \<not> gr_Draft r \<and> parseSemanticVersion (gr_TagName r) = Inr s"

definition best_so_far :: "githubRelease list \<Rightarrow> (githubRelease \<times> string) option \<Rightarrow> bool" where
  "best_so_far rs best \<longleftrightarrow>
     (case best of
        None \<Rightarrow> \<forall>r \<in> set rs. \<forall>s. \<not> considered r s
      | Some (b, v) \<Rightarrow> b \<in> set rs \<and> \<not> gr_Draft b \<and> normalizeVersion (gr_TagName b) = Inr v
          \<and> (\<exists>t. parseSemanticVersion (gr_TagName b) = Inr t \<and> (\<forall>r \<in> set rs. \<forall>s. considered r s \<longrightarrow> \<not> precedes t s)))"

lemma considered_normal: "considered r s \<Longrightarrow> \<exists>v. normalizeVersion (gr_TagName r) = Inr v"
  by (cases "normalizeVersion (gr_TagName r)") (auto simp: considered_def parseSemanticVersion_def)

lemma best_step:
  assumes "best_so_far rs best" "\<forall>x \<in> set (rs @ [r]). \<forall>s. considered x s \<longrightarrow> small_numbers s" "\<not> gr_Draft r" "normalizeVersion (gr_TagName r) = Inr v"
  shows "best_so_far (rs @ [r]) (case best of None \<Rightarrow> Some (r, v) | Some (b, w) \<Rightarrow> if CompareVersions v w > 0 then Some (r, v) else best)"
proof -
  obtain s where s: "parseSemanticVersion (gr_TagName r) = Inr s" using parse_some [OF assms(4)] by blast
  then have cs: "considered r s" using assms(3) by (simp add: considered_def)
  show ?thesis
  proof (cases best)
    case None
    with assms s precedes_irrefl show ?thesis by (auto simp: best_so_far_def considered_def)
  next
    case (Some bw)
    then obtain b w where b: "best = Some (b, w)" by (cases bw) auto
    with assms(1) obtain t where t: "parseSemanticVersion (gr_TagName b) = Inr t" "normalizeVersion (gr_TagName b) = Inr w"
      and max: "b \<in> set rs" "\<not> gr_Draft b" "\<forall>r \<in> set rs. \<forall>s. considered r s \<longrightarrow> \<not> precedes t s" by (auto simp: best_so_far_def)
    have cmp: "CompareVersions v w = (if precedes s t then - 1 else if s = t then 0 else 1)"
      using compare_parsed [of v s w t] s t parse_normalized assms(2, 4) cs max(1, 2) by (auto simp: considered_def)
    have tot: "precedes s t \<or> s = t \<or> precedes t s" using precedes_total s t by blast
    have best: "\<forall>x \<in> set (rs @ [r]). \<forall>u. considered x u \<longrightarrow> \<not> precedes s u" if "precedes t s"
      using max(3) s precedes_trans [OF that] precedes_irrefl by (auto simp: considered_def)
    have keep: "\<forall>x \<in> set (rs @ [r]). \<forall>u. considered x u \<longrightarrow> \<not> precedes t u" if "\<not> precedes t s"
      using max(3) s that by (auto simp: considered_def)
    show ?thesis
    proof (cases "precedes t s")
      case True
      then have "CompareVersions v w > 0" using cmp precedes_irrefl precedes_trans [of s t s] by auto
      with b s assms(3, 4) best [OF True] show ?thesis by (simp add: best_so_far_def)
    next
      case False
      then have "\<not> CompareVersions v w > 0" using cmp tot by auto
      with b t max(1, 2) keep [OF False] show ?thesis by (simp add: best_so_far_def)
    qed
  qed
qed

lemma best_release_max:
  assumes "best_so_far rs best" "\<forall>x \<in> set (rs @ ys). \<forall>s. considered x s \<longrightarrow> small_numbers s"
  shows "best_so_far (rs @ ys) (best_release ys best)"
  using assms
proof (induction ys arbitrary: rs best)
  case (Cons r ys)
  have skip: "best_so_far (rs @ [r]) best" if "\<And>s. \<not> considered r s"
    using Cons.prems(1) that by (auto simp: best_so_far_def split: option.splits)
  show ?case
  proof (cases "gr_Draft r \<or> (\<exists>e. normalizeVersion (gr_TagName r) = Inl e)")
    case True
    then have "\<not> considered r s" for s using considered_normal [of r s] by (auto simp: considered_def)
    from Cons.IH [OF skip [OF this]] Cons.prems(2) True show ?thesis by auto
  next
    case False
    then obtain v where v: "\<not> gr_Draft r" "normalizeVersion (gr_TagName r) = Inr v" by (cases "normalizeVersion (gr_TagName r)") auto
    have "best_so_far (rs @ [r]) (case best of None \<Rightarrow> Some (r, v) | Some (b, w) \<Rightarrow> if CompareVersions v w > 0 then Some (r, v) else best)"
      by (rule best_step [OF Cons.prems(1) _ v]) (use Cons.prems(2) in auto)
    from Cons.IH [OF this] Cons.prems(2) v show ?thesis by (auto split: option.splits)
  qed
qed simp

lemma checked_release:
  assumes "Checker_Check api c current = Inr r"
  obtains rel endpoint where "normalizeVersion (gr_TagName rel) = Inr (ck_Latest r)" "normalizeVersion current = Inr (ck_Current r)"
    "ck_Available r \<longleftrightarrow> CompareVersions (ck_Latest r) (ck_Current r) > 0" "rl_Assets (ck_Release r) = gr_Assets rel"
    "rl_Prerelease (ck_Release r) = gr_Prerelease rel"
    "ch_Channel c \<in> {[], Stable, Prerelease}" "choose_release api (if ch_Channel c = [] then Stable else ch_Channel c) endpoint = Inr rel"
  using assms unfolding Checker_Check_def Let_def by (auto split: if_splits sum.splits)

lemma chosen_stable:
  assumes "choose_release api Stable endpoint = Inr rel"
  shows "api_one api (endpoint @ ''/latest'') = Inr rel \<and> \<not> gr_Draft rel \<and> \<not> gr_Prerelease rel"
  using assms by (auto simp: choose_release_def split: sum.splits if_splits)

lemma chosen_newest:
  assumes "choose_release api Prerelease endpoint = Inr rel" "parseSemanticVersion (gr_TagName rel) = Inr lat"
    "\<forall>rels rel s. api_all api endpoint = Inr rels \<and> rel \<in> set rels \<and> considered rel s \<longrightarrow> small_numbers s"
  shows "\<exists>rels. api_all api endpoint = Inr rels \<and> rel \<in> set rels \<and> considered rel lat
    \<and> (\<forall>rel \<in> set rels. \<forall>s. considered rel s \<longrightarrow> \<not> precedes lat s)"
proof -
  obtain rels v where r: "api_all api endpoint = Inr rels" "best_release rels None = Some (rel, v)"
    using assms(1) by (auto simp: choose_release_def Stable_def Prerelease_def split: sum.splits option.splits)
  have "best_so_far rels (best_release rels None)"
    using best_release_max [of "[]" None rels] assms(3) r(1) by (auto simp: best_so_far_def)
  with r assms(2) show ?thesis by (auto simp: best_so_far_def considered_def)
qed

section \<open>Properties\<close>

text \<open>C24: The comparison of versions implements the precedence of semantic versioning. For versions that parse and
  whose numeric pre-release identifiers are below 2 to the 64, it is negative exactly when the first version precedes
  the second, positive exactly when the second precedes the first, and zero exactly when they are the same up to
  build metadata; precedence is a strict order that is total on such versions.\<close>

theorem version_order:
  assumes "parseSemanticVersion a = Inr av" "parseSemanticVersion b = Inr bv" "small_numbers av" "small_numbers bv"
  shows "CompareVersions a b = (if precedes av bv then - 1 else if precedes bv av then 1 else 0)
    \<and> (CompareVersions a b = 0 \<longleftrightarrow> av = bv) \<and> CompareVersions b a = - CompareVersions a b"
  using compare_parsed [OF assms(1, 2, 3, 4)] compare_parsed [OF assms(2, 1, 4, 3)] precedes_total [OF assms(1, 2)]
    precedes_irrefl precedes_trans [of av bv av]
  by auto

lemmas version_eval = parseSemanticVersion_def normalizeVersion_def trim_space_def trim_right_by_def go_space_def trim_prefix_def has_prefix_def
  cut_char_def Let_def core_part_ok_def identifier_ok_def validSemverIdentifier_def semver_char_def isNumeric_def is_digit_def
  parse_uint64_def digits_val_def digit_val_def ParseUint_value_def small_numbers_def

theorem version_order_witness:
  "CompareVersions ''v1.2.0-rc.9'' ''1.2.0-rc.10+b1'' = - 1 \<and> CompareVersions ''1.2.0'' ''1.2.0-rc.10'' = 1"
proof -
  let ?a = "\<lparr>sv_core = [1, 2, 0], sv_prerelease = [''rc'', ''9'']\<rparr>" and ?b = "\<lparr>sv_core = [1, 2, 0], sv_prerelease = [''rc'', ''10'']\<rparr>"
    and ?c = "\<lparr>sv_core = [1, 2, 0], sv_prerelease = []\<rparr>"
  have p: "parseSemanticVersion ''v1.2.0-rc.9'' = Inr ?a" "parseSemanticVersion ''1.2.0-rc.10+b1'' = Inr ?b"
    "parseSemanticVersion ''1.2.0-rc.10'' = Inr ?b" "parseSemanticVersion ''1.2.0'' = Inr ?c"
    by (simp_all add: version_eval)
  have s: "small_numbers ?a" "small_numbers ?b" "small_numbers ?c" by (simp_all add: version_eval)
  have "precedes ?a ?b" "precedes ?b ?c"
    by (simp_all add: precedes_def identifier_of_def isNumeric_def is_digit_def digits_val_def digit_val_def)
  then show ?thesis
    using version_order [OF p(1, 2) s(1, 2)] version_order [OF p(4, 3) s(3, 2)] precedes_irrefl precedes_trans [of ?b ?c ?b] by auto
qed

text \<open>Larger numeric identifiers are all read as the largest 64-bit number, so that two different ones are each
  greater than the other.\<close>

lemma large_identifiers_misordered:
  "CompareVersions ''1.0.0-18446744073709551616'' ''1.0.0-18446744073709551617'' = 1
   \<and> CompareVersions ''1.0.0-18446744073709551617'' ''1.0.0-18446744073709551616'' = 1"
  by (simp add: CompareVersions_def compare_identifier_def version_eval)

text \<open>C25: An update is offered exactly when the release is newer, provided that the numeric identifiers of the current
  version and of the releases that count are below 2^64 (see \<open>large_identifiers_misordered\<close>). The current and the latest version of a successful
  check parse, and the update is available exactly when the current version precedes the latest. On the stable channel
  the release is neither a draft nor a pre-release; on the other channel it is one of the listed releases, no draft,
  and no listed release that is no draft and has a valid version has a higher precedence.\<close>

theorem update_offers_newest:
  fixes api :: releaseAPI and c :: Checker
  assumes "Checker_Check api c current = Inr r" "parseSemanticVersion (ck_Current r) = Inr cur" "small_numbers cur"
    "\<forall>endpoint rels rel s. api_all api endpoint = Inr rels \<and> rel \<in> set rels \<and> considered rel s \<longrightarrow> small_numbers s"
    "\<forall>endpoint rel s. api_one api endpoint = Inr rel \<and> considered rel s \<longrightarrow> small_numbers s"
  shows "\<exists>lat. parseSemanticVersion (ck_Latest r) = Inr lat \<and> (ck_Available r \<longleftrightarrow> precedes cur lat)
    \<and> (if ch_Channel c \<in> {[], Stable}
       then \<exists>endpoint rel. api_one api endpoint = Inr rel \<and> considered rel lat \<and> \<not> gr_Prerelease rel
       else ch_Channel c = Prerelease
         \<and> (\<exists>endpoint rels. api_all api endpoint = Inr rels \<and> (\<exists>rel \<in> set rels. considered rel lat)
              \<and> (\<forall>rel \<in> set rels. \<forall>s. considered rel s \<longrightarrow> \<not> precedes lat s)))"
proof -
  let ?channel = "if ch_Channel c = [] then Stable else ch_Channel c"
  obtain rel endpoint where n: "normalizeVersion (gr_TagName rel) = Inr (ck_Latest r)"
    and av: "ck_Available r \<longleftrightarrow> CompareVersions (ck_Latest r) (ck_Current r) > 0"
    and ch: "ch_Channel c \<in> {[], Stable, Prerelease}" "choose_release api ?channel endpoint = Inr rel"
    by (rule checked_release [OF assms(1)]) blast
  obtain lat where lat: "parseSemanticVersion (gr_TagName rel) = Inr lat" using parse_some [OF n] by blast
  then have p: "parseSemanticVersion (ck_Latest r) = Inr lat" using parse_normalized [OF n] by simp
  let ?from = "if ch_Channel c \<in> {[], Stable} then \<exists>endpoint. api_one api endpoint = Inr rel \<and> considered rel lat \<and> \<not> gr_Prerelease rel
    else ch_Channel c = Prerelease \<and> (\<exists>endpoint rels. api_all api endpoint = Inr rels \<and> rel \<in> set rels \<and> considered rel lat
         \<and> (\<forall>rel \<in> set rels. \<forall>s. considered rel s \<longrightarrow> \<not> precedes lat s))"
  have src: ?from
  proof (cases "ch_Channel c \<in> {[], Stable}")
    case True
    then have "?channel = Stable" by (auto simp: Stable_def)
    with ch(2) chosen_stable [of api endpoint rel] lat True show ?thesis by (auto simp: considered_def)
  next
    case False
    with ch have "?channel = Prerelease" by auto
    with ch(2) chosen_newest [OF _ lat, of api endpoint] assms(4) False ch(1) show ?thesis by auto
  qed
  then have "small_numbers lat" using assms(4, 5) by (auto split: if_splits)
  with compare_parsed [OF p assms(2) _ assms(3)] av precedes_total [OF p assms(2)] precedes_irrefl precedes_trans [of lat cur lat]
  have "ck_Available r \<longleftrightarrow> precedes cur lat" by auto
  with src p show ?thesis by (intro exI [of _ lat]) (auto split: if_splits)
qed

theorem update_offers_newest_witness:
  defines "rel \<equiv> \<lambda>tag. \<lparr>gr_TagName = tag, gr_Draft = False, gr_Prerelease = True, gr_Assets = []\<rparr>"
  defines "api \<equiv> \<lparr>api_one = \<lambda>_. Inl (ErrMsg ''none''), api_all = \<lambda>_. Inr [rel ''v1.2.0-rc.9'', rel ''v1.2.0-rc.10'']\<rparr>"
  defines "c \<equiv> \<lparr>ch_APIBase = [], ch_Repository = [], ch_Channel = Prerelease\<rparr>"
  shows "\<exists>r. Checker_Check api c ''1.2.0-rc.9'' = Inr r \<and> ck_Latest r = ''1.2.0-rc.10'' \<and> ck_Available r"
proof -
  let ?a = "\<lparr>sv_core = [1, 2, 0], sv_prerelease = [''rc'', ''9'']\<rparr>" and ?b = "\<lparr>sv_core = [1, 2, 0], sv_prerelease = [''rc'', ''10'']\<rparr>"
  have p: "parseSemanticVersion ''v1.2.0-rc.9'' = Inr ?a" "parseSemanticVersion ''v1.2.0-rc.10'' = Inr ?b"
    "parseSemanticVersion ''1.2.0-rc.9'' = Inr ?a" "parseSemanticVersion ''1.2.0-rc.10'' = Inr ?b"
    by (simp_all add: version_eval)
  have n: "normalizeVersion ''v1.2.0-rc.9'' = Inr ''1.2.0-rc.9''" "normalizeVersion ''v1.2.0-rc.10'' = Inr ''1.2.0-rc.10''"
    "normalizeVersion ''1.2.0-rc.9'' = Inr ''1.2.0-rc.9''"
    by (simp_all add: version_eval)
  have s: "small_numbers ?a" "small_numbers ?b" by (simp_all add: version_eval)
  have cmp: "CompareVersions ''1.2.0-rc.10'' ''1.2.0-rc.9'' = 1"
    by (simp add: CompareVersions_def p compare_identifier_def version_eval)
  have "best_release [rel ''v1.2.0-rc.9'', rel ''v1.2.0-rc.10''] None = Some (rel ''v1.2.0-rc.10'', ''1.2.0-rc.10'')"
    by (simp add: rel_def n cmp)
  then obtain r where r: "Checker_Check api c ''1.2.0-rc.9'' = Inr r" "ck_Latest r = ''1.2.0-rc.10''" "ck_Current r = ''1.2.0-rc.9''"
    by (simp add: Checker_Check_def Let_def c_def api_def choose_release_def n rel_def Stable_def Prerelease_def validRepository_def
        DefaultRepository_def contains_any_def)
  have "small_numbers t" if "considered (rel ''v1.2.0-rc.9'') t \<or> considered (rel ''v1.2.0-rc.10'') t" for t
    using that p s by (auto simp: considered_def rel_def)
  then have "\<exists>lat. parseSemanticVersion (ck_Latest r) = Inr lat \<and> (ck_Available r \<longleftrightarrow> precedes ?a lat)"
    using update_offers_newest [OF r(1), of ?a] p(3) s(1) r(3) by (auto simp: api_def)
  moreover have "precedes ?a ?b"
    by (simp add: precedes_def identifier_of_def isNumeric_def is_digit_def digits_val_def digit_val_def)
  ultimately show ?thesis using r p(4) by auto
qed

end
