(* ===== verification/Update_Policy.thy ===== *)
theory Update_Policy
  imports Update_Version Go_Net
begin

text \<open>
  The update policy, \<^verbatim>\<open>internal/update/policy.go\<close> and \<^verbatim>\<open>Upgrade\<close> of \<^verbatim>\<open>internal/update/update.go\<close>: modes, channels and
  providers, and which package manager owns the executable. Paths are recognised by their layout; the regular
  expressions are functions on the segments between slashes, for ASCII letters. The environment and
  \<^verbatim>\<open>filepath.EvalSymlinks\<close> are arguments.
\<close>

section \<open>Modes, channels, providers\<close>

definition AutoOff :: string where "AutoOff = ''off''"
definition AutoNotify :: string where "AutoNotify = ''notify''"
definition AutoInstall :: string where "AutoInstall = ''install''"
definition ProviderAuto :: string where "ProviderAuto = ''auto''"
definition ProviderDirect :: string where "ProviderDirect = ''direct''"
definition ProviderWinGet :: string where "ProviderWinGet = ''winget''"
definition ProviderScoop :: string where "ProviderScoop = ''scoop''"
definition ProviderBrew :: string where "ProviderBrew = ''homebrew''"

definition parse_choice :: "string \<Rightarrow> string list \<Rightarrow> string \<Rightarrow> string \<Rightarrow> goerr + string" where
  "parse_choice fallback choices message value =
     (let choice = to_lower (trim_space value); choice = (if choice = [] then fallback else choice) in
      if choice \<in> set choices then Inr choice else Inl (Wrapped value (ErrMsg message)))"

definition ParseAutoMode :: "string \<Rightarrow> goerr + string" where
  "ParseAutoMode = parse_choice AutoOff [AutoOff, AutoNotify, AutoInstall] ''unsupported auto-update mode''"

definition ParseChannel :: "string \<Rightarrow> goerr + string" where
  "ParseChannel = parse_choice Stable [Stable, Prerelease] ''unsupported update channel''"

definition ParseProvider :: "string \<Rightarrow> goerr + string" where
  "ParseProvider = parse_choice ProviderAuto [ProviderAuto, ProviderDirect, ProviderWinGet, ProviderScoop, ProviderBrew] ''unsupported update provider''"

text \<open>The command of a package manager; \<open>run\<close> is the command runner.\<close>

definition provider_command :: "string \<Rightarrow> (string \<times> string list) option" where
  "provider_command provider =
     (if provider = ProviderWinGet
      then Some (ProviderWinGet, [''upgrade'', ''--id'', ''KhanhKit.PxGo'', ''--exact'', ''--disable-interactivity'', ''--accept-source-agreements'', ''--accept-package-agreements''])
      else if provider = ProviderScoop then Some (ProviderScoop, [''update'', productName])
      else if provider = ProviderBrew then Some (''brew'', [''upgrade'', productName])
      else None)"

definition Upgrade :: "(string \<Rightarrow> string list \<Rightarrow> goerr option) \<Rightarrow> string \<Rightarrow> goerr option" where
  "Upgrade run provider =
     (case provider_command provider of
        None \<Rightarrow> Some (if provider = ProviderDirect then ErrMsg ''direct updates require verified staged replacement''
                      else Wrapped provider (ErrMsg ''unsupported update provider''))
      | Some (name, args) \<Rightarrow> (case run name args of Some e \<Rightarrow> Some (Wrapped provider e) | None \<Rightarrow> None))"

section \<open>Paths\<close>

text \<open>\<^verbatim>\<open>path.Clean\<close>: the segments without empty ones, dots, and names that a double dot takes back.\<close>

fun clean_segments :: "bool \<Rightarrow> string list \<Rightarrow> string list \<Rightarrow> string list" where
  "clean_segments rooted [] out = rev out"
| "clean_segments rooted (s # ss) out =
     (if s = [] \<or> s = ''.'' then clean_segments rooted ss out
      else if s = ''..'' then
        (case out of
           [] \<Rightarrow> clean_segments rooted ss (if rooted then [] else [s])
         | prev # rest \<Rightarrow> clean_segments rooted ss (if prev = ''..'' then s # out else rest))
      else clean_segments rooted ss (s # out))"

definition path_Clean :: "string \<Rightarrow> string" where
  "path_Clean p =
     (let rooted = has_prefix p ''/''; body = join_with ''/'' (clean_segments rooted (split_on (CHR ''/'') p) []) in
      if rooted then CHR ''/'' # body else if body = [] then ''.'' else body)"

definition managedPath :: "string \<Rightarrow> bool \<Rightarrow> string" where
  "managedPath value caseInsensitive =
     (let cleaned = path_Clean (map (\<lambda>c. if c = CHR 0x5C then CHR ''/'' else c) (trim_space value)) in
      if caseInsensitive then to_lower cleaned else cleaned)"

record pathEnv =
  pe_getenv :: "string \<Rightarrow> string"
  pe_symlinks :: "string \<Rightarrow> string option"

definition managedEnvRoot :: "pathEnv \<Rightarrow> string \<Rightarrow> bool \<Rightarrow> string" where
  "managedEnvRoot env key caseInsensitive =
     (let value = trim_space (pe_getenv env key) in
      if value \<noteq> [] then
        managedPath (case pe_symlinks env value of Some real \<Rightarrow> if real \<noteq> [] then real else value | None \<Rightarrow> value) caseInsensitive
      else [])"

definition underManagedRoot :: "string \<Rightarrow> string \<Rightarrow> string option" where
  "underManagedRoot full root =
     (if root = [] \<or> \<not> has_prefix full (root @ ''/'') then None else Some (drop (length root + 1) full))"

text \<open>\<^verbatim>\<open>strings.LastIndex\<close> of a substring.\<close>

definition last_index_str :: "string \<Rightarrow> string \<Rightarrow> nat option" where
  "last_index_str s sub =
     (case filter (\<lambda>i. has_prefix (drop i s) sub) (rev [0..<Suc (length s)]) of [] \<Rightarrow> None | i # _ \<Rightarrow> Some i)"

section \<open>Package managers\<close>

definition drive :: "string \<Rightarrow> bool" where
  "drive s \<longleftrightarrow> (case s of [c, colon] \<Rightarrow> 97 \<le> (of_char c :: nat) \<and> (of_char c :: nat) \<le> 122 \<and> colon = CHR '':'' | _ \<Rightarrow> False)"

definition program_files :: "string \<Rightarrow> bool" where
  "program_files s \<longleftrightarrow> s = ''program files'' \<or> s = ''program files (x86)''"

definition scoopDefaultRoot :: "string \<Rightarrow> bool" where
  "scoopDefaultRoot root \<longleftrightarrow>
     (case split_on (CHR ''/'') root of
        [d, a, b] \<Rightarrow> drive d \<and> a = ''programdata'' \<and> b = ''scoop''
      | [d, a, user, b] \<Rightarrow> drive d \<and> a = ''users'' \<and> user \<noteq> [] \<and> b = ''scoop''
      | _ \<Rightarrow> False)"

definition winget_user :: "string \<Rightarrow> string \<Rightarrow> bool" where
  "winget_user leaf root \<longleftrightarrow>
     (case split_on (CHR ''/'') root of
        d # a # user # rest \<Rightarrow> drive d \<and> a = ''users'' \<and> user \<noteq> [] \<and> rest = [''appdata'', ''local'', ''microsoft'', ''winget'', leaf]
      | _ \<Rightarrow> False)"

definition winget_machine :: "string \<Rightarrow> string \<Rightarrow> bool" where
  "winget_machine leaf root \<longleftrightarrow>
     (case split_on (CHR ''/'') root of [d, pf, a, b] \<Rightarrow> drive d \<and> program_files pf \<and> a = ''winget'' \<and> b = leaf | _ \<Rightarrow> False)"

definition brewManagedExecutableHint :: "string \<Rightarrow> bool" where
  "brewManagedExecutableHint full \<longleftrightarrow>
     (case rev (split_on (CHR ''/'') (to_lower full)) of
        prog # bin # version # name # cellar # earlier # _ \<Rightarrow> prog = ''pxgo'' \<and> bin = ''bin'' \<and> version \<noteq> [] \<and> name = ''pxgo'' \<and> cellar = ''cellar''
      | _ \<Rightarrow> False)"

definition brewDefaultRootHint :: "string \<Rightarrow> bool" where
  "brewDefaultRootHint full \<longleftrightarrow>
     (case rev (split_on (CHR ''/'') (to_lower full)) of
        prog # bin # version # name # cellar # root \<Rightarrow>
          prog = ''pxgo'' \<and> bin = ''bin'' \<and> version \<noteq> [] \<and> name \<noteq> [] \<and> cellar = ''cellar''
          \<and> rev root \<in> set [[[], ''opt'', ''homebrew''], [[], ''usr'', ''local''], [[], ''home'', ''linuxbrew'', ''.linuxbrew'']]
      | _ \<Rightarrow> False)"

definition isKnownScoopRoot :: "pathEnv \<Rightarrow> string \<Rightarrow> bool" where
  "isKnownScoopRoot env root \<longleftrightarrow>
     scoopDefaultRoot root \<or> root \<noteq> [] \<and> (root = managedEnvRoot env ''SCOOP'' True \<or> root = managedEnvRoot env ''SCOOP_GLOBAL'' True)"

definition isScoopOwned :: "pathEnv \<Rightarrow> string \<Rightarrow> bool" where
  "isScoopOwned env full =
     (case last_index_str full ''/apps/pxgo/'' of
        None \<Rightarrow> False
      | Some i \<Rightarrow>
          isKnownScoopRoot env (take i full)
          \<and> (case split_on (CHR ''/'') (drop (i + length ''/apps/pxgo/'') full) of [v, prog] \<Rightarrow> v \<noteq> [] \<and> prog = windowsExecutableName | _ \<Rightarrow> False))"

definition winget_package :: "string \<Rightarrow> bool" where
  "winget_package packageDir \<longleftrightarrow>
     packageDir = ''khanhkit.pxgo'' \<or> has_prefix packageDir ''khanhkit.pxgo_'' \<and> length packageDir > length ''khanhkit.pxgo_''"

definition validWingetPackagePath :: "string \<Rightarrow> bool" where
  "validWingetPackagePath relative =
     (let parts = split_on (CHR ''/'') relative in
      2 \<le> length parts \<and> length parts \<le> 3 \<and> last parts = windowsExecutableName \<and> winget_package (hd parts))"

definition winget_roots :: "pathEnv \<Rightarrow> string list" where
  "winget_roots env =
     filter (\<lambda>root. root \<noteq> ''/microsoft/winget/packages'' \<and> root \<noteq> ''/winget/packages'')
       [managedEnvRoot env ''LOCALAPPDATA'' True @ ''/microsoft/winget/packages'',
        managedEnvRoot env ''PROGRAMFILES'' True @ ''/winget/packages'',
        managedEnvRoot env ''PROGRAMFILES(X86)'' True @ ''/winget/packages'']"

definition isWingetOwned :: "pathEnv \<Rightarrow> string \<Rightarrow> bool" where
  "isWingetOwned env full =
     (if list_ex (\<lambda>root. case underManagedRoot full root of Some rest \<Rightarrow> validWingetPackagePath rest | None \<Rightarrow> False) (winget_roots env) then True
      else case last_index_str full ''/packages/'' of
        None \<Rightarrow> False
      | Some i \<Rightarrow>
          (let root = take (i + length ''/packages'') full in
           (winget_user ''packages'' root \<or> winget_machine ''packages'' root)
           \<and> validWingetPackagePath (drop (i + length ''/packages/'') full)))"

definition brew_roots :: "pathEnv \<Rightarrow> string list" where
  "brew_roots env =
     (let cellar = managedEnvRoot env ''HOMEBREW_CELLAR'' False; pre = managedEnvRoot env ''HOMEBREW_PREFIX'' False in
      [''/opt/homebrew'', ''/usr/local'', ''/home/linuxbrew/.linuxbrew''] @ (if pre \<noteq> [] then [pre] else [])
      @ (if cellar \<noteq> [] \<and> has_suffix cellar ''/Cellar'' then [trim_suffix cellar ''/Cellar''] else []))"

definition isBrewOwned :: "pathEnv \<Rightarrow> string \<Rightarrow> bool" where
  "isBrewOwned env full =
     list_ex (\<lambda>root.
       case underManagedRoot full (root @ ''/Cellar/pxgo'') of
         None \<Rightarrow> False
       | Some relative \<Rightarrow> (case split_on (CHR ''/'') relative of [v, bin, prog] \<Rightarrow> v \<noteq> [] \<and> bin = ''bin'' \<and> prog = productName | _ \<Rightarrow> False))
     (brew_roots env)"

definition detectManagedProvider :: "pathEnv \<Rightarrow> string \<Rightarrow> string \<Rightarrow> string option" where
  "detectManagedProvider env executable goos =
     (let full = managedPath executable (equal_fold goos goosWindows); os = to_lower (trim_space goos) in
      if os = goosWindows then
        (if isScoopOwned env full then Some ProviderScoop else if isWingetOwned env full then Some ProviderWinGet else None)
      else if os \<in> set [''darwin'', ''linux''] then (if isBrewOwned env full then Some ProviderBrew else None)
      else None)"

definition scoop_hint :: "pathEnv \<Rightarrow> string \<Rightarrow> bool" where
  "scoop_hint env full \<longleftrightarrow>
     (case last_index_str full ''/scoop/apps/'' of
        None \<Rightarrow> False
      | Some i \<Rightarrow> has_prefix (drop (i + length ''/scoop/apps/'') full) ''pxgo/'' \<or> isKnownScoopRoot env (take (i + length ''/scoop'') full))
     \<or> has_suffix full ''/shims/pxgo.exe'' \<and> isKnownScoopRoot env (trim_suffix full ''/shims/pxgo.exe'')"

definition winget_hint :: "pathEnv \<Rightarrow> string \<Rightarrow> bool" where
  "winget_hint env full \<longleftrightarrow>
     (case last_index_str full ''/winget/packages/'' of
        None \<Rightarrow> False
      | Some i \<Rightarrow>
          (let root = take (i + length ''/winget/packages'') full in
           winget_package (takeWhile (\<lambda>c. c \<noteq> CHR ''/'') (drop (i + length ''/winget/packages/'') full))
           \<or> winget_user ''packages'' root \<or> winget_machine ''packages'' root))
     \<or> has_suffix full ''/links/pxgo.exe''
       \<and> (let root = trim_suffix full ''/pxgo.exe'' in
          winget_user ''links'' root \<or> winget_machine ''links'' root
          \<or> root = managedEnvRoot env ''LOCALAPPDATA'' True @ ''/microsoft/winget/links''
          \<or> root = managedEnvRoot env ''PROGRAMFILES'' True @ ''/winget/links''
          \<or> root = managedEnvRoot env ''PROGRAMFILES(X86)'' True @ ''/winget/links'')"

definition brew_hint :: "pathEnv \<Rightarrow> string \<Rightarrow> bool" where
  "brew_hint env full \<longleftrightarrow>
     brewManagedExecutableHint full \<or> brewDefaultRootHint full
     \<or> list_ex (\<lambda>root. root \<noteq> [] \<and> has_prefix full (root @ ''/Cellar/'') \<and> has_suffix full ''/bin/pxgo'')
         [managedEnvRoot env ''HOMEBREW_PREFIX'' False, trim_suffix (managedEnvRoot env ''HOMEBREW_CELLAR'' False) ''/Cellar'']"

definition detectManagedProviderHint :: "pathEnv \<Rightarrow> string \<Rightarrow> string \<Rightarrow> string option" where
  "detectManagedProviderHint env executable goos =
     (let full = managedPath executable (equal_fold goos goosWindows); os = to_lower (trim_space goos) in
      if os = goosWindows then
        (if scoop_hint env full then Some ProviderScoop else if winget_hint env full then Some ProviderWinGet else None)
      else if os \<in> set [''darwin'', ''linux''] then (if brew_hint env full then Some ProviderBrew else None)
      else None)"

definition ResolveProvider :: "pathEnv \<Rightarrow> string \<Rightarrow> string \<Rightarrow> string \<Rightarrow> goerr + string" where
  "ResolveProvider env configured executable goos =
     (let configured = (if configured = [] then ProviderAuto else configured) in
      case ParseProvider configured of
        Inl e \<Rightarrow> Inl e
      | Inr _ \<Rightarrow>
          if trim_space executable = [] then Inl (ErrMsg ''cannot resolve update provider without executable path'')
          else if configured \<noteq> ProviderAuto then
            (case detectManagedProvider env executable goos of
               Some detected \<Rightarrow> if configured \<noteq> detected then Inl (Wrapped configured (ErrMsg ''conflicts with executable ownership'')) else Inr configured
             | None \<Rightarrow>
                 (case detectManagedProviderHint env executable goos of
                    Some hinted \<Rightarrow> if configured \<noteq> hinted then Inl (Wrapped configured (ErrMsg ''conflicts with manager-like executable path'')) else Inr configured
                  | None \<Rightarrow> Inr configured))
          else
            (case detectManagedProvider env executable goos of
               Some detected \<Rightarrow> Inr detected
             | None \<Rightarrow>
                 (case detectManagedProviderHint env executable goos of
                    Some hinted \<Rightarrow> Inl (Wrapped hinted (ErrMsg ''ambiguous update provider''))
                  | None \<Rightarrow> Inr ProviderDirect)))"

text \<open>An executable that a package manager owns is left to it, and one that looks managed is never replaced directly.\<close>

lemma resolved_provider:
  assumes "ResolveProvider env configured executable goos = Inr p"
  shows "(\<forall>d. detectManagedProvider env executable goos = Some d \<longrightarrow> p = d)
    \<and> (p = ProviderDirect \<longrightarrow> detectManagedProvider env executable goos = None \<and> detectManagedProviderHint env executable goos = None)"
proof -
  have "d \<noteq> ProviderDirect" if "detectManagedProvider env executable goos = Some d \<or> detectManagedProviderHint env executable goos = Some d" for d
    using that by (auto simp: detectManagedProvider_def detectManagedProviderHint_def Let_def ProviderDirect_def ProviderScoop_def ProviderWinGet_def
        ProviderBrew_def split: if_splits)
  with assms show ?thesis
    by (auto simp: ResolveProvider_def Let_def split: if_splits sum.splits option.splits)
qed

lemma scoop_example:
  "ResolveProvider \<lparr>pe_getenv = \<lambda>_. [], pe_symlinks = \<lambda>_. None\<rparr> [] ''C:/Users/k/scoop/apps/pxgo/current/pxgo.exe'' ''windows'' = Inr ProviderScoop"
  by code_simp

end
