(* ===== verification/Update_Staging.thy ===== *)
theory Update_Staging
  imports Update_Policy
begin

text \<open>
  Downloading and staging a release, \<^verbatim>\<open>internal/update/staging.go\<close>: the pinned download addresses, the checksums,
  the extraction of the binary and the version check of the candidate.

  The files of the staging directory are a map from paths to contents. What the network, the archive readers, the
  operating system and the candidate answer are fields of \<open>stageEnv\<close>; SHA-256 and \<^verbatim>\<open>url.Parse\<close> are arguments in it.
\<close>

section \<open>Files\<close>

record stagingFS =
  sf_dirs :: "string list"
  sf_files :: "string \<rightharpoonup> byte list"

definition below :: "string \<Rightarrow> string \<Rightarrow> bool" where "below dir p \<longleftrightarrow> has_prefix p (dir @ ''/'')"

text \<open>\<^verbatim>\<open>filepath.Join\<close> of a clean directory and a name.\<close>

definition path_in :: "string \<Rightarrow> string \<Rightarrow> string" where "path_in dir name = dir @ ''/'' @ name"

text \<open>\<^verbatim>\<open>os.RemoveAll\<close>: if it fails, the directory stays with some of its files.\<close>

datatype removal = Removed | NotRemoved goerr "string \<Rightarrow> bool"

fun RemoveAll :: "removal \<Rightarrow> string \<Rightarrow> stagingFS \<Rightarrow> stagingFS \<times> goerr option" where
  "RemoveAll Removed dir fs =
     (fs\<lparr>sf_dirs := filter (\<lambda>d. d \<noteq> dir) (sf_dirs fs), sf_files := (\<lambda>p. if below dir p then None else sf_files fs p)\<rparr>, None)"
| "RemoveAll (NotRemoved e left) dir fs = (fs\<lparr>sf_files := (\<lambda>p. if below dir p \<and> \<not> left p then None else sf_files fs p)\<rparr>, Some e)"

definition put_file :: "string \<Rightarrow> byte list \<Rightarrow> stagingFS \<Rightarrow> stagingFS" where
  "put_file p data fs = fs\<lparr>sf_files := (sf_files fs)(p \<mapsto> data)\<rparr>"

section \<open>Surroundings\<close>

record downloadURL =
  du_Scheme :: string
  du_User :: bool
  du_Hostname :: string
  du_EscapedPath :: string

text \<open>An answer of the client: the addresses of the redirects it meets, its error or the last response.\<close>

record httpReply =
  hp_hops :: "string list"
  hp_err :: "goerr option"
  hp_status :: int
  hp_body :: "byte list"
  hp_readErr :: "goerr option"

record zipEntry =
  ze_Name :: string
  ze_IsDir :: bool
  ze_Size :: nat
  ze_openErr :: "goerr option"
  ze_content :: "byte list"
  ze_readErr :: "goerr option"

record tarEntry =
  te_Name :: string
  te_Regular :: bool
  te_Size :: int
  te_content :: "byte list"
  te_readErr :: "goerr option"

record stageEnv =
  sn_url :: "string \<Rightarrow> downloadURL option"
  sn_get :: "string \<Rightarrow> httpReply"
  sn_sha256 :: "byte list \<Rightarrow> byte list"
  sn_mkdir :: "goerr + string"
  sn_removeAll :: "string \<Rightarrow> removal"
  sn_create :: "string \<Rightarrow> goerr option"
  sn_write :: "string \<Rightarrow> goerr option"
  sn_sync :: "goerr option"
  sn_close :: "goerr option"
  sn_zip :: "byte list \<Rightarrow> goerr + zipEntry list"
  sn_tar :: "byte list \<Rightarrow> goerr + (tarEntry list \<times> goerr option)"
  sn_toSlash :: "string \<Rightarrow> string"
  sn_run :: "string \<Rightarrow> goerr + string"
  sn_goos :: string
  sn_goarch :: string

definition checksumsAssetName :: string where "checksumsAssetName = ''checksums.txt''"
definition maxChecksumsBytes :: nat where "maxChecksumsBytes = 2 * 2 ^ 20"
definition maxArchiveBytes :: nat where "maxArchiveBytes = 512 * 2 ^ 20"
definition maxCandidateBytes :: nat where "maxCandidateBytes = 256 * 2 ^ 20"

record Stager =
  sg_GOOS :: string
  sg_GOARCH :: string
  sg_ValidateURL :: "(string \<Rightarrow> bool \<Rightarrow> goerr option) option"
  sg_VerifyCandidate :: "(string \<Rightarrow> string \<Rightarrow> goerr option) option"
  sg_prior :: "(string \<Rightarrow> nat \<Rightarrow> goerr option) option"

record StagedCandidate =
  sc_Check :: CheckResult
  sc_AssetName :: string
  sc_ArchivePath :: string
  sc_BinaryPath :: string
  sc_SHA256 :: string
  sc_Dir :: string

definition Staged_Cleanup :: "stageEnv \<Rightarrow> StagedCandidate \<Rightarrow> stagingFS \<Rightarrow> stagingFS \<times> goerr option" where
  "Staged_Cleanup env s fs = (if trim_space (sc_Dir s) = [] then (fs, None) else RemoveAll (sn_removeAll env (sc_Dir s)) (sc_Dir s) fs)"

section \<open>Downloads\<close>

definition pinned_path :: string where "pinned_path = ''/khanhkit/pxgo/releases/download/''"

definition ValidateAssetURL :: "(string \<Rightarrow> downloadURL option) \<Rightarrow> string \<Rightarrow> goerr option" where
  "ValidateAssetURL url_Parse raw =
     (case url_Parse raw of
        None \<Rightarrow> Some (ErrMsg ''parse'')
      | Some u \<Rightarrow>
          if du_Scheme u \<noteq> ''https'' \<or> \<not> equal_fold (du_Hostname u) ''github.com'' then Some (ErrMsg ''release asset URL must use https://github.com'')
          else if \<not> has_prefix (du_EscapedPath u) pinned_path then Some (ErrMsg ''release asset URL is outside pinned repository'')
          else None)"

definition ValidateDownloadURL :: "(string \<Rightarrow> downloadURL option) \<Rightarrow> string \<Rightarrow> bool \<Rightarrow> goerr option" where
  "ValidateDownloadURL url_Parse raw redirect =
     (case url_Parse raw of
        None \<Rightarrow> Some (ErrMsg ''parse'')
      | Some u \<Rightarrow>
          if du_Scheme u \<noteq> ''https'' \<or> du_User u then Some (ErrMsg ''release download URL must use https without userinfo'')
          else
            let host = to_lower (du_Hostname u) in
            if host = ''github.com'' then
              (if \<not> has_prefix (du_EscapedPath u) pinned_path then Some (ErrMsg ''release download URL is outside pinned repository'') else None)
            else if redirect \<and> host \<in> set [''release-assets.githubusercontent.com'', ''objects.githubusercontent.com''] then None
            else Some (Wrapped host (ErrMsg ''release download host is not allowed'')))"

text \<open>The redirect check of the client; \<open>n\<close> counts the requests made so far.\<close>

fun clientWithRedirectValidation ::
  "(string \<Rightarrow> bool \<Rightarrow> goerr option) \<Rightarrow> (string \<Rightarrow> nat \<Rightarrow> goerr option) option \<Rightarrow> nat \<Rightarrow> string list \<Rightarrow> goerr option" where
  "clientWithRedirectValidation validator prior n [] = None"
| "clientWithRedirectValidation validator prior n (hop # hops) =
     (case validator hop True of
        Some e \<Rightarrow> Some e
      | None \<Rightarrow>
          if n \<ge> 10 then Some (ErrMsg ''too many redirects'')
          else case (case prior of None \<Rightarrow> None | Some f \<Rightarrow> f hop n) of
            Some e \<Rightarrow> Some e
          | None \<Rightarrow> clientWithRedirectValidation validator prior (n + 1) hops)"

text \<open>The part that both downloads share: the check of the address, the request, the status.\<close>

definition request_asset ::
  "stageEnv \<Rightarrow> (string \<Rightarrow> bool \<Rightarrow> goerr option) \<Rightarrow> (string \<Rightarrow> nat \<Rightarrow> goerr option) option \<Rightarrow> string \<Rightarrow> goerr + httpReply" where
  "request_asset env validator prior url =
     (case validator url False of
        Some e \<Rightarrow> Inl e
      | None \<Rightarrow>
          (let r = sn_get env url in
           case clientWithRedirectValidation validator prior 1 (hp_hops r) of
             Some e \<Rightarrow> Inl e
           | None \<Rightarrow>
               (case hp_err r of
                  Some e \<Rightarrow> Inl e
                | None \<Rightarrow> if hp_status r \<noteq> 200 then Inl (ErrMsg ''HTTP status'') else Inr r)))"

definition downloadBytes :: "stageEnv \<Rightarrow> (string \<Rightarrow> bool \<Rightarrow> goerr option) \<Rightarrow> (string \<Rightarrow> nat \<Rightarrow> goerr option) option \<Rightarrow> string \<Rightarrow> nat \<Rightarrow> goerr + byte list" where
  "downloadBytes env validator prior url limit =
     (case request_asset env validator prior url of
        Inl e \<Rightarrow> Inl e
      | Inr r \<Rightarrow>
          (case (if length (hp_body r) \<le> limit then hp_readErr r else None) of
             Some e \<Rightarrow> Inl e
           | None \<Rightarrow>
               let data = take (limit + 1) (hp_body r) in
               if length data > limit then Inl (ErrMsg ''download exceeds size limit'') else Inr data))"

definition downloadFile :: "stageEnv \<Rightarrow> (string \<Rightarrow> bool \<Rightarrow> goerr option) \<Rightarrow> (string \<Rightarrow> nat \<Rightarrow> goerr option) option \<Rightarrow> string \<Rightarrow> string \<Rightarrow> nat \<Rightarrow> stagingFS \<Rightarrow> stagingFS \<times> (goerr + string)" where
  "downloadFile env validator prior url path limit fs =
     (case request_asset env validator prior url of
        Inl e \<Rightarrow> (fs, Inl e)
      | Inr r \<Rightarrow>
          (case sn_create env path of
             Some e \<Rightarrow> (fs, Inl e)
           | None \<Rightarrow>
               let data = take (limit + 1) (hp_body r); fs = put_file path data fs in
               (case sn_write env path of
                  Some e \<Rightarrow> (fs, Inl e)
                | None \<Rightarrow>
                    (case (if length (hp_body r) \<le> limit then hp_readErr r else None) of
                       Some e \<Rightarrow> (fs, Inl e)
                     | None \<Rightarrow>
                         if length data > limit then (fs, Inl (ErrMsg ''download exceeds size limit''))
                         else case sn_sync env of Some e \<Rightarrow> (fs, Inl e) | None \<Rightarrow> (fs, Inr (hex_encode (sn_sha256 env data)))))))"

text \<open>\<^verbatim>\<open>bufio.Scanner\<close> with lines: a line of 65536 bytes or more ends the scan with an error.\<close>

definition drop_cr :: "string \<Rightarrow> string" where "drop_cr l = (if l \<noteq> [] \<and> last l = CHR 0x0D then butlast l else l)"

definition scan_lines :: "string \<Rightarrow> string list \<times> goerr option" where
  "scan_lines s =
     (let ls = split_on (CHR 0x0A) s; ls = (if last ls = [] then butlast ls else ls); good = takeWhile (\<lambda>l. length l < 65536) ls in
      (map drop_cr good, if length good < length ls then Some (ErrMsg ''bufio.Scanner: token too long'') else None))"

section \<open>Extraction\<close>

definition writeCandidate :: "stageEnv \<Rightarrow> string \<Rightarrow> byte list \<Rightarrow> goerr option \<Rightarrow> int \<Rightarrow> stagingFS \<Rightarrow> stagingFS \<times> goerr option" where
  "writeCandidate env destination source readErr expected fs =
     (case sn_create env destination of
        Some e \<Rightarrow> (fs, Some e)
      | None \<Rightarrow>
          let data = take (maxCandidateBytes + 1) source; fs = put_file destination data fs in
          (case sn_write env destination of
             Some e \<Rightarrow> (fs, Some e)
           | None \<Rightarrow>
               (case (if length source \<le> maxCandidateBytes then readErr else None) of
                  Some e \<Rightarrow> (fs, Some e)
                | None \<Rightarrow>
                    (case sn_close env of
                       Some e \<Rightarrow> (fs, Some e)
                     | None \<Rightarrow>
                         if length data > maxCandidateBytes \<or> int (length data) \<noteq> expected then (fs, Some (ErrMsg ''candidate binary size mismatch''))
                         else (fs, None)))))"

fun zip_match :: "(string \<Rightarrow> string) \<Rightarrow> string \<Rightarrow> zipEntry list \<Rightarrow> zipEntry option \<Rightarrow> goerr + zipEntry option" where
  "zip_match toSlash name [] match = Inr match"
| "zip_match toSlash name (e # es) match =
     (if toSlash (ze_Name e) \<noteq> name then zip_match toSlash name es match
      else if match \<noteq> None then Inl (ErrMsg ''release archive contains duplicate candidate binary'')
      else zip_match toSlash name es (Some e))"

definition extractZipCandidate :: "stageEnv \<Rightarrow> byte list \<Rightarrow> string \<Rightarrow> string \<Rightarrow> stagingFS \<Rightarrow> stagingFS \<times> goerr option" where
  "extractZipCandidate env archive binaryName destination fs =
     (case sn_zip env archive of
        Inl e \<Rightarrow> (fs, Some e)
      | Inr entries \<Rightarrow>
          (case zip_match (sn_toSlash env) binaryName entries None of
             Inl e \<Rightarrow> (fs, Some e)
           | Inr None \<Rightarrow> (fs, Some (ErrMsg ''release archive does not contain candidate binary''))
           | Inr (Some m) \<Rightarrow>
               if ze_IsDir m \<or> ze_Size m > maxCandidateBytes then (fs, Some (ErrMsg ''candidate binary entry is invalid''))
               else case ze_openErr m of
                 Some e \<Rightarrow> (fs, Some e)
               | None \<Rightarrow> writeCandidate env destination (ze_content m) (ze_readErr m) (int (ze_Size m)) fs))"

fun tar_loop :: "stageEnv \<Rightarrow> string \<Rightarrow> string \<Rightarrow> goerr option \<Rightarrow> tarEntry list \<Rightarrow> bool \<Rightarrow> stagingFS \<Rightarrow> stagingFS \<times> goerr option" where
  "tar_loop env binaryName destination endErr [] found fs =
     (case endErr of
        Some e \<Rightarrow> (fs, Some e)
      | None \<Rightarrow> if \<not> found then (fs, Some (ErrMsg ''release archive does not contain candidate binary'')) else (fs, None))"
| "tar_loop env binaryName destination endErr (e # es) found fs =
     (if sn_toSlash env (te_Name e) \<noteq> binaryName then tar_loop env binaryName destination endErr es found fs
      else if found then (fs, Some (ErrMsg ''release archive contains duplicate candidate binary''))
      else if \<not> te_Regular e \<or> te_Size e < 0 \<or> te_Size e > int maxCandidateBytes then (fs, Some (ErrMsg ''candidate binary entry is invalid''))
      else case writeCandidate env destination (te_content e) (te_readErr e) (te_Size e) fs of
        (fs, Some err) \<Rightarrow> (fs, Some err)
      | (fs, None) \<Rightarrow> tar_loop env binaryName destination endErr es True fs)"

definition extractTarCandidate :: "stageEnv \<Rightarrow> byte list \<Rightarrow> string \<Rightarrow> string \<Rightarrow> stagingFS \<Rightarrow> stagingFS \<times> goerr option" where
  "extractTarCandidate env archive binaryName destination fs =
     (case sn_tar env archive of
        Inl e \<Rightarrow> (fs, Some e)
      | Inr (entries, endErr) \<Rightarrow> tar_loop env binaryName destination endErr entries False fs)"

text \<open>A file that is gone counts as an error of the open call.\<close>

definition extractCandidate :: "stageEnv \<Rightarrow> string \<Rightarrow> string \<Rightarrow> string \<Rightarrow> string \<Rightarrow> stagingFS \<Rightarrow> stagingFS \<times> goerr option" where
  "extractCandidate env archivePath assetName binaryName destination fs =
     (case sf_files fs archivePath of
        None \<Rightarrow> (fs, Some (ErrMsg ''open archive''))
      | Some archive \<Rightarrow>
          if has_suffix assetName ''.zip'' then extractZipCandidate env archive binaryName destination fs
          else if has_suffix assetName ''.tar.gz'' then extractTarCandidate env archive binaryName destination fs
          else (fs, Some (Wrapped assetName (ErrMsg ''unsupported release archive''))))"

definition verifyCandidateVersion :: "(string \<Rightarrow> goerr + string) \<Rightarrow> string \<Rightarrow> string \<Rightarrow> goerr option" where
  "verifyCandidateVersion run path want =
     (case run path of
        Inl e \<Rightarrow> Some (Wrapped ''candidate version check'' e)
      | Inr output \<Rightarrow>
          (case normalizeVersion (trim_space output) of
             Inl e \<Rightarrow> Some (Wrapped ''candidate version output'' e)
           | Inr got \<Rightarrow>
               (case normalizeVersion want of
                  Inl e \<Rightarrow> Some e
                | Inr wantVersion \<Rightarrow>
                    if got \<noteq> wantVersion then Some (Wrapped got (ErrMsg ''candidate version does not match release'')) else None)))"

section \<open>Staging\<close>

definition exactAsset :: "Asset list \<Rightarrow> string \<Rightarrow> goerr + Asset" where
  "exactAsset assets name =
     (case filter (\<lambda>a. as_Name a = name) assets of
        [] \<Rightarrow> Inl (Wrapped name (ErrMsg ''release asset not found''))
      | [a] \<Rightarrow> Inr a
      | _ \<Rightarrow> Inl (Wrapped name (ErrMsg ''release asset is ambiguous'')))"

text \<open>The digest of the asset in the release against the checksum of its file.\<close>

definition digest_agrees :: "string \<Rightarrow> string \<Rightarrow> goerr option" where
  "digest_agrees digest checksum =
     (if digest = [] then None
      else
        let d = to_lower (trim_space digest) in
        if \<not> has_prefix d ''sha256:'' then Some (ErrMsg ''release asset digest is not sha256'')
        else if \<not> equal_fold (trim_prefix d ''sha256:'') checksum then Some (ErrMsg ''release asset digest disagrees with checksums.txt'')
        else None)"

definition binary_name :: "string \<Rightarrow> string" where
  "binary_name goos = (if goos = goosWindows then windowsExecutableName else productName)"

text \<open>What happens in the staging directory, before the deferred cleanup.\<close>

definition stage_in :: "stageEnv \<Rightarrow> Stager \<Rightarrow> (string \<Rightarrow> bool \<Rightarrow> goerr option) \<Rightarrow> string \<Rightarrow> string \<Rightarrow> CheckResult \<Rightarrow> Asset \<Rightarrow> string \<Rightarrow> string \<Rightarrow> stagingFS
    \<Rightarrow> stagingFS \<times> (goerr + StagedCandidate)" where
  "stage_in env sg validator goos goarch check asset checksum dir fs =
     (let assetName = AssetName goos goarch; archivePath = path_in dir assetName in
      case downloadFile env validator (sg_prior sg) (as_URL asset) archivePath maxArchiveBytes fs of
        (fs, Inl e) \<Rightarrow> (fs, Inl (Wrapped ''download candidate'' e))
      | (fs, Inr archiveSHA) \<Rightarrow>
          if \<not> equal_fold archiveSHA checksum then (fs, Inl (ErrMsg ''candidate sha256 does not match checksums.txt''))
          else if as_Digest asset \<noteq> [] \<and> \<not> equal_fold (''sha256:'' @ archiveSHA) (trim_space (as_Digest asset))
          then (fs, Inl (ErrMsg ''candidate sha256 does not match release asset digest''))
          else
            let binaryName = binary_name goos; binaryPath = path_in dir binaryName in
            (case extractCandidate env archivePath assetName binaryName binaryPath fs of
               (fs, Some e) \<Rightarrow> (fs, Inl e)
             | (fs, None) \<Rightarrow>
                 (case (if goos = sn_goos env \<and> goarch = sn_goarch env
                        then (case sg_VerifyCandidate sg of Some f \<Rightarrow> f | None \<Rightarrow> verifyCandidateVersion (sn_run env)) binaryPath (ck_Latest check)
                        else None) of
                    Some e \<Rightarrow> (fs, Inl e)
                  | None \<Rightarrow> (fs, Inr \<lparr>sc_Check = check, sc_AssetName = assetName, sc_ArchivePath = archivePath, sc_BinaryPath = binaryPath,
                                    sc_SHA256 = archiveSHA, sc_Dir = dir\<rparr>))))"

text \<open>The candidate that the deferred function cleans up when staging fails.\<close>

definition empty_staged :: "CheckResult \<Rightarrow> string \<Rightarrow> string \<Rightarrow> StagedCandidate" where
  "empty_staged check assetName dir =
     \<lparr>sc_Check = check, sc_AssetName = assetName, sc_ArchivePath = [], sc_BinaryPath = [], sc_SHA256 = [], sc_Dir = dir\<rparr>"

definition StageCheck :: "stageEnv \<Rightarrow> Stager \<Rightarrow> CheckResult \<Rightarrow> stagingFS \<Rightarrow> stagingFS \<times> (goerr + StagedCandidate)" where
  "StageCheck env sg check fs =
     (if \<not> ck_Available check then (fs, Inl (ErrMsg ''no update available''))
      else
        let goos = (if sg_GOOS sg = [] then sn_goos env else sg_GOOS sg); goarch = (if sg_GOARCH sg = [] then sn_goarch env else sg_GOARCH sg);
            assetName = AssetName goos goarch in
        case exactAsset (rl_Assets (ck_Release check)) assetName of
          Inl e \<Rightarrow> (fs, Inl e)
        | Inr asset \<Rightarrow>
            (case exactAsset (rl_Assets (ck_Release check)) checksumsAssetName of
               Inl e \<Rightarrow> (fs, Inl e)
             | Inr checksumsAsset \<Rightarrow>
                 let validator = (case sg_ValidateURL sg of Some v \<Rightarrow> v | None \<Rightarrow> ValidateDownloadURL (sn_url env)) in
                 (case downloadBytes env validator (sg_prior sg) (as_URL checksumsAsset) maxChecksumsBytes of
                    Inl e \<Rightarrow> (fs, Inl (Wrapped ''download checksums'' e))
                  | Inr checksums \<Rightarrow>
                      (case (case scan_lines (str_of checksums) of (lines, scanErr) \<Rightarrow> ChecksumForAsset lines scanErr assetName) of
                         Inl e \<Rightarrow> (fs, Inl e)
                       | Inr checksum \<Rightarrow>
                           (case digest_agrees (as_Digest asset) checksum of
                              Some e \<Rightarrow> (fs, Inl e)
                            | None \<Rightarrow>
                                (case sn_mkdir env of
                                   Inl e \<Rightarrow> (fs, Inl e)
                                 | Inr dir \<Rightarrow>
                                     (case stage_in env sg validator goos goarch check asset checksum dir (fs\<lparr>sf_dirs := dir # sf_dirs fs\<rparr>) of
                                        (fs, Inl e) \<Rightarrow> (fst (Staged_Cleanup env (empty_staged check assetName dir) fs), Inl e)
                                      | (fs, Inr staged) \<Rightarrow> (fs, Inr staged))))))))"

definition Stage :: "stageEnv \<Rightarrow> releaseAPI \<Rightarrow> Checker \<Rightarrow> Stager \<Rightarrow> string \<Rightarrow> stagingFS \<Rightarrow> stagingFS \<times> (goerr + StagedCandidate)" where
  "Stage env api checker sg current fs =
     (case Checker_Check api checker current of Inl e \<Rightarrow> (fs, Inl e) | Inr check \<Rightarrow> StageCheck env sg check fs)"

section \<open>A failed staging leaves nothing\<close>

text \<open>Changes that stay inside a directory.\<close>

definition inside :: "string \<Rightarrow> stagingFS \<Rightarrow> stagingFS \<Rightarrow> bool" where
  "inside dir fs fs' \<longleftrightarrow> sf_dirs fs' = sf_dirs fs \<and> (\<forall>p. \<not> below dir p \<longrightarrow> sf_files fs' p = sf_files fs p)"

lemma inside_refl [simp]: "inside dir fs fs" by (simp add: inside_def)

lemma inside_trans: "inside dir fs fs' \<Longrightarrow> inside dir fs' fs'' \<Longrightarrow> inside dir fs fs''" by (simp add: inside_def)

lemma below_path_in [simp]: "below dir (path_in dir name)"
  by (simp add: below_def has_prefix_def path_in_def)

lemma inside_put: "below dir p \<Longrightarrow> inside dir fs (put_file p data fs)" by (auto simp: inside_def put_file_def)

lemma inside_download: "below dir path \<Longrightarrow> inside dir fs (fst (downloadFile env validator prior url path limit fs))"
  by (auto simp: downloadFile_def Let_def inside_put split: sum.split option.split)

lemma inside_write: "below dir path \<Longrightarrow> inside dir fs (fst (writeCandidate env path source readErr expected fs))"
  by (auto simp: writeCandidate_def Let_def inside_put split: option.split)

lemma inside_tar: "below dir path \<Longrightarrow> inside dir fs (fst (tar_loop env name path endErr es found fs))"
proof (induction env name path endErr es found fs rule: tar_loop.induct)
  case (2 env name path endErr e es found fs)
  have "inside dir fs (fst (writeCandidate env path (te_content e) (te_readErr e) (te_Size e) fs))"
    by (rule inside_write [OF 2(3)])
  with 2 show ?case by (auto split: prod.splits option.splits intro: inside_trans)
qed (auto split: option.split)

lemma inside_extract: "below dir path \<Longrightarrow> inside dir fs (fst (extractCandidate env archivePath assetName name path fs))"
  by (auto simp: extractCandidate_def extractZipCandidate_def extractTarCandidate_def inside_write inside_tar split: option.split sum.split prod.split)

lemma inside_stage: "inside dir fs (fst (stage_in env sg validator goos goarch check asset checksum dir fs))"
proof -
  let ?path = "path_in dir (AssetName goos goarch)" and ?name = "binary_name goos"
  obtain fs1 r where d: "downloadFile env validator (sg_prior sg) (as_URL asset) ?path maxArchiveBytes fs = (fs1, r)" by fastforce
  have i1: "inside dir fs fs1"
    using inside_download [of dir ?path fs env validator "sg_prior sg" "as_URL asset" maxArchiveBytes] d by simp
  obtain fs2 e where x: "extractCandidate env ?path (AssetName goos goarch) ?name (path_in dir ?name) fs1 = (fs2, e)" by fastforce
  have i2: "inside dir fs fs2"
    using inside_extract [of dir "path_in dir ?name" fs1 env ?path "AssetName goos goarch" ?name] x inside_trans [OF i1] by simp
  show ?thesis
    using d x i1 i2 by (auto simp: stage_in_def Let_def split: sum.split option.split)
qed

text \<open>\<^verbatim>\<open>os.MkdirTemp\<close> makes a directory that was not there.\<close>

definition fresh_dir :: "stageEnv \<Rightarrow> stagingFS \<Rightarrow> bool" where
  "fresh_dir env fs \<longleftrightarrow>
     (\<forall>dir. sn_mkdir env = Inr dir \<longrightarrow> trim_space dir \<noteq> [] \<and> dir \<notin> set (sf_dirs fs) \<and> (\<forall>p. below dir p \<longrightarrow> sf_files fs p = None))"

lemma remove_fresh:
  assumes "inside dir (fs\<lparr>sf_dirs := dir # sf_dirs fs\<rparr>) fs'" "dir \<notin> set (sf_dirs fs)" "\<forall>p. below dir p \<longrightarrow> sf_files fs p = None"
  shows "RemoveAll Removed dir fs' = (fs, None)"
proof -
  have "filter (\<lambda>d. d \<noteq> dir) (sf_dirs fs) = sf_dirs fs" using assms(2) by (auto simp: filter_id_conv)
  moreover have "(\<lambda>p. if below dir p then None else sf_files fs' p) = sf_files fs" using assms(1, 3) by (auto simp: inside_def)
  ultimately show ?thesis using assms(1) by (simp add: inside_def)
qed

text \<open>A staging that fails leaves the files as they were, unless its directory could not be removed.\<close>

lemma failed_stage:
  assumes "StageCheck env sg check fs = (fs', Inl e)" "fresh_dir env fs"
  shows "fs' = fs \<or> (\<exists>dir. sn_mkdir env = Inr dir \<and> sn_removeAll env dir \<noteq> Removed \<and> set (sf_dirs fs') \<subseteq> insert dir (set (sf_dirs fs)))"
proof (cases "fs' = fs")
  case False
  then obtain dir fs1 validator asset checksum where dir: "sn_mkdir env = Inr dir"
    and st: "\<exists>goos goarch. fst (stage_in env sg validator goos goarch check asset checksum dir (fs\<lparr>sf_dirs := dir # sf_dirs fs\<rparr>)) = fs1"
    and out: "\<exists>assetName. fs' = fst (Staged_Cleanup env (empty_staged check assetName dir) fs1)"
    using assms(1) by (auto simp: StageCheck_def Let_def split: if_splits sum.splits option.splits prod.splits) (metis fst_conv)+
  have ins: "inside dir (fs\<lparr>sf_dirs := dir # sf_dirs fs\<rparr>) fs1" using st inside_stage by blast
  have t: "trim_space dir \<noteq> []" "dir \<notin> set (sf_dirs fs)" "\<forall>p. below dir p \<longrightarrow> sf_files fs p = None" using assms(2) dir by (auto simp: fresh_dir_def)
  with out have f: "fs' = fst (RemoveAll (sn_removeAll env dir) dir fs1)" by (auto simp: Staged_Cleanup_def empty_staged_def)
  show ?thesis
  proof (cases "sn_removeAll env dir")
    case Removed
    with f remove_fresh [OF ins t(2, 3)] False show ?thesis by simp
  next
    case (NotRemoved e left)
    with f dir ins show ?thesis by (auto simp: inside_def)
  qed
qed simp

section \<open>What a staged candidate is\<close>

text \<open>The specification. An address is pinned to the repository, or, for a redirect, to the stores of its host.\<close>

definition pinned_url :: "stageEnv \<Rightarrow> bool \<Rightarrow> string \<Rightarrow> bool" where
  "pinned_url env redirect url \<longleftrightarrow>
     (\<exists>u. sn_url env url = Some u \<and> du_Scheme u = ''https'' \<and> \<not> du_User u
        \<and> (to_lower (du_Hostname u) = ''github.com'' \<and> has_prefix (du_EscapedPath u) pinned_path
           \<or> redirect \<and> to_lower (du_Hostname u) \<in> {''release-assets.githubusercontent.com'', ''objects.githubusercontent.com''}))"

definition pinned_source :: "stageEnv \<Rightarrow> string \<Rightarrow> bool" where
  "pinned_source env url \<longleftrightarrow> pinned_url env False url \<and> (\<forall>hop \<in> set (hp_hops (sn_get env url)). pinned_url env True hop)"

text \<open>The checksums give exactly one digest for a name.\<close>

definition names_asset :: "string \<Rightarrow> string \<Rightarrow> bool" where
  "names_asset name line \<longleftrightarrow> (case str_fields line of [_, n] \<Rightarrow> trim_prefix n ''*'' = name | _ \<Rightarrow> False)"

definition listed_digest :: "string list \<Rightarrow> string \<Rightarrow> string \<Rightarrow> bool" where
  "listed_digest lines name digest \<longleftrightarrow>
     (\<exists>line d n. filter (names_asset name) lines = [line] \<and> str_fields line = [d, n] \<and> hex_ok d \<and> length d = 64 \<and> to_lower d = digest)"

definition only_binary :: "stageEnv \<Rightarrow> string \<Rightarrow> byte list \<Rightarrow> string \<Rightarrow> byte list \<Rightarrow> bool" where
  "only_binary env assetName archive name content \<longleftrightarrow> length content \<le> maxCandidateBytes \<and>
     (if has_suffix assetName ''.zip''
      then \<exists>es m. sn_zip env archive = Inr es \<and> filter (\<lambda>e. sn_toSlash env (ze_Name e) = name) es = [m] \<and> \<not> ze_IsDir m \<and> ze_content m = content
      else \<exists>es m. sn_tar env archive = Inr (es, None) \<and> filter (\<lambda>e. sn_toSlash env (te_Name e) = name) es = [m] \<and> te_Regular m \<and> te_content m = content)"

lemma validated_pinned: "ValidateDownloadURL (sn_url env) url redirect = None \<longleftrightarrow> pinned_url env redirect url"
  by (auto simp: ValidateDownloadURL_def pinned_url_def Let_def split: option.splits if_splits)

lemma hops_validated: "clientWithRedirectValidation validator prior n hops = None \<Longrightarrow> hop \<in> set hops \<Longrightarrow> validator hop True = None"
  by (induction hops arbitrary: n) (auto split: option.splits if_splits)

lemma requested:
  assumes "request_asset env (ValidateDownloadURL (sn_url env)) prior url = Inr r"
  shows "pinned_source env url \<and> r = sn_get env url \<and> hp_status r = 200"
  using assms hops_validated [of "ValidateDownloadURL (sn_url env)" prior 1 "hp_hops r"]
  by (auto simp: request_asset_def Let_def pinned_source_def validated_pinned split: option.splits if_splits)

lemma downloaded_bytes:
  assumes "downloadBytes env (ValidateDownloadURL (sn_url env)) prior url limit = Inr data"
  shows "pinned_source env url \<and> data = hp_body (sn_get env url) \<and> length data \<le> limit"
proof -
  obtain r where r: "request_asset env (ValidateDownloadURL (sn_url env)) prior url = Inr r"
    using assms by (auto simp: downloadBytes_def split: sum.splits)
  with assms requested [OF r] show ?thesis by (auto simp: downloadBytes_def Let_def split: option.splits if_splits)
qed

lemma downloaded_file:
  assumes "downloadFile env (ValidateDownloadURL (sn_url env)) prior url path limit fs = (fs', Inr sha)"
  shows "pinned_source env url \<and> fs' = put_file path (hp_body (sn_get env url)) fs
    \<and> length (hp_body (sn_get env url)) \<le> limit \<and> sha = hex_encode (sn_sha256 env (hp_body (sn_get env url)))"
proof -
  obtain r where r: "request_asset env (ValidateDownloadURL (sn_url env)) prior url = Inr r"
    using assms by (auto simp: downloadFile_def split: sum.splits)
  with assms requested [OF r] show ?thesis by (auto simp: downloadFile_def Let_def split: option.splits if_splits)
qed

lemma checksum_line:
  "checksum_loop lines name match = Inr m \<Longrightarrow>
     (if match \<noteq> [] then m = match \<and> filter (names_asset name) lines = []
      else (m = [] \<and> filter (names_asset name) lines = []) \<or> listed_digest lines name m)"
proof (induction lines arbitrary: match)
  case (Cons line lines)
  show ?case
  proof (cases "names_asset name line")
    case False
    then have "checksum_loop (line # lines) name match = checksum_loop lines name match"
      by (auto simp: names_asset_def split: list.split)
    with Cons.IH [of match] Cons.prems False show ?thesis by (auto simp: listed_digest_def split: if_splits)
  next
    case True
    then obtain d n where f: "str_fields line = [d, n]" "trim_prefix n ''*'' = name"
      by (auto simp: names_asset_def split: list.splits)
    with Cons.prems have ok: "match = []" "length d = 64" "hex_ok d" and rest: "checksum_loop lines name (to_lower d) = Inr m"
      by (auto split: if_splits)
    have "to_lower d \<noteq> []" using ok(2) by (auto simp: to_lower_def)
    with Cons.IH [OF rest] have "m = to_lower d \<and> filter (names_asset name) lines = []" by auto
    with True ok f show ?thesis by (auto simp: listed_digest_def)
  qed
qed simp

lemma checksum_listed:
  "ChecksumForAsset lines scanErr name = Inr m \<Longrightarrow> listed_digest lines name m \<and> scanErr = None"
  using checksum_line [of lines name "[]" m] by (auto simp: ChecksumForAsset_def split: sum.splits option.splits if_splits)

lemma written:
  "writeCandidate env p source readErr expected fs = (fs', None)
     \<Longrightarrow> fs' = put_file p source fs \<and> length source \<le> maxCandidateBytes"
  by (auto simp: writeCandidate_def Let_def split: option.splits if_splits)

lemma zip_matched:
  "zip_match f name es match = Inr (Some m) \<Longrightarrow>
     (case match of None \<Rightarrow> filter (\<lambda>e. f (ze_Name e) = name) es = [m] | Some x \<Rightarrow> m = x \<and> filter (\<lambda>e. f (ze_Name e) = name) es = [])"
  by (induction f name es match rule: zip_match.induct) (auto split: if_splits option.splits)

lemma tar_matched:
  "tar_loop env name p endErr es found fs = (fs', None) \<Longrightarrow>
     endErr = None
     \<and> (if found then fs' = fs \<and> filter (\<lambda>e. sn_toSlash env (te_Name e) = name) es = []
        else \<exists>m. filter (\<lambda>e. sn_toSlash env (te_Name e) = name) es = [m] \<and> te_Regular m \<and> fs' = put_file p (te_content m) fs
               \<and> length (te_content m) \<le> maxCandidateBytes)"
proof (induction env name p endErr es found fs rule: tar_loop.induct)
  case (2 env name p endErr e es found fs)
  show ?case
  proof (cases "sn_toSlash env (te_Name e) = name")
    case False
    with 2 show ?thesis by auto
  next
    case True
    with "2.prems" have nf: "\<not> found" "te_Regular e" by (auto split: if_splits)
    obtain fs1 where w: "writeCandidate env p (te_content e) (te_readErr e) (te_Size e) fs = (fs1, None)"
      and rest: "tar_loop env name p endErr es True fs1 = (fs', None)"
      using "2.prems" True nf by (auto split: if_splits prod.splits option.splits)
    with "2.IH"(2) [of fs1 None] "2.prems" True nf written [OF w] show ?thesis by (auto split: if_splits)
  qed
qed (auto split: option.splits if_splits)

lemma extracted:
  assumes "extractCandidate env ap assetName name p fs = (fs', None)" "sf_files fs ap = Some archive"
  shows "\<exists>content. fs' = put_file p content fs \<and> only_binary env assetName archive name content"
proof (cases "has_suffix assetName ''.zip''")
  case True
  with assms obtain es m where "sn_zip env archive = Inr es" "zip_match (sn_toSlash env) name es None = Inr (Some m)" "\<not> ze_IsDir m"
    "writeCandidate env p (ze_content m) (ze_readErr m) (int (ze_Size m)) fs = (fs', None)"
    by (auto simp: extractCandidate_def extractZipCandidate_def split: sum.splits option.splits if_splits)
  with True show ?thesis using written zip_matched [of "sn_toSlash env" name es None m] by (auto simp: only_binary_def)
next
  case False
  with assms obtain es endErr where "sn_tar env archive = Inr (es, endErr)" "tar_loop env name p endErr es False fs = (fs', None)"
    by (auto simp: extractCandidate_def extractTarCandidate_def split: sum.splits if_splits)
  with False show ?thesis using tar_matched [of env name p endErr es False fs fs'] by (auto simp: only_binary_def)
qed

lemma exact_asset: "exactAsset assets name = Inr a \<Longrightarrow> filter (\<lambda>a. as_Name a = name) assets = [a]"
  by (auto simp: exactAsset_def split: list.splits)

lemma archive_not_binary: "path_in dir (AssetName goos goarch) \<noteq> path_in dir (binary_name goos)"
  by (simp add: path_in_def AssetName_def binary_name_def windowsExecutableName_def productName_def)

lemma staged_in:
  assumes "stage_in env sg (ValidateDownloadURL (sn_url env)) goos goarch check asset checksum dir fs = (fs', Inr staged)"
  defines "archive \<equiv> hp_body (sn_get env (as_URL asset))"
  shows "pinned_source env (as_URL asset) \<and> equal_fold (hex_encode (sn_sha256 env archive)) checksum \<and> sc_AssetName staged = AssetName goos goarch
    \<and> sc_Dir staged = dir \<and> sc_SHA256 staged = hex_encode (sn_sha256 env archive)
    \<and> sf_files fs' (sc_ArchivePath staged) = Some archive
    \<and> (\<exists>binary. sf_files fs' (sc_BinaryPath staged) = Some binary \<and> only_binary env (AssetName goos goarch) archive (binary_name goos) binary)
    \<and> (goos = sn_goos env \<and> goarch = sn_goarch env \<and> sg_VerifyCandidate sg = None
       \<longrightarrow> verifyCandidateVersion (sn_run env) (sc_BinaryPath staged) (ck_Latest check) = None)"
proof -
  let ?path = "path_in dir (AssetName goos goarch)" and ?name = "binary_name goos"
  obtain fs1 sha where d: "downloadFile env (ValidateDownloadURL (sn_url env)) (sg_prior sg) (as_URL asset) ?path maxArchiveBytes fs = (fs1, Inr sha)"
    using assms(1) by (auto simp: stage_in_def Let_def split: prod.splits sum.splits)
  note stored = downloaded_file [OF d, folded archive_def]
  from assms(1) d stored obtain fs2 where x: "extractCandidate env ?path (AssetName goos goarch) ?name (path_in dir ?name) fs1 = (fs2, None)"
    and st: "fs' = fs2" "equal_fold sha checksum"
      "staged = \<lparr>sc_Check = check, sc_AssetName = AssetName goos goarch, sc_ArchivePath = ?path, sc_BinaryPath = path_in dir ?name, sc_SHA256 = sha, sc_Dir = dir\<rparr>"
    and v: "(if goos = sn_goos env \<and> goarch = sn_goarch env
      then (case sg_VerifyCandidate sg of Some f \<Rightarrow> f | None \<Rightarrow> verifyCandidateVersion (sn_run env)) (path_in dir ?name) (ck_Latest check) else None) = None"
    by (auto simp: stage_in_def Let_def split: prod.splits option.splits if_splits)
  have "sf_files fs1 ?path = Some archive" using stored by (simp add: put_file_def)
  from extracted [OF x this] obtain binary where b: "fs2 = put_file (path_in dir ?name) binary fs1"
    "only_binary env (AssetName goos goarch) archive ?name binary" by blast
  show ?thesis using stored st v b archive_not_binary [of dir goos goarch] by (auto simp: put_file_def split: if_splits)
qed

text \<open>Archive and binary of a release for a platform.\<close>

definition authentic :: "stageEnv \<Rightarrow> Asset list \<Rightarrow> string \<Rightarrow> string \<Rightarrow> byte list \<Rightarrow> byte list \<Rightarrow> bool" where
  "authentic env assets goos goarch archive binary \<longleftrightarrow>
     (\<exists>asset sums.
        filter (\<lambda>a. as_Name a = AssetName goos goarch) assets = [asset] \<and> filter (\<lambda>a. as_Name a = checksumsAssetName) assets = [sums]
        \<and> pinned_source env (as_URL asset) \<and> pinned_source env (as_URL sums) \<and> archive = hp_body (sn_get env (as_URL asset))
        \<and> listed_digest (fst (scan_lines (str_of (hp_body (sn_get env (as_URL sums)))))) (AssetName goos goarch) (to_lower (hex_encode (sn_sha256 env archive)))
        \<and> only_binary env (AssetName goos goarch) archive (binary_name goos) binary)"

definition stage_goos :: "stageEnv \<Rightarrow> Stager \<Rightarrow> string" where
  "stage_goos env sg = (if sg_GOOS sg = [] then sn_goos env else sg_GOOS sg)"

definition stage_goarch :: "stageEnv \<Rightarrow> Stager \<Rightarrow> string" where
  "stage_goarch env sg = (if sg_GOARCH sg = [] then sn_goarch env else sg_GOARCH sg)"

lemma stage_facts:
  assumes "StageCheck env sg check fs = (fs', Inr staged)" "sg_ValidateURL sg = None"
  defines "goos \<equiv> stage_goos env sg" and "goarch \<equiv> stage_goarch env sg"
  shows "ck_Available check"
    "\<exists>archive binary. authentic env (rl_Assets (ck_Release check)) goos goarch archive binary
       \<and> sf_files fs' (sc_ArchivePath staged) = Some archive \<and> sf_files fs' (sc_BinaryPath staged) = Some binary"
    "goos = sn_goos env \<and> goarch = sn_goarch env \<and> sg_VerifyCandidate sg = None
       \<longrightarrow> verifyCandidateVersion (sn_run env) (sc_BinaryPath staged) (ck_Latest check) = None"
proof -
  obtain asset sums checksums checksum dir where
    a: "exactAsset (rl_Assets (ck_Release check)) (AssetName goos goarch) = Inr asset"
    and c: "exactAsset (rl_Assets (ck_Release check)) checksumsAssetName = Inr sums"
    and d: "downloadBytes env (ValidateDownloadURL (sn_url env)) (sg_prior sg) (as_URL sums) maxChecksumsBytes = Inr checksums"
    and s: "ChecksumForAsset (fst (scan_lines (str_of checksums))) (snd (scan_lines (str_of checksums))) (AssetName goos goarch) = Inr checksum"
    and av: "ck_Available check"
    and st: "stage_in env sg (ValidateDownloadURL (sn_url env)) goos goarch check asset checksum dir (fs\<lparr>sf_dirs := dir # sf_dirs fs\<rparr>) = (fs', Inr staged)"
    using assms(1, 2) by (auto simp: StageCheck_def Let_def goos_def goarch_def stage_goos_def stage_goarch_def split: if_splits sum.splits option.splits prod.splits)
  note bytes = downloaded_bytes [OF d] and listed = checksum_listed [OF s] and staged = staged_in [OF st]
  have "to_lower checksum = checksum" using listed by (auto simp: listed_digest_def)
  with staged have "checksum = to_lower (hex_encode (sn_sha256 env (hp_body (sn_get env (as_URL asset)))))" by (simp add: equal_fold_def)
  with exact_asset [OF a] exact_asset [OF c] bytes listed staged
  show "\<exists>archive binary. authentic env (rl_Assets (ck_Release check)) goos goarch archive binary
       \<and> sf_files fs' (sc_ArchivePath staged) = Some archive \<and> sf_files fs' (sc_BinaryPath staged) = Some binary"
    unfolding authentic_def by blast
  show "ck_Available check" by (rule av)
  show "goos = sn_goos env \<and> goarch = sn_goarch env \<and> sg_VerifyCandidate sg = None
       \<longrightarrow> verifyCandidateVersion (sn_run env) (sc_BinaryPath staged) (ck_Latest check) = None" using staged by simp
qed

lemma stage_place:
  assumes "StageCheck env sg check fs = (fs', Inr staged)"
  shows "sn_mkdir env = Inr (sc_Dir staged) \<and> below (sc_Dir staged) (sc_BinaryPath staged) \<and> sf_dirs fs' = sc_Dir staged # sf_dirs fs"
proof -
  obtain validator goos goarch asset checksum dir where m: "sn_mkdir env = Inr dir"
    and st: "stage_in env sg validator goos goarch check asset checksum dir (fs\<lparr>sf_dirs := dir # sf_dirs fs\<rparr>) = (fs', Inr staged)"
    using assms by (auto simp: StageCheck_def Let_def split: if_splits sum.splits option.splits prod.splits)
  have "sc_Dir staged = dir \<and> below dir (sc_BinaryPath staged)"
    using st by (auto simp: stage_in_def Let_def split: prod.splits sum.splits option.splits if_splits)
  moreover have "sf_dirs fs' = dir # sf_dirs fs"
    using inside_stage [of dir "fs\<lparr>sf_dirs := dir # sf_dirs fs\<rparr>" env sg validator goos goarch check asset checksum] st by (simp add: inside_def)
  ultimately show ?thesis using m by simp
qed

section \<open>Properties\<close>

text \<open>C22: Only an authentic candidate is staged. With the built-in check of addresses, staging succeeds only for an
  available update; exactly one asset of the release has the name for the platform and exactly one is the file of
  checksums; both are fetched from the pinned repository, through pinned redirects only; the file of checksums has
  exactly one digest for the asset and it is the SHA-256 of the archive that was fetched and stored; the binary is
  stored as the only entry of its name in that archive; and on the own platform the candidate itself says that it has
  the version of the release.\<close>

theorem staged_candidate_authentic:
  assumes "StageCheck env sg check fs = (fs', Inr staged)" "sg_ValidateURL sg = None"
  defines "goos \<equiv> stage_goos env sg" and "goarch \<equiv> stage_goarch env sg"
  shows "ck_Available check
    \<and> (\<exists>asset sums archive binary.
         filter (\<lambda>a. as_Name a = AssetName goos goarch) (rl_Assets (ck_Release check)) = [asset]
         \<and> filter (\<lambda>a. as_Name a = checksumsAssetName) (rl_Assets (ck_Release check)) = [sums]
         \<and> pinned_source env (as_URL asset) \<and> pinned_source env (as_URL sums)
         \<and> archive = hp_body (sn_get env (as_URL asset)) \<and> sf_files fs' (sc_ArchivePath staged) = Some archive
         \<and> listed_digest (fst (scan_lines (str_of (hp_body (sn_get env (as_URL sums)))))) (AssetName goos goarch) (to_lower (hex_encode (sn_sha256 env archive)))
         \<and> sf_files fs' (sc_BinaryPath staged) = Some binary \<and> only_binary env (AssetName goos goarch) archive (binary_name goos) binary)
    \<and> (goos = sn_goos env \<and> goarch = sn_goarch env \<and> sg_VerifyCandidate sg = None
       \<longrightarrow> verifyCandidateVersion (sn_run env) (sc_BinaryPath staged) (ck_Latest check) = None)"
  using stage_facts [OF assms(1, 2)] unfolding authentic_def goos_def goarch_def by blast

definition ex_sums :: string where "ex_sums = replicate 64 (CHR ''0'') @ '' *pxgo_linux_amd64.tar.gz''"

definition ex_stage_env :: stageEnv where
  "ex_stage_env =
     \<lparr>sn_url = \<lambda>_. Some \<lparr>du_Scheme = ''https'', du_User = False, du_Hostname = ''github.com'', du_EscapedPath = pinned_path\<rparr>,
      sn_get = \<lambda>url. \<lparr>hp_hops = [''r''], hp_err = None, hp_status = 200, hp_body = (if url = ''sums'' then bytes_of ex_sums else [7]), hp_readErr = None\<rparr>,
      sn_sha256 = \<lambda>_. replicate 32 0, sn_mkdir = Inr ''/tmp/u'', sn_removeAll = \<lambda>_. Removed, sn_create = \<lambda>_. None, sn_write = \<lambda>_. None, sn_sync = None, sn_close = None,
      sn_zip = \<lambda>_. Inr [],
      sn_tar = \<lambda>_. Inr ([\<lparr>te_Name = ''pxgo'', te_Regular = True, te_Size = 2, te_content = [1, 2], te_readErr = None\<rparr>], None),
      sn_toSlash = \<lambda>s. s, sn_run = \<lambda>_. Inr ''v1.2.0'', sn_goos = ''linux'', sn_goarch = ''amd64''\<rparr>"

definition ex_stager :: Stager where
  "ex_stager = \<lparr>sg_GOOS = ''linux'', sg_GOARCH = ''amd64'', sg_ValidateURL = None, sg_VerifyCandidate = None, sg_prior = None\<rparr>"

definition ex_check :: CheckResult where
  "ex_check = \<lparr>ck_Current = ''1.1.0'', ck_Latest = ''1.2.0'', ck_Available = True,
     ck_Release = \<lparr>rl_Version = ''1.2.0'', rl_Tag = ''v1.2.0'', rl_Prerelease = False,
       rl_Assets = [\<lparr>as_Name = ''pxgo_linux_amd64.tar.gz'', as_URL = ''archive'', as_Digest = []\<rparr>, \<lparr>as_Name = ''checksums.txt'', as_URL = ''sums'', as_Digest = []\<rparr>]\<rparr>\<rparr>"

lemma ex_checksum: "ChecksumForAsset [ex_sums] None ''pxgo_linux_amd64.tar.gz'' = Inr (replicate 64 (CHR ''0''))"
  by code_simp

lemma ex_scan: "scan_lines ex_sums = ([ex_sums], None)"
proof -
  have "CHR 0x0A \<notin> set ex_sums" "ex_sums \<noteq> []" "last ex_sums \<noteq> CHR 0x0D" "length ex_sums < 65536" by (simp_all add: ex_sums_def)
  then show ?thesis by (simp add: scan_lines_def split_on_none drop_cr_def)
qed

lemma ex_request:
  "request_asset ex_stage_env (ValidateDownloadURL (sn_url ex_stage_env)) None url = Inr (sn_get ex_stage_env url)"
  by (simp add: request_asset_def ex_stage_env_def ValidateDownloadURL_def has_prefix_def to_lower_def lower_char_def)

lemma ex_version: "verifyCandidateVersion (\<lambda>_. Inr ''v1.2.0'') p ''1.2.0'' = None"
  by (simp add: verifyCandidateVersion_def version_eval)

definition ex_staged :: StagedCandidate where
  "ex_staged = \<lparr>sc_Check = ex_check, sc_AssetName = ''pxgo_linux_amd64.tar.gz'', sc_ArchivePath = path_in ''/tmp/u'' ''pxgo_linux_amd64.tar.gz'',
     sc_BinaryPath = path_in ''/tmp/u'' ''pxgo'', sc_SHA256 = replicate 64 (CHR ''0''), sc_Dir = ''/tmp/u''\<rparr>"

lemma ex_stage_check:
  "StageCheck ex_stage_env ex_stager ex_check fs
     = (put_file (sc_BinaryPath ex_staged) [1, 2] (put_file (sc_ArchivePath ex_staged) [7] (fs\<lparr>sf_dirs := ''/tmp/u'' # sf_dirs fs\<rparr>)), Inr ex_staged)"
proof -
  have n: "AssetName ''linux'' ''amd64'' = ''pxgo_linux_amd64.tar.gz''" by (simp add: AssetName_def goosWindows_def)
  have b: "downloadBytes ex_stage_env (ValidateDownloadURL (sn_url ex_stage_env)) None ''sums'' maxChecksumsBytes = Inr (bytes_of ex_sums)"
    by (simp add: downloadBytes_def ex_request maxChecksumsBytes_def) (simp add: ex_stage_env_def ex_sums_def bytes_of_def)
  have f: "downloadFile ex_stage_env (ValidateDownloadURL (sn_url ex_stage_env)) None ''archive'' p maxArchiveBytes fs
      = (put_file p [7] fs, Inr (replicate 64 (CHR ''0'')))" for p fs
    by (simp add: downloadFile_def ex_request maxArchiveBytes_def) (simp add: ex_stage_env_def, code_simp)
  have x: "extractCandidate ex_stage_env p ''pxgo_linux_amd64.tar.gz'' ''pxgo'' q (put_file p [7] fs) = (put_file q [1, 2] (put_file p [7] fs), None)" for p q fs
    by (simp add: extractCandidate_def put_file_def ex_stage_env_def has_suffix_def suffix_def extractTarCandidate_def binary_name_def goosWindows_def
        productName_def writeCandidate_def maxCandidateBytes_def)
  have bn: "binary_name ''linux'' = ''pxgo''" by (simp add: binary_name_def goosWindows_def productName_def)
  have a: "exactAsset (rl_Assets (ck_Release ex_check)) ''pxgo_linux_amd64.tar.gz'' = Inr \<lparr>as_Name = ''pxgo_linux_amd64.tar.gz'', as_URL = ''archive'', as_Digest = []\<rparr>"
    "exactAsset (rl_Assets (ck_Release ex_check)) checksumsAssetName = Inr \<lparr>as_Name = ''checksums.txt'', as_URL = ''sums'', as_Digest = []\<rparr>"
    by (simp_all add: exactAsset_def ex_check_def checksumsAssetName_def)
  have e: "sn_goos ex_stage_env = ''linux''" "sn_goarch ex_stage_env = ''amd64''" "sn_mkdir ex_stage_env = Inr ''/tmp/u''"
    "sn_run ex_stage_env = (\<lambda>_. Inr ''v1.2.0'')" "ck_Available ex_check" "ck_Latest ex_check = ''1.2.0''" "sg_prior ex_stager = None"
    "sg_VerifyCandidate ex_stager = None" "sg_ValidateURL ex_stager = None" "sg_GOOS ex_stager = ''linux''" "sg_GOARCH ex_stager = ''amd64''"
    by (simp_all add: ex_stage_env_def ex_check_def ex_stager_def)
  show ?thesis
    by (simp add: StageCheck_def stage_in_def Let_def e n a b f x ex_scan ex_checksum ex_version digest_agrees_def ex_staged_def bn)
qed

theorem staged_candidate_authentic_witness:
  "\<exists>fs' staged. StageCheck ex_stage_env ex_stager ex_check \<lparr>sf_dirs = [], sf_files = Map.empty\<rparr> = (fs', Inr staged)
     \<and> pinned_source ex_stage_env ''archive'' \<and> sf_files fs' (sc_ArchivePath staged) = Some [7]"
proof -
  obtain fs' staged where s: "StageCheck ex_stage_env ex_stager ex_check \<lparr>sf_dirs = [], sf_files = Map.empty\<rparr> = (fs', Inr staged)"
    by (simp add: ex_stage_check)
  have "as_URL asset = ''archive''" if "filter (\<lambda>a. as_Name a = AssetName ''linux'' ''amd64'') (rl_Assets (ck_Release ex_check)) = [asset]" for asset
    using that by (auto simp: ex_check_def AssetName_def goosWindows_def)
  moreover have "sg_ValidateURL ex_stager = None" "stage_goos ex_stage_env ex_stager = ''linux''" "stage_goarch ex_stage_env ex_stager = ''amd64''"
    "hp_body (sn_get ex_stage_env ''archive'') = [7]"
    by (simp_all add: ex_stager_def stage_goos_def stage_goarch_def ex_stage_env_def)
  ultimately show ?thesis using s staged_candidate_authentic [OF s] by auto
qed

end
