(* ===== verification/Update_Service.thy ===== *)
theory Update_Service
  imports Update_Staging
begin

text \<open>
  Applying an update: the replacement of the executable of \<^verbatim>\<open>internal/update/apply_unix.go\<close>, the lock of
  \<^verbatim>\<open>lock_common.go\<close> and \<^verbatim>\<open>lock_unix.go\<close>, and the service of \<^verbatim>\<open>service.go\<close> that checks, stages and applies. Files are
  those of the staging model, so that the candidate that is staged is the one that is installed. Every operation on
  files, removals and the release of the lock included, may fail with an error that is an input; an operation that fails
  changes nothing, except \<^verbatim>\<open>os.RemoveAll\<close>, which may have removed a part.
\<close>

section \<open>Replacing the executable\<close>

datatype applyOp =
    OpenSource | CopySource | CloseSource | ChmodTemp | SyncTemp | CloseTemp | StatBackup | RenameOld | RenameNew
  | RollbackNew | RemoveNew | RollbackOld | RemoveBackup | RemoveTemp

text \<open>\<open>ae_lstat\<close> and \<open>ae_stat\<close> say whether target and candidate are regular files.\<close>

record applyEnv =
  ae_ctx :: "goerr option"
  ae_abs :: "string \<Rightarrow> goerr + string"
  ae_lstat :: "goerr + bool"
  ae_stat :: "goerr + bool"
  ae_temp :: "goerr + string"
  ae_op :: "applyOp \<Rightarrow> goerr option"
  ae_run :: "string \<Rightarrow> goerr + string"

type_synonym files = "string \<rightharpoonup> byte list"

definition rename_file :: "string \<Rightarrow> string \<Rightarrow> files \<Rightarrow> files" where
  "rename_file a b fs = (fs(b := fs a))(a := None)"

definition try_op :: "applyEnv \<Rightarrow> applyOp \<Rightarrow> (files \<Rightarrow> files) \<Rightarrow> files \<Rightarrow> files \<times> goerr option" where
  "try_op env opn f fs = (case ae_op env opn of Some e \<Rightarrow> (fs, Some e) | None \<Rightarrow> (f fs, None))"

definition backup_path :: "string \<Rightarrow> string" where "backup_path target = target @ ''.pxgo-update-backup''"

text \<open>From the rename of the old executable on; the flag is \<^verbatim>\<open>removeTemp\<close>.\<close>

definition activate :: "applyEnv \<Rightarrow> string \<Rightarrow> string \<Rightarrow> string \<Rightarrow> files \<Rightarrow> files \<times> bool \<times> (goerr + bool)" where
  "activate env tmp target expectedVersion fs =
     (let backup = backup_path target in
      case try_op env RenameOld (rename_file target backup) fs of
        (fs, Some e) \<Rightarrow> (fs, True, Inl (Wrapped ''backup current executable'' e))
      | (fs, None) \<Rightarrow>
          (case try_op env RenameNew (rename_file tmp target) fs of
             (fs, Some e) \<Rightarrow>
               (case try_op env RollbackNew (rename_file backup target) fs of
                  (fs, rollbackErr) \<Rightarrow> (fs, True, Inl (the (errors_join [Some (Wrapped ''activate staged executable'' e), rollbackErr]))))
           | (fs, None) \<Rightarrow>
               (case verifyCandidateVersion (ae_run env) target expectedVersion of
                  Some verifyErr \<Rightarrow>
                    (case try_op env RemoveNew (\<lambda>fs. fs(target := None)) fs of
                       (fs, removeErr) \<Rightarrow>
                         (case try_op env RollbackOld (rename_file backup target) fs of
                            (fs, rollbackErr) \<Rightarrow>
                              (fs, False, Inl (the (errors_join [Some (Wrapped ''installed candidate failed version check'' verifyErr), removeErr, rollbackErr])))))
                | None \<Rightarrow>
                    (case try_op env RemoveBackup (\<lambda>fs. fs(backup := None)) fs of
                       (fs, Some e) \<Rightarrow> (fs, False, Inl (Wrapped ''remove update backup'' e))
                     | (fs, None) \<Rightarrow> (fs, False, Inr False)))))"

text \<open>The steps on the temporary file before that, in their order.\<close>

definition first_failure :: "applyEnv \<Rightarrow> applyOp list \<Rightarrow> goerr option" where
  "first_failure env ops = (case List.map_filter (ae_op env) ops of [] \<Rightarrow> None | e # _ \<Rightarrow> Some e)"

definition fill_temp :: "applyEnv \<Rightarrow> string \<Rightarrow> string \<Rightarrow> string \<Rightarrow> string \<Rightarrow> files \<Rightarrow> files \<times> bool \<times> (goerr + bool)" where
  "fill_temp env tmp candidate target expectedVersion fs =
     (case first_failure env [OpenSource, CopySource] of
        Some e \<Rightarrow> (fs, True, Inl e)
      | None \<Rightarrow>
          let fs = fs(tmp := fs candidate) in
          (case first_failure env [CloseSource, ChmodTemp, SyncTemp, CloseTemp] of
             Some e \<Rightarrow> (fs, True, Inl e)
           | None \<Rightarrow>
               if fs (backup_path target) \<noteq> None then (fs, True, Inl (ErrMsg ''update backup path already exists''))
               else case ae_op env StatBackup of
                 Some e \<Rightarrow> (fs, True, Inl (Wrapped ''inspect update backup'' e))
               | None \<Rightarrow> activate env tmp target expectedVersion fs))"

text \<open>The result says whether the update is deferred, which it never is here.\<close>

definition ApplyCandidateWithRestartState :: "applyEnv \<Rightarrow> string \<Rightarrow> string \<Rightarrow> string \<Rightarrow> files \<Rightarrow> files \<times> (goerr + bool)" where
  "ApplyCandidateWithRestartState env candidate target expectedVersion fs =
     (case ae_ctx env of
        Some e \<Rightarrow> (fs, Inl e)
      | None \<Rightarrow>
          (case (ae_abs env candidate, ae_abs env target) of
             (Inl e, _) \<Rightarrow> (fs, Inl e)
           | (_, Inl e) \<Rightarrow> (fs, Inl e)
           | (Inr candidatePath, Inr targetPath) \<Rightarrow>
               if candidatePath = targetPath then (fs, Inl (ErrMsg ''candidate and target executable paths are identical''))
               else
                 (case ae_lstat env of
                    Inl e \<Rightarrow> (fs, Inl (Wrapped ''inspect update target'' e))
                  | Inr False \<Rightarrow> (fs, Inl (ErrMsg ''direct update target must be a regular non-symlink file''))
                  | Inr True \<Rightarrow>
                      (case ae_stat env of
                         Inl e \<Rightarrow> (fs, Inl (Wrapped ''inspect staged candidate'' e))
                       | Inr False \<Rightarrow> (fs, Inl (ErrMsg ''staged candidate is not a regular file''))
                       | Inr True \<Rightarrow>
                           (case ae_temp env of
                              Inl e \<Rightarrow> (fs, Inl (Wrapped ''create update target'' e))
                            | Inr tmp \<Rightarrow>
                                (case fill_temp env tmp candidatePath targetPath expectedVersion (fs(tmp \<mapsto> [])) of
                                   (fs, removeTemp, r) \<Rightarrow>
                                     (if removeTemp \<and> ae_op env RemoveTemp = None then fs(tmp := None) else fs, r)))))))"

section \<open>Lock\<close>

datatype flockResult = Flocked | WouldBlock | FlockFailed goerr

record lockEnv =
  le_dir :: "string \<Rightarrow> string"
  le_mkdir :: "goerr option"
  le_open :: "goerr option"
  le_flock :: flockResult
  le_unlock :: "goerr option"
  le_close :: "goerr option"

definition ErrUpdateBusy :: goerr where "ErrUpdateBusy = ErrMsg ''another PxGo update is already in progress''"

definition updateLockPath :: "lockEnv \<Rightarrow> string \<Rightarrow> string" where
  "updateLockPath env statePath = (if statePath = [] then [] else path_in (le_dir env statePath) ''update.lock'')"

text \<open>The result says whether a lock is held; without a path there is none.\<close>

definition acquireUpdateLock :: "lockEnv \<Rightarrow> string \<Rightarrow> goerr + bool" where
  "acquireUpdateLock env path =
     (if path = [] then Inr False
      else case (le_mkdir env, le_open env, le_flock env) of
        (Some e, _, _) \<Rightarrow> Inl e
      | (None, Some e, _) \<Rightarrow> Inl e
      | (None, None, WouldBlock) \<Rightarrow> Inl ErrUpdateBusy
      | (None, None, FlockFailed e) \<Rightarrow> Inl e
      | (None, None, Flocked) \<Rightarrow> Inr True)"

text \<open>The lock is gone when it is unlocked or its file is closed.\<close>

definition updateLock_Close :: "lockEnv \<Rightarrow> bool \<times> goerr option" where
  "updateLock_Close env = (le_unlock env = None \<or> le_close env = None, errors_join [le_unlock env, le_close env])"

section \<open>Service\<close>

record updateStatus =
  us_Current :: string
  us_Latest :: string
  us_Available :: bool
  us_Provider :: string
  us_Channel :: string
  us_Release :: Release
  us_Applied :: bool
  us_Deferred :: bool

record PreparedUpdate =
  pu_Status :: updateStatus
  pu_staged :: "StagedCandidate option"
  pu_lock :: bool

definition zero_status :: updateStatus where
  "zero_status = \<lparr>us_Current = [], us_Latest = [], us_Available = False, us_Provider = [], us_Channel = [],
     us_Release = \<lparr>rl_Version = [], rl_Tag = [], rl_Prerelease = False, rl_Assets = []\<rparr>, us_Applied = False, us_Deferred = False\<rparr>"

record Service =
  se_Checker :: Checker
  se_Stager :: Stager
  se_Provider :: string
  se_Channel :: string
  se_Executable :: string
  se_StatePath :: string
  se_GOOS :: string
  se_GOARCH :: string
  se_VerifyInstalled :: "(string \<Rightarrow> string \<Rightarrow> goerr option) option"

text \<open>The surroundings: those of staging, the release service, paths, the own executable, package managers, the lock,
  the applying of a candidate, and the staging directories that are stale.\<close>

record serviceEnv =
  vn_stage :: stageEnv
  vn_api :: releaseAPI
  vn_paths :: pathEnv
  vn_executable :: "goerr + string"
  vn_lookPath :: "string \<Rightarrow> string option"
  vn_runner :: "string \<Rightarrow> string list \<Rightarrow> goerr option"
  vn_lock :: lockEnv
  vn_apply :: "string \<Rightarrow> string \<Rightarrow> string \<Rightarrow> files \<Rightarrow> files \<times> (goerr + bool)"

record updateWorld =
  uw_fs :: stagingFS
  uw_locked :: bool

definition own_executable :: "serviceEnv \<Rightarrow> Service \<Rightarrow> goerr + string" where
  "own_executable env s = (if se_Executable s \<noteq> [] then Inr (se_Executable s) else vn_executable env)"

definition service_goos :: "serviceEnv \<Rightarrow> Service \<Rightarrow> string" where
  "service_goos env s = (if se_GOOS s = [] then sn_goos (vn_stage env) else se_GOOS s)"

definition ownership_path :: "serviceEnv \<Rightarrow> string \<Rightarrow> string" where
  "ownership_path env executable =
     (case pe_symlinks (vn_paths env) executable of Some resolved \<Rightarrow> if resolved \<noteq> [] then resolved else executable | None \<Rightarrow> executable)"

definition Service_Check :: "serviceEnv \<Rightarrow> Service \<Rightarrow> string \<Rightarrow> goerr + updateStatus" where
  "Service_Check env s current =
     (case own_executable env s of
        Inl e \<Rightarrow> Inl (Wrapped ''resolve executable for update provider'' e)
      | Inr executable \<Rightarrow>
          (case ResolveProvider (vn_paths env) (if se_Provider s = [] then ProviderAuto else se_Provider s) (ownership_path env executable) (service_goos env s) of
             Inl e \<Rightarrow> Inl e
           | Inr provider \<Rightarrow>
               (let channel = (if se_Channel s = [] then Stable else se_Channel s) in
                case ParseChannel channel of
                  Inl e \<Rightarrow> Inl e
                | Inr _ \<Rightarrow>
                    (case Checker_Check (vn_api env) ((se_Checker s)\<lparr>ch_Channel := channel\<rparr>) current of
                       Inl e \<Rightarrow> Inl e
                     | Inr r \<Rightarrow>
                         Inr \<lparr>us_Current = ck_Current r, us_Latest = ck_Latest r, us_Available = ck_Available r, us_Provider = provider,
                              us_Channel = channel, us_Release = ck_Release r, us_Applied = False, us_Deferred = False\<rparr>))))"

definition Prepared_Cleanup :: "serviceEnv \<Rightarrow> PreparedUpdate \<Rightarrow> updateWorld \<Rightarrow> updateWorld \<times> goerr option" where
  "Prepared_Cleanup env p w =
     (case (case pu_staged p of None \<Rightarrow> (uw_fs w, None) | Some st \<Rightarrow> Staged_Cleanup (vn_stage env) st (uw_fs w)) of
        (fs, stagedErr) \<Rightarrow>
          if pu_lock p then
            (case updateLock_Close (vn_lock env) of
               (released, closeErr) \<Rightarrow> (w\<lparr>uw_fs := fs, uw_locked := uw_locked w \<and> \<not> released\<rparr>, errors_join [stagedErr, closeErr]))
          else (w\<lparr>uw_fs := fs\<rparr>, errors_join [stagedErr]))"

text \<open>The directories that \<^verbatim>\<open>CleanupStaleStaging\<close> removes: an entry has its name, the result of \<^verbatim>\<open>os.Lstat\<close> as the age and
  whether it is a directory and no link, and the outcome of removing it.\<close>

record stagingEntry =
  st_Name :: string
  st_info :: "(duration \<times> bool) option"
  st_remove :: removal

definition is_stale :: "duration \<Rightarrow> stagingEntry \<Rightarrow> bool" where
  "is_stale olderThan e \<longleftrightarrow>
     has_prefix (st_Name e) ''pxgo-update-'' \<and> (case st_info e of None \<Rightarrow> False | Some (age, isDir) \<Rightarrow> isDir \<and> \<not> age < olderThan)"

definition CleanupStaleStaging :: "string \<Rightarrow> duration \<Rightarrow> stagingEntry list \<Rightarrow> stagingFS \<Rightarrow> stagingFS" where
  "CleanupStaleStaging base olderThan entries fs =
     (let olderThan = (if olderThan \<le> 0 then 24 * hour else olderThan) in
      fold (\<lambda>e fs. if is_stale olderThan e then fst (RemoveAll (st_remove e) (path_in base (st_Name e)) fs) else fs) entries fs)"

definition service_stager :: "Service \<Rightarrow> Stager" where
  "service_stager s =
     (let sg = se_Stager s; sg = (if sg_GOOS sg = [] then sg\<lparr>sg_GOOS := se_GOOS s\<rparr> else sg) in
      if sg_GOARCH sg = [] then sg\<lparr>sg_GOARCH := se_GOARCH s\<rparr> else sg)"

definition check_of :: "updateStatus \<Rightarrow> CheckResult" where
  "check_of status =
     \<lparr>ck_Current = us_Current status, ck_Latest = us_Latest status, ck_Available = us_Available status, ck_Release = us_Release status\<rparr>"

text \<open>An error comes with the prepared update that \<^verbatim>\<open>Prepare\<close> has already cleaned up.\<close>

definition Prepare :: "serviceEnv \<Rightarrow> Service \<Rightarrow> string \<Rightarrow> stagingEntry list \<Rightarrow> string \<Rightarrow> updateWorld \<Rightarrow> updateWorld \<times> (goerr + PreparedUpdate)" where
  "Prepare env s base stale current w =
     (case acquireUpdateLock (vn_lock env) (updateLockPath (vn_lock env) (se_StatePath s)) of
        Inl e \<Rightarrow> (w, Inl e)
      | Inr lock \<Rightarrow>
          (let w = (if lock then w\<lparr>uw_locked := True\<rparr> else w); w = w\<lparr>uw_fs := CleanupStaleStaging base (24 * hour) stale (uw_fs w)\<rparr>;
               prepared = \<lparr>pu_Status = zero_status, pu_staged = None, pu_lock = lock\<rparr> in
           case Service_Check env s current of
             Inl e \<Rightarrow> (fst (Prepared_Cleanup env prepared w), Inl e)
           | Inr status \<Rightarrow>
               (let prepared = prepared\<lparr>pu_Status := status\<rparr> in
                if \<not> us_Available status \<or> us_Provider status \<noteq> ProviderDirect then (w, Inr prepared)
                else
                  (case StageCheck (vn_stage env) (service_stager s) (check_of status) (uw_fs w) of
                     (fs, Inl e) \<Rightarrow> (fst (Prepared_Cleanup env prepared (w\<lparr>uw_fs := fs\<rparr>)), Inl e)
                   | (fs, Inr staged) \<Rightarrow> (w\<lparr>uw_fs := fs\<rparr>, Inr (prepared\<lparr>pu_staged := Some staged\<rparr>))))))"

definition install_candidates :: "serviceEnv \<Rightarrow> Service \<Rightarrow> string list" where
  "install_candidates env s =
     (let cs = (case own_executable env s of Inr x \<Rightarrow> if x \<noteq> [] then [x] else [] | Inl _ \<Rightarrow> []) in
      case vn_lookPath env productName of
        Some resolved \<Rightarrow> if resolved \<noteq> [] \<and> resolved \<notin> set cs then cs @ [resolved] else cs
      | None \<Rightarrow> cs)"

definition verifyManagedInstall :: "serviceEnv \<Rightarrow> Service \<Rightarrow> string \<Rightarrow> goerr option" where
  "verifyManagedInstall env s expectedVersion =
     (let verify = (case se_VerifyInstalled s of Some f \<Rightarrow> f | None \<Rightarrow> verifyCandidateVersion (sn_run (vn_stage env))); cs = install_candidates env s in
      if cs = [] then Some (ErrMsg ''updated PxGo executable could not be resolved'')
      else if list_ex (\<lambda>c. verify c expectedVersion = None) cs then None
      else Some (Joined (map (\<lambda>c. Wrapped c (the (verify c expectedVersion))) cs)))"

text \<open>The results are the world, the prepared update as the call leaves it, and the status or an error.\<close>

definition ApplyPreparedWithRestart :: "serviceEnv \<Rightarrow> Service \<Rightarrow> PreparedUpdate \<Rightarrow> updateWorld
    \<Rightarrow> updateWorld \<times> PreparedUpdate \<times> (goerr + updateStatus)" where
  "ApplyPreparedWithRestart env s prepared w =
     (let status = pu_Status prepared in
      if \<not> us_Available status then (w, prepared, Inr status)
      else if us_Provider status \<noteq> ProviderDirect then
        (case Upgrade (vn_runner env) (us_Provider status) of
           Some e \<Rightarrow> (w, prepared, Inl e)
         | None \<Rightarrow>
             (case verifyManagedInstall env s (us_Latest status) of
                Some e \<Rightarrow> (w, prepared, Inl (Wrapped (us_Provider status) e))
              | None \<Rightarrow> (w, prepared\<lparr>pu_Status := status\<lparr>us_Applied := True\<rparr>\<rparr>, Inr (status\<lparr>us_Applied := True\<rparr>))))
      else case pu_staged prepared of
        None \<Rightarrow> (w, prepared, Inl (ErrMsg ''direct update was not staged''))
      | Some staged \<Rightarrow>
          (case own_executable env s of
             Inl e \<Rightarrow> (w, prepared, Inl e)
           | Inr target \<Rightarrow>
               (case vn_apply env (sc_BinaryPath staged) target (us_Latest status) (sf_files (uw_fs w)) of
                  (files', r) \<Rightarrow>
                    let w = w\<lparr>uw_fs := (uw_fs w)\<lparr>sf_files := files'\<rparr>\<rparr> in
                    (case r of
                       Inl e \<Rightarrow> (w, prepared, Inl e)
                     | Inr deferred \<Rightarrow>
                         let status = status\<lparr>us_Applied := \<not> deferred, us_Deferred := deferred\<rparr>; prepared = prepared\<lparr>pu_Status := status\<rparr> in
                         if \<not> deferred then (fst (Prepared_Cleanup env prepared w), prepared\<lparr>pu_staged := None, pu_lock := False\<rparr>, Inr status)
                         else (w, prepared, Inr status)))))"

definition Service_Update :: "serviceEnv \<Rightarrow> Service \<Rightarrow> string \<Rightarrow> stagingEntry list \<Rightarrow> string \<Rightarrow> updateWorld \<Rightarrow> updateWorld \<times> (goerr + updateStatus)" where
  "Service_Update env s base stale current w =
     (case Prepare env s base stale current w of
        (w, Inl e) \<Rightarrow> (w, Inl e)
      | (w, Inr prepared) \<Rightarrow>
          (case ApplyPreparedWithRestart env s prepared w of
             (w, prepared, r) \<Rightarrow> (if us_Deferred (pu_Status prepared) then w else fst (Prepared_Cleanup env prepared w), r)))"

section \<open>All or nothing\<close>

definition apply_ready :: "applyEnv \<Rightarrow> string \<Rightarrow> string \<Rightarrow> files \<Rightarrow> bool" where
  "apply_ready env candidate target fs \<longleftrightarrow>
     (\<forall>cp tp. ae_abs env candidate = Inr cp \<and> ae_abs env target = Inr tp \<longrightarrow>
        (ae_lstat env = Inr True \<longrightarrow> fs tp \<noteq> None) \<and> (ae_stat env = Inr True \<longrightarrow> fs cp \<noteq> None)
        \<and> (\<forall>tmp. ae_temp env = Inr tmp \<longrightarrow> fs tmp = None \<and> tmp \<noteq> backup_path tp))"

definition rollback_works :: "applyEnv \<Rightarrow> bool" where
  "rollback_works env \<longleftrightarrow> list_all (\<lambda>opn. ae_op env opn = None) [RollbackNew, RemoveNew, RollbackOld, RemoveTemp]"

lemma backup_other [simp]: "backup_path t \<noteq> t" "t \<noteq> backup_path t"
  by (simp_all add: backup_path_def)

lemma renames:
  assumes "tmp \<noteq> t" "tmp \<noteq> b" "b \<noteq> t" "fs b = None"
  shows "rename_file b t (rename_file t b fs) = fs"
    "rename_file b t (fs(b := fs t, tmp := None, t := None)) = fs(tmp := None)"
    "rename_file tmp t (rename_file t b fs) = fs(t := fs tmp, b := fs t, tmp := None)"
    "(rename_file tmp t (rename_file t b fs))(b := None) = fs(t := fs tmp, tmp := None)"
  by (rule ext, use assms in \<open>auto simp: rename_file_def\<close>)+

lemma activate_ok:
  assumes "activate env tmp target v fs = (fs', rt, Inr d)" "tmp \<noteq> target" "tmp \<noteq> backup_path target" "fs (backup_path target) = None"
  shows "\<not> rt \<and> \<not> d \<and> fs' = fs(target := fs tmp, tmp := None) \<and> verifyCandidateVersion (ae_run env) target v = None"
  using assms(1) renames(4) [of tmp target "backup_path target" fs] assms(2-4)
  by (auto simp: activate_def try_op_def Let_def split: option.splits)

lemma activate_fails:
  assumes "activate env tmp target v fs = (fs', rt, Inl e)" "tmp \<noteq> target" "tmp \<noteq> backup_path target" "fs (backup_path target) = None"
    "rollback_works env"
  shows "fs' = (if rt then fs else fs(tmp := None))
    \<or> ae_op env RemoveBackup \<noteq> None \<and> \<not> rt \<and> fs' = fs(target := fs tmp, backup_path target := fs target, tmp := None)"
proof -
  note rn = renames(1-3) [where fs = fs, OF assms(2, 3) backup_other(1) assms(4)]
  have "ae_op env RollbackNew = None" "ae_op env RemoveNew = None" "ae_op env RollbackOld = None" using assms(5) by (simp_all add: rollback_works_def)
  with assms(1) show ?thesis
    by (cases "ae_op env RenameOld"; cases "ae_op env RenameNew"; cases "verifyCandidateVersion (ae_run env) target v"; cases "ae_op env RemoveBackup")
       (auto simp: activate_def try_op_def Let_def rn)
qed

lemma fill_temp_ok:
  assumes "fill_temp env tmp candidate target v fs = (fs', rt, Inr d)" "tmp \<noteq> target" "tmp \<noteq> candidate" "tmp \<noteq> backup_path target"
  shows "\<not> rt \<and> \<not> d \<and> fs (backup_path target) = None \<and> fs' = fs(target := fs candidate, tmp := None)
    \<and> verifyCandidateVersion (ae_run env) target v = None"
proof -
  from assms have b: "fs (backup_path target) = None"
    and a: "activate env tmp target v (fs(tmp := fs candidate)) = (fs', rt, Inr d)"
    by (auto simp: fill_temp_def Let_def split: option.splits if_splits)
  from activate_ok [OF a assms(2, 4)] b assms show ?thesis by (auto intro!: ext)
qed

lemma fill_temp_fails:
  assumes "fill_temp env tmp candidate target v fs = (fs', rt, Inl e)" "tmp \<noteq> target" "tmp \<noteq> candidate" "tmp \<noteq> backup_path target"
    "rollback_works env"
  shows "fs'(tmp := None) = fs(tmp := None) \<and> (rt \<or> fs' tmp = None)
    \<or> ae_op env RemoveBackup \<noteq> None \<and> \<not> rt \<and> fs' = fs(target := fs candidate, backup_path target := fs target, tmp := None)"
proof (cases "first_failure env [OpenSource, CopySource] = None \<and> first_failure env [CloseSource, ChmodTemp, SyncTemp, CloseTemp] = None
    \<and> fs (backup_path target) = None \<and> ae_op env StatBackup = None")
  case True
  with assms have "activate env tmp target v (fs(tmp := fs candidate)) = (fs', rt, Inl e)" by (simp add: fill_temp_def Let_def)
  from activate_fails [OF this assms(2, 4) _ assms(5)] True assms(2-4) show ?thesis by (auto simp: fun_upd_twist [of tmp target] fun_upd_twist [of tmp "backup_path target"])
next
  case False
  with assms(1, 4) show ?thesis by (auto simp: fill_temp_def Let_def split: option.splits if_splits)
qed

text \<open>Whatever fails, also the rollback itself, the old executable is still there, at its place or as the backup.\<close>

lemma activate_keeps:
  assumes "activate env tmp target v fs = (fs', rt, Inl e)" "tmp \<noteq> target" "tmp \<noteq> backup_path target"
  shows "(fs' target = fs target \<or> fs' (backup_path target) = fs target) \<and> (\<forall>p. p \<notin> {tmp, target, backup_path target} \<longrightarrow> fs' p = fs p)"
  using assms
  by (auto simp: activate_def try_op_def Let_def rename_file_def split: option.splits)

lemma fill_temp_keeps:
  assumes "fill_temp env tmp candidate target v fs = (fs', rt, Inl e)" "tmp \<noteq> target" "tmp \<noteq> candidate" "tmp \<noteq> backup_path target"
  shows "(fs' target = fs target \<or> fs' (backup_path target) = fs target) \<and> (\<forall>p. p \<notin> {tmp, target, backup_path target} \<longrightarrow> fs' p = fs p)"
proof (cases "\<exists>fs0. activate env tmp target v fs0 = (fs', rt, Inl e) \<and> fs0 = fs(tmp := fs candidate)")
  case True
  then obtain fs0 where a: "activate env tmp target v fs0 = (fs', rt, Inl e)" and fs0: "fs0 = fs(tmp := fs candidate)" by blast
  from activate_keeps [OF a assms(2, 4)] fs0 assms(2) show ?thesis by auto
next
  case False
  with assms(1) have "fs' = fs \<or> fs' = fs(tmp := fs candidate)" by (auto simp: fill_temp_def Let_def split: option.splits if_splits)
  with assms(2) show ?thesis by auto
qed

text \<open>A successful run, and one that fails after the first checks, on the absolute paths.\<close>

lemma apply_success:
  assumes "fill_temp env tmp cp tp v (fs(tmp \<mapsto> [])) = (fs1, rt, Inr d)" "fs tmp = None" "tmp \<noteq> tp" "tmp \<noteq> cp" "tmp \<noteq> backup_path tp"
    "fs' = (if rt \<and> ae_op env RemoveTemp = None then fs1(tmp := None) else fs1)"
  shows "\<not> d \<and> fs' = fs(tp := fs cp) \<and> verifyCandidateVersion (ae_run env) tp v = None"
  using fill_temp_ok [OF assms(1, 3-5)] assms(2-6) by (auto simp: fun_eq_iff)

lemma apply_rolled_back:
  assumes "fill_temp env tmp cp tp v (fs(tmp \<mapsto> [])) = (fs1, rt, Inl e)" "fs tmp = None" "tmp \<noteq> tp" "tmp \<noteq> cp" "tmp \<noteq> backup_path tp"
    "fs' = (if rt \<and> ae_op env RemoveTemp = None then fs1(tmp := None) else fs1)" "rollback_works env"
  shows "fs' = fs \<or> ae_op env RemoveBackup \<noteq> None \<and> fs' = fs(tp := fs cp, backup_path tp := fs tp)"
proof -
  have rm: "ae_op env RemoveTemp = None" using assms(7) by (simp add: rollback_works_def)
  have idem: "fs(tmp := None) = fs" using assms(2) by (simp add: fun_upd_idem)
  consider "fs1(tmp := None) = fs" "rt \<or> fs1 tmp = None"
    | "ae_op env RemoveBackup \<noteq> None" "\<not> rt" "fs1 = fs(tp := fs cp, backup_path tp := fs tp, tmp := None)"
    using fill_temp_fails [OF assms(1, 3-5, 7)] assms(2-5) idem by (auto simp: fun_upd_twist [of tmp])
  then show ?thesis
  proof cases
    case 1
    then show ?thesis using assms(6) rm fun_upd_idem [of fs1 tmp None] by (auto split: if_splits)
  next
    case 2
    then show ?thesis using assms(2-6) idem by (auto simp: fun_upd_twist [of _ tmp])
  qed
qed

lemma apply_steps:
  assumes "ApplyCandidateWithRestartState env candidate target v fs = (fs', r)" "apply_ready env candidate target fs"
  obtains "fs' = fs" "\<exists>e. r = Inl e"
  | cp tp tmp fs1 rt where "ae_abs env candidate = Inr cp" "ae_abs env target = Inr tp" "fill_temp env tmp cp tp v (fs(tmp \<mapsto> [])) = (fs1, rt, r)"
    "fs' = (if rt \<and> ae_op env RemoveTemp = None then fs1(tmp := None) else fs1)"
    "fs tmp = None" "tmp \<noteq> tp" "tmp \<noteq> cp" "tmp \<noteq> backup_path tp" "fs tp \<noteq> None" "fs cp \<noteq> None" "ae_temp env = Inr tmp"
proof (cases "\<exists>cp tp tmp. ae_ctx env = None \<and> ae_abs env candidate = Inr cp \<and> ae_abs env target = Inr tp \<and> cp \<noteq> tp \<and> ae_lstat env = Inr True
    \<and> ae_stat env = Inr True \<and> ae_temp env = Inr tmp")
  case True
  then obtain cp tp tmp where c: "ae_ctx env = None" "ae_abs env candidate = Inr cp" "ae_abs env target = Inr tp" "cp \<noteq> tp" "ae_lstat env = Inr True"
    "ae_stat env = Inr True" "ae_temp env = Inr tmp" by blast
  with assms(2) have f: "fs tmp = None" "tmp \<noteq> tp" "tmp \<noteq> cp" "tmp \<noteq> backup_path tp" "fs tp \<noteq> None" "fs cp \<noteq> None"
    by (auto simp: apply_ready_def)
  obtain fs1 rt r1 where t: "fill_temp env tmp cp tp v (fs(tmp \<mapsto> [])) = (fs1, rt, r1)" by (cases "fill_temp env tmp cp tp v (fs(tmp \<mapsto> []))")
  with assms(1) c have "r1 = r" "fs' = (if rt \<and> ae_op env RemoveTemp = None then fs1(tmp := None) else fs1)"
    by (auto simp: ApplyCandidateWithRestartState_def)
  with that(2) c t f show ?thesis by blast
next
  case False
  with assms(1) have "fs' = fs \<and> (\<exists>e. r = Inl e)"
    by (auto simp: ApplyCandidateWithRestartState_def split: option.splits sum.splits bool.splits if_splits)
  with that(1) show ?thesis by blast
qed

text \<open>C21: An update is all or nothing, if what undoes it works. Let \<open>cp\<close> and \<open>tp\<close> be the absolute paths of the
  candidate and the executable. If applying the candidate succeeds, the file at \<open>tp\<close> is the candidate, it reports the
  expected version, and no other file changed. If it fails and the operations that undo it work (the renames and removals
  of the rollback and the removal of the temporary file), every file is as before, except when only the backup could not
  be removed: then the candidate is installed and the old executable is the backup. If they do not work, the executable
  may be missing, but the old one is still at its place or at the path of the backup, and apart from the executable, the
  backup and the temporary file no file changed.\<close>

theorem apply_all_or_nothing:
  assumes "ApplyCandidateWithRestartState env candidate target v fs = (fs', r)" "apply_ready env candidate target fs"
  shows "case r of
      Inr deferred \<Rightarrow> \<not> deferred \<and> (\<exists>cp tp. ae_abs env candidate = Inr cp \<and> ae_abs env target = Inr tp
        \<and> fs' = fs(tp := fs cp) \<and> fs tp \<noteq> None \<and> fs cp \<noteq> None \<and> verifyCandidateVersion (ae_run env) tp v = None)
    | Inl e \<Rightarrow> fs' = fs \<or> (\<exists>cp tp. ae_abs env candidate = Inr cp \<and> ae_abs env target = Inr tp
        \<and> (rollback_works env \<longrightarrow> ae_op env RemoveBackup \<noteq> None \<and> fs' = fs(tp := fs cp, backup_path tp := fs tp))
        \<and> (fs' tp = fs tp \<or> fs' (backup_path tp) = fs tp)
        \<and> (\<forall>p. p \<notin> {tp, backup_path tp} \<and> ae_temp env \<noteq> Inr p \<longrightarrow> fs' p = fs p))"
  using assms
proof (cases rule: apply_steps)
  case (2 cp tp tmp fs1 rt)
  show ?thesis
  proof (cases r)
    case (Inr d)
    with apply_success [OF 2(3) [unfolded Inr] 2(5-8, 4)] 2 show ?thesis by auto
  next
    case (Inl e)
    have "fs' tp = fs tp \<or> fs' (backup_path tp) = fs tp" "\<forall>p. p \<notin> {tp, backup_path tp, tmp} \<longrightarrow> fs' p = fs p"
      using fill_temp_keeps [OF 2(3) [unfolded Inl] 2(6-8)] 2(4, 6, 8) by auto
    moreover have "fs' = fs \<or> ae_op env RemoveBackup \<noteq> None \<and> fs' = fs(tp := fs cp, backup_path tp := fs tp)" if "rollback_works env"
      using apply_rolled_back [OF 2(3) [unfolded Inl] 2(5-8, 4) that] .
    ultimately show ?thesis using Inl 2(1, 2, 11) by (auto simp del: fun_upd_apply)
  qed
qed auto

text \<open>The limit of the rollback: if it fails, too, there is no executable any more at its path, only the backup.\<close>

lemma failed_rollback_loses_executable:
  defines "env \<equiv> \<lparr>ae_ctx = None, ae_abs = Inr, ae_lstat = Inr True, ae_stat = Inr True, ae_temp = Inr ''/b/t'',
    ae_op = \<lambda>opn. if opn \<in> {RenameNew, RollbackNew} then Some (ErrMsg ''rename'') else None, ae_run = \<lambda>_. Inr ''v1.2.0''\<rparr>"
  defines "fs \<equiv> [''/s/pxgo'' \<mapsto> [2], ''/b/pxgo'' \<mapsto> [1]]"
  shows "fst (ApplyCandidateWithRestartState env ''/s/pxgo'' ''/b/pxgo'' ''1.2.0'' fs) ''/b/pxgo'' = None"
  by (simp add: ApplyCandidateWithRestartState_def fill_temp_def first_failure_def List.map_filter_simps activate_def try_op_def env_def
      fs_def rename_file_def backup_path_def Let_def)

theorem apply_all_or_nothing_witness:
  defines "env \<equiv> \<lparr>ae_ctx = None, ae_abs = \<lambda>p. Inr (if has_prefix p ''/'' then p else ''/w/'' @ p), ae_lstat = Inr True, ae_stat = Inr True, ae_temp = Inr ''/b/t'',
    ae_op = \<lambda>_. None, ae_run = \<lambda>_. Inr ''v1.2.0''\<rparr>"
  defines "fs \<equiv> [''/w/pxgo'' \<mapsto> [2], ''/b/pxgo'' \<mapsto> [1]]"
  shows "fst (ApplyCandidateWithRestartState env ''pxgo'' ''/b/pxgo'' ''1.2.0'' fs) = fs(''/b/pxgo'' \<mapsto> [2])"
proof -
  obtain fs' r where a: "ApplyCandidateWithRestartState env ''pxgo'' ''/b/pxgo'' ''1.2.0'' fs = (fs', r)" by fastforce
  have ab: "ae_abs env ''pxgo'' = Inr ''/w/pxgo''" "ae_abs env ''/b/pxgo'' = Inr ''/b/pxgo''" by (simp_all add: env_def has_prefix_def)
  then have ok: "apply_ready env ''pxgo'' ''/b/pxgo'' fs" by (simp add: apply_ready_def) (simp add: env_def fs_def backup_path_def)
  have v: "verifyCandidateVersion (\<lambda>_. Inr ''v1.2.0'') ''/b/pxgo'' ''1.2.0'' = None" by (rule ex_version)
  have "\<exists>d. r = Inr d"
    using a by (auto simp: ApplyCandidateWithRestartState_def fill_temp_def first_failure_def List.map_filter_simps activate_def try_op_def env_def
        fs_def v rename_file_def backup_path_def has_prefix_def Let_def split: if_splits)
  with apply_all_or_nothing [OF a ok] a ab show ?thesis by (auto simp: fs_def)
qed

section \<open>A direct update\<close>

lemma checked_status:
  assumes "Service_Check env s current = Inr status"
  shows "\<not> us_Applied status \<and> \<not> us_Deferred status
    \<and> (\<exists>target. own_executable env s = Inr target
         \<and> (us_Provider status = ProviderDirect \<longrightarrow> detectManagedProvider (vn_paths env) (ownership_path env target) (service_goos env s) = None))"
  using assms resolved_provider by (auto simp: Service_Check_def Let_def split: sum.splits)

lemma prepared_staged:
  assumes "Prepare env s base stale current w = (w', Inr p)"
  shows "Service_Check env s current = Inr (pu_Status p)
    \<and> (us_Available (pu_Status p) \<and> us_Provider (pu_Status p) = ProviderDirect \<longrightarrow>
       (\<exists>fs0 staged. StageCheck (vn_stage env) (service_stager s) (check_of (pu_Status p)) fs0 = (uw_fs w', Inr staged) \<and> pu_staged p = Some staged))"
  using assms by (fastforce simp: Prepare_def Let_def split: sum.splits prod.splits if_splits)

lemma cleanup_fs:
  "uw_fs (fst (Prepared_Cleanup env p w)) = (case pu_staged p of None \<Rightarrow> uw_fs w | Some st \<Rightarrow> fst (Staged_Cleanup (vn_stage env) st (uw_fs w)))"
  by (simp add: Prepared_Cleanup_def split: option.split prod.split)

lemma direct_update:
  assumes "Service_Update env s base stale current w = (w', Inr st)" "us_Applied st" "us_Provider st = ProviderDirect"
  obtains fs0 fs1 staged target files' status where "Service_Check env s current = Inr status" "us_Available status" "us_Provider status = ProviderDirect"
    "st = status\<lparr>us_Applied := True, us_Deferred := False\<rparr>" "StageCheck (vn_stage env) (service_stager s) (check_of status) fs0 = (fs1, Inr staged)"
    "own_executable env s = Inr target"
    "vn_apply env (sc_BinaryPath staged) target (us_Latest status) (sf_files fs1) = (files', Inr False)"
    "uw_fs w' = fst (Staged_Cleanup (vn_stage env) staged (fs1\<lparr>sf_files := files'\<rparr>))"
proof -
  obtain w1 p where p: "Prepare env s base stale current w = (w1, Inr p)"
    and a: "\<exists>w2 p'. ApplyPreparedWithRestart env s p w1 = (w2, p', Inr st) \<and> w' = (if us_Deferred (pu_Status p') then w2 else fst (Prepared_Cleanup env p' w2))"
    using assms(1) by (auto simp: Service_Update_def split: prod.splits sum.splits)
  define status where "status = pu_Status p"
  have c: "Service_Check env s current = Inr status" "pu_Status p = status" using prepared_staged [OF p] by (simp_all add: status_def)
  have na: "\<not> us_Applied status" "\<not> us_Deferred status" using checked_status [OF c(1)] by simp_all
  have stg: "us_Available status \<and> us_Provider status = ProviderDirect \<longrightarrow>
      (\<exists>fs0 staged. StageCheck (vn_stage env) (service_stager s) (check_of status) fs0 = (uw_fs w1, Inr staged) \<and> pu_staged p = Some staged)"
    using prepared_staged [OF p] by (simp add: status_def)
  have dir: "us_Available status" "us_Provider status = ProviderDirect"
    using a c na assms(2, 3) by (auto simp: ApplyPreparedWithRestart_def Let_def split: if_splits option.splits sum.splits prod.splits)
  with stg obtain fs0 staged where g: "StageCheck (vn_stage env) (service_stager s) (check_of status) fs0 = (uw_fs w1, Inr staged)" "pu_staged p = Some staged"
    by blast
  from a c dir g(2) assms(2) obtain target files' where t: "own_executable env s = Inr target"
    "vn_apply env (sc_BinaryPath staged) target (us_Latest status) (sf_files (uw_fs w1)) = (files', Inr False)"
    "st = status\<lparr>us_Applied := True, us_Deferred := False\<rparr>" "uw_fs w' = fst (Staged_Cleanup (vn_stage env) staged ((uw_fs w1)\<lparr>sf_files := files'\<rparr>))"
    by (auto simp: ApplyPreparedWithRestart_def Let_def cleanup_fs split: sum.splits prod.splits if_splits)
  show thesis by (rule that [OF c(1) dir t(3) g(1) t(1, 2, 4)])
qed

lemma applied_candidate:
  assumes "ApplyCandidateWithRestartState ae candidate target v fs = (fs', Inr d)" "ae_abs ae candidate = Inr candidate" "ae_abs ae target = Inr target"
    "\<forall>tmp. ae_temp ae = Inr tmp \<longrightarrow> tmp \<noteq> target \<and> tmp \<noteq> candidate \<and> tmp \<noteq> backup_path target"
  shows "\<not> d \<and> fs' target = fs candidate \<and> verifyCandidateVersion (ae_run ae) target v = None"
proof -
  obtain tmp rt fs1 where t: "ae_temp ae = Inr tmp" "candidate \<noteq> target" "fill_temp ae tmp candidate target v (fs(tmp \<mapsto> [])) = (fs1, rt, Inr d)"
    "fs' = (if rt \<and> ae_op ae RemoveTemp = None then fs1(tmp := None) else fs1)"
    using assms(1-3) by (auto simp: ApplyCandidateWithRestartState_def split: option.splits sum.splits bool.splits if_splits prod.splits)
  with assms(4) fill_temp_ok [OF t(3)] show ?thesis by auto
qed

text \<open>The path of the executable and those in the staging directory are absolute, and the executable and its temporary
  copy are outside of the staging directory.\<close>

definition apart :: "serviceEnv \<Rightarrow> applyEnv \<Rightarrow> string \<Rightarrow> bool" where
  "apart env ae target \<longleftrightarrow> ae_abs ae target = Inr target
     \<and> (\<forall>dir p. sn_mkdir (vn_stage env) = Inr dir \<and> below dir p \<longrightarrow> ae_abs ae p = Inr p)
     \<and> (\<forall>tmp. ae_temp ae = Inr tmp \<longrightarrow> tmp \<noteq> target \<and> tmp \<noteq> backup_path target)
     \<and> (\<forall>dir. sn_mkdir (vn_stage env) = Inr dir \<longrightarrow> \<not> below dir target \<and> (\<forall>tmp. ae_temp ae = Inr tmp \<longrightarrow> \<not> below dir tmp))"

text \<open>C20: A direct update installs an authentic release. When the service reports a direct update as applied, with the
  replacement of the executable and the check of addresses that are built in, the update was available, no package
  manager owns the executable, the executable is now the binary of the archive for the platform whose digest is the one
  in the checksums of the release, fetched from the pinned repository, and it reports the version of the release.\<close>

theorem applied_update_authentic:
  assumes "Service_Update env s base stale current w = (w', Inr st)" "us_Applied st" "us_Provider st = ProviderDirect"
    "vn_apply env = ApplyCandidateWithRestartState ae" "sg_ValidateURL (se_Stager s) = None" "own_executable env s = Inr target" "apart env ae target"
  shows "us_Available st \<and> detectManagedProvider (vn_paths env) (ownership_path env target) (service_goos env s) = None
    \<and> (\<exists>archive binary. authentic (vn_stage env) (rl_Assets (us_Release st)) (stage_goos (vn_stage env) (service_stager s))
           (stage_goarch (vn_stage env) (service_stager s)) archive binary
         \<and> sf_files (uw_fs w') target = Some binary)
    \<and> verifyCandidateVersion (ae_run ae) target (us_Latest st) = None"
proof -
  obtain fs0 fs1 staged t files' status where c: "Service_Check env s current = Inr status" "us_Available status" "us_Provider status = ProviderDirect"
    and st: "st = status\<lparr>us_Applied := True, us_Deferred := False\<rparr>"
    and g: "StageCheck (vn_stage env) (service_stager s) (check_of status) fs0 = (fs1, Inr staged)" and t: "own_executable env s = Inr t"
    and a: "vn_apply env (sc_BinaryPath staged) t (us_Latest status) (sf_files fs1) = (files', Inr False)"
    and w': "uw_fs w' = fst (Staged_Cleanup (vn_stage env) staged (fs1\<lparr>sf_files := files'\<rparr>))"
    by (rule direct_update [OF assms(1-3)])
  have sg: "sg_ValidateURL (service_stager s) = None" using assms(5) by (simp add: service_stager_def Let_def)
  have place: "sn_mkdir (vn_stage env) = Inr (sc_Dir staged)" "below (sc_Dir staged) (sc_BinaryPath staged)" using stage_place [OF g] by auto
  from a t assms(4, 6) have ap: "ApplyCandidateWithRestartState ae (sc_BinaryPath staged) target (us_Latest status) (sf_files fs1) = (files', Inr False)" by simp
  have new: "files' target = sf_files fs1 (sc_BinaryPath staged)" "verifyCandidateVersion (ae_run ae) target (us_Latest status) = None"
    using applied_candidate [OF ap] assms(7) place by (auto simp: apart_def)
  have "sf_files (uw_fs w') target = files' target"
    using w' assms(7) place by (cases "sn_removeAll (vn_stage env) (sc_Dir staged)") (auto simp: Staged_Cleanup_def apart_def)
  with new stage_facts(2) [OF g sg] checked_status [OF c(1)] c st assms(6) show ?thesis by (auto simp: check_of_def)
qed

section \<open>Lock and staging directories\<close>

lemma remove_dirs: "set (sf_dirs (fst (RemoveAll out d fs))) \<subseteq> set (sf_dirs fs)" by (cases out) auto

lemma fold_dirs:
  assumes "\<And>e fs. set (sf_dirs (f e fs)) \<subseteq> set (sf_dirs fs)"
  shows "set (sf_dirs (fold f es fs)) \<subseteq> set (sf_dirs fs)"
proof (induction es arbitrary: fs)
  case (Cons e es)
  show ?case using Cons [of "f e fs"] assms [of e fs] by simp
qed simp

lemma stale_dirs: "set (sf_dirs (CleanupStaleStaging base d es fs)) \<subseteq> set (sf_dirs fs)"
  unfolding CleanupStaleStaging_def Let_def by (rule fold_dirs) (simp add: remove_dirs)

text \<open>What a prepared update still has to give back; directories that cannot be removed are written off.\<close>

definition stuck_dirs :: "serviceEnv \<Rightarrow> string set" where
  "stuck_dirs env = {d. sn_removeAll (vn_stage env) d \<noteq> Removed}"

definition stuck_lock :: "serviceEnv \<Rightarrow> bool" where
  "stuck_lock env \<longleftrightarrow> le_unlock (vn_lock env) \<noteq> None \<and> le_close (vn_lock env) \<noteq> None"

definition owes :: "serviceEnv \<Rightarrow> updateWorld \<Rightarrow> PreparedUpdate \<Rightarrow> updateWorld \<Rightarrow> bool" where
  "owes env w p w' \<longleftrightarrow> (uw_locked w' \<longrightarrow> uw_locked w \<or> pu_lock p \<or> stuck_lock env)
     \<and> (\<forall>d \<in> set (sf_dirs (uw_fs w')). d \<in> set (sf_dirs (uw_fs w)) \<union> stuck_dirs env \<or> (\<exists>st. pu_staged p = Some st \<and> d = sc_Dir st \<and> trim_space d \<noteq> []))"

definition settled_update :: "serviceEnv \<Rightarrow> updateWorld \<Rightarrow> updateWorld \<Rightarrow> bool" where
  "settled_update env w w' \<longleftrightarrow> (uw_locked w' \<longrightarrow> uw_locked w \<or> stuck_lock env)
     \<and> set (sf_dirs (uw_fs w')) \<subseteq> set (sf_dirs (uw_fs w)) \<union> stuck_dirs env"

lemma cleanup_dirs:
  assumes "d \<in> set (sf_dirs (fst (Staged_Cleanup (vn_stage env) st fs)))" "trim_space (sc_Dir st) \<noteq> []" "d \<notin> stuck_dirs env"
  shows "d \<in> set (sf_dirs fs) \<and> d \<noteq> sc_Dir st"
  using assms by (cases "sn_removeAll (vn_stage env) (sc_Dir st)") (auto simp: Staged_Cleanup_def stuck_dirs_def)

lemma cleanup_settles:
  assumes "owes env w p w'"
  shows "settled_update env w (fst (Prepared_Cleanup env p w'))"
proof -
  have "set (sf_dirs (uw_fs (fst (Prepared_Cleanup env p w')))) \<subseteq> set (sf_dirs (uw_fs w)) \<union> stuck_dirs env"
  proof (cases "pu_staged p")
    case None
    with assms show ?thesis by (auto simp: owes_def cleanup_fs)
  next
    case (Some st)
    show ?thesis
    proof (cases "trim_space (sc_Dir st) = []")
      case True
      with assms Some show ?thesis by (auto simp: owes_def cleanup_fs Staged_Cleanup_def)
    next
      case False
      with assms Some cleanup_dirs [of _ env st "uw_fs w'"] show ?thesis by (auto simp: owes_def cleanup_fs)
    qed
  qed
  moreover have "uw_locked (fst (Prepared_Cleanup env p w')) \<longrightarrow> uw_locked w \<or> stuck_lock env"
    using assms by (auto simp: owes_def stuck_lock_def Prepared_Cleanup_def updateLock_Close_def split: option.splits prod.splits if_splits)
  ultimately show ?thesis by (simp add: settled_update_def)
qed

lemma prepare_owes:
  assumes "Prepare env s base stale current w = (w', r)" "fresh_dir (vn_stage env) (CleanupStaleStaging base (24 * hour) stale (uw_fs w))"
  shows "case r of Inl _ \<Rightarrow> settled_update env w w' | Inr p \<Rightarrow> owes env w p w'"
proof (cases "acquireUpdateLock (vn_lock env) (updateLockPath (vn_lock env) (se_StatePath s))")
  case (Inl e)
  with assms(1) show ?thesis by (auto simp: Prepare_def settled_update_def)
next
  case (Inr lock)
  define fs0 where "fs0 = CleanupStaleStaging base (24 * hour) stale (uw_fs w)"
  define w0 where "w0 = (if lock then w\<lparr>uw_locked := True\<rparr> else w)\<lparr>uw_fs := fs0\<rparr>"
  have sub: "set (sf_dirs fs0) \<subseteq> set (sf_dirs (uw_fs w))" unfolding fs0_def by (rule stale_dirs)
  have owes0: "owes env w (p\<lparr>pu_staged := None, pu_lock := lock\<rparr>) w0" for p using sub by (auto simp: owes_def w0_def)
  have fs: "uw_fs w0 = fs0" by (simp add: w0_def)
  have w0: "(if lock then w\<lparr>uw_locked := True\<rparr> else w)\<lparr>uw_fs := CleanupStaleStaging base (24 * hour) stale (uw_fs (if lock then w\<lparr>uw_locked := True\<rparr> else w))\<rparr> = w0"
    by (simp add: w0_def fs0_def)
  show ?thesis
  proof (cases "Service_Check env s current")
    case c: (Inl e)
    with assms(1) Inr have "w' = fst (Prepared_Cleanup env \<lparr>pu_Status = zero_status, pu_staged = None, pu_lock = lock\<rparr> w0)" "r = Inl e"
      by (simp_all add: Prepare_def Let_def w0)
    with cleanup_settles [OF owes0 [of "\<lparr>pu_Status = zero_status, pu_staged = None, pu_lock = lock\<rparr>"]] show ?thesis by simp
  next
    case c: (Inr status)
    let ?p = "\<lparr>pu_Status = status, pu_staged = None, pu_lock = lock\<rparr>"
    have owes1: "owes env w ?p w0" using owes0 [of ?p] by simp
    show ?thesis
    proof (cases "\<not> us_Available status \<or> us_Provider status \<noteq> ProviderDirect")
      case True
      with assms(1) Inr c owes1 show ?thesis by (auto simp: Prepare_def Let_def w0)
    next
      case False
      obtain fs1 r1 where st: "StageCheck (vn_stage env) (service_stager s) (check_of status) fs0 = (fs1, r1)" by fastforce
      show ?thesis
      proof (cases r1)
        case (Inl e)
        have "set (sf_dirs fs1) \<subseteq> set (sf_dirs fs0) \<union> stuck_dirs env"
          using failed_stage [OF st [unfolded Inl] assms(2) [folded fs0_def]] by (auto simp: stuck_dirs_def)
        with sub have "owes env w ?p (w0\<lparr>uw_fs := fs1\<rparr>)" by (auto simp: owes_def w0_def)
        moreover have "w' = fst (Prepared_Cleanup env ?p (w0\<lparr>uw_fs := fs1\<rparr>))" "r = Inl e"
          using assms(1) \<open>acquireUpdateLock _ _ = _\<close> c False st Inl by (auto simp: Prepare_def Let_def w0 fs)
        ultimately show ?thesis using cleanup_settles by simp
      next
        case (Inr staged)
        note place = stage_place [OF st [unfolded Inr]]
        have "trim_space (sc_Dir staged) \<noteq> []" using assms(2) place by (auto simp: fresh_dir_def)
        with place sub have "owes env w (?p\<lparr>pu_staged := Some staged\<rparr>) (w0\<lparr>uw_fs := fs1\<rparr>)" by (auto simp: owes_def w0_def)
        moreover have "w' = w0\<lparr>uw_fs := fs1\<rparr>" "r = Inr (?p\<lparr>pu_staged := Some staged\<rparr>)"
          using assms(1) \<open>acquireUpdateLock _ _ = _\<close> c False st Inr by (auto simp: Prepare_def Let_def w0 fs)
        ultimately show ?thesis by simp
      qed
    qed
  qed
qed

lemma apply_owes:
  assumes "ApplyPreparedWithRestart env s p w1 = (w2, p2, r)" "owes env w p w1"
  shows "owes env w p2 w2"
proof -
  have "owes env w (p\<lparr>pu_Status := x\<rparr>) w1" for x using assms(2) by (simp add: owes_def)
  moreover have "owes env w (p\<lparr>pu_Status := x\<rparr>) (w1\<lparr>uw_fs := (uw_fs w1)\<lparr>sf_files := f\<rparr>\<rparr>)" "owes env w p (w1\<lparr>uw_fs := (uw_fs w1)\<lparr>sf_files := f\<rparr>\<rparr>)" for x f
    using assms(2) by (simp_all add: owes_def)
  moreover have "owes env w (p\<lparr>pu_Status := x, pu_staged := None, pu_lock := False\<rparr>) (fst (Prepared_Cleanup env (p\<lparr>pu_Status := x\<rparr>) (w1\<lparr>uw_fs := (uw_fs w1)\<lparr>sf_files := f\<rparr>\<rparr>)))" for x f
    using cleanup_settles [of env w "p\<lparr>pu_Status := x\<rparr>" "w1\<lparr>uw_fs := (uw_fs w1)\<lparr>sf_files := f\<rparr>\<rparr>"] calculation by (auto simp: settled_update_def owes_def)
  ultimately show ?thesis
    using assms by (auto simp: ApplyPreparedWithRestart_def Let_def split: if_splits option.splits sum.splits prod.splits)
qed

lemma apply_deferred:
  assumes "ApplyPreparedWithRestart env s p w1 = (w2, p2, r)" "\<not> us_Deferred (pu_Status p)" "us_Deferred (pu_Status p2)"
  shows "\<exists>st. r = Inr st \<and> us_Deferred st"
  using assms by (auto simp: ApplyPreparedWithRestart_def Let_def split: if_splits option.splits sum.splits prod.splits)

text \<open>C23: An update leaves nothing behind that can be removed. Unless it is deferred, a run of the service, whether it
  succeeds or fails at any point, ends with the lock released, unless both the unlocking and the closing of its file fail,
  and every staging directory that was not there before is one that \<^verbatim>\<open>os.RemoveAll\<close>, whose error is ignored, failed to
  remove; when another update holds the lock, it changes nothing and reports that.\<close>

theorem update_cleans_up:
  assumes "Service_Update env s base stale current w = (w', r)" "\<not> uw_locked w"
    "fresh_dir (vn_stage env) (CleanupStaleStaging base (24 * hour) stale (uw_fs w))"
  shows "((\<forall>st. r = Inr st \<longrightarrow> \<not> us_Deferred st) \<longrightarrow>
        (uw_locked w' \<longrightarrow> le_unlock (vn_lock env) \<noteq> None \<and> le_close (vn_lock env) \<noteq> None)
        \<and> (\<forall>d \<in> set (sf_dirs (uw_fs w')). d \<in> set (sf_dirs (uw_fs w)) \<or> sn_removeAll (vn_stage env) d \<noteq> Removed))
    \<and> (se_StatePath s \<noteq> [] \<and> le_mkdir (vn_lock env) = None \<and> le_open (vn_lock env) = None \<and> le_flock (vn_lock env) = WouldBlock
       \<longrightarrow> w' = w \<and> r = Inl ErrUpdateBusy)"
proof -
  obtain w1 r1 where p: "Prepare env s base stale current w = (w1, r1)" by fastforce
  note owe = prepare_owes [OF p assms(3)]
  have "settled_update env w w'" if nd: "\<forall>st. r = Inr st \<longrightarrow> \<not> us_Deferred st"
  proof (cases r1)
    case (Inl e)
    with owe assms(1) p show ?thesis by (simp add: Service_Update_def)
  next
    case (Inr pr)
    obtain w2 p2 r2 where a: "ApplyPreparedWithRestart env s pr w1 = (w2, p2, r2)" by (cases "ApplyPreparedWithRestart env s pr w1")
    have out: "w' = (if us_Deferred (pu_Status p2) then w2 else fst (Prepared_Cleanup env p2 w2))" "r = r2"
      using assms(1) p Inr a by (simp_all add: Service_Update_def)
    have "\<not> us_Deferred (pu_Status pr)" using prepared_staged [OF p [unfolded Inr]] checked_status by blast
    with apply_deferred [OF a] nd out have "w' = fst (Prepared_Cleanup env p2 w2)" by auto
    with cleanup_settles [OF apply_owes [OF a]] owe Inr show ?thesis by simp
  qed
  moreover have "w' = w \<and> r = Inl ErrUpdateBusy"
    if "se_StatePath s \<noteq> []" "le_mkdir (vn_lock env) = None" "le_open (vn_lock env) = None" "le_flock (vn_lock env) = WouldBlock"
    using assms(1) that by (simp add: Service_Update_def Prepare_def acquireUpdateLock_def updateLockPath_def path_in_def)
  ultimately show ?thesis using assms(2) by (auto simp: settled_update_def stuck_lock_def stuck_dirs_def)
qed

section \<open>An example\<close>

definition ex_apply_env :: applyEnv where
  "ex_apply_env = \<lparr>ae_ctx = None, ae_abs = Inr, ae_lstat = Inr True, ae_stat = Inr True, ae_temp = Inr ''/b/t'', ae_op = \<lambda>_. None, ae_run = \<lambda>_. Inr ''v1.2.0''\<rparr>"

definition ex_release :: githubRelease where
  "ex_release = \<lparr>gr_TagName = ''v1.2.0'', gr_Draft = False, gr_Prerelease = False, gr_Assets = rl_Assets (ck_Release ex_check)\<rparr>"

definition ex_service_env :: serviceEnv where
  "ex_service_env = \<lparr>vn_stage = ex_stage_env, vn_api = \<lparr>api_one = \<lambda>_. Inr ex_release, api_all = \<lambda>_. Inr []\<rparr>,
     vn_paths = \<lparr>pe_getenv = \<lambda>_. [], pe_symlinks = \<lambda>_. None\<rparr>, vn_executable = Inr ''/b/pxgo'', vn_lookPath = \<lambda>_. None, vn_runner = \<lambda>_ _. None,
     vn_lock = \<lparr>le_dir = \<lambda>_. ''/c'', le_mkdir = None, le_open = None, le_flock = Flocked, le_unlock = None, le_close = None\<rparr>, vn_apply = ApplyCandidateWithRestartState ex_apply_env\<rparr>"

definition ex_service :: Service where
  "ex_service = \<lparr>se_Checker = \<lparr>ch_APIBase = [], ch_Repository = [], ch_Channel = []\<rparr>, se_Stager = ex_stager, se_Provider = [], se_Channel = [],
     se_Executable = ''/b/pxgo'', se_StatePath = ''/c/s'', se_GOOS = ''linux'', se_GOARCH = ''amd64'', se_VerifyInstalled = None\<rparr>"

definition ex_world :: updateWorld where
  "ex_world = \<lparr>uw_fs = \<lparr>sf_dirs = [], sf_files = [''/b/pxgo'' \<mapsto> [9]]\<rparr>, uw_locked = False\<rparr>"

lemma ex_resolved: "ResolveProvider \<lparr>pe_getenv = \<lambda>_. [], pe_symlinks = \<lambda>_. None\<rparr> ''auto'' ''/b/pxgo'' ''linux'' = Inr ''direct''"
  by code_simp

definition ex_status :: updateStatus where
  "ex_status = \<lparr>us_Current = ''1.1.0'', us_Latest = ''1.2.0'', us_Available = True, us_Provider = ''direct'', us_Channel = ''stable'',
     us_Release = ck_Release ex_check, us_Applied = False, us_Deferred = False\<rparr>"

lemma ex_checked: "Service_Check ex_service_env ex_service ''1.1.0'' = Inr ex_status"
proof -
  have n: "normalizeVersion ''v1.2.0'' = Inr ''1.2.0''" "normalizeVersion ''1.1.0'' = Inr ''1.1.0''" by (simp_all add: version_eval)
  have cmp: "CompareVersions ''1.2.0'' ''1.1.0'' = 1" by (simp add: CompareVersions_def version_eval)
  have pc: "ParseChannel ''stable'' = Inr ''stable''" by code_simp
  have rep: "validRepository DefaultRepository" by code_simp
  show ?thesis
    by (simp add: Service_Check_def Let_def ex_service_env_def ex_service_def own_executable_def ownership_path_def service_goos_def ProviderAuto_def
        ex_resolved Stable_def pc Checker_Check_def rep choose_release_def ex_release_def n cmp ex_status_def ex_check_def)
qed

lemma ex_applied:
  "files (path_in ''/tmp/u'' ''pxgo'') = Some [1, 2] \<Longrightarrow> files ''/b/pxgo'' = Some [9] \<Longrightarrow> files (backup_path ''/b/pxgo'') = None
     \<Longrightarrow> \<exists>files'. ApplyCandidateWithRestartState ex_apply_env (path_in ''/tmp/u'' ''pxgo'') ''/b/pxgo'' ''1.2.0'' files = (files', Inr False)"
  using ex_version [of "''/b/pxgo''"]
  by (simp add: ApplyCandidateWithRestartState_def fill_temp_def first_failure_def List.map_filter_simps activate_def try_op_def ex_apply_env_def
      backup_path_def path_in_def Let_def)

lemma ex_update:
  "\<exists>w'. Service_Update ex_service_env ex_service ''/tmp'' [] ''1.1.0'' ex_world = (w', Inr (ex_status\<lparr>us_Applied := True, us_Deferred := False\<rparr>))"
proof -
  have sg: "service_stager ex_service = ex_stager" by (simp add: service_stager_def ex_service_def ex_stager_def)
  have ck: "check_of ex_status = ex_check" by (simp add: check_of_def ex_status_def ex_check_def)
  have env: "vn_stage ex_service_env = ex_stage_env" "vn_apply ex_service_env = ApplyCandidateWithRestartState ex_apply_env"
    "own_executable ex_service_env ex_service = Inr ''/b/pxgo''" "us_Available ex_status" "us_Provider ex_status = ProviderDirect" "us_Latest ex_status = ''1.2.0''"
    by (simp_all add: ex_service_env_def ex_service_def own_executable_def ex_status_def ProviderDirect_def)
  have lock: "acquireUpdateLock (vn_lock ex_service_env) (updateLockPath (vn_lock ex_service_env) (se_StatePath ex_service)) = Inr True"
    by (simp add: ex_service_env_def ex_service_def updateLockPath_def path_in_def acquireUpdateLock_def)
  have stale: "CleanupStaleStaging ''/tmp'' d [] fs = fs" for d fs by (simp add: CleanupStaleStaging_def)
  define fs1 where "fs1 = put_file (sc_BinaryPath ex_staged) [1, 2] (put_file (sc_ArchivePath ex_staged) [7] ((uw_fs ex_world)\<lparr>sf_dirs := ''/tmp/u'' # sf_dirs (uw_fs ex_world)\<rparr>))"
  have "sf_files fs1 (path_in ''/tmp/u'' ''pxgo'') = Some [1, 2]" "sf_files fs1 ''/b/pxgo'' = Some [9]" "sf_files fs1 (backup_path ''/b/pxgo'') = None"
    by (simp_all add: fs1_def put_file_def ex_staged_def path_in_def backup_path_def ex_world_def)
  from ex_applied [OF this] obtain files' where ap:
    "ApplyCandidateWithRestartState ex_apply_env (path_in ''/tmp/u'' ''pxgo'') ''/b/pxgo'' ''1.2.0'' (sf_files fs1) = (files', Inr False)" by blast
  have bp: "sc_BinaryPath ex_staged = path_in ''/tmp/u'' ''pxgo''" by (simp add: ex_staged_def)
  have pr: "Prepare ex_service_env ex_service ''/tmp'' [] ''1.1.0'' ex_world
      = (ex_world\<lparr>uw_locked := True, uw_fs := fs1\<rparr>, Inr \<lparr>pu_Status = ex_status, pu_staged = Some ex_staged, pu_lock = True\<rparr>)"
    by (simp add: Prepare_def Let_def lock stale ex_checked env sg ck ex_stage_check fs1_def)
  show ?thesis by (simp add: Service_Update_def pr ApplyPreparedWithRestart_def Let_def env bp ap)
qed

theorem applied_update_authentic_witness:
  "\<exists>w' st. Service_Update ex_service_env ex_service ''/tmp'' [] ''1.1.0'' ex_world = (w', Inr st) \<and> us_Applied st
     \<and> (\<exists>archive binary. authentic ex_stage_env (rl_Assets (us_Release st)) ''linux'' ''amd64'' archive binary \<and> sf_files (uw_fs w') ''/b/pxgo'' = Some binary)"
proof -
  let ?st = "ex_status\<lparr>us_Applied := True, us_Deferred := False\<rparr>"
  obtain w' where w: "Service_Update ex_service_env ex_service ''/tmp'' [] ''1.1.0'' ex_world = (w', Inr ?st)" using ex_update by blast
  have h: "us_Applied ?st" "us_Provider ?st = ProviderDirect" "vn_apply ex_service_env = ApplyCandidateWithRestartState ex_apply_env"
    "sg_ValidateURL (se_Stager ex_service) = None" "own_executable ex_service_env ex_service = Inr ''/b/pxgo''" "vn_stage ex_service_env = ex_stage_env"
    "stage_goos ex_stage_env (service_stager ex_service) = ''linux''" "stage_goarch ex_stage_env (service_stager ex_service) = ''amd64''"
    by (simp_all add: ex_status_def ProviderDirect_def ex_service_env_def ex_service_def ex_stager_def own_executable_def stage_goos_def stage_goarch_def service_stager_def)
  have "apart ex_service_env ex_apply_env ''/b/pxgo''"
    by (simp add: apart_def ex_apply_env_def backup_path_def ex_service_env_def ex_stage_env_def below_def has_prefix_def)
  from applied_update_authentic [OF w h(1-5) this] h w show ?thesis by auto
qed

theorem update_cleans_up_witness:
  "\<exists>w' r. Service_Update ex_service_env ex_service ''/tmp'' [] ''1.1.0'' ex_world = (w', r) \<and> \<not> uw_locked w' \<and> sf_dirs (uw_fs w') = []"
proof -
  let ?st = "ex_status\<lparr>us_Applied := True, us_Deferred := False\<rparr>"
  obtain w' where w: "Service_Update ex_service_env ex_service ''/tmp'' [] ''1.1.0'' ex_world = (w', Inr ?st)" using ex_update by blast
  have f: "fresh_dir (vn_stage ex_service_env) (CleanupStaleStaging ''/tmp'' (24 * hour) [] (uw_fs ex_world))"
    by (auto simp: fresh_dir_def CleanupStaleStaging_def ex_world_def ex_service_env_def ex_stage_env_def below_def has_prefix_def trim_space_def
        trim_right_by_def go_space_def)
  have "\<not> uw_locked ex_world" "sf_dirs (uw_fs ex_world) = []" by (simp_all add: ex_world_def)
  moreover have "le_unlock (vn_lock ex_service_env) = None" "sn_removeAll (vn_stage ex_service_env) d = Removed" for d
    by (simp_all add: ex_service_env_def ex_stage_env_def)
  moreover have "\<not> us_Deferred ?st" by simp
  ultimately have "\<not> uw_locked w'" "\<forall>d. d \<notin> set (sf_dirs (uw_fs w'))" using update_cleans_up [OF w _ f] by auto
  with w show ?thesis by (metis list.set_intros(1) neq_Nil_conv)
qed

end
