(* ===== verification/Proxy_Tunnels.thy ===== *)
theory Proxy_Tunnels
  imports Go_Prelude "HOL-Library.Multiset"
begin

text \<open>
  Connections that outlive a request: CONNECT and upgrade tunnels and their drain at shutdown,
  \<^verbatim>\<open>internal/proxy/tunnel.go\<close>, and the admission of client connections, \<^verbatim>\<open>internal/proxy/admission.go\<close>.
  Every operation is the critical section that the code runs under its lock; a channel is an index
  into the list of its closed flags, a tunnel a number.
\<close>

section \<open>Tunnels (tunnel.go)\<close>

record tunnelState =
  tunnels :: "nat list"
  tunnelPending :: nat
  tunnelZero :: nat
  channels :: "bool list"
  tunnelShuttingDown :: bool
  active :: int
  closedTunnels :: "nat list"
  nextTunnel :: nat

text \<open>A new server holds a channel that is closed already.\<close>

definition new_tunnels :: tunnelState where
  "new_tunnels = \<lparr>tunnels = [], tunnelPending = 0, tunnelZero = 0, channels = [True], tunnelShuttingDown = False,
     active = 0, closedTunnels = [], nextTunnel = 0\<rparr>"

definition signalTunnelZeroLocked :: "tunnelState \<Rightarrow> tunnelState" where
  "signalTunnelZeroLocked s =
     (if tunnelPending s \<noteq> 0 \<or> tunnels s \<noteq> [] then s
      else s\<lparr>channels := (channels s)[tunnelZero s := True]\<rparr>)"

definition reserveTunnel :: "tunnelState \<Rightarrow> tunnelState \<times> bool" where
  "reserveTunnel s =
     (if tunnelShuttingDown s then (s, False)
      else
        let s = (if tunnelPending s = 0 \<and> tunnels s = []
                 then s\<lparr>tunnelZero := length (channels s), channels := channels s @ [False]\<rparr> else s)
        in (s\<lparr>tunnelPending := tunnelPending s + 1\<rparr>, True))"

definition cancelTunnelReservation :: "tunnelState \<Rightarrow> tunnelState" where
  "cancelTunnelReservation s = signalTunnelZeroLocked (s\<lparr>tunnelPending := tunnelPending s - 1\<rparr>)"

text \<open>The result is the tunnel, or none when both connections were closed instead.\<close>

definition activateManagedTunnel :: "tunnelState \<Rightarrow> tunnelState \<times> nat option" where
  "activateManagedTunnel s =
     (let s = s\<lparr>tunnelPending := tunnelPending s - 1\<rparr> in
      if tunnelShuttingDown s then (signalTunnelZeroLocked s, None)
      else
        let t = nextTunnel s in
        (s\<lparr>tunnels := t # tunnels s, nextTunnel := t + 1, active := active s + 1\<rparr>, Some t))"

definition finishTunnel :: "tunnelState \<Rightarrow> nat \<Rightarrow> tunnelState" where
  "finishTunnel s t =
     (if t \<in> set (tunnels s)
      then signalTunnelZeroLocked (s\<lparr>tunnels := removeAll t (tunnels s), active := active s - 1\<rparr>)
      else s)"

text \<open>\<^verbatim>\<open>managedTunnel.Close\<close>, which closes both connections once.\<close>

definition closeTunnel :: "tunnelState \<Rightarrow> nat \<Rightarrow> tunnelState" where
  "closeTunnel s t = (if t \<in> set (closedTunnels s) then s else s\<lparr>closedTunnels := t # closedTunnels s\<rparr>)"

definition closeAndFinishTunnel :: "tunnelState \<Rightarrow> nat \<Rightarrow> tunnelState" where
  "closeAndFinishTunnel s t = finishTunnel (closeTunnel s t) t"

definition beginTunnelShutdown :: "tunnelState \<Rightarrow> tunnelState \<times> nat" where
  "beginTunnelShutdown s =
     (let s = s\<lparr>tunnelShuttingDown := True\<rparr>; fin = tunnelZero s
      in (foldl closeTunnel s (tunnels s), fin))"

text \<open>Waiting for the drain: done, given up with the context's error, or still waiting; \<open>pick\<close> is whether the runtime
  takes the first case when both are ready.\<close>

definition waitTunnelDrain :: "bool \<Rightarrow> tunnelState \<Rightarrow> goerr option \<Rightarrow> nat \<Rightarrow> goerr option option" where
  "waitTunnelDrain pick s ctxErr fin =
     (if channels s ! fin \<and> (pick \<or> ctxErr = None) then Some None else case ctxErr of Some e \<Rightarrow> Some (Some e) | None \<Rightarrow> None)"

text \<open>The events of a server: a reservation, its cancellation or activation (each by a holder of
  one), the end and the closing of a tunnel, and shutdown.\<close>

datatype tunnel_event = TReserve | TCancel | TActivate | TFinish nat | TClose nat | TShutdown

definition tunnel_step :: "tunnelState \<Rightarrow> tunnel_event \<Rightarrow> tunnelState" where
  "tunnel_step s ev =
     (case ev of
        TReserve \<Rightarrow> fst (reserveTunnel s)
      | TCancel \<Rightarrow> if tunnelPending s = 0 then s else cancelTunnelReservation s
      | TActivate \<Rightarrow> if tunnelPending s = 0 then s else fst (activateManagedTunnel s)
      | TFinish t \<Rightarrow> finishTunnel s t
      | TClose t \<Rightarrow> closeTunnel s t
      | TShutdown \<Rightarrow> fst (beginTunnelShutdown s))"

section \<open>Admission (admission.go)\<close>

text \<open>The listeners of a server share one channel of slots: its capacity and its use, the admitted
  connections that have not released their slot, and the listeners that were closed.
  \<open>pendingConns\<close> are the accepted connections that wait for a slot, each with its listener.\<close>

record admission =
  slotCap :: nat
  slotsUsed :: nat
  admitted :: "nat list"
  pendingConns :: "(nat \<times> nat) list"
  listenerDone :: "nat list"
  closedConns :: "nat list"
  nextConn :: nat

definition newAdmissionListener :: "nat \<Rightarrow> admission" where
  "newAdmissionListener cap = \<lparr>slotCap = cap, slotsUsed = 0, admitted = [], pendingConns = [], listenerDone = [],
     closedConns = [], nextConn = 0\<rparr>"

text \<open>The two halves of \<^verbatim>\<open>Accept\<close> of listener \<open>l\<close>: the inner accept, with its error if it fails, and
  the \<^verbatim>\<open>select\<close>, which may take a free slot or the done signal; when both are ready the choice is
  open (\<open>preferDone\<close>), and when none is the call still waits (\<open>None\<close>).\<close>

definition accept_begin :: "admission \<Rightarrow> nat \<Rightarrow> goerr option \<Rightarrow> admission \<times> (goerr + nat)" where
  "accept_begin s l err =
     (case err of
        Some e \<Rightarrow> (s, Inl e)
      | None \<Rightarrow> (s\<lparr>pendingConns := (nextConn s, l) # pendingConns s, nextConn := nextConn s + 1\<rparr>, Inr (nextConn s)))"

definition accept_select :: "admission \<Rightarrow> nat \<Rightarrow> nat \<Rightarrow> bool \<Rightarrow> admission \<times> (goerr + nat) option" where
  "accept_select s l c preferDone =
     (if (c, l) \<notin> set (pendingConns s) then (s, None)
      else
        let slotFree = slotsUsed s < slotCap s; isDone = l \<in> set (listenerDone s) in
        if slotFree \<and> \<not> (isDone \<and> preferDone) then
          (s\<lparr>pendingConns := removeAll (c, l) (pendingConns s), slotsUsed := slotsUsed s + 1, admitted := c # admitted s\<rparr>, Some (Inr c))
        else if isDone then
          (s\<lparr>pendingConns := removeAll (c, l) (pendingConns s), closedConns := c # closedConns s\<rparr>, Some (Inl ErrClosed))
        else (s, None))"

definition admissionListener_Close :: "admission \<Rightarrow> nat \<Rightarrow> admission" where
  "admissionListener_Close s l = (if l \<in> set (listenerDone s) then s else s\<lparr>listenerDone := l # listenerDone s\<rparr>)"

definition admissionConn_Close :: "admission \<Rightarrow> nat \<Rightarrow> admission" where
  "admissionConn_Close s c =
     (let s' = s\<lparr>closedConns := c # closedConns s\<rparr> in
      if c \<in> set (admitted s) then s'\<lparr>admitted := removeAll c (admitted s), slotsUsed := slotsUsed s - 1\<rparr> else s')"

datatype admission_event = AAccept nat "goerr option" | ASelect nat nat bool | AListenerClose nat | AConnClose nat

text \<open>A connection can be closed by its user only after \<^verbatim>\<open>Accept\<close> returned it, any number of times.\<close>

definition admission_step :: "admission \<Rightarrow> admission_event \<Rightarrow> admission" where
  "admission_step s ev =
     (case ev of
        AAccept l err \<Rightarrow> fst (accept_begin s l err)
      | ASelect l c p \<Rightarrow> fst (accept_select s l c p)
      | AListenerClose l \<Rightarrow> admissionListener_Close s l
      | AConnClose c \<Rightarrow> if c \<in> fst ` set (pendingConns s) \<or> nextConn s \<le> c then s else admissionConn_Close s c)"

section \<open>Invariants\<close>

text \<open>The zero channel is closed exactly when nothing is pending or registered; registered tunnels
  are distinct and counted; after shutdown every registered tunnel is closed.\<close>

definition tunnel_ok :: "tunnelState \<Rightarrow> bool" where
  "tunnel_ok s \<longleftrightarrow> distinct (tunnels s) \<and> active s = int (length (tunnels s)) \<and> tunnelZero s < length (channels s)
     \<and> (channels s ! tunnelZero s \<longleftrightarrow> tunnelPending s = 0 \<and> tunnels s = [])
     \<and> (\<forall>t \<in> set (tunnels s). t < nextTunnel s)
     \<and> (tunnelShuttingDown s \<longrightarrow> set (tunnels s) \<subseteq> set (closedTunnels s))"

lemma closeTunnels_frame:
  "tunnels (foldl closeTunnel s ts) = tunnels s \<and> tunnelPending (foldl closeTunnel s ts) = tunnelPending s
   \<and> tunnelZero (foldl closeTunnel s ts) = tunnelZero s \<and> channels (foldl closeTunnel s ts) = channels s
   \<and> tunnelShuttingDown (foldl closeTunnel s ts) = tunnelShuttingDown s \<and> active (foldl closeTunnel s ts) = active s
   \<and> nextTunnel (foldl closeTunnel s ts) = nextTunnel s
   \<and> set (closedTunnels (foldl closeTunnel s ts)) = set ts \<union> set (closedTunnels s)"
  by (induction ts arbitrary: s) (auto simp: closeTunnel_def)

lemma length_removeAll_int: "distinct xs \<Longrightarrow> x \<in> set xs \<Longrightarrow> int (length (removeAll x xs)) = int (length xs) - 1"
  by (induction xs) auto

lemma tunnel_step_ok: "tunnel_ok s \<Longrightarrow> tunnel_ok (tunnel_step s ev)"
proof (cases ev)
  case TReserve
  then show "tunnel_ok s \<Longrightarrow> ?thesis"
    by (auto simp: tunnel_step_def reserveTunnel_def tunnel_ok_def Let_def nth_append)
next
  case TCancel
  assume "tunnel_ok s"
  with TCancel show ?thesis
    by (auto simp: tunnel_step_def cancelTunnelReservation_def tunnel_ok_def signalTunnelZeroLocked_def split: if_splits)
next
  case TActivate
  assume "tunnel_ok s"
  with TActivate show ?thesis
    by (auto simp: tunnel_step_def activateManagedTunnel_def Let_def tunnel_ok_def signalTunnelZeroLocked_def split: if_splits)
next
  case (TFinish t)
  assume ok: "tunnel_ok s"
  show ?thesis
  proof (cases "t \<in> set (tunnels s)")
    case True
    then have ne: "tunnels s \<noteq> []" by auto
    have "int (length (removeAll t (tunnels s))) = active s - 1"
      using ok length_removeAll_int [OF _ True] by (simp add: tunnel_ok_def)
    with ok ne True TFinish show ?thesis
      by (auto simp: tunnel_step_def finishTunnel_def tunnel_ok_def distinct_removeAll
          signalTunnelZeroLocked_def split: if_splits)
  next
    case False
    with ok TFinish show ?thesis by (simp add: tunnel_step_def finishTunnel_def)
  qed
next
  case (TClose t)
  then show "tunnel_ok s \<Longrightarrow> ?thesis" by (auto simp: tunnel_step_def closeTunnel_def tunnel_ok_def)
next
  case TShutdown
  then show "tunnel_ok s \<Longrightarrow> ?thesis"
    using closeTunnels_frame [of "s\<lparr>tunnelShuttingDown := True\<rparr>" "tunnels s"]
    by (auto simp: tunnel_step_def beginTunnelShutdown_def tunnel_ok_def Let_def)
qed

interpretation tunnel_machine: machine tunnel_step tunnel_ok
  by unfold_locales (rule tunnel_step_ok)

lemma new_tunnels_ok: "tunnel_ok new_tunnels"
  by (simp add: new_tunnels_def tunnel_ok_def)

section \<open>Shutdown\<close>

lemma tunnel_step_shutdown:
  "tunnelShuttingDown s \<Longrightarrow> tunnelShuttingDown (tunnel_step s ev) \<and> tunnelZero (tunnel_step s ev) = tunnelZero s
     \<and> set (tunnels (tunnel_step s ev)) \<subseteq> set (tunnels s) \<and> tunnelPending (tunnel_step s ev) \<le> tunnelPending s"
  using closeTunnels_frame [of "s\<lparr>tunnelShuttingDown := True\<rparr>" "tunnels s"]
  by (cases ev) (auto simp: tunnel_step_def reserveTunnel_def cancelTunnelReservation_def activateManagedTunnel_def
      finishTunnel_def closeTunnel_def beginTunnelShutdown_def signalTunnelZeroLocked_def Let_def split: if_splits)

lemma tunnel_run_shutdown:
  "tunnelShuttingDown s \<Longrightarrow> tunnelShuttingDown (foldl tunnel_step s evs) \<and> tunnelZero (foldl tunnel_step s evs) = tunnelZero s
     \<and> set (tunnels (foldl tunnel_step s evs)) \<subseteq> set (tunnels s) \<and> tunnelPending (foldl tunnel_step s evs) \<le> tunnelPending s"
proof (induction evs arbitrary: s)
  case (Cons ev evs)
  from tunnel_step_shutdown [OF Cons.prems, of ev] Cons.IH [of "tunnel_step s ev"] show ?case
    by (auto dest: order_trans)
qed simp

section \<open>Admission lemmas\<close>

definition admission_ok :: "admission \<Rightarrow> bool" where
  "admission_ok s \<longleftrightarrow> slotsUsed s = length (admitted s) \<and> slotsUsed s \<le> slotCap s
     \<and> distinct (admitted s) \<and> gm_ok (pendingConns s) \<and> set (admitted s) \<inter> fst ` set (pendingConns s) = {}
     \<and> (\<forall>c \<in> set (admitted s) \<union> fst ` set (pendingConns s). c < nextConn s)
     \<and> set (admitted s) \<inter> set (closedConns s) = {} \<and> fst ` set (pendingConns s) \<inter> set (closedConns s) = {}
     \<and> (\<forall>c \<in> set (closedConns s). c < nextConn s)
     \<and> (\<forall>c < nextConn s. c \<in> set (admitted s) \<union> fst ` set (pendingConns s) \<union> set (closedConns s))"

lemma pending_removed:
  assumes "gm_ok m" "(c, l) \<in> set m"
  shows "fst ` set (removeAll (c, l) m) = fst ` set m - {c}" "gm_ok (removeAll (c, l) m)"
proof -
  have "x = (c, l) \<longleftrightarrow> fst x = c" if "x \<in> set m" for x
    using assms that inj_onD [of fst "set m" x "(c, l)"] by (auto simp: distinct_map)
  then have "set m - {(c, l)} = {x \<in> set m. fst x \<noteq> c}" by blast
  then have "fst ` (set m - {(c, l)}) = fst ` {x \<in> set m. fst x \<noteq> c}" by simp
  also have "\<dots> = fst ` set m - {c}" by auto
  finally show "fst ` set (removeAll (c, l) m) = fst ` set m - {c}" by simp
  show "gm_ok (removeAll (c, l) m)" using assms(1) by (simp add: removeAll_filter_not_eq distinct_map_filter)
qed

lemma accept_select_cases:
  assumes "(c, l) \<in> set (pendingConns s)"
  defines "ps \<equiv> removeAll (c, l) (pendingConns s)"
  shows "slotsUsed s < slotCap s \<and> fst (accept_select s l c p) = s\<lparr>pendingConns := ps, slotsUsed := slotsUsed s + 1, admitted := c # admitted s\<rparr>
    \<or> fst (accept_select s l c p) = s\<lparr>pendingConns := ps, closedConns := c # closedConns s\<rparr>
    \<or> fst (accept_select s l c p) = s"
  using assms(1) unfolding ps_def accept_select_def Let_def by (simp split: if_split)

lemma accept_select_ok:
  assumes "admission_ok s"
  shows "admission_ok (fst (accept_select s l c p))"
proof (cases "(c, l) \<in> set (pendingConns s)")
  case True
  have "gm_ok (pendingConns s)" using assms by (simp add: admission_ok_def)
  note rem = pending_removed [OF this True]
  have c: "c \<in> fst ` set (pendingConns s)" using True by force
  let ?ps = "removeAll (c, l) (pendingConns s)"
  have "admission_ok (s\<lparr>pendingConns := ?ps, slotsUsed := slotsUsed s + 1, admitted := c # admitted s\<rparr>)" if "slotsUsed s < slotCap s"
    using assms c that rem(2) by (auto simp: admission_ok_def rem(1) simp del: set_removeAll)
  moreover have "admission_ok (s\<lparr>pendingConns := ?ps, closedConns := c # closedConns s\<rparr>)"
    using assms c rem(2) by (auto simp: admission_ok_def rem(1) simp del: set_removeAll)
  ultimately show ?thesis using accept_select_cases [OF True, of p] assms by auto
qed (use assms in \<open>simp add: accept_select_def\<close>)

lemma conn_close_ok:
  assumes "admission_ok s" "c \<notin> fst ` set (pendingConns s)" "c < nextConn s"
  shows "admission_ok (admissionConn_Close s c)"
proof (cases "c \<in> set (admitted s)")
  case True
  have "int (length (removeAll c (admitted s))) = int (length (admitted s)) - 1"
    using assms(1) True by (intro length_removeAll_int) (auto simp: admission_ok_def)
  then have "length (removeAll c (admitted s)) = length (admitted s) - 1" by simp
  with assms True show ?thesis
    by (auto simp: admission_ok_def admissionConn_Close_def Let_def distinct_removeAll)
next
  case False
  with assms show ?thesis by (auto simp: admission_ok_def admissionConn_Close_def Let_def)
qed

lemma admission_step_ok: "admission_ok s \<Longrightarrow> admission_ok (admission_step s ev)"
proof (cases ev)
  case (AAccept l err)
  then show "admission_ok s \<Longrightarrow> ?thesis"
    by (auto simp: admission_step_def accept_begin_def admission_ok_def less_Suc_eq split: option.splits)
next
  case (AConnClose c)
  then show "admission_ok s \<Longrightarrow> ?thesis" by (simp add: admission_step_def conn_close_ok)
qed (simp_all add: admission_step_def accept_select_ok, simp add: admissionListener_Close_def admission_ok_def)

lemma admission_cap: "slotCap (admission_step s ev) = slotCap s"
  by (cases ev) (auto simp: admission_step_def accept_begin_def accept_select_def admissionListener_Close_def
      admissionConn_Close_def Let_def split: option.splits)

interpretation admission_machine: bounded_machine admission_step admission_ok "\<lambda>s. length (admitted s)" slotCap
  by unfold_locales (simp_all add: admission_step_ok admission_cap, simp add: admission_ok_def)

lemma new_admission_ok: "admission_ok (newAdmissionListener cap)"
  by (simp add: newAdmissionListener_def admission_ok_def)

section \<open>Properties\<close>

text \<open>Shutdown drains the tunnels. For every history of a server, once shutdown has begun, and
  whatever happens afterwards: no tunnel is registered that was not registered then, every
  registered one has its connections closed, and waiting on the channel that shutdown returned
  ends without an error exactly when no reservation is pending and no tunnel is registered.\<close>

theorem shutdown_drains_tunnels:
  assumes "beginTunnelShutdown (foldl tunnel_step new_tunnels evs) = (s, fin)"
  shows "set (tunnels (foldl tunnel_step s evs')) \<subseteq> set (tunnels (foldl tunnel_step new_tunnels evs))
    \<and> set (tunnels (foldl tunnel_step s evs')) \<subseteq> set (closedTunnels (foldl tunnel_step s evs'))
    \<and> (waitTunnelDrain pick (foldl tunnel_step s evs') None fin = Some None \<longleftrightarrow>
         tunnelPending (foldl tunnel_step s evs') = 0 \<and> tunnels (foldl tunnel_step s evs') = [])
    \<and> \<not> snd (reserveTunnel (foldl tunnel_step s evs'))"
proof -
  let ?s0 = "foldl tunnel_step new_tunnels evs" and ?t = "foldl tunnel_step s evs'"
  have s: "s = tunnel_step ?s0 TShutdown" "fin = tunnelZero ?s0"
    using assms by (auto simp: tunnel_step_def beginTunnelShutdown_def Let_def)
  have ok: "tunnel_ok ?s0" by (rule tunnel_machine.run_inv [OF new_tunnels_ok])
  then have ok_t: "tunnel_ok ?t" unfolding s(1) by (intro tunnel_machine.run_inv [OF tunnel_step_ok])
  have fr: "tunnelShuttingDown s" "tunnelZero s = fin" "tunnels s = tunnels ?s0"
    using closeTunnels_frame [of "?s0\<lparr>tunnelShuttingDown := True\<rparr>" "tunnels ?s0"] s(2)
    by (auto simp: s(1) tunnel_step_def beginTunnelShutdown_def Let_def)
  from tunnel_run_shutdown [OF fr(1), of evs'] ok_t fr(2,3) show ?thesis
    by (auto simp: tunnel_ok_def waitTunnelDrain_def reserveTunnel_def)
qed

theorem shutdown_drains_tunnels_witness:
  defines "s0 \<equiv> foldl tunnel_step new_tunnels [TReserve, TActivate]"
  shows "waitTunnelDrain True (foldl tunnel_step (fst (beginTunnelShutdown s0)) [TFinish 0]) None (snd (beginTunnelShutdown s0)) = Some None
    \<and> waitTunnelDrain False (foldl tunnel_step (fst (beginTunnelShutdown s0)) []) None (snd (beginTunnelShutdown s0)) \<noteq> Some None"
proof -
  have b: "beginTunnelShutdown (foldl tunnel_step new_tunnels [TReserve, TActivate]) = (fst (beginTunnelShutdown s0), snd (beginTunnelShutdown s0))"
    by (simp add: s0_def)
  have "tunnels (foldl tunnel_step (fst (beginTunnelShutdown s0)) [TFinish 0]) = []"
    "tunnelPending (foldl tunnel_step (fst (beginTunnelShutdown s0)) [TFinish 0]) = 0"
    "tunnels (foldl tunnel_step (fst (beginTunnelShutdown s0)) []) = [0]"
    by (simp_all add: s0_def tunnel_step_def new_tunnels_def reserveTunnel_def activateManagedTunnel_def beginTunnelShutdown_def
        closeTunnel_def finishTunnel_def signalTunnelZeroLocked_def Let_def)
  with shutdown_drains_tunnels [OF b, of "[TFinish 0]"] shutdown_drains_tunnels [OF b, of "[]"] show ?thesis by simp
qed

text \<open>Admission is bounded and gives every slot back. For every sequence of accepts, selects,
  closes of connections (also repeated ones) and of listeners of a server, at most as many connections are
  admitted as the channel has slots, the used slots are exactly those of the admitted connections,
  and every connection ever accepted is waiting, admitted or closed.\<close>

theorem admission_bounded:
  "length (admitted (foldl admission_step (newAdmissionListener cap) evs)) \<le> cap
   \<and> slotsUsed (foldl admission_step (newAdmissionListener cap) evs) = length (admitted (foldl admission_step (newAdmissionListener cap) evs))
   \<and> {0..<nextConn (foldl admission_step (newAdmissionListener cap) evs)} \<subseteq>
       set (admitted (foldl admission_step (newAdmissionListener cap) evs)) \<union> fst ` set (pendingConns (foldl admission_step (newAdmissionListener cap) evs))
       \<union> set (closedConns (foldl admission_step (newAdmissionListener cap) evs))"
proof -
  let ?l = "foldl admission_step (newAdmissionListener cap) evs"
  have "admission_ok ?l" by (rule admission_machine.run_inv [OF new_admission_ok])
  moreover have "length (admitted ?l) \<le> cap"
    using admission_machine.run_bounded [OF new_admission_ok, of cap evs] by (simp add: newAdmissionListener_def)
  ultimately show ?thesis by (auto simp: admission_ok_def)
qed

end
