(* ===== verification/Proxy_Transports.thy ===== *)
theory Proxy_Transports
  imports Go_Prelude
begin

text \<open>
  The bounded cache of upstream transports, \<^verbatim>\<open>internal/proxy/transport_cache.go\<close>. An entry is a
  number; \<open>tc_closed\<close> are the entries that were closed (closing is idempotent in the code) and \<open>tc_built\<close> lists, for every
  entry ever built, the key it was built for, as the fields of \<^verbatim>\<open>transportCacheEntry\<close> say. The
  lookup and the insertion of \<^verbatim>\<open>getOrCreate\<close> are two critical sections, since the candidate is built
  outside the lock.
\<close>

section \<open>Operations\<close>

record boundedTransportCache =
  tc_max :: nat
  tc_entries :: "(string, nat) gomap"
  tc_order :: "string list"
  tc_closed :: "nat list"
  tc_next :: nat
  tc_built :: "string list"

definition newBoundedTransportCache :: "int \<Rightarrow> boundedTransportCache" where
  "newBoundedTransportCache m =
     \<lparr>tc_max = nat (if m < 1 then 1 else m), tc_entries = [], tc_order = [], tc_closed = [], tc_next = 0, tc_built = []\<rparr>"

definition transport_get :: "boundedTransportCache \<Rightarrow> string \<Rightarrow> nat option" where
  "transport_get c key = gm_get (tc_entries c) key"

definition transport_close :: "boundedTransportCache \<Rightarrow> nat \<Rightarrow> boundedTransportCache" where
  "transport_close c e = (if e \<in> set (tc_closed c) then c else c\<lparr>tc_closed := e # tc_closed c\<rparr>)"

text \<open>The eviction loop: the remaining order, the remaining entries and the victim.\<close>

fun evict_first :: "string list \<Rightarrow> (string, nat) gomap \<Rightarrow> string list \<times> (string, nat) gomap \<times> nat option" where
  "evict_first [] m = ([], m, None)"
| "evict_first (k # ks) m =
     (case gm_get m k of None \<Rightarrow> evict_first ks m | Some victim \<Rightarrow> (ks, gm_del k m, Some victim))"

text \<open>The candidate of a call of \<^verbatim>\<open>factory\<close>, and the second critical section with the closing that
  follows it: the entry that is returned.\<close>

definition transport_insert :: "boundedTransportCache \<Rightarrow> string \<Rightarrow> boundedTransportCache \<times> nat" where
  "transport_insert c key =
     (let candidate = tc_next c; c = c\<lparr>tc_next := candidate + 1, tc_built := tc_built c @ [key]\<rparr> in
      case gm_get (tc_entries c) key of
        Some e \<Rightarrow> (transport_close c candidate, e)
      | None \<Rightarrow>
          let (order, entries, evicted) =
                (if length (tc_entries c) \<ge> tc_max c then evict_first (tc_order c) (tc_entries c)
                 else (tc_order c, tc_entries c, None));
              c = c\<lparr>tc_entries := gm_put key candidate entries, tc_order := order @ [key]\<rparr>
          in (case evicted of None \<Rightarrow> c | Some v \<Rightarrow> transport_close c v, candidate))"

text \<open>\<open>built\<close> is whether the factory returned a transport.\<close>

definition transport_getOrCreate ::
  "boundedTransportCache \<Rightarrow> string \<Rightarrow> bool \<Rightarrow> boundedTransportCache \<times> nat option" where
  "transport_getOrCreate c key built =
     (case transport_get c key of
        Some e \<Rightarrow> (c, Some e)
      | None \<Rightarrow> if \<not> built then (c, None) else let (c, e) = transport_insert c key in (c, Some e))"

definition transport_remove :: "boundedTransportCache \<Rightarrow> string \<Rightarrow> nat option \<Rightarrow> boundedTransportCache \<times> bool" where
  "transport_remove c key expected =
     (case gm_get (tc_entries c) key of
        Some e \<Rightarrow>
          if expected = None \<or> expected = Some e
          then (transport_close (c\<lparr>tc_entries := gm_del key (tc_entries c)\<rparr>) e, True) else (c, False)
      | None \<Rightarrow> (c, False))"

definition transport_len :: "boundedTransportCache \<Rightarrow> nat" where "transport_len c = length (tc_entries c)"

definition transport_clear :: "boundedTransportCache \<Rightarrow> boundedTransportCache" where
  "transport_clear c = foldl transport_close (c\<lparr>tc_entries := [], tc_order := []\<rparr>) (map snd (tc_entries c))"

datatype transport_event = XInsert string | XRemove string "nat option" | XClear

text \<open>\<^verbatim>\<open>XInsert\<close> is any call of \<^verbatim>\<open>getOrCreate\<close> that built a candidate, whether or not another call
  won the race in between.\<close>

fun transport_step :: "boundedTransportCache \<Rightarrow> transport_event \<Rightarrow> boundedTransportCache" where
  "transport_step c (XInsert k) = fst (transport_insert c k)"
| "transport_step c (XRemove k e) = fst (transport_remove c k e)"
| "transport_step c XClear = transport_clear c"

section \<open>Invariant\<close>

definition transports_ok :: "boundedTransportCache \<Rightarrow> bool" where
  "transports_ok c \<longleftrightarrow> 1 \<le> tc_max c \<and> length (tc_entries c) \<le> tc_max c
     \<and> gm_ok (tc_entries c) \<and> distinct (map snd (tc_entries c)) \<and> fst ` set (tc_entries c) \<subseteq> set (tc_order c)
     \<and> snd ` set (tc_entries c) \<inter> set (tc_closed c) = {}
     \<and> snd ` set (tc_entries c) \<union> set (tc_closed c) = {0..<tc_next c}"

lemma fst_del: "fst ` set (gm_del k m) = fst ` set m - {k}"
  by (auto simp: AList.delete_eq image_iff)

lemma evict_first_spec:
  assumes "evict_first ks m = (ks', m', v)" "gm_ok m" "fst ` set m \<subseteq> set ks" "m \<noteq> []"
  shows "\<exists>k e. v = Some e \<and> (k, e) \<in> set m \<and> m' = gm_del k m \<and> fst ` set m' \<subseteq> set ks'"
  using assms
proof (induction ks m rule: evict_first.induct)
  case (2 k ks m)
  show ?case
  proof (cases "gm_get m k")
    case None
    then have "k \<notin> fst ` set m" by (simp add: map_of_eq_None_iff)
    with 2 None show ?thesis by auto
  next
    case (Some e)
    then have "(k, e) \<in> set m" by (rule map_of_SomeD)
    moreover have "fst ` set (gm_del k m) \<subseteq> set ks" using "2.prems"(3) by (auto simp: fst_del)
    moreover have "v = Some e" "m' = gm_del k m" "ks' = ks" using Some "2.prems"(1) by simp_all
    ultimately show ?thesis by blast
  qed
qed simp

lemma transport_close_simps [simp]:
  "tc_entries (transport_close c e) = tc_entries c" "tc_order (transport_close c e) = tc_order c"
  "tc_max (transport_close c e) = tc_max c" "tc_next (transport_close c e) = tc_next c" "tc_built (transport_close c e) = tc_built c"
  "set (tc_closed (transport_close c e)) = insert e (set (tc_closed c))"
  by (auto simp: transport_close_def)

lemma distinct_snd_del: "distinct (map snd m) \<Longrightarrow> distinct (map snd (gm_del k m))"
  by (auto simp: AList.delete_eq intro: distinct_map_filter)

lemma snd_del:
  assumes "gm_ok m" "distinct (map snd m)" "(k, e) \<in> set m"
  shows "snd ` set (gm_del k m) = snd ` set m - {e}"
proof -
  have "inj_on snd (set m)" "inj_on fst (set m)" using assms(1,2) by (simp_all add: distinct_map)
  then have "fst x = k \<longleftrightarrow> snd x = e" if "x \<in> set m" for x
    using that assms(3) inj_onD [of snd "set m" x "(k, e)"] inj_onD [of fst "set m" x "(k, e)"] by force
  then have "{x \<in> set m. fst x \<noteq> k} = {x \<in> set m. snd x \<noteq> e}" by blast
  moreover have "set (gm_del k m) = {x \<in> set m. fst x \<noteq> k}" by (auto simp: AList.delete_eq)
  ultimately show ?thesis by auto
qed

lemma transport_put_new:
  assumes "gm_get m k = None"
  shows "gm_put k v m = m @ [(k, v)]"
  using assms by (induction m) (auto split: if_splits)

lemma transport_remove_ok: "transports_ok c \<Longrightarrow> transports_ok (fst (transport_remove c k e))"
proof (cases "gm_get (tc_entries c) k")
  case None
  then show "transports_ok c \<Longrightarrow> ?thesis" by (simp add: transport_remove_def)
next
  case (Some x)
  assume ok: "transports_ok c"
  have x: "(k, x) \<in> set (tc_entries c)" using Some by (rule map_of_SomeD)
  have "snd ` set (gm_del k (tc_entries c)) = snd ` set (tc_entries c) - {x}"
    using ok x by (intro snd_del) (auto simp: transports_ok_def)
  moreover have "x \<in> snd ` set (tc_entries c)" using x by force
  moreover have "fst ` set (gm_del k (tc_entries c)) \<subseteq> set (tc_order c)" using ok by (auto simp: transports_ok_def fst_del)
  ultimately show ?thesis
    using ok Some order_trans [OF gm_len_del_le [of k "tc_entries c"]]
    by (auto simp: transport_remove_def transports_ok_def distinct_snd_del gm_ok_del)
qed

lemma exchange_partition:
  assumes "E \<inter> C = {}" "E \<union> C = {0..<n::nat}" "e \<in> E"
  shows "insert n (E - {e}) \<inter> insert e C = {}" "insert n (E - {e}) \<union> insert e C = {0..<Suc n}"
proof -
  have "e < n" "n \<notin> C" using assms by auto
  then show "insert n (E - {e}) \<inter> insert e C = {}" using assms(1) by auto
  have "insert n (E - {e}) \<union> insert e C = insert n (E \<union> C)" using assms(3) by auto
  then show "insert n (E - {e}) \<union> insert e C = {0..<Suc n}" by (simp add: assms(2) atLeast0_lessThan_Suc)
qed

lemma transport_insert_ok: "transports_ok c \<Longrightarrow> transports_ok (fst (transport_insert c k))"
proof (cases "gm_get (tc_entries c) k")
  case (Some e)
  then show "transports_ok c \<Longrightarrow> ?thesis" by (auto simp: transport_insert_def transports_ok_def Let_def)
next
  case None
  assume ok: "transports_ok c"
  then have cand: "tc_next c \<notin> snd ` set (tc_entries c)" "tc_next c \<notin> set (tc_closed c)" by (auto simp: transports_ok_def)
  have k: "k \<notin> fst ` set (tc_entries c)" using None by (simp add: map_of_eq_None_iff)
  show ?thesis
  proof (cases "length (tc_entries c) \<ge> tc_max c")
    case False
    then have "fst (transport_insert c k) = c\<lparr>tc_next := tc_next c + 1, tc_built := tc_built c @ [k], tc_entries := tc_entries c @ [(k, tc_next c)], tc_order := tc_order c @ [k]\<rparr>"
      using None by (simp add: transport_insert_def Let_def transport_put_new)
    with ok cand k False show ?thesis by (auto simp: transports_ok_def)
  next
    case True
    obtain ks' m' v where ev: "evict_first (tc_order c) (tc_entries c) = (ks', m', v)" by (cases "evict_first (tc_order c) (tc_entries c)")
    have "tc_entries c \<noteq> []" using True ok by (auto simp: transports_ok_def)
    with evict_first_spec [OF ev] ok obtain vk e where v: "v = Some e" "(vk, e) \<in> set (tc_entries c)" "m' = gm_del vk (tc_entries c)"
      "fst ` set m' \<subseteq> set ks'" by (auto simp: transports_ok_def)
    have gm: "gm_get m' k = None" using k by (auto simp: v(3) fst_del map_of_eq_None_iff)
    have len: "length m' < length (tc_entries c)"
    proof -
      have "gm_ok (tc_entries c)" using ok by (simp add: transports_ok_def)
      moreover from this have "gm_get (tc_entries c) vk = Some e" using v(2) by simp
      ultimately have "length m' = length (tc_entries c) - 1" unfolding v(3) by (subst gm_len_del) simp_all
      with \<open>tc_entries c \<noteq> []\<close> show ?thesis by simp
    qed
    have m': "gm_ok m'" "distinct (map snd m')" "snd ` set m' = snd ` set (tc_entries c) - {e}"
      using ok snd_del [OF _ _ v(2)] by (simp_all add: v(3) transports_ok_def gm_ok_del distinct_snd_del)
    have e: "e \<in> snd ` set (tc_entries c)" using v(2) by force
    have "fst (transport_insert c k) =
        transport_close (c\<lparr>tc_next := tc_next c + 1, tc_built := tc_built c @ [k], tc_entries := m' @ [(k, tc_next c)], tc_order := ks' @ [k]\<rparr>) e"
      using True None ev v(1) gm by (simp add: transport_insert_def Let_def transport_put_new)
    moreover have "k \<notin> fst ` set m'" using gm by (simp add: map_of_eq_None_iff)
    moreover have "fst ` set m' \<union> {k} \<subseteq> set ks' \<union> {k}" using v(4) by blast
    moreover note exchange_partition [of "snd ` set (tc_entries c)" "set (tc_closed c)" "tc_next c" e]
    ultimately show ?thesis using ok cand m' e len by (simp add: transports_ok_def insert_commute)
  qed
qed

lemma transport_clear_frame:
  "tc_entries (foldl transport_close c es) = tc_entries c \<and> tc_order (foldl transport_close c es) = tc_order c
   \<and> tc_max (foldl transport_close c es) = tc_max c \<and> tc_next (foldl transport_close c es) = tc_next c
   \<and> set (tc_closed (foldl transport_close c es)) = set es \<union> set (tc_closed c)"
  by (induction es arbitrary: c) auto

lemma transport_clear_ok: "transports_ok c \<Longrightarrow> transports_ok (transport_clear c)"
  using transport_clear_frame [of "c\<lparr>tc_entries := [], tc_order := []\<rparr>" "map snd (tc_entries c)"]
  by (auto simp: transport_clear_def transports_ok_def)

lemma transport_step_ok: "transports_ok c \<Longrightarrow> transports_ok (transport_step c ev)"
  by (cases ev) (simp_all add: transport_insert_ok transport_remove_ok transport_clear_ok)

lemma transport_step_max: "tc_max (transport_step c ev) = tc_max c"
proof (cases ev)
  case (XInsert k)
  then show ?thesis by (auto simp: transport_insert_def Let_def split: option.splits prod.splits)
next
  case (XRemove k e)
  then show ?thesis by (auto simp: transport_remove_def split: option.splits)
next
  case XClear
  then show ?thesis using transport_clear_frame by (simp add: transport_clear_def)
qed

text \<open>An entry stays with the key that it was built for: it is found under that key only, and what was built is never
  forgotten.\<close>

definition built_ok :: "boundedTransportCache \<Rightarrow> bool" where
  "built_ok c \<longleftrightarrow> length (tc_built c) = tc_next c \<and> (\<forall>(k, e) \<in> set (tc_entries c). e < tc_next c \<and> tc_built c ! e = k)"

lemma evict_first_subset: "evict_first ks m = (ks', m', v) \<Longrightarrow> set m' \<subseteq> set m"
  by (induction ks m rule: evict_first.induct) (auto simp: AList.delete_eq split: option.splits)

lemma insert_built:
  assumes "transport_insert c k = (c', e)" "built_ok c"
  shows "built_ok c' \<and> prefix (tc_built c) (tc_built c') \<and> e < tc_next c' \<and> tc_built c' ! e = k"
proof (cases "gm_get (tc_entries c) k")
  case (Some x)
  with assms map_of_SomeD [OF Some] show ?thesis by (fastforce simp: transport_insert_def built_ok_def Let_def nth_append)
next
  case None
  obtain order es ev where r: "(if length (tc_entries c) \<ge> tc_max c then evict_first (tc_order c) (tc_entries c)
      else (tc_order c, tc_entries c, None)) = (order, es, ev)" by (metis prod_cases3)
  then have "set es \<subseteq> set (tc_entries c)" using evict_first_subset by (auto split: if_splits)
  moreover have "e = tc_next c" "tc_built c' = tc_built c @ [k]" "tc_next c' = tc_next c + 1" "tc_entries c' = gm_put k (tc_next c) es"
    using assms(1) None r
    by (cases "tc_max c \<le> length (tc_entries c)"; auto simp: transport_insert_def Let_def split: option.splits)+
  ultimately show ?thesis using assms(2) by (fastforce simp: built_ok_def nth_append dest: gm_in_put)
qed

lemma remove_built: "built_ok c \<Longrightarrow> built_ok (fst (transport_remove c k e)) \<and> tc_built (fst (transport_remove c k e)) = tc_built c"
  by (auto simp: transport_remove_def built_ok_def gm_in_del split: option.splits)

lemma get_built: "transport_get c k = Some e \<Longrightarrow> built_ok c \<Longrightarrow> e < tc_next c \<and> tc_built c ! e = k"
  by (fastforce simp: transport_get_def built_ok_def dest: map_of_SomeD)

lemma create_built:
  "built_ok c \<Longrightarrow> built_ok (fst (transport_getOrCreate c k b)) \<and> prefix (tc_built c) (tc_built (fst (transport_getOrCreate c k b)))"
  using insert_built [of c k] by (auto simp: transport_getOrCreate_def split: option.splits prod.splits)

lemma clear_built: "built_ok c \<Longrightarrow> built_ok (transport_clear c)"
proof -
  have "tc_built (foldl transport_close d es) = tc_built d" for d es by (induction es arbitrary: d) auto
  then show "built_ok c \<Longrightarrow> built_ok (transport_clear c)"
    using transport_clear_frame [of "c\<lparr>tc_entries := [], tc_order := []\<rparr>" "map snd (tc_entries c)"]
    by (auto simp: transport_clear_def built_ok_def)
qed

lemma step_built: "built_ok c \<Longrightarrow> built_ok (transport_step c ev)"
proof (cases ev)
  case (XInsert k)
  then show "built_ok c \<Longrightarrow> ?thesis" using insert_built [of c k] by (cases "transport_insert c k") simp
qed (simp_all add: remove_built clear_built)

lemma run_built: "built_ok (foldl transport_step (newBoundedTransportCache m) evs)"
  by (induction evs rule: rev_induct) (simp_all add: step_built, simp add: newBoundedTransportCache_def built_ok_def)

interpretation transport_machine: bounded_machine transport_step transports_ok "\<lambda>c. length (tc_entries c)" tc_max
  by unfold_locales (simp_all add: transport_step_ok transport_step_max, simp add: transports_ok_def)

lemma new_transports_ok: "transports_ok (newBoundedTransportCache m)"
  by (simp add: newBoundedTransportCache_def transports_ok_def) linarith

section \<open>Properties\<close>

text \<open>The transport cache is bounded and leaks no transport. For every sequence of creations,
  races, removals and clears, the cache holds at most its maximum (at least one) of entries, one
  per key, and every transport that was ever built is in the cache or has been closed, and never
  both.\<close>

theorem transports_bounded_no_leak:
  "length (tc_entries (foldl transport_step (newBoundedTransportCache m) evs)) \<le> nat (max 1 m)
   \<and> distinct (map fst (tc_entries (foldl transport_step (newBoundedTransportCache m) evs)))
   \<and> snd ` set (tc_entries (foldl transport_step (newBoundedTransportCache m) evs))
       \<union> set (tc_closed (foldl transport_step (newBoundedTransportCache m) evs))
     = {0..<tc_next (foldl transport_step (newBoundedTransportCache m) evs)}
   \<and> snd ` set (tc_entries (foldl transport_step (newBoundedTransportCache m) evs))
       \<inter> set (tc_closed (foldl transport_step (newBoundedTransportCache m) evs)) = {}"
proof -
  have "transports_ok (foldl transport_step (newBoundedTransportCache m) evs)"
    by (rule transport_machine.run_inv [OF new_transports_ok])
  moreover have "length (tc_entries (foldl transport_step (newBoundedTransportCache m) evs)) \<le> nat (max 1 m)"
    using transport_machine.run_bounded [OF new_transports_ok, of m evs] by (simp add: newBoundedTransportCache_def max_def split: if_splits)
  ultimately show ?thesis by (simp add: transports_ok_def)
qed

text \<open>The order list keeps the keys of removed entries: with a cache that is never full, \<open>n\<close> rounds
  of creating and removing one entry leave \<open>n\<close> keys in the order list of an empty cache.\<close>

lemma order_grows:
  assumes "2 \<le> m"
  shows "tc_entries (foldl transport_step (newBoundedTransportCache m) (concat (replicate n [XInsert k, XRemove k None]))) = []
    \<and> tc_order (foldl transport_step (newBoundedTransportCache m) (concat (replicate n [XInsert k, XRemove k None]))) = replicate n k"
proof -
  have step: "tc_entries (foldl transport_step c [XInsert k, XRemove k None]) = []
      \<and> tc_order (foldl transport_step c [XInsert k, XRemove k None]) = tc_order c @ [k]
      \<and> tc_max (foldl transport_step c [XInsert k, XRemove k None]) = tc_max c"
    if "tc_entries c = []" "2 \<le> tc_max c" for c
    using that by (simp add: transport_insert_def transport_remove_def Let_def)
  have "tc_entries c = [] \<and> 2 \<le> tc_max c \<Longrightarrow>
      tc_entries (foldl transport_step c (concat (replicate n [XInsert k, XRemove k None]))) = []
      \<and> tc_order (foldl transport_step c (concat (replicate n [XInsert k, XRemove k None]))) = tc_order c @ replicate n k" for c
  proof (induction n arbitrary: c)
    case (Suc n)
    let ?c = "foldl transport_step c [XInsert k, XRemove k None]"
    have "tc_entries ?c = [] \<and> 2 \<le> tc_max ?c" using step [of c] Suc.prems by auto
    from Suc.IH [OF this] step [of c] Suc.prems show ?case by simp
  qed simp
  from this [of "newBoundedTransportCache m"] assms show ?thesis by (simp add: newBoundedTransportCache_def)
qed

end
