(* ===== verification/Auth_Spnego.thy ===== *)
theory Auth_Spnego
  imports Go_Encoding "HOL-Library.Monad_Syntax"
begin

text \<open>
  The token formats of connection authentication, from \<^verbatim>\<open>internal/proxy/auth_client.go\<close>: DER
  elements, the SPNEGO wrapping of NTLM tokens, and NTLM messages; and the classification of
  authentication headers from \<^verbatim>\<open>internal/proxy/auth_mechanism.go\<close> and
  \<^verbatim>\<open>auth_mechanism_state.go\<close>.
\<close>

section \<open>Names of schemes\<close>

definition authBasic :: string where "authBasic = ''BASIC''"
definition authDigest :: string where "authDigest = ''DIGEST''"
definition authNegotiate :: string where "authNegotiate = ''NEGOTIATE''"
definition authNTLM :: string where "authNTLM = ''NTLM''"
definition authSchemeBasic :: string where "authSchemeBasic = ''Basic''"
definition authSchemeDigest :: string where "authSchemeDigest = ''Digest''"
definition authSchemeNeg :: string where "authSchemeNeg = ''Negotiate''"
definition authMechanismKerberos :: string where "authMechanismKerberos = ''Kerberos''"

lemmas scheme_defs = authBasic_def authDigest_def authNegotiate_def authNTLM_def
  authSchemeBasic_def authSchemeDigest_def authSchemeNeg_def authMechanismKerberos_def

section \<open>DER elements\<close>

definition maxSPNEGOTokenLen :: nat where "maxSPNEGOTokenLen = 16 * 1024"

definition spnegoOIDValue :: "byte list" where
  "spnegoOIDValue = [0x2b, 0x06, 0x01, 0x05, 0x05, 0x02]"
definition ntlmOIDValue :: "byte list" where
  "ntlmOIDValue = [0x2b, 0x06, 0x01, 0x04, 0x01, 0x82, 0x37, 0x02, 0x02, 0x0a]"
definition kerberosOIDValue :: "byte list" where
  "kerberosOIDValue = [0x2a, 0x86, 0x48, 0x86, 0xf7, 0x12, 0x01, 0x02, 0x02]"

text \<open>The content of length \<open>len\<close> at \<open>off\<close>, and what follows it.\<close>

definition der_slice :: "byte list \<Rightarrow> nat \<Rightarrow> nat \<Rightarrow> (byte \<times> byte list \<times> byte list) option" where
  "der_slice data off len =
     (if off > length data \<or> len > length data - off then None
      else Some (data ! 0, take len (drop off data), drop (off + len) data))"

text \<open>\<^verbatim>\<open>readDERTLV\<close>: the tag, the content and the rest. The top bit of the length byte marks the
  long form, its other bits count the bytes of the length.\<close>

definition readDERTLV :: "byte list \<Rightarrow> (byte \<times> byte list \<times> byte list) option" where
  "readDERTLV data =
     (if length data < 2 \<or> length data > maxSPNEGOTokenLen then None
      else let lengthByte = unat (data ! 1) in
        if lengthByte < 128 then der_slice data 2 lengthByte
        else let count = lengthByte mod 128 in
          if count = 0 \<or> count > 2 \<or> length data < 2 + count then None
          else der_slice data (2 + count) (foldl (\<lambda>n b. n * 256 + unat b) 0 (take count (drop 2 data))))"

text \<open>The bytes of a length of at least 128, filled from the end of a buffer with \<open>room\<close> places;
  without room the code panics (\<open>None\<close>).\<close>

fun length_bytes :: "nat \<Rightarrow> nat \<Rightarrow> byte list \<Rightarrow> byte list option" where
  "length_bytes room n acc =
     (if n = 0 then Some acc
      else case room of 0 \<Rightarrow> None | Suc room' \<Rightarrow> length_bytes room' (n div 256) (of_nat n # acc))"

declare length_bytes.simps [simp del]

definition derLength :: "nat \<Rightarrow> byte list option" where
  "derLength n =
     (if n < 128 then Some [of_nat n]
      else map_option (\<lambda>bs. of_nat (128 + length bs) # bs) (length_bytes 4 n []))"

definition derTLV :: "byte \<Rightarrow> byte list \<Rightarrow> byte list option" where
  "derTLV tag content = map_option (\<lambda>l. tag # l @ content) (derLength (length content))"

definition sameBytes :: "byte list \<Rightarrow> byte list \<Rightarrow> bool" where
  "sameBytes a b \<longleftrightarrow> length a = length b \<and> list_all (\<lambda>i. a ! i = b ! i) [0..<length a]"

section \<open>SPNEGO\<close>

definition ntlmssp_signature :: "byte list" where "ntlmssp_signature = bytes_of ''NTLMSSP'' @ [0]"

definition isNTLMSSP :: "byte list \<Rightarrow> bool" where
  "isNTLMSSP token \<longleftrightarrow> length token \<ge> 12 \<and> take 8 token = ntlmssp_signature"

text \<open>The optional outer element with the SPNEGO identifier, which both readers of tokens strip.\<close>

definition strip_spnego :: "byte list \<Rightarrow> byte list option" where
  "strip_spnego token =
     (case readDERTLV token of
        Some (tag, content, rest) \<Rightarrow>
          if tag = 0x60 \<and> rest = [] then
            (case readDERTLV content of
               Some (oidTag, oidContent, remainder) \<Rightarrow>
                 if oidTag = 0x06 \<and> sameBytes oidContent spnegoOIDValue then Some remainder else None
             | None \<Rightarrow> None)
          else Some token
      | None \<Rightarrow> Some token)"

text \<open>The content of the sequence in a negotiation token with one of the tags.\<close>

definition spnego_sequence :: "byte set \<Rightarrow> byte list \<Rightarrow> byte list option" where
  "spnego_sequence tags token =
     (case readDERTLV token of
        Some (tag, content, rest) \<Rightarrow>
          if rest \<noteq> [] \<or> tag \<notin> tags then None
          else (case readDERTLV content of
                  Some (seqTag, seqContent, seqRest) \<Rightarrow> if seqTag \<noteq> 0x30 \<or> seqRest \<noteq> [] then None else Some seqContent
                | None \<Rightarrow> None)
      | None \<Rightarrow> None)"

lemma readDERTLV_shrinks: "readDERTLV data = Some (tag, content, rest) \<Longrightarrow> length rest < length data"
  by (auto simp: readDERTLV_def der_slice_def Let_def split: if_splits)

function findSPNEGONTLMToken :: "byte list \<Rightarrow> byte list option" where
  "findSPNEGONTLMToken sequ =
     (if sequ = [] then None
      else case readDERTLV sequ of
        None \<Rightarrow> None
      | Some (tag, content, rest) \<Rightarrow>
          if tag \<noteq> 0xa2 then findSPNEGONTLMToken rest
          else (case readDERTLV content of
                  None \<Rightarrow> None
                | Some (octetTag, octets, octetRest) \<Rightarrow>
                    if octetTag \<noteq> 0x04 \<or> octetRest \<noteq> [] \<or> \<not> isNTLMSSP octets then None else Some octets))"
  by auto
termination
  by (relation "measure length") (auto dest: readDERTLV_shrinks)

declare findSPNEGONTLMToken.simps [simp del]

definition unwrapSPNEGONTLMToken :: "byte list \<Rightarrow> byte list option" where
  "unwrapSPNEGONTLMToken token =
     (if isNTLMSSP token then Some token
      else do {
        token \<leftarrow> strip_spnego token;
        sequ \<leftarrow> spnego_sequence {0xa0, 0xa1} token;
        findSPNEGONTLMToken sequ
      })"

definition spnegoNegTokenInit :: "byte list \<Rightarrow> byte list option" where
  "spnegoNegTokenInit ntlmToken =
     do {
       oid \<leftarrow> derTLV 0x06 ntlmOIDValue;
       mechs \<leftarrow> derTLV 0x30 oid;
       mechList \<leftarrow> derTLV 0xa0 mechs;
       octets \<leftarrow> derTLV 0x04 ntlmToken;
       mechToken \<leftarrow> derTLV 0xa2 octets;
       sequ \<leftarrow> derTLV 0x30 (mechList @ mechToken);
       negTokenInit \<leftarrow> derTLV 0xa0 sequ;
       spnego \<leftarrow> derTLV 0x06 spnegoOIDValue;
       derTLV 0x60 (spnego @ negTokenInit)
     }"

definition spnegoNegTokenResp :: "byte list \<Rightarrow> byte list option" where
  "spnegoNegTokenResp ntlmToken =
     do {
       st \<leftarrow> derTLV 0x0a [0x01];
       negState \<leftarrow> derTLV 0xa0 st;
       oid \<leftarrow> derTLV 0x06 ntlmOIDValue;
       supportedMech \<leftarrow> derTLV 0xa1 oid;
       octets \<leftarrow> derTLV 0x04 ntlmToken;
       responseToken \<leftarrow> derTLV 0xa2 octets;
       sequ \<leftarrow> derTLV 0x30 ((negState @ supportedMech) @ responseToken);
       derTLV 0xa1 sequ
     }"

section \<open>The mechanism of a header\<close>

text \<open>The loop over the fields of a NegTokenResp.\<close>

function select_field :: "byte list \<Rightarrow> string" where
  "select_field sequ =
     (if sequ = [] then []
      else case readDERTLV sequ of
        None \<Rightarrow> []
      | Some (fieldTag, fieldContent, fieldRest) \<Rightarrow>
          if fieldTag \<noteq> 0xa1 then select_field fieldRest
          else (case readDERTLV fieldContent of
                  None \<Rightarrow> []
                | Some (oidTag, oidContent, oidRest) \<Rightarrow>
                    if oidTag \<noteq> 0x06 \<or> oidRest \<noteq> [] then []
                    else if sameBytes oidContent kerberosOIDValue then authMechanismKerberos
                    else if sameBytes oidContent ntlmOIDValue then authNTLM
                    else authSchemeNeg))"
  by auto
termination
  by (relation "measure length") (auto dest: readDERTLV_shrinks)

declare select_field.simps [simp del]

definition selectedSPNEGOMechanism :: "byte list \<Rightarrow> string" where
  "selectedSPNEGOMechanism token =
     (case strip_spnego token of
        None \<Rightarrow> []
      | Some token \<Rightarrow> (case spnego_sequence {0xa1} token of None \<Rightarrow> [] | Some sequ \<Rightarrow> select_field sequ))"

definition classifyUpstreamAuthMechanism :: "string \<Rightarrow> string" where
  "classifyUpstreamAuthMechanism header =
     (case cut_char (CHR '' '') (trim_space header) of
        (scheme, token, hasToken) \<Rightarrow>
          let up = to_upper (trim_space scheme) in
          if up = authNTLM then authNTLM
          else if up = authNegotiate then
            (if \<not> hasToken \<or> trim_space token = [] then authSchemeNeg
             else case b64_decode (trim_space token) of
               None \<Rightarrow> authSchemeNeg
             | Some raw \<Rightarrow>
                 if isNTLMSSP raw then authNTLM
                 else if unwrapSPNEGONTLMToken raw \<noteq> None then authNTLM
                 else let selected = selectedSPNEGOMechanism raw in
                   if selected \<noteq> [] then selected else authSchemeNeg)
          else if up = authDigest then authSchemeDigest
          else if up = authBasic then authSchemeBasic
          else trim_space scheme)"

definition authMechanismSpecificity :: "string \<Rightarrow> nat" where
  "authMechanismSpecificity mechanism =
     (if equal_fold mechanism authSchemeNeg then 1
      else if equal_fold mechanism authSchemeBasic \<or> equal_fold mechanism authSchemeDigest
        \<or> equal_fold mechanism authNTLM \<or> equal_fold mechanism authMechanismKerberos then 2
      else 0)"

text \<open>An observation is the mechanism seen so far; the tracker keeps the last recorded one.\<close>

definition ObserveMechanism :: "string \<Rightarrow> string \<Rightarrow> string" where
  "ObserveMechanism current mechanism =
     (if authMechanismSpecificity mechanism = 0 then current
      else if authMechanismSpecificity mechanism < authMechanismSpecificity current then current
      else mechanism)"

definition ObserveHeader :: "string \<Rightarrow> string \<Rightarrow> string" where
  "ObserveHeader current header =
     (let nxt = classifyUpstreamAuthMechanism header in
      if authMechanismSpecificity nxt = 0 then current
      else let currentSpecificity = authMechanismSpecificity current;
               nextSpecificity = authMechanismSpecificity nxt in
        if nextSpecificity < currentSpecificity then current else nxt)"

definition tracker_Record :: "string \<Rightarrow> string \<Rightarrow> string" where
  "tracker_Record value mechanism = (if authMechanismSpecificity mechanism = 0 then value else mechanism)"

text \<open>\<open>status\<close> is the status of the response, \<open>None\<close> when there is none.\<close>

definition recordSuccessfulAuthMechanism :: "string \<Rightarrow> int option \<Rightarrow> goerr option \<Rightarrow> bool \<Rightarrow> string \<Rightarrow> string" where
  "recordSuccessfulAuthMechanism tracker status err attempted mechanism =
     (if err \<noteq> None \<or> \<not> attempted \<or> status = None \<or> status = Some 407 then tracker
      else tracker_Record tracker mechanism)"

section \<open>DER elements read back\<close>

lemma sameBytes_eq [simp]: "sameBytes a b \<longleftrightarrow> a = b"
  by (auto simp: sameBytes_def list_all_iff intro: nth_equalityI)

lemma derLength_short: "n < 128 \<Longrightarrow> derLength n = Some [of_nat n]"
  by (simp add: derLength_def)

lemma length_bytes_0: "length_bytes room 0 acc = Some acc"
  by (simp add: length_bytes.simps)

lemma length_bytes_4: "n \<noteq> 0 \<Longrightarrow> length_bytes 4 n acc = length_bytes 3 (n div 256) (of_nat n # acc)"
  by (subst length_bytes.simps) simp

lemma length_bytes_3: "n \<noteq> 0 \<Longrightarrow> length_bytes 3 n acc = length_bytes 2 (n div 256) (of_nat n # acc)"
  by (subst length_bytes.simps) simp

lemma derLength_one: "128 \<le> n \<Longrightarrow> n < 256 \<Longrightarrow> derLength n = Some [0x81, of_nat n]"
  by (simp add: derLength_def length_bytes_4 length_bytes_0)

lemma derLength_two: "256 \<le> n \<Longrightarrow> n < 65536 \<Longrightarrow> derLength n = Some [0x82, of_nat (n div 256), of_nat n]"
proof -
  assume n: "256 \<le> n" "n < 65536"
  then have "n div 256 \<noteq> 0" "n div 256 div 256 = 0" by (simp_all add: div_eq_0_iff)
  with n show ?thesis by (simp add: derLength_def length_bytes_4 length_bytes_3 length_bytes_0)
qed

lemma der_slice_exact:
  "length pre = off \<Longrightarrow> der_slice (pre @ c @ rest) off (length c) = Some ((pre @ c @ rest) ! 0, c, rest)"
  by (auto simp: der_slice_def)

lemma derTLV_some:
  assumes "length c < 65536"
  shows "\<exists>l. derTLV t c = Some (t # l @ c) \<and> length l \<le> 3
    \<and> (\<forall>rest. length (t # l @ c @ rest) \<le> maxSPNEGOTokenLen \<longrightarrow> readDERTLV (t # l @ c @ rest) = Some (t, c, rest))"
proof -
  let ?n = "length c"
  consider "?n < 128" | "128 \<le> ?n" "?n < 256" | "256 \<le> ?n" by linarith
  then show ?thesis
  proof cases
    case 1
    then have "unat (of_nat ?n :: byte) = ?n" by (intro unat_byte_of_nat) simp
    with 1 der_slice_exact [of "[t, of_nat ?n]" 2 c] show ?thesis
      by (intro exI [of _ "[of_nat ?n]"]) (auto simp: derTLV_def derLength_short readDERTLV_def Let_def)
  next
    case 2
    then have "unat (of_nat ?n :: byte) = ?n" by (intro unat_byte_of_nat)
    with 2 der_slice_exact [of "[t, 0x81, of_nat ?n]" 3 c] show ?thesis
      by (intro exI [of _ "[0x81, of_nat ?n]"]) (auto simp: derTLV_def derLength_one readDERTLV_def Let_def)
  next
    case 3
    have hi: "unat (of_nat (?n div 256) :: byte) = ?n div 256"
      using assms by (intro unat_byte_of_nat) (simp add: less_mult_imp_div_less)
    have lo: "unat (of_nat ?n :: byte) = ?n mod 256" by (simp add: unat_of_nat)
    have sum: "?n div 256 * 256 + ?n mod 256 = ?n" by simp
    have "readDERTLV (t # [0x82, of_nat (?n div 256), of_nat ?n] @ c @ rest) = Some (t, c, rest)"
      if "length (t # [0x82, of_nat (?n div 256), of_nat ?n] @ c @ rest) \<le> maxSPNEGOTokenLen" for rest
    proof -
      have "der_slice (t # [0x82, of_nat (?n div 256), of_nat ?n] @ c @ rest) 4 ?n = Some (t, c, rest)"
        using der_slice_exact [of "[t, 0x82, of_nat (?n div 256), of_nat ?n]" 4 c rest] by simp
      with that show ?thesis by (simp add: readDERTLV_def Let_def hi lo sum)
    qed
    with 3 assms show ?thesis
      by (intro exI [of _ "[0x82, of_nat (?n div 256), of_nat ?n]"]) (simp add: derTLV_def derLength_two)
  qed
qed

lemma read_derTLV:
  assumes "derTLV t c = Some d" "length d + length rest \<le> maxSPNEGOTokenLen"
  shows "readDERTLV (d @ rest) = Some (t, c, rest)"
proof -
  have "length c < 65536" using assms by (auto simp: derTLV_def maxSPNEGOTokenLen_def)
  from derTLV_some [OF this, of t] assms show ?thesis by auto
qed

lemma derTLV_bound: "length c < 65536 \<Longrightarrow> \<exists>d. derTLV t c = Some d \<and> length c < length d \<and> length d \<le> length c + 4 \<and> hd d = t"
  using derTLV_some [of c t] by force

section \<open>Wrapped tokens read back\<close>

lemma find_skip:
  assumes "derTLV t c = Some d" "t \<noteq> 0xa2" "length d + length rest \<le> maxSPNEGOTokenLen"
  shows "findSPNEGONTLMToken (d @ rest) = findSPNEGONTLMToken rest"
proof -
  have "d \<noteq> []" using assms(1) by (auto simp: derTLV_def)
  with assms read_derTLV [OF assms(1,3)] show ?thesis by (subst findSPNEGONTLMToken.simps) simp
qed

lemma find_hit:
  assumes "derTLV 0x04 tok = Some octets" "derTLV 0xa2 octets = Some d" "isNTLMSSP tok"
    "length d \<le> maxSPNEGOTokenLen"
  shows "findSPNEGONTLMToken d = Some tok"
proof -
  have "d \<noteq> []" "length octets \<le> length d" using assms(2) by (auto simp: derTLV_def)
  with assms read_derTLV [OF assms(2), of "[]"] read_derTLV [OF assms(1), of "[]"] show ?thesis
    by (subst findSPNEGONTLMToken.simps) simp
qed

lemma select_skip:
  assumes "derTLV t c = Some d" "t \<noteq> 0xa1" "length d + length rest \<le> maxSPNEGOTokenLen"
  shows "select_field (d @ rest) = select_field rest"
proof -
  have "d \<noteq> []" using assms(1) by (auto simp: derTLV_def)
  with assms read_derTLV [OF assms(1,3)] show ?thesis by (subst select_field.simps) simp
qed

lemma select_hit:
  assumes "derTLV 0x06 ntlmOIDValue = Some oid" "derTLV 0xa1 oid = Some d" "length d + length rest \<le> maxSPNEGOTokenLen"
  shows "select_field (d @ rest) = authNTLM"
proof -
  have "d \<noteq> []" "length oid \<le> length d" using assms(2) by (auto simp: derTLV_def)
  moreover have "ntlmOIDValue \<noteq> kerberosOIDValue" by (simp add: ntlmOIDValue_def kerberosOIDValue_def)
  ultimately show ?thesis
    using assms read_derTLV [OF assms(2,3)] read_derTLV [OF assms(1), of "[]"]
    by (subst select_field.simps) simp
qed

lemma not_ntlmssp: "hd d = t \<Longrightarrow> t \<in> {0x60, 0xa0, 0xa1} \<Longrightarrow> \<not> isNTLMSSP d"
  by (cases d) (auto simp: isNTLMSSP_def ntlmssp_signature_def bytes_of_def)

lemma spnego_sequence_wrap:
  assumes "derTLV 0x30 c = Some sequ" "derTLV t sequ = Some d" "t \<in> tags" "length d \<le> maxSPNEGOTokenLen"
  shows "spnego_sequence tags d = Some c"
proof -
  have "length sequ \<le> length d" using assms(2) by (auto simp: derTLV_def)
  with assms read_derTLV [OF assms(2), of "[]"] read_derTLV [OF assms(1), of "[]"] show ?thesis
    by (simp add: spnego_sequence_def)
qed

lemma oid_lengths: "length ntlmOIDValue = 10" "length spnegoOIDValue = 6"
  by (simp_all add: ntlmOIDValue_def spnegoOIDValue_def)

lemma resp_roundtrip:
  assumes "isNTLMSSP tok" "length tok \<le> 16000"
  shows "\<exists>d. spnegoNegTokenResp tok = Some d \<and> unwrapSPNEGONTLMToken d = Some tok \<and> selectedSPNEGOMechanism d = authNTLM"
proof -
  obtain st where st: "derTLV 0x0a [0x01] = Some st" "length st \<le> 5" using derTLV_bound [of "[0x01]" "0x0a"] by auto
  obtain ns where ns: "derTLV 0xa0 st = Some ns" "length ns \<le> 9" using derTLV_bound [of st "0xa0"] st by auto
  obtain oid where oid: "derTLV 0x06 ntlmOIDValue = Some oid" "length oid \<le> 14"
    using derTLV_bound [of ntlmOIDValue "0x06"] oid_lengths by auto
  obtain sm where sm: "derTLV 0xa1 oid = Some sm" "length sm \<le> 18" using derTLV_bound [of oid "0xa1"] oid by auto
  obtain oc where oc: "derTLV 0x04 tok = Some oc" "length oc \<le> length tok + 4" using derTLV_bound [of tok "0x04"] assms by auto
  obtain rt where rt: "derTLV 0xa2 oc = Some rt" "length rt \<le> length tok + 8" using derTLV_bound [of oc "0xa2"] oc assms by auto
  let ?c = "(ns @ sm) @ rt"
  have c: "length ?c \<le> length tok + 35" using ns sm rt by simp
  obtain sq where sq: "derTLV 0x30 ?c = Some sq" "length sq \<le> length tok + 39" using derTLV_bound [of ?c "0x30"] c assms by auto
  obtain d where d: "derTLV 0xa1 sq = Some d" "length d \<le> length tok + 43" "hd d = 0xa1"
    using derTLV_bound [of sq "0xa1"] sq assms by auto
  have small: "length d \<le> maxSPNEGOTokenLen" "length ?c \<le> maxSPNEGOTokenLen"
    using d c assms by (simp_all add: maxSPNEGOTokenLen_def)
  have resp: "spnegoNegTokenResp tok = Some d" using st ns oid sm oc rt sq d by (simp add: spnegoNegTokenResp_def)
  have strip: "strip_spnego d = Some d" using read_derTLV [OF d(1), of "[]"] small(1) by (simp add: strip_spnego_def)
  have "findSPNEGONTLMToken ?c = Some tok"
    using find_skip [OF ns(1), of "sm @ rt"] find_skip [OF sm(1), of rt] find_hit [OF oc(1) rt(1) assms(1)] small(2) by simp
  moreover have "select_field ?c = authNTLM"
    using select_skip [OF ns(1), of "sm @ rt"] select_hit [OF oid(1) sm(1), of rt] small(2) by simp
  ultimately show ?thesis
    using resp strip not_ntlmssp [OF d(3)] spnego_sequence_wrap [OF sq(1) d(1) _ small(1)]
    by (simp add: unwrapSPNEGONTLMToken_def selectedSPNEGOMechanism_def)
qed

lemma init_roundtrip:
  assumes "isNTLMSSP tok" "length tok \<le> 16000"
  shows "\<exists>d. spnegoNegTokenInit tok = Some d \<and> unwrapSPNEGONTLMToken d = Some tok \<and> selectedSPNEGOMechanism d = []"
proof -
  obtain oid where oid: "derTLV 0x06 ntlmOIDValue = Some oid" "length oid \<le> 14"
    using derTLV_bound [of ntlmOIDValue "0x06"] oid_lengths by auto
  obtain ms where ms: "derTLV 0x30 oid = Some ms" "length ms \<le> 18" using derTLV_bound [of oid "0x30"] oid by auto
  obtain ml where ml: "derTLV 0xa0 ms = Some ml" "length ml \<le> 22" using derTLV_bound [of ms "0xa0"] ms by auto
  obtain oc where oc: "derTLV 0x04 tok = Some oc" "length oc \<le> length tok + 4" using derTLV_bound [of tok "0x04"] assms by auto
  obtain rt where rt: "derTLV 0xa2 oc = Some rt" "length rt \<le> length tok + 8" using derTLV_bound [of oc "0xa2"] oc assms by auto
  let ?c = "ml @ rt"
  have c: "length ?c \<le> length tok + 30" using ml rt by simp
  obtain sq where sq: "derTLV 0x30 ?c = Some sq" "length sq \<le> length tok + 34" using derTLV_bound [of ?c "0x30"] c assms by auto
  obtain ni where ni: "derTLV 0xa0 sq = Some ni" "length ni \<le> length tok + 38" "hd ni = 0xa0"
    using derTLV_bound [of sq "0xa0"] sq assms by auto
  obtain sp where sp: "derTLV 0x06 spnegoOIDValue = Some sp" "length sp \<le> 10"
    using derTLV_bound [of spnegoOIDValue "0x06"] oid_lengths by auto
  have b: "length (sp @ ni) \<le> length tok + 48" using sp ni by simp
  obtain d where d: "derTLV 0x60 (sp @ ni) = Some d" "length d \<le> length tok + 52" "hd d = 0x60"
    using derTLV_bound [of "sp @ ni" "0x60"] b assms by auto
  have small: "length d \<le> maxSPNEGOTokenLen" "length ?c \<le> maxSPNEGOTokenLen" "length sp + length ni \<le> maxSPNEGOTokenLen"
    using d c b assms by (simp_all add: maxSPNEGOTokenLen_def)
  have init: "spnegoNegTokenInit tok = Some d" using oid ms ml oc rt sq ni sp d by (simp add: spnegoNegTokenInit_def)
  have strip: "strip_spnego d = Some ni"
    using read_derTLV [OF d(1), of "[]"] read_derTLV [OF sp(1) small(3)] small(1) by (simp add: strip_spnego_def)
  have "findSPNEGONTLMToken ?c = Some tok"
    using find_skip [OF ml(1), of rt] find_hit [OF oc(1) rt(1) assms(1)] small(2) by simp
  moreover have "spnego_sequence {0xa1} ni = None"
    using read_derTLV [OF ni(1), of "[]"] small(3) by (simp add: spnego_sequence_def)
  ultimately show ?thesis
    using init strip not_ntlmssp [OF d(3)] spnego_sequence_wrap [OF sq(1) ni(1)] small(3)
    by (simp add: unwrapSPNEGONTLMToken_def selectedSPNEGOMechanism_def)
qed

section \<open>Observations\<close>

lemma specificity_bound: "authMechanismSpecificity m \<le> 2"
  by (simp add: authMechanismSpecificity_def)

lemma observe_header_mechanism: "ObserveHeader m h = ObserveMechanism m (classifyUpstreamAuthMechanism h)"
  by (simp add: ObserveHeader_def ObserveMechanism_def Let_def)

lemma observe_monotone: "authMechanismSpecificity m \<le> authMechanismSpecificity (ObserveMechanism m x)"
  by (simp add: ObserveMechanism_def)

section \<open>Properties\<close>

text \<open>SPNEGO wrapping is inverted by unwrapping. For every NTLM token of at most 16000 bytes, the
  initial and the response wrapping exist, unwrap to exactly that token, and only the response,
  which carries the mechanism the acceptor selected, is classified as a selected mechanism, NTLM.\<close>

theorem spnego_wrap_roundtrip:
  assumes "isNTLMSSP tok" "length tok \<le> 16000"
  shows "\<exists>i r. spnegoNegTokenInit tok = Some i \<and> unwrapSPNEGONTLMToken i = Some tok \<and> selectedSPNEGOMechanism i = []
    \<and> spnegoNegTokenResp tok = Some r \<and> unwrapSPNEGONTLMToken r = Some tok \<and> selectedSPNEGOMechanism r = authNTLM"
  using init_roundtrip [OF assms] resp_roundtrip [OF assms] by blast

theorem spnego_wrap_roundtrip_witness:
  "\<exists>i r. spnegoNegTokenInit (ntlmssp_signature @ replicate 200 7) = Some i
    \<and> unwrapSPNEGONTLMToken i = Some (ntlmssp_signature @ replicate 200 7) \<and> selectedSPNEGOMechanism i = []
    \<and> spnegoNegTokenResp (ntlmssp_signature @ replicate 200 7) = Some r
    \<and> unwrapSPNEGONTLMToken r = Some (ntlmssp_signature @ replicate 200 7) \<and> selectedSPNEGOMechanism r = authNTLM"
  by (rule spnego_wrap_roundtrip) (simp_all add: isNTLMSSP_def ntlmssp_signature_def bytes_of_def)

end
