(* ===== verification/Auth_Ntlm.thy ===== *)
theory Auth_Ntlm
  imports Auth_Spnego
begin

text \<open>
  NTLM on the client side of the proxy, from \<^verbatim>\<open>internal/proxy/auth_client.go\<close>: the challenge, the
  parser of AUTHENTICATE messages with its limits, and the check of a response. The hash functions
  are arguments: \<open>hmac\<close> is HMAC-MD5 of a key and a message, \<open>md4\<close> is MD4.
\<close>

section \<open>Strings in messages\<close>

definition utf16le :: "string \<Rightarrow> byte list" where
  "utf16le s = concat (map (bytes16 LittleEndian) (concat (map utf16_of (runes_of (map unat (bytes_of s))))))"

definition utf16leToString :: "byte list \<Rightarrow> goerr + string" where
  "utf16leToString data =
     (if length data mod 2 \<noteq> 0 then Inl (ErrMsg ''odd UTF-16LE length'')
      else Inr (str_of (string_of_runes (utf16_Decode (units16 LittleEndian data)))))"

section \<open>Messages\<close>

definition maxNTLMResponseLen :: nat where "maxNTLMResponseLen = 8192"

text \<open>\<^verbatim>\<open>newNTLMChallenge\<close> with the result of the random source: 48 bytes, the server challenge at 24.\<close>

definition newNTLMChallenge :: "(goerr + byte list) \<Rightarrow> goerr + byte list" where
  "newNTLMChallenge random =
     (case random of
        Inl e \<Rightarrow> Inl e
      | Inr serverChallenge \<Rightarrow>
          Inr (ntlmssp_signature @ bytes32 LittleEndian 2 @ replicate 8 0 @ bytes32 LittleEndian 0xa0888201
               @ serverChallenge @ replicate 16 0))"

definition uint16_at :: "byte list \<Rightarrow> nat \<Rightarrow> nat" where
  "uint16_at msg i = Uint16 LittleEndian (msg ! i) (msg ! (i + 1))"

definition uint32_at :: "byte list \<Rightarrow> nat \<Rightarrow> nat" where
  "uint32_at msg i = Uint32 LittleEndian (msg ! i) (msg ! (i + 1)) (msg ! (i + 2)) (msg ! (i + 3))"

record ntlmAuthenticateMessage =
  lmResponse :: "byte list"
  ntResponse :: "byte list"
  ntlm_domain :: string
  ntlm_user :: string

definition ntlm_field :: "byte list \<Rightarrow> nat \<Rightarrow> goerr + byte list" where
  "ntlm_field msg offset =
     (if offset + 8 > length msg then Inl (ErrMsg ''invalid NTLM field'')
      else if msg ! (offset + 6) \<noteq> 0 \<or> msg ! (offset + 7) \<noteq> 0 then Inl (ErrMsg ''NTLM field offset exceeds resource limit'')
      else let len = uint16_at msg offset; start = uint16_at msg (offset + 4) in
        if start > length msg \<or> len > length msg - start then Inl (ErrMsg ''NTLM field out of range'')
        else Inr (take len (drop start msg)))"

definition ntlm_text :: "byte list \<Rightarrow> byte list \<Rightarrow> goerr + string" where
  "ntlm_text msg data = (if uint32_at msg 60 mod 2 \<noteq> 0 then utf16leToString data else Inr (str_of data))"

definition parseNTLMAuthenticateMessage :: "byte list \<Rightarrow> goerr + ntlmAuthenticateMessage" where
  "parseNTLMAuthenticateMessage msg =
     (if length msg < 64 \<or> length msg > maxSPNEGOTokenLen \<or> take 8 msg \<noteq> ntlmssp_signature \<or> uint32_at msg 8 \<noteq> 3
      then Inl (ErrMsg ''invalid NTLM authenticate message'')
      else case ntlm_field msg 12 of Inl e \<Rightarrow> Inl e | Inr lm \<Rightarrow>
        (case ntlm_field msg 20 of Inl e \<Rightarrow> Inl e | Inr nt \<Rightarrow>
          if length lm > maxNTLMResponseLen \<or> length nt > maxNTLMResponseLen
          then Inl (ErrMsg ''NTLM response exceeds resource limit'')
          else (case ntlm_field msg 28 of Inl e \<Rightarrow> Inl e | Inr domainRaw \<Rightarrow>
            (case ntlm_field msg 36 of Inl e \<Rightarrow> Inl e | Inr userRaw \<Rightarrow>
              (case ntlm_text msg domainRaw of Inl e \<Rightarrow> Inl e | Inr dm \<Rightarrow>
                (case ntlm_text msg userRaw of Inl e \<Rightarrow> Inl e | Inr usr \<Rightarrow>
                  Inr \<lparr>lmResponse = lm, ntResponse = nt, ntlm_domain = dm, ntlm_user = usr\<rparr>))))))"

section \<open>Verification\<close>

definition splitConfiguredNTLMName :: "string \<Rightarrow> string \<times> string" where
  "splitConfiguredNTLMName username =
     (case cut_char (CHR 0x5C) username of (b, a, ok) \<Rightarrow> if ok then (a, b) else (username, []))"

definition ntlmHash :: "(byte list \<Rightarrow> byte list) \<Rightarrow> string \<Rightarrow> byte list" where
  "ntlmHash md4 password = md4 (utf16le password)"

definition verifyNTLMAuthenticate ::
  "(byte list \<Rightarrow> byte list \<Rightarrow> byte list) \<Rightarrow> (byte list \<Rightarrow> byte list) \<Rightarrow> byte list \<Rightarrow> byte list \<Rightarrow> string \<Rightarrow> string \<Rightarrow> bool" where
  "verifyNTLMAuthenticate hmac md4 msg challenge configuredUsername password =
     (if password = [] \<or> length challenge < 32 then False
      else case parseNTLMAuthenticateMessage msg of
        Inl _ \<Rightarrow> False
      | Inr parsed \<Rightarrow>
          if length (ntResponse parsed) < 16 then False
          else case splitConfiguredNTLMName configuredUsername of (wantUser, wantDomain) \<Rightarrow>
            if wantUser \<noteq> [] \<and> \<not> equal_fold (ntlm_user parsed) wantUser then False
            else if wantDomain \<noteq> [] \<and> \<not> equal_fold (ntlm_domain parsed) wantDomain then False
            else
              let domainForHash = (if wantDomain \<noteq> [] then wantDomain else ntlm_domain parsed);
                  ntlmV2Hash = hmac (ntlmHash md4 password) (utf16le (to_upper (ntlm_user parsed) @ domainForHash));
                  serverChallenge = take 8 (drop 24 challenge)
              in if hmac ntlmV2Hash (serverChallenge @ drop 16 (ntResponse parsed)) = take 16 (ntResponse parsed) then True
                 else if length (lmResponse parsed) \<ge> 24
                 then hmac ntlmV2Hash (serverChallenge @ drop 16 (lmResponse parsed)) = take 16 (lmResponse parsed)
                 else False)"

section \<open>Texts read back\<close>

definition go_text :: "string \<Rightarrow> bool" where
  "go_text s \<longleftrightarrow> (\<exists>rs. list_all scalar rs \<and> s = str_of (string_of_runes rs))"

lemma utf16_units_small:
  "list_all scalar rs \<Longrightarrow> units16 LittleEndian (concat (map (bytes16 LittleEndian) (concat (map utf16_of rs)))) = concat (map utf16_of rs)"
  by (intro units16_bytes) (auto simp: list_all_iff dest: utf16_of_small)

lemma utf16le_roundtrip: "go_text s \<Longrightarrow> utf16leToString (utf16le s) = Inr s"
proof -
  assume "go_text s"
  then obtain rs where rs: "list_all scalar rs" "s = str_of (string_of_runes rs)" by (auto simp: go_text_def)
  then have "utf16le s = concat (map (bytes16 LittleEndian) (concat (map utf16_of rs)))"
    by (simp add: utf16le_def runes_of_string)
  then show ?thesis
    using rs by (simp only: utf16leToString_def utf16_units_small utf16_Decode_of bytes16_length) simp
qed

lemma go_text_ascii: "\<forall>c \<in> set s. of_char c < (128 :: nat) \<Longrightarrow> go_text s"
proof -
  assume ascii: "\<forall>c \<in> set s. of_char c < (128 :: nat)"
  then have "list_all scalar (map of_char s)" by (auto simp: list_all_iff scalar_def)
  moreover have "str_of (string_of_runes (map of_char s)) = s"
    using ascii by (induction s) (auto simp: string_of_runes_def utf8_rune_def str_of_def unat_of_nat)
  ultimately show ?thesis unfolding go_text_def by metis
qed

section \<open>Messages read back\<close>

text \<open>The specification of an AUTHENTICATE message: a header of 64 bytes with the signature, the type 3, the flags and
  the descriptors of the fields. A descriptor has the length of the field, a maximal length that is not used, and the
  offset; the field is anywhere in the message. The names are in UTF-16 if the Unicode flag is set and bytes otherwise.\<close>

definition carries :: "byte list \<Rightarrow> nat \<Rightarrow> byte list \<Rightarrow> bool" where
  "carries msg pos f \<longleftrightarrow>
     (\<exists>pre mx post hdr rest. msg = pre @ bytes16 LittleEndian (length f) @ mx @ bytes16 LittleEndian (length hdr) @ [0, 0] @ post
        \<and> length pre = pos \<and> length mx = 2 \<and> msg = hdr @ f @ rest)"

definition encoded :: "bool \<Rightarrow> string \<Rightarrow> byte list \<Rightarrow> bool" where
  "encoded unicode s raw \<longleftrightarrow> (if unicode then go_text s \<and> raw = utf16le s else s = str_of raw)"

definition authenticate_message :: "byte list \<Rightarrow> byte list \<Rightarrow> byte list \<Rightarrow> string \<Rightarrow> string \<Rightarrow> bool" where
  "authenticate_message msg lm nt dm usr \<longleftrightarrow>
     64 \<le> length msg \<and> take 12 msg = ntlmssp_signature @ [3, 0, 0, 0] \<and> carries msg 12 lm \<and> carries msg 20 nt
     \<and> (\<exists>d u. carries msg 28 d \<and> carries msg 36 u \<and> encoded (odd (unat (msg ! 60))) dm d \<and> encoded (odd (unat (msg ! 60))) usr u)"

text \<open>The names of a configured account, with and without a domain.\<close>

definition account_names :: "string \<Rightarrow> string \<Rightarrow> string \<Rightarrow> bool" where
  "account_names account usr dm \<longleftrightarrow>
     CHR 0x5C \<notin> set usr \<and> dm = [] \<and> account = usr \<or> CHR 0x5C \<notin> set dm \<and> account = dm @ [CHR 0x5C] @ usr"

definition is_ascii :: "string \<Rightarrow> bool" where "is_ascii s \<longleftrightarrow> (\<forall>c \<in> set s. of_char c < (128 :: nat))"

lemma header_lengths [simp]:
  "length ntlmssp_signature = 8" "length (bytes32 LittleEndian n) = 4"
  by (simp_all add: ntlmssp_signature_def bytes_of_def)

lemma field_at:
  assumes "carries msg pos f" "length msg \<le> maxSPNEGOTokenLen"
  shows "ntlm_field msg pos = Inr f"
proof -
  obtain pre mx post hdr rest where m: "msg = pre @ (bytes16 LittleEndian (length f) @ mx @ bytes16 LittleEndian (length hdr) @ [0, 0]) @ post"
    and pos: "length pre = pos" and mx: "length mx = 2" and f: "msg = hdr @ f @ rest"
    using assms(1) unfolding carries_def append_assoc by blast
  have "length f < 65536" "length hdr < 65536" using f assms(2) by (simp_all add: maxSPNEGOTokenLen_def)
  then have b: "unat (of_nat (n div 256) :: byte) = n div 256" if "n \<in> {length f, length hdr}" for n
    using that by (intro unat_byte_of_nat) (auto simp: less_mult_imp_div_less)
  obtain x y where xy: "mx = [x, y]" using mx by (auto simp: length_Suc_conv eval_nat_numeral)
  have len: "length msg = pos + 8 + length post" by (simp add: m pos xy)
  have nth: "msg ! (pos + i) = (bytes16 LittleEndian (length f) @ mx @ bytes16 LittleEndian (length hdr) @ [0, 0] @ post) ! i" for i
    by (simp add: m pos [symmetric] nth_append)
  have "msg ! (pos + 6) = 0" "msg ! (pos + 7) = 0" unfolding nth by (simp_all add: xy)
  moreover have "uint16_at msg pos = length f"
    using nth [of 0] nth [of 1] b [of "length f"] by (simp add: uint16_at_def unat_of_nat)
  moreover have "uint16_at msg (pos + 4) = length hdr"
    using nth [of 4] nth [of 5] b [of "length hdr"] by (simp add: uint16_at_def unat_of_nat xy add.commute [of pos])
  moreover have "length hdr \<le> length msg" "length f \<le> length msg - length hdr" "take (length f) (drop (length hdr) msg) = f"
    by (simp_all add: f)
  ultimately show ?thesis unfolding ntlm_field_def Let_def using len by (simp only: nat_le_iff_add) auto
qed

lemma text_at:
  assumes "encoded (odd (unat (msg ! 60))) s raw"
  shows "ntlm_text msg raw = Inr s"
proof -
  have "uint32_at msg 60 mod 2 \<noteq> 0 \<longleftrightarrow> odd (unat (msg ! 60))" unfolding even_iff_mod_2_eq_zero [symmetric] by (simp add: uint32_at_def)
  then show ?thesis using assms utf16le_roundtrip by (auto simp: ntlm_text_def encoded_def split: if_splits)
qed

lemma parse_message:
  assumes "authenticate_message msg lm nt dm usr" "length msg \<le> maxSPNEGOTokenLen"
  shows "parseNTLMAuthenticateMessage msg =
    (if length lm > maxNTLMResponseLen \<or> length nt > maxNTLMResponseLen then Inl (ErrMsg ''NTLM response exceeds resource limit'')
     else Inr \<lparr>lmResponse = lm, ntResponse = nt, ntlm_domain = dm, ntlm_user = usr\<rparr>)"
proof -
  have h: "64 \<le> length msg" "take 12 msg = ntlmssp_signature @ [3, 0, 0, 0]" "ntlm_field msg 12 = Inr lm" "ntlm_field msg 20 = Inr nt"
    using assms by (auto simp: authenticate_message_def field_at)
  obtain d u where du: "ntlm_field msg 28 = Inr d" "ntlm_field msg 36 = Inr u" "ntlm_text msg d = Inr dm" "ntlm_text msg u = Inr usr"
    using assms by (auto simp: authenticate_message_def field_at text_at)
  from h(2) have m: "msg = ntlmssp_signature @ [3, 0, 0, 0] @ drop 12 msg" by (metis append_assoc append_take_drop_id)
  have sig: "take 8 msg = ntlmssp_signature" by (subst m) simp
  have "msg ! (8 + i) = ([3, 0, 0, 0] @ drop 12 msg) ! i" for i by (subst m) (simp add: nth_append)
  from this [of 0] this [of 1] this [of 2] this [of 3] have "uint32_at msg 8 = 3" by (simp add: uint32_at_def)
  with h du sig assms(2) show ?thesis by (simp add: parseNTLMAuthenticateMessage_def)
qed

text \<open>A message as clients lay it out: workstation and session key are empty, the strings are Unicode, and the payload
  follows the header.\<close>

definition field_descr :: "nat \<Rightarrow> nat \<Rightarrow> byte list" where
  "field_descr len off = bytes16 LittleEndian len @ bytes16 LittleEndian len @ bytes16 LittleEndian off @ [0, 0]"

definition ntlm_authenticate :: "byte list \<Rightarrow> byte list \<Rightarrow> string \<Rightarrow> string \<Rightarrow> byte list" where
  "ntlm_authenticate lm nt dm usr =
     (let d = utf16le dm; u = utf16le usr; o1 = 64 + length d; o2 = o1 + length u; o3 = o2 + length lm in
      ntlmssp_signature @ bytes32 LittleEndian 3 @ field_descr (length lm) o2 @ field_descr (length nt) o3
      @ field_descr (length d) 64 @ field_descr (length u) o1 @ field_descr 0 64 @ field_descr 0 64
      @ bytes32 LittleEndian 1 @ d @ u @ lm @ nt)"

lemma field_descr_length [simp]: "length (field_descr n k) = 8"
  by (simp add: field_descr_def)

lemma carriesI:
  assumes "msg = pre @ field_descr (length f) (length hdr) @ post" "length pre = pos" "msg = hdr @ f @ rest"
  shows "carries msg pos f"
  unfolding carries_def
  by (intro exI [of _ pre] exI [of _ "bytes16 LittleEndian (length f)"] exI [of _ post] exI [of _ hdr] exI [of _ rest])
     (use assms in \<open>simp add: field_descr_def\<close>)

lemma authenticate_layout:
  assumes "go_text dm" "go_text usr"
  shows "authenticate_message (ntlm_authenticate lm nt dm usr) lm nt dm usr"
proof -
  define d u where "d = utf16le dm" and "u = utf16le usr"
  define msg where "msg = ntlm_authenticate lm nt dm usr"
  define f1 f2 f3 f4 f5 where "f1 = field_descr (length lm) (64 + length d + length u)"
    and "f2 = field_descr (length nt) (64 + length d + length u + length lm)"
    and "f3 = field_descr (length d) 64" and "f4 = field_descr (length u) (64 + length d)" and "f5 = field_descr 0 64"
  define b3 b1 where "b3 = bytes32 LittleEndian 3" and "b1 = bytes32 LittleEndian 1"
  have msg: "msg = ntlmssp_signature @ b3 @ f1 @ f2 @ f3 @ f4 @ f5 @ f5 @ b1 @ d @ u @ lm @ nt"
    by (simp only: msg_def ntlm_authenticate_def Let_def d_def u_def f1_def f2_def f3_def f4_def f5_def b3_def b1_def)
  have L [simp]: "length f1 = 8" "length f2 = 8" "length f3 = 8" "length f4 = 8" "length f5 = 8" "length b3 = 4" "length b1 = 4"
    by (simp_all only: f1_def f2_def f3_def f4_def f5_def b3_def b1_def header_lengths field_descr_length)
  let ?H = "ntlmssp_signature @ b3 @ f1 @ f2 @ f3 @ f4 @ f5 @ f5 @ b1"
  have "carries msg 12 lm"
    by (rule carriesI [of _ "ntlmssp_signature @ b3" _ "?H @ d @ u" "f2 @ f3 @ f4 @ f5 @ f5 @ b1 @ d @ u @ lm @ nt" _ nt])
       (simp_all add: msg f1_def add.assoc)
  moreover have "carries msg 20 nt"
    by (rule carriesI [of _ "ntlmssp_signature @ b3 @ f1" _ "?H @ d @ u @ lm" "f3 @ f4 @ f5 @ f5 @ b1 @ d @ u @ lm @ nt" _ "[]"])
       (simp_all add: msg f2_def add.assoc)
  moreover have "carries msg 28 d"
    by (rule carriesI [of _ "ntlmssp_signature @ b3 @ f1 @ f2" _ "?H" "f4 @ f5 @ f5 @ b1 @ d @ u @ lm @ nt" _ "u @ lm @ nt"])
       (simp_all add: msg f3_def)
  moreover have "carries msg 36 u"
    by (rule carriesI [of _ "ntlmssp_signature @ b3 @ f1 @ f2 @ f3" _ "?H @ d" "f5 @ f5 @ b1 @ d @ u @ lm @ nt" _ "lm @ nt"])
       (simp_all add: msg f4_def)
  moreover have "msg ! 60 = 1" by (simp add: msg nth_append b1_def)
  moreover have "64 \<le> length msg" "take 12 msg = ntlmssp_signature @ [3, 0, 0, 0]" by (simp_all add: msg b3_def)
  ultimately show ?thesis
    using assms unfolding msg_def [symmetric] d_def u_def by (auto simp: authenticate_message_def encoded_def)
qed

lemma parse_authenticate:
  assumes "go_text dm" "go_text usr" "length lm \<le> maxNTLMResponseLen" "length nt \<le> maxNTLMResponseLen"
    and "length (ntlm_authenticate lm nt dm usr) \<le> maxSPNEGOTokenLen"
  shows "parseNTLMAuthenticateMessage (ntlm_authenticate lm nt dm usr) =
    Inr \<lparr>lmResponse = lm, ntResponse = nt, ntlm_domain = dm, ntlm_user = usr\<rparr>"
  using parse_message [OF authenticate_layout [OF assms(1, 2)] assms(5)] assms(3, 4) by simp

lemma split_account: "account_names account usr dm \<Longrightarrow> splitConfiguredNTLMName account = (usr, dm)"
  using cut_char_found [of "CHR 0x5C" dm usr] by (auto simp: account_names_def splitConfiguredNTLMName_def cut_char_def split: if_splits)

section \<open>Properties\<close>

text \<open>C36: The check of an NTLM response accepts exactly the responses that a client with the
  configured name and password computes for the challenge. For every AUTHENTICATE message, wherever its fields are and
  whether its strings are Unicode or not, and every configured account, with a domain or without, all names being in ASCII
  (case folding is modelled for ASCII), the check succeeds if and only if the password is set, the message and the two
  responses are within their limits, user and domain agree up to case with the configured ones as far as these are given,
  and the NTLMv2 proof, or the LMv2 proof, is the keyed hash of the server challenge and the client's blob.\<close>

theorem ntlm_check_exact:
  fixes hmac :: "byte list \<Rightarrow> byte list \<Rightarrow> byte list" and md4 :: "byte list \<Rightarrow> byte list" and password :: string
  assumes "authenticate_message msg lm nt dm usr" "account_names account wantUser wantDomain"
    and "is_ascii usr" "is_ascii dm" "is_ascii wantUser" "is_ascii wantDomain"
    and "newNTLMChallenge (Inr sc) = Inr ch" "length sc = 8"
  defines "key \<equiv> hmac (md4 (utf16le password)) (utf16le (to_upper usr @ (if wantDomain = [] then dm else wantDomain)))"
  shows "verifyNTLMAuthenticate hmac md4 msg ch account password \<longleftrightarrow>
    password \<noteq> [] \<and> length msg \<le> maxSPNEGOTokenLen \<and> length lm \<le> maxNTLMResponseLen \<and> length nt \<le> maxNTLMResponseLen \<and> 16 \<le> length nt
    \<and> (wantUser = [] \<or> equal_fold usr wantUser) \<and> (wantDomain = [] \<or> equal_fold dm wantDomain)
    \<and> (take 16 nt = hmac key (sc @ drop 16 nt) \<or> 24 \<le> length lm \<and> take 16 lm = hmac key (sc @ drop 16 lm))"
proof (cases "length msg \<le> maxSPNEGOTokenLen")
  case True
  have ch: "ch = ntlmssp_signature @ bytes32 LittleEndian 2 @ replicate 8 0 @ bytes32 LittleEndian 0xa0888201 @ sc @ replicate 16 0"
    using assms(7) by (simp add: newNTLMChallenge_def)
  have len: "length ch = 48" and srv: "take 8 (drop 24 ch) = sc" using assms(8) by (simp_all add: ch)
  show ?thesis
    unfolding verifyNTLMAuthenticate_def parse_message [OF assms(1) True] split_account [OF assms(2)] srv key_def ntlmHash_def Let_def
    using True len by (auto simp del: append_assoc)
next
  case False
  then show ?thesis by (simp add: verifyNTLMAuthenticate_def parseNTLMAuthenticateMessage_def)
qed

theorem ntlm_check_exact_witness:
  defines "hm \<equiv> \<lambda>k m :: byte list. take 16 (k @ m @ replicate 16 0)"
  defines "key \<equiv> hm (take 16 (utf16le ''pw'')) (utf16le (''BOB'' @ ''d''))"
  defines "nt \<equiv> hm key (replicate 8 9 @ [1, 2, 3]) @ [1, 2, 3]"
  shows "verifyNTLMAuthenticate hm (take 16) (ntlm_authenticate [] nt ''d'' ''bob'')
    (ntlmssp_signature @ bytes32 LittleEndian 2 @ replicate 8 0 @ bytes32 LittleEndian 0xa0888201 @ replicate 8 9 @ replicate 16 0)
    ''Bob'' ''pw''"
proof -
  have l: "length (utf16le ''d'') = 2" "length (utf16le ''bob'') = 6"
    by (simp_all add: utf16le_def bytes_of_def utf16_of_def)
  have k: "length (hm k m) = 16" for k m by (simp add: hm_def)
  have t: "go_text ''d''" "go_text ''bob''" by (intro go_text_ascii; simp)+
  have "length (ntlm_authenticate [] nt ''d'' ''bob'') \<le> maxSPNEGOTokenLen" "length nt = 19"
    by (simp_all add: ntlm_authenticate_def Let_def l nt_def k maxSPNEGOTokenLen_def)
  moreover have "take 16 nt = hm key (replicate 8 9 @ drop 16 nt)" by (simp add: nt_def k)
  moreover have "to_upper ''bob'' = ''BOB''" "equal_fold ''bob'' ''Bob''" by code_simp+
  moreover have "account_names ''Bob'' ''Bob'' []" "is_ascii ''bob''" "is_ascii ''d''" "is_ascii ''Bob''" "is_ascii []"
    by (simp_all add: account_names_def is_ascii_def)
  ultimately show ?thesis
    using ntlm_check_exact [OF authenticate_layout [OF t, of "[]" nt], of "''Bob''" "''Bob''" "[]" "replicate 8 9" _ hm "take 16" "''pw''"]
    by (simp add: newNTLMChallenge_def maxNTLMResponseLen_def key_def)
qed

end
