(* ===== verification/Auth_Client.thy ===== *)
theory Auth_Client
  imports Auth_Ntlm Go_Net
begin

text \<open>
  Authentication of the proxy's clients, \<^verbatim>\<open>internal/proxy/auth_client.go\<close>: the state per client
  connection, Basic, Digest with its nonces and the record of used ones, NTLM, and the challenges.

  The hash functions are arguments (\<open>hashes\<close>): MD5, the HMAC-SHA256 under the key that the process
  draws at its start, HMAC-MD5 and MD4. The readings of the clock within one request are a function
  from their position, so that they may differ; random bytes are arguments as well.
\<close>

section \<open>Data\<close>

record hashes =
  h_md5 :: "byte list \<Rightarrow> byte list"
  h_nonce :: "byte list \<Rightarrow> byte list"
  h_hmacMD5 :: "byte list \<Rightarrow> byte list \<Rightarrow> byte list"
  h_md4 :: "byte list \<Rightarrow> byte list"

definition digestRealm :: string where "digestRealm = ''PxClient''"
definition digestNonceLifetime :: duration where "digestNonceLifetime = 120 * second"
definition digestNonceFutureSkew :: duration where "digestNonceFutureSkew = 5 * second"
definition maxDigestCnonceLen :: nat where "maxDigestCnonceLen = 256"

definition authNone :: string where "authNone = ''NONE''"
definition authAny :: string where "authAny = ''ANY''"
definition authAnySafe :: string where "authAnySafe = ''ANYSAFE''"

record clientState =
  cs_authed :: bool
  cs_ntlm :: "byte list"
  cs_spnego :: bool

record clientConfig =
  ClientAuthList :: "string list"
  ClientUsername :: string
  ClientPassword :: string

text \<open>The state that requests share: the clients by remote address, the counts of upstream nonces, the
  used client nonces with their expiry, and the time of the last pruning in Unix seconds.\<close>

record authState =
  as_clients :: "(string, clientState) gomap"
  as_counts :: "(string, u64 \<times> gotime) gomap"
  as_seen :: "(string, gotime) gomap"
  as_lastPrune :: int

text \<open>What authentication reads of a request; \<open>rq_URL\<close> is whether the URL is absolute, its string and
  its request form.\<close>

record authRequest =
  rq_RemoteAddr :: string
  rq_Authorization :: string
  rq_Method :: string
  rq_RequestURI :: string
  rq_Host :: string
  rq_URL :: "(bool \<times> string \<times> string) option"

definition new_client :: clientState where
  "new_client = \<lparr>cs_authed = False, cs_ntlm = [], cs_spnego = False\<rparr>"

section \<open>Client state\<close>

definition clientStateFor :: "authState \<Rightarrow> string \<Rightarrow> clientState" where
  "clientStateFor s addr = (case gm_get (as_clients s) addr of Some c \<Rightarrow> c | None \<Rightarrow> new_client)"

definition put_client :: "authState \<Rightarrow> string \<Rightarrow> clientState \<Rightarrow> authState" where
  "put_client s addr c = s\<lparr>as_clients := gm_put addr c (as_clients s)\<rparr>"

definition isClientAuthed :: "authState \<Rightarrow> string \<Rightarrow> bool" where
  "isClientAuthed s addr = (case gm_get (as_clients s) addr of Some c \<Rightarrow> cs_authed c | None \<Rightarrow> False)"

definition setClientAuthed :: "authState \<Rightarrow> string \<Rightarrow> authState" where
  "setClientAuthed s addr = put_client s addr ((clientStateFor s addr)\<lparr>cs_authed := True\<rparr>)"

definition clearClientAuthed :: "authState \<Rightarrow> string \<Rightarrow> authState" where
  "clearClientAuthed s addr =
     (case gm_get (as_clients s) addr of Some c \<Rightarrow> put_client s addr (c\<lparr>cs_authed := False\<rparr>) | None \<Rightarrow> s)"

definition clearClientState :: "authState \<Rightarrow> string \<Rightarrow> authState" where
  "clearClientState s addr = s\<lparr>as_clients := gm_del addr (as_clients s)\<rparr>"

definition setNTLMChallenge :: "authState \<Rightarrow> string \<Rightarrow> byte list \<Rightarrow> bool \<Rightarrow> authState" where
  "setNTLMChallenge s addr challenge usesSPNEGO =
     put_client s addr ((clientStateFor s addr)\<lparr>cs_ntlm := challenge, cs_spnego := usesSPNEGO\<rparr>)"

definition ntlmChallenge :: "authState \<Rightarrow> string \<Rightarrow> byte list" where
  "ntlmChallenge s addr = (case gm_get (as_clients s) addr of Some c \<Rightarrow> cs_ntlm c | None \<Rightarrow> [])"

definition clearNTLMChallenge :: "authState \<Rightarrow> string \<Rightarrow> authState" where
  "clearNTLMChallenge s addr =
     (case gm_get (as_clients s) addr of
        Some c \<Rightarrow> put_client s addr (c\<lparr>cs_ntlm := [], cs_spnego := False\<rparr>) | None \<Rightarrow> s)"

definition ntlmChallengeUsesSPNEGO :: "authState \<Rightarrow> string \<Rightarrow> bool" where
  "ntlmChallengeUsesSPNEGO s addr = (case gm_get (as_clients s) addr of Some c \<Rightarrow> cs_spnego c | None \<Rightarrow> False)"

section \<open>Methods\<close>

fun client_methods :: "string list \<Rightarrow> string list \<Rightarrow> string list" where
  "client_methods [] methods = methods"
| "client_methods (raw # raws) methods =
     (let m = to_upper (trim_space raw) in
      if m = [] then client_methods raws methods
      else if m = authNone then []
      else if m = authAny then [authNegotiate, authNTLM, authDigest, authBasic]
      else if m = authAnySafe then [authNegotiate, authNTLM, authDigest]
      else client_methods raws (methods @ [m]))"

definition clientAuthMethods :: "string \<Rightarrow> string list" where
  "clientAuthMethods auth =
     (if trim_space auth = [] then [] else client_methods (split_on (CHR '','') (trim_space auth)) [])"

definition isSupportedClientAuth :: "string \<Rightarrow> bool" where
  "isSupportedClientAuth auth \<longleftrightarrow> auth \<in> set [authNegotiate, authNTLM, authDigest, authBasic]"

definition validateClientAuth :: "string \<Rightarrow> goerr option" where
  "validateClientAuth auth =
     (if list_all isSupportedClientAuth (clientAuthMethods auth) then None
      else Some (ErrMsg ''unsupported client auth type''))"

definition clientAuthEnabled :: "clientConfig \<Rightarrow> bool" where
  "clientAuthEnabled cfg \<longleftrightarrow> ClientAuthList cfg \<noteq> []"

section \<open>Parameters of a header\<close>

text \<open>\<^verbatim>\<open>splitAuthParams\<close>: the parts between commas outside quotes. The loop runs over runes, but it only
  looks for ASCII characters, which are runes of one byte.\<close>

fun split_params :: "bool \<Rightarrow> string \<Rightarrow> string \<Rightarrow> string list" where
  "split_params inQuote acc [] = [acc]"
| "split_params inQuote acc (r # rs) =
     (if r = CHR 0x22 then split_params (\<not> inQuote) (acc @ [r]) rs
      else if r = CHR '','' \<and> \<not> inQuote then acc # split_params inQuote [] rs
      else split_params inQuote (acc @ [r]) rs)"

definition splitAuthParams :: "string \<Rightarrow> string list" where
  "splitAuthParams header = split_params False [] header"

text \<open>\<^verbatim>\<open>strings.Trim\<close> with one character.\<close>

definition trim_char :: "char \<Rightarrow> string \<Rightarrow> string" where
  "trim_char c s = trim_right_by (\<lambda>x. x = c) (dropWhile (\<lambda>x. x = c) s)"

fun parse_params :: "string list \<Rightarrow> (string, string) gomap \<Rightarrow> (string, string) gomap" where
  "parse_params [] params = params"
| "parse_params (part # parts) params =
     (case cut_char (CHR ''='') (trim_space part) of
        (key, val, ok) \<Rightarrow>
          if \<not> ok then parse_params parts params
          else parse_params parts (gm_put (to_lower (trim_space key)) (trim_char (CHR 0x22) (trim_space val)) params))"

definition parseAuthParams :: "string \<Rightarrow> (string, string) gomap" where
  "parseAuthParams header = parse_params (splitAuthParams header) []"

definition param :: "(string, string) gomap \<Rightarrow> string \<Rightarrow> string" where
  "param m k = (case gm_get m k of Some v \<Rightarrow> v | None \<Rightarrow> [])"

definition validDigestNC :: "string \<Rightarrow> bool" where
  "validDigestNC nc \<longleftrightarrow> length nc = 8 \<and> list_all is_hex nc"

text \<open>The width of the first rune of a byte sequence, and the positions where runes start: a loop
  \<^verbatim>\<open>for i := range a\<close> over a string visits these positions only.\<close>

definition rune_width :: "nat list \<Rightarrow> nat" where
  "rune_width bs =
     (case bs of
        b # c1 # r \<Rightarrow>
          if in_range 0xC2 0xDF b \<and> in_range 0x80 0xBF c1 then 2
          else if in_range 0xE0 0xEF b \<and> in_range (if b = 0xE0 then 0xA0 else 0x80) (if b = 0xED then 0x9F else 0xBF) c1
            \<and> r \<noteq> [] \<and> in_range 0x80 0xBF (hd r) then 3
          else if in_range 0xF0 0xF4 b \<and> in_range (if b = 0xF0 then 0x90 else 0x80) (if b = 0xF4 then 0x8F else 0xBF) c1
            \<and> 2 \<le> length r \<and> in_range 0x80 0xBF (r ! 0) \<and> in_range 0x80 0xBF (r ! 1) then 4
          else 1
      | _ \<Rightarrow> 1)"

lemma rune_width_pos [simp]: "0 < rune_width bs"
  by (auto simp: rune_width_def split: list.splits)

function rune_starts :: "nat \<Rightarrow> nat list \<Rightarrow> nat list" where
  "rune_starts i bs = (if bs = [] then [] else i # rune_starts (i + rune_width bs) (drop (rune_width bs) bs))"
  by auto
termination
  by (relation "measure (\<lambda>(_, bs). length bs)") auto

declare rune_starts.simps [simp del]

definition subtleEqualHex :: "string \<Rightarrow> string \<Rightarrow> bool" where
  "subtleEqualHex a b \<longleftrightarrow>
     length a = length b \<and>
     foldl (\<lambda>v i. v OR (bytes_of a ! i XOR bytes_of b ! i)) 0 (rune_starts 0 (map unat (bytes_of a))) = 0"

definition md5hex :: "hashes \<Rightarrow> string \<Rightarrow> string" where
  "md5hex h s = hex_encode (h_md5 h (bytes_of s))"

section \<open>Digest nonces\<close>

definition unix_epoch :: gotime where "unix_epoch = 62135596800 * second"

definition unix_secs :: "gotime \<Rightarrow> int" where "unix_secs t = (t - unix_epoch) div second"
definition time_unix :: "int \<Rightarrow> gotime" where "time_unix ts = unix_epoch + ts * second"

definition digestClientHost :: "string \<Rightarrow> string" where
  "digestClientHost addr = (case SplitHostPort addr of Some (host, _) \<Rightarrow> host | None \<Rightarrow> addr)"

definition digestNonceMAC :: "hashes \<Rightarrow> string \<Rightarrow> string \<Rightarrow> string \<Rightarrow> byte list" where
  "digestNonceMAC h tsText salt host =
     h_nonce h (bytes_of (tsText @ '':'' @ salt @ '':'' @ host @ '':'' @ digestRealm))"

definition digestNonceAt :: "hashes \<Rightarrow> string \<Rightarrow> string \<Rightarrow> gotime \<Rightarrow> string" where
  "digestNonceAt h salt addr issuedAt =
     (let ts = itoa (unix_secs issuedAt) in
      b64_encode (bytes_of (ts @ '':'' @ salt @ '':'' @ hex_encode (digestNonceMAC h ts salt (digestClientHost addr)))))"

definition verifyDigestNonceAt :: "hashes \<Rightarrow> string \<Rightarrow> string \<Rightarrow> gotime \<Rightarrow> bool" where
  "verifyDigestNonceAt h nonce addr now =
     (case b64_decode nonce of
        None \<Rightarrow> False
      | Some raw \<Rightarrow>
          (case cut_char (CHR '':'') (str_of raw) of (tsText, r1, ok1) \<Rightarrow>
             (case cut_char (CHR '':'') r1 of (salt, macHex, ok2) \<Rightarrow>
                if \<not> ok1 \<or> \<not> ok2 then False
                else case atoi tsText of
                  None \<Rightarrow> False
                | Some ts \<Rightarrow>
                    let age = time_sub now (time_unix ts) in
                    if age > digestNonceLifetime \<or> age < - digestNonceFutureSkew then False
                    else subtleEqualHex macHex (hex_encode (digestNonceMAC h tsText salt (digestClientHost addr))))))"

text \<open>Pruning drops expired entries of both maps, at most once per lifetime. The concurrent case, where
  another request has moved the pruning time in between, is the one where nothing is dropped.\<close>

definition pruneDigestMaps :: "authState \<Rightarrow> gotime \<Rightarrow> authState" where
  "pruneDigestMaps s now =
     (if unix_secs now - as_lastPrune s < digestNonceLifetime div second then s
      else s\<lparr>as_lastPrune := unix_secs now,
             as_counts := filter (\<lambda>(_, _, created). \<not> time_sub now created > digestNonceLifetime) (as_counts s),
             as_seen := filter (\<lambda>(_, expiry). \<not> now > expiry) (as_seen s)\<rparr>)"

definition nonce_key :: "string \<Rightarrow> string \<Rightarrow> string" where "nonce_key nonce nc = nonce @ ''|'' @ nc"

definition digestNonceSeen :: "authState \<Rightarrow> string \<Rightarrow> string \<Rightarrow> gotime \<Rightarrow> authState \<times> bool" where
  "digestNonceSeen s nonce nc now =
     (case gm_get (as_seen s) (nonce_key nonce nc) of
        None \<Rightarrow> (s, False)
      | Some expiry \<Rightarrow>
          if now > expiry then (s\<lparr>as_seen := gm_del (nonce_key nonce nc) (as_seen s)\<rparr>, False) else (s, True))"

definition digestNonceMarkIfNew :: "authState \<Rightarrow> string \<Rightarrow> string \<Rightarrow> gotime \<Rightarrow> gotime \<Rightarrow> authState \<times> bool" where
  "digestNonceMarkIfNew s nonce nc now pruneNow =
     (case gm_get (as_seen s) (nonce_key nonce nc) of
        Some _ \<Rightarrow> (pruneDigestMaps s pruneNow, False)
      | None \<Rightarrow>
          (pruneDigestMaps (s\<lparr>as_seen := gm_put (nonce_key nonce nc) (now + digestNonceLifetime) (as_seen s)\<rparr>) pruneNow, True))"

text \<open>\<^verbatim>\<open>fmt.Sprintf("%08x", n)\<close>.\<close>

definition hex08 :: "u64 \<Rightarrow> string" where
  "hex08 n = (let s = show_hex (unat n) in replicate (8 - length s) (CHR ''0'') @ s)"

definition nextDigestNC :: "authState \<Rightarrow> string \<Rightarrow> gotime \<Rightarrow> gotime \<Rightarrow> authState \<times> string" where
  "nextDigestNC s nonce now pruneNow =
     (let (n, created) = (case gm_get (as_counts s) nonce of Some e \<Rightarrow> e | None \<Rightarrow> (0, now));
          s = s\<lparr>as_counts := gm_put nonce (n, created) (as_counts s)\<rparr>;
          s = pruneDigestMaps s pruneNow
      in (if gm_get (as_counts s) nonce = None then s
          else s\<lparr>as_counts := gm_put nonce (n + 1, created) (as_counts s)\<rparr>, hex08 (n + 1)))"

section \<open>Checks\<close>

definition checkBasicClientAuth :: "clientConfig \<Rightarrow> authRequest \<Rightarrow> bool" where
  "checkBasicClientAuth cfg req =
     (case cut_char (CHR '' '') (rq_Authorization req) of
        (scheme, token, ok) \<Rightarrow>
          if \<not> ok \<or> \<not> equal_fold scheme authSchemeBasic then False
          else case b64_decode (trim_space token) of
            None \<Rightarrow> False
          | Some raw \<Rightarrow>
              (case cut_char (CHR '':'') (str_of raw) of
                 (user, pass, ok) \<Rightarrow>
                   ok \<and> (ClientUsername cfg = [] \<or> user = ClientUsername cfg) \<and> pass = ClientPassword cfg))"

definition digestRequestTarget :: "authRequest \<Rightarrow> string" where
  "digestRequestTarget req =
     (if rq_RequestURI req \<noteq> [] then rq_RequestURI req
      else if rq_Method req = ''CONNECT'' \<and> rq_Host req \<noteq> [] then rq_Host req
      else case rq_URL req of
        None \<Rightarrow> []
      | Some (isAbs, str, reqURI) \<Rightarrow> if isAbs then str else reqURI)"

definition digest_expected where
  "digest_expected h user realm password meth uri nonce nc cnonce qop =
     (let ha1 = md5hex h (user @ '':'' @ realm @ '':'' @ password); ha2 = md5hex h (meth @ '':'' @ uri) in
      md5hex h (ha1 @ '':'' @ nonce @ '':'' @ nc @ '':'' @ cnonce @ '':'' @ qop @ '':'' @ ha2))"

text \<open>The readings of the clock: \<open>clk 0\<close> for the age of the nonce, \<open>clk 1\<close> for the look-up of used
  nonces, \<open>clk 2\<close> for the mark and \<open>clk 3\<close> for pruning.\<close>

definition checkDigestClientAuth ::
  "hashes \<Rightarrow> clientConfig \<Rightarrow> (nat \<Rightarrow> gotime) \<Rightarrow> authState \<Rightarrow> authRequest \<Rightarrow> authState \<times> bool" where
  "checkDigestClientAuth h cfg clk s req =
     (case cut_char (CHR '' '') (rq_Authorization req) of
        (scheme, token, ok) \<Rightarrow>
          if \<not> ok \<or> \<not> equal_fold scheme authSchemeDigest then (s, False)
          else
            let params = parseAuthParams (trim_space token);
                username = param params ''username'';
                realm = param params ''realm''; nonce = param params ''nonce''; uri = param params ''uri'';
                response = param params ''response''; qop = param params ''qop''; nc = param params ''nc'';
                cnonce = param params ''cnonce''; algorithm = param params ''algorithm''
            in
            if username = [] \<or> (ClientUsername cfg \<noteq> [] \<and> username \<noteq> ClientUsername cfg) then (s, False)
            else if realm \<noteq> digestRealm \<or> uri = [] \<or> response = []
              \<or> \<not> verifyDigestNonceAt h nonce (rq_RemoteAddr req) (clk 0) then (s, False)
            else if uri \<noteq> digestRequestTarget req then (s, False)
            else if \<not> equal_fold qop ''auth'' \<or> \<not> validDigestNC nc \<or> cnonce = [] \<or> length cnonce > maxDigestCnonceLen
            then (s, False)
            else if algorithm \<noteq> [] \<and> \<not> equal_fold algorithm ''MD5'' then (s, False)
            else case digestNonceSeen s nonce nc (clk 1) of (s, seen) \<Rightarrow>
              if seen then (s, False)
              else if \<not> subtleEqualHex response
                  (digest_expected h username realm (ClientPassword cfg) (rq_Method req) uri nonce nc cnonce qop) then (s, False)
              else digestNonceMarkIfNew s nonce nc (clk 2) (clk 3))"

definition b64_EncodedLen :: "nat \<Rightarrow> nat" where "b64_EncodedLen n = (n + 2) div 3 * 4"

definition checkNTLMClientAuth ::
  "hashes \<Rightarrow> clientConfig \<Rightarrow> (goerr + byte list) \<Rightarrow> authState \<Rightarrow> authRequest \<Rightarrow> string \<Rightarrow> authState \<times> bool" where
  "checkNTLMClientAuth h cfg random s req expectedScheme =
     (case cut_char (CHR '' '') (rq_Authorization req) of
        (scheme, token, ok) \<Rightarrow>
          if \<not> ok \<or> \<not> equal_fold scheme expectedScheme then (s, False)
          else if length (trim_space token) > b64_EncodedLen maxSPNEGOTokenLen then (s, False)
          else case b64_decode (trim_space token) of
            None \<Rightarrow> (s, False)
          | Some raw \<Rightarrow>
              if length raw > maxSPNEGOTokenLen then (s, False)
              else
                let wrapped = equal_fold expectedScheme authSchemeNeg \<and> \<not> isNTLMSSP raw;
                    inner = (if wrapped then unwrapSPNEGONTLMToken raw else Some raw)
                in case inner of
                  None \<Rightarrow> (s, False)
                | Some raw \<Rightarrow>
                    if \<not> isNTLMSSP raw then (s, False)
                    else let kind = uint32_at raw 8; addr = rq_RemoteAddr req in
                      if kind = 1 then
                        (case newNTLMChallenge random of
                           Inl _ \<Rightarrow> (s, False)
                         | Inr challenge \<Rightarrow> (setNTLMChallenge s addr challenge wrapped, False))
                      else if kind = 3 then
                        (let challenge = ntlmChallenge s addr in
                         if challenge = [] then (s, False)
                         else (clearNTLMChallenge s addr,
                               verifyNTLMAuthenticate (h_hmacMD5 h) (h_md4 h) raw challenge (ClientUsername cfg) (ClientPassword cfg)))
                      else (s, False))"

definition check_method ::
  "hashes \<Rightarrow> clientConfig \<Rightarrow> (nat \<Rightarrow> gotime) \<Rightarrow> (goerr + byte list) \<Rightarrow> authState \<Rightarrow> authRequest \<Rightarrow> string \<Rightarrow> authState \<times> bool" where
  "check_method h cfg clk random s req auth =
     (if auth = authBasic then (s, checkBasicClientAuth cfg req)
      else if auth = authDigest then checkDigestClientAuth h cfg clk s req
      else if auth = authNTLM then checkNTLMClientAuth h cfg random s req authNTLM
      else if auth = authNegotiate then checkNTLMClientAuth h cfg random s req authSchemeNeg
      else (s, False))"

text \<open>The methods in order until one succeeds; \<open>rnd\<close> gives the random bytes of a challenge by the number
  of methods that are left.\<close>

fun check_methods ::
  "hashes \<Rightarrow> clientConfig \<Rightarrow> (nat \<Rightarrow> gotime) \<Rightarrow> (nat \<Rightarrow> goerr + byte list) \<Rightarrow> authState \<Rightarrow> authRequest \<Rightarrow> string list \<Rightarrow> authState \<times> bool" where
  "check_methods h cfg clk rnd s req [] = (s, False)"
| "check_methods h cfg clk rnd s req (auth # auths) =
     (case check_method h cfg clk (rnd (length auths)) s req auth of
        (s, ok) \<Rightarrow> if ok then (s, True) else check_methods h cfg clk rnd s req auths)"

definition checkClientAuth ::
  "hashes \<Rightarrow> clientConfig \<Rightarrow> (nat \<Rightarrow> gotime) \<Rightarrow> (nat \<Rightarrow> goerr + byte list) \<Rightarrow> authState \<Rightarrow> authRequest \<Rightarrow> authState \<times> bool" where
  "checkClientAuth h cfg clk rnd s req = check_methods h cfg clk rnd s req (ClientAuthList cfg)"

definition authenticateClient ::
  "hashes \<Rightarrow> clientConfig \<Rightarrow> (nat \<Rightarrow> gotime) \<Rightarrow> (nat \<Rightarrow> goerr + byte list) \<Rightarrow> authState \<Rightarrow> authRequest \<Rightarrow> authState \<times> bool" where
  "authenticateClient h cfg clk rnd s req =
     (if rq_Authorization req = [] \<and> isClientAuthed s (rq_RemoteAddr req) then (s, True)
      else case checkClientAuth h cfg clk rnd s req of
        (s, ok) \<Rightarrow> if ok then (setClientAuthed s (rq_RemoteAddr req), True) else (s, False))"

text \<open>The challenges of a 407 response; \<open>now\<close> and \<open>salt\<close> are those of a new Digest nonce. Wrapping
  fails only for tokens of 4 gigabytes, so that it succeeds for every challenge of 48 bytes.\<close>

definition clientAuthChallenge :: "hashes \<Rightarrow> gotime \<Rightarrow> string \<Rightarrow> authState \<Rightarrow> string \<Rightarrow> string \<Rightarrow> string list" where
  "clientAuthChallenge h now salt s addr auth =
     (if auth = authNegotiate then
        (let challenge = ntlmChallenge s addr in
         if challenge \<noteq> [] then
           (case (if ntlmChallengeUsesSPNEGO s addr then spnegoNegTokenResp challenge else Some challenge) of
              Some c \<Rightarrow> [authSchemeNeg @ '' '' @ b64_encode c] | None \<Rightarrow> [])
         else [authSchemeNeg])
      else if auth = authNTLM then
        (let challenge = ntlmChallenge s addr in
         if challenge \<noteq> [] then [authNTLM @ '' '' @ b64_encode challenge] else [authNTLM])
      else if auth = authDigest then
        [authSchemeDigest @ '' realm='' @ [CHR 0x22] @ digestRealm @ [CHR 0x22] @ '', nonce='' @ [CHR 0x22]
          @ digestNonceAt h salt addr now @ [CHR 0x22] @ '', qop='' @ [CHR 0x22] @ ''auth'' @ [CHR 0x22]
          @ '', algorithm='' @ [CHR 0x22] @ ''MD5'' @ [CHR 0x22]]
      else if auth = authBasic then [authSchemeBasic @ '' realm='' @ [CHR 0x22] @ digestRealm @ [CHR 0x22]]
      else [])"

definition clientAuthChallenges :: "hashes \<Rightarrow> gotime \<Rightarrow> string \<Rightarrow> clientConfig \<Rightarrow> authState \<Rightarrow> string \<Rightarrow> string list" where
  "clientAuthChallenges h now salt cfg s addr =
     concat (map (clientAuthChallenge h now salt s addr) (ClientAuthList cfg))"

section \<open>Comparison of hexadecimal strings\<close>

lemma or_fold_zero:
  "foldl (\<lambda>v i. v OR f i) (0 :: byte) is = 0 \<longleftrightarrow> (\<forall>i \<in> set is. f i = 0)"
proof -
  have "foldl (\<lambda>v i. v OR f i) v is = 0 \<longleftrightarrow> v = 0 \<and> (\<forall>i \<in> set is. f i = 0)" for v
    by (induction "is" arbitrary: v) (auto simp: or_eq_0_iff)
  then show ?thesis by simp
qed

lemma xor_zero: "(x :: byte) XOR y = 0 \<longleftrightarrow> x = y"
proof
  assume xy: "x XOR y = 0"
  have "x = (x XOR y) XOR y" by (simp add: xor.assoc)
  also have "\<dots> = y" by (simp add: xy)
  finally show "x = y" .
qed simp

lemma rune_width_ascii: "b < 128 \<Longrightarrow> rune_width (b # bs) = 1"
  by (auto simp: rune_width_def in_range_def split: list.splits)

lemma starts_equal:
  assumes "length as = length bs" "\<forall>b \<in> set bs. b < 128" "\<forall>i \<in> set (rune_starts k as). as ! (i - k) = bs ! (i - k)"
  shows "as = bs"
  using assms
proof (induction as arbitrary: bs k)
  case (Cons a as)
  then obtain b bs' where bs: "bs = b # bs'" by (cases bs) auto
  have "k \<in> set (rune_starts k (a # as))" by (subst rune_starts.simps) simp
  with Cons.prems(3) have ab: "a = b" by (fastforce simp: bs)
  then have "a < 128" using Cons.prems(2) by (simp add: bs)
  then have st: "rune_starts k (a # as) = k # rune_starts (Suc k) as"
    by (subst rune_starts.simps) (simp add: rune_width_ascii)
  have ge: "\<forall>i \<in> set (rune_starts j xs). j \<le> i" for j xs
  proof (induction j xs rule: rune_starts.induct)
    case (1 j xs)
    show ?case
    proof (cases "xs = []")
      case False
      with 1 have "\<forall>i \<in> set (rune_starts (j + rune_width xs) (drop (rune_width xs) xs)). j + rune_width xs \<le> i" by blast
      with False show ?thesis by (subst rune_starts.simps) auto
    qed (simp add: rune_starts.simps)
  qed
  have "\<forall>i \<in> set (rune_starts (Suc k) as). as ! (i - Suc k) = bs' ! (i - Suc k)"
  proof
    fix i
    assume i: "i \<in> set (rune_starts (Suc k) as)"
    then have "i - k = Suc (i - Suc k)" using ge [of "Suc k" as] by auto
    moreover have "i \<in> set (rune_starts k (a # as))" using i by (simp add: st)
    with Cons.prems(3) have "(a # as) ! (i - k) = bs ! (i - k)" by blast
    ultimately show "as ! (i - Suc k) = bs' ! (i - Suc k)" by (simp add: bs)
  qed
  with Cons.IH [of bs' "Suc k"] Cons.prems(1,2) ab show ?case by (simp add: bs)
qed simp

lemma rune_starts_less: "i \<in> set (rune_starts k bs) \<Longrightarrow> i - k < length bs \<and> k \<le> i"
proof (induction k bs rule: rune_starts.induct)
  case (1 k bs)
  show ?case
  proof (cases "bs = []")
    case False
    with "1.prems" consider "i = k" | "i \<in> set (rune_starts (k + rune_width bs) (drop (rune_width bs) bs))"
      by (subst (asm) rune_starts.simps) auto
    then show ?thesis
    proof cases
      case 2
      with 1 False have "i - (k + rune_width bs) < length bs - rune_width bs" "k + rune_width bs \<le> i" by auto
      then show ?thesis by linarith
    qed (use False in simp)
  qed (use "1.prems" in \<open>simp add: rune_starts.simps\<close>)
qed

lemma subtleEqualHex_iff:
  assumes "\<forall>c \<in> set b. of_char c < (128 :: nat)"
  shows "subtleEqualHex a b \<longleftrightarrow> a = b"
proof
  assume eq: "subtleEqualHex a b"
  let ?as = "map unat (bytes_of a)" and ?bs = "map unat (bytes_of b)"
  have len: "length a = length b" using eq by (simp add: subtleEqualHex_def)
  have "\<forall>i \<in> set (rune_starts 0 ?as). ?as ! (i - 0) = ?bs ! (i - 0)"
  proof
    fix i
    assume i: "i \<in> set (rune_starts 0 ?as)"
    then have "i < length a" using rune_starts_less [of i 0 ?as] by simp
    moreover have "bytes_of a ! i = bytes_of b ! i"
      using eq i by (simp add: subtleEqualHex_def or_fold_zero xor_zero)
    ultimately show "?as ! (i - 0) = ?bs ! (i - 0)" using len by simp
  qed
  moreover have "\<forall>x \<in> set ?bs. x < 128" using assms by (auto simp: bytes_of_def unat_of_nat)
  ultimately have "?as = ?bs" using len by (intro starts_equal [where k = 0]) simp_all
  then have "map (of_nat :: nat \<Rightarrow> byte) ?as = map of_nat ?bs" by (rule arg_cong)
  then have "bytes_of a = bytes_of b" by (simp add: o_def)
  then have "str_of (bytes_of a) = str_of (bytes_of b)" by (rule arg_cong)
  then show "a = b" by simp
next
  assume "a = b"
  then show "subtleEqualHex a b" by (simp only: subtleEqualHex_def or_fold_zero) simp
qed

lemma hex_ascii: "\<forall>c \<in> set (hex_encode bs). of_char c < (128 :: nat)"
proof
  fix c
  assume "c \<in> set (hex_encode bs)"
  then have "c \<in> set ''0123456789abcdef''" using hex_encode_chars by blast
  then show "of_char c < (128 :: nat)" by auto
qed

lemma equal_hex [simp]: "subtleEqualHex a (hex_encode bs) \<longleftrightarrow> a = hex_encode bs" "subtleEqualHex a (md5hex h x) \<longleftrightarrow> a = md5hex h x"
  using subtleEqualHex_iff [OF hex_ascii] by (simp_all add: md5hex_def)

end
