(* ===== verification/Auth_Client_Safety.thy ===== *)
theory Auth_Client_Safety
  imports Auth_Client
begin

text \<open>
  What client authentication guarantees over whole runs of the server: a Digest response is accepted
  once, an NTLM challenge is used once, and a request passes the gate of \<^verbatim>\<open>ServeHTTP\<close> only if it or an
  earlier request of the same connection authenticated.
\<close>

section \<open>Runs\<close>

text \<open>The gate of \<^verbatim>\<open>ServeHTTP\<close>: whether the request goes on.\<close>

definition client_gate ::
  "hashes \<Rightarrow> clientConfig \<Rightarrow> (nat \<Rightarrow> gotime) \<Rightarrow> (nat \<Rightarrow> goerr + byte list) \<Rightarrow> authState \<Rightarrow> authRequest \<Rightarrow> authState \<times> bool" where
  "client_gate h cfg clk rnd s req =
     (if \<not> clientAuthEnabled cfg then (s, True)
      else case authenticateClient h cfg clk rnd s req of
        (s, ok) \<Rightarrow> if ok then (s, True) else (clearClientAuthed s (rq_RemoteAddr req), False))"

text \<open>What changes the shared state: a request, the end of a client connection, and a request to an
  upstream proxy that counts a nonce.\<close>

datatype auth_event =
    ARequest authRequest "nat \<Rightarrow> gotime" "nat \<Rightarrow> goerr + byte list"
  | AClosed string
  | AUpstream string gotime gotime

definition auth_step :: "hashes \<Rightarrow> clientConfig \<Rightarrow> authState \<Rightarrow> auth_event \<Rightarrow> authState" where
  "auth_step h cfg s ev =
     (case ev of
        ARequest req clk rnd \<Rightarrow> fst (client_gate h cfg clk rnd s req)
      | AClosed addr \<Rightarrow> clearClientState s addr
      | AUpstream nonce now pruneNow \<Rightarrow> fst (nextDigestNC s nonce now pruneNow))"

abbreviation auth_run :: "hashes \<Rightarrow> clientConfig \<Rightarrow> auth_event list \<Rightarrow> authState \<Rightarrow> authState" where
  "auth_run h cfg evs s \<equiv> foldl (auth_step h cfg) s evs"

text \<open>No reading of the clock in an event is later than \<open>t\<close>.\<close>

definition clock_until :: "gotime \<Rightarrow> auth_event \<Rightarrow> bool" where
  "clock_until t ev =
     (case ev of
        ARequest req clk rnd \<Rightarrow> clk 0 \<le> t \<and> clk 1 \<le> t \<and> clk 2 \<le> t \<and> clk 3 \<le> t
      | AClosed addr \<Rightarrow> True
      | AUpstream nonce now pruneNow \<Rightarrow> now \<le> t \<and> pruneNow \<le> t)"

section \<open>The record of used nonces\<close>

definition marked :: "authState \<Rightarrow> string \<Rightarrow> gotime \<Rightarrow> bool" where
  "marked s key e \<longleftrightarrow> gm_get (as_seen s) key = Some e"

lemma map_of_filter_keep: "map_of m k = Some v \<Longrightarrow> P (k, v) \<Longrightarrow> map_of (filter P m) k = Some v"
  by (induction m) (auto split: if_splits)

lemma seen_frame [simp]:
  "as_seen (put_client s a c) = as_seen s" "as_seen (setClientAuthed s a) = as_seen s"
  "as_seen (clearClientAuthed s a) = as_seen s" "as_seen (clearClientState s a) = as_seen s"
  "as_seen (setNTLMChallenge s a ch b) = as_seen s" "as_seen (clearNTLMChallenge s a) = as_seen s"
  by (simp_all add: put_client_def setClientAuthed_def clearClientAuthed_def clearClientState_def
      setNTLMChallenge_def clearNTLMChallenge_def split: option.splits)

lemma prune_marked: "marked s key e \<Longrightarrow> now \<le> e \<Longrightarrow> marked (pruneDigestMaps s now) key e"
  by (auto simp: marked_def pruneDigestMaps_def intro!: map_of_filter_keep)

lemma seen_marked: "marked s key e \<Longrightarrow> now \<le> e \<Longrightarrow> marked (fst (digestNonceSeen s n c now)) key e"
  by (auto simp: marked_def digestNonceSeen_def go_map split: option.splits)

lemma mark_marked:
  assumes "marked s key e" "t \<le> e"
  shows "marked (fst (digestNonceMarkIfNew s n c now t)) key e"
proof (cases "gm_get (as_seen s) (nonce_key n c)")
  case None
  then have "marked (s\<lparr>as_seen := gm_put (nonce_key n c) (now + digestNonceLifetime) (as_seen s)\<rparr>) key e"
    using assms(1) by (auto simp: marked_def gm_get_put)
  with None prune_marked [OF this assms(2)] show ?thesis by (simp add: digestNonceMarkIfNew_def)
next
  case (Some x)
  with prune_marked [OF assms] show ?thesis by (simp add: digestNonceMarkIfNew_def)
qed

lemma nc_marked: "marked s key e \<Longrightarrow> t \<le> e \<Longrightarrow> marked (fst (nextDigestNC s n now t)) key e"
  using prune_marked [of "s\<lparr>as_counts := m\<rparr>" key e t for m]
  by (auto simp: nextDigestNC_def marked_def Let_def split: prod.splits)

lemma digest_marked:
  assumes "marked s key e" "clk 1 \<le> e" "clk 3 \<le> e"
  shows "marked (fst (checkDigestClientAuth h cfg clk s req)) key e"
  using assms seen_marked [OF assms(1,2)] mark_marked [OF _ assms(3)]
  by (auto simp: checkDigestClientAuth_def Let_def split: prod.splits)
    (metis fst_conv)+

lemma ntlm_seen [simp]: "as_seen (fst (checkNTLMClientAuth h cfg r s req sch)) = as_seen s"
  by (auto simp: checkNTLMClientAuth_def Let_def split: prod.splits option.splits sum.splits)

lemma method_marked:
  "marked s key e \<Longrightarrow> clk 1 \<le> e \<Longrightarrow> clk 3 \<le> e \<Longrightarrow> marked (fst (check_method h cfg clk r s req m)) key e"
  by (simp add: check_method_def digest_marked) (simp add: marked_def)

lemma methods_marked:
  assumes "clk 1 \<le> e" "clk 3 \<le> e"
  shows "marked s key e \<Longrightarrow> marked (fst (check_methods h cfg clk rnd s req ms)) key e"
proof (induction ms arbitrary: s)
  case (Cons m ms)
  obtain s' ok where m: "check_method h cfg clk (rnd (length ms)) s req m = (s', ok)" by (cases "check_method h cfg clk (rnd (length ms)) s req m")
  with method_marked [OF Cons.prems assms, of h cfg "rnd (length ms)" req m] have "marked s' key e" by simp
  with Cons.IH m show ?case by simp
qed simp

lemma step_marked:
  assumes "marked s key e" "clock_until e ev"
  shows "marked (auth_step h cfg s ev) key e"
proof (cases ev)
  case (ARequest req clk rnd)
  then have c: "clk 1 \<le> e" "clk 3 \<le> e" using assms(2) by (simp_all add: clock_until_def)
  from methods_marked [OF c assms(1), of h cfg rnd req "ClientAuthList cfg"] assms(1) show ?thesis
    by (auto simp: ARequest auth_step_def client_gate_def authenticateClient_def checkClientAuth_def marked_def split: prod.splits)
next
  case (AUpstream n now t)
  with assms show ?thesis by (simp add: auth_step_def clock_until_def nc_marked)
qed (use assms in \<open>simp add: auth_step_def marked_def\<close>)

lemma run_marked: "marked s key e \<Longrightarrow> list_all (clock_until e) evs \<Longrightarrow> marked (auth_run h cfg evs s) key e"
  by (induction evs arbitrary: s) (auto simp: step_marked)

section \<open>Accepted Digest responses\<close>

definition digest_params :: "authRequest \<Rightarrow> (string, string) gomap" where
  "digest_params req = parseAuthParams (trim_space (fst (snd (cut_char (CHR '' '') (rq_Authorization req)))))"

text \<open>The time stamp in a nonce.\<close>

definition nonce_time :: "string \<Rightarrow> gotime option" where
  "nonce_time nonce =
     (case b64_decode nonce of None \<Rightarrow> None
      | Some raw \<Rightarrow> map_option time_unix (atoi (fst (cut_char (CHR '':'') (str_of raw)))))"

lemma verified_time:
  assumes "verifyDigestNonceAt h nonce addr now"
  shows "\<exists>ts. nonce_time nonce = Some ts \<and> now - ts \<le> digestNonceLifetime"
proof -
  from assms obtain raw ts where raw: "b64_decode nonce = Some raw" "atoi (fst (cut_char (CHR '':'') (str_of raw))) = Some ts"
    "\<not> time_sub now (time_unix ts) > digestNonceLifetime"
    by (auto simp: verifyDigestNonceAt_def Let_def split: option.splits prod.splits if_splits)
  then have "now - time_unix ts \<le> digestNonceLifetime"
    by (simp add: time_sub_gt_iff digestNonceLifetime_def duration_defs min_duration_def max_duration_def)
  with raw show ?thesis by (simp add: nonce_time_def)
qed

lemma digest_accepted:
  assumes "checkDigestClientAuth h cfg clk s req = (s', True)"
  defines "nonce \<equiv> param (digest_params req) ''nonce''" and "nc \<equiv> param (digest_params req) ''nc''"
  shows "verifyDigestNonceAt h nonce (rq_RemoteAddr req) (clk 0)" "\<not> snd (digestNonceSeen s nonce nc (clk 1))"
    "s' = fst (digestNonceMarkIfNew (fst (digestNonceSeen s nonce nc (clk 1))) nonce nc (clk 2) (clk 3))"
    "snd (digestNonceMarkIfNew (fst (digestNonceSeen s nonce nc (clk 1))) nonce nc (clk 2) (clk 3))"
  using assms(1) unfolding nonce_def nc_def digest_params_def
  by (auto simp: checkDigestClientAuth_def Let_def split: prod.splits if_splits)

lemma accepted_marked:
  assumes "checkDigestClientAuth h cfg clk s req = (s', True)" "clk 3 \<le> clk 2 + digestNonceLifetime"
  shows "marked s' (nonce_key (param (digest_params req) ''nonce'') (param (digest_params req) ''nc'')) (clk 2 + digestNonceLifetime)"
proof -
  let ?n = "param (digest_params req) ''nonce''" and ?c = "param (digest_params req) ''nc''"
  let ?s = "fst (digestNonceSeen s ?n ?c (clk 1))"
  from digest_accepted(3,4) [OF assms(1)] have new: "gm_get (as_seen ?s) (nonce_key ?n ?c) = None"
    and s': "s' = pruneDigestMaps (?s\<lparr>as_seen := gm_put (nonce_key ?n ?c) (clk 2 + digestNonceLifetime) (as_seen ?s)\<rparr>) (clk 3)"
    by (auto simp: digestNonceMarkIfNew_def split: option.splits)
  show ?thesis unfolding s' by (rule prune_marked) (simp_all add: marked_def gm_get_put assms(2))
qed

section \<open>The flag of a connection\<close>

lemma authed_frame [simp]:
  "isClientAuthed (setNTLMChallenge s a ch b) addr = isClientAuthed s addr"
  "isClientAuthed (clearNTLMChallenge s a) addr = isClientAuthed s addr"
  by (auto simp: isClientAuthed_def setNTLMChallenge_def clearNTLMChallenge_def put_client_def clientStateFor_def
      new_client_def gm_get_put split: option.splits)

lemma authed_clients: "as_clients s = as_clients s' \<Longrightarrow> isClientAuthed s addr = isClientAuthed s' addr"
  by (simp add: isClientAuthed_def)

lemma prune_clients [simp]: "as_clients (pruneDigestMaps s t) = as_clients s"
  by (simp add: pruneDigestMaps_def)

lemma digest_clients [simp]: "as_clients (fst (checkDigestClientAuth h cfg clk s req)) = as_clients s"
  by (auto simp: checkDigestClientAuth_def digestNonceSeen_def digestNonceMarkIfNew_def Let_def
      split: prod.splits option.splits if_splits)

lemma ntlm_authed [simp]: "isClientAuthed (fst (checkNTLMClientAuth h cfg r s req sch)) addr = isClientAuthed s addr"
  by (auto simp: checkNTLMClientAuth_def Let_def split: prod.splits option.splits sum.splits)

lemma method_authed: "isClientAuthed (fst (check_method h cfg clk r s req m)) addr = isClientAuthed s addr"
  using authed_clients [OF digest_clients, of h cfg clk s req addr] by (simp add: check_method_def)

lemma methods_authed: "check_methods h cfg clk rnd s req ms = (s', ok) \<Longrightarrow> isClientAuthed s' addr = isClientAuthed s addr"
proof (induction ms arbitrary: s)
  case (Cons m ms)
  obtain s1 ok1 where m: "check_method h cfg clk (rnd (length ms)) s req m = (s1, ok1)" by (cases "check_method h cfg clk (rnd (length ms)) s req m")
  with method_authed [of h cfg clk "rnd (length ms)" s req m addr] have "isClientAuthed s1 addr = isClientAuthed s addr" by simp
  with Cons.IH [of s1] Cons.prems m show ?case by (auto split: if_splits)
qed simp

lemma set_authed: "isClientAuthed (setClientAuthed s a) addr \<longleftrightarrow> a = addr \<or> isClientAuthed s addr"
  by (auto simp: isClientAuthed_def setClientAuthed_def put_client_def clientStateFor_def gm_get_put new_client_def split: option.splits)

lemma clear_authed: "isClientAuthed (clearClientAuthed s a) addr \<longleftrightarrow> a \<noteq> addr \<and> isClientAuthed s addr"
  by (auto simp: isClientAuthed_def clearClientAuthed_def put_client_def gm_get_put split: option.splits)

lemma close_authed: "isClientAuthed (clearClientState s a) addr \<longleftrightarrow> a \<noteq> addr \<and> isClientAuthed s addr"
  by (auto simp: isClientAuthed_def clearClientState_def gm_get_del split: option.splits)

text \<open>An event that leaves a connection authenticated: the connection was so before and it did not end,
  or the event is a request of it that the check accepts.\<close>

lemma step_authed:
  assumes "isClientAuthed (auth_step h cfg s ev) addr"
  shows "isClientAuthed s addr \<and> ev \<noteq> AClosed addr
    \<or> (\<exists>req clk rnd. ev = ARequest req clk rnd \<and> rq_RemoteAddr req = addr \<and> snd (checkClientAuth h cfg clk rnd s req))"
proof (cases ev)
  case (ARequest req clk rnd)
  obtain s1 ok where c: "checkClientAuth h cfg clk rnd s req = (s1, ok)" by (cases "checkClientAuth h cfg clk rnd s req")
  then have "isClientAuthed s1 addr = isClientAuthed s addr" unfolding checkClientAuth_def by (rule methods_authed)
  with assms c show ?thesis unfolding ARequest auth_step_def client_gate_def authenticateClient_def
    by (cases ok) (auto simp: set_authed clear_authed split: if_splits)
next
  case (AClosed a)
  with assms show ?thesis by (auto simp: auth_step_def close_authed)
next
  case (AUpstream n now t)
  have "as_clients (fst (nextDigestNC s n now t)) = as_clients s" by (auto simp: nextDigestNC_def Let_def split: prod.splits)
  from authed_clients [OF this, of addr] assms AUpstream show ?thesis by (simp add: auth_step_def)
qed

lemma run_authed:
  assumes "isClientAuthed (auth_run h cfg evs s) addr" "\<not> isClientAuthed s addr"
  shows "\<exists>pre req clk rnd post. evs = pre @ ARequest req clk rnd # post \<and> rq_RemoteAddr req = addr
    \<and> snd (checkClientAuth h cfg clk rnd (auth_run h cfg pre s) req) \<and> AClosed addr \<notin> set post"
  using assms(1)
proof (induction evs rule: rev_induct)
  case (snoc ev evs)
  from step_authed [of h cfg "auth_run h cfg evs s" ev addr] snoc.prems
  consider "isClientAuthed (auth_run h cfg evs s) addr" "ev \<noteq> AClosed addr"
    | req clk rnd where "ev = ARequest req clk rnd" "rq_RemoteAddr req = addr" "snd (checkClientAuth h cfg clk rnd (auth_run h cfg evs s) req)"
    by auto
  then show ?case
  proof cases
    case 1
    from snoc.IH [OF 1(1)] obtain pre req clk rnd post where "evs = pre @ ARequest req clk rnd # post" "rq_RemoteAddr req = addr"
      "snd (checkClientAuth h cfg clk rnd (auth_run h cfg pre s) req)" "AClosed addr \<notin> set post" by blast
    with 1(2) show ?thesis by (intro exI [of _ pre] exI [of _ req] exI [of _ clk] exI [of _ rnd] exI [of _ "post @ [ev]"]) auto
  next
    case 2
    then show ?thesis by (intro exI [of _ evs] exI [of _ req] exI [of _ clk] exI [of _ rnd] exI [of _ "[]"]) auto
  qed
qed (use assms(2) in simp)

section \<open>NTLM challenges\<close>

lemma cleared_challenge: "ntlmChallenge (clearNTLMChallenge s a) a = []"
  by (auto simp: ntlmChallenge_def clearNTLMChallenge_def put_client_def gm_get_put split: option.splits)

lemma ntlm_needs_challenge:
  "snd (checkNTLMClientAuth h cfg r s req sch) \<Longrightarrow> ntlmChallenge s (rq_RemoteAddr req) \<noteq> []"
  by (auto simp: checkNTLMClientAuth_def Let_def split: prod.splits option.splits sum.splits if_splits)

lemma ntlm_success_clears:
  "checkNTLMClientAuth h cfg r s req sch = (s', True) \<Longrightarrow> ntlmChallenge s' (rq_RemoteAddr req) = []"
  by (auto simp: checkNTLMClientAuth_def Let_def cleared_challenge split: prod.splits option.splits sum.splits if_splits)

text \<open>An AUTHENTICATE message under the NTLM scheme is checked against the pending challenge.\<close>

lemma parse_kind: "parseNTLMAuthenticateMessage raw = Inr m \<Longrightarrow> isNTLMSSP raw \<and> uint32_at raw 8 = 3"
  by (auto simp: parseNTLMAuthenticateMessage_def isNTLMSSP_def split: if_splits)

lemma checkNTLM_authenticate:
  assumes "rq_Authorization req = scheme @ CHR '' '' # b64_encode raw" "CHR '' '' \<notin> set scheme" "equal_fold scheme sch"
    and "isNTLMSSP raw" "uint32_at raw 8 = 3" "length raw \<le> maxSPNEGOTokenLen" "ntlmChallenge s (rq_RemoteAddr req) \<noteq> []"
  shows "checkNTLMClientAuth h cfg r s req sch =
    (clearNTLMChallenge s (rq_RemoteAddr req),
     verifyNTLMAuthenticate (h_hmacMD5 h) (h_md4 h) raw (ntlmChallenge s (rq_RemoteAddr req)) (ClientUsername cfg) (ClientPassword cfg))"
proof -
  have "length (b64_encode raw) \<le> b64_EncodedLen maxSPNEGOTokenLen"
    unfolding b64_encode_length b64_EncodedLen_def using assms(6) by (intro mult_le_mono1 div_le_mono) simp
  with assms cut_char_found [OF assms(2), of "b64_encode raw"] show ?thesis
    by (simp add: checkNTLMClientAuth_def Let_def)
qed

section \<open>An example\<close>

text \<open>A server with trivial hash functions, and requests of a client \<open>u\<close> with the password \<open>p\<close>.\<close>

definition ex_hashes :: hashes where
  "ex_hashes = \<lparr>h_md5 = (\<lambda>_. [1]), h_nonce = (\<lambda>_. []), h_hmacMD5 = (\<lambda>_ _. replicate 16 5), h_md4 = (\<lambda>_. [])\<rparr>"

definition ex_config :: clientConfig where
  "ex_config = \<lparr>ClientAuthList = [''DIGEST''], ClientUsername = ''u'', ClientPassword = ''p''\<rparr>"

definition ex_state :: authState where
  "ex_state = \<lparr>as_clients = [], as_counts = [], as_seen = [], as_lastPrune = 0\<rparr>"

definition ex_request :: "string \<Rightarrow> authRequest" where
  "ex_request auth = \<lparr>rq_RemoteAddr = ''a'', rq_Authorization = auth, rq_Method = ''GET'', rq_RequestURI = ''/'', rq_Host = [], rq_URL = None\<rparr>"

definition ex_digest :: authRequest where
  "ex_digest = ex_request ''Digest username=u, realm=PxClient, nonce=MDphOg==, uri=/, response=01, qop=auth, nc=00000001, cnonce=c''"

section \<open>Properties\<close>

text \<open>C11: A Digest response is accepted only once. After a request with a nonce and a nonce count was accepted, and after
  any other requests, closed connections and upstream requests, another request with the same nonce and count is
  refused: in the 120 seconds after the first one always, and later too if the stamp of the nonce was not ahead of the
  clock when it was first used, by more than the second check takes between its two readings of the clock. The lemma
  \<open>future_nonce_replayed\<close> shows why a nonce from the future has to be left out.\<close>

theorem digest_no_replay:
  assumes "checkDigestClientAuth h cfg clk s req = (s1, True)"
    and "param (digest_params req') ''nonce'' = param (digest_params req) ''nonce''"
    and "param (digest_params req') ''nc'' = param (digest_params req) ''nc''"
    and "list_all (clock_until (clk' 1)) evs" "clk 3 \<le> clk' 1"
    and "clk' 1 \<le> clk 2 + 120 * second
      \<or> nonce_time (param (digest_params req) ''nonce'') = Some issued \<and> issued + (clk' 1 - clk' 0) \<le> clk 2"
  shows "\<not> snd (checkDigestClientAuth h cfg clk' (auth_run h cfg evs s1) req')"
proof
  let ?n = "param (digest_params req) ''nonce''" and ?c = "param (digest_params req) ''nc''"
  let ?e = "clk 2 + digestNonceLifetime"
  assume "snd (checkDigestClientAuth h cfg clk' (auth_run h cfg evs s1) req')"
  then obtain s2 where again: "checkDigestClientAuth h cfg clk' (auth_run h cfg evs s1) req' = (s2, True)"
    by (cases "checkDigestClientAuth h cfg clk' (auth_run h cfg evs s1) req'") simp
  have late: "clk' 1 > ?e"
  proof (rule ccontr)
    assume early: "\<not> clk' 1 > ?e"
    have "marked s1 (nonce_key ?n ?c) ?e" using accepted_marked [OF assms(1)] assms(5) early by linarith
    moreover have "list_all (clock_until ?e) evs"
      using assms(4) early by (fastforce simp: list_all_iff clock_until_def split: auth_event.splits)
    ultimately have "marked (auth_run h cfg evs s1) (nonce_key ?n ?c) ?e" by (rule run_marked)
    with early have "snd (digestNonceSeen (auth_run h cfg evs s1) ?n ?c (clk' 1))" by (simp add: digestNonceSeen_def marked_def)
    with digest_accepted(2) [OF again] assms(2,3) show False by simp
  qed
  from digest_accepted(1) [OF again] obtain ts where "nonce_time ?n = Some ts" "clk' 0 - ts \<le> digestNonceLifetime"
    using verified_time assms(2) by metis
  with late assms(6) show False by (auto simp: digestNonceLifetime_def)
qed

theorem digest_no_replay_witness:
  "\<not> snd (checkDigestClientAuth ex_hashes ex_config (\<lambda>_. unix_epoch + second)
     (fst (checkDigestClientAuth ex_hashes ex_config (\<lambda>_. unix_epoch) ex_state ex_digest)) ex_digest)"
proof -
  let ?c = "\<lambda>_ :: nat. unix_epoch" and ?c' = "\<lambda>_ :: nat. unix_epoch + second"
  let ?s1 = "fst (checkDigestClientAuth ex_hashes ex_config ?c ex_state ex_digest)"
  have "snd (checkDigestClientAuth ex_hashes ex_config ?c ex_state ex_digest) = True" by code_simp
  then have first: "checkDigestClientAuth ex_hashes ex_config ?c ex_state ex_digest = (?s1, True)" by (simp add: prod_eq_iff)
  have "list_all (clock_until (?c' 1)) []" "?c 3 \<le> ?c' 1" "?c' 1 \<le> ?c 2 + 120 * second" by (simp_all add: duration_defs)
  from digest_no_replay [OF first refl refl this(1,2) disjI1 [OF this(3)]] show ?thesis by simp
qed

text \<open>A nonce whose stamp is three seconds ahead of the clock, as after the clock was set back: it is accepted, and
  accepted again 121 seconds later, when the record of its use has expired and the nonce itself has not.\<close>

definition ex_future :: authRequest where
  "ex_future = ex_request ''Digest username=u, realm=PxClient, nonce=MzphOg==, uri=/, response=01, qop=auth, nc=00000001, cnonce=c''"

lemma future_nonce_replayed:
  "case checkDigestClientAuth ex_hashes ex_config (\<lambda>_. unix_epoch) ex_state ex_future of
     (s, ok) \<Rightarrow> ok \<and> snd (checkDigestClientAuth ex_hashes ex_config (\<lambda>_. unix_epoch + 121 * second) s ex_future)"
  by code_simp

text \<open>The gate lets only authenticated connections through. When client authentication is enabled
  and a request passes the gate after any run of the server, then its own credentials are accepted,
  or it carries none and an earlier request from the same remote address was accepted by the check,
  with no end of that connection in between.\<close>

theorem gate_needs_authentication:
  assumes "clientAuthEnabled cfg" "as_clients s = []"
    and "client_gate h cfg clk rnd (auth_run h cfg evs s) req = (s', True)"
  shows "snd (checkClientAuth h cfg clk rnd (auth_run h cfg evs s) req)
    \<or> rq_Authorization req = [] \<and> (\<exists>pre req0 clk0 rnd0 post. evs = pre @ ARequest req0 clk0 rnd0 # post
        \<and> rq_RemoteAddr req0 = rq_RemoteAddr req \<and> snd (checkClientAuth h cfg clk0 rnd0 (auth_run h cfg pre s) req0)
        \<and> AClosed (rq_RemoteAddr req) \<notin> set post)"
proof -
  have start: "\<not> isClientAuthed s (rq_RemoteAddr req)" using assms(2) by (simp add: isClientAuthed_def)
  from assms(1,3) consider "snd (checkClientAuth h cfg clk rnd (auth_run h cfg evs s) req)"
    | "rq_Authorization req = []" "isClientAuthed (auth_run h cfg evs s) (rq_RemoteAddr req)"
    by (auto simp: client_gate_def authenticateClient_def split: prod.splits if_splits)
  then show ?thesis
  proof cases
    case 2
    with run_authed [OF 2(2) start] show ?thesis by blast
  qed simp
qed

theorem gate_needs_authentication_witness:
  "\<exists>pre req0 clk0 rnd0 post. [ARequest ex_digest (\<lambda>_. unix_epoch) (\<lambda>_. Inl Canceled)] = pre @ ARequest req0 clk0 rnd0 # post
    \<and> rq_RemoteAddr req0 = ''a'' \<and> snd (checkClientAuth ex_hashes ex_config clk0 rnd0 (auth_run ex_hashes ex_config pre ex_state) req0)
    \<and> AClosed ''a'' \<notin> set post"
proof -
  let ?c = "\<lambda>_ :: nat. unix_epoch" and ?r = "\<lambda>_ :: nat. Inl Canceled :: goerr + byte list"
  let ?g = "client_gate ex_hashes ex_config ?c ?r (auth_run ex_hashes ex_config [ARequest ex_digest ?c ?r] ex_state) (ex_request [])"
  have en: "clientAuthEnabled ex_config" "as_clients ex_state = []" by (simp_all add: clientAuthEnabled_def ex_config_def ex_state_def)
  have "snd ?g = True" by code_simp
  then have "?g = (fst ?g, True)" by (simp add: prod_eq_iff)
  note gate = gate_needs_authentication [OF en this]
  have no: "snd (checkClientAuth ex_hashes ex_config ?c ?r (auth_run ex_hashes ex_config [ARequest ex_digest ?c ?r] ex_state) (ex_request [])) = False"
    by code_simp
  have "rq_RemoteAddr (ex_request []) = ''a''" by (simp add: ex_request_def)
  with gate no show ?thesis by (simp only: simp_thms)
qed

text \<open>An NTLM challenge is good for one attempt. When the check accepts an NTLM message, a
  challenge was pending on that connection, none is pending afterwards, and no message on that
  connection is accepted until a new challenge is issued.\<close>

theorem ntlm_challenge_single_use:
  assumes "checkNTLMClientAuth h cfg r s req sch = (s', True)" "rq_RemoteAddr req' = rq_RemoteAddr req"
  shows "ntlmChallenge s (rq_RemoteAddr req) \<noteq> [] \<and> ntlmChallenge s' (rq_RemoteAddr req) = []
    \<and> \<not> snd (checkNTLMClientAuth h cfg r' s' req' sch')"
  using ntlm_needs_challenge [of h cfg r s req sch] ntlm_needs_challenge [of h cfg r' s' req' sch']
    ntlm_success_clears [OF assms(1)] assms by auto

theorem ntlm_challenge_single_use_witness:
  "\<exists>s s'. checkNTLMClientAuth ex_hashes ex_config (Inl Canceled) s
      (ex_request (''NTLM'' @ CHR '' '' # b64_encode (ntlm_authenticate [] (replicate 16 5) [] ''u''))) authNTLM = (s', True)
    \<and> ntlmChallenge s ''a'' \<noteq> [] \<and> ntlmChallenge s' ''a'' = []"
proof -
  let ?m = "ntlm_authenticate [] (replicate 16 5) [] ''u''"
  let ?ch = "replicate 48 9 :: byte list" and ?q = "ex_request (''NTLM'' @ CHR '' '' # b64_encode ?m)"
  let ?s = "setNTLMChallenge ex_state ''a'' ?ch False"
  have l: "length (utf16le ''u'') = 2" "utf16le [] = []" by (simp_all add: utf16le_def bytes_of_def utf16_of_def)
  have t: "go_text []" "go_text ''u''" by (intro go_text_ascii; simp)+
  have size: "length ?m = 82" by (simp add: ntlm_authenticate_def Let_def l)
  have parse: "parseNTLMAuthenticateMessage ?m = Inr \<lparr>lmResponse = [], ntResponse = replicate 16 5, ntlm_domain = [], ntlm_user = ''u''\<rparr>"
    using size by (intro parse_authenticate t) (simp_all add: maxNTLMResponseLen_def maxSPNEGOTokenLen_def)
  have cut: "cut_char (CHR 0x5C) ''u'' = (''u'', [], False)" by (simp add: cut_char_def)
  have ok: "verifyNTLMAuthenticate (h_hmacMD5 ex_hashes) (h_md4 ex_hashes) ?m ?ch ''u'' ''p''"
    unfolding verifyNTLMAuthenticate_def parse splitConfiguredNTLMName_def cut Let_def by (simp add: ex_hashes_def)
  have ch: "ntlmChallenge ?s ''a'' = ?ch"
    by (simp add: ntlmChallenge_def setNTLMChallenge_def put_client_def ex_state_def clientStateFor_def)
  have r: "checkNTLMClientAuth ex_hashes ex_config (Inl Canceled) ?s ?q authNTLM = (clearNTLMChallenge ?s ''a'', True)"
    using checkNTLM_authenticate [of ?q "''NTLM''" ?m authNTLM ?s ex_hashes ex_config "Inl Canceled"] ok size ch
    by (simp add: ex_request_def authNTLM_def ex_config_def maxSPNEGOTokenLen_def parse_kind [OF parse])
  have "ntlmChallenge ?s (rq_RemoteAddr ?q) \<noteq> [] \<and> ntlmChallenge (clearNTLMChallenge ?s ''a'') (rq_RemoteAddr ?q) = []"
    using ntlm_challenge_single_use [OF r refl] by blast
  with r show ?thesis by (intro exI [of _ ?s] exI [of _ "clearNTLMChallenge ?s ''a''"]) (simp add: ex_request_def)
qed

end
