(* ===== verification/Auth_Upstream.thy ===== *)
theory Auth_Upstream
  imports Auth_Client_Safety
begin

text \<open>
  Authentication to upstream proxies, \<^verbatim>\<open>internal/proxy/auth_upstream.go\<close>: which schemes a
  configuration allows, the choice of a challenge among those a proxy offers, and the header that
  answers it. The messages of the NTLM library (\<^verbatim>\<open>go-ntlmssp\<close>) are arguments, as are the clock and
  random bytes.
\<close>

section \<open>Schemes and modes\<close>

record upstreamConfig =
  Auth :: string
  Username :: string
  Password :: string
  Kerberos :: bool
  GOOS :: string

definition authSchemeFromChallenge :: "string \<Rightarrow> string" where
  "authSchemeFromChallenge challenge = to_upper (fst (cut_char (CHR '' '') (trim_space challenge)))"

definition isKnownAuthScheme :: "string \<Rightarrow> bool" where
  "isKnownAuthScheme scheme \<longleftrightarrow> to_upper scheme \<in> set [authNegotiate, authNTLM, authDigest, authBasic]"

definition isConnectionAuth :: "string \<Rightarrow> bool" where
  "isConnectionAuth auth \<longleftrightarrow> equal_fold auth authNTLM \<or> equal_fold auth authNegotiate"

definition canonicalConnectionAuthScheme :: "string \<Rightarrow> string" where
  "canonicalConnectionAuthScheme scheme = (if equal_fold scheme authNTLM then authNTLM else authSchemeNeg)"

definition removeAuthMode :: "string list \<Rightarrow> string \<Rightarrow> string list" where
  "removeAuthMode modes rem = filter (\<lambda>m. m \<noteq> rem) modes"

definition containsAuthMode :: "string list \<Rightarrow> string \<Rightarrow> bool" where
  "containsAuthMode modes want \<longleftrightarrow> list_ex (\<lambda>m. equal_fold m want) modes"

definition all_modes :: "string list" where "all_modes = [authNegotiate, authNTLM, authDigest, authBasic]"
definition safe_modes :: "string list" where "safe_modes = [authNegotiate, authNTLM, authDigest]"

text \<open>The prefixes with their base lists and whether only the named scheme remains.\<close>

definition mode_prefixes :: "(string \<times> string list \<times> bool) list" where
  "mode_prefixes = [(''SAFENO'', safe_modes, False), (''ONLY'', all_modes, True), (''NO'', all_modes, False)]"

fun prefixed_modes :: "string \<Rightarrow> (string \<times> string list \<times> bool) list \<Rightarrow> string list option" where
  "prefixed_modes auth [] = None"
| "prefixed_modes auth ((name, base, only) # ps) =
     (if has_prefix auth name \<and> isKnownAuthScheme (drop (length name) auth)
      then Some (if only then [drop (length name) auth] else removeAuthMode base (drop (length name) auth))
      else prefixed_modes auth ps)"

definition upstreamAuthModes :: "string \<Rightarrow> string list" where
  "upstreamAuthModes a =
     (let auth = to_upper (trim_space a) in
      if auth = [] \<or> auth = authAny then all_modes
      else if auth = authNone then []
      else if auth = authAnySafe then safe_modes
      else case prefixed_modes auth mode_prefixes of Some ms \<Rightarrow> ms | None \<Rightarrow> [auth])"

definition validateUpstreamAuth :: "string \<Rightarrow> goerr option" where
  "validateUpstreamAuth a =
     (let auth = to_upper (trim_space a) in
      if auth = [] \<or> auth = authAny \<or> auth = authAnySafe \<or> auth = authNone then None
      else if list_ex (\<lambda>p. has_prefix auth p \<and> isKnownAuthScheme (drop (length p) auth)) [''SAFENO'', ''ONLY'', ''NO''] then None
      else if isKnownAuthScheme auth then None
      else Some (Wrapped auth (ErrMsg ''unsupported upstream auth type'')))"

definition effectiveUpstreamAuth :: "upstreamConfig \<Rightarrow> string" where
  "effectiveUpstreamAuth cfg =
     (if trim_space (Auth cfg) = [] \<and> Username cfg \<noteq> [] \<and> Password cfg \<noteq> [] then authAnySafe else Auth cfg)"

definition hasConnectionAuthMode :: "string \<Rightarrow> bool" where
  "hasConnectionAuthMode auth \<longleftrightarrow> list_ex isConnectionAuth (upstreamAuthModes auth)"

text \<open>The identity that owns a pooled connection; \<open>mac\<close> is the HMAC-SHA256 under the key of the process.\<close>

definition upstreamConnectionAuthIdentity :: "(byte list \<Rightarrow> byte list) \<Rightarrow> upstreamConfig \<Rightarrow> string" where
  "upstreamConnectionAuthIdentity mac cfg =
     (if \<not> hasConnectionAuthMode (effectiveUpstreamAuth cfg) then []
      else if Username cfg \<noteq> [] \<and> Password cfg \<noteq> [] then
        ''explicit:'' @ hex_encode (mac (bytes_of (''explicit'' @ [CHR 0x00] @ Username cfg @ [CHR 0x00] @ Password cfg
          @ [CHR 0x00] @ to_upper (trim_space (effectiveUpstreamAuth cfg)))))
      else if Username cfg \<noteq> [] \<or> Password cfg \<noteq> [] then []
      else if GOOS cfg = ''windows'' then ''sspi:current-user''
      else [])"

section \<open>Challenges\<close>

text \<open>The parts of a header value: the commas outside quotes separate, and a part that does not start with
  a known scheme belongs to the part before it. The first loop is that of \<^const>\<open>splitAuthParams\<close>.\<close>

fun merge_parts :: "string list \<Rightarrow> string list \<Rightarrow> string list" where
  "merge_parts [] parts = parts"
| "merge_parts (raw # raws) parts =
     (let part = trim_space raw in
      if part = [] then merge_parts raws parts
      else if isKnownAuthScheme (authSchemeFromChallenge part) \<or> parts = [] then merge_parts raws (parts @ [part])
      else merge_parts raws (butlast parts @ [last parts @ '', '' @ part]))"

definition splitProxyAuthenticateValues :: "string \<Rightarrow> string list" where
  "splitProxyAuthenticateValues header = merge_parts (splitAuthParams header) []"

text \<open>The first part with the scheme, over all header values.\<close>

definition findProxyAuthenticateChallenge :: "string list \<Rightarrow> string \<Rightarrow> string" where
  "findProxyAuthenticateChallenge challenges scheme =
     (case List.find (\<lambda>part. equal_fold (authSchemeFromChallenge part) scheme)
        (concat (map splitProxyAuthenticateValues challenges)) of
        Some part \<Rightarrow> trim_space part | None \<Rightarrow> [])"

fun select_mode :: "string list \<Rightarrow> string list \<Rightarrow> string" where
  "select_mode [] challenges = []"
| "select_mode (scheme # schemes) challenges =
     (let challenge = findProxyAuthenticateChallenge challenges scheme in
      if challenge \<noteq> [] then challenge else select_mode schemes challenges)"

definition selectProxyAuthenticateChallenge :: "string \<Rightarrow> string list \<Rightarrow> string" where
  "selectProxyAuthenticateChallenge auth challenges = select_mode (upstreamAuthModes auth) challenges"

section \<open>Answers\<close>

definition selectDigestQop :: "string \<Rightarrow> string \<times> bool" where
  "selectDigestQop q =
     (if trim_space q = [] then ([], True)
      else if list_ex (\<lambda>part. equal_fold (trim_space part) ''auth'') (split_on (CHR '','') (trim_space q)) then (''auth'', True)
      else ([], False))"

text \<open>What the header takes from outside: the NTLM library, the clock and random bytes.\<close>

record upstreamEnv =
  ue_negotiate :: "goerr + byte list"
  ue_authenticate :: "byte list \<Rightarrow> string \<Rightarrow> string \<Rightarrow> goerr + byte list"
  ue_now :: gotime
  ue_prune :: gotime
  ue_cnonce :: "byte list"

text \<open>A token of more than 4 gigabytes, which cannot be wrapped, is reported as an error here.\<close>

definition wrap_token :: "byte list option \<Rightarrow> goerr + byte list" where
  "wrap_token t = (case t of Some b \<Rightarrow> Inr b | None \<Rightarrow> Inl (ErrMsg ''panic''))"

definition connectionProxyAuthHeader :: "upstreamEnv \<Rightarrow> upstreamConfig \<Rightarrow> string \<Rightarrow> string \<Rightarrow> goerr + string" where
  "connectionProxyAuthHeader env cfg authMode challengeHeader =
     (if Username cfg = [] \<or> Password cfg = [] then Inr []
      else case cut_char (CHR '' '') (trim_space challengeHeader) of
        (scheme, token, _) \<Rightarrow>
          if \<not> equal_fold scheme authMode then Inr []
          else if trim_space token = [] then
            (case ue_negotiate env of
               Inl e \<Rightarrow> Inl e
             | Inr msg \<Rightarrow>
                 (case (if equal_fold authMode authNegotiate then wrap_token (spnegoNegTokenInit msg) else Inr msg) of
                    Inl e \<Rightarrow> Inl e
                  | Inr msg \<Rightarrow> Inr (canonicalConnectionAuthScheme scheme @ '' '' @ b64_encode msg)))
          else (case b64_decode (trim_space token) of
            None \<Rightarrow> Inl (ErrMsg ''illegal base64 data'')
          | Some challenge \<Rightarrow>
              let wrapResponse = equal_fold authMode authNegotiate \<and> \<not> isNTLMSSP challenge in
              (case (if wrapResponse then unwrapSPNEGONTLMToken challenge else Some challenge) of
                 None \<Rightarrow> Inr []
               | Some challenge \<Rightarrow>
                   (case ue_authenticate env challenge (Username cfg) (Password cfg) of
                      Inl e \<Rightarrow> Inl e
                    | Inr msg \<Rightarrow>
                        (case (if wrapResponse then wrap_token (spnegoNegTokenResp msg) else Inr msg) of
                           Inl e \<Rightarrow> Inl e
                         | Inr msg \<Rightarrow> Inr (canonicalConnectionAuthScheme scheme @ '' '' @ b64_encode msg))))))"

definition quoted :: "string \<Rightarrow> string \<Rightarrow> string" where
  "quoted key val = key @ ''='' @ [CHR 0x22] @ val @ [CHR 0x22]"

definition digest_answer ::
  "hashes \<Rightarrow> upstreamEnv \<Rightarrow> upstreamConfig \<Rightarrow> authState \<Rightarrow> string \<Rightarrow> string \<Rightarrow> string \<Rightarrow> authState \<times> string" where
  "digest_answer h env cfg s meth uri challenge =
     (case cut_char (CHR '' '') (trim_space challenge) of
        (scheme, paramsText, ok) \<Rightarrow>
          if \<not> ok \<or> \<not> equal_fold scheme authSchemeDigest \<or> trim_space paramsText = [] then (s, [])
          else
            let params = parseAuthParams (trim_space paramsText);
                realm = param params ''realm''; nonce = param params ''nonce'';
                (qop, qopOK) = selectDigestQop (param params ''qop'');
                algorithm = trim_space (param params ''algorithm'')
            in
            if realm = [] \<or> nonce = [] \<or> \<not> qopOK \<or> (algorithm \<noteq> [] \<and> \<not> equal_fold algorithm ''MD5'') then (s, [])
            else
              let ha1 = md5hex h (Username cfg @ '':'' @ realm @ '':'' @ Password cfg);
                  ha2 = md5hex h (meth @ '':'' @ uri)
              in
              if qop = [] then
                (s, ''Digest '' @ join_with '', '' [quoted ''username'' (Username cfg), quoted ''realm'' realm,
                   quoted ''nonce'' nonce, quoted ''uri'' uri,
                   quoted ''response'' (md5hex h (ha1 @ '':'' @ nonce @ '':'' @ ha2))])
              else
                let (s, nc) = nextDigestNC s nonce (ue_now env) (ue_prune env); cnonce = hex_encode (ue_cnonce env) in
                (s, ''Digest '' @ join_with '', '' [quoted ''username'' (Username cfg), quoted ''realm'' realm,
                   quoted ''nonce'' nonce, quoted ''uri'' uri, ''qop='' @ qop, ''nc='' @ nc, quoted ''cnonce'' cnonce,
                   quoted ''response'' (digest_expected h (Username cfg) realm (Password cfg) meth uri nonce nc cnonce qop)]))"

definition upstreamProxyAuthHeader ::
  "hashes \<Rightarrow> upstreamEnv \<Rightarrow> upstreamConfig \<Rightarrow> authState \<Rightarrow> string \<Rightarrow> string \<Rightarrow> string \<Rightarrow> string \<Rightarrow> authState \<times> string" where
  "upstreamProxyAuthHeader h env cfg s meth uri challenge passthroughAuth =
     (let authModes = upstreamAuthModes (effectiveUpstreamAuth cfg) in
      if authModes = [] then (s, passthroughAuth)
      else if Username cfg = [] \<or> Password cfg = [] then (s, [])
      else let challengeScheme = authSchemeFromChallenge challenge in
        if challengeScheme = [] \<or> \<not> containsAuthMode authModes challengeScheme then (s, [])
        else if challengeScheme = authDigest then digest_answer h env cfg s meth uri challenge
        else if isConnectionAuth challengeScheme
        then (s, case connectionProxyAuthHeader env cfg challengeScheme challenge of Inr auth \<Rightarrow> auth | Inl _ \<Rightarrow> [])
        else (s, authSchemeBasic @ '' '' @ b64_encode (bytes_of (Username cfg @ '':'' @ Password cfg))))"

definition UpstreamProxyAuthHeader ::
  "hashes \<Rightarrow> upstreamEnv \<Rightarrow> upstreamConfig \<Rightarrow> authState \<Rightarrow> string \<Rightarrow> string \<Rightarrow> string list \<Rightarrow> authState \<times> string" where
  "UpstreamProxyAuthHeader h env cfg s meth uri challenges =
     (let challenge = (if challenges \<noteq> [] then selectProxyAuthenticateChallenge (effectiveUpstreamAuth cfg) challenges else []) in
      upstreamProxyAuthHeader h env cfg s meth uri challenge [])"

section \<open>Letter case\<close>

lemma upper_lower [simp]: "upper_char (lower_char c) = upper_char c"
  by (auto simp: upper_char_def lower_char_def Let_def)

lemma upper_upper [simp]: "upper_char (upper_char c) = upper_char c"
  by (auto simp: upper_char_def Let_def)

lemma to_upper_idem [simp]: "to_upper (to_upper s) = to_upper s"
  by (simp add: to_upper_def)

lemma to_upper_drop: "drop n (to_upper s) = to_upper (drop n s)"
  by (simp add: to_upper_def drop_map)

lemma equal_fold_upper: "equal_fold s t \<Longrightarrow> to_upper s = to_upper t"
proof -
  assume "equal_fold s t"
  then have "map upper_char (map lower_char s) = map upper_char (map lower_char t)"
    by (simp only: equal_fold_def to_lower_def)
  then show ?thesis by (simp add: to_upper_def o_def)
qed

section \<open>Allowed modes\<close>

lemma all_modes_upper: "m \<in> set all_modes \<Longrightarrow> to_upper m = m"
  by (auto simp: all_modes_def scheme_defs to_upper_def upper_char_def)

lemma known_upper: "isKnownAuthScheme (to_upper s) \<Longrightarrow> to_upper s \<in> set all_modes"
  by (simp add: isKnownAuthScheme_def all_modes_def)

lemma prefixed_subset:
  "prefixed_modes (to_upper a) ps = Some ms \<Longrightarrow> list_all (\<lambda>(_, base, _). set base \<subseteq> set all_modes) ps \<Longrightarrow> set ms \<subseteq> set all_modes"
proof (induction ps)
  case (Cons p ps)
  obtain name base only where p: "p = (name, base, only)" by (cases p) auto
  have "isKnownAuthScheme (drop (length name) (to_upper a)) \<Longrightarrow> drop (length name) (to_upper a) \<in> set all_modes"
    using known_upper [of "drop (length name) a"] by (simp add: to_upper_drop)
  with Cons p show ?case by (auto simp: removeAuthMode_def split: if_splits)
qed simp

lemma safe_subset: "set safe_modes \<subseteq> set all_modes"
  by (auto simp: safe_modes_def all_modes_def)

lemma prefixed_none:
  "prefixed_modes a ps = None \<Longrightarrow> \<not> list_ex (\<lambda>p. has_prefix a p \<and> isKnownAuthScheme (drop (length p) a)) (map fst ps)"
  by (induction ps) (auto split: if_splits)

lemma valid_modes:
  assumes "validateUpstreamAuth a = None"
  shows "set (upstreamAuthModes a) \<subseteq> set all_modes"
proof (cases "prefixed_modes (to_upper (trim_space a)) mode_prefixes")
  case None
  from prefixed_none [OF None]
  have "\<not> list_ex (\<lambda>p. has_prefix (to_upper (trim_space a)) p \<and> isKnownAuthScheme (drop (length p) (to_upper (trim_space a)))) [''SAFENO'', ''ONLY'', ''NO'']"
    by (simp only: mode_prefixes_def list.map fst_conv) simp
  with assms have "to_upper (trim_space a) \<in> set [[], authAny, authAnySafe, authNone] \<or> isKnownAuthScheme (to_upper (trim_space a))"
    unfolding validateUpstreamAuth_def Let_def by (auto split: if_splits)
  with None safe_subset known_upper [of "trim_space a"] show ?thesis
    by (auto simp: upstreamAuthModes_def Let_def authAny_def authAnySafe_def authNone_def)
next
  case (Some ms)
  have "list_all (\<lambda>(_, base, _). set base \<subseteq> set all_modes) mode_prefixes"
    using safe_subset by (simp add: mode_prefixes_def)
  with prefixed_subset [OF Some] have "set ms \<subseteq> set all_modes" by blast
  with Some safe_subset show ?thesis by (auto simp: upstreamAuthModes_def Let_def)
qed

lemma contains_upper:
  "set modes \<subseteq> set all_modes \<Longrightarrow> containsAuthMode modes (to_upper c) \<Longrightarrow> to_upper c \<in> set modes"
  using all_modes_upper equal_fold_upper by (fastforce simp: containsAuthMode_def list_ex_iff)

lemma scheme_upper [simp]: "to_upper (authSchemeFromChallenge c) = authSchemeFromChallenge c"
  by (simp add: authSchemeFromChallenge_def)

lemma scheme_of_header:
  assumes "\<forall>c \<in> set sch. \<not> go_space c" "sch \<noteq> []"
  shows "authSchemeFromChallenge (sch @ CHR '' '' # rest) = to_upper sch"
proof -
  have d: "dropWhile go_space (sch @ CHR '' '' # rest) = sch @ CHR '' '' # rest" using assms by (cases sch) auto
  have sch: "trim_right_by go_space sch = sch" using assms last_in_set [of sch] by (intro trim_right_by_id) auto
  have ns: "CHR '' '' \<notin> set sch" using assms(1) by (auto simp: go_space_def)
  let ?r = "CHR '' '' # rest"
  show ?thesis
  proof (cases "list_all go_space ?r")
    case True
    then have "trim_space (sch @ ?r) = sch" using d sch by (simp add: trim_space_def trim_right_by_append)
    with ns show ?thesis by (simp add: authSchemeFromChallenge_def cut_char_def)
  next
    case False
    then have "trim_right_by go_space ?r \<noteq> []" by (auto simp: trim_right_by_def list_all_iff dropWhile_eq_Nil_conv)
    then obtain t where t: "trim_right_by go_space ?r = CHR '' '' # t"
      using hd_trim_right_by [of go_space ?r] by (cases "trim_right_by go_space ?r") auto
    have "trim_space (sch @ ?r) = sch @ CHR '' '' # t" by (simp only: trim_space_def d trim_right_by_append False if_False t)
    with cut_char_found [OF ns, of t] show ?thesis by (simp add: authSchemeFromChallenge_def)
  qed
qed

section \<open>Which answers are given\<close>

lemma header_nonempty: "sch @ CHR '' '' # rest \<noteq> []" by simp

lemma scheme_words:
  "authSchemeFromChallenge (authNTLM @ CHR '' '' # r) = authNTLM"
  "authSchemeFromChallenge (authSchemeNeg @ CHR '' '' # r) = authNegotiate"
  "authSchemeFromChallenge (authSchemeBasic @ CHR '' '' # r) = authBasic"
  "authSchemeFromChallenge (''Digest'' @ CHR '' '' # r) = authDigest"
proof -
  have u: "to_upper authNTLM = authNTLM" "to_upper authSchemeNeg = authNegotiate" "to_upper authSchemeBasic = authBasic"
    "to_upper ''Digest'' = authDigest" by code_simp+
  show "authSchemeFromChallenge (authNTLM @ CHR '' '' # r) = authNTLM"
    by (subst scheme_of_header) (simp_all add: u, simp_all add: authNTLM_def go_space_def)
  show "authSchemeFromChallenge (authSchemeNeg @ CHR '' '' # r) = authNegotiate"
    by (subst scheme_of_header) (simp_all add: u, simp_all add: authSchemeNeg_def go_space_def)
  show "authSchemeFromChallenge (authSchemeBasic @ CHR '' '' # r) = authBasic"
    by (subst scheme_of_header) (simp_all add: u, simp_all add: authSchemeBasic_def go_space_def)
  show "authSchemeFromChallenge (''Digest'' @ CHR '' '' # r) = authDigest"
    by (subst scheme_of_header) (simp_all only: u, simp_all add: go_space_def)
qed

lemma connection_scheme:
  assumes "connectionProxyAuthHeader env cfg (authSchemeFromChallenge ch) ch = Inr auth" "auth \<noteq> []"
    "isConnectionAuth (authSchemeFromChallenge ch)"
  shows "authSchemeFromChallenge auth = authSchemeFromChallenge ch"
proof -
  let ?c = "authSchemeFromChallenge ch"
  obtain r where "auth = canonicalConnectionAuthScheme (fst (cut_char (CHR '' '') (trim_space ch))) @ CHR '' '' # r"
    using assms(1,2) by (auto simp: connectionProxyAuthHeader_def Let_def split: if_splits prod.splits sum.splits option.splits)
  moreover have "equal_fold (fst (cut_char (CHR '' '') (trim_space ch))) authNTLM \<longleftrightarrow> ?c = authNTLM"
  proof
    assume "equal_fold (fst (cut_char (CHR '' '') (trim_space ch))) authNTLM"
    from equal_fold_upper [OF this] show "?c = authNTLM"
      by (simp add: authSchemeFromChallenge_def authNTLM_def to_upper_def upper_char_def)
  next
    assume *: "?c = authNTLM"
    have "to_lower (to_upper x) = to_lower x" for x by (auto simp: to_lower_def to_upper_def lower_char_def upper_char_def Let_def)
    with * show "equal_fold (fst (cut_char (CHR '' '') (trim_space ch))) authNTLM"
      by (metis authSchemeFromChallenge_def equal_fold_def)
  qed
  moreover have "?c = authNTLM \<or> ?c = authNegotiate"
  proof -
    have "to_upper authNTLM = authNTLM" "to_upper authNegotiate = authNegotiate" by code_simp+
    with assms(3) equal_fold_upper [of ?c authNTLM] equal_fold_upper [of ?c authNegotiate] show ?thesis
      by (auto simp: isConnectionAuth_def)
  qed
  ultimately show ?thesis by (auto simp: canonicalConnectionAuthScheme_def scheme_words)
qed

lemma digest_answer_scheme:
  "digest_answer h env cfg s meth uri ch = (s', auth) \<Longrightarrow> auth \<noteq> [] \<Longrightarrow> authSchemeFromChallenge auth = authDigest"
  using scheme_words(4) by (auto simp: digest_answer_def Let_def split: prod.splits if_splits)

lemma effective_valid:
  assumes "validateUpstreamAuth (Auth cfg) = None"
  shows "validateUpstreamAuth (effectiveUpstreamAuth cfg) = None"
proof -
  have "validateUpstreamAuth authAnySafe = None" by code_simp
  with assms show ?thesis by (simp add: effectiveUpstreamAuth_def)
qed

lemma answer_scheme:
  assumes "validateUpstreamAuth (Auth cfg) = None" "upstreamAuthModes (effectiveUpstreamAuth cfg) \<noteq> []"
    and "upstreamProxyAuthHeader h env cfg s meth uri challenge passthroughAuth = (s', auth)" "auth \<noteq> []"
  shows "authSchemeFromChallenge auth = authSchemeFromChallenge challenge
    \<and> authSchemeFromChallenge challenge \<in> set (upstreamAuthModes (effectiveUpstreamAuth cfg)) \<and> Username cfg \<noteq> [] \<and> Password cfg \<noteq> []"
proof -
  let ?m = "upstreamAuthModes (effectiveUpstreamAuth cfg)" and ?c = "authSchemeFromChallenge challenge"
  have cont: "containsAuthMode ?m ?c" "Username cfg \<noteq> []" "Password cfg \<noteq> []"
    using assms(2-4) by (auto simp: upstreamProxyAuthHeader_def Let_def split: if_splits)
  have all: "set ?m \<subseteq> set all_modes" using valid_modes [OF effective_valid [OF assms(1)]] .
  then have mem: "?c \<in> set ?m" using contains_upper [of ?m ?c] cont(1) by simp
  consider "?c = authDigest" | "?c \<noteq> authDigest" "isConnectionAuth ?c" | "?c \<noteq> authDigest" "\<not> isConnectionAuth ?c" by blast
  then have "authSchemeFromChallenge auth = ?c"
  proof cases
    case 1
    with assms(2-4) cont have "digest_answer h env cfg s meth uri challenge = (s', auth)"
      by (auto simp: upstreamProxyAuthHeader_def Let_def authDigest_def split: if_splits)
    from digest_answer_scheme [OF this assms(4)] 1 show ?thesis by simp
  next
    case 2
    with assms(2-4) cont have "connectionProxyAuthHeader env cfg ?c challenge = Inr auth"
      by (auto simp: upstreamProxyAuthHeader_def Let_def split: if_splits sum.splits)
    from connection_scheme [OF this assms(4) 2(2)] show ?thesis .
  next
    case 3
    with assms(2-4) cont have "\<exists>r. auth = authSchemeBasic @ CHR '' '' # r"
      by (auto simp: upstreamProxyAuthHeader_def Let_def split: if_splits)
    moreover have "?c = authBasic" using 3 mem all by (auto simp: all_modes_def isConnectionAuth_def)
    ultimately show ?thesis using scheme_words(3) by auto
  qed
  with mem cont show ?thesis by simp
qed

section \<open>Properties\<close>

text \<open>C12: Credentials go only to schemes that the configuration allows. For a valid configuration, a
  non-empty answer to a challenge is either the client's own header, passed through under NONE, or it
  is made for exactly the scheme of the challenge, and that scheme is one of the allowed ones. So an
  answer under Basic, which reveals the password, is made only when Basic is allowed, and never for
  the default configuration with a user and a password.\<close>

theorem upstream_answer_allowed:
  assumes "validateUpstreamAuth (Auth cfg) = None"
    and "upstreamProxyAuthHeader h env cfg s meth uri challenge passthroughAuth = (s', auth)" "auth \<noteq> []"
  shows "upstreamAuthModes (effectiveUpstreamAuth cfg) = [] \<and> auth = passthroughAuth
    \<or> authSchemeFromChallenge auth = authSchemeFromChallenge challenge
      \<and> authSchemeFromChallenge challenge \<in> set (upstreamAuthModes (effectiveUpstreamAuth cfg))
      \<and> (authSchemeFromChallenge auth = authBasic \<longrightarrow> trim_space (Auth cfg) \<noteq> [])"
proof (cases "upstreamAuthModes (effectiveUpstreamAuth cfg) = []")
  case True
  with assms(2) show ?thesis by (simp add: upstreamProxyAuthHeader_def)
next
  case False
  let ?m = "upstreamAuthModes (effectiveUpstreamAuth cfg)" and ?c = "authSchemeFromChallenge challenge"
  note answer = answer_scheme [OF assms(1) False assms(2,3)]
  moreover have "trim_space (Auth cfg) \<noteq> []" if "?c = authBasic"
  proof
    assume "trim_space (Auth cfg) = []"
    moreover have "upstreamAuthModes authAnySafe = safe_modes" by code_simp
    ultimately have "?m = safe_modes" using answer by (simp add: effectiveUpstreamAuth_def)
    with answer that show False by (simp add: safe_modes_def scheme_defs)
  qed
  ultimately show ?thesis by simp
qed

definition ex_upstream :: upstreamConfig where
  "ex_upstream = \<lparr>Auth = ''ONLYBASIC'', Username = ''u'', Password = ''p'', Kerberos = False, GOOS = ''linux''\<rparr>"

definition ex_env :: upstreamEnv where
  "ex_env = \<lparr>ue_negotiate = Inl Canceled, ue_authenticate = (\<lambda>_ _ _. Inl Canceled), ue_now = unix_epoch, ue_prune = unix_epoch, ue_cnonce = [1, 2]\<rparr>"

theorem upstream_answer_allowed_witness:
  "authSchemeFromChallenge (snd (upstreamProxyAuthHeader ex_hashes ex_env ex_upstream ex_state ''GET'' ''/'' ''basic realm=x'' [])) = authBasic
    \<and> authBasic \<in> set (upstreamAuthModes (effectiveUpstreamAuth ex_upstream))"
proof -
  let ?a = "upstreamProxyAuthHeader ex_hashes ex_env ex_upstream ex_state ''GET'' ''/'' ''basic realm=x'' []"
  have valid: "validateUpstreamAuth (Auth ex_upstream) = None" "upstreamAuthModes (effectiveUpstreamAuth ex_upstream) \<noteq> []" by code_simp+
  have some: "snd ?a \<noteq> []" by code_simp
  have "authSchemeFromChallenge ''basic realm=x'' = authBasic" by code_simp
  with upstream_answer_allowed [OF valid(1) _ some, of ex_hashes ex_env ex_state "''GET''" "''/''" "''basic realm=x''" "[]" "fst ?a"] valid(2)
  show ?thesis by simp
qed

end
