(* ===== verification/Proxy_Relay.thy ===== *)
theory Proxy_Relay
  imports Go_Prelude
begin

text \<open>
  The relay of a CONNECT tunnel, \<^verbatim>\<open>internal/proxy/relay.go\<close>: the copy loop of one direction with its idle
  expiry.

  A round of the loop is one call of \<^verbatim>\<open>io.Copy\<close>. Its end, the clock afterwards and the instant of the last
  activity of the tunnel, which both directions update, come from outside; they may depend on the
  number of the round and on the read deadline that the round used.
\<close>

section \<open>One direction\<close>

datatype copyEnd = CopyEOF | CopyTimeout | CopyError

record copyRound =
  cr_end :: copyEnd
  cr_now :: gotime
  cr_lastActivity :: gotime

definition relay_grace :: "duration \<Rightarrow> duration" where
  "relay_grace idle =
     (let grace = idle div 10;
          grace = (if grace > 100 * millisecond then 100 * millisecond else grace)
      in if grace \<le> 0 then 1 else grace)"

text \<open>The loop; it may run as long as the tunnel is active, so that it is a partial function whose value
  \<open>None\<close> means that it does not return.\<close>

partial_function (option) copy_loop ::
  "duration \<Rightarrow> (nat \<Rightarrow> duration \<Rightarrow> copyRound) \<Rightarrow> nat \<Rightarrow> bool \<Rightarrow> duration \<Rightarrow> bool option" where
  "copy_loop idle rounds i graced wait =
     (let r = rounds i wait in
      if cr_end r = CopyEOF then Some True
      else if cr_end r \<noteq> CopyTimeout then Some False
      else if time_sub (cr_now r) (cr_lastActivity r) < idle then copy_loop idle rounds (Suc i) False idle
      else if \<not> graced then copy_loop idle rounds (Suc i) True (relay_grace idle)
      else Some False)"

definition copyDirection :: "duration \<Rightarrow> (nat \<Rightarrow> duration \<Rightarrow> copyRound) \<Rightarrow> bool option" where
  "copyDirection idle rounds =
     (if idle \<le> 0 then Some (cr_end (rounds 0 0) = CopyEOF)
      else copy_loop idle rounds 0 False idle)"

section \<open>Rounds\<close>

definition quiet :: "duration \<Rightarrow> copyRound \<Rightarrow> bool" where
  "quiet idle r \<longleftrightarrow> cr_end r = CopyTimeout \<and> idle \<le> time_sub (cr_now r) (cr_lastActivity r)"

definition busy :: "duration \<Rightarrow> copyRound \<Rightarrow> bool" where
  "busy idle r \<longleftrightarrow> cr_end r = CopyTimeout \<and> time_sub (cr_now r) (cr_lastActivity r) < idle"

lemma copy_loop_busy: "busy idle (rounds i w) \<Longrightarrow> copy_loop idle rounds i g w = copy_loop idle rounds (Suc i) False idle"
  by (subst copy_loop.simps) (simp add: busy_def)

lemma copy_loop_quiet:
  "quiet idle (rounds i w) \<Longrightarrow> copy_loop idle rounds i g w = (if g then Some False else copy_loop idle rounds (Suc i) True (relay_grace idle))"
  by (subst copy_loop.simps) (simp add: quiet_def)

lemma copy_loop_end:
  "\<not> busy idle (rounds i w) \<Longrightarrow> \<not> quiet idle (rounds i w) \<Longrightarrow> copy_loop idle rounds i g w = Some (cr_end (rounds i w) = CopyEOF)"
  by (subst copy_loop.simps) (auto simp: busy_def quiet_def Let_def)

text \<open>After two rounds in a row that are not busy the loop has returned, whatever the later rounds are.\<close>

lemma loop_ends_graced:
  assumes "\<not> busy idle (rounds i w)" "rounds' i = rounds i"
  shows "copy_loop idle rounds' i True w = Some (cr_end (rounds i w) = CopyEOF)"
  using assms copy_loop_quiet [of idle rounds' i w True] copy_loop_end [of idle rounds' i w True]
  by (cases "quiet idle (rounds i w)") (auto simp: quiet_def)

lemma loop_ends:
  assumes "\<And>w. \<not> busy idle (rounds n w)" "\<And>w. \<not> busy idle (rounds (Suc n) w)" "i \<le> n"
  shows "\<exists>b. \<forall>rounds'. (\<forall>j \<le> Suc n. rounds' j = rounds j) \<longrightarrow> copy_loop idle rounds' i g w = Some b"
  using assms(3)
proof (induction "n - i" arbitrary: i g w)
  case 0
  then have [simp]: "i = n" by simp
  show ?case
  proof (cases "quiet idle (rounds n w) \<and> \<not> g")
    case True
    have "copy_loop idle rounds' n g w = Some (cr_end (rounds (Suc n) (relay_grace idle)) = CopyEOF)" if "\<forall>j \<le> Suc n. rounds' j = rounds j" for rounds'
      using True that copy_loop_quiet [of idle rounds' n w g] loop_ends_graced [of idle rounds "Suc n" "relay_grace idle" rounds'] assms(2) by simp
    then show ?thesis by auto
  next
    case False
    have "copy_loop idle rounds' n g w = Some (cr_end (rounds n w) = CopyEOF)" if "\<forall>j \<le> Suc n. rounds' j = rounds j" for rounds'
      using False that assms(1) [of w] loop_ends_graced [of idle rounds n w rounds'] copy_loop_end [of idle rounds' n w g] by (cases g) auto
    then show ?thesis by auto
  qed
next
  case (Suc k)
  then have "k = n - Suc i" "Suc i \<le> n" by simp_all
  then have IH: "\<exists>b. \<forall>rounds'. (\<forall>j \<le> Suc n. rounds' j = rounds j) \<longrightarrow> copy_loop idle rounds' (Suc i) g w = Some b" for g w
    using Suc.hyps(1) by blast
  have step: "copy_loop idle rounds' i g w =
      (if busy idle (rounds i w) then copy_loop idle rounds' (Suc i) False idle
       else if quiet idle (rounds i w) then (if g then Some False else copy_loop idle rounds' (Suc i) True (relay_grace idle))
       else Some (cr_end (rounds i w) = CopyEOF))" if "\<forall>j \<le> Suc n. rounds' j = rounds j" for rounds'
    using that Suc.prems copy_loop_busy [of idle rounds' i w g] copy_loop_quiet [of idle rounds' i w g] copy_loop_end [of idle rounds' i w g] by auto
  show ?case using step IH [of False idle] IH [of True "relay_grace idle"] by (cases "busy idle (rounds i w)"; cases "quiet idle (rounds i w)"; cases g) auto
qed

text \<open>A loop that gives up has met an error or two quiet rounds in a row, the second with the grace as its
  deadline.\<close>

definition gave_up :: "duration \<Rightarrow> (nat \<Rightarrow> duration \<Rightarrow> copyRound) \<Rightarrow> bool" where
  "gave_up idle rounds \<longleftrightarrow>
     (\<exists>j v. cr_end (rounds j v) = CopyError \<or> quiet idle (rounds j v) \<and> quiet idle (rounds (Suc j) (relay_grace idle)))"

lemma loop_false_raw:
  assumes "copy_loop idle rounds i g w = Some b"
  shows "\<not> b \<longrightarrow> (g \<longrightarrow> w = relay_grace idle \<and> (\<exists>j v. i = Suc j \<and> quiet idle (rounds j v))) \<longrightarrow> gave_up idle rounds"
proof (rule copy_loop.raw_induct [OF _ assms])
  fix loop and idle :: duration and rounds :: "nat \<Rightarrow> duration \<Rightarrow> copyRound" and i g w b
  let ?r = "rounds i w"
  assume IH: "\<And>idle rounds i g w b. loop idle rounds i g w = Some b \<Longrightarrow>
      \<not> b \<longrightarrow> (g \<longrightarrow> w = relay_grace idle \<and> (\<exists>j v. i = Suc j \<and> quiet idle (rounds j v))) \<longrightarrow> gave_up idle rounds"
    and step: "(let r = rounds i w in
      if cr_end r = CopyEOF then Some True
      else if cr_end r \<noteq> CopyTimeout then Some False
      else if time_sub (cr_now r) (cr_lastActivity r) < idle then loop idle rounds (Suc i) False idle
      else if \<not> g then loop idle rounds (Suc i) True (relay_grace idle)
      else Some False) = Some b"
  consider "busy idle ?r" | "quiet idle ?r" "g" | "quiet idle ?r" "\<not> g" | "cr_end ?r = CopyError" | "cr_end ?r = CopyEOF"
    by (cases "cr_end ?r") (auto simp: busy_def quiet_def not_less [symmetric])
  then show "\<not> b \<longrightarrow> (g \<longrightarrow> w = relay_grace idle \<and> (\<exists>j v. i = Suc j \<and> quiet idle (rounds j v))) \<longrightarrow> gave_up idle rounds"
  proof cases
    case 1
    then have "loop idle rounds (Suc i) False idle = Some b" using step by (simp add: busy_def)
    from IH [OF this] show ?thesis by simp
  next
    case 2
    then show ?thesis unfolding gave_up_def by blast
  next
    case 3
    then have "loop idle rounds (Suc i) True (relay_grace idle) = Some b" using step by (simp add: quiet_def)
    from IH [OF this] 3 show ?thesis by auto
  next
    case 4
    then show ?thesis by (auto simp: gave_up_def)
  next
    case 5
    with step show ?thesis by simp
  qed
qed

lemma loop_false: "copy_loop idle rounds i False w = Some b \<Longrightarrow> \<not> b \<Longrightarrow> gave_up idle rounds"
  using loop_false_raw by blast

section \<open>Properties\<close>

text \<open>C39: The relay of a direction with a positive idle time does not hang once the tunnel is idle: if the rounds \<open>n\<close> and
  \<open>n + 1\<close> do not time out with recent activity, the loop has returned by round \<open>n + 1\<close>, whatever happened before and
  whatever later rounds would do, so that two quiet rounds end it. And it never cuts an active tunnel: it gives up only
  after an error or after two quiet rounds in a row, the second a grace period later.\<close>

theorem relay_direction_ends:
  assumes "0 < idle" "\<forall>w. \<not> busy idle (rounds n w) \<and> \<not> busy idle (rounds (Suc n) w)"
  shows "\<exists>b. (\<forall>rounds'. (\<forall>i \<le> Suc n. rounds' i = rounds i) \<longrightarrow> copyDirection idle rounds' = Some b) \<and> (b \<or> gave_up idle rounds)"
proof -
  obtain b where b: "\<forall>rounds'. (\<forall>i \<le> Suc n. rounds' i = rounds i) \<longrightarrow> copy_loop idle rounds' 0 False idle = Some b"
    using loop_ends [of idle rounds n 0] assms(2) by blast
  then have "copy_loop idle rounds 0 False idle = Some b" by simp
  with b loop_false [OF this] assms(1) show ?thesis by (auto simp: copyDirection_def)
qed

definition ex_rounds :: "nat \<Rightarrow> duration \<Rightarrow> copyRound" where
  "ex_rounds i w = \<lparr>cr_end = CopyTimeout, cr_now = 100 * int i, cr_lastActivity = (if i < 3 then 100 * int i - 5 else 200)\<rparr>"

theorem relay_direction_ends_witness:
  "\<exists>b. (\<forall>rounds'. (\<forall>i \<le> Suc 3. rounds' i = ex_rounds i) \<longrightarrow> copyDirection 50 rounds' = Some b) \<and> (b \<or> gave_up 50 ex_rounds)"
proof (rule relay_direction_ends)
  have "idle \<le> time_sub (100 * int i) 200" if "3 \<le> i" "i \<le> 4" "idle = 50" for i idle
    using that by (auto simp: time_sub_def max_duration_def min_duration_def)
  from this [of 3] this [of 4] show "\<forall>w. \<not> busy 50 (ex_rounds 3 w) \<and> \<not> busy 50 (ex_rounds (Suc 3) w)"
    by (auto simp: busy_def ex_rounds_def not_less)
qed simp

end
