(* ===== verification/Auth_Sessions.thy ===== *)
theory Auth_Sessions
  imports Auth_Upstream
begin

text \<open>
  Sessions of connection-oriented authentication: the interface \<^verbatim>\<open>authSession\<close> and the SSPI session of
  \<^verbatim>\<open>internal/proxy/authsession.go\<close> with its factory in \<^verbatim>\<open>sspi_windows.go\<close>, the Kerberos session of
  \<^verbatim>\<open>kerberos_session.go\<close>, and their client \<^verbatim>\<open>sspiSessionAuth\<close> in \<^verbatim>\<open>auth_upstream.go\<close>.

  The native SSPI context is a value of any type with its update function; the results of releasing it
  and the credentials are arguments.
\<close>

section \<open>SSPI sessions\<close>

record 'c nativeSSPI =
  nv_update :: "'c \<Rightarrow> byte list \<Rightarrow> 'c \<times> (goerr + bool \<times> byte list)"
  nv_releaseCtx :: "'c \<Rightarrow> goerr option"
  nv_releaseCred :: "goerr option"

record 'c sspiSession =
  ss_ctx :: 'c
  ss_scheme :: string
  ss_initialToken :: "byte list"
  ss_initialSent :: bool
  ss_complete :: bool
  ss_closed :: bool
  ss_closeErr :: "goerr option"

definition newManagedSSPISession :: "string \<Rightarrow> byte list \<Rightarrow> 'c \<Rightarrow> 'c sspiSession" where
  "newManagedSSPISession scheme initialToken ctx =
     \<lparr>ss_ctx = ctx, ss_scheme = (if equal_fold scheme authNTLM then authNTLM else authSchemeNeg),
      ss_initialToken = initialToken, ss_initialSent = False, ss_complete = False, ss_closed = False, ss_closeErr = None\<rparr>"

definition sspi_Negotiate :: "'c sspiSession \<Rightarrow> 'c sspiSession \<times> (goerr + string)" where
  "sspi_Negotiate s =
     (if ss_closed s then (s, Inl (ErrMsg ''SSPI: session is closed''))
      else if ss_initialSent s then (s, Inl (ErrMsg ''SSPI: initial token already sent''))
      else if ss_initialToken s = [] then (s, Inl (ErrMsg ''SSPI: no initial token available''))
      else (s\<lparr>ss_initialSent := True\<rparr>, Inr (ss_scheme s @ '' '' @ b64_encode (ss_initialToken s))))"

definition sspi_Authenticate :: "'c nativeSSPI \<Rightarrow> 'c sspiSession \<Rightarrow> string \<Rightarrow> 'c sspiSession \<times> (goerr + string)" where
  "sspi_Authenticate nv s challengeHeader =
     (if ss_closed s then (s, Inl (ErrMsg ''SSPI: session is closed''))
      else if \<not> ss_initialSent s then (s, Inl (ErrMsg ''SSPI: initial token has not been sent''))
      else if ss_complete s then (s, Inl (ErrMsg ''SSPI: authentication is already complete''))
      else case cut_char (CHR '' '') (trim_space challengeHeader) of
        (scheme, tokenStr, found) \<Rightarrow>
          if \<not> found \<or> trim_space tokenStr = [] then (s, Inl (ErrMsg ''SSPI: challenge token is missing''))
          else if \<not> equal_fold scheme (ss_scheme s) then (s, Inl (ErrMsg ''SSPI: challenge scheme does not match session scheme''))
          else case b64_decode (trim_space tokenStr) of
            None \<Rightarrow> (s, Inl (Wrapped ''SSPI: decode challenge'' (ErrMsg ''illegal base64 data'')))
          | Some challenge \<Rightarrow>
              (case nv_update nv (ss_ctx s) challenge of
                 (c, Inl e) \<Rightarrow> (s\<lparr>ss_ctx := c\<rparr>, Inl (Wrapped ''SSPI: update context'' e))
               | (c, Inr (completed, outputToken)) \<Rightarrow>
                   if outputToken = [] then (s\<lparr>ss_ctx := c\<rparr>, Inl (ErrMsg ''SSPI: continuation produced no output token''))
                   else (s\<lparr>ss_ctx := c, ss_complete := completed\<rparr>, Inr (ss_scheme s @ '' '' @ b64_encode outputToken))))"

text \<open>\<^verbatim>\<open>closeOnce\<close> runs the body only for the first call; both native resources are released there.\<close>

definition sspi_Close :: "'c nativeSSPI \<Rightarrow> 'c sspiSession \<Rightarrow> 'c sspiSession \<times> goerr option" where
  "sspi_Close nv s =
     (if ss_closed s then (s, ss_closeErr s)
      else let err = errors_join [map_option (Wrapped ''release SSPI context'') (nv_releaseCtx nv (ss_ctx s)),
                                  map_option (Wrapped ''release SSPI credentials'') (nv_releaseCred nv)]
        in (s\<lparr>ss_closed := True, ss_closeErr := err\<rparr>, err))"

definition proxySPN :: "string \<Rightarrow> string" where
  "proxySPN proxyHost =
     (let host = trim_suffix (trim_prefix (trim_space proxyHost) ''['') '']'' in
      if host = [] then [] else ''HTTP/'' @ host)"

text \<open>The Windows factory: acquiring credentials and creating a context are arguments; a context that could
  not be created releases the credentials, which is reported by the flag.\<close>

definition newSSPISession ::
  "(string \<Rightarrow> goerr option) \<Rightarrow> (string \<Rightarrow> string \<Rightarrow> goerr + 'c \<times> byte list) \<Rightarrow> string \<Rightarrow> string \<Rightarrow> bool \<times> (goerr + 'c sspiSession)" where
  "newSSPISession acquire newContext challenge proxyHost =
     (let scheme = authSchemeFromChallenge challenge in
      if equal_fold scheme authNTLM then
        (case acquire authNTLM of
           Some e \<Rightarrow> (False, Inl (Wrapped ''acquire NTLM credentials'' e))
         | None \<Rightarrow>
             (case newContext authNTLM [] of
                Inl e \<Rightarrow> (True, Inl (Wrapped ''create NTLM client context'' e))
              | Inr (ctx, token) \<Rightarrow> (False, Inr (newManagedSSPISession authNTLM token ctx))))
      else if equal_fold scheme authNegotiate then
        (let target = proxySPN proxyHost in
         if target = [] then (False, Inl (ErrMsg ''create Negotiate client context: empty upstream proxy host''))
         else case acquire authSchemeNeg of
           Some e \<Rightarrow> (False, Inl (Wrapped ''acquire Negotiate credentials'' e))
         | None \<Rightarrow>
             (case newContext authSchemeNeg target of
                Inl e \<Rightarrow> (True, Inl (Wrapped ''create Negotiate client context'' e))
              | Inr (ctx, token) \<Rightarrow> (False, Inr (newManagedSSPISession authSchemeNeg token ctx))))
      else (False, Inl (Wrapped scheme (ErrMsg ''unsupported SSPI proxy challenge scheme''))))"

definition isWindowsSSPICandidate :: "upstreamConfig \<Rightarrow> string \<Rightarrow> bool" where
  "isWindowsSSPICandidate cfg challenge \<longleftrightarrow>
     Username cfg = [] \<and> Password cfg = [] \<and> isConnectionAuth (authSchemeFromChallenge challenge)"

section \<open>Kerberos sessions\<close>

record kerberosSession =
  ks_token :: "byte list"
  ks_sent :: bool
  ks_closed :: bool

text \<open>\<open>token\<close> is the manager's SPNEGO token for the proxy host; \<open>None\<close> when there is no manager.\<close>

definition newKerberosAuthSession :: "(string \<Rightarrow> goerr + byte list) option \<Rightarrow> string \<Rightarrow> goerr + kerberosSession" where
  "newKerberosAuthSession manager proxyHost =
     (case manager of
        None \<Rightarrow> Inl (ErrMsg ''kerberos ticket manager is unavailable'')
      | Some token \<Rightarrow>
          (case token proxyHost of Inl e \<Rightarrow> Inl e | Inr t \<Rightarrow> Inr \<lparr>ks_token = t, ks_sent = False, ks_closed = False\<rparr>))"

definition kerberos_Negotiate :: "kerberosSession \<Rightarrow> kerberosSession \<times> (goerr + string)" where
  "kerberos_Negotiate s =
     (if ks_closed s then (s, Inl (ErrMsg ''kerberos SPNEGO session is closed''))
      else if ks_sent s then (s, Inl (ErrMsg ''kerberos SPNEGO initial token already sent''))
      else if ks_token s = [] then (s, Inl (ErrMsg ''kerberos SPNEGO token is empty''))
      else (s\<lparr>ks_sent := True\<rparr>, Inr (authSchemeNeg @ '' '' @ b64_encode (ks_token s))))"

definition kerberos_Authenticate :: "kerberosSession \<Rightarrow> string \<Rightarrow> kerberosSession \<times> (goerr + string)" where
  "kerberos_Authenticate s challengeHeader =
     (if ks_closed s then (s, Inl (ErrMsg ''kerberos SPNEGO session is closed''))
      else if \<not> ks_sent s then (s, Inl (ErrMsg ''kerberos SPNEGO initial token has not been sent''))
      else if \<not> equal_fold (authSchemeFromChallenge challengeHeader) authNegotiate
      then (s, Inl (ErrMsg ''kerberos SPNEGO challenge scheme is not Negotiate''))
      else (s, Inl (ErrMsg ''kerberos SPNEGO proxy authentication was rejected after the initial token'')))"

definition kerberos_Close :: "kerberosSession \<Rightarrow> kerberosSession \<times> goerr option" where
  "kerberos_Close s = (if ks_closed s then (s, None) else (s\<lparr>ks_token := [], ks_closed := True\<rparr>, None))"

definition isUnixKerberosCandidate :: "upstreamConfig \<Rightarrow> string \<Rightarrow> bool" where
  "isUnixKerberosCandidate cfg challenge \<longleftrightarrow>
     Kerberos cfg \<and> GOOS cfg \<noteq> ''windows'' \<and> equal_fold (authSchemeFromChallenge challenge) authNegotiate"

section \<open>The interface and its client\<close>

text \<open>\<^verbatim>\<open>sspiSessionAuth\<close> for any session: a challenge with a token is answered, one without starts.\<close>

definition sspiSessionAuth ::
  "('s \<Rightarrow> 's \<times> (goerr + string)) \<Rightarrow> ('s \<Rightarrow> string \<Rightarrow> 's \<times> (goerr + string)) \<Rightarrow> 's \<Rightarrow> string \<Rightarrow> 's \<times> (goerr + string)" where
  "sspiSessionAuth neg auth session challenge =
     (case cut_char (CHR '' '') (trim_space challenge) of
        (_, tokenPart, hasToken) \<Rightarrow>
          if hasToken \<and> trim_space tokenPart \<noteq> [] then auth session challenge else neg session)"

text \<open>The calls that a client makes, and what a run of them returns.\<close>

datatype session_call = CallNegotiate | CallAuthenticate string | CallClose

fun session_run ::
  "('s \<Rightarrow> 's \<times> (goerr + string)) \<Rightarrow> ('s \<Rightarrow> string \<Rightarrow> 's \<times> (goerr + string)) \<Rightarrow> ('s \<Rightarrow> 's \<times> goerr option) \<Rightarrow>
    's \<Rightarrow> session_call list \<Rightarrow> (session_call \<times> string) list" where
  "session_run neg auth cls s [] = []"
| "session_run neg auth cls s (CallNegotiate # cs) =
     (case neg s of
        (s, Inr h) \<Rightarrow> (CallNegotiate, h) # session_run neg auth cls s cs
      | (s, Inl _) \<Rightarrow> session_run neg auth cls s cs)"
| "session_run neg auth cls s (CallAuthenticate c # cs) =
     (case auth s c of
        (s, Inr h) \<Rightarrow> (CallAuthenticate c, h) # session_run neg auth cls s cs
      | (s, Inl _) \<Rightarrow> session_run neg auth cls s cs)"
| "session_run neg auth cls s (CallClose # cs) = session_run neg auth cls (fst (cls s)) cs"

text \<open>What a session promises: closing twice is closing once; a closed session gives no header; the initial
  token goes out at most once and before any answer.\<close>

locale auth_session =
  fixes neg :: "'s \<Rightarrow> 's \<times> (goerr + string)"
    and auth :: "'s \<Rightarrow> string \<Rightarrow> 's \<times> (goerr + string)"
    and cls :: "'s \<Rightarrow> 's \<times> goerr option"
    and sent :: "'s \<Rightarrow> bool"
    and closed :: "'s \<Rightarrow> bool"
  assumes close_closed: "closed (fst (cls s))"
    and close_again: "closed s \<Longrightarrow> fst (cls s) = s"
    and close_sent: "sent (fst (cls s)) = sent s"
    and neg_closed: "closed s \<Longrightarrow> \<exists>e. neg s = (s, Inl e)"
    and auth_closed: "closed s \<Longrightarrow> \<exists>e. auth s c = (s, Inl e)"
    and neg_sent: "sent s \<Longrightarrow> \<exists>e. neg s = (s, Inl e)"
    and auth_unsent: "\<not> sent s \<Longrightarrow> \<exists>e. auth s c = (s, Inl e)"
    and neg_result: "neg s = (s', r) \<Longrightarrow> sent s' = (sent s \<or> r \<in> range Inr) \<and> closed s' = closed s"
    and auth_result: "auth s c = (s', r) \<Longrightarrow> sent s' = sent s \<and> closed s' = closed s"
begin

lemma run_closed: "closed s \<Longrightarrow> session_run neg auth cls s cs = []"
proof (induction cs)
  case (Cons c cs)
  show ?case
  proof (cases c)
    case CallNegotiate
    with Cons neg_closed [of s] show ?thesis by auto
  next
    case (CallAuthenticate ch)
    with Cons auth_closed [of s ch] show ?thesis by auto
  next
    case CallClose
    with Cons close_again [of s] show ?thesis by auto
  qed
qed simp

lemma run_sent: "sent s \<Longrightarrow> \<forall>x \<in> set (session_run neg auth cls s cs). fst x \<noteq> CallNegotiate"
proof (induction cs arbitrary: s)
  case (Cons c cs)
  show ?case
  proof (cases c)
    case CallNegotiate
    obtain e where "neg s = (s, Inl e)" using neg_sent [OF Cons.prems] by blast
    with Cons.IH [OF Cons.prems] CallNegotiate show ?thesis by simp
  next
    case (CallAuthenticate ch)
    obtain s' r where a: "auth s ch = (s', r)" by fastforce
    with auth_result [OF a] Cons CallAuthenticate show ?thesis by (cases r) auto
  next
    case CallClose
    with Cons close_sent [of s] show ?thesis by auto
  qed
qed simp

text \<open>In every run that starts with a new session, the first header is the initial token and no later one is.\<close>

lemma run_single_token:
  "\<not> sent s \<Longrightarrow> session_run neg auth cls s cs = [] \<or>
     (\<exists>h rest. session_run neg auth cls s cs = (CallNegotiate, h) # rest \<and> (\<forall>x \<in> set rest. fst x \<noteq> CallNegotiate))"
proof (induction cs arbitrary: s)
  case (Cons c cs)
  show ?case
  proof (cases c)
    case CallNegotiate
    obtain s' r where n: "neg s = (s', r)" by fastforce
    with neg_result [OF n] Cons CallNegotiate run_sent [of s' cs] show ?thesis by (cases r) auto
  next
    case (CallAuthenticate ch)
    obtain e where "auth s ch = (s, Inl e)" using auth_unsent [OF Cons.prems] by blast
    with Cons.IH [OF Cons.prems] CallAuthenticate show ?thesis by simp
  next
    case CallClose
    with run_closed [OF close_closed] show ?thesis by simp
  qed
qed simp

end

interpretation sspi: auth_session sspi_Negotiate "sspi_Authenticate nv" "sspi_Close nv" ss_initialSent ss_closed
  for nv :: "'c nativeSSPI"
  by unfold_locales
    (auto simp: sspi_Negotiate_def sspi_Authenticate_def sspi_Close_def Let_def split: if_splits prod.splits option.splits sum.splits)

interpretation kerb: auth_session kerberos_Negotiate kerberos_Authenticate kerberos_Close ks_sent ks_closed
  by unfold_locales (auto simp: kerberos_Negotiate_def kerberos_Authenticate_def kerberos_Close_def split: if_splits)

section \<open>Properties\<close>

definition starts_once :: "(session_call \<times> string) list \<Rightarrow> bool" where
  "starts_once out \<longleftrightarrow> (case out of [] \<Rightarrow> True | (c, _) # rest \<Rightarrow> c = CallNegotiate \<and> list_all (\<lambda>x. fst x \<noteq> CallNegotiate) rest)"

text \<open>No session replays its credentials. Whatever calls a client makes and in whatever order, a session hands
  out its initial token at most once, before any answer to a challenge, and nothing after it was closed;
  a Kerberos session hands out nothing else at all.\<close>

theorem session_tokens_once:
  "starts_once (session_run sspi_Negotiate (sspi_Authenticate nv) (sspi_Close nv) (newManagedSSPISession scheme token ctx) cs)
   \<and> session_run sspi_Negotiate (sspi_Authenticate nv) (sspi_Close nv) (fst (sspi_Close nv s)) cs = []
   \<and> starts_once (session_run kerberos_Negotiate kerberos_Authenticate kerberos_Close \<lparr>ks_token = t, ks_sent = False, ks_closed = False\<rparr> cs)
   \<and> length (session_run kerberos_Negotiate kerberos_Authenticate kerberos_Close \<lparr>ks_token = t, ks_sent = False, ks_closed = False\<rparr> cs) \<le> 1"
proof (intro conjI)
  show "starts_once (session_run sspi_Negotiate (sspi_Authenticate nv) (sspi_Close nv) (newManagedSSPISession scheme token ctx) cs)"
    using sspi.run_single_token [of "newManagedSSPISession scheme token ctx" nv cs]
    by (auto simp: starts_once_def newManagedSSPISession_def list_all_iff)
  show "session_run sspi_Negotiate (sspi_Authenticate nv) (sspi_Close nv) (fst (sspi_Close nv s)) cs = []"
    by (rule sspi.run_closed) (rule sspi.close_closed)
  let ?k = "\<lparr>ks_token = t, ks_sent = False, ks_closed = False\<rparr>"
  let ?out = "session_run kerberos_Negotiate kerberos_Authenticate kerberos_Close ?k cs"
  have no_auth: "\<forall>x \<in> set (session_run kerberos_Negotiate kerberos_Authenticate kerberos_Close s cs). fst x = CallNegotiate" for s
  proof (induction cs arbitrary: s)
    case (Cons c cs)
    show ?case
    proof (cases c)
      case CallNegotiate
      obtain s' r where "kerberos_Negotiate s = (s', r)" by fastforce
      with Cons.IH [of s'] CallNegotiate show ?thesis by (cases r) simp_all
    next
      case (CallAuthenticate ch)
      have "\<exists>e. kerberos_Authenticate s ch = (s, Inl e)" by (simp add: kerberos_Authenticate_def)
      then obtain e where "kerberos_Authenticate s ch = (s, Inl e)" ..
      with Cons.IH [of s] CallAuthenticate show ?thesis by simp
    next
      case CallClose
      with Cons.IH [of "fst (kerberos_Close s)"] show ?thesis by simp
    qed
  qed simp
  show once: "starts_once ?out"
    using kerb.run_single_token [of ?k cs] by (auto simp: starts_once_def list_all_iff)
  show "length ?out \<le> 1"
    using once no_auth [of ?k] by (cases ?out rule: list.exhaust; cases "tl ?out") (auto simp: starts_once_def)
qed

end
