(* ===== verification/Proxy_Runtime.thy ===== *)
theory Proxy_Runtime
  imports Supervisor Wproxy
begin

text \<open>
  The proxy's use of the supervisor, \<^verbatim>\<open>internal/proxy/supervisor_runtime.go\<close>: the order in which the
  candidates of a route are tried, the outcome that an error stands for, and its report.
\<close>

section \<open>Candidates\<close>

definition proxyScheme :: "Server \<Rightarrow> string" where
  "proxyScheme server = (if srv_Scheme server = [] then ''http'' else srv_Scheme server)"

definition proxyKeyForSupervisor :: "Server \<Rightarrow> ProxyKey" where
  "proxyKeyForSupervisor server =
     (if server = DirectServer then ''direct://DIRECT:80''
      else proxyScheme server @ ''://'' @ JoinHostPort (srv_Host server) (itoa (srv_Port server)))"

definition supervisorCandidate :: "Server \<Rightarrow> Candidate" where
  "supervisorCandidate server = \<lparr>Key = proxyKeyForSupervisor server, Direct = (server = DirectServer)\<rparr>"

text \<open>The servers by key, each list in authoritative order, and the loop that takes one server per ordered
  candidate; \<open>None\<close> is the defensive return.\<close>

definition key_servers :: "(ProxyKey, Server list) gomap \<Rightarrow> ProxyKey \<Rightarrow> Server list" where
  "key_servers byKey k = (case gm_get byKey k of Some ss \<Rightarrow> ss | None \<Rightarrow> [])"

definition servers_by_key :: "Server list \<Rightarrow> (ProxyKey, Server list) gomap" where
  "servers_by_key authoritative =
     fold (\<lambda>server byKey. let k = Key (supervisorCandidate server) in gm_put k (key_servers byKey k @ [server]) byKey)
       authoritative []"

fun take_servers :: "(ProxyKey, Server list) gomap \<Rightarrow> Candidate list \<Rightarrow> Server list option" where
  "take_servers byKey [] = Some []"
| "take_servers byKey (candidate # cs) =
     (case key_servers byKey (Key candidate) of
        [] \<Rightarrow> None
      | server # servers \<Rightarrow> map_option (\<lambda>r. server # r) (take_servers (gm_put (Key candidate) servers byKey) cs))"

definition orderProxyCandidates :: "Supervisor option \<Rightarrow> gotime \<Rightarrow> Server list \<Rightarrow> Supervisor option \<times> Server list" where
  "orderProxyCandidates sv now authoritative =
     (case sv of
        None \<Rightarrow> (sv, authoritative)
      | Some s \<Rightarrow>
          if length authoritative < 2 then (sv, authoritative)
          else case Order s now (map supervisorCandidate authoritative) of
            (s', ordered) \<Rightarrow>
              (Some s', case take_servers (servers_by_key authoritative) ordered of Some r \<Rightarrow> r | None \<Rightarrow> authoritative))"

section \<open>Outcomes\<close>

text \<open>An error is its own kind and the errors that \<^verbatim>\<open>Unwrap\<close> gives. \<open>as_find\<close> is \<^verbatim>\<open>errors.As\<close>: the first match
  in a depth-first search.\<close>

datatype errkind =
    EK_Message string | EK_Canceled | EK_DeadlineExceeded | EK_ConnectStatus int string | EK_SocksDestination nat byte
  | EK_DNS | EK_UnknownAuthority | EK_Hostname | EK_CertificateInvalid | EK_RecordHeader | EK_Op string

datatype neterr = NetErr errkind "neterr list"

fun as_find :: "(errkind \<Rightarrow> 'a option) \<Rightarrow> neterr \<Rightarrow> 'a option" where
  "as_find f (NetErr k es) =
     (case f k of Some x \<Rightarrow> Some x
      | None \<Rightarrow> foldr (\<lambda>e found. case as_find f e of Some x \<Rightarrow> Some x | None \<Rightarrow> found) es None)"

definition has_kind :: "errkind \<Rightarrow> neterr \<Rightarrow> bool" where
  "has_kind k err \<longleftrightarrow> as_find (\<lambda>j. if j = k then Some () else None) err \<noteq> None"

definition as_status :: "neterr \<Rightarrow> int option" where
  "as_status = as_find (\<lambda>k. case k of EK_ConnectStatus code _ \<Rightarrow> Some code | _ \<Rightarrow> None)"

definition as_socks :: "neterr \<Rightarrow> byte option" where
  "as_socks = as_find (\<lambda>k. case k of EK_SocksDestination _ code \<Rightarrow> Some code | _ \<Rightarrow> None)"

definition as_op :: "neterr \<Rightarrow> string option" where
  "as_op = as_find (\<lambda>k. case k of EK_Op op \<Rightarrow> Some op | _ \<Rightarrow> None)"

definition classifyProxyTransportOutcome :: "bool \<Rightarrow> Server \<Rightarrow> neterr \<Rightarrow> OutcomeKind" where
  "classifyProxyTransportOutcome ctxDone candidate err =
     (if ctxDone then OutcomeClientCancelled
      else if has_kind EK_Canceled err \<or> has_kind EK_DeadlineExceeded err then OutcomeClientCancelled
      else if candidate = DirectServer then OutcomeDestinationFailure
      else case as_status err of
        Some code \<Rightarrow> if code = 407 then OutcomeAuthExhausted else OutcomeDestinationFailure
      | None \<Rightarrow>
          if as_socks err \<noteq> None then OutcomeDestinationFailure
          else if has_kind EK_DNS err then OutcomeProxyDNSFailure
          else if has_kind EK_UnknownAuthority err then OutcomeProxyTLSFailure
          else if has_kind EK_Hostname err then OutcomeProxyTLSFailure
          else if has_kind EK_CertificateInvalid err then OutcomeProxyTLSFailure
          else if has_kind EK_RecordHeader err then OutcomeProxyTLSFailure
          else if as_op err = Some ''dial'' then OutcomeProxyDialFailure
          else OutcomeProxyProtocolFailure)"

definition runtimeOutcome :: "OutcomeKind \<Rightarrow> Server \<Rightarrow> Outcome" where
  "runtimeOutcome kind candidate =
     \<lparr>Kind = kind,
      Proxy = (if srv_Host candidate \<noteq> [] \<or> candidate = DirectServer then proxyKeyForSupervisor candidate else []),
      oc_Duration = 0\<rparr>"

definition recordRuntimeOutcome :: "Supervisor option \<Rightarrow> gotime \<Rightarrow> OutcomeKind \<Rightarrow> Server \<Rightarrow> Supervisor option" where
  "recordRuntimeOutcome sv now kind candidate =
     map_option (\<lambda>s. Supervisor_Record s now (runtimeOutcome kind candidate)) sv"

definition recoverRuntimeOutcome :: "Supervisor option \<Rightarrow> gotime \<Rightarrow> OutcomeKind \<Rightarrow> Server \<Rightarrow> Supervisor option" where
  "recoverRuntimeOutcome sv now kind candidate =
     map_option (\<lambda>s. Recover s now (runtimeOutcome kind candidate)) sv"

section \<open>Servers and their keys\<close>

lemma itoa_80: "itoa i = ''80'' \<Longrightarrow> i = 80"
proof (cases "i < 0")
  case False
  assume "itoa i = ''80''"
  with False have "digits_val (show_nat (nat i)) = digits_val ''80''" by (simp add: itoa_def)
  moreover have "digits_val ''80'' = 80" by code_simp
  ultimately show "i = 80" using False by simp
qed (simp add: itoa_def)

lemma itoa_no_colon: "CHR '':'' \<notin> set (itoa i)"
proof -
  have "\<not> is_digit (CHR '':'')" by (simp add: is_digit_def)
  then show ?thesis using show_nat_digits by (auto simp: itoa_def list_all_iff)
qed

lemma direct_scheme:
  assumes "sch @ ''://'' @ t = ''direct://DIRECT:80''"
  shows "sch = ''direct'' \<and> t = ''DIRECT:80''"
proof -
  let ?K = "''direct://DIRECT:80''"
  have sch: "sch = take (length sch) ?K" "''://'' @ t = drop (length sch) ?K"
    using assms [symmetric] by simp_all
  have "length sch < 19"
  proof -
    have "length sch + 3 + length t = length ?K" using arg_cong [OF assms, of length] by simp
    then show ?thesis by simp
  qed
  then have "length sch \<in> set [0..<19]" by simp
  then have "length sch = 6"
    using sch(2) by (simp add: upt_rec numeral_eq_Suc) (auto simp: numeral_eq_Suc)
  with sch show ?thesis by (simp add: numeral_eq_Suc)
qed

lemma join_direct:
  assumes "JoinHostPort host p = ''DIRECT:80''" "CHR '':'' \<notin> set p"
  shows "host = ''DIRECT'' \<and> p = ''80''"
proof (cases "CHR '':'' \<in> set host")
  case True
  with assms show ?thesis by (simp add: JoinHostPort_def)
next
  case False
  then have "cut_char (CHR '':'') (host @ CHR '':'' # p) = (host, p, True)" by (rule cut_char_found)
  moreover have "cut_char (CHR '':'') ''DIRECT:80'' = (''DIRECT'', ''80'', True)" by code_simp
  ultimately show ?thesis using assms False by (simp add: JoinHostPort_def)
qed

lemma direct_key: "proxyKeyForSupervisor server = ''direct://DIRECT:80'' \<longleftrightarrow> server = DirectServer"
proof
  assume k: "proxyKeyForSupervisor server = ''direct://DIRECT:80''"
  show "server = DirectServer"
  proof (rule ccontr)
    assume "server \<noteq> DirectServer"
    with k have "proxyScheme server @ ''://'' @ JoinHostPort (srv_Host server) (itoa (srv_Port server)) = ''direct://DIRECT:80''"
      by (simp only: proxyKeyForSupervisor_def if_False)
    from direct_scheme [OF this] have p: "proxyScheme server = ''direct''" "JoinHostPort (srv_Host server) (itoa (srv_Port server)) = ''DIRECT:80''" by blast+
    from join_direct [OF p(2) itoa_no_colon] itoa_80 have "srv_Host server = ''DIRECT''" "srv_Port server = 80" by blast+
    moreover have "srv_Scheme server = ''direct''" using p(1) by (auto simp: proxyScheme_def split: if_splits)
    ultimately show False using \<open>server \<noteq> DirectServer\<close> by (auto simp: DirectServer_def directHost_def)
  qed
qed (simp add: proxyKeyForSupervisor_def)

lemma candidate_eq: "supervisorCandidate s = supervisorCandidate t \<longleftrightarrow> proxyKeyForSupervisor s = proxyKeyForSupervisor t"
proof -
  have "proxyKeyForSupervisor s = proxyKeyForSupervisor t \<Longrightarrow> s = DirectServer \<longleftrightarrow> t = DirectServer"
    using direct_key [of s] direct_key [of t] by simp
  then show ?thesis by (auto simp: supervisorCandidate_def)
qed

abbreviation key_of :: "Server \<Rightarrow> ProxyKey" where "key_of \<equiv> proxyKeyForSupervisor"

lemma servers_by_key_filter: "key_servers (servers_by_key srvs) k = filter (\<lambda>s. key_of s = k) srvs"
proof -
  have "key_servers (fold (\<lambda>server byKey. let k = Key (supervisorCandidate server) in gm_put k (key_servers byKey k @ [server]) byKey) srvs m) k
      = key_servers m k @ filter (\<lambda>s. key_of s = k) srvs" for m
    by (induction srvs arbitrary: m) (auto simp: Let_def key_servers_def supervisorCandidate_def go_map)
  then show ?thesis by (simp add: servers_by_key_def) (simp add: key_servers_def)
qed

lemma take_servers_some:
  assumes "\<And>k. length (filter (\<lambda>c. Key c = k) cs) = length (key_servers m k)"
    "\<And>k s. s \<in> set (key_servers m k) \<Longrightarrow> key_of s = k"
  shows "\<exists>r. take_servers m cs = Some r \<and> map key_of r = map Key cs \<and> (\<forall>k. filter (\<lambda>s. key_of s = k) r = key_servers m k)"
  using assms
proof (induction cs arbitrary: m)
  case (Cons c cs)
  from Cons.prems(1) [of "Key c"] obtain x xs where x: "key_servers m (Key c) = x # xs"
    by (cases "key_servers m (Key c)") auto
  have keys: "key_servers (gm_put (Key c) xs m) k = (if k = Key c then xs else key_servers m k)" for k
    by (simp add: key_servers_def go_map)
  have "\<exists>r. take_servers (gm_put (Key c) xs m) cs = Some r \<and> map key_of r = map Key cs
    \<and> (\<forall>k. filter (\<lambda>s. key_of s = k) r = key_servers (gm_put (Key c) xs m) k)"
  proof (rule Cons.IH)
    show "length (filter (\<lambda>c. Key c = k) cs) = length (key_servers (gm_put (Key c) xs m) k)" for k
      using Cons.prems(1) [of k] x by (auto simp: keys)
    show "s \<in> set (key_servers (gm_put (Key c) xs m) k) \<Longrightarrow> key_of s = k" for s k
      using Cons.prems(2) [of s k] x by (auto simp: keys split: if_splits)
  qed
  then obtain r where r: "take_servers (gm_put (Key c) xs m) cs = Some r" "map key_of r = map Key cs"
    "\<And>k. filter (\<lambda>s. key_of s = k) r = key_servers (gm_put (Key c) xs m) k" by blast
  have "key_of x = Key c" using Cons.prems(2) [of x "Key c"] x by simp
  with r x show ?case by (auto simp: keys)
qed simp

lemma mset_by_key: "(\<And>k. filter (\<lambda>s. key_of s = k) xs = filter (\<lambda>s. key_of s = k) ys) \<Longrightarrow> mset xs = mset ys"
proof (rule multiset_eqI)
  fix x
  assume *: "\<And>k. filter (\<lambda>s. key_of s = k) xs = filter (\<lambda>s. key_of s = k) ys"
  have "count (mset zs) x = count (mset (filter (\<lambda>s. key_of s = key_of x) zs)) x" for zs by (simp add: mset_filter)
  then show "count (mset xs) x = count (mset ys) x" using * by metis
qed

lemma order_refines:
  assumes "orderProxyCandidates (Some s) now srvs = (s', r)"
  shows "mset r = mset srvs \<and> map supervisorCandidate r = snd (Order s now (map supervisorCandidate srvs))"
proof (cases "length srvs < 2")
  case True
  with assms show ?thesis by (simp add: orderProxyCandidates_def Order_def)
next
  case False
  let ?cs = "map supervisorCandidate srvs" and ?o = "snd (Order s now (map supervisorCandidate srvs))"
  have mo: "mset ?o = mset ?cs" by (rule Order_mset)
  have len: "length (filter (\<lambda>c. Key c = k) ?o) = length (key_servers (servers_by_key srvs) k)" for k
  proof -
    have "length (filter (\<lambda>c. Key c = k) ?o) = size (filter_mset (\<lambda>c. Key c = k) (mset ?o))" by (simp flip: mset_filter)
    also have "\<dots> = length (filter (\<lambda>c. Key c = k) ?cs)" by (simp only: mo flip: mset_filter) (simp only: size_mset)
    also have "\<dots> = length (filter (\<lambda>s. key_of s = k) srvs)" by (simp add: filter_map o_def supervisorCandidate_def)
    finally show ?thesis by (simp add: servers_by_key_filter)
  qed
  obtain q where q: "take_servers (servers_by_key srvs) ?o = Some q" "map key_of q = map Key ?o"
    "\<And>k. filter (\<lambda>s. key_of s = k) q = filter (\<lambda>s. key_of s = k) srvs"
    using take_servers_some [of ?o "servers_by_key srvs", OF len] by (auto simp: servers_by_key_filter)
  have r: "r = q" using assms False q(1) by (auto simp: orderProxyCandidates_def split: prod.splits)
  have "supervisorCandidate (q ! i) = ?o ! i" if "i < length q" for i
  proof -
    have lens: "length q = length ?o" using q(2) by (rule map_eq_imp_length_eq)
    then have "?o ! i \<in> set ?cs" using that mo by (metis nth_mem set_mset_mset)
    then obtain t where t: "?o ! i = supervisorCandidate t" by auto
    have "key_of (q ! i) = Key (?o ! i)" using arg_cong [OF q(2), of "\<lambda>l. l ! i"] that lens by simp
    with t have "key_of (q ! i) = key_of t" by (simp add: supervisorCandidate_def)
    then show ?thesis by (simp add: t candidate_eq)
  qed
  moreover have "length q = length ?o" using q(2) by (rule map_eq_imp_length_eq)
  ultimately have "map supervisorCandidate q = ?o" by (simp add: list_eq_iff_nth_eq)
  moreover have "mset q = mset srvs" by (rule mset_by_key) (rule q(3))
  ultimately show ?thesis by (simp add: r)
qed

section \<open>Properties\<close>

text \<open>C37: The order in which upstream servers are tried is the order of the supervisor, carried over to
  servers: seen as candidates, the servers come exactly as the supervisor orders the candidates, and as
  a collection they are exactly the servers of the route. So nothing is added, lost or repeated,
  DIRECT is tried only where the route says so, and the defensive return is never needed.\<close>

theorem route_order_refines:
  assumes "orderProxyCandidates (Some s) now srvs = (s', r)"
  shows "mset r = mset srvs \<and> map supervisorCandidate r = snd (Order s now (map supervisorCandidate srvs))"
  using assms by (rule order_refines)

definition ex_servers :: "Server list" where
  "ex_servers = [\<lparr>srv_Host = ''a'', srv_Port = 1, srv_Scheme = ''http''\<rparr>, DirectServer, \<lparr>srv_Host = ''b'', srv_Port = 2, srv_Scheme = []\<rparr>]"

theorem route_order_refines_witness:
  "mset (snd (orderProxyCandidates (Some (newWithClock [])) 5 ex_servers)) = mset ex_servers
    \<and> map supervisorCandidate (snd (orderProxyCandidates (Some (newWithClock [])) 5 ex_servers)) =
      snd (Order (newWithClock []) 5 (map supervisorCandidate ex_servers))"
  using route_order_refines [of "newWithClock []" 5 ex_servers] by (metis prod.collapse)

text \<open>All kinds of errors in a tree, and those that do not speak against an upstream server.\<close>

fun kinds :: "neterr \<Rightarrow> errkind list" where
  "kinds (NetErr k es) = k # concat (map kinds es)"

fun innocent :: "errkind \<Rightarrow> bool" where
  "innocent EK_Canceled = True"
| "innocent EK_DeadlineExceeded = True"
| "innocent (EK_ConnectStatus _ _) = True"
| "innocent (EK_SocksDestination _ _) = True"
| "innocent _ = False"

lemma as_none: "as_find f err = None \<longleftrightarrow> list_all (\<lambda>k. f k = None) (kinds err)"
proof (induction err)
  case (NetErr k es)
  have "foldr (\<lambda>e found. case as_find f e of Some x \<Rightarrow> Some x | None \<Rightarrow> found) es None = None
      \<longleftrightarrow> list_all (\<lambda>e. as_find f e = None) es"
    by (induction es) (auto split: option.splits)
  moreover have "list_all (\<lambda>e. as_find f e = None) es \<longleftrightarrow> list_all (\<lambda>k. f k = None) (concat (map kinds es))"
    using NetErr by (auto simp: list_all_iff)
  ultimately show ?case by (auto split: option.splits)
qed

lemma innocent_kinds:
  "\<not> innocent k \<longleftrightarrow> k \<noteq> EK_Canceled \<and> k \<noteq> EK_DeadlineExceeded
     \<and> (case k of EK_ConnectStatus code _ \<Rightarrow> Some code | _ \<Rightarrow> None) = None \<and> (case k of EK_SocksDestination _ code \<Rightarrow> Some code | _ \<Rightarrow> None) = None"
  by (cases k) auto

text \<open>Which errors count against an upstream server. An error counts exactly when the request was not
  cancelled, the server is not DIRECT, and nothing in the error's tree is a cancellation, a missed
  deadline, or an answer of the proxy that refuses the target (a status line or a SOCKS reply).\<close>

theorem penalized_errors:
  "PenalizesCandidate (classifyProxyTransportOutcome ctxDone candidate err) \<longleftrightarrow>
     \<not> ctxDone \<and> candidate \<noteq> DirectServer \<and> list_all (\<lambda>k. \<not> innocent k) (kinds err)"
proof -
  have "PenalizesCandidate (classifyProxyTransportOutcome ctxDone candidate err) \<longleftrightarrow>
     \<not> ctxDone \<and> \<not> has_kind EK_Canceled err \<and> \<not> has_kind EK_DeadlineExceeded err \<and> candidate \<noteq> DirectServer
     \<and> as_status err = None \<and> as_socks err = None"
    by (auto simp: classifyProxyTransportOutcome_def PenalizesCandidate_def split: option.splits)
  also have "\<dots> \<longleftrightarrow> \<not> ctxDone \<and> candidate \<noteq> DirectServer \<and> list_all (\<lambda>k. \<not> innocent k) (kinds err)"
    unfolding has_kind_def as_status_def as_socks_def as_none innocent_kinds list_all_iff by auto
  finally show ?thesis .
qed

end
