(* ===== verification/Proxy_Socks.thy ===== *)
theory Proxy_Socks
  imports Proxy_Runtime Go_Encoding
begin

text \<open>
  The SOCKS dialers of \<^verbatim>\<open>internal/proxy/transport.go\<close>. A connection is what the peer will still send, what
  was written, and whether it was closed. What a dial meets is an argument: the dial error, the bytes
  of the peer, the error of a read when they end (end of file, time-out or cancellation), the errors of
  the writes, and the state of the context before the return and in the deferred function.
\<close>

section \<open>Connections\<close>

record sockConn =
  sc_in :: "byte list"
  sc_out :: "byte list list"
  sc_closed :: bool

record sockEnv =
  sk_dial :: "neterr option"
  sk_peer :: "byte list"
  sk_readErr :: neterr
  sk_writeErr :: "nat \<Rightarrow> neterr option"
  sk_ctx :: "neterr option"
  sk_ctxDeferred :: "neterr option"

abbreviation msg :: "string \<Rightarrow> neterr" where "msg s \<equiv> NetErr (EK_Message s) []"

definition conn_Write :: "sockEnv \<Rightarrow> byte list \<Rightarrow> sockConn \<Rightarrow> neterr + sockConn" where
  "conn_Write env bs c =
     (case sk_writeErr env (length (sc_out c)) of Some e \<Rightarrow> Inl e | None \<Rightarrow> Inr (c\<lparr>sc_out := sc_out c @ [bs]\<rparr>))"

definition io_ReadFull :: "sockEnv \<Rightarrow> nat \<Rightarrow> sockConn \<Rightarrow> neterr + (byte list \<times> sockConn)" where
  "io_ReadFull env n c =
     (if length (sc_in c) < n then Inl (sk_readErr env) else Inr (take n (sc_in c), c\<lparr>sc_in := drop n (sc_in c)\<rparr>))"

section \<open>Requests\<close>

definition socksPort :: "int \<Rightarrow> neterr + nat" where
  "socksPort port = (if port < 0 \<or> port > 65535 then Inl (msg ''SOCKS target port out of range'') else Inr (nat port))"

definition socksHostLen :: "string \<Rightarrow> neterr + byte" where
  "socksHostLen host =
     (if length host > 255 then Inl (msg ''SOCKS5 target host too long'') else Inr (of_nat (length host)))"

text \<open>The host and the port of the target, as both dialers read them.\<close>

definition socks_target :: "string \<Rightarrow> neterr + (string \<times> nat)" where
  "socks_target target =
     (case SplitHostPort target of
        None \<Rightarrow> Inl (msg ''address error'')
      | Some (host, portText) \<Rightarrow>
          (case atoi portText of
             None \<Rightarrow> Inl (msg ''invalid syntax'')
           | Some port \<Rightarrow> (case socksPort port of Inl e \<Rightarrow> Inl e | Inr port16 \<Rightarrow> Inr (host, port16))))"

definition socks5_address :: "string \<Rightarrow> neterr + byte list" where
  "socks5_address host =
     (case ParseIP host of
        Some ip \<Rightarrow> (case to4 ip of Some ip4 \<Rightarrow> Inr (0x01 # ip4) | None \<Rightarrow> Inr (0x04 # ip))
      | None \<Rightarrow>
          if length host > 255 then Inl (msg ''SOCKS5 target host too long'')
          else case socksHostLen host of Inl e \<Rightarrow> Inl e | Inr hostLen \<Rightarrow> Inr ([0x03, hostLen] @ bytes_of host))"

definition socks5_request :: "string \<Rightarrow> neterr + byte list" where
  "socks5_request target =
     (case socks_target target of
        Inl e \<Rightarrow> Inl e
      | Inr (host, port16) \<Rightarrow>
          (case socks5_address host of
             Inl e \<Rightarrow> Inl e
           | Inr addr \<Rightarrow> Inr ([0x05, 0x01, 0x00] @ addr @ bytes16 BigEndian port16)))"

definition socks4_request :: "string \<Rightarrow> neterr + byte list" where
  "socks4_request target =
     (case socks_target target of
        Inl e \<Rightarrow> Inl e
      | Inr (host, port16) \<Rightarrow>
          Inr ([0x04, 0x01] @ bytes16 BigEndian port16
            @ (case ParseIP host of
                 Some ip \<Rightarrow> (case to4 ip of Some ip4 \<Rightarrow> ip4 @ [0x00] | None \<Rightarrow> [0, 0, 0, 1, 0x00] @ bytes_of host @ [0x00])
               | None \<Rightarrow> [0, 0, 0, 1, 0x00] @ bytes_of host @ [0x00])))"

section \<open>Dialers\<close>

text \<open>The rest of a successful SOCKS5 reply: the bound address and the port are skipped.\<close>

definition socks5_skip :: "sockEnv \<Rightarrow> byte \<Rightarrow> sockConn \<Rightarrow> sockConn \<times> neterr option" where
  "socks5_skip env atyp c =
     (case (if atyp = 0x01 then Inr (4, c)
            else if atyp = 0x03 then
              (case io_ReadFull env 1 c of Inl e \<Rightarrow> Inl e | Inr (lenb, c) \<Rightarrow> Inr (unat (lenb ! 0), c))
            else if atyp = 0x04 then Inr (16, c)
            else Inl (msg ''SOCKS5 bad address type'')) of
        Inl e \<Rightarrow> (c, Some e)
      | Inr (skip, c) \<Rightarrow> (case io_ReadFull env (skip + 2) c of Inl e \<Rightarrow> (c, Some e) | Inr (_, c) \<Rightarrow> (c, sk_ctx env)))"

definition socks5_exchange :: "sockEnv \<Rightarrow> string \<Rightarrow> sockConn \<Rightarrow> sockConn \<times> neterr option" where
  "socks5_exchange env target c =
     (case conn_Write env [0x05, 0x01, 0x00] c of
        Inl e \<Rightarrow> (c, Some e)
      | Inr c \<Rightarrow>
     (case io_ReadFull env 2 c of
        Inl e \<Rightarrow> (c, Some e)
      | Inr (reply, c) \<Rightarrow>
          if reply ! 0 \<noteq> 0x05 \<or> reply ! 1 \<noteq> 0x00 then (c, Some (msg ''SOCKS5 proxy rejected no-auth method''))
          else (case socks5_request target of
            Inl e \<Rightarrow> (c, Some e)
          | Inr req \<Rightarrow>
         (case conn_Write env req c of
            Inl e \<Rightarrow> (c, Some e)
          | Inr c \<Rightarrow>
         (case io_ReadFull env 4 c of
            Inl e \<Rightarrow> (c, Some e)
          | Inr (hdr, c) \<Rightarrow>
              if hdr ! 0 \<noteq> 0x05 \<or> hdr ! 1 \<noteq> 0x00 then (c, Some (NetErr (EK_SocksDestination 5 (hdr ! 1)) []))
              else socks5_skip env (hdr ! 3) c)))))"

definition socks4_exchange :: "sockEnv \<Rightarrow> string \<Rightarrow> sockConn \<Rightarrow> sockConn \<times> neterr option" where
  "socks4_exchange env target c =
     (case socks4_request target of
        Inl e \<Rightarrow> (c, Some e)
      | Inr req \<Rightarrow>
     (case conn_Write env req c of
        Inl e \<Rightarrow> (c, Some e)
      | Inr c \<Rightarrow>
     (case io_ReadFull env 8 c of
        Inl e \<Rightarrow> (c, Some e)
      | Inr (reply, c) \<Rightarrow>
          if reply ! 1 \<noteq> 0x5a then (c, Some (NetErr (EK_SocksDestination 4 (reply ! 1)) [])) else (c, sk_ctx env))))"

text \<open>The frame of both dialers: the dial, and the deferred function, which closes the connection after an
  error and reports the context's error in place of the other.\<close>

definition socks_dial ::
  "(sockEnv \<Rightarrow> string \<Rightarrow> sockConn \<Rightarrow> sockConn \<times> neterr option) \<Rightarrow> sockEnv \<Rightarrow> string \<Rightarrow> sockConn option \<times> neterr option" where
  "socks_dial exchange env target =
     (case sk_dial env of
        Some e \<Rightarrow> (None, Some e)
      | None \<Rightarrow>
          (case exchange env target \<lparr>sc_in = sk_peer env, sc_out = [], sc_closed = False\<rparr> of
             (c, None) \<Rightarrow> (Some c, None)
           | (c, Some e) \<Rightarrow>
               (Some (c\<lparr>sc_closed := True\<rparr>), Some (case sk_ctxDeferred env of Some ce \<Rightarrow> ce | None \<Rightarrow> e))))"

definition dialSOCKS5WithDial :: "sockEnv \<Rightarrow> string \<Rightarrow> sockConn option \<times> neterr option" where
  "dialSOCKS5WithDial = socks_dial socks5_exchange"

definition dialSOCKS4WithDial :: "sockEnv \<Rightarrow> string \<Rightarrow> sockConn option \<times> neterr option" where
  "dialSOCKS4WithDial = socks_dial socks4_exchange"

definition dialSOCKSProxyWithDial :: "sockEnv \<Rightarrow> string \<Rightarrow> string \<Rightarrow> sockConn option \<times> neterr option" where
  "dialSOCKSProxyWithDial env scheme target =
     (if to_lower scheme = ''socks4'' \<or> to_lower scheme = ''socks4a'' then dialSOCKS4WithDial env target
      else dialSOCKS5WithDial env target)"

section \<open>The requests as a server reads them\<close>

text \<open>The reference: how RFC 1928 and the SOCKS4a note read a CONNECT request.\<close>

datatype socks_addr = SocksV4 ip | SocksV6 ip | SocksName string

definition read_port :: "byte list \<Rightarrow> nat option" where
  "read_port bs = (case bs of [a, b] \<Rightarrow> Some (256 * unat a + unat b) | _ \<Rightarrow> None)"

definition read_socks5 :: "byte list \<Rightarrow> (socks_addr \<times> nat) option" where
  "read_socks5 bs =
     (case bs of
        ver # cmd # rsv # atyp # r \<Rightarrow>
          if ver \<noteq> 5 \<or> cmd \<noteq> 1 then None
          else if atyp = 1 then map_option (Pair (SocksV4 (take 4 r))) (read_port (drop 4 r))
          else if atyp = 4 then map_option (Pair (SocksV6 (take 16 r))) (read_port (drop 16 r))
          else if atyp = 3 then
            (case r of n # r \<Rightarrow> map_option (Pair (SocksName (str_of (take (unat n) r)))) (read_port (drop (unat n) r)) | [] \<Rightarrow> None)
          else None
      | _ \<Rightarrow> None)"

definition read_socks4 :: "byte list \<Rightarrow> (socks_addr \<times> nat) option" where
  "read_socks4 bs =
     (case bs of
        ver # cmd # p1 # p2 # r \<Rightarrow>
          if ver \<noteq> 4 \<or> cmd \<noteq> 1 \<or> length r < 5 then None
          else let ip = take 4 r; rest = tl (dropWhile (\<lambda>b. b \<noteq> 0) (drop 4 r)) in
            map_option (\<lambda>p. (if take 3 ip = [0, 0, 0] \<and> ip ! 3 \<noteq> 0 then SocksName (str_of (takeWhile (\<lambda>b. b \<noteq> 0) rest)) else SocksV4 ip, p))
              (read_port [p1, p2])
      | _ \<Rightarrow> None)"

text \<open>The address that a host text denotes.\<close>

definition denoted :: "string \<Rightarrow> socks_addr" where
  "denoted host =
     (case ParseIP host of
        Some ip \<Rightarrow> (case to4 ip of Some ip4 \<Rightarrow> SocksV4 ip4 | None \<Rightarrow> SocksV6 ip)
      | None \<Rightarrow> SocksName host)"

section \<open>Requests read back\<close>

lemma ipv6_loop_length:
  "even (length ip) \<Longrightarrow> length ip \<le> 16 \<Longrightarrow> ipv6_loop ip el s = Some (ip', el', r) \<Longrightarrow> length ip' \<le> 16"
proof (induction ip el s rule: ipv6_loop.induct)
  case (1 ip el s)
  define ds where "ds = takeWhile is_hex s"
  define ip2 where "ip2 = ip @ [of_nat (hex_num ds div 256), of_nat (hex_num ds)]"
  define r2 where "r2 = drop (length ds) s"
  have unf: "ipv6_loop ip el s = (if length ip \<ge> 16 then Some (ip, el, s)
      else if length ds = 0 \<or> length ds > 4 then None
      else if r2 \<noteq> [] \<and> hd r2 = CHR ''.'' then
        (if el = None \<and> length ip \<noteq> 12 then None
         else if length ip + 4 > 16 then None
         else case parse_ipv4 s of None \<Rightarrow> None | Some v4 \<Rightarrow> Some (ip @ v4, el, []))
      else if r2 = [] then Some (ip2, el, [])
      else if hd r2 \<noteq> CHR '':'' then None
      else if tl r2 = [] then None
      else if hd (tl r2) = CHR '':'' then
        (if el \<noteq> None then None
         else if tl (tl r2) = [] then Some (ip2, Some (length ip2), [])
         else ipv6_loop ip2 (Some (length ip2)) (tl (tl r2)))
      else ipv6_loop ip2 el (tl r2))"
    unfolding ip2_def r2_def ds_def by (subst ipv6_loop.simps) (simp only: Let_def)
  have ih1: "ipv6_loop ip2 (Some (length ip2)) (tl (tl r2)) = Some (ip', el', r) \<Longrightarrow> length ip' \<le> 16"
    if "\<not> length ip \<ge> 16" "\<not> (length ds = 0 \<or> length ds > 4)" "\<not> (r2 \<noteq> [] \<and> hd r2 = CHR ''.'')" "r2 \<noteq> []"
      "hd r2 = CHR '':''" "tl r2 \<noteq> []" "hd (tl r2) = CHR '':''" "el = None" "tl (tl r2) \<noteq> []"
    using "1.IH"(1) [OF that(1) ds_def refl r2_def ip2_def] that "1.prems"(1) by (auto simp: ip2_def elim!: evenE)
  have ih2: "ipv6_loop ip2 el (tl r2) = Some (ip', el', r) \<Longrightarrow> length ip' \<le> 16"
    if "\<not> length ip \<ge> 16" "\<not> (length ds = 0 \<or> length ds > 4)" "\<not> (r2 \<noteq> [] \<and> hd r2 = CHR ''.'')" "r2 \<noteq> []"
      "hd r2 = CHR '':''" "tl r2 \<noteq> []" "hd (tl r2) \<noteq> CHR '':''"
    using "1.IH"(2) [OF that(1) ds_def refl r2_def ip2_def] that "1.prems"(1) by (auto simp: ip2_def elim!: evenE)
  have short: "length ip < 16 \<Longrightarrow> length ip2 \<le> 16" using "1.prems"(1) by (auto simp: ip2_def elim!: evenE)
  show ?case
    using "1.prems"(2,3) short ih1 ih2 parse_ipv4_length [of s] unfolding unf
    by (auto split: if_splits option.splits)
qed

lemma ParseIP_length: "ParseIP s = Some ip \<Longrightarrow> length ip = 16"
proof -
  have "parse_ipv6 t = Some a \<Longrightarrow> length a = 16" for t a
    using ipv6_loop_length [of "[]"]
    by (auto simp: parse_ipv6_def Let_def split: if_splits option.splits prod.splits) fastforce+
  then show "ParseIP s = Some ip \<Longrightarrow> length ip = 16"
    using parse_ipv4_length [of s] by (auto simp: ParseIP_def parse_addr_def v4InV6Prefix_def split: option.splits if_splits)
qed

lemma read_port_bytes: "p < 65536 \<Longrightarrow> read_port (bytes16 BigEndian p) = Some p"
  by (simp add: read_port_def unat_byte_of_nat less_mult_imp_div_less)

lemma socks_target_port: "socks_target target = Inr (host, p) \<Longrightarrow> p < 65536"
  by (auto simp: socks_target_def socksPort_def split: option.splits if_splits prod.splits sum.splits)

lemma socks5_request_read:
  assumes "socks5_request target = Inr req"
  shows "\<exists>host p. socks_target target = Inr (host, p) \<and> read_socks5 req = Some (denoted host, p)"
proof -
  from assms obtain host p addr where t: "socks_target target = Inr (host, p)" and a: "socks5_address host = Inr addr"
    and req: "req = [0x05, 0x01, 0x00] @ addr @ bytes16 BigEndian p"
    by (auto simp: socks5_request_def split: sum.splits prod.splits)
  have p: "read_port (bytes16 BigEndian p) = Some p" by (rule read_port_bytes) (rule socks_target_port [OF t])
  have "read_socks5 req = Some (denoted host, p)"
  proof (cases "ParseIP host")
    case None
    then have "length host \<le> 255" "addr = [0x03, of_nat (length host)] @ bytes_of host"
      using a by (auto simp: socks5_address_def socksHostLen_def split: if_splits)
    then show ?thesis using p None by (simp add: req read_socks5_def denoted_def unat_byte_of_nat del: bytes16.simps)
  next
    case (Some ip)
    show ?thesis
    proof (cases "to4 ip")
      case None
      then have "addr = 0x04 # ip" using a Some by (simp add: socks5_address_def)
      then show ?thesis using p Some None ParseIP_length [OF Some]
        by (simp add: req read_socks5_def denoted_def del: bytes16.simps)
    next
      case ip4: (Some ip4)
      then have "addr = 0x01 # ip4" using a Some by (simp add: socks5_address_def)
      then show ?thesis using p Some ip4 to4_length [OF ip4]
        by (simp add: req read_socks5_def denoted_def del: bytes16.simps)
    qed
  qed
  with t show ?thesis by blast
qed

lemma io_closed:
  "conn_Write env bs c = Inr c' \<Longrightarrow> sc_closed c' = sc_closed c"
  "io_ReadFull env n c = Inr (r, c') \<Longrightarrow> sc_closed c' = sc_closed c"
  by (auto simp: conn_Write_def io_ReadFull_def split: if_splits option.splits)

lemma skip_open: "socks5_skip env atyp c = (c', e) \<Longrightarrow> sc_closed c' = sc_closed c"
  by (auto simp: socks5_skip_def dest: io_closed split: sum.splits prod.splits if_splits)

lemma exchange_open:
  "socks5_exchange env target c = (c', e) \<Longrightarrow> sc_closed c' = sc_closed c"
  "socks4_exchange env target c = (c', e) \<Longrightarrow> sc_closed c' = sc_closed c"
  by (auto simp: socks5_exchange_def socks4_exchange_def dest!: io_closed skip_open split: sum.splits prod.splits if_splits)

lemma skip_reads:
  assumes "socks5_skip env atyp c = (c', None)"
  shows "\<exists>bound. sc_in c = bound @ sc_in c' \<and> sc_out c' = sc_out c
    \<and> (atyp = 1 \<and> length bound = 6 \<or> atyp = 4 \<and> length bound = 18 \<or> atyp = 3 \<and> bound \<noteq> [] \<and> length bound = unat (hd bound) + 3)"
proof -
  consider (v4) "atyp = 1" "c' = c\<lparr>sc_in := drop 6 (sc_in c)\<rparr>" "6 \<le> length (sc_in c)"
    | (v6) "atyp = 4" "c' = c\<lparr>sc_in := drop 18 (sc_in c)\<rparr>" "18 \<le> length (sc_in c)"
    | (name) "atyp = 3" "sc_in c \<noteq> []" "c' = c\<lparr>sc_in := drop (Suc (Suc (Suc (unat (sc_in c ! 0))))) (sc_in c)\<rparr>"
        "Suc (Suc (Suc (unat (sc_in c ! 0)))) \<le> length (sc_in c)"
    using assms by (auto simp: socks5_skip_def io_ReadFull_def split: if_splits)
  then show ?thesis
  proof cases
    case v4
    then show ?thesis by (intro exI [of _ "take 6 (sc_in c)"]) simp
  next
    case v6
    then show ?thesis by (intro exI [of _ "take 18 (sc_in c)"]) simp
  next
    case name
    let ?n = "Suc (Suc (Suc (unat (sc_in c ! 0))))"
    have "hd (take ?n (sc_in c)) = sc_in c ! 0" using name by (cases "sc_in c") auto
    with name show ?thesis by (intro exI [of _ "take ?n (sc_in c)"]) auto
  qed
qed

text \<open>The reference: the replies with which a server accepts, the method, the success header and the bound address, and
  what follows them.\<close>

definition bound_ok :: "byte \<Rightarrow> byte list \<Rightarrow> bool" where
  "bound_ok atyp bound \<longleftrightarrow>
     atyp = 1 \<and> length bound = 6 \<or> atyp = 4 \<and> length bound = 18 \<or> atyp = 3 \<and> bound \<noteq> [] \<and> length bound = unat (hd bound) + 3"

definition socks5_accepts :: "byte list \<Rightarrow> byte list \<Rightarrow> bool" where
  "socks5_accepts peer rest \<longleftrightarrow> (\<exists>rsv atyp bound. peer = [5, 0] @ [5, 0, rsv, atyp] @ bound @ rest \<and> bound_ok atyp bound)"

lemma skip_accepts:
  assumes "bound_ok atyp bound" "sk_ctx env = None" "sc_in c = bound @ rest"
  shows "snd (socks5_skip env atyp c) = None"
proof -
  consider "atyp = 1" "length bound = 6" | "atyp = 4" "length bound = 18" | "atyp = 3" "bound \<noteq> []" "length bound = unat (hd bound) + 3"
    using assms(1) by (auto simp: bound_ok_def)
  then show ?thesis
  proof cases
    case 3
    then have "bound ! 0 = hd bound" by (cases bound) auto
    with 3 assms show ?thesis by (auto simp: socks5_skip_def io_ReadFull_def)
  qed (use assms in \<open>auto simp: socks5_skip_def io_ReadFull_def\<close>)
qed

lemma socks5_request_some:
  "(\<exists>req. socks5_request target = Inr req) \<longleftrightarrow> (\<exists>host p. socks_target target = Inr (host, p) \<and> (ParseIP host = None \<longrightarrow> length host \<le> 255))"
  by (auto simp: socks5_request_def socks5_address_def socksHostLen_def split: sum.splits option.splits if_splits)

lemma exchange_accepts:
  assumes "socks5_accepts (sk_peer env) rest" "sk_ctx env = None" "sk_writeErr env 0 = None" "sk_writeErr env 1 = None" "socks5_request target = Inr req"
  shows "snd (socks5_exchange env target \<lparr>sc_in = sk_peer env, sc_out = [], sc_closed = False\<rparr>) = None"
proof -
  from assms(1) obtain rsv atyp bound where p: "sk_peer env = [5, 0] @ [5, 0, rsv, atyp] @ bound @ rest" "bound_ok atyp bound"
    by (auto simp: socks5_accepts_def)
  have "snd (socks5_skip env atyp \<lparr>sc_in = bound @ rest, sc_out = [[5, 1, 0], req], sc_closed = False\<rparr>) = None"
    by (rule skip_accepts [OF p(2) assms(2)]) simp
  then show ?thesis using assms(3-5) by (simp add: socks5_exchange_def conn_Write_def io_ReadFull_def p(1))
qed

lemma exchange_facts:
  assumes "socks5_exchange env target \<lparr>sc_in = sk_peer env, sc_out = [], sc_closed = False\<rparr> = (c, None)"
  shows "sk_ctx env = None \<and> sk_writeErr env 0 = None \<and> sk_writeErr env 1 = None
    \<and> (\<exists>req. socks5_request target = Inr req \<and> sc_out c = [[5, 1, 0], req]) \<and> socks5_accepts (sk_peer env) (sc_in c)"
proof -
  let ?in = "sk_peer env"
  from assms obtain req where req: "socks5_request target = Inr req" and l: "6 \<le> length ?in" and w: "sk_writeErr env 0 = None" "sk_writeErr env 1 = None"
    and r: "?in ! 0 = 5" "?in ! 1 = 0" "?in ! 2 = 5" "?in ! 3 = 0"
    and sk: "socks5_skip env (?in ! 5) \<lparr>sc_in = drop 6 ?in, sc_out = [[5, 1, 0], req], sc_closed = False\<rparr> = (c, None)"
    by (auto simp: socks5_exchange_def conn_Write_def io_ReadFull_def split: sum.splits option.splits if_splits)
  have "take 6 ?in = map (\<lambda>i. ?in ! i) [0..<6]" using l by (auto intro: nth_equalityI)
  also have "[0..<6] = [0, 1, 2, 3, 4, 5]" by (simp add: upt_rec)
  finally have "take 6 ?in = [5, 0, 5, 0, ?in ! 4, ?in ! 5]" using r by simp
  then have six: "?in = [5, 0] @ [5, 0, ?in ! 4, ?in ! 5] @ drop 6 ?in" using append_take_drop_id [of 6 ?in] by simp
  from skip_reads [OF sk] obtain bound where b: "drop 6 ?in = bound @ sc_in c" "sc_out c = [[5, 1, 0], req]" "bound_ok (?in ! 5) bound"
    by (auto simp: bound_ok_def)
  have "sk_ctx env = None" using sk by (auto simp: socks5_skip_def io_ReadFull_def split: if_splits sum.splits)
  moreover have "socks5_accepts ?in (sc_in c)" unfolding socks5_accepts_def using six b(1,3) by metis
  ultimately show ?thesis using req w b(2) by blast
qed

section \<open>Properties\<close>

text \<open>C38: A SOCKS5 dial succeeds exactly when the proxy accepts: the connection is made, both messages can be written,
  the context is not done at the end, the target has a port and a host that the protocol can carry, and the bytes of the
  proxy begin with the method, the success header and a bound address. Then it has sent exactly the greeting and one
  request, which a server reads as a CONNECT to the address and port of the target, and it has read exactly these replies:
  whatever the peer sent after them is still unread and belongs to the tunnel.\<close>

theorem socks5_dial_exact:
  "((\<exists>c. dialSOCKS5WithDial env target = (Some c, None)) \<longleftrightarrow>
      sk_dial env = None \<and> sk_writeErr env 0 = None \<and> sk_writeErr env 1 = None \<and> sk_ctx env = None
      \<and> (\<exists>host p. socks_target target = Inr (host, p) \<and> (ParseIP host = None \<longrightarrow> length host \<le> 255))
      \<and> (\<exists>rest. socks5_accepts (sk_peer env) rest))
   \<and> (\<forall>c. dialSOCKS5WithDial env target = (Some c, None) \<longrightarrow>
      (\<exists>req host p. sc_out c = [[5, 1, 0], req] \<and> socks_target target = Inr (host, p) \<and> read_socks5 req = Some (denoted host, p))
      \<and> socks5_accepts (sk_peer env) (sc_in c) \<and> \<not> sc_closed c)"
proof -
  let ?c0 = "\<lparr>sc_in = sk_peer env, sc_out = [], sc_closed = False\<rparr>"
  have dial: "dialSOCKS5WithDial env target = (Some c, None) \<longleftrightarrow> sk_dial env = None \<and> socks5_exchange env target ?c0 = (c, None)" for c
    by (auto simp: dialSOCKS5WithDial_def socks_dial_def split: option.splits prod.splits)
  have "\<exists>c. socks5_exchange env target ?c0 = (c, None)"
    if "socks5_accepts (sk_peer env) rest" "sk_ctx env = None" "sk_writeErr env 0 = None" "sk_writeErr env 1 = None" "socks5_request target = Inr req" for rest req
    using exchange_accepts [OF that] by (metis prod.collapse)
  then show ?thesis
    unfolding dial socks5_request_some [symmetric] using exchange_facts exchange_open(1) [of env target ?c0] socks5_request_read
    by (intro conjI iffI allI impI) (fastforce+)
qed

definition ex_socks :: sockEnv where
  "ex_socks = \<lparr>sk_dial = None, sk_peer = [5, 0, 5, 0, 0, 1, 0, 0, 0, 0, 0, 0, 42], sk_readErr = msg ''EOF'',
     sk_writeErr = (\<lambda>_. None), sk_ctx = None, sk_ctxDeferred = None\<rparr>"

theorem socks5_dial_exact_witness:
  "\<exists>c req. dialSOCKS5WithDial ex_socks ''h:80'' = (Some c, None) \<and> sc_in c = [42] \<and> sc_out c = [[5, 1, 0], req]
    \<and> read_socks5 req = Some (denoted ''h'', 80)"
proof -
  have ok: "snd (dialSOCKS5WithDial ex_socks ''h:80'') = None" "map_option sc_in (fst (dialSOCKS5WithDial ex_socks ''h:80'')) = Some [42]"
    "socks_target ''h:80'' = Inr (''h'', 80)" by code_simp+
  then obtain c where c: "dialSOCKS5WithDial ex_socks ''h:80'' = (Some c, None)" "sc_in c = [42]"
    by (cases "dialSOCKS5WithDial ex_socks ''h:80''") (simp, blast)
  from socks5_dial_exact [of ex_socks "''h:80''"] ok(3) c show ?thesis by auto
qed

text \<open>A SOCKS dial that fails after the connection was made closes it, and one that succeeds does not.\<close>

theorem socks_failure_closes:
  assumes "dialSOCKSProxyWithDial env scheme target = (Some c, e)"
  shows "sc_closed c \<longleftrightarrow> e \<noteq> None"
proof -
  let ?c0 = "\<lparr>sc_in = sk_peer env, sc_out = [], sc_closed = False\<rparr>"
  obtain ex where ex: "socks_dial ex env target = (Some c, e)" "ex = socks5_exchange \<or> ex = socks4_exchange"
    using assms by (auto simp: dialSOCKSProxyWithDial_def dialSOCKS4WithDial_def dialSOCKS5WithDial_def split: if_splits)
  obtain c1 e1 where "ex env target ?c0 = (c1, e1)" by (cases "ex env target ?c0")
  with ex exchange_open [of env target ?c0 c1 e1] show ?thesis
    by (auto simp: socks_dial_def split: option.splits) metis+
qed

end
