(* ===== verification/Proxy_Connect.thy ===== *)
theory Proxy_Connect
  imports Auth_Sessions Proxy_Socks
begin

text \<open>
  CONNECT through upstream proxies, \<^verbatim>\<open>internal/proxy/connect.go\<close>: the target, the handshake with its
  authentication retries, and the fallback over the candidates of a route.

  A handshake meets the responses of the upstream proxy, one per request; when they end, the next read
  fails. The errors of the writes, the results of the authentication libraries and the clock come from
  outside as well.
\<close>

section \<open>Target\<close>

definition connectTarget :: "string \<Rightarrow> string" where
  "connectTarget host = (if SplitHostPort host = None then JoinHostPort (trim_brackets host) ''443'' else host)"

section \<open>Handshake\<close>

datatype 'c authSess = SspiSession "'c sspiSession" | KerberosSession kerberosSession

text \<open>A response: its status, the values of its Proxy-Authenticate header, and its body as the number of
  bytes that can be read and the error that follows them.\<close>

record connResponse =
  cn_status :: int
  cn_statusText :: string
  cn_challenges :: "string list"
  cn_body :: "nat \<times> goerr option"

record 'c connectEnv =
  ce_cfg :: upstreamConfig
  ce_hashes :: hashes
  ce_auth :: "nat \<Rightarrow> bool \<Rightarrow> upstreamEnv"
  ce_target :: string
  ce_proxyHost :: string
  ce_passthroughAuth :: string
  ce_manager :: "(string \<Rightarrow> goerr + byte list) option"
  ce_windows :: bool
  ce_sspiFactory :: "string \<Rightarrow> string \<Rightarrow> goerr + 'c sspiSession"
  ce_native :: "'c nativeSSPI"
  ce_writeErr :: "nat \<Rightarrow> neterr option"
  ce_readErr :: neterr

record 'c connectState =
  ct_out :: "string list"
  ct_resps :: "(neterr + connResponse) list"
  ct_auth :: authState
  ct_mechanism :: string
  ct_session :: "'c authSess option"
  ct_opened :: nat
  ct_closed :: nat
  ct_authFailures :: nat

definition sess_auth :: "'c nativeSSPI \<Rightarrow> 'c authSess \<Rightarrow> string \<Rightarrow> 'c authSess \<times> (goerr + string)" where
  "sess_auth nv s challenge =
     (case s of
        SspiSession x \<Rightarrow> (case sspiSessionAuth sspi_Negotiate (sspi_Authenticate nv) x challenge of (x, r) \<Rightarrow> (SspiSession x, r))
      | KerberosSession x \<Rightarrow> (case sspiSessionAuth kerberos_Negotiate kerberos_Authenticate x challenge of (x, r) \<Rightarrow> (KerberosSession x, r)))"

definition sess_close :: "'c nativeSSPI \<Rightarrow> 'c authSess \<Rightarrow> 'c authSess \<times> goerr option" where
  "sess_close nv s =
     (case s of
        SspiSession x \<Rightarrow> (case sspi_Close nv x of (x, e) \<Rightarrow> (SspiSession x, e))
      | KerberosSession x \<Rightarrow> (case kerberos_Close x of (x, e) \<Rightarrow> (KerberosSession x, e)))"

definition maxUpstream407Body :: nat where "maxUpstream407Body = 64 * 1024"

definition drainUpstream407Body :: "nat \<times> goerr option \<Rightarrow> neterr option" where
  "drainUpstream407Body body =
     (case body of (n, err) \<Rightarrow>
        if n > maxUpstream407Body then Some (msg ''upstream 407 body exceeds bytes'')
        else case err of None \<Rightarrow> None | Some _ \<Rightarrow> Some (msg ''drain upstream 407 body''))"

text \<open>The Proxy-Authorization value of an attempt: from the session, or from the configuration.\<close>

definition connect_auth :: "'c connectEnv \<Rightarrow> nat \<Rightarrow> string \<Rightarrow> 'c connectState \<Rightarrow> 'c connectState \<times> (neterr + string)" where
  "connect_auth env attempts challenge st =
     (case ct_session st of
        Some s \<Rightarrow>
          (case sess_auth (ce_native env) s challenge of
             (s, Inl e) \<Rightarrow> (st\<lparr>ct_session := Some s\<rparr>, Inl (NetErr (EK_Message ''continue upstream CONNECT authentication'') [msg ''session'']))
           | (s, Inr auth) \<Rightarrow> (st\<lparr>ct_session := Some s\<rparr>, Inr auth))
      | None \<Rightarrow>
          (case upstreamProxyAuthHeader (ce_hashes env) (ce_auth env attempts False) (ce_cfg env) (ct_auth st) ''CONNECT''
             (ce_target env) challenge (ce_passthroughAuth env) of
             (s, auth) \<Rightarrow> (st\<lparr>ct_auth := s\<rparr>, Inr auth)))"

definition crlf :: string where "crlf = [CHR 0x0D, CHR 0x0A]"

definition connect_request :: "string \<Rightarrow> string \<Rightarrow> string" where
  "connect_request target auth =
     ''CONNECT '' @ target @ '' HTTP/1.1'' @ crlf @ ''Host: '' @ target @ crlf
     @ (if auth = [] then [] else ''Proxy-Authorization: '' @ auth @ crlf) @ crlf"

text \<open>One request and the response to it.\<close>

definition connect_exchange :: "'c connectEnv \<Rightarrow> nat \<Rightarrow> string \<Rightarrow> 'c connectState \<Rightarrow> 'c connectState \<times> (neterr + connResponse)" where
  "connect_exchange env attempts challenge st =
     (let st = st\<lparr>ct_mechanism := ObserveHeader (ct_mechanism st) challenge\<rparr> in
      case connect_auth env attempts challenge st of
        (st, Inl e) \<Rightarrow> (st, Inl e)
      | (st, Inr auth) \<Rightarrow>
          let st = (if auth \<noteq> [] then st\<lparr>ct_mechanism := ObserveHeader (ct_mechanism st) auth\<rparr> else st) in
          (case ce_writeErr env attempts of
             Some e \<Rightarrow> (st, Inl e)
           | None \<Rightarrow>
               let st = st\<lparr>ct_out := ct_out st @ [connect_request (ce_target env) auth]\<rparr> in
               (case ct_resps st of
                  [] \<Rightarrow> (st, Inl (ce_readErr env))
                | r # rs \<Rightarrow> (st\<lparr>ct_resps := rs\<rparr>, r))))"

definition connect_finish :: "connResponse \<Rightarrow> 'c connectState \<Rightarrow> 'c connectState \<times> neterr option" where
  "connect_finish resp st =
     (if cn_status resp div 100 \<noteq> 2
      then (st\<lparr>ct_authFailures := ct_authFailures st + 1\<rparr>, Some (NetErr (EK_ConnectStatus (cn_status resp) (cn_statusText resp)) []))
      else (st, None))"

definition next_challenge :: "upstreamConfig \<Rightarrow> connResponse \<Rightarrow> string" where
  "next_challenge cfg resp =
     (let selected = selectProxyAuthenticateChallenge (effectiveUpstreamAuth cfg) (cn_challenges resp) in
      if selected \<noteq> [] then selected else case cn_challenges resp of [] \<Rightarrow> [] | c # _ \<Rightarrow> c)"

text \<open>A session is created for a Kerberos or SSPI challenge unless there is one; the result is whether it was.\<close>

definition next_session :: "'c connectEnv \<Rightarrow> string \<Rightarrow> 'c connectState \<Rightarrow> 'c connectState \<times> (neterr + bool)" where
  "next_session env challenge st =
     (if ct_session st \<noteq> None then (st, Inr False)
      else if isUnixKerberosCandidate (ce_cfg env) challenge then
        (let st = st\<lparr>ct_mechanism := ObserveMechanism (ct_mechanism st) authMechanismKerberos\<rparr> in
         case newKerberosAuthSession (ce_manager env) (ce_proxyHost env) of
           Inl e \<Rightarrow> (st\<lparr>ct_authFailures := ct_authFailures st + 1\<rparr>,
                     Inl (NetErr (EK_Message ''start Kerberos SPNEGO CONNECT authentication'') [msg ''session'']))
         | Inr s \<Rightarrow> (st\<lparr>ct_session := Some (KerberosSession s), ct_opened := ct_opened st + 1\<rparr>, Inr True))
      else if ce_windows env \<and> isWindowsSSPICandidate (ce_cfg env) challenge then
        (case ce_sspiFactory env challenge (ce_proxyHost env) of
           Inl e \<Rightarrow> (st, Inl (NetErr (EK_Message ''start SSPI CONNECT authentication'') [msg ''session'']))
         | Inr s \<Rightarrow> (st\<lparr>ct_session := Some (SspiSession s), ct_opened := ct_opened st + 1\<rparr>, Inr True))
      else (st, Inr False))"

definition close_session :: "'c connectEnv \<Rightarrow> 'c connectState \<Rightarrow> neterr option \<Rightarrow> 'c connectState \<times> neterr option" where
  "close_session env st err =
     (case ct_session st of
        None \<Rightarrow> (st, err)
      | Some s \<Rightarrow>
          (case sess_close (ce_native env) s of
             (s, closeErr) \<Rightarrow>
               (st\<lparr>ct_session := Some s, ct_closed := ct_closed st + 1\<rparr>,
                if closeErr \<noteq> None \<and> err = None then Some (NetErr (EK_Message ''close upstream CONNECT auth session'') [msg ''session'']) else err)))"

text \<open>The recursion of the code, which increases \<open>attempts\<close> and stops at 3.\<close>

function connect_attempt :: "'c connectEnv \<Rightarrow> string \<Rightarrow> nat \<Rightarrow> 'c connectState \<Rightarrow> 'c connectState \<times> neterr option" where
  "connect_attempt env challenge attempts st =
     (case connect_exchange env attempts challenge st of
        (st, Inl e) \<Rightarrow> (st, Some e)
      | (st, Inr resp) \<Rightarrow>
          if cn_status resp = 407 \<and> attempts < 3 then
            (let nextChallenge = next_challenge (ce_cfg env) resp in
             case drainUpstream407Body (cn_body resp) of
               Some e \<Rightarrow> (st, Some e)
             | None \<Rightarrow>
                 (case next_session env nextChallenge st of
                    (st, Inl e) \<Rightarrow> (st, Some e)
                  | (st, Inr createdSession) \<Rightarrow>
                      if ct_session st \<noteq> None then
                        (case connect_attempt env nextChallenge (attempts + 1) st of
                           (st, err) \<Rightarrow> if createdSession then close_session env st err else (st, err))
                      else
                        (case upstreamProxyAuthHeader (ce_hashes env) (ce_auth env attempts True) (ce_cfg env) (ct_auth st) ''CONNECT''
                           (ce_target env) nextChallenge (ce_passthroughAuth env) of
                           (s, auth) \<Rightarrow>
                             let st = st\<lparr>ct_auth := s\<rparr> in
                             if auth \<noteq> [] then connect_attempt env nextChallenge (attempts + 1) st else connect_finish resp st)))
          else connect_finish resp st)"
  by pat_completeness auto
termination
  by (relation "measure (\<lambda>(_, _, attempts, _). 3 - attempts)") auto

declare connect_attempt.simps [simp del]

definition new_connect :: "(neterr + connResponse) list \<Rightarrow> authState \<Rightarrow> 'c connectState" where
  "new_connect resps s =
     \<lparr>ct_out = [], ct_resps = resps, ct_auth = s, ct_mechanism = [], ct_session = None, ct_opened = 0, ct_closed = 0, ct_authFailures = 0\<rparr>"

text \<open>The whole handshake; the tunnel bytes behind the last response are handed on when it succeeds.\<close>

definition sendUpstreamConnect ::
  "'c connectEnv \<Rightarrow> (neterr + connResponse) list \<Rightarrow> authState \<Rightarrow> string \<Rightarrow> 'c connectState \<times> (neterr + string)" where
  "sendUpstreamConnect env resps s buffered =
     (case connect_attempt env [] 0 (new_connect resps s) of
        (st, Some e) \<Rightarrow> (st, Inl e) | (st, None) \<Rightarrow> (st, Inr buffered))"

section \<open>The retries\<close>

lemma exchange_post:
  assumes "connect_exchange env n ch st = (st', r)"
  shows "length (ct_out st') \<le> length (ct_out st) + 1 \<and> ct_opened st' = ct_opened st \<and> ct_closed st' = ct_closed st
    \<and> (ct_session st' = None \<longleftrightarrow> ct_session st = None) \<and> (\<exists>used. ct_resps st = used @ ct_resps st')
    \<and> (\<forall>resp. r = Inr resp \<longrightarrow> ct_resps st = Inr resp # ct_resps st')"
proof -
  let ?st = "st\<lparr>ct_mechanism := ObserveHeader (ct_mechanism st) ch\<rparr>"
  obtain st1 a where a: "connect_auth env n ch ?st = (st1, a)" by fastforce
  then have st1: "ct_out st1 = ct_out st" "ct_opened st1 = ct_opened st" "ct_closed st1 = ct_closed st" "ct_resps st1 = ct_resps st"
    "ct_session st1 = None \<longleftrightarrow> ct_session st = None"
    by (auto simp: connect_auth_def split: option.splits prod.splits sum.splits)
  show ?thesis
    using assms a st1 by (cases "ct_resps st") (auto simp: connect_exchange_def Let_def split: sum.splits option.splits if_splits)
qed

lemma session_post:
  assumes "next_session env ch st = (st', r)"
  shows "ct_out st' = ct_out st \<and> ct_resps st' = ct_resps st \<and> ct_closed st' = ct_closed st
    \<and> (case r of Inr True \<Rightarrow> ct_session st = None \<and> ct_session st' \<noteq> None \<and> ct_opened st' = ct_opened st + 1
       | _ \<Rightarrow> (ct_session st' = None \<longleftrightarrow> ct_session st = None) \<and> ct_opened st' = ct_opened st)"
  using assms by (auto simp: next_session_def Let_def split: if_splits sum.splits)

lemma finish_post:
  "connect_finish resp st = (st', e) \<Longrightarrow> ct_out st' = ct_out st \<and> ct_resps st' = ct_resps st \<and> ct_closed st' = ct_closed st
     \<and> ct_opened st' = ct_opened st \<and> ct_session st' = ct_session st \<and> (e = None \<longleftrightarrow> cn_status resp div 100 = 2)"
  by (auto simp: connect_finish_def split: if_splits)

lemma close_post:
  "close_session env st err = (st', e) \<Longrightarrow> ct_session st \<noteq> None \<Longrightarrow>
     ct_out st' = ct_out st \<and> ct_resps st' = ct_resps st \<and> ct_closed st' = ct_closed st + 1 \<and> ct_opened st' = ct_opened st \<and> (e = None \<longrightarrow> err = None)"
  by (auto simp: close_session_def split: prod.splits option.splits if_splits)

text \<open>What an attempt does from a state: at most four requests in all, the session that it opens is closed,
  and it succeeds only with a response of class 2.\<close>

definition accepted :: "(neterr + connResponse) list \<Rightarrow> bool" where
  "accepted used \<longleftrightarrow> (case rev used of Inr resp # _ \<Rightarrow> cn_status resp div 100 = 2 | _ \<Rightarrow> False)"

definition attempt_post :: "nat \<Rightarrow> 'c connectState \<Rightarrow> 'c connectState \<Rightarrow> neterr option \<Rightarrow> bool" where
  "attempt_post n st st' err \<longleftrightarrow>
     length (ct_out st') + n \<le> length (ct_out st) + 4
     \<and> ct_opened st' + ct_closed st = ct_closed st' + ct_opened st
     \<and> (if ct_session st = None then ct_opened st' \<le> ct_opened st + 1 else ct_session st' \<noteq> None \<and> ct_opened st' = ct_opened st)
     \<and> (\<exists>used. ct_resps st = used @ ct_resps st' \<and> (err = None \<longrightarrow> accepted used))"

lemma accepted_append: "accepted used \<Longrightarrow> accepted (pre @ used)"
  by (auto simp: accepted_def split: list.splits sum.splits)

lemma attempt_after:
  assumes "ct_resps st = r # ct_resps st1" "length (ct_out st1) \<le> length (ct_out st) + 1"
    "ct_opened st1 = ct_opened st + k" "ct_closed st1 = ct_closed st + k" "attempt_post (Suc n) st1 st' err"
    "ct_session st = None \<Longrightarrow> ct_opened st' \<le> ct_opened st + 1"
    "ct_session st \<noteq> None \<Longrightarrow> ct_session st' \<noteq> None \<and> ct_opened st' = ct_opened st"
  shows "attempt_post n st st' err"
proof -
  from assms(5) obtain used where used: "ct_resps st1 = used @ ct_resps st'" "err = None \<longrightarrow> accepted used" by (auto simp: attempt_post_def)
  then have "ct_resps st = (r # used) @ ct_resps st'" "err = None \<longrightarrow> accepted (r # used)"
    using assms(1) accepted_append [of used "[r]"] by auto
  then show ?thesis using assms by (auto simp: attempt_post_def)
qed

lemma attempt_inv:
  "connect_attempt env ch n st = (st', err) \<Longrightarrow> n \<le> 3 \<Longrightarrow> attempt_post n st st' err"
proof (induction "3 - n" arbitrary: ch n st st' err rule: less_induct)
  case less
  note prems = less.prems
  have IH: "connect_attempt env ch (Suc n) st = (st', err) \<Longrightarrow> attempt_post (Suc n) st st' err" if "n < 3" for ch st st' err
    using less.hyps [of "Suc n" ch st st' err] that by simp
  obtain st1 r where ex: "connect_exchange env n ch st = (st1, r)" by fastforce
  note xp = exchange_post [OF ex]
  show ?case
  proof (cases r)
    case (Inl e)
    then have "st' = st1" "err = Some e" using prems(1) ex by (auto simp: connect_attempt.simps [of env ch n st])
    then show ?thesis using xp prems(2) by (auto simp: attempt_post_def)
  next
    case (Inr resp)
    then have resps: "ct_resps st = Inr resp # ct_resps st1" using xp by simp
    have fin: "attempt_post n st st' err" if "connect_finish resp (st1\<lparr>ct_auth := s\<rparr>) = (st', err)" for s
      using finish_post [OF that] xp resps prems(2) by (auto simp: attempt_post_def accepted_def intro!: exI [of _ "[Inr resp]"])
    have fin1: "attempt_post n st st' err" if "connect_finish resp st1 = (st', err)"
      using finish_post [OF that] xp resps prems(2) by (auto simp: attempt_post_def accepted_def intro!: exI [of _ "[Inr resp]"])
    show ?thesis
    proof (cases "cn_status resp = 407 \<and> n < 3")
      case False
      then show ?thesis using prems(1) ex Inr by (intro fin1) (auto simp: connect_attempt.simps [of env ch n st])
    next
      case again: True
      let ?nc = "next_challenge (ce_cfg env) resp"
      show ?thesis
      proof (cases "drainUpstream407Body (cn_body resp)")
        case (Some e)
        then have "st' = st1" "err = Some e" using prems(1) ex Inr again by (auto simp: connect_attempt.simps [of env ch n st])
        then show ?thesis using xp resps prems(2) by (auto simp: attempt_post_def)
      next
        case None
        obtain st2 c where ns: "next_session env ?nc st1 = (st2, c)" by fastforce
        note sp = session_post [OF ns]
        show ?thesis
        proof (cases c)
          case (Inl e)
          then have "st' = st2" "err = Some e" using prems(1) ex Inr again None ns by (auto simp: connect_attempt.simps [of env ch n st])
          then show ?thesis using xp resps sp Inl prems(2) by (auto simp: attempt_post_def)
        next
          case created: (Inr created)
          show ?thesis
          proof (cases "ct_session st2 = None")
            case nosess: False
            obtain st3 e3 where at: "connect_attempt env ?nc (Suc n) st2 = (st3, e3)" by fastforce
            note ap = IH [OF _ at]
            have res: "(st', err) = (if created then close_session env st3 e3 else (st3, e3))"
              using prems(1) ex Inr again None ns created nosess at by (simp add: connect_attempt.simps [of env ch n st])
            show ?thesis
            proof (cases created)
              case True
              with ap again nosess have s3: "ct_session st3 \<noteq> None" "ct_opened st3 = ct_opened st2" by (auto simp: attempt_post_def)
              from True res have "close_session env st3 e3 = (st', err)" by simp
              from close_post [OF this s3(1)] have cp: "ct_out st' = ct_out st3" "ct_resps st' = ct_resps st3" "ct_closed st' = Suc (ct_closed st3)"
                "ct_opened st' = ct_opened st3" "err = None \<longrightarrow> e3 = None" by auto
              from ap again obtain used where used: "ct_resps st2 = used @ ct_resps st3" "e3 = None \<longrightarrow> accepted used"
                by (auto simp: attempt_post_def)
              have "ct_resps st = (Inr resp # used) @ ct_resps st'" "err = None \<longrightarrow> accepted (Inr resp # used)"
                using resps sp used cp accepted_append [of used "[Inr resp]"] by auto
              then show ?thesis using ap xp sp cp created True again s3 nosess by (auto simp: attempt_post_def)
            next
              case False
              have ap': "attempt_post (Suc n) st2 st' err" using ap again res False by simp
              have sess: "ct_session st \<noteq> None" using xp sp created False nosess by auto
              show ?thesis
                by (rule attempt_after [where k = 0, OF _ _ _ _ ap'])
                   (use ap' xp sp created False nosess resps sess in \<open>auto simp: attempt_post_def\<close>)
            qed
          next
            case True
            obtain s a where up: "upstreamProxyAuthHeader (ce_hashes env) (ce_auth env n True) (ce_cfg env) (ct_auth st2) ''CONNECT''
                           (ce_target env) ?nc (ce_passthroughAuth env) = (s, a)" by fastforce
            have ncr: "\<not> created" "ct_session st = None" using sp created True xp by (cases created; auto)+
            show ?thesis
            proof (cases "a = []")
              case False
              then have at: "connect_attempt env ?nc (Suc n) (st2\<lparr>ct_auth := s\<rparr>) = (st', err)"
                using prems(1) ex Inr again None ns created True up by (simp add: connect_attempt.simps [of env ch n st])
              have ap: "attempt_post (Suc n) (st2\<lparr>ct_auth := s\<rparr>) st' err" using IH [OF _ at] again by simp
              show ?thesis
                by (rule attempt_after [where k = 0, OF _ _ _ _ ap])
                   (use ap xp sp created True resps ncr in \<open>auto simp: attempt_post_def\<close>)
            next
              case none: True
              then have "connect_finish resp (st2\<lparr>ct_auth := s\<rparr>) = (st', err)"
                using prems(1) ex Inr again None ns created True up by (simp add: connect_attempt.simps [of env ch n st])
              from finish_post [OF this] sp created ncr xp resps prems(2) show ?thesis
                by (auto simp: attempt_post_def accepted_def intro!: exI [of _ "[Inr resp]"])
            qed
          qed
        qed
      qed
    qed
  qed
qed

section \<open>Fallback over the candidates\<close>

text \<open>What one candidate meets: the results of the dial, of the TLS handshake, of the CONNECT handshake and of a
  SOCKS dial, and the context's error at the two places where it is read.\<close>

record dialAttempt =
  da_now :: gotime
  da_dial :: "neterr option"
  da_tls :: "neterr option"
  da_connect :: "neterr + string"
  da_socks :: "neterr option"
  da_ctx :: "neterr option"
  da_ctxAfter :: "neterr option"

text \<open>Whether the candidate left a connection, and the result with the tunnel bytes that were read already.\<close>

definition candidate_attempt :: "Server \<Rightarrow> dialAttempt \<Rightarrow> bool \<times> (neterr + string)" where
  "candidate_attempt p a =
     (let plain = (\<lambda>next. case da_dial a of Some e \<Rightarrow> (False, Inl e) | None \<Rightarrow> next) in
      if p = DirectServer then plain (True, Inr [])
      else if proxyScheme p = ''https'' then
        plain (case da_tls a of Some e \<Rightarrow> (True, Inl e) | None \<Rightarrow> (True, da_connect a))
      else if has_prefix (proxyScheme p) ''socks'' then
        (case da_socks a of Some e \<Rightarrow> (False, Inl e) | None \<Rightarrow> (True, Inr []))
      else plain (True, da_connect a))"

text \<open>The supervisor, the candidates that were tried, and the connections that were opened and closed.\<close>

record fallbackState =
  fb_sv :: "Supervisor option"
  fb_tried :: "Server list"
  fb_opened :: nat
  fb_closed :: nat

definition fallback_failed :: "Server \<Rightarrow> dialAttempt \<Rightarrow> bool \<Rightarrow> neterr \<Rightarrow> fallbackState \<Rightarrow> fallbackState" where
  "fallback_failed p a conn err st =
     (let kind = classifyProxyTransportOutcome (da_ctx a \<noteq> None) p err in
      st\<lparr>fb_sv := (if kind = OutcomeAuthExhausted then recordRuntimeOutcome (fb_sv st) (da_now a) kind p
                   else recoverRuntimeOutcome (fb_sv st) (da_now a) kind p),
         fb_closed := fb_closed st + (if conn then 1 else 0)\<rparr>)"

text \<open>The loop over the ordered candidates; \<open>attempts\<close> gives what the candidate at each position meets.\<close>

fun fallback_loop :: "(nat \<Rightarrow> dialAttempt) \<Rightarrow> nat \<Rightarrow> Server list \<Rightarrow> neterr option \<Rightarrow> fallbackState \<Rightarrow> fallbackState \<times> (neterr + Server \<times> string)" where
  "fallback_loop attempts i [] lastErr st =
     (st, Inl (case lastErr of Some e \<Rightarrow> e | None \<Rightarrow> msg ''no proxy candidates''))"
| "fallback_loop attempts i (p # ps) lastErr st =
     (let a = attempts i; (conn, r) = candidate_attempt p a;
          r = (case r of Inr leftover \<Rightarrow> (case da_ctx a of Some e \<Rightarrow> Inl e | None \<Rightarrow> Inr leftover) | Inl e \<Rightarrow> Inl e);
          st = st\<lparr>fb_tried := fb_tried st @ [p], fb_opened := fb_opened st + (if conn then 1 else 0)\<rparr>
      in case r of
           Inr leftover \<Rightarrow> (st\<lparr>fb_sv := recordRuntimeOutcome (fb_sv st) (da_now a) OutcomeSuccess p\<rparr>, Inr (p, leftover))
         | Inl err \<Rightarrow>
             let st = fallback_failed p a conn err st in
             (case da_ctxAfter a of Some e \<Rightarrow> (st, Inl e) | None \<Rightarrow> fallback_loop attempts (Suc i) ps (Some err) st))"

definition connectWithProxyFallbackDial ::
  "(nat \<Rightarrow> dialAttempt) \<Rightarrow> gotime \<Rightarrow> Supervisor option \<Rightarrow> Server list \<Rightarrow> fallbackState \<times> (neterr + Server \<times> string)" where
  "connectWithProxyFallbackDial attempts now sv proxies =
     (case orderProxyCandidates sv now proxies of
        (sv, ps) \<Rightarrow> fallback_loop attempts 0 ps None \<lparr>fb_sv = sv, fb_tried = [], fb_opened = 0, fb_closed = 0\<rparr>)"

lemma attempt_conn: "candidate_attempt p a = (conn, Inr x) \<Longrightarrow> conn"
  by (auto simp: candidate_attempt_def Let_def split: if_splits option.splits)

text \<open>What the loop does: it tries a prefix of the candidates in order, and the last one tried is the one
  it returns; every connection that it opened and does not return is closed.\<close>

lemma fallback_post:
  assumes "fallback_loop attempts i ps lastErr st = (st', r)"
  shows "\<exists>tried. prefix tried ps \<and> fb_tried st' = fb_tried st @ tried
    \<and> (case r of
         Inr (p, _) \<Rightarrow> tried \<noteq> [] \<and> last tried = p \<and> fb_opened st' + fb_closed st = fb_closed st' + fb_opened st + 1
       | Inl e \<Rightarrow> fb_opened st' + fb_closed st = fb_closed st' + fb_opened st
           \<and> (tried = ps \<or> (\<exists>j < length tried. da_ctxAfter (attempts (i + j)) = Some e)))"
  using assms
proof (induction ps arbitrary: i lastErr st)
  case Nil
  then show ?case by auto
next
  case (Cons p ps)
  let ?a = "attempts i"
  obtain conn r0 where c: "candidate_attempt p ?a = (conn, r0)" by fastforce
  define r1 where "r1 = (case r0 of Inr leftover \<Rightarrow> (case da_ctx ?a of Some e \<Rightarrow> Inl e | None \<Rightarrow> Inr leftover) | Inl e \<Rightarrow> Inl e)"
  define st1 where "st1 = st\<lparr>fb_tried := fb_tried st @ [p], fb_opened := fb_opened st + (if conn then 1 else 0)\<rparr>"
  have step: "fallback_loop attempts i (p # ps) lastErr st =
      (case r1 of Inr leftover \<Rightarrow> (st1\<lparr>fb_sv := recordRuntimeOutcome (fb_sv st1) (da_now ?a) OutcomeSuccess p\<rparr>, Inr (p, leftover))
       | Inl err \<Rightarrow> (case da_ctxAfter ?a of Some e \<Rightarrow> (fallback_failed p ?a conn err st1, Inl e)
           | None \<Rightarrow> fallback_loop attempts (Suc i) ps (Some err) (fallback_failed p ?a conn err st1)))"
    by (simp only: fallback_loop.simps Let_def c prod.case flip: r1_def st1_def)
  show ?case
  proof (cases r1)
    case (Inr leftover)
    then have "conn" using c by (auto simp: r1_def split: sum.splits option.splits intro: attempt_conn)
    with Inr Cons.prems step show ?thesis by (intro exI [of _ "[p]"]) (auto simp: st1_def)
  next
    case (Inl err)
    let ?st2 = "fallback_failed p ?a conn err st1"
    have st2: "fb_tried ?st2 = fb_tried st @ [p]" "fb_opened ?st2 + fb_closed st = fb_closed ?st2 + fb_opened st"
      by (auto simp: fallback_failed_def st1_def Let_def)
    show ?thesis
    proof (cases "da_ctxAfter ?a")
      case (Some e)
      with Inl Cons.prems step st2 show ?thesis by (intro exI [of _ "[p]"]) auto
    next
      case None
      with Inl Cons.prems step have rest: "fallback_loop attempts (Suc i) ps (Some err) ?st2 = (st', r)" by simp
      have ih: "\<exists>tried. prefix tried ps \<and> fb_tried st' = fb_tried ?st2 @ tried
        \<and> (case r of
             Inr (p, _) \<Rightarrow> tried \<noteq> [] \<and> last tried = p \<and> fb_opened st' + fb_closed ?st2 = fb_closed st' + fb_opened ?st2 + 1
           | Inl e \<Rightarrow> fb_opened st' + fb_closed ?st2 = fb_closed st' + fb_opened ?st2
               \<and> (tried = ps \<or> (\<exists>j < length tried. da_ctxAfter (attempts (Suc i + j)) = Some e)))"
        by (rule Cons.IH [OF rest])
      then obtain tried where t: "prefix tried ps" "fb_tried st' = fb_tried ?st2 @ tried"
        "case r of
             Inr (p, _) \<Rightarrow> tried \<noteq> [] \<and> last tried = p \<and> fb_opened st' + fb_closed ?st2 = fb_closed st' + fb_opened ?st2 + 1
           | Inl e \<Rightarrow> fb_opened st' + fb_closed ?st2 = fb_closed st' + fb_opened ?st2
               \<and> (tried = ps \<or> (\<exists>j < length tried. da_ctxAfter (attempts (Suc i + j)) = Some e))" by blast
      have shift: "(\<exists>j < length tried. da_ctxAfter (attempts (Suc i + j)) = Some e) \<Longrightarrow>
          (\<exists>j < length (p # tried). da_ctxAfter (attempts (i + j)) = Some e)" for e
      proof (elim exE conjE)
        fix j
        assume "j < length tried" "da_ctxAfter (attempts (Suc i + j)) = Some e"
        then show "\<exists>j < length (p # tried). da_ctxAfter (attempts (i + j)) = Some e" by (intro exI [of _ "Suc j"]) simp
      qed
      show ?thesis
        using t st2 shift by (intro exI [of _ "p # tried"]) (auto split: sum.splits prod.splits)
    qed
  qed
qed

section \<open>Properties\<close>

text \<open>C26: The CONNECT handshake with an upstream proxy ends after at most four requests, whatever the proxy
  answers. It opens at most one authentication session, and that session is closed when the handshake
  returns, on every path. It succeeds only if the last response that it read is of class 2.\<close>

theorem connect_auth_bounded:
  "case sendUpstreamConnect env resps s buffered of (st, r) \<Rightarrow>
     length (ct_out st) \<le> 4 \<and> ct_opened st \<le> 1 \<and> ct_closed st = ct_opened st
     \<and> (\<exists>used. resps = used @ ct_resps st \<and> (isl r \<or> accepted used))"
proof -
  obtain st e where a: "connect_attempt env [] 0 (new_connect resps s) = (st, e)" by fastforce
  have "sendUpstreamConnect env resps s buffered = (st, case e of Some e \<Rightarrow> Inl e | None \<Rightarrow> Inr buffered)"
    by (cases e) (simp_all add: sendUpstreamConnect_def a)
  moreover have "length (ct_out st) \<le> 4 \<and> ct_opened st \<le> 1 \<and> ct_closed st = ct_opened st
      \<and> (\<exists>used. resps = used @ ct_resps st \<and> (e = None \<longrightarrow> accepted used))"
    using attempt_inv [OF a] by (auto simp: attempt_post_def new_connect_def)
  ultimately show ?thesis by (auto split: option.splits)
qed

text \<open>The fallback over the candidates of a route tries them in the supervisor's order, without skipping,
  and returns the connection of the last one that it tried, or an error. An error means that every
  candidate was tried or that the request was cancelled. No connection leaks: each one that was opened
  is closed, except the one that is returned.\<close>

theorem connect_fallback_no_leak:
  assumes "connectWithProxyFallbackDial attempts now (Some sv) proxies = (st, r)"
  shows "prefix (map supervisorCandidate (fb_tried st)) (snd (Order sv now (map supervisorCandidate proxies)))
    \<and> set (fb_tried st) \<subseteq> set proxies
    \<and> (case r of
         Inr (p, _) \<Rightarrow> fb_tried st \<noteq> [] \<and> last (fb_tried st) = p \<and> fb_opened st = fb_closed st + 1
       | Inl e \<Rightarrow> fb_opened st = fb_closed st
           \<and> (length (fb_tried st) = length proxies \<or> (\<exists>j < length (fb_tried st). da_ctxAfter (attempts j) = Some e)))"
proof -
  obtain sv' ps where o: "orderProxyCandidates (Some sv) now proxies = (sv', ps)" by fastforce
  from order_refines [OF o] have ps: "mset ps = mset proxies"
    "map supervisorCandidate ps = snd (Order sv now (map supervisorCandidate proxies))" by auto
  from assms o have "fallback_loop attempts 0 ps None \<lparr>fb_sv = sv', fb_tried = [], fb_opened = 0, fb_closed = 0\<rparr> = (st, r)"
    by (simp add: connectWithProxyFallbackDial_def)
  from fallback_post [OF this] obtain tried where t: "prefix tried ps" "fb_tried st = tried"
    "case r of Inr (p, _) \<Rightarrow> tried \<noteq> [] \<and> last tried = p \<and> fb_opened st = fb_closed st + 1
       | Inl e \<Rightarrow> fb_opened st = fb_closed st \<and> (tried = ps \<or> (\<exists>j < length tried. da_ctxAfter (attempts j) = Some e))" by (cases r) auto
  have "length ps = length proxies" "set ps = set proxies" using ps(1) by (metis size_mset, metis set_mset_mset)
  with t ps set_mono_prefix [OF t(1)] map_mono_prefix [OF t(1), of supervisorCandidate] show ?thesis
    by (auto split: sum.splits prod.splits)
qed

definition ex_attempt :: "nat \<Rightarrow> dialAttempt" where
  "ex_attempt i = \<lparr>da_now = 10, da_dial = None, da_tls = None,
     da_connect = (if i = 0 then Inl (NetErr (EK_ConnectStatus 502 ''502'') []) else Inr ''banner''),
     da_socks = None, da_ctx = None, da_ctxAfter = None\<rparr>"

definition ex_pair :: "Server list" where
  "ex_pair = [\<lparr>srv_Host = ''a'', srv_Port = 1, srv_Scheme = ''http''\<rparr>, \<lparr>srv_Host = ''b'', srv_Port = 2, srv_Scheme = ''http''\<rparr>]"

theorem connect_fallback_no_leak_witness:
  "\<exists>st. connectWithProxyFallbackDial ex_attempt 5 (Some (newWithClock [])) ex_pair = (st, Inr (last ex_pair, ''banner''))
    \<and> last (fb_tried st) = last ex_pair \<and> fb_opened st = fb_closed st + 1"
proof -
  let ?r = "connectWithProxyFallbackDial ex_attempt 5 (Some (newWithClock [])) ex_pair"
  have "snd ?r = Inr (last ex_pair, ''banner'')" by code_simp
  then have r: "?r = (fst ?r, Inr (last ex_pair, ''banner''))" by (metis prod.collapse)
  from connect_fallback_no_leak [OF r] r show ?thesis by (intro exI [of _ "fst ?r"]) auto
qed

text \<open>A defect: the header for a retry is computed once to decide about the retry and once more for the request,
  from the state that the first computation left. For Digest each computation counts the nonce, so the
  first request that answers a challenge carries the nonce count 2, where RFC 7616 requires 1.\<close>

lemma retry_recomputes:
  assumes "connect_exchange env n ch st = (st1, Inr resp)" "cn_status resp = 407" "n < 3" "drainUpstream407Body (cn_body resp) = None"
    and "next_session env (next_challenge (ce_cfg env) resp) st1 = (st2, Inr False)" "ct_session st2 = None"
    and "upstreamProxyAuthHeader (ce_hashes env) (ce_auth env n True) (ce_cfg env) (ct_auth st2) ''CONNECT''
      (ce_target env) (next_challenge (ce_cfg env) resp) (ce_passthroughAuth env) = (s, auth)" "auth \<noteq> []"
  shows "connect_attempt env ch n st = connect_attempt env (next_challenge (ce_cfg env) resp) (Suc n) (st2\<lparr>ct_auth := s\<rparr>)"
  using assms by (subst connect_attempt.simps) simp

definition ex_digest_config :: upstreamConfig where
  "ex_digest_config = \<lparr>Auth = ''DIGEST'', Username = ''u'', Password = ''p'', Kerberos = False, GOOS = ''linux''\<rparr>"

definition ex_answer :: "authState \<Rightarrow> authState \<times> string" where
  "ex_answer s = upstreamProxyAuthHeader ex_hashes ex_env ex_digest_config s ''CONNECT'' ''h:443'' ''Digest realm=r, nonce=n, qop=auth'' []"

lemma connect_digest_count_skips_one:
  "param (parseAuthParams (drop 7 (snd (ex_answer ex_state)))) ''nc'' = ''00000001''
   \<and> param (parseAuthParams (drop 7 (snd (ex_answer (fst (ex_answer ex_state)))))) ''nc'' = ''00000002''"
  by code_simp

end
