(* ===== verification/Proxy_Retry.thy ===== *)
theory Proxy_Retry
  imports Proxy_Connect Proxy_Transports
begin

text \<open>
  Plain HTTP requests through upstream proxies: the retries after a 407 response,
  \<^verbatim>\<open>retryHTTPProxyAuthWithPool\<close> of \<^verbatim>\<open>internal/proxy/auth_upstream.go\<close>, the keys of the pooled transports,
  \<^verbatim>\<open>internal/proxy/transport.go\<close>, and the fallback over candidates, \<^verbatim>\<open>roundTripHTTPWithProxyFallback\<close> of
  \<^verbatim>\<open>internal/proxy/proxy.go\<close>.

  The answers of the round trips are a list, with the error that follows them. What the code does with locks,
  response bodies and sessions is counted: \<open>hs_held\<close> mutexes held, \<open>hs_bodies\<close> response bodies open,
  \<open>hs_opened\<close> and \<open>hs_closed\<close> sessions. \<open>hs_sent\<close> records the transport and the Proxy-Authorization value of
  every request that was sent. A pooled entry may have been authenticated by another request when its lock is
  obtained: that is an input.
\<close>

section \<open>Transports\<close>

definition proxyTransportRouteKey :: "Server \<Rightarrow> string" where
  "proxyTransportRouteKey p =
     (if p = DirectServer then ''direct''
      else to_lower (trim_space (proxyScheme p)) @ ''://'' @ JoinHostPort (to_lower (trim_space (srv_Host p))) (itoa (srv_Port p)))"

definition connectionAuthTransportKey :: "Server \<Rightarrow> string \<Rightarrow> string \<Rightarrow> string" where
  "connectionAuthTransportKey p identity scheme =
     ''auth|'' @ to_upper (trim_space scheme) @ ''|'' @ identity @ ''|'' @ proxyTransportRouteKey p"

fun first_cached :: "boundedTransportCache \<Rightarrow> Server \<Rightarrow> string \<Rightarrow> string list \<Rightarrow> (nat \<times> string) option" where
  "first_cached c p identity [] = None"
| "first_cached c p identity (scheme # schemes) =
     (if \<not> isConnectionAuth scheme then first_cached c p identity schemes
      else case transport_get c (connectionAuthTransportKey p identity scheme) of
        Some e \<Rightarrow> Some (e, scheme)
      | None \<Rightarrow> first_cached c p identity schemes)"

definition cachedConnectionAuthTransport :: "upstreamConfig \<Rightarrow> boundedTransportCache \<Rightarrow> Server \<Rightarrow> string \<Rightarrow> (nat \<times> string) option" where
  "cachedConnectionAuthTransport cfg c p identity =
     (if identity = [] then None else first_cached c p identity (upstreamAuthModes (effectiveUpstreamAuth cfg)))"

text \<open>The transport of a route, shared by all its requests; one that belongs to an identity and holds at most
  one connection; and one made for this request alone.\<close>

datatype transportRef = SharedRoute string | PooledAuth nat | Ephemeral

definition routeTransport :: "Server \<Rightarrow> transportRef" where
  "routeTransport p = SharedRoute (''route|'' @ proxyTransportRouteKey p)"

definition pinned :: "transportRef \<Rightarrow> bool" where
  "pinned t \<longleftrightarrow> (case t of SharedRoute _ \<Rightarrow> False | _ \<Rightarrow> True)"

section \<open>State\<close>

text \<open>A pooled entry with its key and its scheme.\<close>

type_synonym pooledEntry = "nat \<times> string \<times> string"

record 'c retryEnv =
  he_cfg :: upstreamConfig
  he_hashes :: hashes
  he_auth :: "nat \<Rightarrow> upstreamEnv"
  he_method :: string
  he_target :: string
  he_proxyHost :: string
  he_passthroughAuth :: string
  he_candidate :: Server
  he_identity :: string
  he_manager :: "(string \<Rightarrow> goerr + byte list) option"
  he_windows :: bool
  he_sspiFactory :: "string \<Rightarrow> string \<Rightarrow> goerr + 'c sspiSession"
  he_native :: "'c nativeSSPI"
  he_openErr :: "nat \<Rightarrow> neterr option"
  he_authenticated :: "nat \<Rightarrow> bool"
  he_streamed :: bool
  he_tripErr :: neterr

record 'c httpState =
  hs_cache :: boundedTransportCache
  hs_authed :: "(nat, bool) gomap"
  hs_trips :: "(neterr + connResponse) list"
  hs_sent :: "(transportRef \<times> string) list"
  hs_bodies :: int
  hs_held :: int
  hs_locked :: "nat option"
  hs_active :: "pooledEntry option"
  hs_ephemeral :: bool
  hs_transport :: transportRef
  hs_session :: "'c authSess option"
  hs_opened :: nat
  hs_closed :: nat
  hs_auth :: authState
  hs_mechanism :: string
  hs_attempted :: bool
  hs_tracker :: string
  hs_reloads :: nat

definition lockPooled :: "nat option \<Rightarrow> 'c httpState \<Rightarrow> 'c httpState" where
  "lockPooled entry st =
     (if hs_locked st = entry then st
      else st\<lparr>hs_held := hs_held st - (if hs_locked st = None then 0 else 1) + (if entry = None then 0 else 1), hs_locked := entry\<rparr>)"

definition removePooled :: "'c httpState \<Rightarrow> 'c httpState" where
  "removePooled st =
     (case hs_active st of
        None \<Rightarrow> st
      | Some (e, key, _) \<Rightarrow> st\<lparr>hs_cache := fst (transport_remove (hs_cache st) key (Some e))\<rparr>)"

definition set_authenticated :: "bool \<Rightarrow> 'c httpState \<Rightarrow> 'c httpState" where
  "set_authenticated b st =
     (case hs_active st of None \<Rightarrow> st | Some (e, _) \<Rightarrow> st\<lparr>hs_authed := gm_put e b (hs_authed st)\<rparr>)"

definition close_body :: "'c httpState \<Rightarrow> 'c httpState" where
  "close_body st = st\<lparr>hs_bodies := hs_bodies st - 1\<rparr>"

definition RoundTrip :: "'c retryEnv \<Rightarrow> string \<Rightarrow> 'c httpState \<Rightarrow> 'c httpState \<times> (neterr + connResponse)" where
  "RoundTrip env auth st =
     (let st = st\<lparr>hs_sent := hs_sent st @ [(hs_transport st, auth)]\<rparr> in
      case hs_trips st of
        [] \<Rightarrow> (st, Inl (he_tripErr env))
      | Inl e # ts \<Rightarrow> (st\<lparr>hs_trips := ts\<rparr>, Inl e)
      | Inr r # ts \<Rightarrow> (st\<lparr>hs_trips := ts, hs_bodies := hs_bodies st + 1\<rparr>, Inr r))"

definition forceKerberosReload :: "'c retryEnv \<Rightarrow> connResponse \<Rightarrow> 'c httpState \<Rightarrow> 'c httpState" where
  "forceKerberosReload env resp st =
     (if he_manager env = None \<or> cn_status resp \<noteq> 407 then st
      else if findProxyAuthenticateChallenge (cn_challenges resp) authNegotiate = [] then st
      else st\<lparr>hs_reloads := hs_reloads st + 1\<rparr>)"

section \<open>One attempt\<close>

text \<open>The choice of a transport for a connection-oriented scheme; the result is whether the entry turned out to
  be authenticated already.\<close>

definition retire_scheme :: "string \<Rightarrow> 'c httpState \<Rightarrow> 'c httpState" where
  "retire_scheme scheme st =
     (case hs_active st of
        Some (e, key, sch) \<Rightarrow>
          if \<not> equal_fold sch scheme then (lockPooled None (removePooled st))\<lparr>hs_active := None\<rparr> else st
      | None \<Rightarrow> st)"

definition connectionAuthTransportForChallenge :: "'c retryEnv \<Rightarrow> string \<Rightarrow> 'c httpState \<Rightarrow> 'c httpState \<times> pooledEntry" where
  "connectionAuthTransportForChallenge env scheme st =
     (let key = connectionAuthTransportKey (he_candidate env) (he_identity env) scheme in
      case transport_get (hs_cache st) key of
        Some e \<Rightarrow> (st, (e, key, to_upper (trim_space scheme)))
      | None \<Rightarrow> (case transport_insert (hs_cache st) key of (c, e) \<Rightarrow> (st\<lparr>hs_cache := c\<rparr>, (e, key, to_upper (trim_space scheme)))))"

definition choose_transport :: "'c retryEnv \<Rightarrow> nat \<Rightarrow> string \<Rightarrow> 'c httpState \<Rightarrow> 'c httpState \<times> bool" where
  "choose_transport env n scheme st =
     (if \<not> isConnectionAuth scheme then (st, False)
      else
        let st = retire_scheme scheme st in
        case hs_active st of
          Some (e, _) \<Rightarrow> (st\<lparr>hs_transport := PooledAuth e\<rparr>, False)
        | None \<Rightarrow>
            if he_identity env \<noteq> [] \<and> he_candidate env \<noteq> DirectServer then
              (case connectionAuthTransportForChallenge env scheme st of
                 (st, entry) \<Rightarrow>
                   (set_authenticated (he_authenticated env n)
                      (lockPooled (Some (fst entry)) (st\<lparr>hs_active := Some entry, hs_transport := PooledAuth (fst entry)\<rparr>)),
                    he_authenticated env n))
            else if \<not> hs_ephemeral st then (st\<lparr>hs_ephemeral := True, hs_transport := Ephemeral\<rparr>, False)
            else (st, False))"

definition sess_negotiate :: "'c authSess \<Rightarrow> 'c authSess \<times> (goerr + string)" where
  "sess_negotiate s =
     (case s of
        SspiSession x \<Rightarrow> (case sspi_Negotiate x of (x, r) \<Rightarrow> (SspiSession x, r))
      | KerberosSession x \<Rightarrow> (case kerberos_Negotiate x of (x, r) \<Rightarrow> (KerberosSession x, r)))"

definition begin_session :: "'c httpState \<Rightarrow> 'c authSess \<Rightarrow> string \<Rightarrow> 'c httpState \<times> (neterr + string option)" where
  "begin_session st s what =
     (case sess_negotiate s of
        (s, r) \<Rightarrow>
          (st\<lparr>hs_session := Some s, hs_opened := hs_opened st + 1\<rparr>,
           case r of Inl e \<Rightarrow> Inl (NetErr (EK_Message what) [msg ''session'']) | Inr auth \<Rightarrow> Inr (Some auth)))"

text \<open>The first answer of a new session; \<open>Inr None\<close> when no session applies.\<close>

definition startUpstreamAuthSession ::
  "'c retryEnv \<Rightarrow> string \<Rightarrow> connResponse \<Rightarrow> 'c httpState \<Rightarrow> 'c httpState \<times> (neterr + string option)" where
  "startUpstreamAuthSession env challenge resp st =
     (if isUnixKerberosCandidate (he_cfg env) challenge then
        (let st = st\<lparr>hs_mechanism := ObserveMechanism (hs_mechanism st) authMechanismKerberos\<rparr> in
         case newKerberosAuthSession (he_manager env) (he_proxyHost env) of
           Inl e \<Rightarrow> (forceKerberosReload env resp st, Inl (NetErr (EK_Message ''start Kerberos SPNEGO proxy authentication'') [msg ''session'']))
         | Inr s \<Rightarrow> begin_session st (KerberosSession s) ''start Kerberos SPNEGO negotiation'')
      else if he_windows env \<and> isWindowsSSPICandidate (he_cfg env) challenge then
        (case he_sspiFactory env challenge (he_proxyHost env) of
           Inl e \<Rightarrow> (st, Inl (NetErr (EK_Message ''start SSPI proxy authentication'') [msg ''session'']))
         | Inr s \<Rightarrow> begin_session st (SspiSession s) ''start SSPI proxy negotiation'')
      else (st, Inr None))"

definition retry_auth :: "'c retryEnv \<Rightarrow> nat \<Rightarrow> string \<Rightarrow> connResponse \<Rightarrow> 'c httpState \<Rightarrow> 'c httpState \<times> (neterr + string)" where
  "retry_auth env n challenge resp st =
     (case hs_session st of
        Some s \<Rightarrow>
          (case sess_auth (he_native env) s challenge of
             (s, Inl e) \<Rightarrow> (st\<lparr>hs_session := Some s\<rparr>, Inl (NetErr (EK_Message ''continue upstream proxy authentication'') [msg ''session'']))
           | (s, Inr auth) \<Rightarrow> (st\<lparr>hs_session := Some s\<rparr>, Inr auth))
      | None \<Rightarrow>
          (case startUpstreamAuthSession env challenge resp st of
             (st, Inl e) \<Rightarrow> (st, Inl e)
           | (st, Inr (Some auth)) \<Rightarrow> (st, Inr auth)
           | (st, Inr None) \<Rightarrow>
               (case upstreamProxyAuthHeader (he_hashes env) (he_auth env n) (he_cfg env) (hs_auth st) (he_method env)
                  (he_target env) challenge (he_passthroughAuth env) of
                  (s, auth) \<Rightarrow> (st\<lparr>hs_auth := s\<rparr>, Inr auth))))"

text \<open>The 407 response is read and closed, and the request is sent again with \<open>auth\<close>. Closing the idle
  connections of a transport of its own has no effect on the state.\<close>

definition resend :: "'c retryEnv \<Rightarrow> nat \<Rightarrow> string \<Rightarrow> connResponse \<Rightarrow> 'c httpState \<Rightarrow> 'c httpState \<times> (neterr + connResponse)" where
  "resend env n auth resp st =
     (case drainUpstream407Body (cn_body resp) of
        Some e \<Rightarrow> (removePooled (close_body st), Inl e)
      | None \<Rightarrow>
          (case he_openErr env n of
             Some e \<Rightarrow> ((if auth = [] then id else removePooled) (close_body st), Inl e)
           | None \<Rightarrow>
               (case RoundTrip env auth (close_body st) of
                  (st, Inl e) \<Rightarrow> (removePooled st, Inl e)
                | (st, Inr r) \<Rightarrow> (st, Inr r))))"

section \<open>The loop\<close>

function retry_loop :: "'c retryEnv \<Rightarrow> nat \<Rightarrow> connResponse \<Rightarrow> 'c httpState \<Rightarrow> 'c httpState \<times> (neterr + connResponse)" where
  "retry_loop env n resp st =
     (if \<not> (n < 3 \<and> cn_status resp = 407) then
        (let st = forceKerberosReload env resp st in (if cn_status resp = 407 then removePooled st else st, Inr resp))
      else
        let challenge = selectProxyAuthenticateChallenge (effectiveUpstreamAuth (he_cfg env)) (cn_challenges resp);
            st = st\<lparr>hs_mechanism := ObserveHeader (hs_mechanism st) challenge\<rparr>
        in case choose_transport env n (authSchemeFromChallenge challenge) st of
             (st, True) \<Rightarrow>
               (case resend env n [] resp st of
                  (st, Inl e) \<Rightarrow> (st, Inl e)
                | (st, Inr r) \<Rightarrow> if cn_status r \<noteq> 407 then (st, Inr r) else retry_loop env (n + 1) r (set_authenticated False st))
           | (st, False) \<Rightarrow>
               (case retry_auth env n challenge resp st of
                  (st, Inl e) \<Rightarrow> (removePooled (close_body st), Inl e)
                | (st, Inr auth) \<Rightarrow>
                    if auth = [] then (removePooled (forceKerberosReload env resp st), Inr resp)
                    else
                      (case resend env n auth resp (st\<lparr>hs_mechanism := ObserveHeader (hs_mechanism st) auth, hs_attempted := True\<rparr>) of
                         (st, Inl e) \<Rightarrow> (st, Inl e)
                       | (st, Inr r) \<Rightarrow> retry_loop env (n + 1) r (set_authenticated (cn_status r \<noteq> 407) st))))"
  by pat_completeness auto
termination
  by (relation "measure (\<lambda>(_, n, _, _). 3 - n)") auto

declare retry_loop.simps [simp del]

text \<open>The deferred function.\<close>

definition retry_deferred :: "'c retryEnv \<Rightarrow> 'c httpState \<times> (neterr + connResponse) \<Rightarrow> 'c httpState \<times> (neterr + connResponse)" where
  "retry_deferred env result =
     (case result of (st, ret) \<Rightarrow>
        let st = lockPooled None st;
            (st, ret) =
              (case hs_session st of
                 None \<Rightarrow> (st, ret)
               | Some s \<Rightarrow>
                   (case sess_close (he_native env) s of
                      (s, closeErr) \<Rightarrow>
                        let st = st\<lparr>hs_session := Some s, hs_closed := hs_closed st + 1\<rparr> in
                        if closeErr \<noteq> None \<and> \<not> isl ret
                        then (removePooled (close_body st), Inl (NetErr (EK_Message ''close upstream auth session'') [msg ''session'']))
                        else (st, ret)))
        in (st\<lparr>hs_tracker := recordSuccessfulAuthMechanism (hs_tracker st) (case ret of Inl _ \<Rightarrow> None | Inr r \<Rightarrow> Some (cn_status r))
               (case ret of Inl _ \<Rightarrow> Some (ErrMsg ''error'') | Inr _ \<Rightarrow> None) (hs_attempted st) (hs_mechanism st)\<rparr>, ret))"

text \<open>\<open>pooled\<close> is the entry that the 407 came through, locked already if \<open>alreadyLocked\<close>. A body that was streamed
  cannot be sent again.\<close>

definition retryHTTPProxyAuthWithPool ::
  "'c retryEnv \<Rightarrow> pooledEntry option \<Rightarrow> bool \<Rightarrow> connResponse \<Rightarrow> 'c httpState \<Rightarrow> 'c httpState \<times> (neterr + connResponse)" where
  "retryHTTPProxyAuthWithPool env pooled alreadyLocked resp st =
     (let st = st\<lparr>hs_active := pooled, hs_ephemeral := False, hs_session := None, hs_mechanism := [], hs_attempted := False,
                  hs_locked := (if alreadyLocked then map_option fst pooled else None)\<rparr> in
      if he_streamed env then
        (forceKerberosReload env resp
          (removePooled (lockPooled None (set_authenticated False (if alreadyLocked then st else lockPooled (map_option fst pooled) st)))), Inr resp)
      else
        retry_deferred env
          (retry_loop env 0 resp (set_authenticated False (if alreadyLocked then st else lockPooled (map_option fst pooled) st))))"

section \<open>Invariant of the retries\<close>

text \<open>A request is safe if a connection-oriented answer in it goes over a transport that no other identity
  uses, where only the client's own header, passed through under NONE, may go over the shared transport; and if
  it carries no Proxy-Authorization when it goes straight to the origin server.\<close>

definition safe_sent :: "'c retryEnv \<Rightarrow> transportRef \<times> string \<Rightarrow> bool" where
  "safe_sent env x \<longleftrightarrow>
     (pinned (fst x) \<or> \<not> isConnectionAuth (authSchemeFromChallenge (snd x))
      \<or> upstreamAuthModes (effectiveUpstreamAuth (he_cfg env)) = [] \<and> snd x = he_passthroughAuth env)
     \<and> (fst x = routeTransport DirectServer \<longrightarrow> snd x = [])"

definition retry_ok :: "'c retryEnv \<Rightarrow> 'c httpState \<Rightarrow> bool" where
  "retry_ok env st \<longleftrightarrow> hs_held st = (if hs_locked st = None then 0 else 1) \<and> hs_locked st = map_option fst (hs_active st)
     \<and> (hs_session st \<noteq> None \<or> hs_ephemeral st \<longrightarrow> pinned (hs_transport st)) \<and> hs_transport st \<noteq> routeTransport DirectServer
     \<and> hs_opened st = hs_closed st + (if hs_session st = None then 0 else 1) \<and> list_all (safe_sent env) (hs_sent st)"

lemma pinned_not_direct [simp]: "PooledAuth e \<noteq> routeTransport p" "Ephemeral \<noteq> routeTransport p"
  by (simp_all add: routeTransport_def)

lemmas small_steps = lockPooled_def removePooled_def set_authenticated_def close_body_def forceKerberosReload_def

lemma removePooled_fields [simp]:
  "retry_ok env (removePooled st) = retry_ok env st" "hs_bodies (removePooled st) = hs_bodies st" "hs_sent (removePooled st) = hs_sent st"
  "hs_closed (removePooled st) = hs_closed st" "hs_held (removePooled st) = hs_held st" "hs_locked (removePooled st) = hs_locked st"
  "hs_session (removePooled st) = hs_session st" "hs_opened (removePooled st) = hs_opened st"
  by (auto simp: removePooled_def retry_ok_def split: option.splits)

lemma set_authenticated_fields [simp]:
  "retry_ok env (set_authenticated b st) = retry_ok env st" "hs_bodies (set_authenticated b st) = hs_bodies st"
  "hs_sent (set_authenticated b st) = hs_sent st" "hs_closed (set_authenticated b st) = hs_closed st"
  "hs_transport (set_authenticated b st) = hs_transport st" "hs_session (set_authenticated b st) = hs_session st"
  by (auto simp: set_authenticated_def retry_ok_def split: option.splits)

lemma retry_ok_update [simp]:
  "retry_ok env (st\<lparr>hs_mechanism := m\<rparr>) = retry_ok env st" "retry_ok env (st\<lparr>hs_attempted := a\<rparr>) = retry_ok env st"
  "retry_ok env (st\<lparr>hs_auth := s\<rparr>) = retry_ok env st"
  by (simp_all add: retry_ok_def)

lemma set_authenticated_counts [simp]:
  "hs_held (set_authenticated b st) = hs_held st" "hs_opened (set_authenticated b st) = hs_opened st"
  "hs_locked (set_authenticated b st) = hs_locked st"
  by (auto simp: set_authenticated_def split: option.splits)

lemma lockPooled_fields [simp]:
  "hs_bodies (lockPooled e st) = hs_bodies st" "hs_sent (lockPooled e st) = hs_sent st" "hs_closed (lockPooled e st) = hs_closed st"
  "hs_transport (lockPooled e st) = hs_transport st" "hs_session (lockPooled e st) = hs_session st" "hs_opened (lockPooled e st) = hs_opened st"
  "hs_active (lockPooled e st) = hs_active st" "hs_locked (lockPooled e st) = e" "hs_ephemeral (lockPooled e st) = hs_ephemeral st"
  by (auto simp: lockPooled_def)

lemma lockPooled_held: "hs_held st = (if hs_locked st = None then 0 else 1) \<Longrightarrow> hs_held (lockPooled e st) = (if e = None then 0 else 1)"
  by (simp add: lockPooled_def)

lemma reload_fields [simp]:
  "retry_ok env (forceKerberosReload env resp st) = retry_ok env st" "hs_bodies (forceKerberosReload env resp st) = hs_bodies st"
  "hs_sent (forceKerberosReload env resp st) = hs_sent st" "hs_closed (forceKerberosReload env resp st) = hs_closed st"
  "hs_transport (forceKerberosReload env resp st) = hs_transport st" "hs_session (forceKerberosReload env resp st) = hs_session st"
  by (auto simp: forceKerberosReload_def retry_ok_def)

lemma close_body_fields [simp]:
  "retry_ok env (close_body st) = retry_ok env st" "hs_bodies (close_body st) = hs_bodies st - 1" "hs_sent (close_body st) = hs_sent st"
  "hs_closed (close_body st) = hs_closed st" "hs_transport (close_body st) = hs_transport st" "hs_active (close_body st) = hs_active st"
  by (auto simp: close_body_def retry_ok_def)

lemma retire_post:
  assumes "retry_ok env st"
  shows "retry_ok env (retire_scheme sch st) \<and> hs_bodies (retire_scheme sch st) = hs_bodies st \<and> hs_sent (retire_scheme sch st) = hs_sent st
    \<and> hs_closed (retire_scheme sch st) = hs_closed st"
  using assms by (auto simp: retire_scheme_def lockPooled_def removePooled_def retry_ok_def split: option.splits)

lemma choose_post:
  assumes "choose_transport env n sch st = (st', b)" "retry_ok env st"
  shows "retry_ok env st' \<and> hs_bodies st' = hs_bodies st \<and> hs_sent st' = hs_sent st \<and> hs_closed st' = hs_closed st
    \<and> (isConnectionAuth sch \<longrightarrow> pinned (hs_transport st'))"
proof (cases "isConnectionAuth sch")
  case True
  let ?st = "retire_scheme sch st"
  note r = retire_post [OF assms(2), of sch]
  show ?thesis
  proof (cases "hs_active ?st")
    case None
    show ?thesis
    proof (cases "he_identity env \<noteq> [] \<and> he_candidate env \<noteq> DirectServer")
      case id: True
      obtain st1 entry where e: "connectionAuthTransportForChallenge env sch ?st = (st1, entry)"
        by (cases "connectionAuthTransportForChallenge env sch ?st")
      then obtain c where st1: "st1 = ?st\<lparr>hs_cache := c\<rparr>"
        by (auto simp: connectionAuthTransportForChallenge_def Let_def split: option.splits prod.splits) (metis httpState.surjective httpState.update_convs(1))
      have "st' = set_authenticated (he_authenticated env n)
          (lockPooled (Some (fst entry)) (st1\<lparr>hs_active := Some entry, hs_transport := PooledAuth (fst entry)\<rparr>))"
        using assms(1) True None id e by (auto simp: choose_transport_def)
      moreover have "hs_locked ?st = None" using r None by (simp add: retry_ok_def)
      then have "retry_ok env (lockPooled (Some (fst entry)) (st1\<lparr>hs_active := Some entry, hs_transport := PooledAuth (fst entry)\<rparr>))"
        using r by (auto simp: st1 retry_ok_def lockPooled_def pinned_def)
      ultimately show ?thesis using r by (simp add: st1 pinned_def)
    next
      case False
      with assms(1) True None have "st' = (if hs_ephemeral ?st then ?st else ?st\<lparr>hs_ephemeral := True, hs_transport := Ephemeral\<rparr>)"
        by (auto simp: choose_transport_def split: if_splits)
      moreover have "pinned Ephemeral" by (simp add: pinned_def)
      moreover have "hs_ephemeral ?st \<longrightarrow> pinned (hs_transport ?st)" using r by (simp add: retry_ok_def)
      moreover have "retry_ok env (?st\<lparr>hs_ephemeral := True, hs_transport := Ephemeral\<rparr>)"
        using conjunct1 [OF r] by (simp add: retry_ok_def pinned_def)
      ultimately show ?thesis using r by simp
    qed
  next
    case (Some a)
    with assms(1) True r show ?thesis by (auto simp: choose_transport_def retry_ok_def pinned_def split: prod.splits)
  qed
qed (use assms in \<open>simp add: choose_transport_def\<close>)

lemma no_scheme: "\<not> isConnectionAuth (authSchemeFromChallenge [])"
  by code_simp

lemma begin_post:
  assumes "begin_session st s what = (st', r)" "retry_ok env st" "hs_session st = None" "pinned (hs_transport st)"
  shows "retry_ok env st' \<and> hs_bodies st' = hs_bodies st \<and> hs_sent st' = hs_sent st \<and> hs_closed st' = hs_closed st
    \<and> hs_transport st' = hs_transport st"
  using assms by (auto simp: begin_session_def retry_ok_def split: prod.splits)

lemma start_post:
  assumes "startUpstreamAuthSession env ch resp st = (st', r)" "retry_ok env st" "hs_session st = None"
    and "isConnectionAuth (authSchemeFromChallenge ch) \<longrightarrow> pinned (hs_transport st)"
  shows "retry_ok env st' \<and> hs_bodies st' = hs_bodies st \<and> hs_sent st' = hs_sent st \<and> hs_closed st' = hs_closed st
    \<and> hs_transport st' = hs_transport st \<and> (r = Inr None \<or> pinned (hs_transport st))"
proof -
  let ?k = "isUnixKerberosCandidate (he_cfg env) ch" and ?w = "he_windows env \<and> isWindowsSSPICandidate (he_cfg env) ch"
  let ?st = "st\<lparr>hs_mechanism := ObserveMechanism (hs_mechanism st) authMechanismKerberos\<rparr>"
  have pin: "pinned (hs_transport st)" if "?k \<or> ?w"
    using that assms(4) by (auto simp: isUnixKerberosCandidate_def isWindowsSSPICandidate_def isConnectionAuth_def)
  have ok: "retry_ok env ?st" using assms(2) by (simp add: retry_ok_def)
  consider "?k" | "\<not> ?k" "?w" | "\<not> ?k" "\<not> ?w" by blast
  then show ?thesis
  proof cases
    case 1
    with assms(1,3) pin ok begin_post [of ?st _ _ st' r env] show ?thesis
      by (cases "newKerberosAuthSession (he_manager env) (he_proxyHost env)") (auto simp: startUpstreamAuthSession_def)
  next
    case 2
    with assms(1-3) pin begin_post [of st _ _ st' r env] show ?thesis
      by (cases "he_sspiFactory env ch (he_proxyHost env)") (auto simp: startUpstreamAuthSession_def)
  qed (use assms in \<open>auto simp: startUpstreamAuthSession_def\<close>)
qed

lemma auth_post:
  assumes "retry_auth env n ch resp st = (st', r)" "retry_ok env st" "validateUpstreamAuth (Auth (he_cfg env)) = None"
    and "isConnectionAuth (authSchemeFromChallenge ch) \<longrightarrow> pinned (hs_transport st)"
  shows "retry_ok env st' \<and> hs_bodies st' = hs_bodies st \<and> hs_sent st' = hs_sent st \<and> hs_closed st' = hs_closed st
    \<and> (\<forall>auth. r = Inr auth \<longrightarrow> safe_sent env (hs_transport st', auth))"
proof (cases "hs_session st")
  case (Some s)
  with assms(1,2) show ?thesis by (auto simp: retry_auth_def retry_ok_def safe_sent_def split: prod.splits sum.splits)
next
  case None
  obtain st1 r1 where s: "startUpstreamAuthSession env ch resp st = (st1, r1)" by fastforce
  note p = start_post [OF s assms(2) None assms(4)]
  show ?thesis
  proof (cases "r1 = Inr None")
    case True
    obtain as auth where h: "upstreamProxyAuthHeader (he_hashes env) (he_auth env n) (he_cfg env) (hs_auth st1) (he_method env)
        (he_target env) ch (he_passthroughAuth env) = (as, auth)" by fastforce
    then have st': "st' = st1\<lparr>hs_auth := as\<rparr>" "r = Inr auth" using assms(1) None s True by (auto simp: retry_auth_def)
    have nd: "hs_transport st1 \<noteq> routeTransport DirectServer" using conjunct1 [OF p] by (simp add: retry_ok_def)
    have "safe_sent env (hs_transport st1, auth)"
    proof (cases "upstreamAuthModes (effectiveUpstreamAuth (he_cfg env)) = [] \<or> auth = []")
      case True
      with h nd show ?thesis by (auto simp: safe_sent_def upstreamProxyAuthHeader_def no_scheme)
    next
      case False
      with answer_scheme [OF assms(3) _ h] p assms(4) nd show ?thesis by (auto simp: safe_sent_def)
    qed
    with p st' show ?thesis by simp
  next
    case False
    moreover have "hs_transport st1 \<noteq> routeTransport DirectServer" using conjunct1 [OF p] by (simp add: retry_ok_def)
    ultimately show ?thesis using assms(1) None s p by (auto simp: retry_auth_def safe_sent_def split: sum.splits option.splits)
  qed
qed

lemma trip_post:
  assumes "RoundTrip env auth st = (st', r)" "retry_ok env st" "safe_sent env (hs_transport st, auth)"
  shows "retry_ok env st' \<and> length (hs_sent st') = length (hs_sent st) + 1 \<and> hs_closed st' = hs_closed st
    \<and> hs_bodies st' = (if isl r then hs_bodies st else hs_bodies st + 1)"
proof -
  let ?sent = "hs_sent st @ [(hs_transport st, auth)]"
  consider "st' = st\<lparr>hs_sent := ?sent\<rparr>" "isl r" | ts where "st' = st\<lparr>hs_sent := ?sent, hs_trips := ts\<rparr>" "isl r"
    | ts where "st' = st\<lparr>hs_sent := ?sent, hs_trips := ts, hs_bodies := hs_bodies st + 1\<rparr>" "\<not> isl r"
    using assms(1) by (auto simp: RoundTrip_def Let_def split: list.splits sum.splits)
  then show ?thesis by cases (use assms(2,3) in \<open>simp_all add: retry_ok_def\<close>)
qed

lemma resend_post:
  assumes "resend env n auth resp st = (st', r)" "retry_ok env st" "safe_sent env (hs_transport st, auth)"
  shows "retry_ok env st' \<and> length (hs_sent st') \<le> length (hs_sent st) + 1 \<and> hs_closed st' = hs_closed st
    \<and> hs_bodies st' = (if isl r then hs_bodies st - 1 else hs_bodies st)"
proof (cases "drainUpstream407Body (cn_body resp)")
  case drained: None
  show ?thesis
  proof (cases "he_openErr env n")
    case None
    obtain st1 r1 where t: "RoundTrip env auth (close_body st) = (st1, r1)" by fastforce
    from trip_post [OF t] assms(2,3) have p: "retry_ok env st1" "length (hs_sent st1) = length (hs_sent st) + 1"
      "hs_closed st1 = hs_closed st" "hs_bodies st1 = (if isl r1 then hs_bodies st - 1 else hs_bodies st)" by simp_all
    have "st' = (if isl r1 then removePooled st1 else st1)" "isl r = isl r1"
      using assms(1) drained None t by (auto simp: resend_def split: sum.splits)
    with p show ?thesis by simp
  qed (use assms drained in \<open>auto simp: resend_def split: if_splits\<close>)
qed (use assms in \<open>auto simp: resend_def\<close>)

text \<open>What the loop does from a state in which the 407 response is open.\<close>

lemma loop_post:
  assumes "retry_loop env n resp st = (st', r)" "retry_ok env st" "validateUpstreamAuth (Auth (he_cfg env)) = None" "n \<le> 3"
  shows "retry_ok env st' \<and> length (hs_sent st') \<le> length (hs_sent st) + (3 - n) \<and> hs_closed st' = hs_closed st
    \<and> hs_bodies st' = (if isl r then hs_bodies st - 1 else hs_bodies st)"
  using assms
proof (induction env n resp st rule: retry_loop.induct)
  case (1 env n resp st)
  let ?go = "n < 3 \<and> cn_status resp = 407"
  let ?ch = "selectProxyAuthenticateChallenge (effectiveUpstreamAuth (he_cfg env)) (cn_challenges resp)"
  let ?st = "st\<lparr>hs_mechanism := ObserveHeader (hs_mechanism st) ?ch\<rparr>"
  show ?case
  proof (cases ?go)
    case False
    with "1.prems" show ?thesis by (subst (asm) retry_loop.simps) (auto simp: Let_def split: if_splits)
  next
    case go: True
    then have len: "Suc (3 - Suc n) = 3 - n" by linarith
    have ok: "retry_ok env ?st" using "1.prems"(2) by simp
    obtain st1 b where c: "choose_transport env n (authSchemeFromChallenge ?ch) ?st = (st1, b)" by fastforce
    note c1 = choose_post [OF c ok]
    show ?thesis
    proof (cases b)
      case True
      obtain st2 r2 where s: "resend env n [] resp st1 = (st2, r2)" by fastforce
      have "safe_sent env (hs_transport st1, [])" by (simp add: safe_sent_def no_scheme)
      note s2 = resend_post [OF s conjunct1 [OF c1] this]
      show ?thesis
      proof (cases r2)
        case (Inl e)
        with "1.prems"(1) go c s True c1 s2 show ?thesis by (subst (asm) retry_loop.simps) auto
      next
        case (Inr a)
        show ?thesis
        proof (cases "cn_status a = 407")
          case True': True
          have "retry_loop env (n + 1) a (set_authenticated False st2) = (st', r)"
            using "1.prems"(1) go c s True Inr True' by (subst (asm) retry_loop.simps) simp
          from "1.IH"(1) [OF _ refl refl c [symmetric] _ s [symmetric] Inr _ this] go True True' s2 "1.prems"(3)
          show ?thesis using c1 Inr len by auto
        next
          case False
          with "1.prems"(1) go c s True Inr c1 s2 show ?thesis by (subst (asm) retry_loop.simps) auto
        qed
      qed
    next
      case False
      obtain st2 r2 where a: "retry_auth env n ?ch resp st1 = (st2, r2)" by fastforce
      have a2: "retry_ok env st2 \<and> hs_bodies st2 = hs_bodies st1 \<and> hs_sent st2 = hs_sent st1 \<and> hs_closed st2 = hs_closed st1
          \<and> (\<forall>auth. r2 = Inr auth \<longrightarrow> safe_sent env (hs_transport st2, auth))"
        using c1 by (intro auth_post [OF a _ "1.prems"(3)]) auto
      show ?thesis
      proof (cases "r2 = Inr [] \<or> isl r2")
        case True
        with "1.prems"(1) go c a False c1 a2 show ?thesis by (cases r2) (subst (asm) retry_loop.simps; auto)+
      next
        case False': False
        then obtain auth where auth: "r2 = Inr auth" "auth \<noteq> []" by (cases r2) auto
        let ?st2 = "st2\<lparr>hs_mechanism := ObserveHeader (hs_mechanism st2) auth, hs_attempted := True\<rparr>"
        have ok2: "retry_ok env ?st2" "safe_sent env (hs_transport ?st2, auth)" using a2 auth by simp_all
        obtain st3 r3 where s: "resend env n auth resp ?st2 = (st3, r3)" by fastforce
        note s3 = resend_post [OF s ok2]
        show ?thesis
        proof (cases r3)
          case (Inl e)
          with "1.prems"(1) go c a False auth s c1 a2 s3 show ?thesis by (subst (asm) retry_loop.simps) auto
        next
          case (Inr q)
          have "retry_loop env (n + 1) q (set_authenticated (cn_status q \<noteq> 407) st3) = (st', r)"
            using "1.prems"(1) go c a False auth s Inr by (subst (asm) retry_loop.simps) simp
          from "1.IH"(2) [OF _ refl refl c [symmetric] _ a [symmetric] auth(1) auth(2) s [symmetric] Inr this] go False s3 "1.prems"(3)
          show ?thesis using c1 a2 Inr len by auto
        qed
      qed
    qed
  qed
qed

text \<open>The whole retry, from a 407 response that is open and the lock that the caller may hold.\<close>

lemma deferred_post:
  assumes "retry_deferred env (st, r) = (st', r')" "retry_ok env st"
  shows "hs_held st' = 0 \<and> hs_opened st' = hs_closed st' \<and> hs_sent st' = hs_sent st
    \<and> hs_bodies st' = (if isl r' \<and> \<not> isl r then hs_bodies st - 1 else hs_bodies st) \<and> (isl r \<longrightarrow> isl r')"
proof -
  let ?st = "lockPooled None st"
  have u: "hs_held ?st = 0" "hs_opened ?st = hs_closed ?st + (if hs_session ?st = None then 0 else 1)"
    using assms(2) lockPooled_held [of st None] by (simp_all add: retry_ok_def)
  show ?thesis
  proof (cases "hs_session ?st")
    case None
    with assms(1) u show ?thesis by (auto simp: retry_deferred_def Let_def)
  next
    case (Some s)
    obtain s1 ce where "sess_close (he_native env) s = (s1, ce)" by fastforce
    with assms(1) u Some show ?thesis by (auto simp: retry_deferred_def Let_def close_body_def split: if_splits)
  qed
qed

lemma retry_post:
  assumes "retryHTTPProxyAuthWithPool env pooled alreadyLocked resp st = (st', r)" "validateUpstreamAuth (Auth (he_cfg env)) = None"
    and "hs_held st = (if alreadyLocked \<and> pooled \<noteq> None then 1 else 0)" "hs_opened st = hs_closed st"
    and "list_all (safe_sent env) (hs_sent st)" "hs_transport st \<noteq> routeTransport DirectServer"
  shows "hs_held st' = 0 \<and> hs_opened st' = hs_closed st' \<and> length (hs_sent st') \<le> length (hs_sent st) + 3
    \<and> list_all (safe_sent env) (hs_sent st') \<and> hs_bodies st' = (if isl r then hs_bodies st - 1 else hs_bodies st)"
proof -
  let ?st1 = "st\<lparr>hs_active := pooled, hs_ephemeral := False, hs_session := None, hs_mechanism := [], hs_attempted := False,
      hs_locked := (if alreadyLocked then map_option fst pooled else None)\<rparr>"
  define st2 where "st2 = (if alreadyLocked then ?st1 else lockPooled (map_option fst pooled) ?st1)"
  have ok: "retry_ok env st2" using assms(3-6) by (auto simp: st2_def retry_ok_def lockPooled_def)
  have f: "hs_sent st2 = hs_sent st" "hs_bodies st2 = hs_bodies st" "hs_opened st2 = hs_closed st2" using assms(4) by (auto simp: st2_def)
  show ?thesis
  proof (cases "he_streamed env")
    case True
    have st': "st' = forceKerberosReload env resp (removePooled (lockPooled None (set_authenticated False st2)))" "r = Inr resp"
      using assms(1) True by (simp_all add: retryHTTPProxyAuthWithPool_def Let_def st2_def split del: if_split)
    have "hs_held (lockPooled None (set_authenticated False st2)) = 0"
      using lockPooled_held [of "set_authenticated False st2" None] ok by (simp add: retry_ok_def)
    then show ?thesis using assms(5) f st' by (simp add: forceKerberosReload_def)
  next
    case False
    obtain st3 r3 where l: "retry_loop env 0 resp (set_authenticated False st2) = (st3, r3)" by fastforce
    from loop_post [OF l _ assms(2)] ok have p: "retry_ok env st3 \<and> length (hs_sent st3) \<le> length (hs_sent st2) + 3
        \<and> hs_bodies st3 = (if isl r3 then hs_bodies st2 - 1 else hs_bodies st2)" by simp
    have "retry_deferred env (st3, r3) = (st', r)"
      using assms(1) False l by (simp add: retryHTTPProxyAuthWithPool_def Let_def st2_def split del: if_split)
    from deferred_post [OF this] p have "hs_held st' = 0 \<and> hs_opened st' = hs_closed st' \<and> hs_sent st' = hs_sent st3
      \<and> hs_bodies st' = (if isl r \<and> \<not> isl r3 then hs_bodies st3 - 1 else hs_bodies st3) \<and> (isl r3 \<longrightarrow> isl r)" by blast
    then show ?thesis using p f by (auto simp: retry_ok_def)
  qed
qed

section \<open>Fallback over the candidates\<close>

text \<open>What the attempt with one candidate meets: the error of preparing the request, the state of the context
  after it and after the round trip, whether a pooled entry is authenticated, and the times of the reports.\<close>

record tripAttempt =
  ta_authenticated :: bool
  ta_openErr :: "neterr option"
  ta_ctxOpen :: "neterr option"
  ta_ctxTrip :: "neterr option"
  ta_ctxRetry :: bool
  ta_retryOpenErr :: "nat \<Rightarrow> neterr option"
  ta_now :: gotime

definition candidate_env :: "(byte list \<Rightarrow> byte list) \<Rightarrow> 'c retryEnv \<Rightarrow> tripAttempt \<Rightarrow> Server \<Rightarrow> 'c retryEnv" where
  "candidate_env mac env ta p =
     env\<lparr>he_candidate := p, he_proxyHost := srv_Host p, he_openErr := ta_retryOpenErr ta,
         he_identity := (if p = DirectServer then [] else upstreamConnectionAuthIdentity mac (he_cfg env))\<rparr>"

text \<open>The entry that is used, with its lock held: a cached one that is not authenticated is left again.\<close>

definition pooled_entry :: "'c retryEnv \<Rightarrow> tripAttempt \<Rightarrow> 'c httpState \<Rightarrow> pooledEntry option" where
  "pooled_entry env ta st =
     (if \<not> ta_authenticated ta then None
      else case cachedConnectionAuthTransport (he_cfg env) (hs_cache st) (he_candidate env) (he_identity env) of
        None \<Rightarrow> None
      | Some (e, scheme) \<Rightarrow>
          Some (e, connectionAuthTransportKey (he_candidate env) (he_identity env) scheme, to_upper (trim_space scheme)))"

definition enter_transport :: "'c retryEnv \<Rightarrow> pooledEntry option \<Rightarrow> 'c httpState \<Rightarrow> 'c httpState" where
  "enter_transport env pooled st =
     (case pooled of
        Some (e, _) \<Rightarrow> st\<lparr>hs_active := pooled, hs_held := hs_held st + 1, hs_transport := PooledAuth e\<rparr>
      | None \<Rightarrow>
          st\<lparr>hs_active := None, hs_transport := routeTransport (he_candidate env),
             hs_cache := fst (transport_getOrCreate (hs_cache st) (''route|'' @ proxyTransportRouteKey (he_candidate env)) True)\<rparr>)"

definition unlock_entry :: "pooledEntry option \<Rightarrow> 'c httpState \<Rightarrow> 'c httpState" where
  "unlock_entry pooled st = (if pooled = None then st else st\<lparr>hs_held := hs_held st - 1\<rparr>)"

text \<open>An attempt ends the request, or hands an error on to the next candidate.\<close>

datatype tripResult = TryNext neterr | Finished "neterr + connResponse"

definition http_attempt ::
  "'c retryEnv \<Rightarrow> tripAttempt \<Rightarrow> Supervisor option \<Rightarrow> 'c httpState \<Rightarrow> Supervisor option \<times> 'c httpState \<times> tripResult" where
  "http_attempt env ta sv st =
     (let p = he_candidate env; proxied = (p \<noteq> DirectServer);
          pooled = (if proxied \<and> he_identity env \<noteq> [] then pooled_entry env ta st else None);
          st = enter_transport env pooled st
      in case ta_openErr ta of
           Some e \<Rightarrow>
             (let st = unlock_entry pooled st in
              case ta_ctxOpen ta of
                Some ce \<Rightarrow> (recordRuntimeOutcome sv (ta_now ta) OutcomeClientCancelled p, st, Finished (Inl ce))
              | None \<Rightarrow> (sv, st, TryNext e))
         | None \<Rightarrow>
             (case (if proxied
                    then upstreamProxyAuthHeader (he_hashes env) (he_auth env 0) (he_cfg env) (hs_auth st) (he_method env) (he_target env) [] (he_passthroughAuth env)
                    else (hs_auth st, [])) of
                (s, auth) \<Rightarrow>
                  (case RoundTrip env auth (st\<lparr>hs_auth := s\<rparr>) of
                     (st, Inl e) \<Rightarrow>
                       (let st = removePooled (unlock_entry pooled (set_authenticated False st));
                            sv = recoverRuntimeOutcome sv (ta_now ta) (classifyProxyTransportOutcome (ta_ctxTrip ta \<noteq> None) p e) p
                        in case ta_ctxTrip ta of
                             Some ce \<Rightarrow> (sv, st, Finished (Inl ce))
                           | None \<Rightarrow> (sv, st, TryNext e))
                   | (st, Inr resp) \<Rightarrow>
                       (let sv = recordRuntimeOutcome sv (ta_now ta) OutcomeSuccess p in
                        if proxied \<and> cn_status resp = 407 then
                          (case retryHTTPProxyAuthWithPool env pooled (pooled \<noteq> None) resp (set_authenticated False st) of
                             (st, Inl e) \<Rightarrow>
                               (recoverRuntimeOutcome sv (ta_now ta) (classifyProxyTransportOutcome (ta_ctxRetry ta) p e) p, st, Finished (Inl e))
                           | (st, Inr r) \<Rightarrow>
                               (recordRuntimeOutcome sv (ta_now ta) (if cn_status r = 407 then OutcomeAuthExhausted else OutcomeSuccess) p, st, Finished (Inr r)))
                        else (sv, unlock_entry pooled st, Finished (Inr resp))))))"

fun http_loop ::
  "(byte list \<Rightarrow> byte list) \<Rightarrow> 'c retryEnv \<Rightarrow> (nat \<Rightarrow> tripAttempt) \<Rightarrow> nat \<Rightarrow> Server list \<Rightarrow> neterr \<Rightarrow> Supervisor option \<Rightarrow> 'c httpState
    \<Rightarrow> Supervisor option \<times> 'c httpState \<times> (neterr + connResponse)" where
  "http_loop mac env ta i [] lastErr sv st = (sv, st, Inl lastErr)"
| "http_loop mac env ta i (p # ps) lastErr sv st =
     (case http_attempt (candidate_env mac env (ta i) p) (ta i) sv st of
        (sv, st, Finished r) \<Rightarrow> (sv, st, r)
      | (sv, st, TryNext e) \<Rightarrow> http_loop mac env ta (i + 1) ps e sv st)"

definition roundTripHTTPWithProxyFallback ::
  "(byte list \<Rightarrow> byte list) \<Rightarrow> 'c retryEnv \<Rightarrow> (nat \<Rightarrow> tripAttempt) \<Rightarrow> gotime \<Rightarrow> Server list \<Rightarrow> Supervisor option \<Rightarrow> 'c httpState
    \<Rightarrow> Supervisor option \<times> 'c httpState \<times> (neterr + connResponse)" where
  "roundTripHTTPWithProxyFallback mac env ta now proxies sv st =
     (case orderProxyCandidates sv now proxies of
        (sv, candidates) \<Rightarrow> http_loop mac env ta 0 candidates (msg ''no proxy candidates'') sv st)"

section \<open>The fallback\<close>

text \<open>Between two candidates: no lock is held, every session is closed, and what was sent is safe.\<close>

definition idle_ok :: "'c retryEnv \<Rightarrow> 'c httpState \<Rightarrow> bool" where
  "idle_ok env st \<longleftrightarrow> hs_held st = 0 \<and> hs_opened st = hs_closed st \<and> list_all (safe_sent env) (hs_sent st)"

lemma route_key_direct: "routeTransport p = routeTransport DirectServer \<longleftrightarrow> p = DirectServer"
proof -
  have "proxyTransportRouteKey p \<noteq> ''direct''" if "p \<noteq> DirectServer"
  proof
    assume direct: "proxyTransportRouteKey p = ''direct''"
    have "CHR '':'' \<in> set (proxyTransportRouteKey p)" using that by (simp add: proxyTransportRouteKey_def)
    then show False unfolding direct by simp
  qed
  then show ?thesis by (auto simp: routeTransport_def proxyTransportRouteKey_def)
qed

lemma first_auth_safe:
  assumes "upstreamProxyAuthHeader h uenv (he_cfg env) s m u [] (he_passthroughAuth env) = (s', auth)"
    and "validateUpstreamAuth (Auth (he_cfg env)) = None" "t \<noteq> routeTransport DirectServer"
  shows "safe_sent env (t, auth)"
proof (cases "upstreamAuthModes (effectiveUpstreamAuth (he_cfg env)) = [] \<or> auth = []")
  case True
  with assms show ?thesis by (auto simp: safe_sent_def upstreamProxyAuthHeader_def no_scheme)
next
  case False
  with answer_scheme [OF assms(2) _ assms(1)] no_scheme assms(3) show ?thesis by (auto simp: safe_sent_def)
qed

lemma enter_fields [simp]:
  "hs_bodies (enter_transport env pooled st) = hs_bodies st" "hs_sent (enter_transport env pooled st) = hs_sent st"
  "hs_opened (enter_transport env pooled st) = hs_opened st" "hs_closed (enter_transport env pooled st) = hs_closed st"
  "hs_active (enter_transport env pooled st) = pooled"
  "hs_held (enter_transport env pooled st) = hs_held st + (if pooled = None then 0 else 1)"
  "hs_transport (enter_transport env pooled st) = (case pooled of None \<Rightarrow> routeTransport (he_candidate env) | Some (e, _) \<Rightarrow> PooledAuth e)"
  by (cases pooled; auto simp: enter_transport_def)+

lemma unlock_fields [simp]:
  "hs_bodies (unlock_entry pooled st) = hs_bodies st" "hs_sent (unlock_entry pooled st) = hs_sent st"
  "hs_opened (unlock_entry pooled st) = hs_opened st" "hs_closed (unlock_entry pooled st) = hs_closed st"
  "hs_held (unlock_entry pooled st) = hs_held st - (if pooled = None then 0 else 1)"
  by (simp_all add: unlock_entry_def)

lemma trip_fields:
  assumes "RoundTrip env auth st = (st', r)"
  shows "hs_sent st' = hs_sent st @ [(hs_transport st, auth)] \<and> hs_bodies st' = (if isl r then hs_bodies st else hs_bodies st + 1)
    \<and> hs_held st' = hs_held st \<and> hs_opened st' = hs_opened st \<and> hs_closed st' = hs_closed st \<and> hs_transport st' = hs_transport st"
  using assms by (auto simp: RoundTrip_def Let_def split: list.splits sum.splits)

lemma http_attempt_post:
  assumes "http_attempt env ta sv st = (sv', st', res)" "validateUpstreamAuth (Auth (he_cfg env)) = None" "idle_ok env st"
  shows "idle_ok env st' \<and> length (hs_sent st') \<le> length (hs_sent st) + 4
    \<and> hs_bodies st' = hs_bodies st + (case res of Finished (Inr _) \<Rightarrow> 1 | _ \<Rightarrow> 0)"
proof -
  let ?proxied = "he_candidate env \<noteq> DirectServer"
  define pooled where "pooled = (if ?proxied \<and> he_identity env \<noteq> [] then pooled_entry env ta st else None)"
  note att = assms(1) [unfolded http_attempt_def Let_def, folded pooled_def]
  let ?st = "enter_transport env pooled st"
  show ?thesis
  proof (cases "ta_openErr ta")
    case (Some e)
    then have st': "st' = unlock_entry pooled ?st" "\<forall>r. res \<noteq> Finished (Inr r)"
      using att by (auto split: option.splits)
    with assms(3) show ?thesis by (auto simp: idle_ok_def split: tripResult.splits sum.splits)
  next
    case None
    obtain s auth where h: "(if ?proxied then upstreamProxyAuthHeader (he_hashes env) (he_auth env 0) (he_cfg env) (hs_auth ?st) (he_method env)
        (he_target env) [] (he_passthroughAuth env) else (hs_auth ?st, [])) = (s, auth)" by fastforce
    have safe: "safe_sent env (hs_transport ?st, auth)"
    proof (cases ?proxied)
      case True
      then have "hs_transport ?st \<noteq> routeTransport DirectServer" using route_key_direct by (auto split: option.splits)
      with h True show ?thesis using first_auth_safe [OF _ assms(2)] by auto
    next
      case False
      with h show ?thesis by (simp add: safe_sent_def no_scheme)
    qed
    obtain st1 r1 where t: "RoundTrip env auth (?st\<lparr>hs_auth := s\<rparr>) = (st1, r1)" by fastforce
    have f: "hs_sent st1 = hs_sent st @ [(hs_transport ?st, auth)]"
      "hs_bodies st1 = (if isl r1 then hs_bodies st else hs_bodies st + 1)" "hs_held st1 = hs_held st + (if pooled = None then 0 else 1)"
      "hs_opened st1 = hs_opened st" "hs_closed st1 = hs_closed st" "hs_transport st1 = hs_transport ?st" using trip_fields [OF t] by simp_all
    have sent1: "list_all (safe_sent env) (hs_sent st1)" using f(1) safe assms(3) by (simp add: idle_ok_def)
    consider e where "r1 = Inl e" | resp where "r1 = Inr resp" "?proxied" "cn_status resp = 407"
      | resp where "r1 = Inr resp" "\<not> (?proxied \<and> cn_status resp = 407)" by (cases r1) auto
    then show ?thesis
    proof cases
      case 1
      then have st': "st' = removePooled (unlock_entry pooled (set_authenticated False st1))" "\<forall>r. res \<noteq> Finished (Inr r)"
        using att None h t by (auto split: option.splits)
      with assms(3) f sent1 1 show ?thesis by (auto simp: idle_ok_def split: tripResult.splits sum.splits)
    next
      case 2
      then have nd: "hs_transport st1 \<noteq> routeTransport DirectServer" using f(6) route_key_direct by (auto split: option.splits)
      obtain st2 r2 where r: "retryHTTPProxyAuthWithPool env pooled (pooled \<noteq> None) resp (set_authenticated False st1) = (st2, r2)" by fastforce
      have "hs_held st2 = 0 \<and> hs_opened st2 = hs_closed st2 \<and> length (hs_sent st2) \<le> length (hs_sent (set_authenticated False st1)) + 3
          \<and> list_all (safe_sent env) (hs_sent st2) \<and> hs_bodies st2 = (if isl r2 then hs_bodies (set_authenticated False st1) - 1 else hs_bodies (set_authenticated False st1))"
        by (rule retry_post [OF r assms(2)]) (use f sent1 nd assms(3) in \<open>auto simp: idle_ok_def\<close>)
      then have p: "idle_ok env st2 \<and> length (hs_sent st2) \<le> length (hs_sent st) + 4
          \<and> hs_bodies st2 = (if isl r2 then hs_bodies st else hs_bodies st + 1)" using f(1,2) 2(1) by (simp add: idle_ok_def)
      have "st' = st2" "res = Finished r2" using att None h t 2 r by (auto split: sum.splits)
      with p show ?thesis by (auto split: sum.splits)
    next
      case 3
      then have "st' = unlock_entry pooled st1" "res = Finished (Inr resp)"
        using att None h t by auto
      with assms(3) f sent1 3(1) show ?thesis by (auto simp: idle_ok_def)
    qed
  qed
qed

lemma candidate_safe [simp]: "safe_sent (candidate_env mac env ta p) = safe_sent env"
  by (intro ext) (simp add: safe_sent_def candidate_env_def)

lemma candidate_idle [simp]: "idle_ok (candidate_env mac env ta p) st \<longleftrightarrow> idle_ok env st"
  by (simp add: idle_ok_def)

lemma http_loop_post:
  assumes "http_loop mac env ta i ps lastErr sv st = (sv', st', r)" "validateUpstreamAuth (Auth (he_cfg env)) = None" "idle_ok env st"
  shows "idle_ok env st' \<and> length (hs_sent st') \<le> length (hs_sent st) + 4 * length ps
    \<and> hs_bodies st' = (if isl r then hs_bodies st else hs_bodies st + 1)"
  using assms(1,3)
proof (induction ps arbitrary: i lastErr sv st)
  case (Cons p ps)
  let ?env = "candidate_env mac env (ta i) p"
  obtain sv1 st1 res where a: "http_attempt ?env (ta i) sv st = (sv1, st1, res)" by (cases "http_attempt ?env (ta i) sv st")
  have valid: "validateUpstreamAuth (Auth (he_cfg ?env)) = None" using assms(2) by (simp add: candidate_env_def)
  have p: "idle_ok env st1 \<and> length (hs_sent st1) \<le> length (hs_sent st) + 4
      \<and> hs_bodies st1 = hs_bodies st + (case res of Finished (Inr _) \<Rightarrow> 1 | _ \<Rightarrow> 0)"
    using http_attempt_post [OF a valid] Cons.prems(2) by simp
  show ?case
  proof (cases res)
    case (TryNext e)
    then have "http_loop mac env ta (i + 1) ps e sv1 st1 = (sv', st', r)" using Cons.prems(1) a by simp
    from Cons.IH [OF this] p TryNext show ?thesis by auto
  next
    case (Finished q)
    with Cons.prems(1) a p show ?thesis by (auto split: sum.splits)
  qed
qed auto

lemma order_length:
  assumes "orderProxyCandidates sv now ps = (sv', cs)"
  shows "length cs = length ps"
proof (cases sv)
  case (Some s)
  with order_refines [of s now ps sv' cs] assms have "size (mset cs) = size (mset ps)" by simp
  then show ?thesis by simp
qed (use assms in \<open>simp add: orderProxyCandidates_def\<close>)

text \<open>Whatever the upstream proxies answer, the fallback over the candidates with its authentication retries
  returns with no pooled connection locked, every session closed that it opened, exactly the response body open
  that it returns, and after at most four requests per candidate.\<close>

lemma round_trip_releases:
  assumes "roundTripHTTPWithProxyFallback mac env ta now proxies sv st = (sv', st', r)"
    and "validateUpstreamAuth (Auth (he_cfg env)) = None" "hs_held st = 0" "hs_opened st = hs_closed st" "hs_sent st = []"
  shows "hs_held st' = 0 \<and> hs_opened st' = hs_closed st' \<and> length (hs_sent st') \<le> 4 * length proxies
    \<and> hs_bodies st' = (if isl r then hs_bodies st else hs_bodies st + 1)"
proof -
  obtain sv1 cs where o: "orderProxyCandidates sv now proxies = (sv1, cs)" by fastforce
  with assms(1) have "http_loop mac env ta 0 cs (msg ''no proxy candidates'') sv1 st = (sv', st', r)"
    by (simp add: roundTripHTTPWithProxyFallback_def)
  from http_loop_post [OF this assms(2)] assms(3-5) order_length [OF o] show ?thesis by (simp add: idle_ok_def)
qed

section \<open>Owners of pooled transports\<close>

text \<open>The identity in the key of a pooled transport, read from its text: the third of the fields that bars separate.
  \<open>owned I st e\<close> says that the entry \<open>e\<close> was built for the identity \<open>I\<close>.\<close>

definition auth_owner :: "string \<Rightarrow> string option" where
  "auth_owner key =
     (case split_on (CHR ''|'') key of
        kind # scheme # identity # route # rest \<Rightarrow> if kind = ''auth'' then Some identity else None
      | _ \<Rightarrow> None)"

definition owned :: "string \<Rightarrow> 'c httpState \<Rightarrow> nat \<Rightarrow> bool" where
  "owned I st e \<longleftrightarrow> e < length (tc_built (hs_cache st)) \<and> auth_owner (tc_built (hs_cache st) ! e) = Some I"

definition own_idle :: "string \<Rightarrow> 'c httpState \<Rightarrow> bool" where
  "own_idle I st \<longleftrightarrow> built_ok (hs_cache st) \<and> (\<forall>e auth. (PooledAuth e, auth) \<in> set (hs_sent st) \<longrightarrow> owned I st e)"

definition own_ok :: "string \<Rightarrow> 'c httpState \<Rightarrow> bool" where
  "own_ok I st \<longleftrightarrow> own_idle I st \<and> (\<forall>e x. hs_active st = Some (e, x) \<longrightarrow> owned I st e)
     \<and> (\<forall>e. hs_transport st = PooledAuth e \<longrightarrow> owned I st e)"

lemma scheme_no_bar:
  assumes "isConnectionAuth scheme"
  shows "CHR ''|'' \<notin> set (to_upper (trim_space scheme))"
proof
  assume "CHR ''|'' \<in> set (to_upper (trim_space scheme))"
  then obtain x where x: "x \<in> set scheme" "upper_char x = CHR ''|''"
    using trim_space_subset [of scheme] by (auto simp: to_upper_def)
  have "x = CHR ''|''"
  proof (cases "97 \<le> (of_char x :: nat) \<and> (of_char x :: nat) \<le> 122")
    case True
    with x(2) have "(of_char x - 32 :: nat) mod 256 = of_char (CHR ''|'')"
      by (simp add: upper_char_def flip: of_char_of)
    moreover have "(of_char x - 32 :: nat) < 256" using True by linarith
    ultimately have "of_char x - 32 = (124 :: nat)" by (simp only: mod_less) simp
    with True show ?thesis by linarith
  qed (use x(2) in \<open>auto simp: upper_char_def Let_def split: if_splits\<close>)
  then have "lower_char (CHR ''|'') \<in> set (to_lower scheme)" using x(1) by (auto simp: to_lower_def)
  moreover have "to_lower scheme = ''ntlm'' \<or> to_lower scheme = ''negotiate''"
  proof -
    have "to_lower authNTLM = ''ntlm''" "to_lower authNegotiate = ''negotiate''" by code_simp+
    with assms show ?thesis by (simp add: isConnectionAuth_def equal_fold_def)
  qed
  moreover have "lower_char (CHR ''|'') = CHR ''|''" by code_simp
  ultimately show False by auto
qed

lemma key_owner:
  assumes "isConnectionAuth scheme" "CHR ''|'' \<notin> set identity"
  shows "auth_owner (connectionAuthTransportKey p identity scheme) = Some identity"
proof -
  obtain r rs where r: "split_on (CHR ''|'') (proxyTransportRouteKey p) = r # rs"
    by (cases "split_on (CHR ''|'') (proxyTransportRouteKey p)") simp_all
  have "split_on (CHR ''|'') (''auth'' @ CHR ''|'' # to_upper (trim_space scheme) @ CHR ''|'' # identity @ CHR ''|'' # proxyTransportRouteKey p)
      = ''auth'' # to_upper (trim_space scheme) # identity # r # rs"
    using scheme_no_bar [OF assms(1)] assms(2) r by (subst split_on_append; simp)+
  then show ?thesis by (simp add: auth_owner_def connectionAuthTransportKey_def)
qed

lemma owned_mono: "owned I st e \<Longrightarrow> prefix (tc_built (hs_cache st)) (tc_built (hs_cache st')) \<Longrightarrow> owned I st' e"
  by (auto simp: owned_def prefix_def nth_append)

lemma own_later:
  assumes "own_idle I st" "built_ok (hs_cache st')" "prefix (tc_built (hs_cache st)) (tc_built (hs_cache st'))"
    and "hs_sent st' = hs_sent st" "\<forall>e x. hs_active st' = Some (e, x) \<longrightarrow> owned I st' e" "\<forall>e. hs_transport st' = PooledAuth e \<longrightarrow> owned I st' e"
  shows "own_ok I st'"
  using assms owned_mono [OF _ assms(3)] by (auto simp: own_ok_def own_idle_def)

lemma own_ok_idle: "own_ok I st \<Longrightarrow> own_idle I st"
  by (simp add: own_ok_def)

lemma own_update [simp]:
  "own_ok I (st\<lparr>hs_mechanism := m\<rparr>) = own_ok I st" "own_ok I (st\<lparr>hs_attempted := a\<rparr>) = own_ok I st" "own_ok I (st\<lparr>hs_auth := s\<rparr>) = own_ok I st"
  "own_ok I (st\<lparr>hs_session := s'\<rparr>) = own_ok I st" "own_ok I (st\<lparr>hs_opened := n\<rparr>) = own_ok I st" "own_ok I (st\<lparr>hs_closed := n\<rparr>) = own_ok I st"
  "own_ok I (st\<lparr>hs_trips := ts\<rparr>) = own_ok I st" "own_ok I (st\<lparr>hs_bodies := b\<rparr>) = own_ok I st" "own_ok I (st\<lparr>hs_authed := au\<rparr>) = own_ok I st"
  "own_ok I (st\<lparr>hs_held := h\<rparr>) = own_ok I st" "own_ok I (st\<lparr>hs_locked := l\<rparr>) = own_ok I st" "own_ok I (st\<lparr>hs_reloads := n\<rparr>) = own_ok I st"
  "own_ok I (st\<lparr>hs_tracker := m\<rparr>) = own_ok I st" "own_ok I (st\<lparr>hs_ephemeral := a\<rparr>) = own_ok I st"
  by (simp_all add: own_ok_def own_idle_def owned_def)

lemma own_steps [simp]:
  "own_ok I (lockPooled e st) = own_ok I st" "own_ok I (set_authenticated b st) = own_ok I st" "own_ok I (close_body st) = own_ok I st"
  "own_ok I (forceKerberosReload env resp st) = own_ok I st" "own_ok I (unlock_entry pooled st) = own_ok I st"
  by (auto simp: lockPooled_def set_authenticated_def close_body_def forceKerberosReload_def unlock_entry_def split: option.splits)

lemma own_remove [simp]: "own_ok I st \<Longrightarrow> own_ok I (removePooled st)"
proof (cases "hs_active st")
  case (Some x)
  assume ok: "own_ok I st"
  obtain e key sch where x: "x = (e, key, sch)" by (cases x)
  have "built_ok (hs_cache (removePooled st)) \<and> tc_built (hs_cache (removePooled st)) = tc_built (hs_cache st)"
    using remove_built [of "hs_cache st" key "Some e"] ok Some x by (simp add: removePooled_def own_ok_def own_idle_def)
  with ok Some x show ?thesis by (auto simp: own_ok_def own_idle_def owned_def removePooled_def)
qed (simp add: removePooled_def)

lemma own_no_active [simp]: "own_ok I st \<Longrightarrow> own_ok I (st\<lparr>hs_active := None\<rparr>)"
  by (simp add: own_ok_def own_idle_def owned_def)

lemma own_ephemeral [simp]: "own_ok I st \<Longrightarrow> own_ok I (st\<lparr>hs_transport := Ephemeral\<rparr>)"
  by (simp add: own_ok_def own_idle_def owned_def)

lemma own_retire [simp]: "own_ok I st \<Longrightarrow> own_ok I (retire_scheme sch st)"
  by (simp add: retire_scheme_def split: option.splits)

lemma own_challenge:
  assumes "connectionAuthTransportForChallenge env scheme st = (st', entry)" "own_ok I st" "he_identity env = I" "CHR ''|'' \<notin> set I"
    and "isConnectionAuth scheme"
  shows "own_ok I (st'\<lparr>hs_active := Some entry, hs_transport := PooledAuth (fst entry)\<rparr>)"
proof -
  let ?key = "connectionAuthTransportKey (he_candidate env) I scheme"
  have ok: "built_ok (hs_cache st)" using assms(2) by (simp add: own_ok_def own_idle_def)
  have sent: "hs_sent st' = hs_sent st"
    and c: "transport_get (hs_cache st) ?key = Some (fst entry) \<and> hs_cache st' = hs_cache st
      \<or> transport_insert (hs_cache st) ?key = (hs_cache st', fst entry)"
    using assms(1,3) by (auto simp: connectionAuthTransportForChallenge_def Let_def split: option.splits prod.splits)
  have b: "built_ok (hs_cache st') \<and> prefix (tc_built (hs_cache st)) (tc_built (hs_cache st')) \<and> fst entry < tc_next (hs_cache st')
      \<and> tc_built (hs_cache st') ! fst entry = ?key"
    using c get_built [OF _ ok] insert_built [OF _ ok] ok by auto
  then have "owned I st' (fst entry)" using key_owner [OF assms(5,4)] by (simp add: owned_def built_ok_def)
  with b sent show ?thesis by (intro own_later [OF own_ok_idle [OF assms(2)]]) (auto simp: owned_def)
qed

lemma own_choose:
  assumes "choose_transport env n scheme st = (st', b)" "own_ok I st" "he_identity env \<in> {[], I}" "CHR ''|'' \<notin> set I"
  shows "own_ok I st'"
proof (cases "isConnectionAuth scheme")
  case True
  let ?st = "retire_scheme scheme st"
  have ok: "own_ok I ?st" using assms(2) by simp
  show ?thesis
  proof (cases "hs_active ?st")
    case (Some x)
    then obtain e y where "hs_active ?st = Some (e, y)" by (cases x) simp
    moreover from this have "own_ok I (?st\<lparr>hs_transport := PooledAuth e\<rparr>)" using ok by (auto simp: own_ok_def own_idle_def owned_def)
    ultimately show ?thesis using assms(1) True by (auto simp: choose_transport_def)
  next
    case None
    obtain st1 entry where e: "connectionAuthTransportForChallenge env scheme ?st = (st1, entry)"
      by (cases "connectionAuthTransportForChallenge env scheme ?st")
    then have "own_ok I (st1\<lparr>hs_active := Some entry, hs_transport := PooledAuth (fst entry)\<rparr>)" if "he_identity env \<noteq> []"
      using own_challenge [OF e ok _ assms(4) True] that assms(3) by auto
    then show ?thesis using assms(1) True None e ok by (auto simp: choose_transport_def Let_def split: if_splits)
  qed
qed (use assms in \<open>simp add: choose_transport_def\<close>)

lemma own_auth: "retry_auth env n ch resp st = (st', r) \<Longrightarrow> own_ok I st \<Longrightarrow> own_ok I st'"
  by (auto simp: retry_auth_def startUpstreamAuthSession_def begin_session_def Let_def split: option.splits prod.splits sum.splits if_splits)

lemma own_trip:
  assumes "RoundTrip env auth st = (st', r)" "own_ok I st"
  shows "own_ok I st'"
proof -
  have "hs_cache st' = hs_cache st" "hs_active st' = hs_active st" "hs_transport st' = hs_transport st"
    "hs_sent st' = hs_sent st @ [(hs_transport st, auth)]"
    using assms(1) by (auto simp: RoundTrip_def Let_def split: list.splits sum.splits)
  with assms(2) show ?thesis by (force simp: own_ok_def own_idle_def owned_def)
qed

lemma own_resend: "resend env n auth resp st = (st', r) \<Longrightarrow> own_ok I st \<Longrightarrow> own_ok I st'"
  by (auto simp: resend_def split: option.splits prod.splits sum.splits if_splits dest: own_trip)

lemma own_loop:
  assumes "retry_loop env n resp st = (st', r)" "own_ok I st" "he_identity env \<in> {[], I}" "CHR ''|'' \<notin> set I"
  shows "own_ok I st'"
  using assms
proof (induction env n resp st rule: retry_loop.induct)
  case (1 env n resp st)
  let ?ch = "selectProxyAuthenticateChallenge (effectiveUpstreamAuth (he_cfg env)) (cn_challenges resp)"
  let ?st = "st\<lparr>hs_mechanism := ObserveHeader (hs_mechanism st) ?ch\<rparr>"
  show ?case
  proof (cases "n < 3 \<and> cn_status resp = 407")
    case False
    with "1.prems"(1,2) show ?thesis by (subst (asm) retry_loop.simps) (auto simp: Let_def split: if_splits)
  next
    case go: True
    obtain st1 b where c: "choose_transport env n (authSchemeFromChallenge ?ch) ?st = (st1, b)" by fastforce
    have ok1: "own_ok I st1" using own_choose [OF c _ "1.prems"(3,4)] "1.prems"(2) by simp
    show ?thesis
    proof (cases b)
      case True
      obtain st2 r2 where s: "resend env n [] resp st1 = (st2, r2)" by fastforce
      have ok2: "own_ok I st2" using s ok1 by (rule own_resend)
      show ?thesis
      proof (cases "\<exists>a. r2 = Inr a \<and> cn_status a = 407")
        case again: True
        then obtain a where a: "r2 = Inr a" "cn_status a = 407" by blast
        have "retry_loop env (n + 1) a (set_authenticated False st2) = (st', r)"
          using "1.prems"(1) go c s True a by (subst (asm) retry_loop.simps) simp
        with "1.IH"(1) [OF _ refl refl c [symmetric] _ s [symmetric] a(1) _ this] go True a ok2 "1.prems"(3,4) show ?thesis by simp
      next
        case False
        with "1.prems"(1) go c s True ok2 show ?thesis by (subst (asm) retry_loop.simps) (auto split: sum.splits if_splits)
      qed
    next
      case False
      obtain st2 r2 where a: "retry_auth env n ?ch resp st1 = (st2, r2)" by fastforce
      have ok2: "own_ok I st2" using a ok1 by (rule own_auth)
      show ?thesis
      proof (cases "\<exists>auth. r2 = Inr auth \<and> auth \<noteq> []")
        case False': False
        with "1.prems"(1) go c a False ok2 show ?thesis by (subst (asm) retry_loop.simps) (auto split: sum.splits if_splits)
      next
        case True
        then obtain auth where auth: "r2 = Inr auth" "auth \<noteq> []" by blast
        let ?st2 = "st2\<lparr>hs_mechanism := ObserveHeader (hs_mechanism st2) auth, hs_attempted := True\<rparr>"
        obtain st3 r3 where s: "resend env n auth resp ?st2 = (st3, r3)" by fastforce
        have ok3: "own_ok I st3" using own_resend [OF s, of I] ok2 by simp
        show ?thesis
        proof (cases r3)
          case (Inl e)
          with "1.prems"(1) go c a False auth s ok3 show ?thesis by (subst (asm) retry_loop.simps) auto
        next
          case (Inr q)
          have "retry_loop env (n + 1) q (set_authenticated (cn_status q \<noteq> 407) st3) = (st', r)"
            using "1.prems"(1) go c a False auth s Inr by (subst (asm) retry_loop.simps) simp
          from "1.IH"(2) [OF _ refl refl c [symmetric] _ a [symmetric] auth(1) auth(2) s [symmetric] Inr this] go False ok3 "1.prems"(3,4)
          show ?thesis by simp
        qed
      qed
    qed
  qed
qed

lemma own_deferred: "retry_deferred env (st, r) = (st', r') \<Longrightarrow> own_ok I st \<Longrightarrow> own_ok I st'"
  by (auto simp: retry_deferred_def Let_def split: option.splits prod.splits if_splits)

lemma own_retry:
  assumes "retryHTTPProxyAuthWithPool env pooled locked resp st = (st', r)" "own_ok I st" "he_identity env \<in> {[], I}" "CHR ''|'' \<notin> set I"
    and "\<forall>e x. pooled = Some (e, x) \<longrightarrow> owned I st e"
  shows "own_ok I st'"
proof -
  let ?st1 = "st\<lparr>hs_active := pooled, hs_ephemeral := False, hs_session := None, hs_mechanism := [], hs_attempted := False,
      hs_locked := (if locked then map_option fst pooled else None)\<rparr>"
  define st2 where "st2 = set_authenticated False (if locked then ?st1 else lockPooled (map_option fst pooled) ?st1)"
  have "own_ok I (st\<lparr>hs_active := pooled\<rparr>)" using assms(2,5) by (auto simp: own_ok_def own_idle_def owned_def)
  then have ok: "own_ok I st2" by (simp add: st2_def)
  show ?thesis
  proof (cases "he_streamed env")
    case True
    then have "st' = forceKerberosReload env resp (removePooled (lockPooled None st2))"
      using assms(1) by (simp add: retryHTTPProxyAuthWithPool_def Let_def st2_def split del: if_split)
    with ok show ?thesis by simp
  next
    case False
    obtain st3 r3 where l: "retry_loop env 0 resp st2 = (st3, r3)" by fastforce
    have "retry_deferred env (st3, r3) = (st', r)"
      using assms(1) False l by (simp add: retryHTTPProxyAuthWithPool_def Let_def st2_def split del: if_split)
    then show ?thesis using own_loop [OF l ok assms(3,4)] by (rule own_deferred)
  qed
qed

lemma first_cached_built:
  assumes "first_cached c p I schemes = Some (e, scheme)" "built_ok c" "CHR ''|'' \<notin> set I"
  shows "e < length (tc_built c) \<and> auth_owner (tc_built c ! e) = Some I"
  using assms(1)
proof (induction schemes)
  case (Cons s schemes)
  show ?case
  proof (cases "isConnectionAuth s \<and> transport_get c (connectionAuthTransportKey p I s) = Some e")
    case True
    with get_built [OF _ assms(2), of "connectionAuthTransportKey p I s" e] key_owner [OF _ assms(3), of s p] assms(2)
    show ?thesis by (simp add: built_ok_def)
  qed (use Cons in \<open>auto split: if_splits option.splits\<close>)
qed simp

lemma own_enter:
  assumes "own_idle I st" "he_identity env \<in> {[], I}" "CHR ''|'' \<notin> set I"
    and "pooled = None \<or> he_identity env \<noteq> [] \<and> pooled = pooled_entry env ta st"
  shows "own_ok I (enter_transport env pooled st)
    \<and> (\<forall>e x. pooled = Some (e, x) \<longrightarrow> owned I (enter_transport env pooled st) e)"
proof (cases pooled)
  case None
  let ?k = "''route|'' @ proxyTransportRouteKey (he_candidate env)"
  have "built_ok (hs_cache st)" using assms(1) by (simp add: own_ok_def own_idle_def)
  then have "own_ok I (enter_transport env None st)"
    using create_built [of "hs_cache st" ?k True] by (intro own_later [OF assms(1)]) (simp_all add: enter_transport_def routeTransport_def)
  with None show ?thesis by simp
next
  case (Some a)
  then obtain e x where p: "pooled = Some (e, x)" by (cases a) simp
  with assms(2,4) obtain scheme where "first_cached (hs_cache st) (he_candidate env) I (upstreamAuthModes (effectiveUpstreamAuth (he_cfg env))) = Some (e, scheme)"
    by (auto simp: pooled_entry_def cachedConnectionAuthTransport_def split: if_splits option.splits)
  then have "owned I st e" using first_cached_built [OF _ _ assms(3)] assms(1) by (simp add: owned_def own_ok_def own_idle_def)
  with p assms(1) show ?thesis by (auto simp: enter_transport_def own_ok_def own_idle_def owned_def)
qed

lemma own_attempt:
  assumes "http_attempt env ta sv st = (sv', st', res)" "own_idle I st" "he_identity env \<in> {[], I}" "CHR ''|'' \<notin> set I"
  shows "own_idle I st'"
proof (rule own_ok_idle)
  let ?proxied = "he_candidate env \<noteq> DirectServer"
  define pooled where "pooled = (if ?proxied \<and> he_identity env \<noteq> [] then pooled_entry env ta st else None)"
  note att = assms(1) [unfolded http_attempt_def Let_def, folded pooled_def]
  let ?st = "enter_transport env pooled st"
  have ok: "own_ok I ?st" "\<forall>e x. pooled = Some (e, x) \<longrightarrow> owned I ?st e"
    using own_enter [OF assms(2-4), of pooled ta] by (simp_all add: pooled_def)
  show "own_ok I st'"
  proof (cases "ta_openErr ta")
    case (Some e)
    with att ok show ?thesis by (auto split: option.splits)
  next
    case None
    obtain s auth where h: "(if ?proxied then upstreamProxyAuthHeader (he_hashes env) (he_auth env 0) (he_cfg env) (hs_auth ?st) (he_method env)
        (he_target env) [] (he_passthroughAuth env) else (hs_auth ?st, [])) = (s, auth)" by fastforce
    obtain st1 r1 where t: "RoundTrip env auth (?st\<lparr>hs_auth := s\<rparr>) = (st1, r1)" by fastforce
    have ok1: "own_ok I st1" using own_trip [OF t, of I] ok(1) by simp
    have "hs_cache st1 = hs_cache ?st" using t by (auto simp: RoundTrip_def Let_def split: list.splits sum.splits)
    then have pool: "\<forall>e x. pooled = Some (e, x) \<longrightarrow> owned I (set_authenticated False st1) e"
      using ok(2) by (auto simp: owned_def set_authenticated_def split: option.splits)
    show ?thesis
    proof (cases "\<exists>resp. r1 = Inr resp \<and> ?proxied \<and> cn_status resp = 407")
      case True
      then obtain resp where resp: "r1 = Inr resp" "?proxied" "cn_status resp = 407" by blast
      obtain st2 r2 where r: "retryHTTPProxyAuthWithPool env pooled (pooled \<noteq> None) resp (set_authenticated False st1) = (st2, r2)" by fastforce
      have "own_ok I st2" using own_retry [OF r _ assms(3,4) pool] ok1 by simp
      moreover have "st' = st2" using att None h t resp r by (auto split: sum.splits)
      ultimately show ?thesis by simp
    next
      case False
      with att None h t ok1 show ?thesis by (cases r1) (auto split: option.splits if_splits)
    qed
  qed
qed

lemma identity_no_bar: "CHR ''|'' \<notin> set (upstreamConnectionAuthIdentity mac cfg)"
  using hex_encode_chars by (auto simp: upstreamConnectionAuthIdentity_def)

lemma own_http_loop:
  assumes "http_loop mac env ta i ps lastErr sv st = (sv', st', r)" "own_idle (upstreamConnectionAuthIdentity mac (he_cfg env)) st"
  shows "own_idle (upstreamConnectionAuthIdentity mac (he_cfg env)) st'"
  using assms
proof (induction ps arbitrary: i lastErr sv st)
  case (Cons p ps)
  let ?env = "candidate_env mac env (ta i) p"
  obtain sv1 st1 res where a: "http_attempt ?env (ta i) sv st = (sv1, st1, res)" by (cases "http_attempt ?env (ta i) sv st")
  have "own_idle (upstreamConnectionAuthIdentity mac (he_cfg env)) st1"
    by (rule own_attempt [OF a Cons.prems(2) _ identity_no_bar]) (simp add: candidate_env_def)
  with Cons a show ?case by (auto split: tripResult.splits)
qed simp

section \<open>Properties\<close>

text \<open>C6: Credentials stay on their connection. In every request that the fallback and its retries send, an NTLM or
  Negotiate answer goes over a pooled transport or one of this request alone, unless it is the client's own header passed
  through under NONE. A pooled transport that a request uses was built, at whatever time, for the identity of that
  request's credentials, which its key names and which never changes: requests of two identities never share one. A request
  that goes straight to the origin server carries no Proxy-Authorization at all. The cache is in any state that creations,
  removals and clears lead to.\<close>

theorem connection_auth_isolated:
  assumes "roundTripHTTPWithProxyFallback mac env ta now proxies sv st = (sv', st', r)"
    and "validateUpstreamAuth (Auth (he_cfg env)) = None" "hs_held st = 0" "hs_opened st = hs_closed st" "hs_sent st = []"
    and "hs_cache st = foldl transport_step (newBoundedTransportCache m) evs" "(transport, auth) \<in> set (hs_sent st')"
  shows "(isConnectionAuth (authSchemeFromChallenge auth) \<longrightarrow> transport = Ephemeral \<or> (\<exists>e. transport = PooledAuth e)
      \<or> upstreamAuthModes (effectiveUpstreamAuth (he_cfg env)) = [] \<and> auth = he_passthroughAuth env)
    \<and> (\<forall>e. transport = PooledAuth e \<longrightarrow> e < length (tc_built (hs_cache st'))
         \<and> auth_owner (tc_built (hs_cache st') ! e) = Some (upstreamConnectionAuthIdentity mac (he_cfg env)))
    \<and> (transport = routeTransport DirectServer \<longrightarrow> auth = [])"
proof -
  obtain sv1 cs where o: "orderProxyCandidates sv now proxies = (sv1, cs)" by fastforce
  with assms(1) have run: "http_loop mac env ta 0 cs (msg ''no proxy candidates'') sv1 st = (sv', st', r)"
    by (simp add: roundTripHTTPWithProxyFallback_def)
  from http_loop_post [OF run assms(2)] assms(3-5,7) have "safe_sent env (transport, auth)" by (auto simp: idle_ok_def list_all_iff)
  moreover have "own_idle (upstreamConnectionAuthIdentity mac (he_cfg env)) st" using assms(5,6) run_built by (simp add: own_idle_def)
  from own_http_loop [OF run this] have "\<forall>e. transport = PooledAuth e \<longrightarrow> owned (upstreamConnectionAuthIdentity mac (he_cfg env)) st' e"
    using assms(7) by (auto simp: own_idle_def)
  ultimately show ?thesis by (auto simp: safe_sent_def owned_def pinned_def split: transportRef.splits)
qed

definition ex_proxy :: Server where "ex_proxy = \<lparr>srv_Host = ''h'', srv_Port = 80, srv_Scheme = ''http''\<rparr>"

definition ex_retry :: "unit retryEnv" where
  "ex_retry =
     \<lparr>he_cfg = \<lparr>Auth = ''NONE'', Username = [], Password = [], Kerberos = False, GOOS = ''linux''\<rparr>, he_hashes = ex_hashes, he_auth = (\<lambda>_. ex_env),
      he_method = ''GET'', he_target = ''http://a/'', he_proxyHost = [], he_passthroughAuth = ''NTLM abc'', he_candidate = ex_proxy, he_identity = [],
      he_manager = None, he_windows = False, he_sspiFactory = (\<lambda>_ _. Inl Canceled), he_native = undefined, he_openErr = (\<lambda>_. None),
      he_authenticated = (\<lambda>_. False), he_streamed = False, he_tripErr = msg ''eof''\<rparr>"

definition ex_trip :: "nat \<Rightarrow> tripAttempt" where
  "ex_trip i = \<lparr>ta_authenticated = False, ta_openErr = None, ta_ctxOpen = None, ta_ctxTrip = None, ta_ctxRetry = False,
     ta_retryOpenErr = (\<lambda>_. None), ta_now = 0\<rparr>"

definition ex_http :: "unit httpState" where
  "ex_http = \<lparr>hs_cache = newBoundedTransportCache 64, hs_authed = [],
     hs_trips = [Inr \<lparr>cn_status = 200, cn_statusText = ''OK'', cn_challenges = [], cn_body = (0, None)\<rparr>],
     hs_sent = [], hs_bodies = 0, hs_held = 0, hs_locked = None, hs_active = None, hs_ephemeral = False, hs_transport = Ephemeral, hs_session = None,
     hs_opened = 0, hs_closed = 0, hs_auth = ex_state, hs_mechanism = [], hs_attempted = False, hs_tracker = [], hs_reloads = 0\<rparr>"

text \<open>Under NONE the client's own NTLM token goes over the transport that all clients of the route share, although
  the comment at the identities of connections says that passed-through authentication is never shared.\<close>

lemma passthrough_shared:
  "case roundTripHTTPWithProxyFallback (\<lambda>x. x) ex_retry ex_trip 0 [ex_proxy] None ex_http of
     (_, st', r) \<Rightarrow> hs_sent st' = [(routeTransport ex_proxy, ''NTLM abc'')] \<and> \<not> isl r \<and> \<not> pinned (routeTransport ex_proxy)"
  by code_simp

lemma ex_run:
  obtains sv' st' r where "roundTripHTTPWithProxyFallback (\<lambda>x. x) ex_retry ex_trip 0 [ex_proxy] None ex_http = (sv', st', r)"
    "hs_sent st' = [(routeTransport ex_proxy, ''NTLM abc'')]" "\<not> isl r"
  using passthrough_shared by (cases "roundTripHTTPWithProxyFallback (\<lambda>x. x) ex_retry ex_trip 0 [ex_proxy] None ex_http") auto

lemma ex_start:
  "validateUpstreamAuth (Auth (he_cfg ex_retry)) = None" "hs_held ex_http = 0" "hs_opened ex_http = hs_closed ex_http" "hs_sent ex_http = []"
  by code_simp+

text \<open>A cached NTLM connection of an account with a password, which the next request of that account uses.\<close>

definition ex_pool :: "unit retryEnv" where
  "ex_pool = ex_retry\<lparr>he_cfg := \<lparr>Auth = ''NTLM'', Username = ''u'', Password = ''p'', Kerberos = False, GOOS = ''linux''\<rparr>, he_passthroughAuth := []\<rparr>"

definition ex_pool_key :: string where
  "ex_pool_key = connectionAuthTransportKey ex_proxy (upstreamConnectionAuthIdentity (\<lambda>x. x) (he_cfg ex_pool)) ''NTLM''"

definition ex_pool_http :: "unit httpState" where
  "ex_pool_http = ex_http\<lparr>hs_cache := foldl transport_step (newBoundedTransportCache 64) [XInsert ex_pool_key]\<rparr>"

definition ex_pool_trip :: "nat \<Rightarrow> tripAttempt" where "ex_pool_trip i = (ex_trip i)\<lparr>ta_authenticated := True\<rparr>"

lemma ex_pool_run:
  "case roundTripHTTPWithProxyFallback (\<lambda>x. x) ex_pool ex_pool_trip 0 [ex_proxy] None ex_pool_http of
     (_, st', r) \<Rightarrow> hs_sent st' = [(PooledAuth 0, [])]"
  by code_simp

theorem connection_auth_isolated_witness:
  "\<exists>sv' st' r. roundTripHTTPWithProxyFallback (\<lambda>x. x) ex_pool ex_pool_trip 0 [ex_proxy] None ex_pool_http = (sv', st', r)
     \<and> auth_owner (tc_built (hs_cache st') ! 0) = Some (upstreamConnectionAuthIdentity (\<lambda>x. x) (he_cfg ex_pool))"
proof -
  let ?r = "roundTripHTTPWithProxyFallback (\<lambda>x. x) ex_pool ex_pool_trip 0 [ex_proxy] None ex_pool_http"
  obtain sv' st' r where run: "?r = (sv', st', r)" by (cases ?r)
  then have sent: "(PooledAuth 0, []) \<in> set (hs_sent st')" using ex_pool_run by simp
  have start: "validateUpstreamAuth (Auth (he_cfg ex_pool)) = None" "hs_held ex_pool_http = 0"
    "hs_opened ex_pool_http = hs_closed ex_pool_http" "hs_sent ex_pool_http = []"
    by code_simp+
  have "hs_cache ex_pool_http = foldl transport_step (newBoundedTransportCache 64) [XInsert ex_pool_key]"
    by (simp add: ex_pool_http_def)
  from connection_auth_isolated [OF run start this sent] run show ?thesis by auto
qed

end
