(* ===== verification/Proxy_Body.thy ===== *)
theory Proxy_Body
  imports Go_Prelude
begin

text \<open>
  Request bodies that can be replayed, \<^verbatim>\<open>internal/proxy/body.go\<close>: a body is kept in memory up to a limit and
  spooled to a temporary file beyond it; all spooled bytes are reserved from a budget that the
  requests share.

  Reading a body is a sequence of rounds. A round holds what the outside world does in it: the context's
  error before the read, the bytes and the end of the read, the outcome of creating the file and of
  the writes to it, and the outcomes of closing and removing it if the round needs them. A file
  belongs to one body, so its content is part of the body's state.
\<close>

section \<open>Budget\<close>

record replayBudget =
  bg_max :: int
  bg_used :: int

definition newReplayBudget :: "int \<Rightarrow> replayBudget" where
  "newReplayBudget m = \<lparr>bg_max = (if m < 0 then 0 else m), bg_used = 0\<rparr>"

definition reserve :: "replayBudget \<Rightarrow> int \<Rightarrow> replayBudget \<times> bool" where
  "reserve b n =
     (if n \<le> 0 then (b, True)
      else if bg_used b > bg_max b \<or> n > bg_max b - bg_used b then (b, False)
      else (b\<lparr>bg_used := bg_used b + n\<rparr>, True))"

definition release :: "replayBudget \<Rightarrow> int \<Rightarrow> replayBudget" where
  "release b n = (if n \<le> 0 then b else b\<lparr>bg_used := bg_used b - n\<rparr>)"

section \<open>Data\<close>

record replayBodyLimits =
  memoryBytes :: int
  maxBodyBytes :: int

definition defaultReplayBodyLimits :: replayBodyLimits where
  "defaultReplayBodyLimits = \<lparr>memoryBytes = 2 ^ 20, maxBodyBytes = 256 * 2 ^ 20\<rparr>"

text \<open>The local variables of the reading function: the open file is its content.\<close>

record spool =
  sp_memory :: string
  sp_file :: "string option"
  sp_path :: "string option"
  sp_reserved :: int
  sp_total :: int

definition new_spool :: spool where
  "new_spool = \<lparr>sp_memory = [], sp_file = None, sp_path = None, sp_reserved = 0, sp_total = 0\<rparr>"

record replayableBody =
  rb_data :: string
  rb_path :: "string option"
  rb_content :: string
  rb_size :: int
  rb_closed :: bool
  rb_reserved :: int

datatype removeResult = Removed | NotExist | RemoveFailed goerr
datatype readEnd = ReadMore | ReadEOF | ReadFailed goerr

record readRound =
  rr_ctx :: "goerr option"
  rr_data :: string
  rr_create :: "goerr + string"
  rr_writeMemory :: "(nat \<times> goerr option) list"
  rr_writeChunk :: "(nat \<times> goerr option) list"
  rr_end :: readEnd
  rr_ctxEnd :: "goerr option"
  rr_ctxFinal :: "goerr option"
  rr_close :: "goerr option"
  rr_remove :: removeResult

section \<open>Writing\<close>

text \<open>\<^verbatim>\<open>writeAll\<close> with the results of the calls of \<^verbatim>\<open>Write\<close>: what reached the file, and the error. A result list
  that ends too early means that a write has not returned.\<close>

fun writeAll :: "(nat \<times> goerr option) list \<Rightarrow> string \<Rightarrow> (string \<times> goerr option) option" where
  "writeAll ws [] = Some ([], None)"
| "writeAll [] (c # cs) = None"
| "writeAll ((n, e) # ws) (c # cs) =
     (case e of
        Some err \<Rightarrow> Some (take n (c # cs), Some err)
      | None \<Rightarrow>
          if n = 0 then Some ([], Some (ErrMsg ''short write''))
          else map_option (\<lambda>(out, e). (take n (c # cs) @ out, e)) (writeAll ws (drop n (c # cs))))"

definition wrap_err :: "string \<Rightarrow> goerr option \<Rightarrow> goerr option" where
  "wrap_err m = map_option (Wrapped m)"

definition errReplayBodyTooLarge :: goerr where "errReplayBodyTooLarge = ErrMsg ''replay body exceeds per-request limit''"
definition errReplaySpoolQuota :: goerr where "errReplaySpoolQuota = ErrMsg ''replay spool quota exceeded''"
definition errReplayBodyClosed :: goerr where "errReplayBodyClosed = ErrMsg ''replay body is closed''"

definition append_file :: "(nat \<times> goerr option) list \<Rightarrow> string \<Rightarrow> spool \<Rightarrow> (spool \<times> goerr option) option" where
  "append_file ws bs sp =
     map_option (\<lambda>(out, e). (sp\<lparr>sp_file := map_option (\<lambda>f. f @ out) (sp_file sp)\<rparr>, wrap_err ''write replay temp file'' e)) (writeAll ws bs)"

definition writeChunk :: "replayBodyLimits \<Rightarrow> readRound \<Rightarrow> replayBudget \<Rightarrow> spool \<Rightarrow> (replayBudget \<times> spool \<times> goerr option) option" where
  "writeChunk limits rr b sp =
     (let chunk = rr_data rr in
      if sp_file sp = None \<and> sp_total sp + int (length chunk) \<le> memoryBytes limits
      then Some (b, sp\<lparr>sp_memory := sp_memory sp @ chunk\<rparr>, None)
      else if sp_file sp = None then
        (case rr_create rr of
           Inl e \<Rightarrow> Some (b, sp, Some (Wrapped ''create replay temp file'' e))
         | Inr path \<Rightarrow>
             let sp = sp\<lparr>sp_file := Some [], sp_path := Some path\<rparr>;
                 needed = int (length (sp_memory sp)) + int (length chunk)
             in (case reserve b needed of
                   (b, False) \<Rightarrow> Some (b, sp, Some (Wrapped ''need bytes'' errReplaySpoolQuota))
                 | (b, True) \<Rightarrow>
                     let sp = sp\<lparr>sp_reserved := sp_reserved sp + needed\<rparr> in
                     (case append_file (rr_writeMemory rr) (sp_memory sp) sp of
                        None \<Rightarrow> None
                      | Some (sp, Some e) \<Rightarrow> Some (b, sp, Some e)
                      | Some (sp, None) \<Rightarrow>
                          map_option (Pair b) (append_file (rr_writeChunk rr) chunk (sp\<lparr>sp_memory := []\<rparr>)))))
      else
        let needed = int (length chunk) in
        (case reserve b needed of
           (b, False) \<Rightarrow> Some (b, sp, Some (Wrapped ''need additional bytes'' errReplaySpoolQuota))
         | (b, True) \<Rightarrow> map_option (Pair b) (append_file (rr_writeChunk rr) chunk (sp\<lparr>sp_reserved := sp_reserved sp + needed\<rparr>))))"

section \<open>Reading\<close>

text \<open>Where a body is: still being read, ready, or failed, with the reservation and the content of a file that stay because
  it could not be removed.\<close>

datatype bodyState = Reading spool | Ready replayableBody | Failed goerr int string

definition file_content :: "spool \<Rightarrow> string" where
  "file_content sp = (case sp_file sp of None \<Rightarrow> [] | Some f \<Rightarrow> f)"

text \<open>\<^verbatim>\<open>cleanup\<close>: the file is closed and removed, and the reservation is given back unless the removal failed.\<close>

definition body_cleanup :: "readRound \<Rightarrow> replayBudget \<Rightarrow> spool \<Rightarrow> goerr \<Rightarrow> replayBudget \<times> bodyState" where
  "body_cleanup rr b sp primary =
     (let closeErr = (if sp_file sp \<noteq> None then wrap_err ''close replay temp file'' (rr_close rr) else None) in
      case sp_path sp of
        Some path \<Rightarrow>
          (case rr_remove rr of
             RemoveFailed e \<Rightarrow> (b, Failed (Joined (primary # List.map_filter id [closeErr, Some (Wrapped ''remove replay temp file'' e)])) (sp_reserved sp) (file_content sp))
           | _ \<Rightarrow> (release b (sp_reserved sp), Failed (Joined (primary # List.map_filter id [closeErr])) 0 []))
      | None \<Rightarrow> (release b (sp_reserved sp), Failed (Joined (primary # List.map_filter id [closeErr])) 0 []))"

definition body_finish :: "readRound \<Rightarrow> replayBudget \<Rightarrow> spool \<Rightarrow> replayBudget \<times> bodyState" where
  "body_finish rr b sp =
     (case sp_file sp of
        None \<Rightarrow> (b, Ready \<lparr>rb_data = sp_memory sp, rb_path = None, rb_content = [], rb_size = sp_total sp, rb_closed = False, rb_reserved = 0\<rparr>)
      | Some content \<Rightarrow>
          (case rr_close rr of
             None \<Rightarrow> (b, Ready \<lparr>rb_data = [], rb_path = sp_path sp, rb_content = content, rb_size = sp_total sp, rb_closed = False, rb_reserved = sp_reserved sp\<rparr>)
           | Some ce \<Rightarrow>
               (case rr_remove rr of
                  RemoveFailed e \<Rightarrow> (b, Failed (Joined [Wrapped ''close replay temp file'' ce, Wrapped ''remove replay temp file after close failure'' e]) (sp_reserved sp) content)
                | _ \<Rightarrow> (release b (sp_reserved sp), Failed (Joined [Wrapped ''close replay temp file'' ce]) 0 []))))"

text \<open>The end of a round, after the bytes of the read were stored.\<close>

definition round_end :: "readRound \<Rightarrow> replayBudget \<Rightarrow> spool \<Rightarrow> replayBudget \<times> bodyState" where
  "round_end rr b sp =
     (case rr_end rr of
        ReadMore \<Rightarrow> (b, Reading sp)
      | ReadFailed e \<Rightarrow> body_cleanup rr b sp (case rr_ctxEnd rr of Some c \<Rightarrow> c | None \<Rightarrow> Wrapped ''read replay body'' e)
      | ReadEOF \<Rightarrow>
          (case rr_ctxEnd rr of
             Some c \<Rightarrow> body_cleanup rr b sp c
           | None \<Rightarrow> (case rr_ctxFinal rr of Some c \<Rightarrow> body_cleanup rr b sp c | None \<Rightarrow> body_finish rr b sp)))"

text \<open>One round of the loop; \<open>None\<close> while it waits for a write. A read of no bytes stores nothing.\<close>

definition body_round :: "replayBodyLimits \<Rightarrow> readRound \<Rightarrow> replayBudget \<Rightarrow> spool \<Rightarrow> (replayBudget \<times> bodyState) option" where
  "body_round limits rr b sp =
     (case rr_ctx rr of
        Some e \<Rightarrow> Some (body_cleanup rr b sp e)
      | None \<Rightarrow>
          if rr_data rr = [] then Some (round_end rr b sp)
          else if sp_total sp + int (length (rr_data rr)) > maxBodyBytes limits
          then Some (body_cleanup rr b sp (Wrapped ''body exceeds bytes'' errReplayBodyTooLarge))
          else case writeChunk limits rr b sp of
            None \<Rightarrow> None
          | Some (b, sp, Some e) \<Rightarrow> Some (body_cleanup rr b sp e)
          | Some (b, sp, None) \<Rightarrow> Some (round_end rr b (sp\<lparr>sp_total := sp_total sp + int (length (rr_data rr))\<rparr>)))"

text \<open>The checks before the loop; \<open>src\<close> is whether there is a body to read.\<close>

definition newReplayableBodyWithLimits :: "bool \<Rightarrow> int \<Rightarrow> replayBodyLimits \<Rightarrow> bodyState" where
  "newReplayableBodyWithLimits src contentLength limits =
     (if memoryBytes limits < 0 \<or> maxBodyBytes limits < 0 \<or> memoryBytes limits > maxBodyBytes limits
      then Failed (ErrMsg ''invalid replay body limits'') 0 []
      else if \<not> src then Ready \<lparr>rb_data = [], rb_path = None, rb_content = [], rb_size = 0, rb_closed = False, rb_reserved = 0\<rparr>
      else if contentLength \<ge> 0 \<and> contentLength > maxBodyBytes limits
      then Failed (Wrapped ''content length exceeds bytes'' errReplayBodyTooLarge) 0 []
      else Reading new_spool)"

fun read_body :: "replayBodyLimits \<Rightarrow> readRound list \<Rightarrow> replayBudget \<Rightarrow> bodyState \<Rightarrow> replayBudget \<times> bodyState" where
  "read_body limits (rr # rrs) b (Reading sp) =
     (case body_round limits rr b sp of None \<Rightarrow> (b, Reading sp) | Some (b, st) \<Rightarrow> read_body limits rrs b st)"
| "read_body limits rrs b st = (b, st)"

section \<open>Replaying\<close>

definition body_Open :: "replayableBody \<Rightarrow> goerr option \<Rightarrow> goerr + string" where
  "body_Open rb openErr =
     (if rb_closed rb then Inl errReplayBodyClosed
      else if rb_size rb = 0 then Inr []
      else if rb_path rb \<noteq> None then (case openErr of Some e \<Rightarrow> Inl e | None \<Rightarrow> Inr (rb_content rb))
      else Inr (rb_data rb))"

definition body_Close :: "replayBudget \<Rightarrow> replayableBody \<Rightarrow> removeResult \<Rightarrow> replayBudget \<times> replayableBody \<times> goerr option" where
  "body_Close b rb rm =
     (if rb_closed rb then (b, rb, None)
      else case (if rb_path rb \<noteq> None then rm else Removed) of
        RemoveFailed e \<Rightarrow> (b, rb, Some (Wrapped ''remove replay temp file'' e))
      | _ \<Rightarrow>
          (release b (rb_reserved rb),
           rb\<lparr>rb_data := [], rb_path := None, rb_content := [], rb_size := 0, rb_closed := True, rb_reserved := 0\<rparr>, None))"

section \<open>Many requests at once\<close>

text \<open>The bodies of all requests, which share the budget, under any interleaving of their rounds.\<close>

record bodyPool =
  po_limits :: replayBodyLimits
  po_budget :: replayBudget
  po_bodies :: "bodyState list"

datatype pool_event = PNew bool int | PRound nat readRound | PClose nat removeResult

fun pool_step :: "bodyPool \<Rightarrow> pool_event \<Rightarrow> bodyPool" where
  "pool_step p (PNew src contentLength) =
     p\<lparr>po_bodies := po_bodies p @ [newReplayableBodyWithLimits src contentLength (po_limits p)]\<rparr>"
| "pool_step p (PRound i rr) =
     (if length (po_bodies p) \<le> i then p
      else case po_bodies p ! i of
        Reading sp \<Rightarrow>
          (case body_round (po_limits p) rr (po_budget p) sp of
             None \<Rightarrow> p | Some (b, st) \<Rightarrow> p\<lparr>po_budget := b, po_bodies := (po_bodies p)[i := st]\<rparr>)
      | _ \<Rightarrow> p)"
| "pool_step p (PClose i rm) =
     (if length (po_bodies p) \<le> i then p
      else case po_bodies p ! i of
        Ready rb \<Rightarrow>
          (case body_Close (po_budget p) rb rm of
             (b, rb, _) \<Rightarrow> p\<lparr>po_budget := b, po_bodies := (po_bodies p)[i := Ready rb]\<rparr>)
      | _ \<Rightarrow> p)"

definition new_pool :: "replayBodyLimits \<Rightarrow> int \<Rightarrow> bodyPool" where
  "new_pool limits m = \<lparr>po_limits = limits, po_budget = newReplayBudget m, po_bodies = []\<rparr>"

text \<open>What a body has reserved, and how many bytes of it are in a file.\<close>

fun held :: "bodyState \<Rightarrow> int" where
  "held (Reading sp) = sp_reserved sp"
| "held (Ready rb) = rb_reserved rb"
| "held (Failed e orphan content) = orphan"

fun spooled :: "bodyState \<Rightarrow> int" where
  "spooled (Reading sp) = (case sp_file sp of None \<Rightarrow> 0 | Some f \<Rightarrow> int (length f))"
| "spooled (Ready rb) = int (length (rb_content rb))"
| "spooled (Failed e orphan content) = int (length content)"

definition body_ok :: "bodyState \<Rightarrow> bool" where
  "body_ok st \<longleftrightarrow> spooled st \<le> held st \<and> 0 \<le> held st
     \<and> (case st of Reading sp \<Rightarrow> sp_file sp = None \<longrightarrow> sp_reserved sp = 0 | _ \<Rightarrow> True)"

definition pool_ok :: "bodyPool \<Rightarrow> bool" where
  "pool_ok p \<longleftrightarrow> bg_used (po_budget p) = sum_list (map held (po_bodies p)) \<and> bg_used (po_budget p) \<le> bg_max (po_budget p)
     \<and> list_all body_ok (po_bodies p)"

section \<open>Budget accounting\<close>

lemma reserve_cases:
  "reserve b n = (b', ok) \<Longrightarrow> 0 \<le> n \<Longrightarrow> bg_used b \<le> bg_max b \<Longrightarrow>
     bg_max b' = bg_max b \<and> bg_used b' = bg_used b + (if ok then n else 0) \<and> bg_used b' \<le> bg_max b'"
  by (auto simp: reserve_def split: if_splits)

lemma release_used [simp]: "0 \<le> n \<Longrightarrow> bg_used (release b n) = bg_used b - n" "bg_max (release b n) = bg_max b"
  by (auto simp: release_def)

lemma writeAll_out: "writeAll ws bs = Some (out, e) \<Longrightarrow> length out \<le> length bs \<and> (e = None \<longrightarrow> out = bs)"
proof (induction ws bs arbitrary: out e rule: writeAll.induct)
  case (3 n err ws c cs)
  show ?case
  proof (cases "err = None \<and> n \<noteq> 0")
    case True
    with "3.prems" obtain o1 where o1: "writeAll ws (drop n (c # cs)) = Some (o1, e)" "out = take n (c # cs) @ o1"
      by (auto split: option.splits)
    with "3.IH" [OF _ _ o1(1)] True have "length o1 \<le> length (drop n (c # cs))" "e = None \<longrightarrow> o1 = drop n (c # cs)" by auto
    then have "length out \<le> length (take n (c # cs) @ drop n (c # cs))" "e = None \<longrightarrow> out = take n (c # cs) @ drop n (c # cs)"
      using o1(2) by (simp_all del: append_take_drop_id)
    then show ?thesis by simp
  next
    case False
    with "3.prems" show ?thesis by (auto split: option.splits)
  qed
qed auto

lemma append_file_out:
  "append_file ws bs sp = Some (sp', e) \<Longrightarrow> sp_file sp = Some f \<Longrightarrow>
     \<exists>out. sp' = sp\<lparr>sp_file := Some (f @ out)\<rparr> \<and> length out \<le> length bs \<and> (e = None \<longrightarrow> out = bs)"
  by (auto simp: append_file_def wrap_err_def dest!: writeAll_out)

lemma writeChunk_budget:
  assumes "writeChunk limits rr b sp = Some (b', sp', e)" "body_ok (Reading sp)" "bg_used b \<le> bg_max b"
  shows "bg_max b' = bg_max b \<and> bg_used b' - sp_reserved sp' = bg_used b - sp_reserved sp \<and> bg_used b' \<le> bg_max b' \<and> body_ok (Reading sp')"
proof (cases "sp_file sp")
  case None
  show ?thesis
  proof (cases "sp_total sp + int (length (rr_data rr)) \<le> memoryBytes limits")
    case True
    with None assms show ?thesis by (auto simp: writeChunk_def Let_def body_ok_def)
  next
    case False
    let ?n = "int (length (sp_memory sp)) + int (length (rr_data rr))"
    show ?thesis
    proof (cases "rr_create rr")
      case (Inl err)
      with None False assms show ?thesis by (auto simp: writeChunk_def Let_def)
    next
      case (Inr path)
      obtain b1 ok where r: "reserve b ?n = (b1, ok)" by fastforce
      note rc = reserve_cases [OF r _ assms(3)]
      let ?sp = "sp\<lparr>sp_file := Some [], sp_path := Some path, sp_reserved := sp_reserved sp + ?n\<rparr>"
      show ?thesis
      proof (cases ok)
        case False
        with None \<open>\<not> _ \<le> memoryBytes limits\<close> Inr r rc assms show ?thesis by (auto simp: writeChunk_def Let_def body_ok_def)
      next
        case True
        obtain sp1 e1 where a1: "append_file (rr_writeMemory rr) (sp_memory sp) ?sp = Some (sp1, e1)"
          using True None \<open>\<not> _ \<le> memoryBytes limits\<close> Inr r assms(1) by (auto simp: writeChunk_def Let_def split: option.splits)
        from append_file_out [OF a1] obtain o1 where o1: "sp1 = ?sp\<lparr>sp_file := Some o1\<rparr>" "length o1 \<le> length (sp_memory sp)" by auto
        show ?thesis
        proof (cases e1)
          case (Some err)
          with True None \<open>\<not> _ \<le> memoryBytes limits\<close> Inr r a1 o1 rc assms show ?thesis
            by (auto simp: writeChunk_def Let_def body_ok_def)
        next
          case e1: None
          have a2: "append_file (rr_writeChunk rr) (rr_data rr) (sp1\<lparr>sp_memory := []\<rparr>) = Some (sp', e)" "b' = b1"
            using True None \<open>\<not> _ \<le> memoryBytes limits\<close> Inr r a1 e1 assms(1) by (auto simp: writeChunk_def Let_def split: option.splits)
          from append_file_out [OF a2(1)] o1(1) obtain o2 where "sp' = ?sp\<lparr>sp_memory := [], sp_file := Some (o1 @ o2)\<rparr>" "length o2 \<le> length (rr_data rr)" by auto
          with o1(2) a2(2) True rc assms(2) show ?thesis by (auto simp: body_ok_def)
        qed
      qed
    qed
  qed
next
  case (Some f)
  obtain b1 ok where r: "reserve b (int (length (rr_data rr))) = (b1, ok)" by fastforce
  note rc = reserve_cases [OF r _ assms(3)]
  show ?thesis
  proof (cases ok)
    case True
    have a: "append_file (rr_writeChunk rr) (rr_data rr) (sp\<lparr>sp_reserved := sp_reserved sp + int (length (rr_data rr))\<rparr>) = Some (sp', e)" "b' = b1"
      using True Some r assms(1) by (auto simp: writeChunk_def Let_def split: option.splits)
    from append_file_out [OF a(1)] Some obtain o1 where
      "sp' = sp\<lparr>sp_reserved := sp_reserved sp + int (length (rr_data rr)), sp_file := Some (f @ o1)\<rparr>" "length o1 \<le> length (rr_data rr)" by auto
    with a(2) True rc assms(2) Some show ?thesis by (auto simp: body_ok_def)
  qed (use Some r rc assms in \<open>auto simp: writeChunk_def Let_def\<close>)
qed

lemma cleanup_budget:
  "body_cleanup rr b sp e = (b', st) \<Longrightarrow> body_ok (Reading sp) \<Longrightarrow>
     bg_max b' = bg_max b \<and> bg_used b' - held st = bg_used b - sp_reserved sp \<and> bg_used b' \<le> bg_used b \<and> body_ok st"
  by (auto simp: body_cleanup_def body_ok_def file_content_def Let_def split: option.splits removeResult.splits)

lemma finish_budget:
  "body_finish rr b sp = (b', st) \<Longrightarrow> body_ok (Reading sp) \<Longrightarrow>
     bg_max b' = bg_max b \<and> bg_used b' - held st = bg_used b - sp_reserved sp \<and> bg_used b' \<le> bg_used b \<and> body_ok st"
  by (auto simp: body_finish_def body_ok_def split: option.splits removeResult.splits)

lemma round_end_budget:
  "round_end rr b sp = (b', st) \<Longrightarrow> body_ok (Reading sp) \<Longrightarrow>
     bg_max b' = bg_max b \<and> bg_used b' - held st = bg_used b - sp_reserved sp \<and> bg_used b' \<le> bg_used b \<and> body_ok st"
  using cleanup_budget [of rr b sp _ b' st] finish_budget [of rr b sp b' st]
  by (auto simp: round_end_def split: readEnd.splits option.splits)

lemma round_budget:
  assumes "body_round limits rr b sp = Some (b', st)" "body_ok (Reading sp)" "bg_used b \<le> bg_max b"
  shows "bg_max b' = bg_max b \<and> bg_used b' - held st = bg_used b - sp_reserved sp \<and> bg_used b' \<le> bg_max b' \<and> body_ok st"
proof -
  have total: "body_ok (Reading (s\<lparr>sp_total := t\<rparr>)) = body_ok (Reading s)" for s t by (simp add: body_ok_def)
  consider (clean) e where "body_cleanup rr b sp e = (b', st)" | (none) "round_end rr b sp = (b', st)"
    | (failed) b1 sp1 e where "writeChunk limits rr b sp = Some (b1, sp1, Some e)" "body_cleanup rr b1 sp1 e = (b', st)"
    | (stored) b1 sp1 t where "writeChunk limits rr b sp = Some (b1, sp1, None)" "round_end rr b1 (sp1\<lparr>sp_total := t\<rparr>) = (b', st)"
    using assms(1) by (auto simp: body_round_def split: option.splits if_splits prod.splits)
  then show ?thesis
  proof cases
    case clean
    with cleanup_budget [OF clean assms(2)] assms(3) show ?thesis by auto
  next
    case none
    with round_end_budget [OF none assms(2)] assms(3) show ?thesis by auto
  next
    case failed
    with writeChunk_budget [OF failed(1) assms(2,3)] cleanup_budget [OF failed(2)] show ?thesis by auto
  next
    case stored
    with writeChunk_budget [OF stored(1) assms(2,3)] round_end_budget [OF stored(2)] show ?thesis by (auto simp: total)
  qed
qed

lemma close_budget:
  "body_Close b rb rm = (b', rb', e) \<Longrightarrow> body_ok (Ready rb) \<Longrightarrow>
     bg_max b' = bg_max b \<and> bg_used b' - rb_reserved rb' = bg_used b - rb_reserved rb \<and> bg_used b' \<le> bg_used b \<and> body_ok (Ready rb')"
  by (auto simp: body_Close_def body_ok_def split: if_splits removeResult.splits)

lemma body_new_ok: "body_ok (newReplayableBodyWithLimits src n limits)" "held (newReplayableBodyWithLimits src n limits) = 0"
  by (auto simp: newReplayableBodyWithLimits_def body_ok_def new_spool_def)

lemma sum_held_update:
  "i < length sts \<Longrightarrow> sum_list (map held (sts[i := st])) = sum_list (map held sts) - held (sts ! i) + held st"
  by (induction sts arbitrary: i) (auto split: nat.splits)

interpretation body_pool: machine pool_step pool_ok
proof
  fix p e
  assume ok: "pool_ok p"
  show "pool_ok (pool_step p e)"
  proof (cases e)
    case (PNew src n)
    with ok body_new_ok show ?thesis by (auto simp: pool_ok_def)
  next
    case (PRound i rr)
    show ?thesis
    proof (cases "i < length (po_bodies p)")
      case True
      then have bi: "body_ok (po_bodies p ! i)" using ok by (simp add: pool_ok_def list_all_length)
      show ?thesis
      proof (cases "po_bodies p ! i")
        case (Reading sp)
        show ?thesis
        proof (cases "body_round (po_limits p) rr (po_budget p) sp")
          case (Some r)
          obtain b st where r: "r = (b, st)" by fastforce
          from round_budget [of "po_limits p" rr "po_budget p" sp b st] Some r Reading bi ok
          have "bg_max b = bg_max (po_budget p) \<and> bg_used b - held st = bg_used (po_budget p) - sp_reserved sp \<and> bg_used b \<le> bg_max b \<and> body_ok st"
            by (simp add: pool_ok_def)
          with True PRound Reading Some r ok show ?thesis
            by (auto simp: pool_ok_def sum_held_update list_all_length nth_list_update)
        qed (use True PRound Reading ok in simp)
      qed (use True PRound ok in simp_all)
    qed (use PRound ok in simp)
  next
    case (PClose i rm)
    show ?thesis
    proof (cases "i < length (po_bodies p)")
      case True
      then have bi: "body_ok (po_bodies p ! i)" using ok by (simp add: pool_ok_def list_all_length)
      show ?thesis
      proof (cases "po_bodies p ! i")
        case (Ready rb)
        obtain b rb' er where r: "body_Close (po_budget p) rb rm = (b, rb', er)" by (cases "body_Close (po_budget p) rb rm")
        from close_budget [OF r] Ready bi True PClose r ok show ?thesis
          by (auto simp: pool_ok_def sum_held_update list_all_length nth_list_update)
      qed (use True PClose ok in simp_all)
    qed (use PClose ok in simp)
  qed
qed

section \<open>Content\<close>

definition spool_content :: "string \<Rightarrow> replayBodyLimits \<Rightarrow> spool \<Rightarrow> bool" where
  "spool_content bs limits sp \<longleftrightarrow> sp_total sp = int (length bs) \<and> sp_total sp \<le> maxBodyBytes limits
     \<and> (case sp_file sp of None \<Rightarrow> sp_memory sp = bs \<and> sp_path sp = None \<and> sp_total sp \<le> memoryBytes limits
        | Some f \<Rightarrow> f = bs \<and> sp_path sp \<noteq> None \<and> sp_total sp > memoryBytes limits)"

lemma append_file_done: "append_file ws bs sp = Some (sp', None) \<Longrightarrow> sp' = sp\<lparr>sp_file := map_option (\<lambda>f. f @ bs) (sp_file sp)\<rparr>"
  by (auto simp: append_file_def wrap_err_def dest!: writeAll_out)

lemma writeChunk_content:
  assumes "writeChunk limits rr b sp = Some (b', sp', None)" "spool_content bs limits sp"
    "sp_total sp + int (length (rr_data rr)) \<le> maxBodyBytes limits"
  shows "spool_content (bs @ rr_data rr) limits (sp'\<lparr>sp_total := sp_total sp' + int (length (rr_data rr))\<rparr>)"
proof (cases "sp_file sp")
  case None
  show ?thesis
  proof (cases "sp_total sp + int (length (rr_data rr)) \<le> memoryBytes limits")
    case True
    with None assms show ?thesis by (auto simp: writeChunk_def Let_def spool_content_def)
  next
    case False
    from assms(1) None False obtain path n sp1 where
      a1: "append_file (rr_writeMemory rr) (sp_memory sp) (sp\<lparr>sp_file := Some [], sp_path := Some path, sp_reserved := n\<rparr>) = Some (sp1, None)"
      and a2: "append_file (rr_writeChunk rr) (rr_data rr) (sp1\<lparr>sp_memory := []\<rparr>) = Some (sp', None)"
      by (auto simp: writeChunk_def Let_def split: sum.splits option.splits prod.splits bool.splits)
    from append_file_done [OF a1] append_file_done [OF a2] None False assms(2,3) show ?thesis
      by (auto simp: spool_content_def)
  qed
next
  case (Some f)
  from assms(1) Some obtain n where
    "append_file (rr_writeChunk rr) (rr_data rr) (sp\<lparr>sp_reserved := n\<rparr>) = Some (sp', None)"
    by (auto simp: writeChunk_def Let_def split: prod.splits bool.splits)
  from append_file_done [OF this] Some assms(2,3) show ?thesis by (auto simp: spool_content_def)
qed

lemma round_content:
  assumes "body_round limits rr b sp = Some (b', st)" "spool_content bs limits sp"
  shows "(\<forall>sp'. st = Reading sp' \<longrightarrow> spool_content (bs @ rr_data rr) limits sp')
    \<and> (\<forall>rb. st = Ready rb \<longrightarrow> rr_end rr = ReadEOF \<and> (\<exists>sp'. spool_content (bs @ rr_data rr) limits sp' \<and> body_finish rr b' sp' = (b', Ready rb)))"
proof -
  have clean: "body_cleanup rr b sp e \<noteq> (b', Reading sp')" "body_cleanup rr b sp e \<noteq> (b', Ready rb)" for b sp e sp' rb
    by (auto simp: body_cleanup_def Let_def split: option.splits removeResult.splits)
  have fin: "body_finish rr b sp \<noteq> (b', Reading sp')" "body_finish rr b sp = (b', Ready rb) \<Longrightarrow> b = b'" for b sp sp' rb
    by (auto simp: body_finish_def split: option.splits removeResult.splits)
  have tail: "(\<forall>sp'. st = Reading sp' \<longrightarrow> sp' = sp1) \<and> (\<forall>rb. st = Ready rb \<longrightarrow> rr_end rr = ReadEOF \<and> body_finish rr b' sp1 = (b', Ready rb))"
    if "round_end rr b1 sp1 = (b', st)" for b1 sp1
    using that clean [of b1 sp1] fin [of b1 sp1] by (auto simp: round_end_def split: readEnd.splits option.splits)
  consider (clean) b1 sp1 e where "body_cleanup rr b1 sp1 e = (b', st)" | (none) "rr_data rr = []" "round_end rr b sp = (b', st)"
    | (stored) b1 sp1 where "writeChunk limits rr b sp = Some (b1, sp1, None)"
        "sp_total sp + int (length (rr_data rr)) \<le> maxBodyBytes limits"
        "round_end rr b1 (sp1\<lparr>sp_total := sp_total sp1 + int (length (rr_data rr))\<rparr>) = (b', st)"
    using assms(1) by (auto simp: body_round_def not_less split: option.splits if_splits prod.splits)
  then show ?thesis
  proof cases
    case clean
    with \<open>\<And>rb sp' sp e b. body_cleanup rr b sp e \<noteq> (b', Ready rb)\<close> \<open>\<And>sp' sp rb e b. body_cleanup rr b sp e \<noteq> (b', Reading sp')\<close>
    show ?thesis by blast
  next
    case none
    with tail [OF none(2)] assms(2) show ?thesis by auto
  next
    case stored
    with tail [OF stored(3)] writeChunk_content [OF stored(1) assms(2) stored(2)] show ?thesis by blast
  qed
qed

definition body_bytes :: "replayableBody \<Rightarrow> string" where
  "body_bytes rb = (if rb_path rb = None then rb_data rb else rb_content rb)"

lemma read_body_content:
  assumes "read_body limits rrs b (Reading sp) = (b', Ready rb)" "spool_content bs limits sp"
  shows "\<exists>k < length rrs. rr_end (rrs ! k) = ReadEOF \<and> body_bytes rb = bs @ concat (map rr_data (take (Suc k) rrs))
    \<and> rb_size rb = int (length (body_bytes rb)) \<and> rb_size rb \<le> maxBodyBytes limits \<and> \<not> rb_closed rb
    \<and> (rb_path rb = None \<longleftrightarrow> rb_size rb \<le> memoryBytes limits)"
  using assms
proof (induction rrs arbitrary: b sp bs)
  case (Cons rr rrs)
  then obtain b1 st where r: "body_round limits rr b sp = Some (b1, st)" and rest: "read_body limits rrs b1 st = (b', Ready rb)"
    by (auto split: option.splits)
  note rc = round_content [OF r Cons.prems(2)]
  show ?case
  proof (cases st)
    case (Reading sp1)
    with rc have "spool_content (bs @ rr_data rr) limits sp1" by blast
    from Cons.IH [OF rest [unfolded Reading] this] show ?thesis by auto
  next
    case (Ready rb1)
    with rest have "rb1 = rb" by simp
    with rc Ready obtain sp1 where "rr_end rr = ReadEOF" "spool_content (bs @ rr_data rr) limits sp1" "body_finish rr b1 sp1 = (b1, Ready rb)" by blast
    then show ?thesis
      by (intro exI [of _ 0]) (auto simp: body_finish_def spool_content_def body_bytes_def split: option.splits removeResult.splits)
  next
    case (Failed e o1 left)
    with rest show ?thesis by simp
  qed
qed simp

section \<open>Properties\<close>

text \<open>C14: The spool quota holds for all requests together. Under every interleaving of the rounds and closes of
  any number of bodies, the budget in use is exactly the sum of what the bodies hold, it never exceeds the
  maximum, and the temporary file of each body, also one that a failed body could not remove, has at most the bytes that
  this body holds. So what a failed or closed body held has been given back, unless its file could not be removed.\<close>

theorem spool_quota_holds:
  fixes limits m evs
  defines "p \<equiv> foldl pool_step (new_pool limits m) evs"
  shows "bg_used (po_budget p) = sum_list (map held (po_bodies p)) \<and> bg_used (po_budget p) \<le> bg_max (po_budget p)
    \<and> list_all (\<lambda>body. spooled body \<le> held body) (po_bodies p)
    \<and> sum_list (map spooled (po_bodies p)) \<le> bg_used (po_budget p)"
proof -
  have "pool_ok (new_pool limits m)" by (simp add: pool_ok_def new_pool_def newReplayBudget_def)
  then have ok: "pool_ok p" unfolding p_def by (rule body_pool.run_inv)
  moreover have "list_all body_ok sts \<Longrightarrow> sum_list (map spooled sts) \<le> sum_list (map held sts)" for sts
    by (induction sts) (auto simp: body_ok_def)
  ultimately show ?thesis by (simp add: pool_ok_def) (simp add: list_all_iff body_ok_def)
qed

text \<open>C15: A body that was read replays exactly: every opening delivers the bytes of the reads up to the end of the
  source, in order. The size is their number and within the limit, and the body is in memory exactly when
  it is within the memory limit.\<close>

theorem replay_exact:
  assumes "read_body limits rrs b (newReplayableBodyWithLimits True contentLength limits) = (b', Ready rb)"
  shows "\<exists>k < length rrs. rr_end (rrs ! k) = ReadEOF
    \<and> body_Open rb None = Inr (concat (map rr_data (take (Suc k) rrs))) \<and> rb_size rb = int (length (concat (map rr_data (take (Suc k) rrs))))
    \<and> rb_size rb \<le> maxBodyBytes limits \<and> (rb_path rb = None \<longleftrightarrow> rb_size rb \<le> memoryBytes limits)"
proof -
  have "newReplayableBodyWithLimits True contentLength limits = Reading new_spool" "spool_content [] limits new_spool"
    using assms by (auto simp: newReplayableBodyWithLimits_def spool_content_def new_spool_def split: if_splits)
  with read_body_content [of limits rrs b new_spool b' rb "[]"] assms obtain k where k: "k < length rrs" "rr_end (rrs ! k) = ReadEOF"
    "body_bytes rb = concat (map rr_data (take (Suc k) rrs))" "rb_size rb = int (length (body_bytes rb))"
    "rb_size rb \<le> maxBodyBytes limits" "\<not> rb_closed rb" "rb_path rb = None \<longleftrightarrow> rb_size rb \<le> memoryBytes limits" by auto
  have "body_Open rb None = Inr (body_bytes rb)" using k(4,6) by (auto simp: body_Open_def body_bytes_def)
  with k show ?thesis by (intro exI [of _ k] conjI) (simp_all only:)
qed

definition ex_round :: "string \<Rightarrow> readEnd \<Rightarrow> readRound" where
  "ex_round bs e = \<lparr>rr_ctx = None, rr_data = bs, rr_create = Inr ''/tmp/x'', rr_writeMemory = [(9, None)], rr_writeChunk = [(1, None), (9, None)],
     rr_end = e, rr_ctxEnd = None, rr_ctxFinal = None, rr_close = None, rr_remove = Removed\<rparr>"

definition ex_limits :: replayBodyLimits where "ex_limits = \<lparr>memoryBytes = 3, maxBodyBytes = 10\<rparr>"

definition ex_reads :: "readRound list" where "ex_reads = [ex_round ''ab'' ReadMore, ex_round ''cd'' ReadEOF]"

theorem replay_exact_witness:
  "\<exists>b' rb. read_body ex_limits ex_reads (newReplayBudget 8) (newReplayableBodyWithLimits True 4 ex_limits) = (b', Ready rb)
    \<and> rb_size rb = 4 \<and> rb_path rb \<noteq> None \<and> body_Open rb None = Inr ''abcd''"
proof -
  let ?r = "read_body ex_limits ex_reads (newReplayBudget 8) (newReplayableBodyWithLimits True 4 ex_limits)"
  have "(case snd ?r of Ready rb \<Rightarrow> rb_size rb = 4 | _ \<Rightarrow> False)" by code_simp
  then obtain b' rb where r: "?r = (b', Ready rb)" "rb_size rb = 4" by (cases ?r; cases "snd ?r") auto
  obtain k where k: "k < length ex_reads" "rr_end (ex_reads ! k) = ReadEOF"
    "body_Open rb None = Inr (concat (map rr_data (take (Suc k) ex_reads)))"
    "rb_path rb = None \<longleftrightarrow> rb_size rb \<le> memoryBytes ex_limits"
    using replay_exact [OF r(1)] by (elim exE conjE) (rule that)
  moreover have "k = 1" using k(1,2) by (cases k) (auto simp: ex_round_def ex_reads_def)
  ultimately show ?thesis using r by (auto simp: ex_round_def ex_limits_def ex_reads_def)
qed

end
