(* ===== verification/Http_Header.thy ===== *)
theory Http_Header
  imports Go_Prelude
begin

text \<open>
  The headers of Go's \<^verbatim>\<open>net/http\<close>: maps from canonical names to the values in the order in which they
  were added. \<open>canon\<close> is \<^verbatim>\<open>textproto.CanonicalMIMEHeaderKey\<close>: a name that consists of token
  characters gets a capital letter at its start and after every hyphen and small letters elsewhere;
  any other name is left as it is. The lemmas give the values of a name after each operation.
\<close>

type_synonym header = "(string, string list) gomap"

definition token_char :: "char \<Rightarrow> bool" where
  "token_char c \<longleftrightarrow> (let n = of_char c :: nat in
     48 \<le> n \<and> n \<le> 57 \<or> 65 \<le> n \<and> n \<le> 90 \<or> 97 \<le> n \<and> n \<le> 122
     \<or> c \<in> set [CHR 0x21, CHR 0x23, CHR 0x24, CHR 0x25, CHR 0x26, CHR 0x27, CHR 0x2A, CHR 0x2B, CHR 0x2D, CHR 0x2E,
         CHR 0x5E, CHR 0x5F, CHR 0x60, CHR 0x7C, CHR 0x7E])"

fun canon_loop :: "bool \<Rightarrow> string \<Rightarrow> string" where
  "canon_loop up [] = []"
| "canon_loop up (c # cs) = (let d = (if up then upper_char c else lower_char c) in d # canon_loop (d = CHR ''-'') cs)"

definition canon :: "string \<Rightarrow> string" where
  "canon s = (if list_all token_char s then canon_loop True s else s)"

definition header_Values :: "header \<Rightarrow> string \<Rightarrow> string list" where
  "header_Values h k = (case gm_get h (canon k) of Some vs \<Rightarrow> vs | None \<Rightarrow> [])"

definition header_Get :: "header \<Rightarrow> string \<Rightarrow> string" where
  "header_Get h k = (case header_Values h k of [] \<Rightarrow> [] | v # _ \<Rightarrow> v)"

definition header_Add :: "header \<Rightarrow> string \<Rightarrow> string \<Rightarrow> header" where
  "header_Add h k v = gm_put (canon k) (header_Values h k @ [v]) h"

definition header_Set :: "header \<Rightarrow> string \<Rightarrow> string \<Rightarrow> header" where
  "header_Set h k v = gm_put (canon k) [v] h"

definition header_Del :: "string \<Rightarrow> header \<Rightarrow> header" where
  "header_Del k h = gm_del (canon k) h"

text \<open>The headers that the server reads from a connection have canonical names.\<close>

definition header_ok :: "header \<Rightarrow> bool" where
  "header_ok h \<longleftrightarrow> gm_ok h \<and> list_all (\<lambda>(k, _). canon k = k) h"

section \<open>Names\<close>

lemma lower_upper [simp]: "lower_char (upper_char c) = lower_char c"
  by (auto simp: lower_char_def upper_char_def Let_def)

lemma canon_loop_lower: "to_lower (canon_loop up s) = to_lower s"
  by (induction up s rule: canon_loop.induct) (auto simp: to_lower_def Let_def)

lemma canon_lower [simp]: "to_lower (canon s) = to_lower s"
  by (simp add: canon_def canon_loop_lower)

lemma canon_eq_lower: "canon s = canon t \<Longrightarrow> to_lower s = to_lower t"
  by (metis canon_lower)

lemma token_case [simp]: "token_char (upper_char c) = token_char c" "token_char (lower_char c) = token_char c"
  by (auto simp: token_char_def upper_char_def lower_char_def Let_def)

lemma canon_loop_token: "list_all token_char (canon_loop up s) = list_all token_char s"
  by (induction up s rule: canon_loop.induct) (auto simp: Let_def)

lemma upper_char_upper [simp]: "upper_char (upper_char c) = upper_char c"
  by (auto simp: upper_char_def Let_def)

lemma canon_loop_idem: "canon_loop up (canon_loop up s) = canon_loop up s"
  by (induction up s rule: canon_loop.induct) (auto simp: Let_def)

lemma canon_idem [simp]: "canon (canon s) = canon s"
  by (simp add: canon_def canon_loop_token canon_loop_idem)

section \<open>Values after an operation\<close>

lemma values_Nil [simp]: "header_Values [] k = []"
  by (simp add: header_Values_def)

lemma values_canon [simp]: "header_Values h (canon k) = header_Values h k"
  by (simp add: header_Values_def)

lemma values_Add: "header_Values (header_Add h k v) j = header_Values h j @ (if canon j = canon k then [v] else [])"
  by (auto simp: header_Add_def header_Values_def go_map split: option.splits)

lemma values_Set: "header_Values (header_Set h k v) j = (if canon j = canon k then [v] else header_Values h j)"
  by (auto simp: header_Set_def header_Values_def go_map)

lemma values_Del: "header_Values (header_Del k h) j = (if canon j = canon k then [] else header_Values h j)"
  by (auto simp: header_Del_def header_Values_def go_map)

lemma values_fold_Del:
  "header_Values (fold header_Del ks h) j = (if canon j \<in> canon ` set ks then [] else header_Values h j)"
  by (induction ks arbitrary: h) (auto simp: values_Del)

lemma ok_Nil [simp]: "header_ok []"
  by (simp add: header_ok_def)

lemma ok_put: "header_ok h \<Longrightarrow> header_ok (gm_put (canon k) vs h)"
  by (auto simp: header_ok_def list_all_iff gm_ok_put dest: gm_in_put)

lemma ok_Add: "header_ok h \<Longrightarrow> header_ok (header_Add h k v)"
  and ok_Set: "header_ok h \<Longrightarrow> header_ok (header_Set h k v)"
  by (simp_all add: header_Add_def header_Set_def ok_put)

lemma ok_Del: "header_ok h \<Longrightarrow> header_ok (header_Del k h)"
  by (auto simp: header_ok_def header_Del_def list_all_iff gm_ok_del gm_in_del)

lemma values_key: "header_Values h k \<noteq> [] \<Longrightarrow> canon k \<in> set (map fst h)"
  by (auto simp: header_Values_def split: option.splits dest: gm_get_in intro: rev_image_eqI)

section \<open>Copies\<close>

definition copyHeader :: "header \<Rightarrow> header \<Rightarrow> header" where
  "copyHeader dst src = fold (\<lambda>(k, vv) d. fold (\<lambda>v d. header_Add d k v) vv d) src dst"

definition cloneHeader :: "header \<Rightarrow> header" where
  "cloneHeader h = copyHeader [] h"

definition clearHeader :: "header \<Rightarrow> header" where
  "clearHeader h = fold header_Del (map fst h) h"

lemma values_fold_Add:
  "header_Values (fold (\<lambda>v d. header_Add d k v) vv d) j = header_Values d j @ (if canon j = canon k then vv else [])"
  by (induction vv arbitrary: d) (auto simp: values_Add)

lemma values_copy_all:
  "header_Values (copyHeader dst src) j = header_Values dst j @ concat (map snd (filter (\<lambda>(k, _). canon k = canon j) src))"
  by (induction src arbitrary: dst) (auto simp: copyHeader_def values_fold_Add)

lemma filter_key:
  "gm_ok h \<Longrightarrow> filter (\<lambda>(k, _). k = x) h = (case gm_get h x of Some vs \<Rightarrow> [(x, vs)] | None \<Rightarrow> [])"
proof (induction h)
  case (Cons a h)
  then show ?case by (cases a) (force simp: filter_empty_conv split: option.splits dest: gm_get_in)
qed simp

lemma values_copy:
  assumes "header_ok src"
  shows "header_Values (copyHeader dst src) j = header_Values dst j @ header_Values src j"
proof -
  have "filter (\<lambda>(k, _). canon k = canon j) src = filter (\<lambda>(k, _). k = canon j) src"
    using assms by (intro filter_cong) (auto simp: header_ok_def list_all_iff)
  also have "concat (map snd \<dots>) = header_Values src j"
    using assms by (simp add: header_ok_def filter_key header_Values_def split: option.splits)
  finally show ?thesis by (simp add: values_copy_all)
qed

lemma values_clone: "header_ok h \<Longrightarrow> header_Values (cloneHeader h) j = header_Values h j"
  by (simp add: cloneHeader_def values_copy)

lemma ok_copy: "header_ok dst \<Longrightarrow> header_ok (copyHeader dst src)"
proof -
  have *: "header_ok d \<Longrightarrow> header_ok (fold (\<lambda>v d. header_Add d k v) vv d)" for d k vv
    by (induction vv arbitrary: d) (auto simp: ok_Add)
  show "header_ok dst \<Longrightarrow> header_ok (copyHeader dst src)"
    unfolding copyHeader_def by (induction src arbitrary: dst) (auto simp: *)
qed

lemma ok_clone [simp]: "header_ok (cloneHeader h)"
  by (simp add: cloneHeader_def ok_copy)

lemma ok_fold_Del: "header_ok h \<Longrightarrow> header_ok (fold header_Del ks h)"
  by (induction ks arbitrary: h) (auto simp: ok_Del)

lemma values_clear: "header_ok h \<Longrightarrow> header_Values (clearHeader h) j = []"
  using values_key [of h j] unfolding clearHeader_def values_fold_Del
  by (cases "header_Values h j = []") (force simp: image_iff)+

lemma ok_clear: "header_ok h \<Longrightarrow> header_ok (clearHeader h)"
  by (simp add: clearHeader_def ok_fold_Del)

end
