(* ===== verification/Proxy_Intermediary.thy ===== *)
theory Proxy_Intermediary
  imports Http_Header
begin

text \<open>
  The duties of an intermediary, \<^verbatim>\<open>internal/proxy/intermediary.go\<close>, and the headers of outbound
  requests from \<^verbatim>\<open>internal/proxy/proxy.go\<close>: which headers are removed, which are added, and what a
  response writer gets for informational and final responses.
\<close>

section \<open>Header filters\<close>

definition pxgoVia :: string where "pxgoVia = ''1.1 pxgo''"
definition headerConnection :: string where "headerConnection = ''Connection''"
definition headerKeepAlive :: string where "headerKeepAlive = ''Keep-Alive''"

definition fixedHopByHopHeaders :: "string list" where
  "fixedHopByHopHeaders =
     [headerConnection, headerKeepAlive, ''Proxy-Connection'', ''TE'', ''Transfer-Encoding'', ''Upgrade'']"

text \<open>The names that the values of \<^verbatim>\<open>Connection\<close> list.\<close>

definition connection_names :: "header \<Rightarrow> string list" where
  "connection_names h =
     filter (\<lambda>name. name \<noteq> []) (map trim_space (concat (map (split_on (CHR '','')) (header_Values h headerConnection))))"

text \<open>The last loop deletes while it ranges over the map; a name that was deleted is not visited any more,
  which makes no difference, as a visit could only delete it.\<close>

definition stripIntermediaryHeaders :: "header \<Rightarrow> bool \<Rightarrow> header" where
  "stripIntermediaryHeaders h stripProxyAuth =
     (let h = fold header_Del (connection_names h) h;
          h = fold header_Del fixedHopByHopHeaders h
      in fold (\<lambda>key h.
           if \<not> has_prefix (to_lower key) ''proxy-'' then h
           else if \<not> stripProxyAuth \<and> equal_fold key ''Proxy-Authenticate'' then h
           else header_Del key h) (map fst h) h)"

definition appendVia :: "header \<Rightarrow> header" where
  "appendVia h = header_Add h ''Via'' pxgoVia"

definition headerContainsToken :: "header \<Rightarrow> string \<Rightarrow> string \<Rightarrow> bool" where
  "headerContainsToken h key want \<longleftrightarrow>
     list_ex (\<lambda>val. list_ex (\<lambda>token. equal_fold (trim_space token) want) (split_on (CHR '','') val)) (header_Values h key)"

definition requestedUpgrade :: "header \<Rightarrow> string" where
  "requestedUpgrade h =
     (if \<not> headerContainsToken h headerConnection ''upgrade'' then [] else trim_space (header_Get h ''Upgrade''))"

text \<open>The headers of an outbound request; \<open>userAgent\<close> is the configured one.\<close>

definition outbound_header :: "string \<Rightarrow> header \<Rightarrow> string \<Rightarrow> header" where
  "outbound_header userAgent reqHeader proxyAuth =
     (let upgrade = requestedUpgrade reqHeader;
          h = stripIntermediaryHeaders (cloneHeader reqHeader) True;
          h = (if upgrade \<noteq> [] then header_Set (header_Set h headerConnection ''Upgrade'') ''Upgrade'' upgrade else h);
          h = appendVia h;
          h = (if userAgent \<noteq> [] then header_Set h ''User-Agent'' userAgent else h)
      in if proxyAuth \<noteq> [] then header_Set h ''Proxy-Authorization'' proxyAuth else h)"

text \<open>The headers of the response that switches protocols, \<^verbatim>\<open>handleHTTPUpgrade\<close>.\<close>

definition upgrade_response_header :: "header \<Rightarrow> header" where
  "upgrade_response_header respHeader =
     (let upgrade = trim_space (header_Get respHeader ''Upgrade'');
          h = header_Set (stripIntermediaryHeaders (cloneHeader respHeader) True) headerConnection ''Upgrade'';
          h = (if upgrade \<noteq> [] then header_Set h ''Upgrade'' upgrade else h)
      in appendVia h)"

section \<open>Response writers\<close>

text \<open>A response writer: its header map, the calls of \<^verbatim>\<open>WriteHeader\<close> with the headers that were sent, and
  the bytes of the body.\<close>

record responseWriter =
  rw_Header :: header
  rw_Sent :: "(int \<times> header) list"
  rw_Body :: string

definition WriteHeader :: "responseWriter \<Rightarrow> int \<Rightarrow> responseWriter" where
  "WriteHeader rw code = rw\<lparr>rw_Sent := rw_Sent rw @ [(code, rw_Header rw)]\<rparr>"

definition writeInformationalResponse :: "responseWriter \<Rightarrow> int \<Rightarrow> header \<Rightarrow> responseWriter" where
  "writeInformationalResponse rw code h =
     (let saved = cloneHeader (rw_Header rw);
          rw = rw\<lparr>rw_Header := clearHeader (rw_Header rw)\<rparr>;
          clean = appendVia (stripIntermediaryHeaders (cloneHeader h) True);
          rw = rw\<lparr>rw_Header := copyHeader (rw_Header rw) clean\<rparr>;
          rw = WriteHeader rw code;
          rw = rw\<lparr>rw_Header := clearHeader (rw_Header rw)\<rparr>
      in rw\<lparr>rw_Header := copyHeader (rw_Header rw) saved\<rparr>)"

text \<open>The hook for 1xx responses: 101 is handled later.\<close>

definition got1xxResponse :: "responseWriter \<Rightarrow> int \<Rightarrow> header \<Rightarrow> responseWriter" where
  "got1xxResponse rw code h = (if code = 101 then rw else writeInformationalResponse rw code h)"

text \<open>A response: the trailer map has its names before the body is read and its values afterwards; \<open>Body\<close>
  is what copying the body delivers.\<close>

record httpResponse =
  resp_StatusCode :: int
  resp_Header :: header
  resp_TrailerNames :: "string list"
  resp_Body :: string
  resp_Trailer :: header

definition announce_trailers :: "string list \<Rightarrow> header \<Rightarrow> header" where
  "announce_trailers names h =
     fold (\<lambda>key h. if \<not> headerContainsToken h ''Trailer'' key then header_Add h ''Trailer'' key else h) names h"

definition writeHTTPResponse :: "string \<Rightarrow> responseWriter \<Rightarrow> httpResponse \<Rightarrow> responseWriter" where
  "writeHTTPResponse cfgAuth rw resp =
     (let h = cloneHeader (resp_Header resp);
          preserveParentChallenge = (resp_StatusCode resp = 407 \<and> equal_fold (trim_space cfgAuth) ''NONE'');
          h = stripIntermediaryHeaders h (\<not> preserveParentChallenge);
          h = appendVia h;
          h = announce_trailers (resp_TrailerNames resp) h;
          rw = rw\<lparr>rw_Header := copyHeader (rw_Header rw) h\<rparr>;
          rw = WriteHeader rw (resp_StatusCode resp);
          rw = rw\<lparr>rw_Body := rw_Body rw @ resp_Body resp\<rparr>
      in rw\<lparr>rw_Header := fold (\<lambda>(key, values) h. fold (\<lambda>v h. header_Add h key v) values (header_Del key h)) (resp_Trailer resp) (rw_Header rw)\<rparr>)"

section \<open>What the filter removes\<close>

text \<open>The specification: a header is dropped if \<^verbatim>\<open>Connection\<close> names it, if it is a hop-by-hop header, or if
  its name starts with \<^verbatim>\<open>Proxy-\<close>, except for \<^verbatim>\<open>Proxy-Authenticate\<close> when it is to be kept.\<close>

definition dropped :: "header \<Rightarrow> bool \<Rightarrow> string \<Rightarrow> bool" where
  "dropped h stripProxyAuth k \<longleftrightarrow>
     canon k \<in> canon ` set (connection_names h) \<or> canon k \<in> canon ` set fixedHopByHopHeaders
     \<or> has_prefix (to_lower k) ''proxy-'' \<and> (stripProxyAuth \<or> \<not> equal_fold k ''Proxy-Authenticate'')"

lemma values_fold_if:
  "header_Values (fold (\<lambda>key h. if \<not> P key then h else if Q key then h else header_Del key h) ks h) j =
     (if \<exists>key \<in> set ks. canon key = canon j \<and> P key \<and> \<not> Q key then [] else header_Values h j)"
  by (induction ks arbitrary: h) (auto simp: values_Del)

lemma fold_if_names:
  assumes "\<And>a b. to_lower a = to_lower b \<Longrightarrow> P a = P b" "\<And>a b. to_lower a = to_lower b \<Longrightarrow> Q a = Q b"
  shows "header_Values (fold (\<lambda>key h. if \<not> P key then h else if Q key then h else header_Del key h) (map fst h) h) j =
     (if P j \<and> \<not> Q j then [] else header_Values h j)"
proof (cases "header_Values h j = []")
  case False
  have "(\<exists>key \<in> set (map fst h). canon key = canon j \<and> P key \<and> \<not> Q key) \<longleftrightarrow> P j \<and> \<not> Q j"
  proof
    assume "P j \<and> \<not> Q j"
    then have "P (canon j) \<and> \<not> Q (canon j)" using assms [of "canon j" j] by simp
    then show "\<exists>key \<in> set (map fst h). canon key = canon j \<and> P key \<and> \<not> Q key"
      using values_key [OF False] by (intro bexI [of _ "canon j"]) simp_all
  qed (use assms canon_eq_lower in blast)
  then show ?thesis by (simp only: values_fold_if)
qed (simp only: values_fold_if if_cancel)

lemma values_strip:
  "header_Values (stripIntermediaryHeaders h b) j = (if dropped h b j then [] else header_Values h j)"
proof -
  have "header_Values (stripIntermediaryHeaders h b) j =
    (if has_prefix (to_lower j) ''proxy-'' \<and> \<not> (\<not> b \<and> equal_fold j ''Proxy-Authenticate'') then []
     else header_Values (fold header_Del fixedHopByHopHeaders (fold header_Del (connection_names h) h)) j)"
    unfolding stripIntermediaryHeaders_def Let_def
    by (rule fold_if_names [where P = "\<lambda>k. has_prefix (to_lower k) ''proxy-''" and Q = "\<lambda>k. \<not> b \<and> equal_fold k ''Proxy-Authenticate''"])
       (simp_all add: equal_fold_def)
  then show ?thesis by (auto simp: values_fold_Del dropped_def)
qed

lemma names_clone: "header_ok h \<Longrightarrow> connection_names (cloneHeader h) = connection_names h"
  by (simp add: connection_names_def values_clone)

lemma dropped_clone: "header_ok h \<Longrightarrow> dropped (cloneHeader h) b k = dropped h b k"
  by (simp add: dropped_def names_clone)

lemma values_filtered:
  "header_ok h \<Longrightarrow> header_Values (stripIntermediaryHeaders (cloneHeader h) b) k = (if dropped h b k then [] else header_Values h k)"
  by (simp add: values_strip dropped_clone values_clone)

lemma dropped_fixed: "k \<in> set fixedHopByHopHeaders \<Longrightarrow> canon j = canon k \<Longrightarrow> dropped h b j"
  by (auto simp: dropped_def)

lemma ok_strip: "header_ok h \<Longrightarrow> header_ok (stripIntermediaryHeaders h b)"
proof -
  have *: "header_ok d \<Longrightarrow> header_ok (fold (\<lambda>key h. if \<not> P key then h else if Q key then h else header_Del key h) ks d)" for d P Q ks
    by (induction ks arbitrary: d) (auto simp: ok_Del)
  show "header_ok h \<Longrightarrow> header_ok (stripIntermediaryHeaders h b)"
    unfolding stripIntermediaryHeaders_def Let_def by (intro * ok_fold_Del)
qed

lemma ok_via: "header_ok h \<Longrightarrow> header_ok (appendVia h)"
  by (simp add: appendVia_def ok_Add)

lemma canon_names:
  "canon ''Via'' = ''Via''" "canon ''Upgrade'' = ''Upgrade''" "canon ''User-Agent'' = ''User-Agent''"
  "canon ''Proxy-Authorization'' = ''Proxy-Authorization''" "canon headerConnection = ''Connection''" "canon ''Trailer'' = ''Trailer''"
  by code_simp+

lemma dropped_names: "dropped h b k" if "canon k = ''Connection'' \<or> canon k = ''Upgrade''"
  using that dropped_fixed [of headerConnection k] dropped_fixed [of "''Upgrade''" k]
  by (auto simp: fixedHopByHopHeaders_def canon_names)

lemma dropped_proxy_auth: "canon k = ''Proxy-Authorization'' \<Longrightarrow> dropped h True k"
proof -
  assume "canon k = ''Proxy-Authorization''"
  then have "canon k = canon ''Proxy-Authorization''" by (simp only: canon_names)
  then have "to_lower k = to_lower ''Proxy-Authorization''" by (rule canon_eq_lower)
  moreover have "has_prefix (to_lower ''Proxy-Authorization'') ''proxy-''" by code_simp
  ultimately show ?thesis by (simp add: dropped_def)
qed

section \<open>Properties\<close>

text \<open>C16: The headers of an outbound request. Of the client's headers exactly those are sent that are
  neither hop-by-hop, nor named by Connection, nor proxy headers, with their values in order. The
  proxy's own token is appended to Via. Proxy-Authorization holds only the credentials made for the
  upstream proxy, never those of the client. Connection and Upgrade are sent only for a requested
  upgrade, and the configured user agent replaces that of the client.\<close>

theorem outbound_headers_exact:
  assumes "header_ok h"
  shows "header_Values (outbound_header userAgent h proxyAuth) k =
    (if canon k = ''Proxy-Authorization'' then (if proxyAuth = [] then [] else [proxyAuth])
     else if canon k = ''Connection'' then (if requestedUpgrade h = [] then [] else [''Upgrade''])
     else if canon k = ''Upgrade'' then (if requestedUpgrade h = [] then [] else [requestedUpgrade h])
     else if canon k = ''User-Agent'' \<and> userAgent \<noteq> [] then [userAgent]
     else (if dropped h True k then [] else header_Values h k) @ (if canon k = ''Via'' then [pxgoVia] else []))"
  using dropped_names [of k h True] dropped_proxy_auth [of k h]
  by (simp add: outbound_header_def Let_def appendVia_def values_Set values_Add values_filtered [OF assms] canon_names)

definition ex_header :: header where
  "ex_header = [(''Connection'', [''close, X-Trace'']), (''X-Trace'', [''1'']), (''Proxy-Authorization'', [''Basic c2VjcmV0'']),
     (''Accept'', [''a'', ''b'']), (''Via'', [''1.0 x''])]"

theorem outbound_headers_exact_witness:
  "map (header_Values (outbound_header [] ex_header [])) [''proxy-authorization'', ''x-trace'', ''accept'', ''via'', ''connection'']
    = [[], [], [''a'', ''b''], [''1.0 x'', ''1.1 pxgo''], []]"
proof -
  have ok: "header_ok ex_header" by code_simp
  have "map (\<lambda>k. dropped ex_header True k) [''x-trace'', ''accept'', ''via''] = [True, False, False]" by code_simp
  moreover have "map canon [''proxy-authorization'', ''x-trace'', ''accept'', ''via'', ''connection''] =
    [''Proxy-Authorization'', ''X-Trace'', ''Accept'', ''Via'', ''Connection'']" by code_simp
  moreover have "requestedUpgrade ex_header = []" "header_Values ex_header ''accept'' = [''a'', ''b'']" "header_Values ex_header ''via'' = [''1.0 x'']"
    by code_simp+
  ultimately show ?thesis by (simp add: outbound_headers_exact [OF ok] pxgoVia_def)
qed

text \<open>An informational response is sent with its own filtered headers, and the headers that the final
  response will have are those from before.\<close>

theorem informational_restores:
  assumes "header_ok (rw_Header rw)" "header_ok h"
  shows "\<exists>sent. writeInformationalResponse rw code h =
        rw\<lparr>rw_Header := rw_Header (writeInformationalResponse rw code h), rw_Sent := rw_Sent rw @ [(code, sent)]\<rparr>
      \<and> (\<forall>k. header_Values (rw_Header (writeInformationalResponse rw code h)) k = header_Values (rw_Header rw) k
           \<and> header_Values sent k = (if dropped h True k then [] else header_Values h k) @ (if canon k = ''Via'' then [pxgoVia] else []))"
proof -
  let ?clean = "appendVia (stripIntermediaryHeaders (cloneHeader h) True)"
  let ?sent = "copyHeader (clearHeader (rw_Header rw)) ?clean"
  have ok: "header_ok ?clean" "header_ok ?sent" using assms by (simp_all add: ok_via ok_strip ok_copy ok_clear)
  have sent: "header_Values ?sent k = (if dropped h True k then [] else header_Values h k) @ (if canon k = ''Via'' then [pxgoVia] else [])" for k
    by (simp only: values_copy [OF ok(1)] values_clear [OF assms(1)]) (simp add: appendVia_def values_Add values_filtered [OF assms(2)] canon_names)
  have fin: "header_Values (copyHeader (clearHeader ?sent) (cloneHeader (rw_Header rw))) k = header_Values (rw_Header rw) k" for k
    by (simp add: values_copy values_clear [OF ok(2)] values_clone [OF assms(1)])
  have eq: "writeInformationalResponse rw code h =
      rw\<lparr>rw_Header := copyHeader (clearHeader ?sent) (cloneHeader (rw_Header rw)), rw_Sent := rw_Sent rw @ [(code, ?sent)]\<rparr>"
    by (simp add: writeInformationalResponse_def Let_def WriteHeader_def)
  show ?thesis
    unfolding eq by (rule exI [of _ ?sent]) (simp add: sent fin)
qed

lemma values_announce:
  "canon k \<noteq> ''Trailer'' \<Longrightarrow>
     header_Values (announce_trailers names h) k = header_Values h k"
  by (induction names arbitrary: h) (auto simp: announce_trailers_def values_Add canon_names)

lemma announce_mono:
  "headerContainsToken h ''Trailer'' n \<Longrightarrow>
     headerContainsToken (announce_trailers names h) ''Trailer'' n"
proof (induction names arbitrary: h)
  case (Cons name names)
  have "headerContainsToken (header_Add h ''Trailer'' name) ''Trailer'' n"
    using Cons.prems by (auto simp: headerContainsToken_def values_Add list_ex_iff)
  with Cons show ?case by (simp add: announce_trailers_def)
qed (simp add: announce_trailers_def)

lemma token_plain: "list_all token_char s \<Longrightarrow> CHR '','' \<notin> set s \<and> (\<forall>c \<in> set s. \<not> go_space c)"
proof -
  have "\<not> token_char (CHR '','')" "go_space c \<Longrightarrow> \<not> token_char c" for c
    by (auto simp: token_char_def go_space_def)
  then show "list_all token_char s \<Longrightarrow> CHR '','' \<notin> set s \<and> (\<forall>c \<in> set s. \<not> go_space c)"
    by (auto simp: list_all_iff)
qed

lemma contains_suffix:
  "header_Values g k = xs @ header_Values h k \<Longrightarrow> headerContainsToken h k n \<Longrightarrow> headerContainsToken g k n"
  by (simp add: headerContainsToken_def)

lemma announced:
  "n \<in> set names \<Longrightarrow> list_all token_char n \<Longrightarrow>
     headerContainsToken (announce_trailers names h) ''Trailer'' n"
proof (induction names arbitrary: h)
  case (Cons name names)
  have "headerContainsToken (header_Add h ''Trailer'' n) ''Trailer'' n"
    using token_plain [OF Cons.prems(2)]
    by (auto simp: headerContainsToken_def values_Add list_ex_iff split_on_none trim_space_id)
  with Cons show ?case by (cases "name = n") (auto simp: announce_trailers_def intro: announce_mono [unfolded announce_trailers_def])
qed simp

text \<open>A final response is sent once, with its status. Each of its headers that is not hop-by-hop, named by
  Connection or a proxy header is passed on; the challenges of the upstream proxy are passed on exactly
  for a 407 when upstream authentication is left to the client. Every trailer is announced.\<close>

theorem final_response_headers:
  assumes "header_ok (resp_Header resp)" "list_all (list_all token_char) (resp_TrailerNames resp)"
  shows "\<exists>sent. rw_Sent (writeHTTPResponse cfgAuth rw resp) = rw_Sent rw @ [(resp_StatusCode resp, sent)]
    \<and> rw_Body (writeHTTPResponse cfgAuth rw resp) = rw_Body rw @ resp_Body resp
    \<and> (\<forall>k. canon k \<noteq> ''Trailer'' \<longrightarrow> header_Values sent k = header_Values (rw_Header rw) k
         @ (if dropped (resp_Header resp) (\<not> (resp_StatusCode resp = 407 \<and> equal_fold (trim_space cfgAuth) ''NONE'')) k then []
            else header_Values (resp_Header resp) k)
         @ (if canon k = ''Via'' then [pxgoVia] else []))
    \<and> (\<forall>name \<in> set (resp_TrailerNames resp). headerContainsToken sent ''Trailer'' name)"
proof -
  let ?b = "\<not> (resp_StatusCode resp = 407 \<and> equal_fold (trim_space cfgAuth) ''NONE'')"
  let ?h = "announce_trailers (resp_TrailerNames resp)
    (appendVia (stripIntermediaryHeaders (cloneHeader (resp_Header resp)) ?b))"
  let ?sent = "copyHeader (rw_Header rw) ?h"
  have ok: "header_ok ?h"
  proof -
    have "header_ok d \<Longrightarrow> header_ok (announce_trailers names d)" for d names
      by (induction names arbitrary: d) (auto simp: announce_trailers_def ok_Add)
    then show ?thesis by (simp add: ok_via ok_strip)
  qed
  have vals: "header_Values ?sent k = header_Values (rw_Header rw) k @ header_Values ?h k" for k by (rule values_copy [OF ok])
  have kept: "header_Values ?h k = (if dropped (resp_Header resp) ?b k then [] else header_Values (resp_Header resp) k)
      @ (if canon k = ''Via'' then [pxgoVia] else [])" if "canon k \<noteq> ''Trailer''" for k
    using that by (simp add: values_announce appendVia_def values_Add values_filtered [OF assms(1)] canon_names)
  have "headerContainsToken ?sent ''Trailer'' name" if "name \<in> set (resp_TrailerNames resp)" for name
  proof -
    have "headerContainsToken ?h ''Trailer'' name" using that assms(2) by (intro announced) (auto simp: list_all_iff)
    with vals show ?thesis by (rule contains_suffix)
  qed
  moreover have "rw_Sent (writeHTTPResponse cfgAuth rw resp) = rw_Sent rw @ [(resp_StatusCode resp, ?sent)]"
    "rw_Body (writeHTTPResponse cfgAuth rw resp) = rw_Body rw @ resp_Body resp"
    by (simp_all add: writeHTTPResponse_def Let_def WriteHeader_def)
  ultimately show ?thesis using vals kept by (intro exI [of _ ?sent]) simp
qed

definition ex_response :: httpResponse where
  "ex_response = \<lparr>resp_StatusCode = 407, resp_Header = [(''Proxy-Authenticate'', [''Basic'']), (''Proxy-Agent'', [''x''])],
     resp_TrailerNames = [''X-Sum''], resp_Body = ''b'', resp_Trailer = [(''X-Sum'', [''1''])]\<rparr>"

theorem final_response_headers_witness:
  "\<exists>sent. rw_Sent (writeHTTPResponse ''none'' \<lparr>rw_Header = [], rw_Sent = [], rw_Body = []\<rparr> ex_response) = [(407, sent)]
    \<and> map (header_Values sent) [''Proxy-Authenticate'', ''Proxy-Agent''] = [[''Basic''], []] \<and> headerContainsToken sent ''Trailer'' ''X-Sum''"
proof -
  have ok: "header_ok (resp_Header ex_response)" "list_all (list_all token_char) (resp_TrailerNames ex_response)" by code_simp+
  have "equal_fold (trim_space ''none'') ''NONE''" "map (dropped (resp_Header ex_response) False) [''Proxy-Authenticate'', ''Proxy-Agent''] = [False, True]"
    "map canon [''Proxy-Authenticate'', ''Proxy-Agent''] = [''Proxy-Authenticate'', ''Proxy-Agent'']"
    "header_Values (resp_Header ex_response) ''Proxy-Authenticate'' = [''Basic'']" "resp_TrailerNames ex_response = [''X-Sum'']" "resp_StatusCode ex_response = 407" by code_simp+
  with final_response_headers [OF ok, of "''none''" "\<lparr>rw_Header = [], rw_Sent = [], rw_Body = []\<rparr>"] show ?thesis by auto
qed

end
