(* ===== verification/Proxy_Access.thy ===== *)
theory Proxy_Access
  imports Complex_Main Auth_Client_Safety Auth_Upstream Wproxy Proxy_Connect
begin

text \<open>
  Who may use the proxy: the checks of the configuration in \<^verbatim>\<open>New\<close>, the listen addresses and the gates of
  \<^verbatim>\<open>ServeHTTP\<close>, from \<^verbatim>\<open>internal/proxy/proxy.go\<close>, with the control requests of \<^verbatim>\<open>internal/proxy/diagnostic.go\<close>
  and the Kerberos contract of \<^verbatim>\<open>internal/kerberos/feature_contract.go\<close>.

  A float64 is a rational number or one of the special values. An \<^verbatim>\<open>int\<close> is an integer of 64 bits; products
  are written with their wrap-around.
\<close>

section \<open>Configuration\<close>

datatype gofloat = Finite rat | FNaN | FInf bool

record serverConfig =
  cfg_upstream :: upstreamConfig
  cfg_ClientAuth :: string
  cfg_ClientUsername :: string
  cfg_ClientPassword :: string
  cfg_Allow :: string
  cfg_Gateway :: bool
  cfg_Hostonly :: bool
  cfg_Listen :: string
  cfg_Port :: int
  cfg_Workers :: int
  cfg_Threads :: int
  cfg_Idle :: int
  cfg_SockTimeout :: gofloat
  cfg_UserAgent :: string

definition allowAllIPv4 :: string where "allowAllIPv4 = ''*.*.*.*''"
definition localhostName :: string where "localhostName = ''localhost''"
definition quitControlPath :: string where "quitControlPath = ''/PxgoQuit''"
definition doctorControlPath :: string where "doctorControlPath = ''/PxgoDoctor''"

definition ErrProxyAuthUnsupported :: goerr where
  "ErrProxyAuthUnsupported = ErrMsg ''kerberos upstream proxy authentication is unsupported''"

definition ValidateProxyAuthFeature :: "bool \<Rightarrow> string \<Rightarrow> goerr option" where
  "ValidateProxyAuthFeature enabled goos =
     (if \<not> enabled then None
      else if to_lower (trim_space goos) \<in> set [''linux'', ''darwin''] then None
      else if to_lower (trim_space goos) = ''windows''
      then Some (Wrapped ''--kerberos is not a Windows SSPI selector'' ErrProxyAuthUnsupported)
      else Some (Wrapped (''on '' @ trim_space goos) ErrProxyAuthUnsupported))"

definition validateKerberosFeatureForOS :: "upstreamConfig \<Rightarrow> string \<Rightarrow> goerr option" where
  "validateKerberosFeatureForOS cfg goos = ValidateProxyAuthFeature (Kerberos cfg) goos"

definition validateAllow :: "string \<Rightarrow> goerr option" where
  "validateAllow allow =
     (if trim_space allow = [] then None
      else case ParseNoProxy allow True of
        (_, _, Some e) \<Rightarrow> Some (Wrapped ''unsupported allow value'' e)
      | (_, _, None) \<Rightarrow> None)"

definition validateDownstreamCredentials :: "serverConfig \<Rightarrow> goerr option" where
  "validateDownstreamCredentials cfg =
     (if clientAuthMethods (cfg_ClientAuth cfg) = [] then None
      else if trim_space (cfg_ClientUsername cfg) = [] then Some (ErrMsg ''client authentication requires --client-username'')
      else if cfg_ClientPassword cfg = [] then Some (ErrMsg ''client authentication requires a non-empty client password'')
      else None)"

fun containsClientAuthMethod :: "string list \<Rightarrow> string \<Rightarrow> bool" where
  "containsClientAuthMethod [] want = False"
| "containsClientAuthMethod (m # ms) want = (m = want \<or> containsClientAuthMethod ms want)"

definition open_tokens :: "string list" where
  "open_tokens = [[], ''*'', allowAllIPv4, ''0.0.0.0/0'', ''::/0'']"

definition hasRestrictiveAllow :: "string \<Rightarrow> bool" where
  "hasRestrictiveAllow allow \<longleftrightarrow>
     (let allow = trim_space allow in
      allow \<noteq> [] \<and> list_all (\<lambda>raw. to_lower (trim_space raw) \<notin> set open_tokens) (split_on (CHR '','') allow))"

definition remote_listen :: "string \<Rightarrow> bool" where
  "remote_listen raw \<longleftrightarrow>
     (let host = trim_brackets (trim_space raw) in
      host \<noteq> [] \<and> \<not> equal_fold host localhostName \<and> (case ParseIP host of None \<Rightarrow> True | Some ip \<Rightarrow> \<not> IsLoopback ip))"

definition isRemotePlaintextExposure :: "serverConfig \<Rightarrow> bool" where
  "isRemotePlaintextExposure cfg \<longleftrightarrow>
     (if cfg_Gateway cfg then True
      else if cfg_Hostonly cfg then False
      else list_ex remote_listen (split_on (CHR '','') (cfg_Listen cfg)))"

definition validateGatewaySecurity :: "serverConfig \<Rightarrow> goerr option" where
  "validateGatewaySecurity cfg =
     (let methods = clientAuthMethods (cfg_ClientAuth cfg) in
      if isRemotePlaintextExposure cfg \<and> containsClientAuthMethod methods authBasic
      then Some (ErrMsg ''plaintext remote exposure cannot advertise BASIC client authentication'')
      else if \<not> cfg_Gateway cfg then None
      else if cfg_Hostonly cfg \<or> hasRestrictiveAllow (cfg_Allow cfg) \<or> methods \<noteq> [] then None
      else Some (ErrMsg ''gateway requires an explicit restrictive --allow policy or downstream client authentication''))"

definition max_int :: int where "max_int = 2 ^ 63 - 1"
definition wrap64 :: "int \<Rightarrow> int" where "wrap64 x = (x + 2 ^ 63) mod 2 ^ 64 - 2 ^ 63"

definition float_le0 :: "gofloat \<Rightarrow> bool" where
  "float_le0 f = (case f of Finite q \<Rightarrow> q \<le> 0 | FNaN \<Rightarrow> False | FInf neg \<Rightarrow> neg)"

definition float_above :: "gofloat \<Rightarrow> rat \<Rightarrow> bool" where
  "float_above f b = (case f of Finite q \<Rightarrow> q > b | FNaN \<Rightarrow> False | FInf neg \<Rightarrow> \<not> neg)"

definition float_inf :: "gofloat \<Rightarrow> bool" where
  "float_inf f = (case f of FInf _ \<Rightarrow> True | _ \<Rightarrow> False)"

text \<open>Divisions are of positive numbers, for which Go's truncation is the floor.\<close>

definition validateServerBudgets :: "serverConfig \<Rightarrow> goerr option" where
  "validateServerBudgets cfg =
     (if cfg_Workers cfg \<le> 0 \<or> cfg_Threads cfg \<le> 0 then Some (ErrMsg ''workers and threads must both be greater than zero'')
      else if cfg_Workers cfg > max_int div cfg_Threads cfg then Some (ErrMsg ''workers*threads connection budget overflows int'')
      else if cfg_Idle cfg \<le> 0 then Some (ErrMsg ''idle timeout must be greater than zero'')
      else if float_le0 (cfg_SockTimeout cfg) \<or> cfg_SockTimeout cfg = FNaN \<or> float_inf (cfg_SockTimeout cfg)
      then Some (ErrMsg ''socktimeout must be a finite value greater than zero'')
      else if float_above (cfg_SockTimeout cfg) (of_int (max_int div (2 * second))) then Some (ErrMsg ''socktimeout is too large'')
      else if cfg_Idle cfg > max_int div second then Some (ErrMsg ''idle timeout is too large'')
      else None)"

definition connectionBudget :: "serverConfig \<Rightarrow> int" where
  "connectionBudget cfg = wrap64 (cfg_Workers cfg * cfg_Threads cfg)"

definition idle_timeout :: "serverConfig \<Rightarrow> duration" where
  "idle_timeout cfg = wrap64 (cfg_Idle cfg * second)"

text \<open>The checks of \<^verbatim>\<open>New\<close> in their order.\<close>

fun first_error :: "goerr option list \<Rightarrow> goerr option" where
  "first_error [] = None"
| "first_error (Some e # es) = Some e"
| "first_error (None # es) = first_error es"

definition validate_config :: "serverConfig \<Rightarrow> goerr option" where
  "validate_config cfg =
     first_error
       [validateUpstreamAuth (Auth (cfg_upstream cfg)), validateKerberosFeatureForOS (cfg_upstream cfg) (GOOS (cfg_upstream cfg)),
        validateClientAuth (cfg_ClientAuth cfg), validateAllow (cfg_Allow cfg), validateDownstreamCredentials cfg,
        validateGatewaySecurity cfg, validateServerBudgets cfg]"

text \<open>What \<^verbatim>\<open>New\<close> derives from the configuration.\<close>

definition client_config :: "serverConfig \<Rightarrow> clientConfig" where
  "client_config cfg =
     \<lparr>ClientAuthList = clientAuthMethods (cfg_ClientAuth cfg), ClientUsername = cfg_ClientUsername cfg, ClientPassword = cfg_ClientPassword cfg\<rparr>"

definition allow_set :: "serverConfig \<Rightarrow> IPSet" where
  "allow_set cfg = (if cfg_Allow cfg = [] then empty_set else fst (ParseNoProxy (cfg_Allow cfg) True))"

section \<open>Listen addresses\<close>

fun listen_loop :: "string list \<Rightarrow> string list \<Rightarrow> string list" where
  "listen_loop [] hosts = hosts"
| "listen_loop (raw # raws) hosts =
     (let host = trim_space raw in
      if host = [] then listen_loop raws hosts
      else if host \<in> set hosts then listen_loop raws hosts
      else listen_loop raws (hosts @ [host]))"

definition listenHosts :: "serverConfig \<Rightarrow> string list" where
  "listenHosts cfg =
     (if cfg_Gateway cfg \<or> cfg_Hostonly cfg then [''0.0.0.0'']
      else case listen_loop (split_on (CHR '','') (cfg_Listen cfg)) [] of
        [] \<Rightarrow> [''127.0.0.1'']
      | hosts \<Rightarrow> hosts)"

definition ListenAddrs :: "serverConfig \<Rightarrow> int \<Rightarrow> string list" where
  "ListenAddrs cfg port = map (\<lambda>host. JoinHostPort host (itoa port)) (listenHosts cfg)"

section \<open>Requests\<close>

definition ip_Equal :: "ip \<Rightarrow> ip \<Rightarrow> bool" where
  "ip_Equal a b \<longleftrightarrow>
     (if length a = length b then a = b
      else if length a = 4 \<and> length b = 16 then b = v4InV6Prefix @ a
      else if length a = 16 \<and> length b = 4 then a = v4InV6Prefix @ b
      else False)"

definition remote_host :: "string \<Rightarrow> string" where
  "remote_host remoteAddr = (case SplitHostPort remoteAddr of Some (host, _) \<Rightarrow> host | None \<Rightarrow> remoteAddr)"

definition isLoopbackRemote :: "string \<Rightarrow> bool" where
  "isLoopbackRemote remoteAddr =
     (case ParseIP (trim_brackets (remote_host remoteAddr)) of None \<Rightarrow> False | Some ip \<Rightarrow> IsLoopback ip)"

text \<open>The cache of the host's addresses; \<open>now\<close> and \<open>now'\<close> are the two readings of the clock and \<open>ips\<close> the
  addresses that an enumeration of the interfaces gives.\<close>

record accessEnv =
  av_now :: gotime
  av_now' :: gotime
  av_ips :: "ip list"

type_synonym hostIPCache = "(ip list \<times> gotime) option"

definition cachedHostIPs :: "accessEnv \<Rightarrow> hostIPCache \<Rightarrow> hostIPCache \<times> ip list" where
  "cachedHostIPs env c =
     (case c of
        Some (ips, expires) \<Rightarrow>
          if before (av_now env) expires then (c, ips) else (Some (av_ips env, av_now' env + 30 * second), av_ips env)
      | None \<Rightarrow> (Some (av_ips env, av_now' env + 30 * second), av_ips env))"

definition has_policy :: "serverConfig \<Rightarrow> bool" where
  "has_policy cfg \<longleftrightarrow> cfg_Allow cfg \<noteq> [] \<and> cfg_Allow cfg \<noteq> allowAllIPv4 \<and> cfg_Allow cfg \<noteq> ''0.0.0.0/0''"

definition isClientAllowed :: "serverConfig \<Rightarrow> accessEnv \<Rightarrow> hostIPCache \<Rightarrow> string \<Rightarrow> hostIPCache \<times> bool" where
  "isClientAllowed cfg env c remoteAddr =
     (case ParseIP (remote_host remoteAddr) of
        None \<Rightarrow> (c, False)
      | Some ip \<Rightarrow>
          if has_policy cfg \<and> IPSet_Contains (allow_set cfg) ip then (c, True)
          else if has_policy cfg \<and> (\<not> cfg_Hostonly cfg \<or> cfg_Gateway cfg) then (c, False)
          else if cfg_Hostonly cfg then
            (case cachedHostIPs env c of (c, ips) \<Rightarrow> (c, list_ex (\<lambda>hostIP. ip_Equal hostIP ip) ips))
          else (c, True))"

definition is_control :: "string \<Rightarrow> authRequest \<Rightarrow> bool" where
  "is_control path req \<longleftrightarrow>
     rq_Method req = ''GET'' \<and> (case rq_URL req of None \<Rightarrow> False | Some (isAbs, _) \<Rightarrow> \<not> isAbs) \<and> rq_RequestURI req = path"

definition isQuitControlRequest :: "authRequest \<Rightarrow> bool" where "isQuitControlRequest = is_control quitControlPath"
definition isDoctorControlRequest :: "authRequest \<Rightarrow> bool" where "isDoctorControlRequest = is_control doctorControlPath"

text \<open>What becomes of a request: an answer of the gate, or one of the handlers.\<close>

datatype served =
    Forbidden | DoctorReport | QuitAccepted | AuthRequired "string list" | HandleConnect | HandleHTTP

record accessState =
  ac_hostIPs :: hostIPCache
  ac_auth :: authState

record requestEnv = accessEnv +
  rv_clk :: "nat \<Rightarrow> gotime"
  rv_rnd :: "nat \<Rightarrow> goerr + byte list"
  rv_challengeTime :: gotime
  rv_salt :: string

definition control_allowed :: "serverConfig \<Rightarrow> requestEnv \<Rightarrow> accessState \<Rightarrow> authRequest \<Rightarrow> accessState \<times> bool" where
  "control_allowed cfg env st req =
     (if \<not> isLoopbackRemote (rq_RemoteAddr req) then (st, False)
      else case isClientAllowed cfg (accessEnv.truncate env) (ac_hostIPs st) (rq_RemoteAddr req) of
        (c, ok) \<Rightarrow> (st\<lparr>ac_hostIPs := c\<rparr>, ok))"

definition ServeHTTP :: "hashes \<Rightarrow> serverConfig \<Rightarrow> requestEnv \<Rightarrow> accessState \<Rightarrow> authRequest \<Rightarrow> accessState \<times> served" where
  "ServeHTTP h cfg env st req =
     (if isDoctorControlRequest req then
        (case control_allowed cfg env st req of (st, ok) \<Rightarrow> (st, if ok then DoctorReport else Forbidden))
      else if isQuitControlRequest req then
        (case control_allowed cfg env st req of (st, ok) \<Rightarrow> (st, if ok then QuitAccepted else Forbidden))
      else case isClientAllowed cfg (accessEnv.truncate env) (ac_hostIPs st) (rq_RemoteAddr req) of
        (c, False) \<Rightarrow> (st\<lparr>ac_hostIPs := c\<rparr>, Forbidden)
      | (c, True) \<Rightarrow>
          (case client_gate h (client_config cfg) (rv_clk env) (rv_rnd env) (ac_auth st) req of
             (s, False) \<Rightarrow>
               (st\<lparr>ac_hostIPs := c, ac_auth := s\<rparr>,
                AuthRequired (clientAuthChallenges h (rv_challengeTime env) (rv_salt env) (client_config cfg) s (rq_RemoteAddr req)))
           | (s, True) \<Rightarrow>
               (st\<lparr>ac_hostIPs := c, ac_auth := s\<rparr>, if rq_Method req = ''CONNECT'' then HandleConnect else HandleHTTP)))"


section \<open>Admission\<close>

text \<open>The rule that the gate implements: which addresses may use the proxy. \<open>ips\<close> are the addresses of the
  host.\<close>

definition address_admitted :: "serverConfig \<Rightarrow> ip list \<Rightarrow> ip \<Rightarrow> bool" where
  "address_admitted cfg ips ip \<longleftrightarrow>
     (if has_policy cfg then
        IPSet_Contains (allow_set cfg) ip \<or> (cfg_Hostonly cfg \<and> \<not> cfg_Gateway cfg \<and> list_ex (\<lambda>hostIP. ip_Equal hostIP ip) ips)
      else \<not> cfg_Hostonly cfg \<or> list_ex (\<lambda>hostIP. ip_Equal hostIP ip) ips)"

lemma isClientAllowed_admitted:
  "snd (isClientAllowed cfg env c addr) \<longleftrightarrow>
     (\<exists>ip. ParseIP (remote_host addr) = Some ip \<and> address_admitted cfg (snd (cachedHostIPs env c)) ip)"
  by (auto simp: isClientAllowed_def address_admitted_def split: option.splits prod.splits)

lemma has_policy_restrictive: "hasRestrictiveAllow (cfg_Allow cfg) \<Longrightarrow> has_policy cfg"
  by (rule ccontr) (auto simp: has_policy_def hasRestrictiveAllow_def open_tokens_def allowAllIPv4_def Let_def trim_space_def
      trim_right_by_def go_space_def to_lower_def lower_char_def)

lemma contains_method: "containsClientAuthMethod ms m \<longleftrightarrow> m \<in> set ms"
  by (induction ms) auto

lemma first_error_None: "first_error es = None \<longleftrightarrow> list_all (\<lambda>e. e = None) es"
  by (induction es rule: first_error.induct) auto

section \<open>Runs of the server\<close>

text \<open>What changes the state of the gates: a request, the end of a client connection, which
  \<^verbatim>\<open>ConnState\<close> reports, and a request to an upstream proxy that counts a nonce.\<close>

datatype server_event = SRequest requestEnv authRequest | SClosed string | SUpstream string gotime gotime

definition serve_step :: "hashes \<Rightarrow> serverConfig \<Rightarrow> accessState \<Rightarrow> server_event \<Rightarrow> accessState" where
  "serve_step h cfg st ev =
     (case ev of
        SRequest env req \<Rightarrow> fst (ServeHTTP h cfg env st req)
      | SClosed addr \<Rightarrow> st\<lparr>ac_auth := clearClientState (ac_auth st) addr\<rparr>
      | SUpstream nonce now pruneNow \<Rightarrow> st\<lparr>ac_auth := fst (nextDigestNC (ac_auth st) nonce now pruneNow)\<rparr>)"

abbreviation serve_run :: "hashes \<Rightarrow> serverConfig \<Rightarrow> server_event list \<Rightarrow> accessState \<Rightarrow> accessState" where
  "serve_run h cfg evs st \<equiv> foldl (serve_step h cfg) st evs"

lemma serve_step_auth:
  "ac_auth (serve_step h cfg st ev) = ac_auth st
     \<or> (\<exists>aev. ac_auth (serve_step h cfg st ev) = auth_step h (client_config cfg) (ac_auth st) aev
         \<and> (case aev of ARequest req clk rnd \<Rightarrow> \<exists>env. ev = SRequest env req \<and> clk = rv_clk env \<and> rnd = rv_rnd env
             | AClosed a \<Rightarrow> ev = SClosed a | AUpstream n t u \<Rightarrow> ev = SUpstream n t u))"
proof (cases ev)
  case (SRequest env req)
  obtain c ok where a: "isClientAllowed cfg (accessEnv.truncate env) (ac_hostIPs st) (rq_RemoteAddr req) = (c, ok)" by fastforce
  obtain s pass where g: "client_gate h (client_config cfg) (rv_clk env) (rv_rnd env) (ac_auth st) req = (s, pass)" by fastforce
  have "ac_auth (fst (ServeHTTP h cfg env st req)) = ac_auth st \<or> ac_auth (fst (ServeHTTP h cfg env st req)) = s"
    using a g by (auto simp: ServeHTTP_def control_allowed_def split: bool.splits)
  moreover have "s = auth_step h (client_config cfg) (ac_auth st) (ARequest req (rv_clk env) (rv_rnd env))"
    using g by (simp add: auth_step_def)
  ultimately show ?thesis by (auto simp: SRequest serve_step_def intro: exI [of _ "ARequest req (rv_clk env) (rv_rnd env)"])
next
  case (SClosed a)
  then show ?thesis by (auto simp: serve_step_def auth_step_def intro: exI [of _ "AClosed a"])
next
  case (SUpstream n t u)
  then show ?thesis by (auto simp: serve_step_def auth_step_def intro: exI [of _ "AUpstream n t u"])
qed

lemma serve_step_closed: "ac_auth (serve_step h cfg st (SClosed a)) = clearClientState (ac_auth st) a"
  by (simp add: serve_step_def)

lemma serve_step_authed:
  assumes "isClientAuthed (ac_auth (serve_step h cfg st ev)) addr"
  shows "isClientAuthed (ac_auth st) addr \<and> ev \<noteq> SClosed addr
    \<or> (\<exists>env req. ev = SRequest env req \<and> rq_RemoteAddr req = addr
        \<and> snd (checkClientAuth h (client_config cfg) (rv_clk env) (rv_rnd env) (ac_auth st) req))"
proof -
  have closed: "ev \<noteq> SClosed addr" using assms by (auto simp: serve_step_closed close_authed)
  consider "ac_auth (serve_step h cfg st ev) = ac_auth st"
    | aev where "ac_auth (serve_step h cfg st ev) = auth_step h (client_config cfg) (ac_auth st) aev"
        "case aev of ARequest req clk rnd \<Rightarrow> \<exists>env. ev = SRequest env req \<and> clk = rv_clk env \<and> rnd = rv_rnd env
         | AClosed a \<Rightarrow> ev = SClosed a | AUpstream n t u \<Rightarrow> ev = SUpstream n t u"
    using serve_step_auth by blast
  then show ?thesis
  proof cases
    case 1
    with assms closed show ?thesis by simp
  next
    case 2
    from assms have "isClientAuthed (auth_step h (client_config cfg) (ac_auth st) aev) addr" unfolding 2(1) .
    from step_authed [OF this] 2(2) closed show ?thesis by auto
  qed
qed

text \<open>Earlier in \<open>evs\<close> a request from \<open>addr\<close> was accepted on a connection that has not ended since.\<close>

definition accepted_before :: "hashes \<Rightarrow> serverConfig \<Rightarrow> server_event list \<Rightarrow> accessState \<Rightarrow> string \<Rightarrow> bool" where
  "accepted_before h cfg evs st addr \<longleftrightarrow>
     (\<exists>pre env req post. evs = pre @ SRequest env req # post \<and> rq_RemoteAddr req = addr
        \<and> snd (checkClientAuth h (client_config cfg) (rv_clk env) (rv_rnd env) (ac_auth (serve_run h cfg pre st)) req)
        \<and> SClosed addr \<notin> set post)"

lemma accepted_before_now:
  "snd (checkClientAuth h (client_config cfg) (rv_clk env) (rv_rnd env) (ac_auth (serve_run h cfg evs st)) req) \<Longrightarrow>
     accepted_before h cfg (evs @ [SRequest env req]) st (rq_RemoteAddr req)"
  unfolding accepted_before_def by (intro exI [of _ evs] exI [of _ env] exI [of _ req] exI [of _ "[]"]) auto

lemma accepted_before_snoc:
  assumes "accepted_before h cfg evs st addr" "ev \<noteq> SClosed addr"
  shows "accepted_before h cfg (evs @ [ev]) st addr"
proof -
  from assms(1) obtain pre env req post where "evs = pre @ SRequest env req # post" "rq_RemoteAddr req = addr"
    "snd (checkClientAuth h (client_config cfg) (rv_clk env) (rv_rnd env) (ac_auth (serve_run h cfg pre st)) req)" "SClosed addr \<notin> set post"
    unfolding accepted_before_def by blast
  with assms(2) show ?thesis
    unfolding accepted_before_def by (intro exI [of _ pre] exI [of _ env] exI [of _ req] exI [of _ "post @ [ev]"]) auto
qed

lemma serve_run_authed:
  assumes "isClientAuthed (ac_auth (serve_run h cfg evs st)) addr" "\<not> isClientAuthed (ac_auth st) addr"
  shows "accepted_before h cfg evs st addr"
  using assms(1)
proof (induction evs rule: rev_induct)
  case (snoc ev evs)
  from serve_step_authed [of h cfg "serve_run h cfg evs st" ev addr] snoc.prems
  consider "isClientAuthed (ac_auth (serve_run h cfg evs st)) addr" "ev \<noteq> SClosed addr"
    | env req where "ev = SRequest env req" "rq_RemoteAddr req = addr"
        "snd (checkClientAuth h (client_config cfg) (rv_clk env) (rv_rnd env) (ac_auth (serve_run h cfg evs st)) req)"
    by auto
  then show ?case by cases (use snoc.IH accepted_before_snoc accepted_before_now in blast)+
qed (use assms(2) in simp)

lemma handled_request:
  assumes "ServeHTTP h cfg env st req = (st', out)" "out = HandleConnect \<or> out = HandleHTTP"
  shows "snd (isClientAllowed cfg (accessEnv.truncate env) (ac_hostIPs st) (rq_RemoteAddr req))
    \<and> snd (client_gate h (client_config cfg) (rv_clk env) (rv_rnd env) (ac_auth st) req)"
  using assms unfolding ServeHTTP_def
  by (auto split: if_splits prod.splits bool.splits)

lemma gate_authenticated:
  assumes "snd (client_gate h cfg clk rnd s req)" "clientAuthEnabled cfg"
  shows "snd (checkClientAuth h cfg clk rnd s req) \<or> isClientAuthed s (rq_RemoteAddr req)"
  using assms by (auto simp: client_gate_def authenticateClient_def split: prod.splits if_splits)

section \<open>Properties\<close>

text \<open>C2: A gateway is never open without a policy. With a configuration that \<^verbatim>\<open>New\<close> accepts, a request that
  reaches a handler after any run of the server comes from an address the rule admits; where client
  authentication is configured, it or an earlier request on its connection had its credentials accepted; and
  in gateway mode without client authentication its address is in the configured allow list, or it is an
  address of the host in host-only mode.\<close>

theorem handled_requests_admitted:
  assumes "validate_config cfg = None" "as_clients (ac_auth st) = []"
    and "ServeHTTP h cfg env (serve_run h cfg evs st) req = (st', out)" "out = HandleConnect \<or> out = HandleHTTP"
  shows "\<exists>ip. ParseIP (remote_host (rq_RemoteAddr req)) = Some ip
    \<and> address_admitted cfg (snd (cachedHostIPs (accessEnv.truncate env) (ac_hostIPs (serve_run h cfg evs st)))) ip
    \<and> (clientAuthMethods (cfg_ClientAuth cfg) \<noteq> [] \<longrightarrow> accepted_before h cfg (evs @ [SRequest env req]) st (rq_RemoteAddr req))
    \<and> (cfg_Gateway cfg \<and> clientAuthMethods (cfg_ClientAuth cfg) = [] \<longrightarrow>
        has_policy cfg \<and> IPSet_Contains (allow_set cfg) ip
        \<or> cfg_Hostonly cfg \<and> list_ex (\<lambda>hostIP. ip_Equal hostIP ip) (snd (cachedHostIPs (accessEnv.truncate env) (ac_hostIPs (serve_run h cfg evs st)))))"
proof -
  let ?st = "serve_run h cfg evs st" and ?methods = "clientAuthMethods (cfg_ClientAuth cfg)"
  from handled_request [OF assms(3,4)] obtain ip where ip: "ParseIP (remote_host (rq_RemoteAddr req)) = Some ip"
    "address_admitted cfg (snd (cachedHostIPs (accessEnv.truncate env) (ac_hostIPs ?st))) ip"
    and gate: "snd (client_gate h (client_config cfg) (rv_clk env) (rv_rnd env) (ac_auth ?st) req)"
    by (auto simp: isClientAllowed_admitted)
  have fresh: "\<not> isClientAuthed (ac_auth st) (rq_RemoteAddr req)" using assms(2) by (simp add: isClientAuthed_def)
  have "accepted_before h cfg (evs @ [SRequest env req]) st (rq_RemoteAddr req)" if "?methods \<noteq> []"
  proof -
    from that have "clientAuthEnabled (client_config cfg)" by (simp add: clientAuthEnabled_def client_config_def)
    from gate_authenticated [OF gate this] show ?thesis
      using accepted_before_now accepted_before_snoc [OF serve_run_authed [OF _ fresh]] by blast
  qed
  moreover have "cfg_Hostonly cfg \<or> hasRestrictiveAllow (cfg_Allow cfg)" if "cfg_Gateway cfg" "?methods = []"
    using assms(1) that by (auto simp: validate_config_def first_error_None validateGatewaySecurity_def Let_def split: if_splits)
  ultimately show ?thesis
    using ip has_policy_restrictive [of cfg] by (auto simp: address_admitted_def split: if_splits)
qed

text \<open>Example configurations: a gateway for one network, and the same list with the whole address space
  behind a blank.\<close>

definition ex_gateway :: "string \<Rightarrow> serverConfig" where
  "ex_gateway allow =
     \<lparr>cfg_upstream = \<lparr>Auth = [], Username = [], Password = [], Kerberos = False, GOOS = ''linux''\<rparr>, cfg_ClientAuth = [],
      cfg_ClientUsername = [], cfg_ClientPassword = [], cfg_Allow = allow, cfg_Gateway = True, cfg_Hostonly = False,
      cfg_Listen = ''127.0.0.1'', cfg_Port = 3128, cfg_Workers = 2, cfg_Threads = 32, cfg_Idle = 30,
      cfg_SockTimeout = Finite 20, cfg_UserAgent = []\<rparr>"

definition ex_access_env :: requestEnv where
  "ex_access_env = \<lparr>av_now = 0, av_now' = 0, av_ips = [], rv_clk = (\<lambda>_. 0), rv_rnd = (\<lambda>_. Inr []), rv_challengeTime = 0, rv_salt = []\<rparr>"

definition ex_access_state :: accessState where
  "ex_access_state = \<lparr>ac_hostIPs = None, ac_auth = ex_state\<rparr>"

definition ex_get :: authRequest where
  "ex_get = \<lparr>rq_RemoteAddr = ''10.1.2.3:5000'', rq_Authorization = [], rq_Method = ''GET'', rq_RequestURI = ''http://a/'',
     rq_Host = ''a'', rq_URL = Some (True, [], [])\<rparr>"

theorem handled_requests_admitted_witness:
  "\<exists>ip. ParseIP ''10.1.2.3'' = Some ip \<and> IPSet_Contains (allow_set (ex_gateway ''10.0.0.0-10.255.255.255'')) ip"
proof -
  let ?cfg = "ex_gateway ''10.0.0.0-10.255.255.255''"
  let ?r = "ServeHTTP ex_hashes ?cfg ex_access_env (serve_run ex_hashes ?cfg [] ex_access_state) ex_get"
  have v: "validate_config ?cfg = None" by code_simp
  have c: "as_clients (ac_auth ex_access_state) = []" by (simp add: ex_access_state_def ex_state_def)
  have "snd ?r = HandleHTTP" by code_simp
  then have r: "?r = (fst ?r, HandleHTTP)" by (simp add: prod_eq_iff)
  have cfg: "cfg_Gateway ?cfg" "\<not> cfg_Hostonly ?cfg" "clientAuthMethods (cfg_ClientAuth ?cfg) = []" by code_simp+
  have addr: "remote_host (rq_RemoteAddr ex_get) = ''10.1.2.3''" by code_simp
  from handled_requests_admitted [OF v c r] cfg show ?thesis unfolding addr by blast
qed

lemma open_allow_set:
  "allow_set (ex_gateway ''10.0.0.0-10.255.255.255 *.*.*.*'') =
     \<lparr>nets = [], ranges = [([10, 0, 0, 0], [10, 255, 255, 255]), ([0, 0, 0, 0], [255, 255, 255, 255])]\<rparr>"
  by code_simp

lemma in_open_range:
  assumes "length a = 4"
  shows "0 \<le> compareIP a [0, 0, 0, 0] \<and> compareIP a [255, 255, 255, 255] \<le> 0"
proof -
  have v: "ip_value [0, 0, 0, 0] = 0" "ip_value [255, 255, 255, 255] = 256 ^ 4 - 1"
    using ip_value_zeros [of "Suc (Suc (Suc (Suc 0)))"] ip_value_ones [of "Suc (Suc (Suc (Suc 0)))"] by simp_all
  then have "ip_value a \<le> ip_value [255, 255, 255, 255]" using ip_value_less [of a] assms by simp
  with v show ?thesis using compareIP_value [OF assms, of "[0, 0, 0, 0]"] compareIP_value [OF assms, of "[255, 255, 255, 255]"] by simp
qed

text \<open>The check of the allow list reads other separators than the list itself: \<^verbatim>\<open>ParseNoProxy\<close> also splits at
  blanks and semicolons, \<^verbatim>\<open>hasRestrictiveAllow\<close> only at commas. A gateway whose list names the whole address
  space behind a blank is accepted without client authentication, and admits every IPv4 client.\<close>

theorem open_gateway_accepted:
  assumes "length a = 4"
  shows "validate_config (ex_gateway ''10.0.0.0-10.255.255.255 *.*.*.*'') = None
    \<and> validate_config (ex_gateway ''10.0.0.0-10.255.255.255,*.*.*.*'') \<noteq> None
    \<and> snd (isClientAllowed (ex_gateway ''10.0.0.0-10.255.255.255 *.*.*.*'') env c (JoinHostPort (ipv4_string a) (show_nat port)))"
proof -
  let ?cfg = "ex_gateway ''10.0.0.0-10.255.255.255 *.*.*.*''"
  have "remote_host (JoinHostPort (ipv4_string a) (show_nat port)) = ipv4_string a"
    using ipv4_string_chars [of a] show_nat_digits [of port]
    by (subst remote_host_def, subst SplitHostPort_Join) (auto simp: list_all_iff is_digit_def)
  then have ip: "ParseIP (remote_host (JoinHostPort (ipv4_string a) (show_nat port))) = Some (v4InV6Prefix @ a)"
    using ParseIP_ipv4_string [OF assms] by simp
  have "IPSet_Contains (allow_set ?cfg) (v4InV6Prefix @ a)"
    using in_open_range [OF assms] to4_mapped [OF assms] by (simp add: open_allow_set IPSet_Contains_def)
  moreover have "has_policy ?cfg" by code_simp
  ultimately have "snd (isClientAllowed ?cfg env c (JoinHostPort (ipv4_string a) (show_nat port)))" using ip by (simp add: isClientAllowed_def)
  moreover have "validate_config ?cfg = None" "validate_config (ex_gateway ''10.0.0.0-10.255.255.255,*.*.*.*'') \<noteq> None" by code_simp+
  ultimately show ?thesis by blast
qed

text \<open>The accepted budgets do not wrap around. With a configuration that \<^verbatim>\<open>New\<close> accepts, the number of
  connection slots is the exact product of workers and threads and positive, and the idle timeout is the exact
  number of seconds.\<close>

theorem budgets_exact:
  assumes "validate_config cfg = None"
  shows "connectionBudget cfg = cfg_Workers cfg * cfg_Threads cfg \<and> 0 < connectionBudget cfg
    \<and> idle_timeout cfg = cfg_Idle cfg * second \<and> 0 < idle_timeout cfg"
proof -
  have v: "0 < cfg_Workers cfg" "0 < cfg_Threads cfg" "cfg_Workers cfg \<le> max_int div cfg_Threads cfg" "0 < cfg_Idle cfg"
    "cfg_Idle cfg \<le> max_int div second"
    using assms by (auto simp: validate_config_def first_error_None validateServerBudgets_def split: if_splits)
  have small: "wrap64 x = x" if "0 < x" "x \<le> max_int" for x using that by (simp add: wrap64_def max_int_def)
  have "cfg_Workers cfg * cfg_Threads cfg \<le> max_int"
    using mult_right_mono [OF v(3), of "cfg_Threads cfg"] v(2) pos_mod_sign [OF v(2), of max_int]
      minus_mod_eq_div_mult [of max_int "cfg_Threads cfg"] by linarith
  moreover have "cfg_Idle cfg * second \<le> max_int" using v(4,5) by (simp add: duration_defs max_int_def)
  ultimately show ?thesis
    using v small [of "cfg_Workers cfg * cfg_Threads cfg"] small [of "cfg_Idle cfg * second"]
    by (simp add: connectionBudget_def idle_timeout_def duration_defs)
qed

theorem budgets_exact_witness:
  "connectionBudget (ex_gateway ''10.0.0.0-10.255.255.255'') = 2 * 32 \<and> idle_timeout (ex_gateway ''10.0.0.0-10.255.255.255'') = 30 * second"
proof -
  have "validate_config (ex_gateway ''10.0.0.0-10.255.255.255'') = None" by code_simp
  from budgets_exact [OF this] show ?thesis by (simp add: ex_gateway_def)
qed

text \<open>The control requests answer only clients on the host itself that the rule admits.\<close>

theorem control_needs_loopback:
  assumes "ServeHTTP h cfg env st req = (st', out)" "out = DoctorReport \<or> out = QuitAccepted"
  shows "isLoopbackRemote (rq_RemoteAddr req)
    \<and> snd (isClientAllowed cfg (accessEnv.truncate env) (ac_hostIPs st) (rq_RemoteAddr req)) \<and> ac_auth st' = ac_auth st"
  using assms by (auto simp: ServeHTTP_def control_allowed_def split: if_splits prod.splits bool.splits)

end
