(* ===== verification/Proxy_Lifecycle.thy ===== *)
theory Proxy_Lifecycle
  imports Proxy_Access Proxy_Tunnels Proxy_Transports
begin

text \<open>
  The life of a server, from \<^verbatim>\<open>internal/proxy/proxy.go\<close>: building the routing snapshot, opening the listeners,
  replacing the snapshots while requests run, and the shutdown.

  Reloads and the shutdown run in goroutines of their own, so each is split at its critical sections, and a
  step of the server is one section of any of them. A snapshot (\<^verbatim>\<open>*wproxy.Wproxy\<close>) has a number; that it was
  closed is recorded. \<open>sn_gen\<close> numbers the construction that made it, which the code does not store.
\<close>

section \<open>Snapshots\<close>

record routeConfig =
  PACSource :: string
  ServerList :: string
  NoProxyList :: string
  PACEncoding :: string
  ProxyReload :: int

definition buildWproxy :: "routeConfig \<Rightarrow> 'vm boot_env \<Rightarrow> goerr + 'vm Wproxy" where
  "buildWproxy cfg be =
     (if PACSource cfg \<noteq> [] then
        NewWithDNS ModeConfigPAC [\<lparr>srv_Host = PACSource cfg, srv_Port = 0, srv_Scheme = ''pac''\<rparr>] (NoProxyList cfg) (PACEncoding cfg) be
      else if ServerList cfg \<noteq> [] then
        (case ParseProxy (be_parse be) (ServerList cfg) of
           Inl e \<Rightarrow> Inl e
         | Inr servers \<Rightarrow> NewWithDNS ModeConfig servers (NoProxyList cfg) (PACEncoding cfg) be)
      else NewWithDNS ModeNone [] (NoProxyList cfg) (PACEncoding cfg) be)"

record 'vm snapshot =
  sn_id :: nat
  sn_gen :: nat
  sn_wproxy :: "'vm Wproxy"

text \<open>How far the shutdown is; the error is the first one it met.\<close>

datatype shutdownPhase =
    Serving | Fenced | Draining nat | RetireBootstrap "goerr option" | RetireRoutes "goerr option" | Stopped "goerr option"

text \<open>\<open>lv_boot\<close> is \<^verbatim>\<open>dohBootstrap\<close> and the snapshot in it; \<open>lv_pending\<close> are the snapshots of reloads that are not
  published yet.\<close>

record 'vm lifeState =
  lv_w :: "'vm snapshot option"
  lv_boot :: "'vm snapshot option option"
  lv_routingClosed :: bool
  lv_lastReload :: gotime
  lv_transports :: boundedTransportCache
  lv_tunnels :: tunnelState
  lv_phase :: shutdownPhase
  lv_supClosed :: bool
  lv_pending :: "('vm snapshot \<times> 'vm snapshot option) list"
  lv_closed :: "nat list"
  lv_next :: nat
  lv_gen :: nat

definition close_snapshot :: "'vm snapshot \<Rightarrow> 'vm lifeState \<Rightarrow> 'vm lifeState" where
  "close_snapshot sn st = st\<lparr>lv_closed := sn_id sn # lv_closed st\<rparr>"

definition close_opt :: "'vm snapshot option \<Rightarrow> 'vm lifeState \<Rightarrow> 'vm lifeState" where
  "close_opt osn st = (case osn of None \<Rightarrow> st | Some sn \<Rightarrow> close_snapshot sn st)"

text \<open>A new server; with a DNS policy that uses DoH it has a second snapshot.\<close>

definition new_server :: "'vm Wproxy \<Rightarrow> 'vm Wproxy option \<Rightarrow> gotime \<Rightarrow> 'vm lifeState" where
  "new_server w bootstrap now =
     \<lparr>lv_w = Some \<lparr>sn_id = 0, sn_gen = 0, sn_wproxy = w\<rparr>,
      lv_boot = map_option (\<lambda>b. Some \<lparr>sn_id = 1, sn_gen = 0, sn_wproxy = b\<rparr>) bootstrap,
      lv_routingClosed = False, lv_lastReload = now, lv_transports = newBoundedTransportCache 64, lv_tunnels = new_tunnels,
      lv_phase = Serving, lv_supClosed = False, lv_pending = [], lv_closed = [],
      lv_next = (if bootstrap = None then 1 else 2), lv_gen = 1\<rparr>"

section \<open>Reload\<close>

definition isHTTPURL :: "string \<Rightarrow> bool" where
  "isHTTPURL rawurl \<longleftrightarrow> has_prefix (to_lower rawurl) ''http://'' \<or> has_prefix (to_lower rawurl) ''https://''"

fun equalServers :: "Server list \<Rightarrow> Server list \<Rightarrow> bool" where
  "equalServers [] [] = True"
| "equalServers (a # as) (b # bs) = (a = b \<and> equalServers as bs)"
| "equalServers _ _ = False"

definition proxyReloadableLocked :: "routeConfig \<Rightarrow> 'vm lifeState \<Rightarrow> bool" where
  "proxyReloadableLocked cfg st =
     (case lv_w st of
        None \<Rightarrow> False
      | Some sn \<Rightarrow>
          if wp_Mode (sn_wproxy sn) \<in> set [ModeConfig, ModeEnv] then False
          else if wp_Mode (sn_wproxy sn) = ModeConfigPAC \<and> \<not> isHTTPURL (PACSource cfg) then False
          else True)"

definition netErrClosed :: goerr where "netErrClosed = ErrMsg ''use of closed network connection''"

text \<open>The first section: whether the reload ends here, or goes on to build.\<close>

datatype reloadStart = ReloadEnds "goerr option" | ReloadBuilds

definition reload_begin :: "routeConfig \<Rightarrow> gotime \<Rightarrow> bool \<Rightarrow> goerr option \<Rightarrow> 'vm lifeState \<Rightarrow> reloadStart" where
  "reload_begin cfg now force ctxErr st =
     (if ProxyReload cfg \<le> 0 then ReloadEnds None
      else if lv_routingClosed st then ReloadEnds (Some netErrClosed)
      else
        let due = (force \<or> time_sub now (lv_lastReload st) \<ge> wrap64 (ProxyReload cfg * second)) in
        if \<not> proxyReloadableLocked cfg st \<or> \<not> due then ReloadEnds None
        else case ctxErr of Some e \<Rightarrow> ReloadEnds (Some e) | None \<Rightarrow> ReloadBuilds)"

definition fresh_snapshot :: "'vm Wproxy \<Rightarrow> 'vm lifeState \<Rightarrow> 'vm lifeState \<times> 'vm snapshot" where
  "fresh_snapshot w st = (st\<lparr>lv_next := lv_next st + 1\<rparr>, \<lparr>sn_id = lv_next st, sn_gen = lv_gen st, sn_wproxy = w\<rparr>)"

text \<open>The work outside the lock, from the results of the two constructions and the state of the context after
  them. The snapshots of a reload that goes on wait in \<open>lv_pending\<close>.\<close>

definition reload_build ::
  "goerr + 'vm Wproxy \<Rightarrow> goerr + 'vm Wproxy \<Rightarrow> goerr option \<Rightarrow> 'vm lifeState \<Rightarrow> 'vm lifeState \<times> goerr option" where
  "reload_build built builtBoot ctxErr st =
     (case built of
        Inl e \<Rightarrow> (st, Some e)
      | Inr w \<Rightarrow>
          (case fresh_snapshot w (st\<lparr>lv_gen := lv_gen st + 1\<rparr>) of
             (st, sn) \<Rightarrow>
               (case (if lv_boot st = None then Inr (st, None)
                      else case builtBoot of
                        Inl e \<Rightarrow> Inl (Wrapped ''reload DoH bootstrap proxy'' e)
                      | Inr wb \<Rightarrow> (case fresh_snapshot wb st of (st, b) \<Rightarrow> Inr (st, Some b))) of
                  Inl e \<Rightarrow> (close_snapshot sn st, Some e)
                | Inr (st, fresh) \<Rightarrow>
                    (case ctxErr of
                       Some e \<Rightarrow> (close_opt fresh (close_snapshot sn st), Some e)
                     | None \<Rightarrow> (st\<lparr>lv_pending := lv_pending st @ [(sn, fresh)]\<rparr>, None)))))"

text \<open>The second section for the \<open>i\<close>-th pending reload, with the clearing of the transports after it.\<close>

definition drop_nth :: "nat \<Rightarrow> 'a list \<Rightarrow> 'a list" where
  "drop_nth i xs = take i xs @ drop (Suc i) xs"

definition reload_publish ::
  "nat \<Rightarrow> gotime \<Rightarrow> goerr option \<Rightarrow> goerr option \<Rightarrow> 'vm lifeState \<Rightarrow> 'vm lifeState \<times> goerr option" where
  "reload_publish i now closeErr closeBootErr st =
     (let (sn, fresh) = lv_pending st ! i; st = st\<lparr>lv_pending := drop_nth i (lv_pending st)\<rparr> in
      if lv_routingClosed st then (close_opt fresh (close_snapshot sn st), Some netErrClosed)
      else
        let old = lv_w st;
            changed = (case old of
                         None \<Rightarrow> True
                       | Some sn' \<Rightarrow> wp_Mode (sn_wproxy sn) \<noteq> wp_Mode (sn_wproxy sn')
                           \<or> \<not> equalServers (wp_Servers (sn_wproxy sn)) (wp_Servers (sn_wproxy sn')));
            oldBoot = (case lv_boot st of None \<Rightarrow> None | Some b \<Rightarrow> b);
            st = st\<lparr>lv_w := Some sn, lv_boot := (if lv_boot st = None then None else Some fresh), lv_lastReload := now\<rparr>;
            st = close_opt oldBoot (close_opt old st);
            errs = List.map_filter id [if old = None then None else closeErr, if oldBoot = None then None else closeBootErr];
            st = (if changed then st\<lparr>lv_transports := transport_clear (lv_transports st)\<rparr> else st)
        in (st, if errs = [] then None else Some (Wrapped ''close previous proxy resolver'' (Joined errs))))"

section \<open>Routing of a request\<close>

definition findProxyForURL :: "'vm route_env \<Rightarrow> 'vm lifeState \<Rightarrow> string \<Rightarrow> 'vm lifeState \<times> (goerr + Server list)" where
  "findProxyForURL env st rawurl =
     (case lv_w st of
        None \<Rightarrow> (st, Inl (ErrMsg ''proxy resolver is not initialized''))
      | Some sn \<Rightarrow>
          (case FindProxyForURL env (sn_wproxy sn) rawurl of
             (w, Inl e) \<Rightarrow> (st\<lparr>lv_w := Some (sn\<lparr>sn_wproxy := w\<rparr>)\<rparr>, Inl e)
           | (w, Inr (proxies, _)) \<Rightarrow> (st\<lparr>lv_w := Some (sn\<lparr>sn_wproxy := w\<rparr>)\<rparr>, Inr proxies)))"

section \<open>Shutdown\<close>

text \<open>The sections of the function that \<^verbatim>\<open>once\<close> runs. The wait for the listeners and the tunnels ends with the
  error of \<^verbatim>\<open>srv.Shutdown\<close> and what \<^verbatim>\<open>waitTunnelDrain\<close> finds and which case it takes; it does nothing while the tunnels drain.\<close>

definition first_err :: "goerr option \<Rightarrow> goerr option \<Rightarrow> goerr option" where
  "first_err err e = (case err of None \<Rightarrow> e | Some _ \<Rightarrow> err)"

definition shutdown_begin :: "'vm lifeState \<Rightarrow> 'vm lifeState" where
  "shutdown_begin st = (if lv_phase st = Serving then st\<lparr>lv_routingClosed := True, lv_phase := Fenced\<rparr> else st)"

definition shutdown_tunnels :: "'vm lifeState \<Rightarrow> 'vm lifeState" where
  "shutdown_tunnels st =
     (if lv_phase st = Fenced
      then (case beginTunnelShutdown (lv_tunnels st) of (t, fin) \<Rightarrow> st\<lparr>lv_tunnels := t, lv_phase := Draining fin\<rparr>)
      else st)"

definition shutdown_drained :: "bool \<Rightarrow> goerr option \<Rightarrow> goerr option \<Rightarrow> 'vm lifeState \<Rightarrow> 'vm lifeState" where
  "shutdown_drained pick srvErr ctxErr st =
     (case lv_phase st of
        Draining fin \<Rightarrow>
          (case waitTunnelDrain pick (lv_tunnels st) ctxErr fin of
             None \<Rightarrow> st
           | Some tunnelErr \<Rightarrow>
               st\<lparr>lv_supClosed := True, lv_transports := transport_clear (lv_transports st),
                  lv_phase := RetireBootstrap (first_err srvErr tunnelErr)\<rparr>)
      | _ \<Rightarrow> st)"

definition shutdown_bootstrap :: "goerr option \<Rightarrow> 'vm lifeState \<Rightarrow> 'vm lifeState" where
  "shutdown_bootstrap closeErr st =
     (case lv_phase st of
        RetireBootstrap err \<Rightarrow>
          (case lv_boot st of
             None \<Rightarrow> st\<lparr>lv_phase := RetireRoutes err\<rparr>
           | Some None \<Rightarrow> st\<lparr>lv_phase := RetireRoutes err\<rparr>
           | Some (Some b) \<Rightarrow>
               close_snapshot b (st\<lparr>lv_boot := Some None,
                 lv_phase := RetireRoutes (first_err err (map_option (Wrapped ''close DoH bootstrap resolver'') closeErr))\<rparr>))
      | _ \<Rightarrow> st)"

definition shutdown_routes :: "goerr option \<Rightarrow> 'vm lifeState \<Rightarrow> 'vm lifeState" where
  "shutdown_routes closeErr st =
     (case lv_phase st of
        RetireRoutes err \<Rightarrow>
          (case lv_w st of
             None \<Rightarrow> st\<lparr>lv_phase := Stopped err\<rparr>
           | Some w \<Rightarrow>
               close_snapshot w (st\<lparr>lv_w := None,
                 lv_phase := Stopped (first_err err (map_option (Wrapped ''close proxy resolver'') closeErr))\<rparr>))
      | _ \<Rightarrow> st)"

section \<open>The server as a machine\<close>

datatype 'vm life_event =
    LBuild "goerr + 'vm Wproxy" "goerr + 'vm Wproxy" "goerr option"
  | LPublish nat gotime "goerr option" "goerr option"
  | LFind "'vm route_env" string
  | LTunnel tunnel_event
  | LTransport transport_event
  | LShutdown
  | LTunnelsDown
  | LDrained bool "goerr option" "goerr option"
  | LBootstrap "goerr option"
  | LRoutes "goerr option"

text \<open>A reload may build whenever its first section let it go on, also when the shutdown has begun since. The
  shutdown of the tunnels is that of the server, so it is no event of its own.\<close>

fun life_step :: "'vm lifeState \<Rightarrow> 'vm life_event \<Rightarrow> 'vm lifeState" where
  "life_step st (LBuild r rb e) = fst (reload_build r rb e st)"
| "life_step st (LPublish i now e eb) = (if i < length (lv_pending st) then fst (reload_publish i now e eb st) else st)"
| "life_step st (LFind env rawurl) = fst (findProxyForURL env st rawurl)"
| "life_step st (LTunnel ev) = (if ev = TShutdown then st else st\<lparr>lv_tunnels := tunnel_step (lv_tunnels st) ev\<rparr>)"
| "life_step st (LTransport ev) = st\<lparr>lv_transports := transport_step (lv_transports st) ev\<rparr>"
| "life_step st LShutdown = shutdown_begin st"
| "life_step st LTunnelsDown = shutdown_tunnels st"
| "life_step st (LDrained pick e ce) = shutdown_drained pick e ce st"
| "life_step st (LBootstrap e) = shutdown_bootstrap e st"
| "life_step st (LRoutes e) = shutdown_routes e st"

abbreviation life_run :: "'vm lifeState \<Rightarrow> 'vm life_event list \<Rightarrow> 'vm lifeState" where
  "life_run \<equiv> foldl life_step"

fun opt_ids :: "'vm snapshot option \<Rightarrow> nat multiset" where
  "opt_ids None = {#}"
| "opt_ids (Some sn) = {#sn_id sn#}"

definition boot_ids :: "'vm snapshot option option \<Rightarrow> nat multiset" where
  "boot_ids b = (case b of None \<Rightarrow> {#} | Some osn \<Rightarrow> opt_ids osn)"

definition pending_ids :: "('vm snapshot \<times> 'vm snapshot option) list \<Rightarrow> nat multiset" where
  "pending_ids ps = sum_list (map (\<lambda>(sn, b). {#sn_id sn#} + opt_ids b) ps)"

text \<open>Every snapshot ever built is in exactly one place: current, pending or closed.\<close>

definition accounted :: "'vm lifeState \<Rightarrow> bool" where
  "accounted st \<longleftrightarrow>
     opt_ids (lv_w st) + boot_ids (lv_boot st) + pending_ids (lv_pending st) + mset (lv_closed st) = mset [0..<lv_next st]"

text \<open>The two snapshots of a pair come from one construction.\<close>

definition paired :: "'vm snapshot option \<Rightarrow> 'vm snapshot option \<Rightarrow> bool" where
  "paired a b \<longleftrightarrow> (case (a, b) of (Some a, Some b) \<Rightarrow> sn_gen a = sn_gen b | _ \<Rightarrow> True)"

definition boot_of :: "'vm lifeState \<Rightarrow> 'vm snapshot option" where
  "boot_of st = (case lv_boot st of None \<Rightarrow> None | Some b \<Rightarrow> b)"

definition phase_ok :: "'vm lifeState \<Rightarrow> bool" where
  "phase_ok st \<longleftrightarrow>
     (lv_routingClosed st \<longleftrightarrow> lv_phase st \<noteq> Serving) \<and> (tunnelShuttingDown (lv_tunnels st) \<longleftrightarrow> lv_phase st \<notin> {Serving, Fenced})
     \<and> (case lv_phase st of
          Serving \<Rightarrow> lv_w st \<noteq> None \<and> (lv_boot st = None \<or> boot_of st \<noteq> None)
        | Fenced \<Rightarrow> lv_w st \<noteq> None
        | Draining fin \<Rightarrow> lv_w st \<noteq> None \<and> fin = tunnelZero (lv_tunnels st)
        | RetireBootstrap err \<Rightarrow> lv_w st \<noteq> None \<and> (err = None \<longrightarrow> tunnels (lv_tunnels st) = [] \<and> tunnelPending (lv_tunnels st) = 0)
        | RetireRoutes err \<Rightarrow> lv_w st \<noteq> None \<and> boot_of st = None
            \<and> (err = None \<longrightarrow> tunnels (lv_tunnels st) = [] \<and> tunnelPending (lv_tunnels st) = 0)
        | Stopped err \<Rightarrow> lv_w st = None \<and> boot_of st = None
            \<and> (err = None \<longrightarrow> tunnels (lv_tunnels st) = [] \<and> tunnelPending (lv_tunnels st) = 0))"

definition life_ok :: "'vm lifeState \<Rightarrow> bool" where
  "life_ok st \<longleftrightarrow> accounted st \<and> phase_ok st \<and> tunnel_ok (lv_tunnels st) \<and> transports_ok (lv_transports st)
     \<and> paired (lv_w st) (boot_of st)
     \<and> list_all (\<lambda>(sn, b). paired (Some sn) b \<and> (b = None \<longleftrightarrow> lv_boot st = None)) (lv_pending st)"

lemma paired_simps [simp]: "paired None b" "paired a None" "paired (Some x) (Some y) \<longleftrightarrow> sn_gen x = sn_gen y"
  by (simp_all add: paired_def split: option.splits)

lemma paired_update [simp]: "paired (Some (sn\<lparr>sn_wproxy := w\<rparr>)) b \<longleftrightarrow> paired (Some sn) b"
  by (cases b) simp_all

lemma close_snapshot_fields [simp]:
  "lv_w (close_snapshot sn st) = lv_w st" "lv_boot (close_snapshot sn st) = lv_boot st"
  "lv_routingClosed (close_snapshot sn st) = lv_routingClosed st" "lv_transports (close_snapshot sn st) = lv_transports st"
  "lv_tunnels (close_snapshot sn st) = lv_tunnels st" "lv_phase (close_snapshot sn st) = lv_phase st"
  "lv_pending (close_snapshot sn st) = lv_pending st" "lv_next (close_snapshot sn st) = lv_next st"
  "lv_closed (close_snapshot sn st) = sn_id sn # lv_closed st"
  by (simp_all add: close_snapshot_def)

lemma close_opt_fields [simp]:
  "lv_w (close_opt osn st) = lv_w st" "lv_boot (close_opt osn st) = lv_boot st"
  "lv_routingClosed (close_opt osn st) = lv_routingClosed st" "lv_transports (close_opt osn st) = lv_transports st"
  "lv_tunnels (close_opt osn st) = lv_tunnels st" "lv_phase (close_opt osn st) = lv_phase st"
  "lv_pending (close_opt osn st) = lv_pending st" "lv_next (close_opt osn st) = lv_next st"
  "mset (lv_closed (close_opt osn st)) = opt_ids osn + mset (lv_closed st)"
  by (cases osn; simp add: close_opt_def)+

lemma pending_split:
  assumes "i < length ps"
  shows "pending_ids ps = {#sn_id (fst (ps ! i))#} + opt_ids (snd (ps ! i)) + pending_ids (drop_nth i ps)"
proof -
  have "ps = take i ps @ ps ! i # drop (Suc i) ps" using assms by (rule id_take_nth_drop)
  then have "pending_ids ps = pending_ids (take i ps @ ps ! i # drop (Suc i) ps)" by simp
  then show ?thesis by (simp add: pending_ids_def drop_nth_def split: prod.splits)
qed

lemma pending_snoc: "pending_ids (ps @ [(sn, b)]) = pending_ids ps + {#sn_id sn#} + opt_ids b"
  by (simp add: pending_ids_def)

lemma list_all_drop_nth: "list_all P ps \<Longrightarrow> list_all P (drop_nth i ps)"
  by (auto simp: drop_nth_def list_all_iff dest: in_set_takeD in_set_dropD)

lemma same_routes_ok:
  assumes "life_ok st" "lv_w st' = lv_w st" "lv_boot st' = lv_boot st" "lv_routingClosed st' = lv_routingClosed st"
    "lv_pending st' = lv_pending st" "lv_closed st' = lv_closed st" "lv_next st' = lv_next st" "lv_phase st' = lv_phase st"
    "lv_tunnels st' = lv_tunnels st" "transports_ok (lv_transports st')"
  shows "life_ok st'"
  using assms by (simp add: life_ok_def accounted_def phase_ok_def boot_of_def cong: shutdownPhase.case_cong)

lemma build_ok:
  assumes "life_ok st"
  shows "life_ok (fst (reload_build r rb e st))"
proof (cases r)
  case (Inr w)
  let ?n = "lv_next st" and ?g = "lv_gen st + 1"
  let ?sn = "\<lparr>sn_id = ?n, sn_gen = ?g, sn_wproxy = w\<rparr>"
  have closed: "life_ok (st\<lparr>lv_gen := g, lv_next := k, lv_closed := ids @ lv_closed st\<rparr>)"
    if "mset [0..<k] = mset ids + mset [0..<?n]" for ids g k
    using assms that by (simp add: life_ok_def accounted_def phase_ok_def boot_of_def ac_simps cong: shutdownPhase.case_cong)
  show ?thesis
  proof (cases "lv_boot st")
    case None
    show ?thesis
    proof (cases e)
      case e: None
      from assms None Inr show ?thesis
        by (auto simp: e reload_build_def fresh_snapshot_def life_ok_def accounted_def
            phase_ok_def boot_of_def pending_snoc split: shutdownPhase.splits)
    next
      case (Some x)
      with None Inr closed [of "Suc ?n" "[?n]" ?g] show ?thesis
        by (simp add: reload_build_def fresh_snapshot_def close_snapshot_def close_opt_def)
    qed
  next
    case (Some b)
    show ?thesis
    proof (cases rb)
      case (Inl x)
      with Some Inr closed [of "Suc ?n" "[?n]" ?g] show ?thesis by (simp add: reload_build_def fresh_snapshot_def close_snapshot_def)
    next
      case Inr': (Inr wb)
      show ?thesis
      proof (cases e)
        case None
        with assms Some Inr Inr' show ?thesis
          by (auto simp: reload_build_def fresh_snapshot_def life_ok_def accounted_def
              phase_ok_def boot_of_def pending_snoc split: shutdownPhase.splits)
      next
        case (Some x)
        with \<open>lv_boot st = Some b\<close> Inr Inr' closed [of "Suc (Suc ?n)" "[Suc ?n, ?n]" ?g] show ?thesis
          by (simp add: reload_build_def fresh_snapshot_def close_snapshot_def close_opt_def)
      qed
    qed
  qed
qed (use assms in \<open>simp add: reload_build_def\<close>)

lemma publish_ok:
  assumes "life_ok st" "i < length (lv_pending st)"
  shows "life_ok (fst (reload_publish i now e eb st))"
proof -
  obtain sn fresh where p: "lv_pending st ! i = (sn, fresh)" by fastforce
  have ids: "pending_ids (lv_pending st) = {#sn_id sn#} + opt_ids fresh + pending_ids (drop_nth i (lv_pending st))"
    using pending_split [OF assms(2)] p by simp
  have pair: "paired (Some sn) fresh" "fresh = None \<longleftrightarrow> lv_boot st = None"
    using assms p by (auto simp: life_ok_def list_all_length)
  have rest: "list_all (\<lambda>(sn, b). paired (Some sn) b \<and> (b = None \<longleftrightarrow> lv_boot st = None)) (drop_nth i (lv_pending st))"
    using assms(1) by (simp add: life_ok_def list_all_drop_nth)
  have tr: "transports_ok (transport_clear (lv_transports st))" using assms(1) by (simp add: life_ok_def transport_clear_ok)
  show ?thesis
  proof (cases "lv_routingClosed st")
    case True
    with assms(1) ids rest p show ?thesis
      by (auto simp: reload_publish_def life_ok_def accounted_def phase_ok_def boot_of_def ac_simps cong: shutdownPhase.case_cong)
  next
    case False
    with assms(1) have "lv_phase st = Serving" by (simp add: life_ok_def phase_ok_def)
    with assms(1) ids rest p pair tr False show ?thesis
      by (cases "lv_boot st") (auto simp: reload_publish_def Let_def life_ok_def accounted_def phase_ok_def boot_of_def boot_ids_def ac_simps)
  qed
qed

lemma find_ok:
  assumes "life_ok st"
  shows "life_ok (fst (findProxyForURL env st u))"
proof (cases "lv_w st")
  case (Some sn)
  obtain w r where "FindProxyForURL env (sn_wproxy sn) u = (w, r)" by fastforce
  with Some have f: "fst (findProxyForURL env st u) = st\<lparr>lv_w := Some (sn\<lparr>sn_wproxy := w\<rparr>)\<rparr>"
    by (cases r) (auto simp: findProxyForURL_def)
  from assms Some show ?thesis unfolding f
    by (auto simp: life_ok_def accounted_def phase_ok_def boot_of_def split: shutdownPhase.splits option.splits)
qed (use assms in \<open>simp add: findProxyForURL_def\<close>)

lemma drained_nil:
  assumes "tunnelShuttingDown t" "tunnels t = []" "tunnelPending t = 0"
  shows "tunnels (tunnel_step t ev) = [] \<and> tunnelPending (tunnel_step t ev) = 0"
  using tunnel_step_shutdown [OF assms(1), of ev] assms(2,3) by auto

lemma tunnel_flag: "ev \<noteq> TShutdown \<Longrightarrow> tunnelShuttingDown (tunnel_step t ev) = tunnelShuttingDown t"
  by (cases ev) (auto simp: tunnel_step_def reserveTunnel_def cancelTunnelReservation_def activateManagedTunnel_def
      finishTunnel_def closeTunnel_def signalTunnelZeroLocked_def Let_def)

lemma tunnels_ok:
  assumes "life_ok st" "ev \<noteq> TShutdown"
  shows "life_ok (st\<lparr>lv_tunnels := tunnel_step (lv_tunnels st) ev\<rparr>)"
proof -
  have "tunnel_ok (tunnel_step (lv_tunnels st) ev)" using assms(1) by (simp add: life_ok_def tunnel_step_ok)
  moreover have "phase_ok (st\<lparr>lv_tunnels := tunnel_step (lv_tunnels st) ev\<rparr>)"
    using assms(1) tunnel_flag [OF assms(2), of "lv_tunnels st"] drained_nil [of "lv_tunnels st" ev] tunnel_step_shutdown [of "lv_tunnels st" ev]
    by (auto simp: life_ok_def phase_ok_def boot_of_def split: shutdownPhase.splits)
  ultimately show ?thesis using assms(1) by (simp add: life_ok_def accounted_def boot_of_def)
qed

lemma shutdown_begin_ok: "life_ok st \<Longrightarrow> life_ok (shutdown_begin st)"
  by (auto simp: shutdown_begin_def life_ok_def accounted_def phase_ok_def boot_of_def)

lemma shutdown_tunnels_ok:
  assumes "life_ok st"
  shows "life_ok (shutdown_tunnels st)"
proof (cases "lv_phase st = Fenced")
  case True
  obtain t fin where b: "beginTunnelShutdown (lv_tunnels st) = (t, fin)" by fastforce
  then have "t = tunnel_step (lv_tunnels st) TShutdown" by (simp add: tunnel_step_def)
  then have ok: "tunnel_ok t" using assms by (simp add: life_ok_def tunnel_step_ok)
  have "tunnelShuttingDown t \<and> fin = tunnelZero t"
    using b closeTunnels_frame [of "lv_tunnels st\<lparr>tunnelShuttingDown := True\<rparr>" "tunnels (lv_tunnels st)"]
    by (auto simp: beginTunnelShutdown_def Let_def)
  with assms True b ok show ?thesis by (auto simp: shutdown_tunnels_def life_ok_def accounted_def phase_ok_def boot_of_def)
qed (use assms in \<open>simp add: shutdown_tunnels_def\<close>)

lemma shutdown_drained_ok:
  assumes "life_ok st"
  shows "life_ok (shutdown_drained pick e ce st)"
proof (cases "\<exists>fin te. lv_phase st = Draining fin \<and> waitTunnelDrain pick (lv_tunnels st) ce fin = Some te")
  case True
  then obtain fin te where d: "lv_phase st = Draining fin" "waitTunnelDrain pick (lv_tunnels st) ce fin = Some te" by blast
  have "transports_ok (transport_clear (lv_transports st))" using assms by (simp add: life_ok_def transport_clear_ok)
  moreover have "te = None \<longrightarrow> tunnels (lv_tunnels st) = [] \<and> tunnelPending (lv_tunnels st) = 0"
    using assms d by (auto simp: life_ok_def phase_ok_def tunnel_ok_def waitTunnelDrain_def split: if_splits option.splits)
  ultimately show ?thesis using assms d
    by (auto simp: shutdown_drained_def life_ok_def accounted_def phase_ok_def boot_of_def first_err_def split: option.splits)
next
  case False
  then have "shutdown_drained pick e ce st = st" by (auto simp: shutdown_drained_def split: shutdownPhase.splits option.splits)
  with assms show ?thesis by simp
qed

lemma shutdown_bootstrap_ok:
  assumes "life_ok st"
  shows "life_ok (shutdown_bootstrap e st)"
proof (cases "\<exists>err. lv_phase st = RetireBootstrap err")
  case True
  with assms show ?thesis
    by (auto simp: shutdown_bootstrap_def life_ok_def accounted_def phase_ok_def boot_of_def boot_ids_def first_err_def ac_simps add_mset_commute
        split: option.splits)
next
  case False
  then have "shutdown_bootstrap e st = st" by (auto simp: shutdown_bootstrap_def split: shutdownPhase.splits)
  with assms show ?thesis by simp
qed

lemma shutdown_routes_ok:
  assumes "life_ok st"
  shows "life_ok (shutdown_routes e st)"
proof (cases "\<exists>err. lv_phase st = RetireRoutes err")
  case True
  with assms show ?thesis
    by (auto simp: shutdown_routes_def life_ok_def accounted_def phase_ok_def boot_of_def first_err_def ac_simps
        split: option.splits)
next
  case False
  then have "shutdown_routes e st = st" by (auto simp: shutdown_routes_def split: shutdownPhase.splits)
  with assms show ?thesis by simp
qed

interpretation life_machine: machine life_step life_ok
proof
  fix st :: "'vm lifeState" and ev :: "'vm life_event"
  assume ok: "life_ok st"
  show "life_ok (life_step st ev)"
  proof (cases ev)
    case (LTransport tev)
    have "transports_ok (transport_step (lv_transports st) tev)" using ok by (simp add: life_ok_def transport_step_ok)
    with ok show ?thesis unfolding LTransport life_step.simps by (elim same_routes_ok) simp_all
  qed (use ok in \<open>simp_all add: build_ok publish_ok find_ok tunnels_ok shutdown_begin_ok shutdown_tunnels_ok shutdown_drained_ok shutdown_bootstrap_ok shutdown_routes_ok\<close>)
qed

lemma new_server_ok: "life_ok (new_server w b now)"
  using new_tunnels_ok by (cases b) (auto simp: new_server_def life_ok_def accounted_def phase_ok_def boot_of_def boot_ids_def pending_ids_def
      new_transports_ok new_tunnels_def numeral_2_eq_2 upt_rec)

section \<open>After the fence\<close>

text \<open>Once the shutdown has begun, the routes in use are those of that moment until they are gone.\<close>

definition keeps :: "'vm snapshot option \<Rightarrow> 'vm snapshot option \<Rightarrow> bool" where
  "keeps a b \<longleftrightarrow> b = None \<or> (\<exists>x y. a = Some x \<and> b = Some y \<and> sn_id x = sn_id y)"

lemma keeps_refl: "keeps a a"
  by (cases a) (simp_all add: keeps_def)

lemma keeps_trans: "keeps a b \<Longrightarrow> keeps b c \<Longrightarrow> keeps a c"
  by (auto simp: keeps_def)

lemma closed_step:
  assumes "lv_routingClosed st" "lv_phase st \<noteq> Serving"
  shows "lv_routingClosed (life_step st ev) \<and> lv_phase (life_step st ev) \<noteq> Serving \<and> keeps (lv_w st) (lv_w (life_step st ev))
    \<and> keeps (boot_of st) (boot_of (life_step st ev))"
proof (cases ev)
  case (LBuild r rb e)
  with assms show ?thesis
    by (auto simp: keeps_refl reload_build_def fresh_snapshot_def boot_of_def split: sum.splits option.splits)
next
  case (LPublish i now e eb)
  with assms show ?thesis by (auto simp: keeps_refl reload_publish_def boot_of_def split: prod.splits)
next
  case (LFind env u)
  with assms show ?thesis
    by (auto simp: keeps_refl findProxyForURL_def boot_of_def keeps_def split: option.splits prod.splits sum.splits)
next
  case LShutdown
  with assms show ?thesis by (simp add: keeps_refl shutdown_begin_def)
next
  case LTunnelsDown
  with assms show ?thesis by (auto simp: keeps_refl shutdown_tunnels_def boot_of_def split: prod.splits)
next
  case (LDrained pick e ce)
  with assms show ?thesis
    by (auto simp: keeps_refl shutdown_drained_def boot_of_def split: shutdownPhase.splits option.splits)
next
  case (LBootstrap e)
  with assms show ?thesis
    by (auto simp: keeps_def shutdown_bootstrap_def boot_of_def split: shutdownPhase.splits option.splits)
next
  case (LRoutes e)
  with assms show ?thesis
    by (auto simp: keeps_def shutdown_routes_def boot_of_def split: shutdownPhase.splits option.splits)
qed (use assms in \<open>auto simp: keeps_refl boot_of_def\<close>)

lemma closed_run:
  assumes "lv_routingClosed st" "lv_phase st \<noteq> Serving"
  shows "keeps (lv_w st) (lv_w (life_run st evs)) \<and> keeps (boot_of st) (boot_of (life_run st evs))"
  using assms
proof (induction evs arbitrary: st)
  case (Cons ev evs)
  from closed_step [OF Cons.prems, of ev] Cons.IH [of "life_step st ev"] show ?case by (auto intro: keeps_trans)
qed (simp add: keeps_refl)

section \<open>Properties\<close>

text \<open>C13: Routing snapshots are never lost and never closed twice. Under every interleaving of reloads, requests,
  tunnels and the shutdown, each snapshot ever built is in exactly one place: in use, held by a reload that is
  not finished, or closed once. The routes of requests and those of the DoH bootstrap that are in use come from
  one construction. A server that is not shut down has a route.\<close>

theorem routes_accounted:
  fixes w :: "'vm Wproxy" and b :: "'vm Wproxy option" and now :: gotime and evs :: "'vm life_event list"
  defines "st \<equiv> life_run (new_server w b now) evs"
  shows "opt_ids (lv_w st) + boot_ids (lv_boot st) + pending_ids (lv_pending st) + mset (lv_closed st) = mset [0..<lv_next st]
    \<and> paired (lv_w st) (boot_of st) \<and> (lv_w st = None \<longleftrightarrow> (\<exists>err. lv_phase st = Stopped err))"
proof -
  have "life_ok st" unfolding st_def by (rule life_machine.run_inv [OF new_server_ok])
  then show ?thesis by (auto simp: life_ok_def accounted_def phase_ok_def split: shutdownPhase.splits)
qed

text \<open>C4: The shutdown is final and complete. From its first section on no other route comes into use, whatever
  reloads do. When it is over, there is no route, every snapshot ever built is closed exactly once, except those that a
  reload still holds which has not come to its last section (where it closes them), and, unless the shutdown reports an
  error, no tunnel is open or reserved.\<close>

theorem shutdown_final:
  fixes w :: "'vm Wproxy" and b :: "'vm Wproxy option" and now :: gotime and evs evs' :: "'vm life_event list"
  assumes "lv_phase (life_run (new_server w b now) evs) = Serving"
  defines "st0 \<equiv> life_run (new_server w b now) evs"
  defines "st \<equiv> life_run (life_step st0 LShutdown) evs'"
  shows "keeps (lv_w st0) (lv_w st) \<and> keeps (boot_of st0) (boot_of st)
    \<and> (lv_phase st = Stopped err \<longrightarrow>
        lv_w st = None \<and> boot_of st = None \<and> mset (lv_closed st) + pending_ids (lv_pending st) = mset [0..<lv_next st]
        \<and> (err = None \<longrightarrow> tunnels (lv_tunnels st) = [] \<and> tunnelPending (lv_tunnels st) = 0))"
proof -
  have ok: "life_ok st" unfolding st_def st0_def
    by (intro life_machine.run_inv life_machine.step_inv new_server_ok)
  have fence: "lv_routingClosed (life_step st0 LShutdown)" "lv_phase (life_step st0 LShutdown) \<noteq> Serving"
    "lv_w (life_step st0 LShutdown) = lv_w st0" "boot_of (life_step st0 LShutdown) = boot_of st0"
    using assms(1) by (auto simp: st0_def shutdown_begin_def boot_of_def split: prod.splits)
  have "keeps (lv_w st0) (lv_w st) \<and> keeps (boot_of st0) (boot_of st)"
    using closed_run [OF fence(1,2), of evs'] unfolding fence(3,4) st_def .
  moreover have "boot_ids (lv_boot st) = {#}" if "boot_of st = None"
    using that by (auto simp: boot_of_def boot_ids_def split: option.splits)
  ultimately show ?thesis using ok by (auto simp: life_ok_def accounted_def phase_ok_def ac_simps)
qed

definition ex_wproxy :: "unit Wproxy" where
  "ex_wproxy = \<lparr>wp_Mode = ModeNone, wp_Source = RouteSourceDirect, wp_SystemProxySupported = False, wp_Servers = [],
     wp_Rules = no_rules, wp_NoProxyHostsStr = [], wp_PAC = None, wp_resolver = False, wp_systemConfig = no_config,
     wp_env = \<lparr>ep_byScheme = [], ep_all = []\<rparr>\<rparr>"

text \<open>A reload has built when the shutdown begins, and publishes too late.\<close>

theorem shutdown_final_witness:
  "\<exists>st :: unit lifeState. lv_phase st = Stopped None \<and> lv_w st = None \<and> lv_next st = 2 \<and> mset (lv_closed st) = mset [0..<2]"
proof -
  let ?evs = "[LBuild (Inr ex_wproxy) (Inr ex_wproxy) None]"
    and ?evs' = "[LTunnelsDown, LPublish 0 0 None None, LDrained True None None, LBootstrap None, LRoutes None]"
  let ?before = "life_run (new_server ex_wproxy None 0) ?evs"
  let ?st = "life_run (life_step ?before LShutdown) ?evs'"
  have serving: "lv_phase ?before = Serving" by (simp add: new_server_def reload_build_def fresh_snapshot_def)
  have fin: "lv_phase ?st = Stopped None" "lv_pending ?st = []" "lv_next ?st = 2"
    by code_simp+
  from shutdown_final [OF serving, of ?evs' None] fin(1) have "lv_w ?st = None"
    "mset (lv_closed ?st) + pending_ids (lv_pending ?st) = mset [0..<lv_next ?st]"
    by blast+
  then have r: "lv_w ?st = None" "mset (lv_closed ?st) = mset [0..<lv_next ?st]" by (simp_all only: fin(2)) (simp add: pending_ids_def)
  show ?thesis by (rule exI [of _ ?st]) (simp only: fin(1,3) r simp_thms)
qed

end
