(* ===== verification/Proxy_Handlers.thy ===== *)
theory Proxy_Handlers
  imports Proxy_Retry Proxy_Body Proxy_Intermediary Proxy_Lifecycle
begin

text \<open>
  The handlers of requests: \<^verbatim>\<open>handleHTTP\<close> and \<^verbatim>\<open>needsReplayableBody\<close> of \<^verbatim>\<open>internal/proxy/proxy.go\<close>, \<^verbatim>\<open>handleConnect\<close> of
  \<^verbatim>\<open>internal/proxy/connect.go\<close> and \<^verbatim>\<open>handleHTTPUpgrade\<close> of \<^verbatim>\<open>internal/proxy/intermediary.go\<close>. They compose the parts that
  the other theories model: the route, the stored body, the round trip with its fallback, the headers and the
  registry of tunnels. What routing and the upstream give is an input here.
\<close>

section \<open>Bodies that may be sent again\<close>

text \<open>\<open>proxyAuth\<close> is the Proxy-Authorization header of the request.\<close>

definition needsReplayableBody :: "upstreamConfig \<Rightarrow> bool \<Rightarrow> string \<Rightarrow> Server list \<Rightarrow> bool" where
  "needsReplayableBody cfg hasBody proxyAuth proxies =
     (if \<not> hasBody then False
      else case proxies of
        [] \<Rightarrow> False
      | [p] \<Rightarrow>
          if p = DirectServer then False
          else if proxyAuth \<noteq> [] then True
          else if upstreamAuthModes (Auth cfg) = [] then False
          else if Username cfg \<noteq> [] \<and> Password cfg \<noteq> [] then True
          else GOOS cfg = ''windows''
      | _ \<Rightarrow> True)"

section \<open>The server\<close>

text \<open>The parts of a server that a request meets. The cache of transports is that of \<open>ss_life\<close>; \<open>ss_http\<close> holds
  the rest of the state of round trips. \<open>zero_server\<close> is \<^verbatim>\<open>wproxy.Server{}\<close>.\<close>

record ('vm, 'c) serverState =
  ss_life :: "'vm lifeState"
  ss_sup :: "Supervisor option"
  ss_http :: "'c httpState"
  ss_budget :: replayBudget

definition zero_server :: Server where "zero_server = \<lparr>srv_Host = [], srv_Port = 0, srv_Scheme = []\<rparr>"

definition route_failed :: "gotime \<Rightarrow> ('vm, 'c) serverState \<Rightarrow> ('vm, 'c) serverState" where
  "route_failed now st = st\<lparr>ss_sup := recoverRuntimeOutcome (ss_sup st) now OutcomeRouteFailure zero_server\<rparr>"

definition find_route :: "'vm route_env \<Rightarrow> string \<Rightarrow> ('vm, 'c) serverState \<Rightarrow> ('vm, 'c) serverState \<times> (goerr + Server list)" where
  "find_route renv url st = (case findProxyForURL renv (ss_life st) url of (life, r) \<Rightarrow> (st\<lparr>ss_life := life\<rparr>, r))"

definition set_tunnels :: "tunnelState \<Rightarrow> ('vm, 'c) serverState \<Rightarrow> ('vm, 'c) serverState" where
  "set_tunnels t st = st\<lparr>ss_life := (ss_life st)\<lparr>lv_tunnels := t\<rparr>\<rparr>"

section \<open>Tunnels\<close>

text \<open>What the steps after the upstream connection meet: whether the connection can be taken over, whether the
  shutdown of the server begins between the reservation and the activation, the errors of the steps, and the
  bytes that the client has sent already.\<close>

record tunnelInput =
  ti_canHijack :: bool
  ti_hijackErr :: bool
  ti_shutdownBetween :: bool
  ti_writeErr :: bool
  ti_buffered :: string
  ti_forwardErr :: bool

text \<open>What becomes of a tunnel: an error answer or none, whether the upstream connection was closed directly, the
  bytes written to both sides, and the tunnel that the relay runs on.\<close>

record tunnelOutcome =
  to_status :: "int option"
  to_upstreamClosed :: bool
  to_client :: string
  to_upstream :: string
  to_relay :: "nat option"

definition no_tunnel :: "int option \<Rightarrow> tunnelOutcome" where
  "no_tunnel status = \<lparr>to_status = status, to_upstreamClosed = True, to_client = [], to_upstream = [], to_relay = None\<rparr>"

text \<open>The part that both handlers share, from the hijack on; \<open>greeting\<close> is what the client gets first.\<close>

definition run_tunnel :: "tunnelInput \<Rightarrow> string \<Rightarrow> tunnelState \<Rightarrow> nat \<Rightarrow> tunnelState \<times> tunnelOutcome" where
  "run_tunnel inp greeting s t =
     (let failed = (closeAndFinishTunnel s t, no_tunnel None) in
      if ti_writeErr inp then failed
      else if ti_buffered inp \<noteq> [] \<and> ti_forwardErr inp then failed
      else (s, \<lparr>to_status = None, to_upstreamClosed = False, to_client = greeting, to_upstream = ti_buffered inp, to_relay = Some t\<rparr>))"

definition open_tunnel :: "tunnelInput \<Rightarrow> string \<Rightarrow> tunnelState \<Rightarrow> tunnelState \<times> tunnelOutcome" where
  "open_tunnel inp greeting s =
     (if \<not> ti_canHijack inp then (s, no_tunnel (Some 500))
      else case reserveTunnel s of
        (s, False) \<Rightarrow> (s, no_tunnel (Some 503))
      | (s, True) \<Rightarrow>
          let s = (if ti_shutdownBetween inp then fst (beginTunnelShutdown s) else s) in
          if ti_hijackErr inp then (cancelTunnelReservation s, no_tunnel None)
          else case activateManagedTunnel s of
            (s, None) \<Rightarrow> (s, no_tunnel None)
          | (s, Some t) \<Rightarrow> run_tunnel inp greeting s t)"

definition established :: string where "established = ''HTTP/1.1 200 Connection Established'' @ crlf @ crlf"

text \<open>\<open>attempts\<close> is what the candidates meet, as for \<^verbatim>\<open>connectWithProxyFallback\<close>. The result counts the upstream
  connections that were opened and closed.\<close>

definition handleConnect ::
  "'vm route_env \<Rightarrow> gotime \<Rightarrow> (nat \<Rightarrow> dialAttempt) \<Rightarrow> string \<Rightarrow> tunnelInput \<Rightarrow> ('vm, 'c) serverState
    \<Rightarrow> ('vm, 'c) serverState \<times> (nat \<times> nat) \<times> tunnelOutcome" where
  "handleConnect renv now attempts host inp st =
     (case find_route renv (''https://'' @ connectTarget host) st of
        (st, Inl e) \<Rightarrow> (route_failed now st, (0, 0), no_tunnel (Some 502))
      | (st, Inr proxies) \<Rightarrow>
          (case connectWithProxyFallbackDial attempts now (ss_sup st) proxies of
             (fb, r) \<Rightarrow>
               let st = st\<lparr>ss_sup := fb_sv fb\<rparr> in
               case r of
                 Inl e \<Rightarrow> (st, (fb_opened fb, fb_closed fb), no_tunnel (Some 502))
               | Inr (_, leftover) \<Rightarrow>
                   (case open_tunnel inp (established @ leftover) (lv_tunnels (ss_life st)) of
                      (t, out) \<Rightarrow>
                        (set_tunnels t st, (fb_opened fb, fb_closed fb + (if to_upstreamClosed out then 1 else 0)), out))))"

text \<open>\<open>duplex\<close> is whether the body of the response is a connection; \<open>render\<close> writes the header fields.\<close>

definition upgrade_greeting :: "header \<Rightarrow> string \<Rightarrow> (header \<Rightarrow> string) \<Rightarrow> string" where
  "upgrade_greeting respHeader proto render =
     (if proto = [] then ''HTTP/1.1'' else proto) @ '' 101 Switching Protocols'' @ crlf @ render (upgrade_response_header respHeader) @ crlf"

definition handleHTTPUpgrade ::
  "bool \<Rightarrow> header \<Rightarrow> header \<Rightarrow> string \<Rightarrow> (header \<Rightarrow> string) \<Rightarrow> tunnelInput \<Rightarrow> tunnelState \<Rightarrow> tunnelState \<times> tunnelOutcome" where
  "handleHTTPUpgrade duplex reqHeader respHeader proto render inp s =
     (if \<not> duplex \<or> requestedUpgrade reqHeader = [] then (s, no_tunnel (Some 502))
      else open_tunnel inp (upgrade_greeting respHeader proto render) s)"

section \<open>Plain requests\<close>

text \<open>The answer that the handler itself gives, a protocol switch, or the response of the upstream.\<close>

datatype httpAnswer = NoAnswer | ErrorAnswer int | SwitchProtocols tunnelOutcome | FinalAnswer responseWriter

definition replay_error_answer :: "goerr \<Rightarrow> httpAnswer" where
  "replay_error_answer err =
     (if errors_is err Canceled \<or> errors_is err DeadlineExceeded then NoAnswer
      else if errors_is err errReplayBodyTooLarge then ErrorAnswer 413
      else if errors_is err errReplaySpoolQuota then ErrorAnswer 507
      else ErrorAnswer 400)"

text \<open>The request and what it meets: whether its URL is absolute and the URL's parts, whether the target parses,
  the reads of its body and the removal of the stored file. \<open>hi_full\<close> gives the header and the body of a response,
  \<open>hi_duplex\<close> whether its body is a connection. A list of reads that ends too early means that the body is still
  being read.\<close>

record httpInput =
  hi_isAbs :: bool
  hi_url :: string
  hi_host :: string
  hi_requestURI :: string
  hi_header :: header
  hi_urlErr :: bool
  hi_hasBody :: bool
  hi_contentLength :: int
  hi_reads :: "readRound list"
  hi_remove :: removeResult
  hi_full :: "connResponse \<Rightarrow> httpResponse"
  hi_duplex :: bool
  hi_proto :: string
  hi_render :: "header \<Rightarrow> string"
  hi_tunnel :: tunnelInput
  hi_writer :: responseWriter

definition http_target :: "httpInput \<Rightarrow> string" where
  "http_target inp = (if hi_isAbs inp then hi_url inp else ''http://'' @ hi_host inp @ hi_requestURI inp)"

definition incoming_auth :: "httpInput \<Rightarrow> string" where
  "incoming_auth inp = header_Get (hi_header inp) ''Proxy-Authorization''"

text \<open>The round trip and its answer; \<open>stored\<close> is whether the body was stored.\<close>

definition send_http ::
  "(byte list \<Rightarrow> byte list) \<Rightarrow> 'c retryEnv \<Rightarrow> (nat \<Rightarrow> tripAttempt) \<Rightarrow> gotime \<Rightarrow> httpInput \<Rightarrow> bool \<Rightarrow> Server list \<Rightarrow> ('vm, 'c) serverState
    \<Rightarrow> ('vm, 'c) serverState \<times> httpAnswer" where
  "send_http mac env ta now inp stored proxies st =
     (let env = env\<lparr>he_target := http_target inp, he_passthroughAuth := incoming_auth inp, he_streamed := hi_hasBody inp \<and> \<not> stored\<rparr> in
      case roundTripHTTPWithProxyFallback mac env ta now proxies (ss_sup st) ((ss_http st)\<lparr>hs_cache := lv_transports (ss_life st), hs_sent := []\<rparr>) of
        (sv, h, r) \<Rightarrow>
          let st = st\<lparr>ss_sup := sv, ss_http := h, ss_life := (ss_life st)\<lparr>lv_transports := hs_cache h\<rparr>\<rparr> in
          case r of
            Inl e \<Rightarrow> (st, ErrorAnswer 502)
          | Inr resp \<Rightarrow>
              let st = st\<lparr>ss_http := close_body h\<rparr>; full = (hi_full inp resp)\<lparr>resp_StatusCode := cn_status resp\<rparr> in
              if cn_status resp = 101 then
                (case handleHTTPUpgrade (hi_duplex inp) (hi_header inp) (resp_Header full) (hi_proto inp) (hi_render inp) (hi_tunnel inp)
                        (lv_tunnels (ss_life st)) of
                   (t, out) \<Rightarrow> (set_tunnels t st, SwitchProtocols out))
              else (st, FinalAnswer (writeHTTPResponse (Auth (he_cfg env)) (hi_writer inp) full)))"

definition handleHTTP ::
  "(byte list \<Rightarrow> byte list) \<Rightarrow> 'c retryEnv \<Rightarrow> 'vm route_env \<Rightarrow> replayBodyLimits \<Rightarrow> (nat \<Rightarrow> tripAttempt) \<Rightarrow> gotime \<Rightarrow> httpInput
    \<Rightarrow> ('vm, 'c) serverState \<Rightarrow> (('vm, 'c) serverState \<times> httpAnswer) option" where
  "handleHTTP mac env renv limits ta now inp st =
     (case find_route renv (http_target inp) st of
        (st, Inl e) \<Rightarrow> Some (route_failed now st, ErrorAnswer 502)
      | (st, Inr proxies) \<Rightarrow>
          if hi_urlErr inp then Some (st, ErrorAnswer 400)
          else if needsReplayableBody (he_cfg env) (hi_hasBody inp) (incoming_auth inp) proxies then
            (case read_body limits (hi_reads inp) (ss_budget st) (newReplayableBodyWithLimits True (hi_contentLength inp) limits) of
               (b, Reading _) \<Rightarrow> None
             | (b, Failed e _ _) \<Rightarrow> Some (st\<lparr>ss_budget := b\<rparr>, replay_error_answer e)
             | (b, Ready rb) \<Rightarrow>
                 (case send_http mac env ta now inp True proxies (st\<lparr>ss_budget := b\<rparr>) of
                    (st, ans) \<Rightarrow> (case body_Close (ss_budget st) rb (hi_remove inp) of (b, _, _) \<Rightarrow> Some (st\<lparr>ss_budget := b\<rparr>, ans))))
          else Some (send_http mac env ta now inp False proxies st))"

section \<open>Lemmas\<close>

text \<open>Both sides of a tunnel are handled: it is registered and relayed, or everything is as before and the
  upstream connection is closed.\<close>

definition tunnel_settled :: "tunnelInput \<Rightarrow> string \<Rightarrow> tunnelState \<Rightarrow> tunnelState \<times> tunnelOutcome \<Rightarrow> bool" where
  "tunnel_settled inp greeting s r \<longleftrightarrow>
     (case r of (s', out) \<Rightarrow>
        tunnel_ok s' \<and> tunnelPending s' = tunnelPending s
        \<and> (case to_relay out of
             Some t \<Rightarrow> t \<notin> set (tunnels s) \<and> tunnels s' = t # tunnels s \<and> \<not> to_upstreamClosed out
               \<and> to_client out = greeting \<and> to_upstream out = ti_buffered inp
           | None \<Rightarrow> tunnels s' = tunnels s \<and> to_upstreamClosed out))"

lemma activate_fields:
  assumes "activateManagedTunnel s = (s', r)" "tunnel_ok s" "0 < tunnelPending s"
  shows "tunnel_ok s' \<and> Suc (tunnelPending s') = tunnelPending s
    \<and> (case r of None \<Rightarrow> tunnels s' = tunnels s | Some t \<Rightarrow> t \<notin> set (tunnels s) \<and> tunnels s' = t # tunnels s)"
proof -
  have "s' = tunnel_step s TActivate" using assms(1,3) by (simp add: tunnel_step_def)
  then have "tunnel_ok s'" using assms(2) by (simp add: tunnel_step_ok)
  with assms show ?thesis
    by (auto simp: activateManagedTunnel_def Let_def signalTunnelZeroLocked_def tunnel_ok_def split: if_splits)
qed

lemma close_finish_frame:
  assumes "tunnel_ok s" "tunnels s = t # ts" "t \<notin> set ts"
  shows "tunnel_ok (closeAndFinishTunnel s t) \<and> tunnels (closeAndFinishTunnel s t) = ts
    \<and> tunnelPending (closeAndFinishTunnel s t) = tunnelPending s"
proof -
  have "closeAndFinishTunnel s t = tunnel_step (tunnel_step s (TClose t)) (TFinish t)"
    by (simp add: closeAndFinishTunnel_def tunnel_step_def)
  then have "tunnel_ok (closeAndFinishTunnel s t)" using assms(1) by (simp add: tunnel_step_ok)
  with assms(2,3) show ?thesis
    by (auto simp: closeAndFinishTunnel_def finishTunnel_def closeTunnel_def signalTunnelZeroLocked_def)
qed

lemma reserved_state:
  assumes "reserveTunnel s = (s1, True)" "tunnel_ok s" "s2 = (if b then fst (beginTunnelShutdown s1) else s1)"
  shows "tunnel_ok s2 \<and> tunnels s2 = tunnels s \<and> tunnelPending s2 = Suc (tunnelPending s)"
proof -
  have "s1 = tunnel_step s TReserve" using assms(1) by (simp add: tunnel_step_def)
  moreover have "fst (beginTunnelShutdown s1) = tunnel_step s1 TShutdown" by (simp add: tunnel_step_def)
  ultimately have "tunnel_ok s2" using assms(2,3) by (simp add: tunnel_step_ok)
  moreover have "tunnels s1 = tunnels s \<and> tunnelPending s1 = Suc (tunnelPending s)"
    using assms(1) by (auto simp: reserveTunnel_def Let_def split: if_splits)
  ultimately show ?thesis
    using assms(3) closeTunnels_frame [of "s1\<lparr>tunnelShuttingDown := True\<rparr>" "tunnels s1"]
    by (auto simp: beginTunnelShutdown_def Let_def)
qed

lemma run_settled:
  assumes "tunnel_ok s" "tunnels s = t # tunnels s0" "t \<notin> set (tunnels s0)" "tunnelPending s = tunnelPending s0"
  shows "tunnel_settled inp greeting s0 (run_tunnel inp greeting s t)"
  using assms close_finish_frame [OF assms(1-3)] by (auto simp: run_tunnel_def tunnel_settled_def no_tunnel_def Let_def)

lemma open_tunnel_settled:
  assumes "tunnel_ok s"
  shows "tunnel_settled inp greeting s (open_tunnel inp greeting s)"
proof (cases "ti_canHijack inp \<and> snd (reserveTunnel s)")
  case False
  moreover have "fst (reserveTunnel s) = s" if "\<not> snd (reserveTunnel s)" using that by (auto simp: reserveTunnel_def Let_def split: if_splits)
  ultimately show ?thesis
    using assms by (cases "reserveTunnel s") (auto simp: open_tunnel_def tunnel_settled_def no_tunnel_def split: bool.splits)
next
  case True
  then obtain s1 where r: "reserveTunnel s = (s1, True)" by (metis prod.collapse)
  define s2 where "s2 = (if ti_shutdownBetween inp then fst (beginTunnelShutdown s1) else s1)"
  note st = reserved_state [OF r assms s2_def]
  show ?thesis
  proof (cases "ti_hijackErr inp")
    case hijack: True
    have "cancelTunnelReservation s2 = tunnel_step s2 TCancel" using st by (simp add: tunnel_step_def)
    then have "tunnel_ok (cancelTunnelReservation s2)" using st by (simp add: tunnel_step_ok)
    moreover have "tunnels (cancelTunnelReservation s2) = tunnels s \<and> tunnelPending (cancelTunnelReservation s2) = tunnelPending s"
      using st by (simp add: cancelTunnelReservation_def signalTunnelZeroLocked_def)
    ultimately show ?thesis using True hijack r by (simp add: open_tunnel_def tunnel_settled_def no_tunnel_def s2_def [symmetric] Let_def)
  next
    case False
    obtain s3 t where a: "activateManagedTunnel s2 = (s3, t)" by fastforce
    note ac = activate_fields [OF a]
    from True False r a have o: "open_tunnel inp greeting s = (case t of None \<Rightarrow> (s3, no_tunnel None) | Some t \<Rightarrow> run_tunnel inp greeting s3 t)"
      by (simp add: open_tunnel_def s2_def [symmetric] Let_def split: option.splits)
    show ?thesis
    proof (cases t)
      case None
      with ac st o show ?thesis by (simp add: tunnel_settled_def no_tunnel_def)
    next
      case (Some x)
      with ac st have "tunnel_ok s3" "tunnels s3 = x # tunnels s" "x \<notin> set (tunnels s)" "tunnelPending s3 = tunnelPending s" by simp_all
      from run_settled [OF this] o Some show ?thesis by simp
    qed
  qed
qed

lemma open_tunnel_relays:
  "to_relay (snd (open_tunnel inp greeting s)) \<noteq> None \<longleftrightarrow>
     ti_canHijack inp \<and> \<not> tunnelShuttingDown s \<and> \<not> ti_shutdownBetween inp \<and> \<not> ti_hijackErr inp \<and> \<not> ti_writeErr inp
     \<and> (ti_buffered inp = [] \<or> \<not> ti_forwardErr inp)"
proof -
  have "tunnelShuttingDown (fst (beginTunnelShutdown s'))" for s'
    using closeTunnels_frame [of "s'\<lparr>tunnelShuttingDown := True\<rparr>" "tunnels s'"] by (simp add: beginTunnelShutdown_def Let_def)
  then show ?thesis
    by (auto simp: open_tunnel_def run_tunnel_def no_tunnel_def activateManagedTunnel_def reserveTunnel_def Let_def)
qed

section \<open>Budget of a request\<close>

definition removable :: "readRound \<Rightarrow> bool" where
  "removable rr \<longleftrightarrow> (case rr_remove rr of RemoveFailed _ \<Rightarrow> False | _ \<Rightarrow> True)"

fun settled_state :: "bodyState \<Rightarrow> bool" where
  "settled_state (Failed e orphan content) = (orphan = 0)"
| "settled_state (Ready rb) = (\<not> rb_closed rb)"
| "settled_state (Reading sp) = True"

lemma cleanup_settled: "removable rr \<Longrightarrow> body_cleanup rr b sp e = (b', st) \<Longrightarrow> settled_state st"
  by (auto simp: body_cleanup_def removable_def Let_def split: option.splits removeResult.splits)

lemma round_settled:
  assumes "body_round limits rr b sp = Some (b', st)" "removable rr"
  shows "settled_state st"
proof -
  have fin: "settled_state st" if "round_end rr c sq = (b', st)" for c sq
    using that assms(2) cleanup_settled [OF assms(2)]
    by (auto simp: round_end_def body_finish_def removable_def split: readEnd.splits option.splits removeResult.splits)
  show ?thesis
    using assms cleanup_settled [OF assms(2)] fin by (auto simp: body_round_def split: option.splits if_splits prod.splits)
qed

lemma read_body_budget:
  assumes "read_body limits rrs b st = (b', st')" "body_ok st" "bg_used b \<le> bg_max b" "settled_state st" "list_all removable rrs"
  shows "bg_used b' - held st' = bg_used b - held st \<and> bg_used b' \<le> bg_max b' \<and> body_ok st' \<and> settled_state st'"
  using assms
proof (induction limits rrs b st rule: read_body.induct)
  case (1 limits rr rrs b sp)
  show ?case
  proof (cases "body_round limits rr b sp")
    case (Some r)
    obtain b1 st1 where r: "r = (b1, st1)" by fastforce
    from round_budget [of limits rr b sp b1 st1] round_settled [of limits rr b sp b1 st1] Some r "1.prems"
    have "bg_used b1 - held st1 = bg_used b - sp_reserved sp" "bg_used b1 \<le> bg_max b1" "body_ok st1" "settled_state st1" by simp_all
    with "1.IH" [OF Some r [symmetric]] "1.prems" Some r show ?thesis by simp
  qed (use "1.prems" in simp)
qed auto

section \<open>Frames\<close>

lemma find_route_frame:
  assumes "find_route renv url st = (st', r)"
  shows "lv_tunnels (ss_life st') = lv_tunnels (ss_life st) \<and> ss_http st' = ss_http st \<and> ss_budget st' = ss_budget st \<and> ss_sup st' = ss_sup st"
  using assms by (auto simp: find_route_def findProxyForURL_def split: prod.splits option.splits sum.splits)

lemma route_failed_frame [simp]:
  "ss_life (route_failed now st) = ss_life st" "ss_http (route_failed now st) = ss_http st" "ss_budget (route_failed now st) = ss_budget st"
  by (simp_all add: route_failed_def)

lemma set_tunnels_frame [simp]:
  "lv_tunnels (ss_life (set_tunnels t st)) = t" "ss_http (set_tunnels t st) = ss_http st" "ss_budget (set_tunnels t st) = ss_budget st"
  by (simp_all add: set_tunnels_def)

lemma fallback_counts:
  assumes "connectWithProxyFallbackDial attempts now sv proxies = (fb, r)"
  shows "fb_opened fb = fb_closed fb + (if isl r then 0 else 1)"
proof -
  obtain sv' ps where "orderProxyCandidates sv now proxies = (sv', ps)" by fastforce
  with assms have "fallback_loop attempts 0 ps None \<lparr>fb_sv = sv', fb_tried = [], fb_opened = 0, fb_closed = 0\<rparr> = (fb, r)"
    by (simp add: connectWithProxyFallbackDial_def)
  from fallback_post [OF this] show ?thesis by (auto split: sum.splits)
qed

lemma settled_none: "tunnel_ok s \<Longrightarrow> tunnel_settled inp g s (s, no_tunnel st)"
  by (simp add: tunnel_settled_def no_tunnel_def)

lemma upgrade_settled:
  assumes "tunnel_ok s"
  shows "tunnel_settled inp (upgrade_greeting respHeader proto render) s (handleHTTPUpgrade duplex reqHeader respHeader proto render inp s)"
  using settled_none [OF assms] open_tunnel_settled [OF assms] by (simp add: handleHTTPUpgrade_def)

text \<open>What a round trip leaves of the state.\<close>

definition http_idle :: "('vm, 'c) serverState \<Rightarrow> bool" where
  "http_idle st \<longleftrightarrow> hs_held (ss_http st) = 0 \<and> hs_opened (ss_http st) = hs_closed (ss_http st)"

definition switch_settled :: "httpInput \<Rightarrow> tunnelState \<Rightarrow> tunnelState \<times> httpAnswer \<Rightarrow> bool" where
  "switch_settled inp s r \<longleftrightarrow>
     (case r of
        (s', SwitchProtocols out) \<Rightarrow> \<exists>greeting. tunnel_settled (hi_tunnel inp) greeting s (s', out)
      | (s', _) \<Rightarrow> s' = s)"

lemma send_http_post:
  assumes "send_http mac env ta now inp stored proxies st = (st', ans)" "validateUpstreamAuth (Auth (he_cfg env)) = None" "http_idle st"
    "tunnel_ok (lv_tunnels (ss_life st))"
  shows "http_idle st' \<and> hs_bodies (ss_http st') = hs_bodies (ss_http st) \<and> length (hs_sent (ss_http st')) \<le> 4 * length proxies
    \<and> ss_budget st' = ss_budget st \<and> switch_settled inp (lv_tunnels (ss_life st)) (lv_tunnels (ss_life st'), ans)"
proof -
  let ?env = "env\<lparr>he_target := http_target inp, he_passthroughAuth := incoming_auth inp, he_streamed := hi_hasBody inp \<and> \<not> stored\<rparr>"
  let ?h = "(ss_http st)\<lparr>hs_cache := lv_transports (ss_life st), hs_sent := []\<rparr>"
  obtain sv h r where rt: "roundTripHTTPWithProxyFallback mac ?env ta now proxies (ss_sup st) ?h = (sv, h, r)"
    by (cases "roundTripHTTPWithProxyFallback mac ?env ta now proxies (ss_sup st) ?h")
  have "hs_held h = 0 \<and> hs_opened h = hs_closed h \<and> length (hs_sent h) \<le> 4 * length proxies
      \<and> hs_bodies h = (if isl r then hs_bodies ?h else hs_bodies ?h + 1)"
    by (rule round_trip_releases [OF rt]) (use assms(2,3) in \<open>simp_all add: http_idle_def\<close>)
  moreover have "switch_settled inp s (s, a)" if "\<forall>out. a \<noteq> SwitchProtocols out" for s a
    using that by (auto simp: switch_settled_def split: httpAnswer.splits)
  moreover have "\<exists>greeting. tunnel_settled i greeting (lv_tunnels (ss_life st)) (s', out)"
    if "handleHTTPUpgrade duplex rqh rsh proto render i (lv_tunnels (ss_life st)) = (s', out)" for duplex rqh rsh proto render i s' out
    using upgrade_settled [OF assms(4), of i rsh proto render duplex rqh] that by auto
  ultimately show ?thesis
    using assms(1,3) rt
    by (auto simp: send_http_def Let_def http_idle_def close_body_def switch_settled_def split: sum.splits if_splits prod.splits)
qed

text \<open>A defect: with Kerberos, a user name and no password, as when a ticket is there already, the body of a request
  is not stored, so that the 407 response with a Negotiate challenge, which Kerberos could answer, goes to the
  client.\<close>

lemma kerberos_body_streamed:
  assumes "Kerberos cfg" "GOOS cfg = ''linux''" "Password cfg = []" "p \<noteq> DirectServer"
  shows "\<not> needsReplayableBody cfg True [] [p] \<and> isUnixKerberosCandidate cfg ''Negotiate''
    \<and> (he_cfg env = cfg \<and> he_streamed env \<longrightarrow> snd (retryHTTPProxyAuthWithPool env None False resp st) = Inr resp)"
proof -
  have "isUnixKerberosCandidate cfg ''Negotiate''"
    using assms(1,2) by (simp add: isUnixKerberosCandidate_def) code_simp
  with assms show ?thesis by (auto simp: needsReplayableBody_def retryHTTPProxyAuthWithPool_def Let_def)
qed

section \<open>Properties\<close>

text \<open>C7: A CONNECT request leaves a working tunnel or nothing. In every outcome, also when the shutdown begins
  between the reservation and the takeover of the client's connection, the reservation is used up and every
  upstream connection that was opened is closed, except that of the tunnel. A tunnel is new in the registry, the
  client has got the confirmation and exactly the bytes that followed the upstream's response to the handshake, and the
  upstream all bytes that the client had sent already. It opens exactly when a route and an upstream are found, the server is not and
  does not start shutting down, and every step on the client's connection succeeds.\<close>

theorem connect_settles:
  assumes "handleConnect renv now attempts host inp st = (st', (opened, shut), out)" "tunnel_ok (lv_tunnels (ss_life st))"
    and "find_route renv (''https://'' @ connectTarget host) st = (st1, route)"
  shows "(\<exists>leftover. tunnel_settled inp (established @ leftover) (lv_tunnels (ss_life st)) (lv_tunnels (ss_life st'), out)
      \<and> (to_relay out \<noteq> None \<longrightarrow>
           (\<exists>ps fb p. route = Inr ps \<and> connectWithProxyFallbackDial attempts now (ss_sup st) ps = (fb, Inr (p, leftover)))))
    \<and> opened = shut + (if to_relay out = None then 0 else 1)
    \<and> (to_relay out \<noteq> None \<longleftrightarrow>
         (\<exists>ps fb p leftover. route = Inr ps \<and> connectWithProxyFallbackDial attempts now (ss_sup st) ps = (fb, Inr (p, leftover))
             \<and> (ti_canHijack inp \<and> \<not> tunnelShuttingDown (lv_tunnels (ss_life st)) \<and> \<not> ti_shutdownBetween inp
                \<and> \<not> ti_hijackErr inp \<and> \<not> ti_writeErr inp \<and> (ti_buffered inp = [] \<or> \<not> ti_forwardErr inp))))"
proof (cases "\<exists>ps fb p leftover. route = Inr ps \<and> connectWithProxyFallbackDial attempts now (ss_sup st) ps = (fb, Inr (p, leftover))")
  case True
  then obtain ps fb p leftover where c: "route = Inr ps" "connectWithProxyFallbackDial attempts now (ss_sup st) ps = (fb, Inr (p, leftover))" by blast
  note fr = find_route_frame [OF assms(3)]
  obtain t o' where op: "open_tunnel inp (established @ leftover) (lv_tunnels (ss_life st)) = (t, o')" by fastforce
  from assms(1,3) c fr op have r: "out = o'" "lv_tunnels (ss_life st') = t" "opened = fb_opened fb"
    "shut = fb_closed fb + (if to_upstreamClosed o' then 1 else 0)"
    by (auto simp: handleConnect_def Let_def)
  have settled: "tunnel_settled inp (established @ leftover) (lv_tunnels (ss_life st)) (t, o')"
    using open_tunnel_settled [OF assms(2), of inp "established @ leftover"] op by simp
  moreover from settled have "to_upstreamClosed o' \<longleftrightarrow> to_relay o' = None" by (auto simp: tunnel_settled_def split: option.splits)
  moreover note fallback_counts [OF c(2)] open_tunnel_relays [of inp "established @ leftover" "lv_tunnels (ss_life st)"]
  ultimately show ?thesis using r c op by auto
next
  case False
  note fr = find_route_frame [OF assms(3)]
  have "lv_tunnels (ss_life st') = lv_tunnels (ss_life st)" "opened = shut" "\<exists>status. out = no_tunnel status"
    using assms(1,3) fr False fallback_counts [of attempts now "ss_sup st"]
    by (force simp: handleConnect_def Let_def split: sum.splits prod.splits)+
  with False settled_none [OF assms(2), of inp] show ?thesis by (auto simp: no_tunnel_def)
qed

definition ex_tunnel :: tunnelInput where
  "ex_tunnel = \<lparr>ti_canHijack = True, ti_hijackErr = False, ti_shutdownBetween = False, ti_writeErr = False, ti_buffered = ''hello'', ti_forwardErr = False\<rparr>"

definition ex_url :: URL where
  "ex_url = \<lparr>u_Scheme = ''https'', u_User = False, u_Hostname = ''a.b'', u_Port = ''443'', u_Path = ''/'', u_EscapedPath = ''/'', u_RawQuery = [], u_Fragment = []\<rparr>"

definition ex_route_env :: "unit route_env" where
  "ex_route_env = \<lparr>re_parse = (\<lambda>_. Some ex_url), re_lookup = (\<lambda>_. []), re_call = (\<lambda>vm _ _. (vm, Inl Canceled)), re_now = 0,
     re_load = Inl Canceled, re_fin = 0, re_resolve = (\<lambda>_ _. Inl Canceled)\<rparr>"

definition ex_server :: "(unit, unit) serverState" where
  "ex_server = \<lparr>ss_life = new_server (ex_wproxy\<lparr>wp_Mode := ModeConfig, wp_Servers := ex_pair\<rparr>) None 0, ss_sup = None,
     ss_http = ex_http, ss_budget = newReplayBudget 8\<rparr>"

lemma ex_server_tunnels: "lv_tunnels (ss_life ex_server) = new_tunnels"
  by (simp add: ex_server_def new_server_def)

theorem connect_settles_witness:
  "\<exists>st' opened shut out. handleConnect ex_route_env 5 ex_attempt ''a.b:443'' ex_tunnel ex_server = (st', (opened, shut), out)
     \<and> to_relay out \<noteq> None \<and> opened = Suc shut
     \<and> (\<exists>leftover. tunnel_settled ex_tunnel (established @ leftover) new_tunnels (lv_tunnels (ss_life st'), out))"
proof -
  let ?r = "handleConnect ex_route_env 5 ex_attempt ''a.b:443'' ex_tunnel ex_server"
  have "(case ?r of (_, _, out) \<Rightarrow> to_relay out = Some 0)" by code_simp
  then obtain st' opened shut out where r: "?r = (st', (opened, shut), out)" "to_relay out = Some 0" by (cases ?r) auto
  obtain st1 route where f: "find_route ex_route_env (''https://'' @ connectTarget ''a.b:443'') ex_server = (st1, route)" by fastforce
  have ok: "tunnel_ok (lv_tunnels (ss_life ex_server))" by (simp add: ex_server_tunnels new_tunnels_ok)
  from connect_settles [OF r(1) ok f] have "opened = shut + (if to_relay out = None then 0 else 1)"
    "\<exists>leftover. tunnel_settled ex_tunnel (established @ leftover) (lv_tunnels (ss_life ex_server)) (lv_tunnels (ss_life st'), out)" by blast+
  with r show ?thesis by (auto simp: ex_server_tunnels)
qed

text \<open>C3: A plain request leaves nothing behind. After the handler, on every path, the bytes reserved in the shared
  quota for stored bodies are those before it (unless a temporary file cannot be removed), no pooled connection
  is locked, every authentication session and every response body that it opened is closed, and the registry of
  tunnels is as before, apart from the tunnel of a protocol switch. A request whose body has to be stored and whose
  declared length is over the limit is refused with status 413: nothing is sent, no quota is reserved, and the answer is
  the same whatever the body would give, so nothing of it is read.\<close>

theorem http_request_settles:
  assumes "handleHTTP mac env renv limits ta now inp st = Some (st', ans)" "validateUpstreamAuth (Auth (he_cfg env)) = None"
    and "http_idle st" "tunnel_ok (lv_tunnels (ss_life st))" "bg_used (ss_budget st) \<le> bg_max (ss_budget st)"
    and "list_all removable (hi_reads inp)" "\<forall>e. hi_remove inp \<noteq> RemoveFailed e"
  shows "bg_used (ss_budget st') = bg_used (ss_budget st) \<and> http_idle st' \<and> hs_bodies (ss_http st') = hs_bodies (ss_http st)
    \<and> switch_settled inp (lv_tunnels (ss_life st)) (lv_tunnels (ss_life st'), ans)
    \<and> (find_route renv (http_target inp) st = (st1, Inr proxies) \<and> \<not> hi_urlErr inp
        \<and> needsReplayableBody (he_cfg env) (hi_hasBody inp) (incoming_auth inp) proxies
        \<and> 0 \<le> memoryBytes limits \<and> memoryBytes limits \<le> maxBodyBytes limits \<and> maxBodyBytes limits < hi_contentLength inp
        \<longrightarrow> ans = ErrorAnswer 413 \<and> ss_budget st' = ss_budget st \<and> ss_http st' = ss_http st
          \<and> (\<forall>reads. handleHTTP mac env renv limits ta now (inp\<lparr>hi_reads := reads\<rparr>) st = Some (st', ans)))"
proof -
  obtain st2 route where f: "find_route renv (http_target inp) st = (st2, route)" by fastforce
  note fr = find_route_frame [OF f]
  have idle: "http_idle st2" "tunnel_ok (lv_tunnels (ss_life st2))" using fr assms(3,4) by (simp_all add: http_idle_def)
  have err: "switch_settled inp s (s, ErrorAnswer n)" "switch_settled inp s (s, replay_error_answer e)" for s n e
    by (simp_all add: switch_settled_def replay_error_answer_def)
  show ?thesis
  proof (cases "\<exists>ps. route = Inr ps \<and> \<not> hi_urlErr inp \<and> needsReplayableBody (he_cfg env) (hi_hasBody inp) (incoming_auth inp) ps")
    case True
    then obtain ps where ps: "route = Inr ps" "\<not> hi_urlErr inp" "needsReplayableBody (he_cfg env) (hi_hasBody inp) (incoming_auth inp) ps" by blast
    let ?new = "newReplayableBodyWithLimits True (hi_contentLength inp) limits"
    obtain b1 bs where r: "read_body limits (hi_reads inp) (ss_budget st2) ?new = (b1, bs)" by fastforce
    have "settled_state ?new" by (simp add: newReplayableBodyWithLimits_def)
    with read_body_budget [OF r] body_new_ok assms(5,6) fr
    have inv: "bg_used b1 - held bs = bg_used (ss_budget st)" "body_ok bs" "settled_state bs" by simp_all
    have "bg_used (ss_budget st') = bg_used (ss_budget st) \<and> http_idle st' \<and> hs_bodies (ss_http st') = hs_bodies (ss_http st)
        \<and> switch_settled inp (lv_tunnels (ss_life st)) (lv_tunnels (ss_life st'), ans)"
    proof (cases bs)
      case (Ready rb)
      obtain st3 an where s: "send_http mac env ta now inp True ps (st2\<lparr>ss_budget := b1\<rparr>) = (st3, an)" by fastforce
      have post: "http_idle st3 \<and> hs_bodies (ss_http st3) = hs_bodies (ss_http st) \<and> ss_budget st3 = b1
          \<and> switch_settled inp (lv_tunnels (ss_life st)) (lv_tunnels (ss_life st3), an)"
        using send_http_post [OF s assms(2)] idle fr by (simp add: http_idle_def)
      obtain b2 rb2 e2 where c: "body_Close b1 rb (hi_remove inp) = (b2, rb2, e2)" by (cases "body_Close b1 rb (hi_remove inp)")
      with assms(1) f ps r Ready s post have "st' = st3\<lparr>ss_budget := b2\<rparr>" "ans = an" by (auto simp: handleHTTP_def)
      moreover have "0 \<le> rb_reserved rb" using inv(2) Ready by (simp add: body_ok_def)
      then have "bg_used b2 = bg_used (ss_budget st)"
        using c inv Ready assms(7) by (auto simp: body_Close_def split: removeResult.splits if_splits)
      ultimately show ?thesis using post by (simp add: http_idle_def)
    qed (use assms(1) f ps r inv fr idle err in \<open>auto simp: handleHTTP_def http_idle_def\<close>)
    moreover have "ans = ErrorAnswer 413 \<and> ss_budget st' = ss_budget st \<and> ss_http st' = ss_http st
        \<and> (\<forall>reads. handleHTTP mac env renv limits ta now (inp\<lparr>hi_reads := reads\<rparr>) st = Some (st', ans))"
      if "0 \<le> memoryBytes limits" "memoryBytes limits \<le> maxBodyBytes limits" "maxBodyBytes limits < hi_contentLength inp"
      using f ps assms(1) that fr
      by (auto simp: handleHTTP_def http_target_def incoming_auth_def newReplayableBodyWithLimits_def replay_error_answer_def errReplayBodyTooLarge_def)
    ultimately show ?thesis by blast
  next
    case False
    then have "(\<exists>n. ans = ErrorAnswer n \<and> ss_life st' = ss_life st2 \<and> ss_http st' = ss_http st2 \<and> ss_budget st' = ss_budget st2)
        \<or> (\<exists>ps. send_http mac env ta now inp False ps st2 = (st', ans))"
      using assms(1) f by (auto simp: handleHTTP_def split: sum.splits if_splits)
    then have "bg_used (ss_budget st') = bg_used (ss_budget st) \<and> http_idle st' \<and> hs_bodies (ss_http st') = hs_bodies (ss_http st)
        \<and> switch_settled inp (lv_tunnels (ss_life st)) (lv_tunnels (ss_life st'), ans)"
      using send_http_post [OF _ assms(2) idle] idle fr err by (auto simp: http_idle_def)
    with False f show ?thesis by auto
  qed
qed

definition ex_post :: "int \<Rightarrow> httpInput" where
  "ex_post n = \<lparr>hi_isAbs = True, hi_url = ''http://a.b/'', hi_host = ''a.b'', hi_requestURI = ''/'', hi_header = [], hi_urlErr = False, hi_hasBody = True,
     hi_contentLength = n, hi_reads = ex_reads, hi_remove = Removed, hi_full = (\<lambda>_. ex_response), hi_duplex = False, hi_proto = [],
     hi_render = (\<lambda>_. []), hi_tunnel = ex_tunnel, hi_writer = \<lparr>rw_Header = [], rw_Sent = [], rw_Body = []\<rparr>\<rparr>"

lemma ex_post_ok:
  "validateUpstreamAuth (Auth (he_cfg ex_retry)) = None" "http_idle ex_server" "tunnel_ok (lv_tunnels (ss_life ex_server))"
  "bg_used (ss_budget ex_server) \<le> bg_max (ss_budget ex_server)" "list_all removable (hi_reads (ex_post n))" "\<forall>e. hi_remove (ex_post n) \<noteq> RemoveFailed e"
  by (simp_all add: ex_start ex_server_tunnels new_tunnels_ok)
     (simp_all add: ex_server_def ex_http_def http_idle_def newReplayBudget_def ex_post_def ex_reads_def ex_round_def removable_def)

theorem http_request_settles_witness:
  "\<exists>st' st''. (\<exists>rw. handleHTTP (\<lambda>x. x) ex_retry ex_route_env ex_limits ex_trip 0 (ex_post 4) ex_server = Some (st', FinalAnswer rw))
     \<and> bg_used (ss_budget st') = 0 \<and> hs_bodies (ss_http st') = 0
     \<and> handleHTTP (\<lambda>x. x) ex_retry ex_route_env ex_limits ex_trip 0 (ex_post 11) ex_server = Some (st'', ErrorAnswer 413)"
proof -
  let ?h = "\<lambda>n. handleHTTP (\<lambda>x. x) ex_retry ex_route_env ex_limits ex_trip 0 (ex_post n) ex_server"
  have "(case ?h 4 of Some (_, FinalAnswer rw) \<Rightarrow> True | _ \<Rightarrow> False)" "?h 11 \<noteq> None"
    "(case find_route ex_route_env (http_target (ex_post 11)) ex_server of (_, Inr ps) \<Rightarrow> ps = ex_pair | _ \<Rightarrow> False)"
    by code_simp+
  then obtain st' rw st'' ans st1 where h: "?h 4 = Some (st', FinalAnswer rw)" "?h 11 = Some (st'', ans)"
    "find_route ex_route_env (http_target (ex_post 11)) ex_server = (st1, Inr ex_pair)"
    by (auto split: option.splits prod.splits httpAnswer.splits sum.splits)
  have "bg_used (ss_budget ex_server) = 0" "hs_bodies (ss_http ex_server) = 0"
    by (simp_all add: ex_server_def ex_http_def newReplayBudget_def)
  with http_request_settles [OF h(1) ex_post_ok] have "bg_used (ss_budget st') = 0" "hs_bodies (ss_http st') = 0" by simp_all
  moreover have "needsReplayableBody (he_cfg ex_retry) (hi_hasBody (ex_post 11)) (incoming_auth (ex_post 11)) ex_pair" by code_simp
  with http_request_settles [OF h(2) ex_post_ok, of st1 ex_pair] h(3) have "ans = ErrorAnswer 413"
    by (simp add: ex_post_def ex_limits_def)
  ultimately show ?thesis using h by auto
qed

end
