(* ===== verification/Spec2Isabelle.thy ===== *)
theory Spec2Isabelle
  imports Guardian_Worker Supervisor Wproxy Dnsresolver Kerberos_Manager Update_Service Proxy_Tunnels Proxy_Transports Auth_Upstream
    Proxy_Relay Proxy_Handlers
begin

text \<open>
  A verification library for pxgo, a local HTTP proxy that forwards requests, directly or through upstream
  proxies with authentication. The theories follow the packages under \<^verbatim>\<open>src/internal\<close>; every definition has the
  name of the Go declaration it translates, or a name of its own for a part of one.

  \<^bold>\<open>The program.\<close> A Guardian parent process starts one worker process, watches it over a control connection and
  restarts it (\<^verbatim>\<open>guardian\<close>). In the worker a proxy server (\<^verbatim>\<open>proxy\<close>) admits client connections, checks the client's
  address and credentials, asks the routing (\<^verbatim>\<open>wproxy\<close>, \<^verbatim>\<open>pac\<close>, \<^verbatim>\<open>systemproxy\<close>) for the candidates of a target, orders
  them by their health (\<^verbatim>\<open>supervisor\<close>), and sends the request or opens a tunnel through the first that works,
  answering the challenges of upstream proxies. Names are resolved through a cache (\<^verbatim>\<open>dnscache\<close>) over a resolver policy
  (\<^verbatim>\<open>dnsresolver\<close>), Kerberos tickets are kept fresh in the background (\<^verbatim>\<open>kerberos\<close>), and the program updates itself
  (\<^verbatim>\<open>update\<close>).

  \<^bold>\<open>Shared theories.\<close>
  \<^item> \<open>Go_Prelude\<close>: what the code uses of Go: errors as the datatype \<open>goerr\<close> with \<^verbatim>\<open>errors.Is\<close>, times and durations as
    integers of nanoseconds with saturation, maps as association lists in their iteration order, strings as byte
    strings with the ASCII cases of \<^verbatim>\<open>strings\<close>; the locales \<open>machine\<close> (a step function with an invariant),
    \<open>bounded_machine\<close>, \<open>codec\<close> and \<open>line_codec\<close>, and the collections of simplification rules.
  \<^item> \<open>Go_Net\<close>, \<open>Go_Encoding\<close>, \<open>Http_Header\<close>: addresses and networks, UTF-8, UTF-16, UTF-32, base64 and hexadecimal,
    header maps.

  \<^bold>\<open>Processes.\<close>
  \<^item> \<open>Guardian_Core\<close> (\<^verbatim>\<open>state.go\<close>, \<^verbatim>\<open>backoff.go\<close>, \<^verbatim>\<open>watchdog.go\<close>), \<open>Guardian_Protocol\<close> (\<^verbatim>\<open>protocol.go\<close>), \<open>Guardian_Parent\<close>
    (\<^verbatim>\<open>parent.go\<close>) and \<open>Guardian_Worker\<close> (\<^verbatim>\<open>worker.go\<close>): messages survive the connection byte by byte, the listener
    accepts only its own worker, a restart follows only a worker that was ready and carries how long it was, and below
    the composition: the parent understands every worker.
  \<^item> \<open>Supervisor_Health\<close> and \<open>Supervisor\<close> (\<^verbatim>\<open>upstream.go\<close>, \<^verbatim>\<open>outcome.go\<close>, \<^verbatim>\<open>supervisor.go\<close>, \<^verbatim>\<open>recovery.go\<close>, \<^verbatim>\<open>status.go\<close>): the table of
    candidates is bounded, recovery actions run once at a time, and the order keeps the slots of DIRECT.

  \<^bold>\<open>Routing and names.\<close>
  \<^item> \<open>Dnscache\<close> (\<^verbatim>\<open>dnscache.go\<close>): lookups split at their critical sections and interleaved freely; the cache is bounded
    unless the empty host is looked up.
  \<^item> \<open>Dnsresolver\<close> (\<^verbatim>\<open>resolver.go\<close>): endpoints and domain rules, exchanges over UDP, TCP and HTTPS, the check of responses
    and failover: only records that the CNAME chain of the query reaches count, and a configured resolver is never
    replaced by that of the system: what it does not answer is an error.
  \<^item> \<open>Pac_Decode\<close> and \<open>Pac\<close> (\<^verbatim>\<open>pac.go\<close>), \<open>Systemproxy\<close> (\<^verbatim>\<open>systemproxy.go\<close>), \<open>Wproxy\<close> (\<^verbatim>\<open>wproxy.go\<close>): decoding, loading and
    results of PAC scripts against a relation that says what each directive means, parsing of proxy lists, bypass rules,
    and the choice of the candidates; failures never turn into a direct connection.

  \<^bold>\<open>The proxy server\<close>, from the parts to the handlers:
  \<^item> \<open>Proxy_Tunnels\<close> (\<^verbatim>\<open>tunnel.go\<close>, \<^verbatim>\<open>admission.go\<close>) and \<open>Proxy_Transports\<close> (\<^verbatim>\<open>transport_cache.go\<close>): registries as
    machines.
  \<^item> \<open>Auth_Spnego\<close>, \<open>Auth_Ntlm\<close>, \<open>Auth_Client\<close>, \<open>Auth_Client_Safety\<close> (\<^verbatim>\<open>auth_client.go\<close>): tokens and the authentication of
    clients; \<open>Auth_Upstream\<close> (\<^verbatim>\<open>auth_upstream.go\<close>, \<^verbatim>\<open>auth_mechanism.go\<close>): modes and answers to challenges; \<open>Auth_Sessions\<close>
    (\<^verbatim>\<open>authsession.go\<close>, \<^verbatim>\<open>kerberos_session.go\<close>, \<^verbatim>\<open>sspi_windows.go\<close>): the locale \<open>auth_session\<close> for the Go interface of that
    name, interpreted for both implementations.
  \<^item> \<open>Proxy_Runtime\<close> (\<^verbatim>\<open>supervisor_runtime.go\<close>): candidates and outcomes; \<open>Proxy_Socks\<close> (\<^verbatim>\<open>transport.go\<close>): SOCKS handshakes;
    \<open>Proxy_Connect\<close> (\<^verbatim>\<open>connect.go\<close>): the CONNECT handshake and the fallback; \<open>Proxy_Intermediary\<close> (\<^verbatim>\<open>intermediary.go\<close>):
    headers; \<open>Proxy_Relay\<close> (\<^verbatim>\<open>relay.go\<close>): the idle rule; \<open>Proxy_Body\<close> (\<^verbatim>\<open>body.go\<close>): stored bodies and their quota.
  \<^item> \<open>Proxy_Access\<close> (\<^verbatim>\<open>proxy.go\<close>, \<^verbatim>\<open>kerberos_contract.go\<close>, \<^verbatim>\<open>diagnostic.go\<close>): checks of the configuration, listen addresses and
    the gates in front of the handlers.
  \<^item> \<open>Proxy_Lifecycle\<close> (\<^verbatim>\<open>proxy.go\<close>): routing snapshots, reload and shutdown as interleaved critical sections.
  \<^item> \<open>Proxy_Retry\<close> (\<^verbatim>\<open>auth_upstream.go\<close>, \<^verbatim>\<open>transport.go\<close>, \<^verbatim>\<open>proxy.go\<close>): round trips with fallback and authentication.
  \<^item> \<open>Proxy_Handlers\<close> (\<^verbatim>\<open>proxy.go\<close>, \<^verbatim>\<open>connect.go\<close>, \<^verbatim>\<open>intermediary.go\<close>): \<^verbatim>\<open>handleHTTP\<close>, \<^verbatim>\<open>handleConnect\<close> and
    \<^verbatim>\<open>handleHTTPUpgrade\<close> as the composition of the parts above.

  \<^bold>\<open>Tickets and updates.\<close>
  \<^item> \<open>Kerberos_Manager\<close> (\<^verbatim>\<open>kerberos.go\<close>, \<^verbatim>\<open>spnego.go\<close>): refreshes split at their commands beside the cleanup: no ticket outlives
    the manager unless the file system refuses to remove it, and failed passwords are spaced.
  \<^item> \<open>Update_Version\<close> (\<^verbatim>\<open>update.go\<close>), \<open>Update_Policy\<close> (\<^verbatim>\<open>policy.go\<close>), \<open>Update_Staging\<close> (\<^verbatim>\<open>staging.go\<close>) and \<open>Update_Service\<close>
    (\<^verbatim>\<open>service.go\<close>, \<^verbatim>\<open>apply_unix.go\<close>, \<^verbatim>\<open>lock_unix.go\<close>): the order of versions against a reference definition, the choice of a
    release, the authenticity of what is staged and installed, replacement with rollback, and the lock; removals, the
    rollback and the release of the lock may fail, and the theorems say what is left then.

  \<^bold>\<open>How effects are modelled.\<close> State is a record that is passed on; an error is a value. A section under a lock is
  one step, and goroutines are sequences of such steps in any order, so the invariants hold under every
  interleaving. Select and read loops are functions of the list of events that they receive; the result \<open>None\<close>
  means that the loop still waits. Where both cases of a \<^verbatim>\<open>select\<close> can be ready, which one the runtime takes is an
  argument. Loops with a bound in the code (retries, attempts) terminate by that bound;
  no fuel is used. Machine integers are integers with their wrap-around written out, or words.

  \<^bold>\<open>Parameters.\<close> Code outside the repository is an argument: \<^verbatim>\<open>url.Parse\<close>, \<^verbatim>\<open>mime.ParseMediaType\<close>, the JavaScript
  engine of PAC scripts, the system resolver, DNS messages, archives, hashes, clock and random numbers, the NTLM and SSPI libraries, and the
  outcomes of network and file operations. The theorems hold for all of them, except where a hypothesis says
  what is assumed. Letters are compared as ASCII; Unicode case folding is not modelled.

  \<^bold>\<open>Not modelled\<close>: command line, configuration files and process start (\<^verbatim>\<open>main.go\<close>, \<^verbatim>\<open>config\<close>, \<^verbatim>\<open>background\<close>), the
  packing of DNS messages, the settings of the HTTPS client of the resolver, the output formats of Kerberos commands,
  the Windows helper that replaces a running executable, diagnostics and logging, platform backends, the script that
  verifies release artifacts, and scheduling and sockets themselves. These are input and output, code of libraries,
  or tools beside the program.
\<close>

section \<open>Worker and parent\<close>

text \<open>The bytes that a worker's messages are on the control connection.\<close>

definition wire :: "Message list \<Rightarrow> string" where
  "wire ms = concat (map (\<lambda>m. case Session_Send m of Inr s \<Rightarrow> s | Inl _ \<Rightarrow> []) ms)"

lemma finished_talk_messages:
  "finished_talk ms \<Longrightarrow> m \<in> set ms \<Longrightarrow> canonical_message m \<and> message_line m \<noteq> None"
  by (auto simp: finished_talk_def beats_def ready_msg_def stop_msg_def canonical_message_def message_line_def)

lemma read_wire:
  assumes "finished_talk ms"
  shows "readParentControl ioErr (wire ms) = (ms, ioErr)"
proof -
  let ?ss = "map (\<lambda>m. case Session_Send m of Inr s \<Rightarrow> s | Inl _ \<Rightarrow> []) ms"
  have "\<exists>s. Session_Send m = Inr s" if "m \<in> set ms" for m
    using finished_talk_messages [OF assms that] Session_Send_message by blast
  then have "list_all2 (\<lambda>m s. Session_Send m = Inr s) ms ?ss"
    by (fastforce simp: list_all2_map2 list_all2_same)
  moreover have "\<forall>m \<in> set ms. canonical_message m" using finished_talk_messages [OF assms] by blast
  ultimately show ?thesis unfolding wire_def by (intro readParentControl_delivers)
qed

text \<open>C9: The parent understands every worker. Whatever happens to a worker, the bytes it writes are
  read by the parent as exactly the messages the worker meant, and these messages, at whatever
  times they arrive, leave the parent's monitor waiting or end the generation as a normal stop:
  they never make it report a protocol error, a startup failure or a restart.\<close>

theorem parent_understands_worker:
  assumes "RunWorker hooksComplete evs = (w, res)"
    and "map fst xs = fst (readParentControl ioErr (wire (written w)))"
  shows "readParentControl ioErr (wire (written w)) = (written w, ioErr)
    \<and> (case runGeneration opts GenAccepted (msg_rounds xs) of None \<Rightarrow> True | Some r \<Rightarrow> disposition r = ExitNormalStop)"
proof -
  have "finished_talk (written w)"
  proof (cases hooksComplete)
    case True
    with assms(1) have "worker_loop new_worker evs = (w, res)" by (simp add: RunWorker_def)
    from worker_loop_talk [OF speaks_new this] show ?thesis by (rule conjunct1)
  next
    case False
    with assms(1) show ?thesis by (auto simp: RunWorker_def new_worker_def finished_talk_def)
  qed
  then have r: "readParentControl ioErr (wire (written w)) = (written w, ioErr)" by (rule read_wire)
  with assms(2) \<open>finished_talk (written w)\<close> have "finished_talk (map fst xs)" by simp
  from monitor_talk [OF this, of opts] r show ?thesis by auto
qed

theorem parent_understands_worker_witness:
  defines "se \<equiv> \<lparr>se_shutdown = None, se_start = Some None\<rparr>"
    and "w \<equiv> \<lparr>readySent = True, written = [ready_msg, \<lparr>Type = MessageBeat, Sequence = 4\<rparr>], snapshots = 1\<rparr>"
    and "r \<equiv> \<lparr>wr_exit = WorkerExitRestart, wr_err = None\<rparr>"
  shows "readParentControl Canceled (wire (written w)) = (written w, Canceled)"
proof -
  have run: "RunWorker True [(WHeartbeat False 1 None, se), (WReadyTick True None, se), (WHeartbeat False 4 None, se),
      (WHeartbeat True 5 None, se)] = (w, Some r)"
    by (simp add: RunWorker_def new_worker_def worker_step_def write_msg_def stopWorker_def ready_msg_def
        se_def w_def r_def Let_def)
  have "map fst (map (\<lambda>m. (m, 0 :: gotime, NeverReaped, 0 :: gotime)) (fst (readParentControl Canceled (wire (written w))))) =
      fst (readParentControl Canceled (wire (written w)))" by (simp add: o_def)
  from parent_understands_worker [OF run this] show ?thesis by (rule conjunct1)
qed

section \<open>PAC scripts and routes\<close>

text \<open>The directive DIRECT, and a directive for an HTTP proxy whose name is DIRECT in any case; the code does not tell
  the two apart.\<close>

definition says_direct :: "string \<Rightarrow> bool" where
  "says_direct t \<longleftrightarrow> length (str_fields t) = 1 \<and> equal_fold (str_fields t ! 0) ''DIRECT''"

definition names_direct :: "string \<Rightarrow> bool" where
  "names_direct t \<longleftrightarrow>
     length (str_fields t) = 2 \<and> to_upper (str_fields t ! 0) \<in> set [''PROXY'', ''HTTP''] \<and> equal_fold (str_fields t ! 1) ''DIRECT''"

lemma equal_fold_length: "equal_fold s t \<Longrightarrow> length s = length t"
  by (auto simp: equal_fold_def to_lower_def dest: arg_cong [where f = length])

lemma list_all2_ex: "list_all2 (\<lambda>x y. Q y \<longleftrightarrow> P x) xs ys \<Longrightarrow> list_ex Q ys \<longleftrightarrow> list_ex P xs"
  by (induction rule: list_all2_induct) simp_all

lemma directive_direct:
  assumes "pac_directive t = Inr c"
  shows "equal_fold (trim_space c) ''DIRECT'' \<longleftrightarrow> says_direct t \<or> names_direct t"
proof -
  have tc: "trim_space c = c" using pac_directive_chars [OF assms] by (intro trim_space_id) blast
  have long: "\<not> equal_fold a ''DIRECT''" if "6 < length a" for a
    using that equal_fold_length [of a "''DIRECT''"] by auto
  from assms [unfolded pac_directive_means] show ?thesis
    unfolding tc by cases (auto simp: says_direct_def names_direct_def long)
qed

text \<open>C1: When a configured PAC routes directly. For a request that no bypass rule matches, under a configured PAC, a
  route comes only from a run of the script, and DIRECT is among its candidates exactly when one of the directives of
  the script's result is DIRECT, or names an HTTP proxy called DIRECT in any case, which the code does not tell apart;
  every failure on the way is an error, not a direct connection.\<close>

theorem pac_route_direct_only_if_said:
  assumes "wp_Mode w = ModeConfigPAC" "wp_PAC w = Some p"
    and "GetNetloc (re_parse env) rawurl = Inr (netloc, path)"
    and "\<not> isNoProxy (np_set (wp_Rules w)) (np_matchers (wp_Rules w)) (re_lookup env) netloc"
    and "snd (FindProxyForURL env w rawurl) = Inr (servers, n, q)"
  shows "\<exists>rt rt' s. (pac_runtime p = Some rt \<or> (pac_runtime p = None \<and> re_load env = Inr rt))
    \<and> re_call env rt rawurl (srv_Host netloc) = (rt', Inr s)
    \<and> (DirectServer \<in> set servers \<longleftrightarrow> list_ex says_direct (pac_tokens s) \<or> list_ex names_direct (pac_tokens s))"
proof -
  obtain p' out where ev: "FindProxyForURLWithError (re_call env) p (re_now env) (re_load env) (re_fin env) rawurl (srv_Host netloc) = (p', Inr out)"
    and pp: "ParseProxy (re_parse env) out = Inr servers"
    using assms by (auto simp: FindProxyForURL_def route_after_bypass_def route_pac_def wrap_result_def
        split: prod.splits sum.splits)
  from ev obtain rt rt' s where call: "pac_runtime p = Some rt \<or> (pac_runtime p = None \<and> re_load env = Inr rt)"
      "re_call env rt rawurl (srv_Host netloc) = (rt', Inr s)" and norm: "NormalizeResult s = Inr out"
    by (auto simp: FindProxyForURLWithError_def ensureLoaded_def store_load_def
        split: prod.splits sum.splits option.splits if_splits)
  let ?P = "\<lambda>i. equal_fold (trim_space i) ''DIRECT''"
  have "list_all2 (\<lambda>t i. ?P i \<longleftrightarrow> says_direct t \<or> names_direct t) (pac_tokens s) (split_on (CHR '','') out)"
    using NormalizeResult_split [OF norm] by (rule list_all2_mono) (rule directive_direct)
  then have "list_ex ?P (split_on (CHR '','') out) \<longleftrightarrow> list_ex (\<lambda>t. says_direct t \<or> names_direct t) (pac_tokens s)"
    by (rule list_all2_ex)
  with ParseProxy_facts [OF pp] call show ?thesis by (auto simp: list_ex_iff)
qed

theorem pac_route_direct_only_if_said_witness:
  defines "p \<equiv> (Pac_NewWithDNS ''x'' [])\<lparr>pac_runtime := Some (5 :: nat)\<rparr>"
  defines "w \<equiv> \<lparr>wp_Mode = ModeConfigPAC, wp_Source = RouteSourceConfigPAC, wp_SystemProxySupported = True, wp_Servers = [],
      wp_Rules = no_rules, wp_NoProxyHostsStr = [], wp_PAC = Some p, wp_resolver = False,
      wp_systemConfig = no_config, wp_env = \<lparr>ep_byScheme = [], ep_all = []\<rparr>\<rparr>"
    and "env \<equiv> \<lparr>re_parse = (\<lambda>_. Some \<lparr>u_Scheme = ''http'', u_User = False, u_Hostname = ''h'', u_Port = [], u_Path = [],
      u_EscapedPath = [], u_RawQuery = [], u_Fragment = []\<rparr>), re_lookup = (\<lambda>_. []),
      re_call = (\<lambda>vm _ _. (vm, Inr ''DIRECT'')),
      re_now = 0, re_load = Inl Canceled, re_fin = 0, re_resolve = (\<lambda>_ _. Inl Canceled)\<rparr>"
  shows "\<exists>rt rt' s. (pac_runtime p = Some rt \<or> (pac_runtime p = None \<and> re_load env = Inr rt))
    \<and> re_call env rt ''http://h'' ''h'' = (rt', Inr s) \<and> (list_ex says_direct (pac_tokens s) \<or> list_ex names_direct (pac_tokens s))"
proof -
  let ?n = "\<lparr>srv_Host = ''h'', srv_Port = 80, srv_Scheme = ''http''\<rparr>"
  have "''http://h'' = ''http'' @ ''://'' @ ''h''" by simp
  then have c: "contains_str ''http://h'' ''://''" unfolding contains_str_def sublist_def by blast
  have v: "validateHost ''h'' = None" by code_simp
  have net: "GetNetloc (re_parse env) ''http://h'' = Inr (?n, ''/'')"
    using c v by (simp add: GetNetloc_def env_def to_lower_def lower_char_def)
  have no: "\<not> isNoProxy (np_set (wp_Rules w)) (np_matchers (wp_Rules w)) (re_lookup env) ?n"
    by (simp add: isNoProxy_def w_def no_rules_def empty_set_def IPSet_Size_def)
  have "NormalizeResult ''DIRECT'' = Inr ''DIRECT''" by code_simp
  moreover have "ParseProxy url_Parse ''DIRECT'' = Inr [DirectServer]" for url_Parse by code_simp
  ultimately have "snd (FindProxyForURL env w ''http://h'') = Inr ([DirectServer], ?n, ''/'')"
    using net no by (simp add: FindProxyForURL_def route_after_bypass_def route_pac_def FindProxyForURLWithError_def
        ensureLoaded_def wrap_result_def w_def p_def) (simp add: env_def)
  from pac_route_direct_only_if_said [OF _ _ net no this] show ?thesis by (simp add: w_def)
qed

end
